(* ===== verification/Sbi_Prelude.thy ===== *)
theory Sbi_Prelude
  imports Main "HOL-Library.Word"
begin

unbundle bit_operations_syntax

text \<open>
  Shared ground of the development: the C integer types of \<open>include/sbi/sbi_types.h\<close> for
  RV64 (\<open>__riscv_xlen = 64\<close>), the error codes of \<open>include/sbi/sbi_error.h\<close>, byte memory
  as lists of bytes, and the generic facts on words and lists that the component theories
  rest on.

  A C function that returns an \<open>int\<close> error code returns an \<^typ>\<open>int\<close> here, because several
  of them pass through codes that a platform callback chose; the named codes are constants.
\<close>

named_theorems sbi_defs \<open>constants of the C headers\<close>
named_theorems sbi_bits \<open>bit-level reading of word expressions\<close>

subsection \<open>Types and error codes\<close>

type_synonym u8 = "8 word"
type_synonym u16 = "16 word"
type_synonym u32 = "32 word"
type_synonym u64 = "64 word"
type_synonym ulong = "64 word"

definition SBI_OK :: int where [simp, sbi_defs]: "SBI_OK = 0"
definition SBI_EFAIL :: int where [simp, sbi_defs]: "SBI_EFAIL = -1"
definition SBI_ENOTSUPP :: int where [simp, sbi_defs]: "SBI_ENOTSUPP = -2"
definition SBI_EINVAL :: int where [simp, sbi_defs]: "SBI_EINVAL = -3"
definition SBI_EDENIED :: int where [simp, sbi_defs]: "SBI_EDENIED = -4"
definition SBI_EINVALID_ADDR :: int where [simp, sbi_defs]: "SBI_EINVALID_ADDR = -5"
definition SBI_EALREADY :: int where [simp, sbi_defs]: "SBI_EALREADY = -6"
definition SBI_EALREADY_STARTED :: int where [simp, sbi_defs]: "SBI_EALREADY_STARTED = -7"
definition SBI_EALREADY_STOPPED :: int where [simp, sbi_defs]: "SBI_EALREADY_STOPPED = -8"
definition SBI_ENO_SHMEM :: int where [simp, sbi_defs]: "SBI_ENO_SHMEM = -9"
definition SBI_EINVALID_STATE :: int where [simp, sbi_defs]: "SBI_EINVALID_STATE = -10"
definition SBI_EBAD_RANGE :: int where [simp, sbi_defs]: "SBI_EBAD_RANGE = -11"
definition SBI_EDENIED_LOCKED :: int where [simp, sbi_defs]: "SBI_EDENIED_LOCKED = -14"
definition SBI_ENOSPC :: int where [simp, sbi_defs]: "SBI_ENOSPC = -1003"
definition SBI_ENOMEM :: int where [simp, sbi_defs]: "SBI_ENOMEM = -1004"
definition SBI_ENOENT :: int where [simp, sbi_defs]: "SBI_ENOENT = -1006"

text \<open>Privilege modes (\<open>PRV_U\<close>, \<open>PRV_S\<close>, \<open>PRV_M\<close> of \<open>riscv_encoding.h\<close>).\<close>

definition PRV_U :: ulong where [simp, sbi_defs]: "PRV_U = 0"
definition PRV_S :: ulong where [simp, sbi_defs]: "PRV_S = 1"
definition PRV_M :: ulong where [simp, sbi_defs]: "PRV_M = 3"

subsection \<open>Byte memory\<close>

definition mem_read :: "u8 list \<Rightarrow> nat \<Rightarrow> nat \<Rightarrow> u8 list" where
  "mem_read mem off n = take n (drop off mem)"

definition mem_write :: "u8 list \<Rightarrow> nat \<Rightarrow> u8 list \<Rightarrow> u8 list" where
  "mem_write mem off bs = take off mem @ bs @ drop (off + length bs) mem"

lemma length_mem_write [simp]:
  "off + length bs \<le> length mem \<Longrightarrow> length (mem_write mem off bs) = length mem"
  by (simp add: mem_write_def)

lemma length_mem_read [simp]:
  "off + n \<le> length mem \<Longrightarrow> length (mem_read mem off n) = n"
  by (simp add: mem_read_def)

lemma mem_read_write_same [simp]:
  "off + length bs \<le> length mem \<Longrightarrow> n = length bs \<Longrightarrow> mem_read (mem_write mem off bs) off n = bs"
  by (simp add: mem_read_def mem_write_def)

lemma mem_read_write_before:
  assumes "off' + n \<le> off" and "off \<le> length mem"
  shows "mem_read (mem_write mem off bs) off' n = mem_read mem off' n"
proof -
  obtain d where d: "off = off' + n + d"
    using assms(1) le_Suc_ex by blast
  have "n \<le> length (drop off' mem)" using assms by simp
  then show ?thesis
    using assms(2) by (simp add: mem_read_def mem_write_def d drop_take add.assoc)
qed

lemma mem_read_write_after:
  assumes "off + length bs \<le> off'" and "off + length bs \<le> length mem"
  shows "mem_read (mem_write mem off bs) off' n = mem_read mem off' n"
proof -
  obtain d where d: "off' = off + length bs + d"
    using assms(1) le_Suc_ex by blast
  show ?thesis
    using assms(2) by (simp add: mem_read_def mem_write_def d algebra_simps)
qed

lemmas mem_read_write_other = mem_read_write_before mem_read_write_after

lemma nth_mem_write:
  "off + length bs \<le> length mem \<Longrightarrow> i < length mem \<Longrightarrow>
    mem_write mem off bs ! i = (if off \<le> i \<and> i < off + length bs then bs ! (i - off) else mem ! i)"
  by (auto simp: mem_write_def nth_append min_def)

subsection \<open>Words\<close>

text \<open>
  \<open>1UL << n\<close>. In C the shift is undefined for \<open>n >= 64\<close>; RV64's \<open>sll\<close>, which the compiler
  emits for a variable shift amount, uses the low six bits of the amount. The model takes
  the machine's meaning, so \<open>BIT 64 = BIT 0\<close>.
\<close>

definition BIT :: "nat \<Rightarrow> ulong" where
  "BIT n = push_bit (n mod 64) 1"

lemma BIT_lt: "n < 64 \<Longrightarrow> BIT n = push_bit n 1"
  by (simp add: BIT_def)

lemma bit_BIT [sbi_bits]: "bit (BIT n) i \<longleftrightarrow> i = n mod 64"
  by (auto simp: BIT_def bit_simps)

lemma unat_2p: "n < 64 \<Longrightarrow> unat ((2::ulong) ^ n) = 2 ^ n"
proof -
  assume n: "n < 64"
  have "(2::nat) ^ n < 2 ^ 64" using n by (intro power_strict_increasing) simp_all
  then have "unat (of_nat (2 ^ n) :: ulong) = 2 ^ n"
    by (simp add: unat_of_nat del: of_nat_power)
  then show ?thesis by simp
qed

lemma BIT_2p: "n < 64 \<Longrightarrow> BIT n = 2 ^ n"
  by (simp add: BIT_def push_bit_eq_mult)

lemma unat_BIT: "n < 64 \<Longrightarrow> unat (BIT n) = 2 ^ n"
  by (simp add: BIT_2p unat_2p)

lemma bit_word_lt: "bit (w :: ulong) n \<Longrightarrow> n < 64"
  using bit_imp_le_length by fastforce

lemma unat_word_lt: "unat (w :: 'a::len word) < 2 ^ LENGTH('a)"
  by (rule unsigned_less)

lemma unat_u16_lt: "unat (w :: u16) < 65536"
  using unat_word_lt [of w] by simp

lemma unat_u32_lt: "unat (w :: u32) < 4294967296"
  using unat_word_lt [of w] by simp

lemma unat_ulong_lt: "unat (w :: ulong) < 18446744073709551616"
  using unat_word_lt [of w] by simp

lemma unat_ucast_up:
  assumes "LENGTH('a) \<le> LENGTH('b)"
  shows "unat (ucast (w :: 'a::len word) :: 'b::len word) = unat w"
proof -
  have "unat w < 2 ^ LENGTH('a)" by (rule unat_word_lt)
  also have "(2::nat) ^ LENGTH('a) \<le> 2 ^ LENGTH('b)"
    using assms by (intro power_increasing) simp_all
  finally show ?thesis by (simp add: unsigned_ucast_eq take_bit_nat_eq_self)
qed

lemma unat_Suc_word: "unat (x :: 'a::len word) < n \<Longrightarrow> n < 2 ^ LENGTH('a) \<Longrightarrow> unat (x + 1) = Suc (unat x)"
  using unat_word_ariths(1) [of x 1] by (simp add: unat_1)

lemma unat_pred_word: "0 < unat (x :: 'a::len word) \<Longrightarrow> unat (x - 1) = unat x - 1"
  by (metis unat_gt_0 unat_minus_one)

lemma bit_nonzero: "bit (w :: 'a::len word) n \<Longrightarrow> w \<noteq> 0"
  by auto

lemma word_eq_0_iff_bit: "(w :: ulong) = 0 \<longleftrightarrow> (\<forall>n<64. \<not> bit w n)"
  by (auto simp: bit_eq_iff dest: bit_word_lt)

lemma bit_NOT0_ulong [sbi_bits]: "bit (NOT (0::ulong)) i \<longleftrightarrow> i < 64"
  by (simp add: bit_simps)

lemma bit_ones_shr [sbi_bits]:
  "n \<le> 64 \<Longrightarrow> bit (drop_bit (64 - n) (NOT (0::ulong))) i \<longleftrightarrow> i < n"
  by (auto simp: bit_simps dest: bit_word_lt)

lemma bit_ones_shl [sbi_bits]:
  "bit (push_bit n (NOT (0::ulong))) i \<longleftrightarrow> n \<le> i \<and> i < 64"
  by (auto simp: bit_simps dest: bit_word_lt)

text \<open>Clearing the low bits of a size rounds it down to a multiple of a power of two.\<close>

lemma unat_and_not_mask:
  assumes "k < 64"
  shows "unat ((w :: ulong) AND NOT (2 ^ k - 1)) = unat w div 2 ^ k * 2 ^ k"
proof -
  have "w AND NOT (2 ^ k - 1) = w AND NOT (mask k)" by (simp add: mask_eq_exp_minus_1)
  also have "\<dots> = push_bit k (drop_bit k w)"
    by (rule bit_word_eqI) (auto simp: bit_simps)
  finally have "unat (w AND NOT (2 ^ k - 1)) = unat (push_bit k (drop_bit k w))" by simp
  also have "\<dots> = take_bit 64 (push_bit k (drop_bit k (unat w)))"
    by (simp only: unsigned_push_bit_eq unsigned_drop_bit_eq) (simp add: take_bit_nat_eq_self unat_ulong_lt)
  finally have "unat (w AND NOT (2 ^ k - 1)) = take_bit 64 (unat w div 2 ^ k * 2 ^ k)"
    by (simp only: push_bit_eq_mult drop_bit_eq_div)
  moreover have "unat w div 2 ^ k * 2 ^ k < 2 ^ 64"
    using le_less_trans [OF div_times_less_eq_dividend unat_ulong_lt] by simp
  ultimately show ?thesis by (simp add: take_bit_nat_eq_self)
qed

lemma unat_add_nowrap: "unat (a :: ulong) + unat b < 2 ^ 64 \<Longrightarrow> unat (a + b) = unat a + unat b"
  using unat_add_lem [of a b] by simp

lemma unat_sub_le: "b \<le> (a :: ulong) \<Longrightarrow> unat (a - b) = unat a - unat b"
  by (rule unat_sub)

text \<open>
  \<open>round_up\<close> is the mathematical meaning of the two-step rounding
  \<open>size += align - 1; size &= ~(align - 1)\<close> when the addition does not wrap.
\<close>

definition round_up :: "nat \<Rightarrow> nat \<Rightarrow> nat" where
  "round_up a n = (n + (a - 1)) div a * a"

lemma round_up_ge: "0 < a \<Longrightarrow> n \<le> round_up a n"
proof -
  assume a: "0 < a"
  have "n + (a - 1) = round_up a n + (n + (a - 1)) mod a" by (simp add: round_up_def)
  moreover have "(n + (a - 1)) mod a \<le> a - 1" using mod_less_divisor [OF a, of "n + (a - 1)"] by linarith
  ultimately show ?thesis by linarith
qed

lemma round_up_le: "round_up a n \<le> n + (a - 1)"
  by (simp add: round_up_def)

lemma dvd_round_up: "a dvd round_up a n"
  by (simp add: round_up_def)

lemma unat_round_up:
  assumes "k < 64" and "unat (sz :: ulong) + (2 ^ k - 1) < 2 ^ 64"
  shows "unat ((sz + 2 ^ k - 1) AND NOT (2 ^ k - 1)) = round_up (2 ^ k) (unat sz)"
proof -
  have p: "unat ((2::ulong) ^ k) = 2 ^ k" using assms(1) by (rule unat_2p)
  then have "unat ((2::ulong) ^ k - 1) = 2 ^ k - 1" by (subst unat_pred_word) simp_all
  then have "unat (sz + (2 ^ k - 1)) = unat sz + (2 ^ k - 1)"
    using assms(2) by (simp add: unat_add_nowrap)
  then show ?thesis
    using unat_and_not_mask [OF assms(1), of "sz + (2 ^ k - 1)"]
    by (simp add: round_up_def add_diff_eq)
qed

end
