(* ===== verification/Sbi_Bitops.thy ===== *)
theory Sbi_Bitops
  imports Sbi_Prelude
begin

unbundle bit_operations_syntax

text \<open>
  The bit primitives: \<open>include/sbi/sbi_bitops.h\<close> (\<open>sbi_ffs\<close>, \<open>sbi_fls\<close>, \<open>sbi_popcount\<close>,
  the single-bit operations), \<open>lib/sbi/sbi_bitops.c\<close> (the \<open>find_*_bit\<close> searches) and
  \<open>log2roundup\<close> of \<open>lib/sbi/sbi_math.c\<close>.

  A bitmap in memory is an \<^typ>\<open>ulong list\<close>; a pointer into it is an index. Sizes, offsets
  and results of the searches are \<^typ>\<open>nat\<close>: every loop keeps \<open>result + size\<close> constant, so
  no \<open>unsigned long\<close> in them wraps around. A search reads no word beyond the one that
  holds bit \<open>size - 1\<close>. The theorems have no hypothesis on the length of the list: they equate the words the code
  reads with the same elements of the list, and a bit beyond its end has no specified value on either side. They speak of
  the program for a bitmap of at least \<open>size\<close> bits, which is what the callers pass.
\<close>

subsection \<open>Single words\<close>

text \<open>One halving step of \<open>sbi_ffs\<close>: skip \<open>k\<close> low bits when they are all zero.\<close>

definition ffs_step :: "nat \<Rightarrow> ulong \<Rightarrow> nat \<times> ulong \<Rightarrow> nat \<times> ulong" where
  "ffs_step k m nw = (case nw of (num, word) \<Rightarrow>
     if word AND m = 0 then (num + k, drop_bit k word) else (num, word))"

definition sbi_ffs :: "ulong \<Rightarrow> nat" where
  "sbi_ffs word =
    (let (num, word) = ffs_step 32 0xffffffff (0, word);
         (num, word) = ffs_step 16 0xffff (num, word);
         (num, word) = ffs_step 8 0xff (num, word);
         (num, word) = ffs_step 4 0xf (num, word);
         (num, word) = ffs_step 2 0x3 (num, word)
     in if word AND 0x1 = 0 then num + 1 else num)"

definition sbi_ffz :: "ulong \<Rightarrow> nat" where
  "sbi_ffz x = sbi_ffs (NOT x)"

text \<open>One step of \<open>sbi_fls\<close>: shift \<open>k\<close> high bits out when they are all zero.\<close>

definition fls_step :: "nat \<Rightarrow> nat \<times> ulong \<Rightarrow> nat \<times> ulong" where
  "fls_step k nw = (case nw of (num, word) \<Rightarrow>
     if word AND push_bit (64 - k) (NOT 0) = 0 then (num - k, push_bit k word) else (num, word))"

definition sbi_fls :: "ulong \<Rightarrow> nat" where
  "sbi_fls word =
    (let (num, word) = fls_step 32 (63, word);
         (num, word) = fls_step 16 (num, word);
         (num, word) = fls_step 8 (num, word);
         (num, word) = fls_step 4 (num, word);
         (num, word) = fls_step 2 (num, word)
     in if word AND push_bit 63 (NOT 0) = 0 then num - 1 else num)"

text \<open>\<open>word &= word - 1\<close> clears the lowest set bit, so the loop runs once per set bit.\<close>

lemma and_minus_1_less: "(w :: ulong) \<noteq> 0 \<Longrightarrow> w AND (w - 1) < w"
proof -
  assume w: "w \<noteq> 0"
  have "w AND (w - 1) \<le> w - 1" by (rule word_and_le1)
  moreover have "w - 1 < w" using w by (simp add: measure_unat word_less_nat_alt)
  ultimately show ?thesis by (rule order_le_less_trans)
qed

function popcount_loop :: "ulong \<Rightarrow> nat \<Rightarrow> nat" where
  "popcount_loop word count =
    (if word \<noteq> 0 then popcount_loop (word AND (word - 1)) (count + 1) else count)"
  by pat_completeness auto
termination
  by (relation "measure (\<lambda>(w, c). unat w)") (auto simp: and_minus_1_less unat_mono)

declare popcount_loop.simps [simp del]

definition sbi_popcount :: "ulong \<Rightarrow> nat" where
  "sbi_popcount word = popcount_loop word 0"

text \<open>\<open>log2roundup\<close> of \<open>sbi_math.c\<close>: \<open>1UL << ret\<close> with \<open>ret < 64\<close>.\<close>

function log2roundup_loop :: "ulong \<Rightarrow> nat \<Rightarrow> nat" where
  "log2roundup_loop x ret =
    (if ret < 64 then (if x \<le> BIT ret then ret else log2roundup_loop x (ret + 1)) else ret)"
  by pat_completeness auto
termination
  by (relation "measure (\<lambda>(x, ret). 64 - ret)") auto

declare log2roundup_loop.simps [simp del]

definition log2roundup :: "ulong \<Rightarrow> nat" where
  "log2roundup x = log2roundup_loop x 0"

subsection \<open>Bitmaps in memory\<close>

definition BIT_MASK :: "nat \<Rightarrow> ulong" where
  "BIT_MASK nr = push_bit (nr mod 64) 1"

definition BIT_WORD :: "nat \<Rightarrow> nat" where
  "BIT_WORD nr = nr div 64"

definition set_bit_mem :: "nat \<Rightarrow> ulong list \<Rightarrow> ulong list" where
  "set_bit_mem nr addr = addr[BIT_WORD nr := addr ! BIT_WORD nr OR BIT_MASK nr]"

definition clear_bit_mem :: "nat \<Rightarrow> ulong list \<Rightarrow> ulong list" where
  "clear_bit_mem nr addr = addr[BIT_WORD nr := addr ! BIT_WORD nr AND NOT (BIT_MASK nr)]"

definition change_bit_mem :: "nat \<Rightarrow> ulong list \<Rightarrow> ulong list" where
  "change_bit_mem nr addr = addr[BIT_WORD nr := addr ! BIT_WORD nr XOR BIT_MASK nr]"

definition test_and_set_bit_mem :: "nat \<Rightarrow> ulong list \<Rightarrow> bool \<times> ulong list" where
  "test_and_set_bit_mem nr addr =
    (let old = addr ! BIT_WORD nr
     in (old AND BIT_MASK nr \<noteq> 0, addr[BIT_WORD nr := old OR BIT_MASK nr]))"

definition test_and_clear_bit_mem :: "nat \<Rightarrow> ulong list \<Rightarrow> bool \<times> ulong list" where
  "test_and_clear_bit_mem nr addr =
    (let old = addr ! BIT_WORD nr
     in (old AND BIT_MASK nr \<noteq> 0, addr[BIT_WORD nr := old AND NOT (BIT_MASK nr)]))"

definition test_bit_mem :: "nat \<Rightarrow> ulong list \<Rightarrow> bool" where
  "test_bit_mem nr addr = (1 AND drop_bit (nr mod 64) (addr ! BIT_WORD nr) \<noteq> 0)"

text \<open>
  The searches. \<open>size & ~(BITS_PER_LONG-1)\<close> is non-zero exactly when \<open>size >= 64\<close>; \<open>p\<close> is
  the index of the word the C pointer points to. The \<open>goto found\<close> targets are the
  right-hand sides.
\<close>

function find_first_bit_loop :: "ulong list \<Rightarrow> nat \<Rightarrow> nat \<Rightarrow> nat \<Rightarrow> nat" where
  "find_first_bit_loop addr p sz result =
    (if 64 \<le> sz then
       (let tmp = addr ! p
        in if tmp \<noteq> 0 then result + sbi_ffs tmp
           else find_first_bit_loop addr (p + 1) (sz - 64) (result + 64))
     else if sz = 0 then result
     else (let tmp = addr ! p AND drop_bit (64 - sz) (NOT 0)
           in if tmp = 0 then result + sz else result + sbi_ffs tmp))"
  by pat_completeness auto
termination
  by (relation "measure (\<lambda>(addr, p, sz, result). sz)") auto

declare find_first_bit_loop.simps [simp del]

definition find_first_bit :: "ulong list \<Rightarrow> nat \<Rightarrow> nat" where
  "find_first_bit addr sz = find_first_bit_loop addr 0 sz 0"

function find_first_zero_bit_loop :: "ulong list \<Rightarrow> nat \<Rightarrow> nat \<Rightarrow> nat \<Rightarrow> nat" where
  "find_first_zero_bit_loop addr p sz result =
    (if 64 \<le> sz then
       (let tmp = addr ! p
        in if NOT tmp \<noteq> 0 then result + sbi_ffz tmp
           else find_first_zero_bit_loop addr (p + 1) (sz - 64) (result + 64))
     else if sz = 0 then result
     else (let tmp = addr ! p OR push_bit sz (NOT 0)
           in if tmp = NOT 0 then result + sz else result + sbi_ffz tmp))"
  by pat_completeness auto
termination
  by (relation "measure (\<lambda>(addr, p, sz, result). sz)") auto

declare find_first_zero_bit_loop.simps [simp del]

definition find_first_zero_bit :: "ulong list \<Rightarrow> nat \<Rightarrow> nat" where
  "find_first_zero_bit addr sz = find_first_zero_bit_loop addr 0 sz 0"

fun find_last_bit_loop :: "ulong list \<Rightarrow> nat \<Rightarrow> nat \<Rightarrow> nat" where
  "find_last_bit_loop addr sz 0 = sz"
| "find_last_bit_loop addr sz (Suc words) =
    (let tmp = addr ! words
     in if tmp \<noteq> 0 then words * 64 + sbi_fls tmp else find_last_bit_loop addr sz words)"

definition find_last_bit :: "ulong list \<Rightarrow> nat \<Rightarrow> nat" where
  "find_last_bit addr sz =
    (let words = sz div 64
     in if sz mod 64 \<noteq> 0
        then (let tmp = addr ! words AND drop_bit (64 - sz mod 64) (NOT 0)
              in if tmp \<noteq> 0 then words * 64 + sbi_fls tmp
                 else find_last_bit_loop addr sz words)
        else find_last_bit_loop addr sz words)"

definition find_next_bit :: "ulong list \<Rightarrow> nat \<Rightarrow> nat \<Rightarrow> nat" where
  "find_next_bit addr sz offset =
    (let p = offset div 64; result = offset - offset mod 64
     in if sz \<le> offset then sz
        else let sz = sz - result; offset = offset mod 64
        in if offset \<noteq> 0 then
             (let tmp = addr ! p AND push_bit offset (NOT 0)
              in if sz < 64 then
                   (let tmp = tmp AND drop_bit (64 - sz) (NOT 0)
                    in if tmp = 0 then result + sz else result + sbi_ffs tmp)
                 else if tmp \<noteq> 0 then result + sbi_ffs tmp
                 else find_first_bit_loop addr (p + 1) (sz - 64) (result + 64))
           else find_first_bit_loop addr p sz result)"

definition find_next_zero_bit :: "ulong list \<Rightarrow> nat \<Rightarrow> nat \<Rightarrow> nat" where
  "find_next_zero_bit addr sz offset =
    (let p = offset div 64; result = offset - offset mod 64
     in if sz \<le> offset then sz
        else let sz = sz - result; offset = offset mod 64
        in if offset \<noteq> 0 then
             (let tmp = addr ! p OR drop_bit (64 - offset) (NOT 0)
              in if sz < 64 then
                   (let tmp = tmp OR push_bit sz (NOT 0)
                    in if tmp = NOT 0 then result + sz else result + sbi_ffz tmp)
                 else if NOT tmp \<noteq> 0 then result + sbi_ffz tmp
                 else find_first_zero_bit_loop addr (p + 1) (sz - 64) (result + 64))
           else find_first_zero_bit_loop addr p sz result)"

text \<open>
  \<open>for_each_set_bit(bit, addr, size)\<close>: the bits the loop visits, in order. The loop
  terminates because \<open>find_next_bit\<close> from \<open>bit + 1\<close> never goes back; the fuel is \<open>size\<close>,
  the largest number of bits there can be.
\<close>

fun for_each_set_bit_loop :: "nat \<Rightarrow> ulong list \<Rightarrow> nat \<Rightarrow> nat \<Rightarrow> nat list" where
  "for_each_set_bit_loop 0 addr sz b = []"
| "for_each_set_bit_loop (Suc fuel) addr sz b =
    (if b < sz then b # for_each_set_bit_loop fuel addr sz (find_next_bit addr sz (b + 1))
     else [])"

definition for_each_set_bit :: "ulong list \<Rightarrow> nat \<Rightarrow> nat list" where
  "for_each_set_bit addr sz = for_each_set_bit_loop sz addr sz (find_first_bit addr sz)"


subsection \<open>The word primitives find what they promise\<close>

definition is_low_bit :: "ulong \<Rightarrow> nat \<Rightarrow> bool" where
  "is_low_bit w n \<longleftrightarrow> bit w n \<and> (\<forall>i<n. \<not> bit w i)"

definition is_high_bit :: "ulong \<Rightarrow> nat \<Rightarrow> bool" where
  "is_high_bit w n \<longleftrightarrow> bit w n \<and> (\<forall>i>n. \<not> bit w i)"

lemma ex_low_bit: "w \<noteq> 0 \<Longrightarrow> \<exists>n<64. is_low_bit w n"
proof -
  assume "w \<noteq> 0"
  then obtain m where "bit w m" by (auto simp: bit_eq_iff)
  then have "is_low_bit w (LEAST n. bit w n)"
    unfolding is_low_bit_def by (metis LeastI not_less_Least)
  then show ?thesis unfolding is_low_bit_def using bit_word_lt by blast
qed

lemma ex_high_bit: "w \<noteq> 0 \<Longrightarrow> \<exists>n<64. is_high_bit w n"
proof -
  assume "w \<noteq> 0"
  then obtain m where m: "bit w m" by (auto simp: bit_eq_iff)
  have fin: "finite {n. bit w n}"
    by (rule finite_subset [of _ "{..<64}"]) (auto dest: bit_word_lt)
  have "bit w (Max {n. bit w n})" using m Max_in [OF fin] by blast
  moreover have "\<not> bit w i" if "Max {n. bit w n} < i" for i
    by (metis (full_types) Max_ge fin mem_Collect_eq not_le that)
  ultimately show ?thesis unfolding is_high_bit_def using bit_word_lt by blast
qed

lemma ffs_step_low:
  assumes "is_low_bit w n" and "n < 2 * k" and "m = mask k" and "ffs_step k m (num, w) = (num', w')"
  shows "\<exists>n'. is_low_bit w' n' \<and> n' < k \<and> num + n = num' + n'"
proof (cases "n < k")
  case True
  then have "bit (w AND mask k) n" using assms(1) by (auto simp: is_low_bit_def bit_simps dest: bit_word_lt)
  then have "w AND m \<noteq> 0" unfolding assms(3) by (rule bit_nonzero)
  with assms True show ?thesis by (auto simp: ffs_step_def)
next
  case False
  then have "w AND m = 0"
    using assms(1,3) by (auto simp: bit_eq_iff is_low_bit_def bit_simps)
  then have eq: "num' = num + k" "w' = drop_bit k w" using assms(4) by (auto simp: ffs_step_def)
  have "is_low_bit w' (n - k)"
    using False assms(1) by (auto simp: is_low_bit_def eq bit_simps)
  with False assms(2) show ?thesis by (intro exI [of _ "n - k"]) (auto simp: eq)
qed

lemma sbi_ffs_low:
  assumes "is_low_bit w n"
  shows "sbi_ffs w = n"
proof -
  have "n < 2 * 32" using assms bit_word_lt by (auto simp: is_low_bit_def)
  obtain a1 w1 where s1: "ffs_step 32 0xffffffff (0, w) = (a1, w1)" by fastforce
  obtain a2 w2 where s2: "ffs_step 16 0xffff (a1, w1) = (a2, w2)" by fastforce
  obtain a3 w3 where s3: "ffs_step 8 0xff (a2, w2) = (a3, w3)" by fastforce
  obtain a4 w4 where s4: "ffs_step 4 0xf (a3, w3) = (a4, w4)" by fastforce
  obtain a5 w5 where s5: "ffs_step 2 0x3 (a4, w4) = (a5, w5)" by fastforce
  obtain n1 where n1: "is_low_bit w1 n1" "n1 < 2 * 16" "n = a1 + n1"
    using ffs_step_low [OF assms \<open>n < 2 * 32\<close> _ s1] by (auto simp: mask_eq_exp_minus_1)
  obtain n2 where n2: "is_low_bit w2 n2" "n2 < 2 * 8" "a1 + n1 = a2 + n2"
    using ffs_step_low [OF n1(1,2) _ s2] by (auto simp: mask_eq_exp_minus_1)
  obtain n3 where n3: "is_low_bit w3 n3" "n3 < 2 * 4" "a2 + n2 = a3 + n3"
    using ffs_step_low [OF n2(1,2) _ s3] by (auto simp: mask_eq_exp_minus_1)
  obtain n4 where n4: "is_low_bit w4 n4" "n4 < 2 * 2" "a3 + n3 = a4 + n4"
    using ffs_step_low [OF n3(1,2) _ s4] by (auto simp: mask_eq_exp_minus_1)
  obtain n5 where n5: "is_low_bit w5 n5" "n5 < 2" "a4 + n4 = a5 + n5"
    using ffs_step_low [OF n4(1,2) _ s5] by (auto simp: mask_eq_exp_minus_1)
  have "w5 AND 1 = 0 \<longleftrightarrow> \<not> bit w5 0"
    by (simp add: and_one_eq odd_iff_mod_2_eq_one bit_0 even_iff_mod_2_eq_zero)
  moreover have "bit w5 0 \<longleftrightarrow> n5 = 0" using n5 by (auto simp: is_low_bit_def)
  ultimately show ?thesis
    using n1(3) n2(3) n3(3) n4(3) n5 by (auto simp: sbi_ffs_def s1 s2 s3 s4 s5 Let_def)
qed

lemma sbi_ffs_bit: "w \<noteq> 0 \<Longrightarrow> is_low_bit w (sbi_ffs w)"
  using ex_low_bit sbi_ffs_low by auto

lemma sbi_ffs_lt: "w \<noteq> 0 \<Longrightarrow> sbi_ffs w < 64"
  using sbi_ffs_bit bit_word_lt by (auto simp: is_low_bit_def)

lemma fls_step_high:
  assumes "is_high_bit w n" and "64 \<le> n + 2 * k" and "0 < k" and "k < 64" and "63 \<le> n + num"
    and "fls_step k (num, w) = (num', w')"
  shows "\<exists>n'. is_high_bit w' n' \<and> 64 \<le> n' + k \<and> num + n = num' + n' \<and> 63 \<le> n' + num'"
proof (cases "64 \<le> n + k")
  case True
  have "n < 64" using assms(1) bit_word_lt by (auto simp: is_high_bit_def)
  then have "bit (w AND push_bit (64 - k) (NOT 0)) n"
    using True assms(1) by (auto simp: is_high_bit_def bit_simps)
  then have "w AND push_bit (64 - k) (NOT 0) \<noteq> 0" by (rule bit_nonzero)
  with assms True show ?thesis by (auto simp: fls_step_def)
next
  case False
  have le: "i \<le> n" if "bit w i" for i
    using assms(1) that by (meson is_high_bit_def not_le)
  from False have "w AND push_bit (64 - k) (NOT 0) = 0"
    by (auto simp: bit_eq_iff bit_simps dest!: le)
  then have eq: "num' = num - k" "w' = push_bit k w" using assms(6) by (auto simp: fls_step_def)
  have "is_high_bit w' (n + k)"
    using False assms(1) by (auto simp: is_high_bit_def eq bit_simps less_diff_conv)
  with False assms show ?thesis by (intro exI [of _ "n + k"]) (auto simp: eq)
qed

lemma and_top_bit_eq_0:
  assumes "Suc k = 64"
  shows "(w :: ulong) AND push_bit k (NOT 0) = 0 \<longleftrightarrow> \<not> bit w k"
proof -
  have "bit (w AND push_bit k (NOT 0)) i \<longleftrightarrow> bit w i \<and> i = k" for i
    using assms by (auto simp: bit_simps dest: bit_word_lt)
  then show ?thesis using assms by (simp only: word_eq_0_iff_bit) (metis lessI)
qed

lemma sbi_fls_high:
  assumes "is_high_bit w n"
  shows "sbi_fls w = n"
proof -
  have n: "n < 64" "64 \<le> n + 2 * 32" "63 \<le> n + 63"
    using assms bit_word_lt by (auto simp: is_high_bit_def)
  obtain a1 w1 where s1: "fls_step 32 (63, w) = (a1, w1)" by fastforce
  obtain a2 w2 where s2: "fls_step 16 (a1, w1) = (a2, w2)" by fastforce
  obtain a3 w3 where s3: "fls_step 8 (a2, w2) = (a3, w3)" by fastforce
  obtain a4 w4 where s4: "fls_step 4 (a3, w3) = (a4, w4)" by fastforce
  obtain a5 w5 where s5: "fls_step 2 (a4, w4) = (a5, w5)" by fastforce
  obtain n1 where n1: "is_high_bit w1 n1" "64 \<le> n1 + 2 * 16" "63 + n = a1 + n1" "63 \<le> n1 + a1"
    using fls_step_high [OF assms n(2) _ _ n(3) s1] by auto
  obtain n2 where n2: "is_high_bit w2 n2" "64 \<le> n2 + 2 * 8" "a1 + n1 = a2 + n2" "63 \<le> n2 + a2"
    using fls_step_high [OF n1(1,2) _ _ n1(4) s2] by auto
  obtain n3 where n3: "is_high_bit w3 n3" "64 \<le> n3 + 2 * 4" "a2 + n2 = a3 + n3" "63 \<le> n3 + a3"
    using fls_step_high [OF n2(1,2) _ _ n2(4) s3] by auto
  obtain n4 where n4: "is_high_bit w4 n4" "64 \<le> n4 + 2 * 2" "a3 + n3 = a4 + n4" "63 \<le> n4 + a4"
    using fls_step_high [OF n3(1,2) _ _ n3(4) s4] by auto
  obtain n5 where n5: "is_high_bit w5 n5" "64 \<le> n5 + 2" "a4 + n4 = a5 + n5" "63 \<le> n5 + a5"
    using fls_step_high [OF n4(1,2) _ _ n4(4) s5] by auto
  have lt: "n5 < 64" using n5(1) bit_word_lt by (auto simp: is_high_bit_def)
  have "w5 AND push_bit 63 (NOT 0) = 0 \<longleftrightarrow> \<not> bit w5 63"
    by (rule and_top_bit_eq_0) simp
  moreover have "bit w5 63 \<longleftrightarrow> n5 = 63"
  proof
    assume "bit w5 63"
    then have "\<not> n5 < 63" using n5(1) by (auto simp: is_high_bit_def)
    with lt show "n5 = 63" by simp
  qed (use n5(1) in \<open>simp add: is_high_bit_def\<close>)
  ultimately show ?thesis
    using n1(3) n2(3) n3(3) n4(3) n5 lt by (auto simp: sbi_fls_def s1 s2 s3 s4 s5 Let_def)
qed

lemma sbi_fls_bit: "w \<noteq> 0 \<Longrightarrow> is_high_bit w (sbi_fls w)"
  using ex_high_bit sbi_fls_high by auto


lemma clear_low_bit:
  assumes "is_low_bit w n"
  shows "bit (w AND (w - 1)) i \<longleftrightarrow> bit w i \<and> i \<noteq> n"
proof -
  have n: "n < 64" using assms bit_word_lt by (auto simp: is_low_bit_def)
  define h where "h = w AND NOT (mask (Suc n))"
  have hbit: "bit h i \<longleftrightarrow> bit w i \<and> n < i" for i
    by (auto simp: h_def bit_simps less_Suc_eq_le dest: bit_word_lt)
  have "w = h OR 2 ^ n"
    using assms n
    by (intro bit_word_eqI)
       (simp add: bit_or_iff bit_exp_iff hbit is_low_bit_def, metis linorder_neqE_nat)
  also have "\<dots> = h + 2 ^ n"
    using n by (intro disjunctive_add [symmetric]) (auto simp: hbit bit_exp_iff)
  finally have w: "w = h + 2 ^ n" .
  have "w - 1 = h + mask n" by (simp add: w mask_eq_exp_minus_1)
  also have "\<dots> = h OR mask n"
    by (intro disjunctive_add) (auto simp: hbit bit_mask_iff)
  finally have w1: "w - 1 = h OR mask n" .
  show ?thesis
    using assms bit_word_lt [of w i]
    by (auto simp: w1 bit_and_iff bit_or_iff hbit bit_mask_iff is_low_bit_def)
qed

lemma finite_bits: "finite {i. bit (w :: ulong) i}"
  by (rule finite_subset [of _ "{..<64}"]) (auto dest: bit_word_lt)

lemma popcount_loop_card: "popcount_loop w c = c + card {i. bit w i}"
proof (induction w c rule: popcount_loop.induct)
  case (1 w c)
  show ?case
  proof (cases "w = 0")
    case True
    show ?thesis unfolding True by (subst popcount_loop.simps) (simp add: bot_fun_def)
  next
    case False
    then obtain n where n: "is_low_bit w n" using ex_low_bit by blast
    have "{i. bit (w AND (w - 1)) i} = {i. bit w i} - {n}"
      using clear_low_bit [OF n] by auto
    moreover have "n \<in> {i. bit w i}" using n by (simp add: is_low_bit_def)
    ultimately have "Suc (card {i. bit (w AND (w - 1)) i}) = card {i. bit w i}"
      using card_Suc_Diff1 [OF finite_bits [of w], of n] by (simp only:)
    with "1.IH" [OF False] False show ?thesis by (subst popcount_loop.simps) simp
  qed
qed

lemma log2roundup_loop_spec:
  assumes "r \<le> 64" and "\<forall>s<r. BIT s < x"
  shows "log2roundup_loop x r \<le> 64 \<and> (\<forall>s<log2roundup_loop x r. BIT s < x) \<and>
    (log2roundup_loop x r < 64 \<longrightarrow> x \<le> BIT (log2roundup_loop x r))"
  using assms
proof (induction x r rule: log2roundup_loop.induct)
  case (1 x r)
  show ?case
  proof (cases "r < 64 \<and> \<not> x \<le> BIT r")
    case True
    with "1.IH" "1.prems" show ?thesis
      by (subst (1 2 3 4) log2roundup_loop.simps) (auto simp: less_Suc_eq not_le)
  next
    case False
    with "1.prems" show ?thesis by (auto simp: log2roundup_loop.simps [of x r])
  qed
qed

lemma log2roundup_least:
  shows "log2roundup x \<le> 64" and "\<forall>s<log2roundup x. BIT s < x"
  and "log2roundup x < 64 \<Longrightarrow> x \<le> BIT (log2roundup x)"
  using log2roundup_loop_spec [of 0 x] by (auto simp: log2roundup_def)

subsection \<open>The searches against a reference definition\<close>

definition bm_bit :: "ulong list \<Rightarrow> nat \<Rightarrow> bool" where
  "bm_bit addr n = bit (addr ! (n div 64)) (n mod 64)"

definition first_from :: "(nat \<Rightarrow> bool) \<Rightarrow> nat \<Rightarrow> nat \<Rightarrow> nat" where
  "first_from P lo hi = (case filter P [lo..<hi] of [] \<Rightarrow> hi | i # _ \<Rightarrow> i)"

lemma first_from_eq:
  assumes "lo \<le> n" and "n < hi" and "P n" and "\<And>i. lo \<le> i \<Longrightarrow> i < n \<Longrightarrow> \<not> P i"
  shows "first_from P lo hi = n"
proof -
  have "[lo..<hi] = [lo..<n] @ n # [Suc n..<hi]"
    using assms(1,2) by (metis less_imp_le upt_add_eq_append upt_conv_Cons le_Suc_ex)
  moreover have "filter P [lo..<n] = []" using assms(4) by (simp add: filter_empty_conv)
  ultimately show ?thesis
    using assms(3) by (simp add: first_from_def)
qed

lemma first_from_none:
  assumes "\<And>i. lo \<le> i \<Longrightarrow> i < hi \<Longrightarrow> \<not> P i"
  shows "first_from P lo hi = hi"
proof -
  have "filter P [lo..<hi] = []" using assms by (simp add: filter_empty_conv)
  then show ?thesis by (simp add: first_from_def)
qed


lemma first_from_skip:
  assumes "lo \<le> mid" and "mid \<le> hi" and "\<And>i. lo \<le> i \<Longrightarrow> i < mid \<Longrightarrow> \<not> P i"
  shows "first_from P lo hi = first_from P mid hi"
proof -
  have "[lo..<hi] = [lo..<mid] @ [mid..<hi]"
    using assms(1,2) by (metis le_Suc_ex upt_add_eq_append)
  moreover have "filter P [lo..<mid] = []" using assms(3) by (simp add: filter_empty_conv)
  ultimately show ?thesis by (simp add: first_from_def)
qed

lemma filter_hdD: "filter P xs = y # ys \<Longrightarrow> y \<in> set xs \<and> P y"
  by (metis filter_eq_ConsD in_set_conv_decomp)

lemma first_from_le: "lo \<le> hi \<Longrightarrow> first_from P lo hi \<le> hi"
  and first_from_ge: "lo \<le> hi \<Longrightarrow> lo \<le> first_from P lo hi"
  and first_from_holds: "first_from P lo hi < hi \<Longrightarrow> P (first_from P lo hi)"
  by (auto simp: first_from_def split: list.split dest!: filter_hdD)

text \<open>The bits of the word at index \<open>p\<close> are the bits \<open>64 p .. 64 p + 63\<close> of the bitmap.\<close>

lemma bm_bit_word: "i < 64 \<Longrightarrow> bm_bit addr (64 * p + i) = bit (addr ! p) i"
  by (simp add: bm_bit_def)

lemma bm_bit_word': "64 * p \<le> j \<Longrightarrow> j < 64 * p + 64 \<Longrightarrow> bm_bit addr j = bit (addr ! p) (j - 64 * p)"
  using bm_bit_word [of "j - 64 * p" addr p] by simp

text \<open>A word whose set bits are the bits of the bitmap in a window \<open>[64 p + a, 64 p + b)\<close>.\<close>

lemma first_from_word:
  assumes "\<And>i. bit tmp i \<longleftrightarrow> a \<le> i \<and> i < b \<and> bit (addr ! p) i" and "b \<le> 64" and "a \<le> b"
    and "64 * p + b \<le> hi" and "tmp \<noteq> 0"
  shows "first_from (bm_bit addr) (64 * p + a) hi = 64 * p + sbi_ffs tmp"
proof -
  have low: "is_low_bit tmp (sbi_ffs tmp)" using assms(5) by (rule sbi_ffs_bit)
  then have in_win: "a \<le> sbi_ffs tmp" "sbi_ffs tmp < b" "bit (addr ! p) (sbi_ffs tmp)"
    using assms(1) by (auto simp: is_low_bit_def)
  show ?thesis
  proof (rule first_from_eq)
    show "bm_bit addr (64 * p + sbi_ffs tmp)"
      using in_win assms(2) by (simp add: bm_bit_word)
    show "\<not> bm_bit addr i" if "64 * p + a \<le> i" "i < 64 * p + sbi_ffs tmp" for i
    proof -
      define j where "j = i - 64 * p"
      have i: "i = 64 * p + j" "a \<le> j" "j < sbi_ffs tmp" using that by (auto simp: j_def)
      then have "\<not> bit tmp j" using low by (auto simp: is_low_bit_def)
      then have "\<not> bit (addr ! p) j" using i in_win(2) assms(1) [of j] by auto
      with i in_win(2) assms(2) show ?thesis by (simp add: bm_bit_word)
    qed
  qed (use in_win assms(2,4) in auto)
qed

lemma window_empty:
  assumes "\<And>i. bit tmp i \<longleftrightarrow> a \<le> i \<and> i < b \<and> bit (addr ! p) i" and "b \<le> 64" and "tmp = 0"
    and "64 * p + a \<le> i" and "i < 64 * p + b"
  shows "\<not> bm_bit addr i"
  using assms(1) [of "i - 64 * p"] assms(2-) bm_bit_word' [of p i addr] by auto

lemma find_first_bit_loop_eq:
  "find_first_bit_loop addr p sz (64 * p) = first_from (bm_bit addr) (64 * p) (64 * p + sz)"
proof (induction sz arbitrary: p rule: less_induct)
  case (less sz)
  consider (big) "64 \<le> sz" | (empty) "sz = 0" | (small) "0 < sz" "sz < 64" by linarith
  then show ?case
  proof cases
    case big
    have bits: "bit (addr ! p) i \<longleftrightarrow> 0 \<le> i \<and> i < 64 \<and> bit (addr ! p) i" for i
      by (auto dest: bit_word_lt)
    show ?thesis
    proof (cases "addr ! p = 0")
      case True
      have "first_from (bm_bit addr) (64 * p) (64 * p + sz) =
          first_from (bm_bit addr) (64 * p + 64) (64 * p + sz)"
        using big window_empty [OF bits _ True] by (intro first_from_skip) auto
      moreover have "find_first_bit_loop addr (p + 1) (sz - 64) (64 * p + 64) =
          first_from (bm_bit addr) (64 * p + 64) (64 * p + sz)"
        using less.IH [of "sz - 64" "p + 1"] big by (simp add: algebra_simps)
      ultimately show ?thesis
        using big True by (subst find_first_bit_loop.simps) simp
    next
      case False
      then show ?thesis
        using big first_from_word [OF bits, of "64 * p + sz"]
        by (subst find_first_bit_loop.simps) simp
    qed
  next
    case empty
    then show ?thesis by (subst find_first_bit_loop.simps) (simp add: first_from_def)
  next
    case small
    let ?tmp = "addr ! p AND drop_bit (64 - sz) (NOT 0)"
    have bits: "bit ?tmp i \<longleftrightarrow> 0 \<le> i \<and> i < sz \<and> bit (addr ! p) i" for i
      using small bit_ones_shr [of sz i] by (auto simp: bit_and_iff)
    show ?thesis
    proof (cases "?tmp = 0")
      case True
      have "first_from (bm_bit addr) (64 * p) (64 * p + sz) = 64 * p + sz"
        using window_empty [OF bits _ True] small by (intro first_from_none) auto
      with True small show ?thesis by (subst find_first_bit_loop.simps) simp
    next
      case False
      then show ?thesis
        using small first_from_word [OF bits, of "64 * p + sz"]
        by (subst find_first_bit_loop.simps) simp
    qed
  qed
qed


lemma find_first_bit_eq: "find_first_bit addr sz = first_from (bm_bit addr) 0 sz"
  using find_first_bit_loop_eq [of addr 0 sz] by (simp add: find_first_bit_def)

lemma find_next_bit_eq:
  "find_next_bit addr sz offset = (if sz \<le> offset then sz else first_from (bm_bit addr) offset sz)"
proof (cases "sz \<le> offset")
  case True
  then show ?thesis by (simp add: find_next_bit_def Let_def)
next
  case False
  define p where "p = offset div 64"
  define o' where "o' = offset mod 64"
  define z where "z = sz - 64 * p"
  have eqs: "offset = 64 * p + o'" "offset - o' = 64 * p" "o' < 64" "sz = 64 * p + z" "o' < z"
    using False by (auto simp: p_def o'_def z_def minus_mod_eq_mult_div [symmetric])
  let ?tmp = "addr ! p AND push_bit o' (NOT 0)"
  have loop: "find_first_bit_loop addr (p + 1) (z - 64) (64 * p + 64) =
      first_from (bm_bit addr) (64 * p + 64) (64 * p + z)" if "64 \<le> z"
    using find_first_bit_loop_eq [of addr "p + 1" "z - 64"] that by (simp add: algebra_simps)
  have bits: "bit ?tmp i \<longleftrightarrow> o' \<le> i \<and> i < 64 \<and> bit (addr ! p) i" for i
    using bit_ones_shl [of o' i] by (auto simp: bit_and_iff)
  have bits': "bit (?tmp AND drop_bit (64 - z) (NOT 0)) i \<longleftrightarrow> o' \<le> i \<and> i < z \<and> bit (addr ! p) i"
    if "z < 64" for i
    using that bits [of i] bit_ones_shr [of z i] by (auto simp: bit_and_iff)
  have goal: "find_next_bit addr sz offset =
     (if o' \<noteq> 0 then
        (if z < 64 then
          (if ?tmp AND drop_bit (64 - z) (NOT 0) = 0 then 64 * p + z
           else 64 * p + sbi_ffs (?tmp AND drop_bit (64 - z) (NOT 0)))
         else if ?tmp \<noteq> 0 then 64 * p + sbi_ffs ?tmp
         else find_first_bit_loop addr (p + 1) (z - 64) (64 * p + 64))
      else find_first_bit_loop addr p z (64 * p))"
    using False eqs(2)
    unfolding find_next_bit_def Let_def o'_def [symmetric] p_def [symmetric] z_def [symmetric]
    by (simp add: z_def) (use eqs(1) in auto)
  consider "o' = 0" | "o' \<noteq> 0" "z < 64" | "o' \<noteq> 0" "64 \<le> z" by linarith
  then show ?thesis
  proof cases
    case 1
    then have "find_next_bit addr sz offset = find_first_bit_loop addr p z (64 * p)"
      using goal by simp
    then show ?thesis
      using False eqs 1 find_first_bit_loop_eq [of addr p z] by simp
  next
    case 2
    show ?thesis
    proof (cases "?tmp AND drop_bit (64 - z) (NOT 0) = 0")
      case True
      have "first_from (bm_bit addr) offset sz = sz"
        using window_empty [OF bits' [OF 2(2)] _ True] 2 eqs by (intro first_from_none) auto
      moreover from True 2 have "find_next_bit addr sz offset = 64 * p + z"
        by (simp only: goal if_True if_False simp_thms)
      ultimately show ?thesis using False eqs(4) by simp
    next
      case tmp: False
      have "first_from (bm_bit addr) offset sz =
          64 * p + sbi_ffs (?tmp AND drop_bit (64 - z) (NOT 0))"
        using first_from_word [OF bits' [OF 2(2)] _ _ _ tmp, of sz] 2 eqs by simp
      with tmp 2 False show ?thesis by (simp only: goal if_True if_False simp_thms)
    qed
  next
    case 3
    show ?thesis
    proof (cases "?tmp = 0")
      case True
      have "first_from (bm_bit addr) offset sz = first_from (bm_bit addr) (64 * p + 64) sz"
        using window_empty [OF bits _ True] 3 eqs by (intro first_from_skip) auto
      moreover from True 3(1) loop [OF 3(2)]
      have "find_next_bit addr sz offset = first_from (bm_bit addr) (64 * p + 64) (64 * p + z)"
        using 3(2) [folded not_less] by (simp only: goal if_True if_False simp_thms)
      ultimately show ?thesis using False eqs(4) by simp
    next
      case tmp: False
      have "first_from (bm_bit addr) offset sz = 64 * p + sbi_ffs ?tmp"
        using first_from_word [OF bits _ _ _ tmp, of sz] 3 eqs by simp
      with tmp 3(1) 3(2) [folded not_less] False show ?thesis
        by (simp only: goal if_True if_False simp_thms)
    qed
  qed
qed


text \<open>The zero-bit searches are the set-bit searches of the complemented bitmap.\<close>

lemma eq_ones_iff: "(x :: ulong) = NOT 0 \<longleftrightarrow> NOT x = 0"
  by (metis bit.double_compl)

lemma not_or_shl_ones:
  "sz \<le> 64 \<Longrightarrow> NOT ((t :: ulong) OR push_bit sz (NOT 0)) = NOT t AND drop_bit (64 - sz) (NOT 0)"
  by (rule bit_word_eqI)
     (simp only: bit_and_iff bit_not_iff bit_or_iff bit_ones_shr bit_ones_shl, auto)

lemma not_or_shr_ones:
  "sz \<le> 64 \<Longrightarrow> NOT ((t :: ulong) OR drop_bit (64 - sz) (NOT 0)) = NOT t AND push_bit sz (NOT 0)"
  by (rule bit_word_eqI)
     (simp only: bit_and_iff bit_not_iff bit_or_iff bit_ones_shr bit_ones_shl, auto)

lemma find_first_zero_bit_loop_compl:
  "64 * p + sz \<le> 64 * length addr \<Longrightarrow>
   find_first_zero_bit_loop addr p sz r = find_first_bit_loop (map NOT addr) p sz r"
proof (induction addr p sz r rule: find_first_zero_bit_loop.induct)
  case (1 addr p sz r)
  have nth: "map NOT addr ! p = NOT (addr ! p)" if "0 < sz" using "1.prems" that by simp
  have IH: "find_first_zero_bit_loop addr (p + 1) (sz - 64) (r + 64) =
      find_first_bit_loop (map NOT addr) (p + 1) (sz - 64) (r + 64)"
    if "64 \<le> sz" "NOT (addr ! p) = 0"
    using "1.IH" [OF that(1) refl] that "1.prems" by simp
  consider (big) "64 \<le> sz" | (empty) "sz = 0" | (small) "0 < sz" "sz < 64" by linarith
  then show ?case
  proof cases
    case big
    with IH nth show ?thesis
      by (simp add: find_first_zero_bit_loop.simps [of addr p sz r] Let_def
          find_first_bit_loop.simps [of "map NOT addr" p sz r] sbi_ffz_def)
  next
    case empty
    then show ?thesis
      by (subst find_first_zero_bit_loop.simps, subst find_first_bit_loop.simps) simp
  next
    case small
    then have "\<not> 64 \<le> sz" "sz \<noteq> 0" "sz \<le> 64" by auto
    then show ?thesis
      unfolding find_first_zero_bit_loop.simps [of addr p sz r] Let_def sbi_ffz_def
        find_first_bit_loop.simps [of "map NOT addr" p sz r] nth [OF small(1)]
      by (simp only: if_False eq_ones_iff not_or_shl_ones)
  qed
qed

lemma find_first_zero_bit_compl:
  "sz \<le> 64 * length addr \<Longrightarrow> find_first_zero_bit addr sz = find_first_bit (map NOT addr) sz"
  using find_first_zero_bit_loop_compl [of 0 sz addr 0]
  by (simp add: find_first_zero_bit_def find_first_bit_def)

lemma find_next_zero_bit_compl:
  assumes "sz \<le> 64 * length addr"
  shows "find_next_zero_bit addr sz offset = find_next_bit (map NOT addr) sz offset"
proof (cases "sz \<le> offset")
  case True
  then show ?thesis by (simp add: find_next_bit_def find_next_zero_bit_def Let_def)
next
  case False
  define p where "p = offset div 64"
  define o' where "o' = offset mod 64"
  define z where "z = sz - (offset - o')"
  have bounds: "p < length addr" "o' \<le> 64" "64 * p + z \<le> 64 * length addr"
    using False assms by (auto simp: p_def o'_def z_def minus_mod_eq_mult_div)
  have nth: "map NOT addr ! p = NOT (addr ! p)" using bounds(1) by simp
  have l1: "find_first_zero_bit_loop addr (p + 1) (z - 64) r =
      find_first_bit_loop (map NOT addr) (p + 1) (z - 64) r" if "\<not> z < 64" for r
    using that bounds(3) by (intro find_first_zero_bit_loop_compl) simp
  have l2: "find_first_zero_bit_loop addr p z r = find_first_bit_loop (map NOT addr) p z r" for r
    using bounds(3) by (intro find_first_zero_bit_loop_compl) simp
  show ?thesis
    unfolding find_next_bit_def find_next_zero_bit_def Let_def sbi_ffz_def
      o'_def [symmetric] p_def [symmetric] z_def [symmetric] nth l2
    using bounds(2)
    by (cases "z < 64") (simp_all only: l1 if_True if_False eq_ones_iff not_or_shl_ones
        not_or_shr_ones less_imp_le simp_thms)
qed

text \<open>\<open>for_each_set_bit\<close> visits exactly the set bits, in ascending order.\<close>

lemma first_from_filter:
  "filter P [lo..<hi] = (if first_from P lo hi < hi
     then first_from P lo hi # filter P [Suc (first_from P lo hi)..<hi] else [])"
proof (cases "filter P [lo..<hi]")
  case Nil
  then show ?thesis by (simp add: first_from_def)
next
  case (Cons y ys)
  then obtain us vs where sp: "[lo..<hi] = us @ y # vs" "\<forall>u\<in>set us. \<not> P u" "P y" "ys = filter P vs"
    by (auto simp: filter_eq_Cons_iff)
  have y: "lo \<le> y" "y < hi" using sp(1) by (metis atLeastLessThan_iff in_set_conv_decomp set_upt)+
  have len: "length us = y - lo"
  proof -
    have "length us < length [lo..<hi]" using sp(1) by simp
    then have "lo + length us = y" using sp(1) nth_upt [of lo "length us" hi] by (metis add.commute length_upt less_diff_conv nth_append_length)
    then show ?thesis by simp
  qed
  have "vs = drop (Suc (y - lo)) [lo..<hi]" using sp(1) len by simp
  then have "vs = [Suc y..<hi]" using y by (simp add: drop_upt)
  with Cons sp(4) y show ?thesis by (simp add: first_from_def)
qed

lemma for_each_set_bit_loop_eq:
  "hi - lo \<le> fuel \<Longrightarrow> lo \<le> hi \<Longrightarrow>
   for_each_set_bit_loop fuel addr hi (first_from (bm_bit addr) lo hi) = filter (bm_bit addr) [lo..<hi]"
proof (induction fuel arbitrary: lo)
  case 0
  then show ?case by simp
next
  case (Suc fuel)
  let ?f = "first_from (bm_bit addr) lo hi"
  show ?case
  proof (cases "?f < hi")
    case True
    have "find_next_bit addr hi (?f + 1) = first_from (bm_bit addr) (Suc ?f) hi"
      using True by (auto simp: find_next_bit_eq first_from_def)
    moreover have "for_each_set_bit_loop fuel addr hi (first_from (bm_bit addr) (Suc ?f) hi) =
        filter (bm_bit addr) [Suc ?f..<hi]"
      using True Suc.prems first_from_ge [of lo hi "bm_bit addr"] by (intro Suc.IH) auto
    ultimately show ?thesis
      using True by (subst first_from_filter) simp
  next
    case False
    then show ?thesis by (subst first_from_filter) simp
  qed
qed

lemma for_each_set_bit_eq: "for_each_set_bit addr sz = filter (bm_bit addr) [0..<sz]"
  by (simp add: for_each_set_bit_def find_first_bit_eq for_each_set_bit_loop_eq)


lemma find_last_bit_loop_eq:
  assumes "\<And>i. 64 * n \<le> i \<Longrightarrow> i < sz \<Longrightarrow> \<not> bm_bit addr i" and "64 * n \<le> sz"
  shows "(\<forall>i. i < sz \<longrightarrow> \<not> bm_bit addr i) \<and> find_last_bit_loop addr sz n = sz \<or>
    find_last_bit_loop addr sz n < sz \<and> bm_bit addr (find_last_bit_loop addr sz n) \<and>
    (\<forall>i. i < sz \<longrightarrow> find_last_bit_loop addr sz n < i \<longrightarrow> \<not> bm_bit addr i)"
  using assms
proof (induction n)
  case 0
  then show ?case by simp
next
  case (Suc n)
  show ?case
  proof (cases "addr ! n = 0")
    case True
    have "\<not> bm_bit addr i" if "64 * n \<le> i" "i < sz" for i
      using Suc.prems(1) [of i] that True bm_bit_word' [of n i addr] by (cases "i < 64 * n + 64") auto
    with Suc.IH Suc.prems(2) True show ?thesis by simp
  next
    case False
    let ?h = "sbi_fls (addr ! n)"
    have high: "is_high_bit (addr ! n) ?h" and lt: "?h < 64"
      using sbi_fls_bit [OF False] bit_word_lt by (auto simp: is_high_bit_def)
    have "\<not> bm_bit addr i" if "n * 64 + ?h < i" "i < sz" for i
      using Suc.prems(1) [of i] that high bm_bit_word' [of n i addr]
      by (cases "i < 64 * n + 64") (auto simp: is_high_bit_def)
    moreover have "bm_bit addr (n * 64 + ?h)"
      using high lt bm_bit_word [of ?h addr n] by (simp add: is_high_bit_def mult.commute)
    ultimately show ?thesis using False lt Suc.prems(2) by (auto simp: Let_def)
  qed
qed

lemma find_last_bit_spec:
  "(\<forall>i. i < sz \<longrightarrow> \<not> bm_bit addr i) \<and> find_last_bit addr sz = sz \<or>
    find_last_bit addr sz < sz \<and> bm_bit addr (find_last_bit addr sz) \<and>
    (\<forall>i. i < sz \<longrightarrow> find_last_bit addr sz < i \<longrightarrow> \<not> bm_bit addr i)"
proof -
  define n where "n = sz div 64"
  define r where "r = sz mod 64"
  let ?tmp = "addr ! n AND drop_bit (64 - r) (NOT 0)"
  have sz: "sz = 64 * n + r" "r < 64" by (auto simp: n_def r_def)
  have bits: "bit ?tmp i \<longleftrightarrow> 0 \<le> i \<and> i < r \<and> bit (addr ! n) i" for i
    using sz(2) bit_ones_shr [of r i] by (auto simp: bit_and_iff)
  consider (found) "r \<noteq> 0" "?tmp \<noteq> 0" | (rest) "r = 0 \<or> ?tmp = 0" by argo
  then show ?thesis
  proof cases
    case rest
    have "\<not> bm_bit addr i" if "64 * n \<le> i" "i < sz" for i
      using rest window_empty [OF bits _ _ , of i] that sz by auto
    moreover have "find_last_bit addr sz = find_last_bit_loop addr sz n"
      using rest unfolding find_last_bit_def Let_def n_def [symmetric] r_def [symmetric]
      by (auto simp only: if_True if_False simp_thms split: if_split)
    ultimately show ?thesis using find_last_bit_loop_eq [of n sz addr] sz(1) by simp
  next
    case found
    have eq: "find_last_bit addr sz = n * 64 + sbi_fls ?tmp"
      using found unfolding find_last_bit_def Let_def n_def [symmetric] r_def [symmetric]
      by (simp only: if_True if_False simp_thms)
    have high: "is_high_bit ?tmp (sbi_fls ?tmp)" using sbi_fls_bit [OF found(2)] .
    then have lt: "sbi_fls ?tmp < r" and b: "bit (addr ! n) (sbi_fls ?tmp)"
      unfolding is_high_bit_def bits by blast+
    have "\<not> bm_bit addr i" if "n * 64 + sbi_fls ?tmp < i" "i < sz" for i
    proof -
      have "\<not> bit ?tmp (i - 64 * n)" using high that unfolding is_high_bit_def by simp
      then have "\<not> bit (addr ! n) (i - 64 * n)" using that sz unfolding bits by auto
      with that sz show ?thesis using bm_bit_word' [of n i addr] by simp
    qed
    moreover have "bm_bit addr (n * 64 + sbi_fls ?tmp)"
      using b lt sz(2) bm_bit_word [of "sbi_fls ?tmp" addr n] by (simp add: mult.commute)
    ultimately show ?thesis using lt sz(1) unfolding eq by simp
  qed
qed

subsection \<open>The single-bit operations\<close>

lemma test_bit_mem_eq: "test_bit_mem nr addr = bm_bit addr nr"
proof -
  have "1 AND drop_bit k w \<noteq> 0 \<longleftrightarrow> bit w k" for w :: ulong and k
    by (metis and_one_eq and.commute bit_iff_odd_drop_bit odd_iff_mod_2_eq_one even_iff_mod_2_eq_zero)
  then show ?thesis by (simp add: test_bit_mem_def bm_bit_def BIT_WORD_def)
qed

lemma bm_bit_upd:
  assumes "nr div 64 < length addr"
  shows "bm_bit (addr[nr div 64 := v]) i = (if i div 64 = nr div 64 then bit v (i mod 64) else bm_bit addr i)"
  using assms by (simp add: bm_bit_def nth_list_update)

lemma same_bit_iff: "i div 64 = n div 64 \<Longrightarrow> i mod 64 = n mod 64 \<longleftrightarrow> i = (n::nat)"
  by (metis div_mult_mod_eq)

lemma bm_bit_same: "i div 64 = nr div 64 \<Longrightarrow> bit (addr ! (nr div 64)) (i mod 64) = bm_bit addr i"
  by (simp add: bm_bit_def)

lemma bit_BIT_MASK: "bit (BIT_MASK nr) i \<longleftrightarrow> i = nr mod 64"
  by (auto simp: BIT_MASK_def bit_simps)

lemmas bit_mem_simps = BIT_WORD_def bm_bit_upd bm_bit_same bit_BIT_MASK same_bit_iff

lemma bm_bit_set_bit_mem:
  "nr div 64 < length addr \<Longrightarrow> bm_bit (set_bit_mem nr addr) i \<longleftrightarrow> i = nr \<or> bm_bit addr i"
  by (auto simp: set_bit_mem_def bit_mem_simps bit_or_iff)

lemma bm_bit_clear_bit_mem:
  "nr div 64 < length addr \<Longrightarrow> bm_bit (clear_bit_mem nr addr) i \<longleftrightarrow> i \<noteq> nr \<and> bm_bit addr i"
  by (auto simp: clear_bit_mem_def bit_mem_simps bit_and_iff bit_not_iff)

lemma bm_bit_change_bit_mem:
  "nr div 64 < length addr \<Longrightarrow> bm_bit (change_bit_mem nr addr) i \<longleftrightarrow> (i = nr) \<noteq> bm_bit addr i"
  by (auto simp: change_bit_mem_def bit_mem_simps bit_xor_iff)

lemma length_bit_mem [simp]:
  "length (set_bit_mem nr addr) = length addr"
  "length (clear_bit_mem nr addr) = length addr"
  "length (change_bit_mem nr addr) = length addr"
  by (simp_all add: set_bit_mem_def clear_bit_mem_def change_bit_mem_def)

lemma and_BIT_MASK: "addr ! BIT_WORD nr AND BIT_MASK nr \<noteq> 0 \<longleftrightarrow> bm_bit addr nr"
proof -
  have "BIT_MASK nr = 2 ^ (nr mod 64)" by (simp add: BIT_MASK_def push_bit_eq_mult)
  then show ?thesis by (simp add: bm_bit_def BIT_WORD_def and_exp_eq_0_iff_not_bit)
qed

lemma test_and_set_bit_mem_eq:
  "test_and_set_bit_mem nr addr = (bm_bit addr nr, set_bit_mem nr addr)"
  by (simp add: test_and_set_bit_mem_def set_bit_mem_def Let_def and_BIT_MASK)

lemma test_and_clear_bit_mem_eq:
  "test_and_clear_bit_mem nr addr = (bm_bit addr nr, clear_bit_mem nr addr)"
  by (simp add: test_and_clear_bit_mem_def clear_bit_mem_def Let_def and_BIT_MASK)

subsection \<open>Property\<close>

text \<open>C40: The binary searches and word-wise loops compute what a bit-by-bit scan computes: the lowest and highest set bit and the number
  of set bits of a word, the first set bit of a bitmap from an offset (or the size when there is none), and the ascending list of
  the set bits that \<open>for_each_set_bit\<close> visits.\<close>

theorem bit_searches_correct:
  "(w = 0 \<or> is_low_bit w (sbi_ffs w) \<and> is_high_bit w (sbi_fls w)) \<and> sbi_popcount w = card {i. bit w i} \<and>
   find_first_bit addr sz = first_from (bm_bit addr) 0 sz \<and>
   find_next_bit addr sz offset = (if sz \<le> offset then sz else first_from (bm_bit addr) offset sz) \<and>
   for_each_set_bit addr sz = filter (bm_bit addr) [0..<sz]"
  using sbi_ffs_bit [of w] sbi_fls_bit [of w]
  by (auto simp: sbi_popcount_def popcount_loop_card find_first_bit_eq find_next_bit_eq for_each_set_bit_eq)

end
