(* ===== verification/Sbi_Bitmap.thy ===== *)
theory Sbi_Bitmap
  imports Sbi_Bitops
begin

unbundle bit_operations_syntax

text \<open>
  Bitmaps (\<open>include/sbi/sbi_bitmap.h\<close>, \<open>lib/sbi/sbi_bitmap.c\<close>) and hart masks
  (\<open>include/sbi/sbi_hartmask.h\<close>). A bitmap is the list of its words; a loop that writes
  \<open>dst[0] .. dst[nr - 1]\<close> is a recursion over the index. \<open>small_const_nbits\<close> asks the
  compiler whether \<open>nbits\<close> is a constant, so it is a parameter \<open>c\<close> of the operations that
  use it. The locale \<open>index_set\<close> states what the rest of the firmware expects of a hart
  mask: a finite set of hart indices.
\<close>

subsection \<open>Bitmaps\<close>

definition BITS_TO_LONGS :: "nat \<Rightarrow> nat" where
  "BITS_TO_LONGS nbits = (nbits + 64 - 1) div 64"

definition BIT_WORD_OFFSET :: "nat \<Rightarrow> nat" where
  "BIT_WORD_OFFSET b = b mod 64"

definition BITMAP_LAST_WORD_MASK :: "nat \<Rightarrow> ulong" where
  "BITMAP_LAST_WORD_MASK nbits =
    (if nbits mod 64 \<noteq> 0 then push_bit (nbits mod 64) 1 - 1 else NOT 0)"

definition small_const_nbits :: "bool \<Rightarrow> nat \<Rightarrow> bool" where
  "small_const_nbits c nbits = (c \<and> nbits \<le> 64)"

definition bitmap_estimate_size :: "nat \<Rightarrow> nat" where
  "bitmap_estimate_size nbits = BITS_TO_LONGS nbits * 8"

text \<open>\<open>for (k = 0; k < nr; k++) dst[k] = f(k);\<close>\<close>

fun words_loop :: "(nat \<Rightarrow> ulong) \<Rightarrow> nat \<Rightarrow> ulong list \<Rightarrow> ulong list" where
  "words_loop f 0 dst = dst"
| "words_loop f (Suc k) dst = (words_loop f k dst)[k := f k]"

definition bitmap_and_loop :: "ulong list \<Rightarrow> ulong list \<Rightarrow> ulong list \<Rightarrow> nat \<Rightarrow> ulong list" where
  "bitmap_and_loop dst bitmap1 bitmap2 nbits =
    words_loop (\<lambda>k. bitmap1 ! k AND bitmap2 ! k) (BITS_TO_LONGS nbits) dst"

definition bitmap_or_loop :: "ulong list \<Rightarrow> ulong list \<Rightarrow> ulong list \<Rightarrow> nat \<Rightarrow> ulong list" where
  "bitmap_or_loop dst bitmap1 bitmap2 nbits =
    words_loop (\<lambda>k. bitmap1 ! k OR bitmap2 ! k) (BITS_TO_LONGS nbits) dst"

definition bitmap_xor_loop :: "ulong list \<Rightarrow> ulong list \<Rightarrow> ulong list \<Rightarrow> nat \<Rightarrow> ulong list" where
  "bitmap_xor_loop dst bitmap1 bitmap2 nbits =
    words_loop (\<lambda>k. bitmap1 ! k XOR bitmap2 ! k) (BITS_TO_LONGS nbits) dst"

fun bitmap_set :: "ulong list \<Rightarrow> nat \<Rightarrow> nat \<Rightarrow> ulong list" where
  "bitmap_set bmap start 0 = bmap"
| "bitmap_set bmap start (Suc len) =
    (let bmap = bitmap_set bmap start len; b = start + len
     in bmap[BIT_WORD b := bmap ! BIT_WORD b OR push_bit (BIT_WORD_OFFSET b) 1])"

fun bitmap_clear :: "ulong list \<Rightarrow> nat \<Rightarrow> nat \<Rightarrow> ulong list" where
  "bitmap_clear bmap start 0 = bmap"
| "bitmap_clear bmap start (Suc len) =
    (let bmap = bitmap_clear bmap start len; b = start + len
     in bmap[BIT_WORD b := bmap ! BIT_WORD b AND NOT (push_bit (BIT_WORD_OFFSET b) 1)])"

definition bitmap_zero :: "bool \<Rightarrow> ulong list \<Rightarrow> nat \<Rightarrow> ulong list" where
  "bitmap_zero c dst nbits =
    (if small_const_nbits c nbits then dst[0 := 0]
     else words_loop (\<lambda>_. 0) (BITS_TO_LONGS nbits) dst)"

definition bitmap_test :: "ulong list \<Rightarrow> nat \<Rightarrow> bool" where
  "bitmap_test bmap b = test_bit_mem b bmap"

definition bitmap_zero_except :: "bool \<Rightarrow> ulong list \<Rightarrow> nat \<Rightarrow> nat \<Rightarrow> ulong list" where
  "bitmap_zero_except c dst exception nbits =
    (let dst = (if small_const_nbits c nbits then dst[0 := 0]
                else words_loop (\<lambda>_. 0) (BITS_TO_LONGS nbits) dst)
     in if exception < nbits then set_bit_mem exception dst else dst)"

definition bitmap_fill :: "bool \<Rightarrow> ulong list \<Rightarrow> nat \<Rightarrow> ulong list" where
  "bitmap_fill c dst nbits =
    (let nlongs = BITS_TO_LONGS nbits;
         dst = (if \<not> small_const_nbits c nbits then words_loop (\<lambda>_. -1) (nlongs - 1) dst else dst)
     in dst[nlongs - 1 := BITMAP_LAST_WORD_MASK nbits])"

definition bitmap_copy :: "bool \<Rightarrow> ulong list \<Rightarrow> ulong list \<Rightarrow> nat \<Rightarrow> ulong list" where
  "bitmap_copy c dst src nbits =
    (if small_const_nbits c nbits then dst[0 := src ! 0]
     else words_loop (\<lambda>i. src ! i) (BITS_TO_LONGS nbits) dst)"

definition bitmap_and :: "bool \<Rightarrow> ulong list \<Rightarrow> ulong list \<Rightarrow> ulong list \<Rightarrow> nat \<Rightarrow> ulong list" where
  "bitmap_and c dst src1 src2 nbits =
    (if small_const_nbits c nbits then dst[0 := src1 ! 0 AND src2 ! 0]
     else bitmap_and_loop dst src1 src2 nbits)"

definition bitmap_or :: "bool \<Rightarrow> ulong list \<Rightarrow> ulong list \<Rightarrow> ulong list \<Rightarrow> nat \<Rightarrow> ulong list" where
  "bitmap_or c dst src1 src2 nbits =
    (if small_const_nbits c nbits then dst[0 := src1 ! 0 OR src2 ! 0]
     else bitmap_or_loop dst src1 src2 nbits)"

definition bitmap_xor :: "bool \<Rightarrow> ulong list \<Rightarrow> ulong list \<Rightarrow> ulong list \<Rightarrow> nat \<Rightarrow> ulong list" where
  "bitmap_xor c dst src1 src2 nbits =
    (if small_const_nbits c nbits then dst[0 := src1 ! 0 XOR src2 ! 0]
     else bitmap_xor_loop dst src1 src2 nbits)"

subsection \<open>Hart masks\<close>

definition SBI_HARTMASK_MAX_BITS :: nat where [simp, sbi_defs]: "SBI_HARTMASK_MAX_BITS = 128"

record sbi_hartmask =
  bits :: "ulong list"

definition sbi_hartmask_set_hartindex :: "nat \<Rightarrow> sbi_hartmask \<Rightarrow> sbi_hartmask" where
  "sbi_hartmask_set_hartindex i m =
    (if i < SBI_HARTMASK_MAX_BITS then m\<lparr>bits := set_bit_mem i (bits m)\<rparr> else m)"

definition sbi_hartmask_clear_hartindex :: "nat \<Rightarrow> sbi_hartmask \<Rightarrow> sbi_hartmask" where
  "sbi_hartmask_clear_hartindex i m =
    (if i < SBI_HARTMASK_MAX_BITS then m\<lparr>bits := clear_bit_mem i (bits m)\<rparr> else m)"

definition sbi_hartmask_test_hartindex :: "nat \<Rightarrow> sbi_hartmask \<Rightarrow> bool" where
  "sbi_hartmask_test_hartindex i m =
    (if i < SBI_HARTMASK_MAX_BITS then test_bit_mem i (bits m) else False)"

definition sbi_hartmask_set_all :: "sbi_hartmask \<Rightarrow> sbi_hartmask" where
  "sbi_hartmask_set_all m = m\<lparr>bits := bitmap_fill True (bits m) SBI_HARTMASK_MAX_BITS\<rparr>"

definition sbi_hartmask_clear_all :: "sbi_hartmask \<Rightarrow> sbi_hartmask" where
  "sbi_hartmask_clear_all m = m\<lparr>bits := bitmap_zero True (bits m) SBI_HARTMASK_MAX_BITS\<rparr>"

definition SBI_HARTMASK_INIT_EXCEPT :: "sbi_hartmask \<Rightarrow> nat \<Rightarrow> sbi_hartmask" where
  "SBI_HARTMASK_INIT_EXCEPT m i =
    m\<lparr>bits := bitmap_zero_except True (bits m) i SBI_HARTMASK_MAX_BITS\<rparr>"

definition sbi_hartmask_copy :: "sbi_hartmask \<Rightarrow> sbi_hartmask \<Rightarrow> sbi_hartmask" where
  "sbi_hartmask_copy dst src =
    dst\<lparr>bits := bitmap_copy True (bits dst) (bits src) SBI_HARTMASK_MAX_BITS\<rparr>"

definition sbi_hartmask_and :: "sbi_hartmask \<Rightarrow> sbi_hartmask \<Rightarrow> sbi_hartmask \<Rightarrow> sbi_hartmask" where
  "sbi_hartmask_and dst src1 src2 =
    dst\<lparr>bits := bitmap_and True (bits dst) (bits src1) (bits src2) SBI_HARTMASK_MAX_BITS\<rparr>"

definition sbi_hartmask_or :: "sbi_hartmask \<Rightarrow> sbi_hartmask \<Rightarrow> sbi_hartmask \<Rightarrow> sbi_hartmask" where
  "sbi_hartmask_or dst src1 src2 =
    dst\<lparr>bits := bitmap_or True (bits dst) (bits src1) (bits src2) SBI_HARTMASK_MAX_BITS\<rparr>"

definition sbi_hartmask_xor :: "sbi_hartmask \<Rightarrow> sbi_hartmask \<Rightarrow> sbi_hartmask \<Rightarrow> sbi_hartmask" where
  "sbi_hartmask_xor dst src1 src2 =
    dst\<lparr>bits := bitmap_xor True (bits dst) (bits src1) (bits src2) SBI_HARTMASK_MAX_BITS\<rparr>"

text \<open>The indices \<open>sbi_hartmask_for_each_hartindex\<close> visits, in order.\<close>

definition sbi_hartmask_for_each_hartindex :: "sbi_hartmask \<Rightarrow> nat list" where
  "sbi_hartmask_for_each_hartindex m = for_each_set_bit (bits m) SBI_HARTMASK_MAX_BITS"

text \<open>A hart mask object on the stack or in a zeroed allocation.\<close>

definition hartmask_zero :: sbi_hartmask where
  "hartmask_zero = \<lparr>bits = [0, 0]\<rparr>"

subsection \<open>What the operations do to single bits\<close>

definition wf_hartmask :: "sbi_hartmask \<Rightarrow> bool" where
  "wf_hartmask m \<longleftrightarrow> length (bits m) = 2"

definition hartset :: "sbi_hartmask \<Rightarrow> nat set" where
  "hartset m = {i. i < 128 \<and> bm_bit (bits m) i}"

lemma length_words_loop [simp]: "length (words_loop f n dst) = length dst"
  by (induction n) simp_all

lemma nth_words_loop: "i < length dst \<Longrightarrow> words_loop f n dst ! i = (if i < n then f i else dst ! i)"
  by (induction n) (auto simp: nth_list_update less_Suc_eq)

lemma bm_bit_words_loop:
  "b < 64 * n \<Longrightarrow> n \<le> length dst \<Longrightarrow> bm_bit (words_loop f n dst) b = bit (f (b div 64)) (b mod 64)"
  by (simp add: bm_bit_def nth_words_loop less_mult_imp_div_less)

lemma length_bitmap_set [simp]: "length (bitmap_set bmap start len) = length bmap"
  by (induction len) (simp_all add: Let_def)

lemma length_bitmap_clear [simp]: "length (bitmap_clear bmap start len) = length bmap"
  by (induction len) (simp_all add: Let_def)

lemma bitmap_set_bits:
  "start + len \<le> 64 * length bmap \<Longrightarrow>
   bm_bit (bitmap_set bmap start len) i \<longleftrightarrow> start \<le> i \<and> i < start + len \<or> bm_bit bmap i"
proof (induction len)
  case (Suc len)
  have "bitmap_set bmap start (Suc len) = set_bit_mem (start + len) (bitmap_set bmap start len)"
    by (simp add: set_bit_mem_def Let_def BIT_MASK_def BIT_WORD_OFFSET_def)
  with Suc show ?case by (auto simp: bm_bit_set_bit_mem less_mult_imp_div_less)
qed auto

lemma bitmap_clear_bits:
  "start + len \<le> 64 * length bmap \<Longrightarrow>
   bm_bit (bitmap_clear bmap start len) i \<longleftrightarrow> \<not> (start \<le> i \<and> i < start + len) \<and> bm_bit bmap i"
proof (induction len)
  case (Suc len)
  have "bitmap_clear bmap start (Suc len) = clear_bit_mem (start + len) (bitmap_clear bmap start len)"
    by (simp add: clear_bit_mem_def Let_def BIT_MASK_def BIT_WORD_OFFSET_def)
  with Suc show ?case by (auto simp: bm_bit_clear_bit_mem less_mult_imp_div_less)
qed auto

lemma bitmap_fill_bits:
  assumes "0 < nbits" and "BITS_TO_LONGS nbits \<le> length dst" and "i < 64 * BITS_TO_LONGS nbits"
  shows "bm_bit (bitmap_fill c dst nbits) i \<longleftrightarrow> i < nbits"
proof -
  define n where "n = BITS_TO_LONGS nbits - 1"
  have n: "BITS_TO_LONGS nbits = Suc n" using assms(1) by (simp add: n_def BITS_TO_LONGS_def)
  have nb: "64 * n < nbits" "nbits \<le> 64 * n + 64"
    using n by (auto simp: BITS_TO_LONGS_def)
  have last: "bit (BITMAP_LAST_WORD_MASK nbits) j \<longleftrightarrow> 64 * n + j < nbits" if "j < 64" for j
  proof (cases "nbits mod 64 = 0")
    case True
    then obtain k where k: "nbits = 64 * k" by auto
    with nb have "k = Suc n" by simp
    with k have "nbits = 64 * n + 64" by simp
    with True that show ?thesis by (simp add: BITMAP_LAST_WORD_MASK_def bit_not_iff)
  next
    case False
    then have "nbits \<noteq> 64 * n + 64" by auto
    then have "nbits div 64 = n" using nb by (intro div_nat_eqI) auto
    then have "nbits = 64 * n + nbits mod 64" using mult_div_mod_eq [of 64 nbits] by simp
    moreover have "BITMAP_LAST_WORD_MASK nbits = mask (nbits mod 64)"
      using False by (simp add: BITMAP_LAST_WORD_MASK_def mask_eq_exp_minus_1 push_bit_eq_mult)
    ultimately show ?thesis using that by (auto simp: bit_mask_iff)
  qed
  have split: "small_const_nbits c nbits \<longrightarrow> n = 0" using nb by (auto simp: small_const_nbits_def)
  have "i div 64 \<le> n" using assms(3) n by (simp add: less_mult_imp_div_less mult.commute less_Suc_eq_le)
  then consider "i div 64 = n" | "i div 64 < n" by linarith
  then show ?thesis
  proof cases
    case 1
    then have "bm_bit (bitmap_fill c dst nbits) i = bit (BITMAP_LAST_WORD_MASK nbits) (i mod 64)"
      using assms(2) n by (simp add: bitmap_fill_def bm_bit_def Let_def)
    moreover have "64 * n + i mod 64 = i" unfolding 1 [symmetric] by (rule mult_div_mod_eq)
    ultimately show ?thesis using last [of "i mod 64"] by simp
  next
    case 2
    then have "i < n * 64" by (simp add: div_less_iff_less_mult)
    then have "i < nbits" using nb by simp
    with 2 show ?thesis
      using assms(2) n split
      by (auto simp: bitmap_fill_def bm_bit_def Let_def nth_words_loop nth_list_update bit_minus_1_iff)
  qed
qed


subsection \<open>Hart masks are finite sets of hart indices\<close>

lemma hartmask_longs [simp]: "BITS_TO_LONGS 128 = 2" "small_const_nbits c 128 = False"
  by (simp_all add: BITS_TO_LONGS_def small_const_nbits_def)

lemma hartset_zero [simp]: "hartset hartmask_zero = {}" "wf_hartmask hartmask_zero"
  by (auto simp: hartset_def hartmask_zero_def bm_bit_def wf_hartmask_def less_Suc_eq nth_Cons'
      less_mult_imp_div_less)

lemma hartset_bound: "hartset m \<subseteq> {..<128}"
  by (auto simp: hartset_def)

lemma finite_hartset [simp]: "finite (hartset m)"
  using hartset_bound finite_subset by blast

lemma hartset_set:
  "wf_hartmask m \<Longrightarrow> i < 128 \<Longrightarrow> hartset (sbi_hartmask_set_hartindex i m) = insert i (hartset m)"
  by (auto simp: hartset_def sbi_hartmask_set_hartindex_def wf_hartmask_def bm_bit_set_bit_mem
      less_mult_imp_div_less)

lemma hartset_set_out: "128 \<le> i \<Longrightarrow> sbi_hartmask_set_hartindex i m = m"
  by (simp add: sbi_hartmask_set_hartindex_def)

lemma hartset_clear:
  "wf_hartmask m \<Longrightarrow> hartset (sbi_hartmask_clear_hartindex i m) = hartset m - {i}"
  by (auto simp: hartset_def sbi_hartmask_clear_hartindex_def wf_hartmask_def bm_bit_clear_bit_mem
      less_mult_imp_div_less)

lemma hartset_test: "sbi_hartmask_test_hartindex i m \<longleftrightarrow> i \<in> hartset m"
  by (simp add: hartset_def sbi_hartmask_test_hartindex_def test_bit_mem_eq)

lemma hartset_clear_all: "wf_hartmask m \<Longrightarrow> hartset (sbi_hartmask_clear_all m) = {}"
  by (auto simp: hartset_def sbi_hartmask_clear_all_def bitmap_zero_def wf_hartmask_def
      bm_bit_words_loop)

lemma hartset_set_all: "wf_hartmask m \<Longrightarrow> hartset (sbi_hartmask_set_all m) = {..<128}"
  by (auto simp: hartset_def sbi_hartmask_set_all_def wf_hartmask_def bitmap_fill_bits)

lemma hartset_init_except:
  assumes "wf_hartmask m"
  shows "hartset (SBI_HARTMASK_INIT_EXCEPT m i) = (if i < 128 then {i} else {})"
proof -
  let ?z = "words_loop (\<lambda>_. 0) 2 (bits m)"
  have "bm_bit ?z j \<longleftrightarrow> False" if "j < 128" for j
    using that assms by (simp add: bm_bit_words_loop wf_hartmask_def)
  moreover have "bm_bit (set_bit_mem i ?z) j \<longleftrightarrow> j = i \<or> bm_bit ?z j" if "i < 128" for j
    using that assms by (intro bm_bit_set_bit_mem) (simp add: wf_hartmask_def less_mult_imp_div_less)
  ultimately show ?thesis
    by (auto simp: hartset_def SBI_HARTMASK_INIT_EXCEPT_def bitmap_zero_except_def Let_def)
qed

lemma hartset_copy: "wf_hartmask d \<Longrightarrow> hartset (sbi_hartmask_copy d m) = hartset m"
  by (auto simp: hartset_def sbi_hartmask_copy_def bitmap_copy_def wf_hartmask_def
      bm_bit_words_loop) (auto simp: bm_bit_def)

lemma hartset_and:
  "wf_hartmask d \<Longrightarrow> hartset (sbi_hartmask_and d a b) = hartset a \<inter> hartset b"
  by (auto simp: hartset_def sbi_hartmask_and_def bitmap_and_def bitmap_and_loop_def wf_hartmask_def
      bm_bit_words_loop bit_and_iff) (auto simp: bm_bit_def)

lemma hartset_or:
  "wf_hartmask d \<Longrightarrow> hartset (sbi_hartmask_or d a b) = hartset a \<union> hartset b"
  by (auto simp: hartset_def sbi_hartmask_or_def bitmap_or_def bitmap_or_loop_def wf_hartmask_def
      bm_bit_words_loop bit_or_iff) (auto simp: bm_bit_def)

lemma hartset_xor:
  "wf_hartmask d \<Longrightarrow> hartset (sbi_hartmask_xor d a b) = (hartset a - hartset b) \<union> (hartset b - hartset a)"
  by (auto simp: hartset_def sbi_hartmask_xor_def bitmap_xor_def bitmap_xor_loop_def wf_hartmask_def
      bm_bit_words_loop bit_xor_iff) (auto simp: bm_bit_def)

lemma wf_hartmask_ops [simp]:
  "wf_hartmask m \<Longrightarrow> wf_hartmask (sbi_hartmask_set_hartindex i m)"
  "wf_hartmask m \<Longrightarrow> wf_hartmask (sbi_hartmask_clear_hartindex i m)"
  "wf_hartmask m \<Longrightarrow> wf_hartmask (sbi_hartmask_clear_all m)"
  "wf_hartmask m \<Longrightarrow> wf_hartmask (sbi_hartmask_set_all m)"
  "wf_hartmask m \<Longrightarrow> wf_hartmask (SBI_HARTMASK_INIT_EXCEPT m i)"
  "wf_hartmask m \<Longrightarrow> wf_hartmask (sbi_hartmask_copy m a)"
  "wf_hartmask m \<Longrightarrow> wf_hartmask (sbi_hartmask_and m a b)"
  "wf_hartmask m \<Longrightarrow> wf_hartmask (sbi_hartmask_or m a b)"
  "wf_hartmask m \<Longrightarrow> wf_hartmask (sbi_hartmask_xor m a b)"
  by (simp_all add: wf_hartmask_def sbi_hartmask_set_hartindex_def sbi_hartmask_clear_hartindex_def
      sbi_hartmask_clear_all_def sbi_hartmask_set_all_def SBI_HARTMASK_INIT_EXCEPT_def
      sbi_hartmask_copy_def sbi_hartmask_and_def sbi_hartmask_or_def sbi_hartmask_xor_def
      bitmap_zero_def bitmap_fill_def bitmap_zero_except_def bitmap_copy_def bitmap_and_def
      bitmap_or_def bitmap_xor_def bitmap_and_loop_def bitmap_or_loop_def bitmap_xor_loop_def Let_def)

lemma for_each_hartindex: "sbi_hartmask_for_each_hartindex m = sorted_list_of_set (hartset m)"
proof -
  have "sbi_hartmask_for_each_hartindex m = filter (bm_bit (bits m)) [0..<128]"
    by (simp add: sbi_hartmask_for_each_hartindex_def for_each_set_bit_eq)
  moreover have "set (filter (bm_bit (bits m)) [0..<128]) = hartset m"
    by (auto simp: hartset_def)
  ultimately show ?thesis
    by (metis distinct_filter distinct_upt sorted_list_of_set.idem_if_sorted_distinct
        sorted_wrt_filter sorted_upt)
qed

lemma set_for_each_hartindex [simp]: "set (sbi_hartmask_for_each_hartindex m) = hartset m"
  by (simp add: for_each_hartindex)

text \<open>What the clients of a hart mask rely on.\<close>

locale index_set =
  fixes wf :: "'m \<Rightarrow> bool" and elems :: "'m \<Rightarrow> nat set" and cap :: nat
    and set_ix :: "nat \<Rightarrow> 'm \<Rightarrow> 'm" and clear_ix :: "nat \<Rightarrow> 'm \<Rightarrow> 'm" and test_ix :: "nat \<Rightarrow> 'm \<Rightarrow> bool"
    and visit :: "'m \<Rightarrow> nat list"
  assumes elems_bound: "elems m \<subseteq> {..<cap}"
    and wf_set: "wf m \<Longrightarrow> wf (set_ix i m)"
    and wf_clear: "wf m \<Longrightarrow> wf (clear_ix i m)"
    and elems_set: "wf m \<Longrightarrow> elems (set_ix i m) = (if i < cap then insert i (elems m) else elems m)"
    and elems_clear: "wf m \<Longrightarrow> elems (clear_ix i m) = elems m - {i}"
    and test_elems: "test_ix i m \<longleftrightarrow> i \<in> elems m"
    and visit_elems: "visit m = sorted_list_of_set (elems m)"
begin

lemma test_set: "wf m \<Longrightarrow> test_ix j (set_ix i m) \<longleftrightarrow> i < cap \<and> j = i \<or> test_ix j m"
  by (auto simp: test_elems elems_set)

lemma test_clear: "wf m \<Longrightarrow> test_ix j (clear_ix i m) \<longleftrightarrow> j \<noteq> i \<and> test_ix j m"
  by (auto simp: test_elems elems_clear)

lemma wf_fold_set: "wf m \<Longrightarrow> wf (fold set_ix is m)"
  by (induction "is" arbitrary: m) (simp_all add: wf_set)

lemma elems_fold_set: "wf m \<Longrightarrow> elems (fold set_ix is m) = elems m \<union> {i \<in> set is. i < cap}"
  by (induction "is" arbitrary: m) (auto simp: elems_set wf_set)

lemma wf_fold_clear: "wf m \<Longrightarrow> wf (fold clear_ix is m)"
  by (induction "is" arbitrary: m) (simp_all add: wf_clear)

lemma elems_fold_clear: "wf m \<Longrightarrow> elems (fold clear_ix is m) = elems m - set is"
  by (induction "is" arbitrary: m) (auto simp: elems_clear wf_clear)

lemma distinct_visit: "distinct (visit m)" and sorted_visit: "sorted (visit m)"
  and set_visit: "set (visit m) = elems m"
  using finite_subset [OF elems_bound] by (simp_all add: visit_elems)

end

interpretation hm: index_set wf_hartmask hartset 128 sbi_hartmask_set_hartindex
  sbi_hartmask_clear_hartindex sbi_hartmask_test_hartindex sbi_hartmask_for_each_hartindex
  by unfold_locales
     (auto simp: hartset_bound hartset_set hartset_set_out hartset_clear hartset_test
       for_each_hartindex dest: subsetD [OF hartset_bound])

subsection \<open>Property\<close>

text \<open>A hart mask is a set of hart indices below 128: setting, clearing and testing an index (an index out of range is ignored),
  clearing and filling the mask, copying, and, or and xor are the set operations, and \<open>sbi_hartmask_for_each_hartindex\<close> visits
  the elements in ascending order.\<close>

theorem hartmask_set_algebra:
  assumes "wf_hartmask m"
  shows "hartset (sbi_hartmask_set_hartindex i m) = (if i < 128 then insert i (hartset m) else hartset m) \<and>
    hartset (sbi_hartmask_clear_hartindex i m) = hartset m - {i} \<and>
    (sbi_hartmask_test_hartindex i m \<longleftrightarrow> i \<in> hartset m) \<and>
    hartset (sbi_hartmask_clear_all m) = {} \<and> hartset (sbi_hartmask_set_all m) = {..<128} \<and>
    hartset (sbi_hartmask_copy m a) = hartset a \<and>
    hartset (sbi_hartmask_and m a b) = hartset a \<inter> hartset b \<and>
    hartset (sbi_hartmask_or m a b) = hartset a \<union> hartset b \<and>
    hartset (sbi_hartmask_xor m a b) = (hartset a - hartset b) \<union> (hartset b - hartset a) \<and>
    sbi_hartmask_for_each_hartindex m = sorted_list_of_set (hartset m)"
  using assms
  by (simp add: hm.elems_set hm.elems_clear hm.test_elems hartset_clear_all hartset_set_all hartset_copy hartset_and
      hartset_or hartset_xor for_each_hartindex)

theorem hartmask_set_algebra_witness:
  "wf_hartmask hartmask_zero \<and> hartset (sbi_hartmask_set_hartindex 3 hartmask_zero) = {3} \<and>
   hartset (sbi_hartmask_set_all hartmask_zero) = {..<128}"
  using hartmask_set_algebra [of hartmask_zero 3] by simp

end
