(* ===== verification/Sbi_Fifo.thy ===== *)
theory Sbi_Fifo
  imports Sbi_Prelude
begin

unbundle bit_operations_syntax

text \<open>
  The ring-buffer queue of \<open>lib/sbi/sbi_fifo.c\<close>, used for the TLB-flush requests of each
  hart. \<open>queue\<close> is the byte array the C pointer points to; \<open>num_entries\<close>, \<open>entry_size\<close>,
  \<open>avail\<close> and \<open>tail\<close> are the \<open>u16\<close> fields and the head index is computed in \<open>u32\<close>. Each
  operation takes \<open>qlock\<close> for its whole body, so it is one step here. A pointer argument
  that may be \<open>NULL\<close> is an \<open>option\<close>.

  The locale \<open>bounded_queue\<close> is the contract of a bounded queue of entries; the
  interpretation shows that the ring buffer meets it, and the lemmas on runs of
  operations are proved in the locale once.
\<close>

record sbi_fifo =
  queue :: "u8 list"
  entry_size :: u16
  num_entries :: u16
  avail :: u16
  tail :: u16

definition SBI_FIFO_SKIP :: int where [simp, sbi_defs]: "SBI_FIFO_SKIP = 0"
definition SBI_FIFO_UPDATED :: int where [simp, sbi_defs]: "SBI_FIFO_UPDATED = 1"
definition SBI_FIFO_UNCHANGED :: int where [simp, sbi_defs]: "SBI_FIFO_UNCHANGED = 2"

subsection \<open>Operations\<close>

definition sbi_fifo_init :: "u8 list \<Rightarrow> u16 \<Rightarrow> u16 \<Rightarrow> sbi_fifo" where
  "sbi_fifo_init queue_mem entries esize =
    \<lparr>queue = mem_write queue_mem 0 (replicate (unat entries * unat esize) 0),
     entry_size = esize, num_entries = entries, avail = 0, tail = 0\<rparr>"

definition fifo_full :: "sbi_fifo \<Rightarrow> bool" where
  "fifo_full fifo \<longleftrightarrow> avail fifo = num_entries fifo"

definition fifo_empty :: "sbi_fifo \<Rightarrow> bool" where
  "fifo_empty fifo \<longleftrightarrow> avail fifo = 0"

definition sbi_fifo_avail :: "sbi_fifo option \<Rightarrow> u16" where
  "sbi_fifo_avail fifo = (case fifo of None \<Rightarrow> 0 | Some f \<Rightarrow> avail f)"

definition sbi_fifo_is_full :: "sbi_fifo option \<Rightarrow> int" where
  "sbi_fifo_is_full fifo =
    (case fifo of None \<Rightarrow> SBI_EINVAL | Some f \<Rightarrow> (if fifo_full f then 1 else 0))"

definition sbi_fifo_is_empty :: "sbi_fifo option \<Rightarrow> int" where
  "sbi_fifo_is_empty fifo =
    (case fifo of None \<Rightarrow> SBI_EINVAL | Some f \<Rightarrow> (if fifo_empty f then 1 else 0))"

text \<open>The bytes one entry copy moves: a typed store for 1, 2, 4, 8 bytes, else \<open>sbi_memcpy\<close>.\<close>

definition entry_bytes :: "u16 \<Rightarrow> u8 list \<Rightarrow> u8 list" where
  "entry_bytes esize data =
    (if esize = 1 then take 1 data
     else if esize = 2 then take 2 data
     else if esize = 4 then take 4 data
     else if esize = 8 then take 8 data
     else take (unat esize) data)"

definition fifo_enqueue :: "sbi_fifo \<Rightarrow> u8 list \<Rightarrow> sbi_fifo" where
  "fifo_enqueue fifo data =
    (let head = (ucast (tail fifo) + ucast (avail fifo) :: u32);
         head = (if ucast (num_entries fifo) \<le> head then head - ucast (num_entries fifo) else head);
         off = unat (head * ucast (entry_size fifo))
     in fifo\<lparr>queue := mem_write (queue fifo) off (entry_bytes (entry_size fifo) data),
             avail := avail fifo + 1\<rparr>)"

text \<open>The \<open>data\<close> pointer of the internal dequeue may be \<open>NULL\<close> (drop the oldest entry).\<close>

definition fifo_dequeue :: "sbi_fifo \<Rightarrow> u8 list \<times> sbi_fifo" where
  "fifo_dequeue fifo =
    (let off = unat ((ucast (tail fifo) :: u32) * ucast (entry_size fifo));
         data = entry_bytes (entry_size fifo) (drop off (queue fifo));
         tl' = tail fifo + 1
     in (data, fifo\<lparr>avail := avail fifo - 1,
                    tail := (if num_entries fifo \<le> tl' then 0 else tl')\<rparr>))"

definition fifo_reset :: "sbi_fifo \<Rightarrow> sbi_fifo" where
  "fifo_reset fifo =
    fifo\<lparr>avail := 0, tail := 0,
         queue := mem_write (queue fifo) 0
           (replicate (unat (num_entries fifo) * unat (entry_size fifo)) 0)\<rparr>"

definition sbi_fifo_reset :: "sbi_fifo option \<Rightarrow> bool \<times> sbi_fifo option" where
  "sbi_fifo_reset fifo =
    (case fifo of None \<Rightarrow> (False, None) | Some f \<Rightarrow> (True, Some (fifo_reset f)))"

text \<open>
  \<open>sbi_fifo_inplace_update\<close>: the callback sees the bytes of the entry from its start and
  may change the entry's bytes; it returns a code and the new entry. The loop runs
  \<open>i = avail - n\<close>, for \<open>n\<close> entries left.
\<close>

definition fifo_index :: "sbi_fifo \<Rightarrow> nat \<Rightarrow> nat" where
  "fifo_index fifo i =
    (let index = unat (tail fifo) + i
     in if unat (num_entries fifo) \<le> index then index - unat (num_entries fifo) else index)"

fun inplace_loop ::
  "('i \<Rightarrow> u8 list \<Rightarrow> int \<times> u8 list) \<Rightarrow> 'i \<Rightarrow> nat \<Rightarrow> nat \<Rightarrow> int \<Rightarrow> sbi_fifo \<Rightarrow> int \<times> sbi_fifo" where
  "inplace_loop fptr inp 0 i ret fifo = (ret, fifo)"
| "inplace_loop fptr inp (Suc n) i ret fifo =
    (let off = fifo_index fifo i * unat (entry_size fifo);
         (ret, e) = fptr inp (mem_read (queue fifo) off (unat (entry_size fifo)));
         fifo = fifo\<lparr>queue := mem_write (queue fifo) off e\<rparr>
     in if ret = SBI_FIFO_SKIP \<or> ret = SBI_FIFO_UPDATED then (ret, fifo)
        else inplace_loop fptr inp n (i + 1) ret fifo)"

definition sbi_fifo_inplace_update ::
  "sbi_fifo option \<Rightarrow> 'i option \<Rightarrow> ('i \<Rightarrow> u8 list \<Rightarrow> int \<times> u8 list) \<Rightarrow> int \<times> sbi_fifo option" where
  "sbi_fifo_inplace_update fifo inp fptr =
    (case (fifo, inp) of
       (Some f, Some x) \<Rightarrow>
         (if fifo_empty f then (SBI_FIFO_UNCHANGED, Some f)
          else (let (ret, f') = inplace_loop fptr x (unat (avail f)) 0 SBI_FIFO_UNCHANGED f
                in (ret, Some f')))
     | _ \<Rightarrow> (SBI_FIFO_UNCHANGED, fifo))"

definition sbi_fifo_enqueue ::
  "sbi_fifo option \<Rightarrow> u8 list option \<Rightarrow> bool \<Rightarrow> int \<times> sbi_fifo option" where
  "sbi_fifo_enqueue fifo data force =
    (case (fifo, data) of
       (Some f, Some d) \<Rightarrow>
         (if fifo_full f then
            (if \<not> force then (SBI_ENOSPC, Some f)
             else (0, Some (fifo_enqueue (snd (fifo_dequeue f)) d)))
          else (0, Some (fifo_enqueue f d)))
     | _ \<Rightarrow> (SBI_EINVAL, fifo))"

text \<open>On success the dequeued bytes are what the caller's \<open>data\<close> buffer holds afterwards.\<close>

definition sbi_fifo_dequeue ::
  "sbi_fifo option \<Rightarrow> bool \<Rightarrow> int \<times> u8 list option \<times> sbi_fifo option" where
  "sbi_fifo_dequeue fifo data_nonnull =
    (case fifo of
       None \<Rightarrow> (SBI_EINVAL, None, None)
     | Some f \<Rightarrow>
         (if \<not> data_nonnull then (SBI_EINVAL, None, Some f)
          else if fifo_empty f then (SBI_ENOENT, None, Some f)
          else (let (d, f') = fifo_dequeue f in (0, Some d, Some f'))))"

subsection \<open>Abstraction: the list of entries, oldest first\<close>

definition fifo_slot :: "sbi_fifo \<Rightarrow> nat \<Rightarrow> u8 list" where
  "fifo_slot f i = mem_read (queue f) (i * unat (entry_size f)) (unat (entry_size f))"

definition fifo_list :: "sbi_fifo \<Rightarrow> u8 list list" where
  "fifo_list f = map (\<lambda>i. fifo_slot f (fifo_index f i)) [0..<unat (avail f)]"

definition fifo_inv :: "sbi_fifo \<Rightarrow> bool" where
  "fifo_inv f \<longleftrightarrow> length (queue f) = unat (num_entries f) * unat (entry_size f) \<and>
     unat (avail f) \<le> unat (num_entries f) \<and> unat (tail f) < unat (num_entries f)"

lemma entry_bytes_eq: "entry_bytes esize d = take (unat esize) d"
  by (auto simp: entry_bytes_def)

lemma u32_off:
  "i < 65536 \<Longrightarrow> unat ((of_nat i :: u32) * ucast (e :: u16)) = i * unat e"
proof -
  assume i: "i < 65536"
  have "i * unat e \<le> 65535 * 65535"
    using i unat_u16_lt [of e] by (intro mult_le_mono) auto
  then have lt: "i * unat e < 2 ^ 32" by simp
  have "(of_nat i :: u32) * ucast e = of_nat (i * unat e)" by (simp add: unsigned_of_nat)
  then show ?thesis using lt by (simp only: unat_of_nat) simp
qed

lemma fifo_index_frame:
  "fifo_index (f\<lparr>queue := q\<rparr>) i = fifo_index f i"
  "fifo_index (f\<lparr>queue := q, avail := a\<rparr>) i = fifo_index f i"
  by (auto simp: fifo_index_def Let_def)

lemma fifo_index_lt: "fifo_inv f \<Longrightarrow> i < unat (num_entries f) \<Longrightarrow> fifo_index f i < unat (num_entries f)"
  by (auto simp: fifo_index_def fifo_inv_def Let_def)

lemma fifo_index_inj:
  "fifo_inv f \<Longrightarrow> i < unat (num_entries f) \<Longrightarrow> j < unat (num_entries f) \<Longrightarrow>
   fifo_index f i = fifo_index f j \<Longrightarrow> i = j"
  by (auto simp: fifo_index_def fifo_inv_def Let_def split: if_splits)

lemma slot_bound: "i < (n::nat) \<Longrightarrow> i * e + e \<le> n * e"
  by (metis Suc_leI add.commute mult_Suc mult_le_mono1)

lemma slots_apart: "i \<noteq> j \<Longrightarrow> i * e + e \<le> j * e \<or> j * e + e \<le> i * (e::nat)"
  using slot_bound [of i j e] slot_bound [of j i e] by (metis linorder_neqE_nat)

lemma length_fifo_slot:
  "fifo_inv f \<Longrightarrow> i < unat (num_entries f) \<Longrightarrow> length (fifo_slot f i) = unat (entry_size f)"
  using slot_bound [of i "unat (num_entries f)" "unat (entry_size f)"]
  by (simp add: fifo_slot_def fifo_inv_def)

text \<open>Writing the bytes of one slot changes that slot and no other.\<close>

lemma fifo_slot_write:
  assumes "length (queue f) = unat (num_entries f) * unat (entry_size f)"
    and "i < unat (num_entries f)" and "j < unat (num_entries f)" and "length e = unat (entry_size f)"
  shows "fifo_slot (f\<lparr>queue := mem_write (queue f) (i * unat (entry_size f)) e\<rparr>) j =
    (if j = i then e else fifo_slot f j)"
  using assms slot_bound [of i "unat (num_entries f)" "unat (entry_size f)"]
    slots_apart [of j i "unat (entry_size f)"]
  by (auto simp: fifo_slot_def mem_read_write_other)


lemma fifo_enqueue_eq:
  assumes "fifo_inv f" and "unat (avail f) < unat (num_entries f)"
  shows "fifo_enqueue f d =
    f\<lparr>queue := mem_write (queue f) (fifo_index f (unat (avail f)) * unat (entry_size f))
               (take (unat (entry_size f)) d),
      avail := avail f + 1\<rparr>"
proof -
  have s: "unat (tail f) + unat (avail f) < 4294967296"
    using unat_u16_lt [of "tail f"] unat_u16_lt [of "avail f"] by simp
  have h: "(ucast (tail f) + ucast (avail f) :: u32) = of_nat (unat (tail f) + unat (avail f))"
    by simp
  have le: "(ucast (num_entries f) :: u32) \<le> of_nat (unat (tail f) + unat (avail f)) \<longleftrightarrow>
      unat (num_entries f) \<le> unat (tail f) + unat (avail f)"
    using s unat_u16_lt [of "num_entries f"]
    by (simp only: word_le_nat_alt unat_of_nat) (simp add: unat_ucast_up)
  have idx: "(if (ucast (num_entries f) :: u32) \<le> of_nat (unat (tail f) + unat (avail f))
      then of_nat (unat (tail f) + unat (avail f)) - ucast (num_entries f)
      else of_nat (unat (tail f) + unat (avail f))) = (of_nat (fifo_index f (unat (avail f))) :: u32)"
    unfolding le by (auto simp: fifo_index_def Let_def of_nat_diff)
  have lt: "fifo_index f (unat (avail f)) < 65536"
    using fifo_index_lt [OF assms] unat_u16_lt [of "num_entries f"] by linarith
  show ?thesis
    unfolding fifo_enqueue_def Let_def h idx entry_bytes_eq u32_off [OF lt] ..
qed

lemma fifo_dequeue_eq:
  assumes "fifo_inv f"
  shows "fifo_dequeue f = (fifo_slot f (unat (tail f)),
    f\<lparr>avail := avail f - 1, tail := (if num_entries f \<le> tail f + 1 then 0 else tail f + 1)\<rparr>)"
  using u32_off [OF unat_u16_lt [of "tail f"]]
  by (simp add: fifo_dequeue_def Let_def entry_bytes_eq fifo_slot_def mem_read_def)

lemma unat_add1_u16: "unat (x :: u16) < n \<Longrightarrow> n < 65536 \<Longrightarrow> unat (x + 1) = Suc (unat x)"
  using unat_Suc_word [of x n] by simp

text \<open>The next tail index is the index of the second entry.\<close>

lemma fifo_tail_next:
  assumes "fifo_inv f" and "0 < unat (avail f)"
  defines "t \<equiv> (if num_entries f \<le> tail f + 1 then 0 else tail f + 1)"
  shows "unat t = (if Suc (unat (tail f)) = unat (num_entries f) then 0 else Suc (unat (tail f)))"
proof -
  have lt: "unat (tail f) < unat (num_entries f)" using assms(1) by (simp add: fifo_inv_def)
  then have "unat (tail f + 1) = Suc (unat (tail f))"
    using unat_add1_u16 unat_u16_lt by blast
  then show ?thesis using lt by (auto simp: t_def word_le_nat_alt)
qed

lemma fifo_enqueue_inv:
  assumes "fifo_inv f" and "unat (avail f) < unat (num_entries f)" and "unat (entry_size f) \<le> length d"
  shows "fifo_inv (fifo_enqueue f d)"
    and "fifo_list (fifo_enqueue f d) = fifo_list f @ [take (unat (entry_size f)) d]"
proof -
  let ?e = "take (unat (entry_size f)) d"
  let ?k = "fifo_index f (unat (avail f))"
  let ?f' = "f\<lparr>queue := mem_write (queue f) (?k * unat (entry_size f)) ?e\<rparr>"
  have q: "length (queue f) = unat (num_entries f) * unat (entry_size f)" and le: "length ?e = unat (entry_size f)"
    using assms by (auto simp: fifo_inv_def)
  have k: "?k < unat (num_entries f)" using fifo_index_lt assms by blast
  have av: "unat (avail f + 1) = Suc (unat (avail f))"
    using assms(2) unat_add1_u16 unat_u16_lt by blast
  have eq: "fifo_enqueue f d = ?f'\<lparr>avail := avail f + 1\<rparr>"
    by (simp add: fifo_enqueue_eq [OF assms(1,2)])
  have bound: "?k * unat (entry_size f) + length ?e \<le> length (queue f)"
    using slot_bound [OF k, of "unat (entry_size f)"] q le by simp
  show "fifo_inv (fifo_enqueue f d)"
    using assms(1,2) av bound by (simp add: fifo_enqueue_eq [OF assms(1,2)] fifo_inv_def)
  have slot: "fifo_slot (fifo_enqueue f d) j = fifo_slot ?f' j" for j
    by (simp add: eq fifo_slot_def)
  have idx: "fifo_index (fifo_enqueue f d) j = fifo_index f j" for j
    by (simp add: eq fifo_index_frame)
  have old: "fifo_slot ?f' (fifo_index f i) = fifo_slot f (fifo_index f i)" if "i < unat (avail f)" for i
    using that assms fifo_index_lt [OF assms(1)] fifo_index_inj [OF assms(1), of i "unat (avail f)"]
    by (subst fifo_slot_write [OF q k _ le]) auto
  have new: "fifo_slot ?f' ?k = ?e"
    using fifo_slot_write [OF q k k le] by simp
  show "fifo_list (fifo_enqueue f d) = fifo_list f @ [?e]"
    using old new av by (simp add: fifo_list_def slot idx) (simp add: eq)
qed

lemma fifo_dequeue_inv:
  assumes "fifo_inv f" and "0 < unat (avail f)"
  shows "fifo_inv (snd (fifo_dequeue f))"
    and "fifo_list f = fst (fifo_dequeue f) # fifo_list (snd (fifo_dequeue f))"
    and "num_entries (snd (fifo_dequeue f)) = num_entries f"
    and "entry_size (snd (fifo_dequeue f)) = entry_size f"
    and "unat (avail (snd (fifo_dequeue f))) = unat (avail f) - 1"
proof -
  let ?f' = "snd (fifo_dequeue f)"
  have av: "unat (avail f - 1) = unat (avail f) - 1"
    using assms(2) by (rule unat_pred_word)
  note tl = fifo_tail_next [OF assms]
  show inv': "fifo_inv ?f'"
    using assms av tl by (auto simp: fifo_dequeue_eq fifo_inv_def)
  have idx: "fifo_index ?f' i = fifo_index f (Suc i)" if "Suc i < unat (num_entries f)" for i
    using assms that tl by (auto simp: fifo_dequeue_eq fifo_index_def fifo_inv_def Let_def)
  have slot: "fifo_slot ?f' = fifo_slot f"
    using assms(1) by (auto simp: fifo_dequeue_eq fifo_slot_def)
  have up: "[0..<unat (avail f)] = 0 # map Suc [0..<unat (avail f) - 1]"
    using assms(2) by (simp add: map_Suc_upt upt_conv_Cons)
  have i0: "fifo_index f 0 = unat (tail f)"
    using assms(1) by (simp add: fifo_index_def fifo_inv_def Let_def)
  have "map (\<lambda>i. fifo_slot f (fifo_index f (Suc i))) [0..<unat (avail f) - 1] = fifo_list ?f'"
  proof -
    have "unat (avail ?f') = unat (avail f) - 1"
      unfolding fifo_dequeue_eq [OF assms(1)] using av by simp
    then have "fifo_list ?f' = map (\<lambda>i. fifo_slot f (fifo_index ?f' i)) [0..<unat (avail f) - 1]"
      by (simp add: fifo_list_def slot)
    also have "\<dots> = map (\<lambda>i. fifo_slot f (fifo_index f (Suc i))) [0..<unat (avail f) - 1]"
      using assms(1) idx by (intro map_cong) (auto simp: fifo_inv_def)
    finally show ?thesis by simp
  qed
  then show "fifo_list f = fst (fifo_dequeue f) # fifo_list ?f'"
    unfolding fifo_list_def [of f] up by (simp add: i0 fifo_dequeue_eq [OF assms(1)] comp_def)
qed (use assms in \<open>auto simp: fifo_dequeue_eq unat_pred_word\<close>)


subsection \<open>The bounded-queue contract\<close>

text \<open>
  \<open>enq q x force\<close> and \<open>deq q\<close> return the C return code; entries are the values \<open>x\<close> with
  \<open>ok q x\<close>.
\<close>

datatype 'a queue_op = Enq 'a bool | Deq

locale bounded_queue =
  fixes inv :: "'q \<Rightarrow> bool" and cap :: "'q \<Rightarrow> nat" and ok :: "'q \<Rightarrow> 'a \<Rightarrow> bool" and entries :: "'q \<Rightarrow> 'a list"
    and enq :: "'q \<Rightarrow> 'a \<Rightarrow> bool \<Rightarrow> int \<times> 'q" and deq :: "'q \<Rightarrow> int \<times> 'a option \<times> 'q"
  assumes cap_pos: "inv q \<Longrightarrow> 0 < cap q"
    and len_cap: "inv q \<Longrightarrow> length (entries q) \<le> cap q"
    and enq_space: "inv q \<Longrightarrow> ok q x \<Longrightarrow> length (entries q) < cap q \<Longrightarrow>
      fst (enq q x force) = 0 \<and> entries (snd (enq q x force)) = entries q @ [x]"
    and enq_full: "inv q \<Longrightarrow> length (entries q) = cap q \<Longrightarrow> enq q x False = (SBI_ENOSPC, q)"
    and enq_force: "inv q \<Longrightarrow> ok q x \<Longrightarrow> length (entries q) = cap q \<Longrightarrow>
      fst (enq q x True) = 0 \<and> entries (snd (enq q x True)) = List.tl (entries q) @ [x]"
    and deq_empty: "inv q \<Longrightarrow> entries q = [] \<Longrightarrow> deq q = (SBI_ENOENT, None, q)"
    and deq_some: "inv q \<Longrightarrow> entries q \<noteq> [] \<Longrightarrow> fst (deq q) = 0 \<and>
      fst (snd (deq q)) = Some (hd (entries q)) \<and> entries (snd (snd (deq q))) = List.tl (entries q)"
    and inv_enq: "inv q \<Longrightarrow> ok q x \<Longrightarrow> inv (snd (enq q x force))"
    and inv_deq: "inv q \<Longrightarrow> inv (snd (snd (deq q)))"
    and cap_enq: "inv q \<Longrightarrow> ok q x \<Longrightarrow> cap (snd (enq q x force)) = cap q"
    and cap_deq: "inv q \<Longrightarrow> cap (snd (snd (deq q))) = cap q"
    and ok_enq: "inv q \<Longrightarrow> ok q x \<Longrightarrow> ok (snd (enq q x force)) = ok q"
    and ok_deq: "inv q \<Longrightarrow> ok (snd (snd (deq q))) = ok q"

text \<open>A run of operations, with the code and the value each of them returned.\<close>

fun queue_run ::
  "('q \<Rightarrow> 'a \<Rightarrow> bool \<Rightarrow> int \<times> 'q) \<Rightarrow> ('q \<Rightarrow> int \<times> 'a option \<times> 'q) \<Rightarrow> 'q \<Rightarrow> 'a queue_op list \<Rightarrow>
   (int \<times> 'a option) list \<times> 'q" where
  "queue_run enq deq q [] = ([], q)"
| "queue_run enq deq q (Enq x force # ops) =
    (let (rc, q') = enq q x force; (outs, q'') = queue_run enq deq q' ops in ((rc, None) # outs, q''))"
| "queue_run enq deq q (Deq # ops) =
    (let (rc, d, q') = deq q; (outs, q'') = queue_run enq deq q' ops in ((rc, d) # outs, q''))"

text \<open>The reference: a list with capacity \<open>n\<close>.\<close>

definition list_enq :: "nat \<Rightarrow> 'a list \<Rightarrow> 'a \<Rightarrow> bool \<Rightarrow> int \<times> 'a list" where
  "list_enq n xs x force =
    (if length xs < n then (0, xs @ [x]) else if force then (0, List.tl xs @ [x]) else (SBI_ENOSPC, xs))"

definition list_deq :: "'a list \<Rightarrow> int \<times> 'a option \<times> 'a list" where
  "list_deq xs = (case xs of [] \<Rightarrow> (SBI_ENOENT, None, []) | x # xs \<Rightarrow> (0, Some x, xs))"

fun enq_values :: "'a queue_op list \<Rightarrow> 'a list" where
  "enq_values [] = []"
| "enq_values (Enq x f # ops) = x # enq_values ops"
| "enq_values (Deq # ops) = enq_values ops"

context bounded_queue
begin

lemma enq_refines:
  assumes "inv q" and "ok q x"
  shows "list_enq (cap q) (entries q) x force = (fst (enq q x force), entries (snd (enq q x force)))"
  using enq_space [OF assms] enq_full [OF assms(1)] enq_force [OF assms] len_cap [OF assms(1)]
  by (cases force) (auto simp: list_enq_def)

lemma deq_refines:
  assumes "inv q"
  shows "list_deq (entries q) =
    (fst (deq q), fst (snd (deq q)), entries (snd (snd (deq q))))"
  using deq_empty [OF assms] deq_some [OF assms] by (cases "entries q") (auto simp: list_deq_def)

theorem run_refines:
  assumes "inv q" and "\<forall>x\<in>set (enq_values ops). ok q x"
  shows "inv (snd (queue_run enq deq q ops)) \<and>
    queue_run (list_enq (cap q)) list_deq (entries q) ops =
      (fst (queue_run enq deq q ops), entries (snd (queue_run enq deq q ops)))"
  using assms
proof (induction ops arbitrary: q rule: enq_values.induct)
  case 1
  then show ?case by simp
next
  case (2 x f ops)
  have ok: "ok q x" using "2.prems"(2) by simp
  obtain rc q' where e: "enq q x f = (rc, q')" by fastforce
  have q': "inv q'" "cap q' = cap q" "ok q' = ok q"
    using inv_enq [OF "2.prems"(1) ok, of f] cap_enq [OF "2.prems"(1) ok, of f]
      ok_enq [OF "2.prems"(1) ok, of f] by (simp_all add: e)
  show ?case
    using "2.IH" [of q'] q' "2.prems" enq_refines [OF "2.prems"(1) ok, of f]
    by (simp add: e split_def Let_def)
next
  case (3 ops)
  obtain rc d q' where e: "deq q = (rc, d, q')" using prod_cases3 by blast
  have q': "inv q'" "cap q' = cap q" "ok q' = ok q"
    using inv_deq [OF "3.prems"(1)] cap_deq [OF "3.prems"(1)] ok_deq [OF "3.prems"(1)]
    by (simp_all add: e)
  show ?case
    using "3.IH" [of q'] q' "3.prems" deq_refines [OF "3.prems"(1)]
    by (simp add: e split_def Let_def)
qed

end

text \<open>The ring buffer behind its API, for non-\<open>NULL\<close> arguments.\<close>

definition fifo_enq :: "sbi_fifo \<Rightarrow> u8 list \<Rightarrow> bool \<Rightarrow> int \<times> sbi_fifo" where
  "fifo_enq f d force = (let (rc, f') = sbi_fifo_enqueue (Some f) (Some d) force in (rc, the f'))"

definition fifo_deq :: "sbi_fifo \<Rightarrow> int \<times> u8 list option \<times> sbi_fifo" where
  "fifo_deq f = (let (rc, d, f') = sbi_fifo_dequeue (Some f) True in (rc, d, the f'))"

definition fifo_entry :: "sbi_fifo \<Rightarrow> u8 list \<Rightarrow> bool" where
  "fifo_entry f d \<longleftrightarrow> length d = unat (entry_size f)"

lemma fifo_enq_simp:
  "fifo_enq f d force =
    (if fifo_full f then (if force then (0, fifo_enqueue (snd (fifo_dequeue f)) d) else (SBI_ENOSPC, f))
     else (0, fifo_enqueue f d))"
  by (simp add: fifo_enq_def sbi_fifo_enqueue_def)

lemma fifo_deq_simp:
  "fifo_deq f = (if fifo_empty f then (SBI_ENOENT, None, f)
     else (0, Some (fst (fifo_dequeue f)), snd (fifo_dequeue f)))"
  by (simp add: fifo_deq_def sbi_fifo_dequeue_def split_def Let_def)

lemma length_fifo_list [simp]: "length (fifo_list f) = unat (avail f)"
  by (simp add: fifo_list_def)

lemma fifo_list_Nil_iff: "fifo_list f = [] \<longleftrightarrow> unat (avail f) = 0"
  by (metis length_fifo_list length_0_conv)

lemma fifo_full_iff: "fifo_full f \<longleftrightarrow> unat (avail f) = unat (num_entries f)"
  by (simp add: fifo_full_def word_unat_eq_iff)

lemma fifo_empty_iff: "fifo_empty f \<longleftrightarrow> unat (avail f) = 0"
  by (simp add: fifo_empty_def word_unat_eq_iff)

lemma fifo_enqueue_frame [simp]:
  "num_entries (fifo_enqueue f d) = num_entries f" "entry_size (fifo_enqueue f d) = entry_size f"
  by (simp_all add: fifo_enqueue_def Let_def)

lemma fifo_dequeue_frame [simp]:
  "num_entries (snd (fifo_dequeue f)) = num_entries f" "entry_size (snd (fifo_dequeue f)) = entry_size f"
  by (simp_all add: fifo_dequeue_def Let_def)

lemma fifo_force:
  assumes "fifo_inv f" and "fifo_full f" and "fifo_entry f d"
  shows "fifo_inv (fifo_enqueue (snd (fifo_dequeue f)) d) \<and>
    fifo_list (fifo_enqueue (snd (fifo_dequeue f)) d) = List.tl (fifo_list f) @ [d]"
proof -
  have pos: "0 < unat (avail f)" using assms(1,2) by (auto simp: fifo_inv_def fifo_full_iff)
  note dq = fifo_dequeue_inv [OF assms(1) pos]
  have "unat (avail (snd (fifo_dequeue f))) < unat (num_entries (snd (fifo_dequeue f)))"
    using dq(3,5) pos assms(2) by (simp add: fifo_full_iff)
  with fifo_enqueue_inv [OF dq(1) this, of d] dq(2) assms(3) show ?thesis
    by (simp add: fifo_entry_def)
qed

interpretation fifo: bounded_queue fifo_inv "\<lambda>f. unat (num_entries f)" fifo_entry fifo_list fifo_enq fifo_deq
proof (unfold_locales, goal_cases)
  case (3 q x force)
  then show ?case
    using fifo_enqueue_inv [of q x] by (auto simp: fifo_enq_simp fifo_full_iff fifo_entry_def)
next
  case (5 q x)
  then show ?case using fifo_force [of q x] by (simp add: fifo_enq_simp fifo_full_iff)
next
  case (7 q)
  then have "0 < unat (avail q)" by (simp flip: length_fifo_list)
  with 7(1) fifo_dequeue_inv(2) [of q] show ?case
    by (simp add: fifo_deq_simp fifo_empty_iff)
next
  case (8 q x force)
  then show ?case
    using fifo_enqueue_inv(1) [of q x] fifo_force [of q x]
    by (auto simp: fifo_enq_simp fifo_full_iff fifo_entry_def) (simp_all add: fifo_inv_def)
next
  case (9 q)
  then show ?case
    using fifo_dequeue_inv(1) [of q] by (auto simp: fifo_deq_simp fifo_empty_iff)
qed (auto simp: fifo_inv_def fifo_enq_simp fifo_deq_simp fifo_full_iff fifo_empty_iff fifo_entry_def
      fifo_list_Nil_iff fun_eq_iff)


subsection \<open>In-place update\<close>

text \<open>The reference: visit the entries oldest first, stop at the first SKIP or UPDATED.\<close>

fun list_inplace ::
  "('i \<Rightarrow> 'a \<Rightarrow> int \<times> 'a) \<Rightarrow> 'i \<Rightarrow> int \<Rightarrow> 'a list \<Rightarrow> int \<times> 'a list" where
  "list_inplace fptr inp ret [] = (ret, [])"
| "list_inplace fptr inp ret (e # es) =
    (let (ret, e') = fptr inp e
     in if ret = SBI_FIFO_SKIP \<or> ret = SBI_FIFO_UPDATED then (ret, e' # es)
        else (let (ret, es') = list_inplace fptr inp ret es in (ret, e' # es')))"

lemma fifo_list_write:
  assumes "fifo_inv f" and "i < unat (avail f)" and "length e = unat (entry_size f)"
  defines "f' \<equiv> f\<lparr>queue := mem_write (queue f) (fifo_index f i * unat (entry_size f)) e\<rparr>"
  shows "fifo_inv f'" and "fifo_list f' = (fifo_list f)[i := e]"
    and "fifo_index f' = fifo_index f" and "fifo_list f ! i = fifo_slot f (fifo_index f i)"
proof -
  have q: "length (queue f) = unat (num_entries f) * unat (entry_size f)"
    and i: "i < unat (num_entries f)"
    using assms(1,2) by (auto simp: fifo_inv_def)
  note k = fifo_index_lt [OF assms(1) i]
  show "fifo_inv f'"
    using assms(1,3) slot_bound [OF k, of "unat (entry_size f)"] by (simp add: f'_def fifo_inv_def)
  show ix: "fifo_index f' = fifo_index f"
    by (simp add: f'_def fun_eq_iff fifo_index_frame)
  show "fifo_list f ! i = fifo_slot f (fifo_index f i)" using assms(2) by (simp add: fifo_list_def)
  show "fifo_list f' = (fifo_list f)[i := e]"
  proof (rule nth_equalityI)
    fix j assume "j < length (fifo_list f')"
    then have j: "j < unat (avail f)" by (simp add: f'_def)
    have jn: "j < unat (num_entries f)" using j assms(1) by (simp add: fifo_inv_def)
    have "fifo_slot f' (fifo_index f j) =
        (if fifo_index f j = fifo_index f i then e else fifo_slot f (fifo_index f j))"
      unfolding f'_def by (rule fifo_slot_write [OF q k fifo_index_lt [OF assms(1) jn] assms(3)])
    moreover have "fifo_index f j = fifo_index f i \<longleftrightarrow> j = i"
      using fifo_index_inj [OF assms(1) jn i] by auto
    moreover have "fifo_list f' ! j = fifo_slot f' (fifo_index f j)"
      using j ix by (simp add: fifo_list_def f'_def)
    ultimately show "fifo_list f' ! j = (fifo_list f)[i := e] ! j"
      using j by (simp add: nth_list_update fifo_list_def)
  qed (simp add: f'_def)
qed

lemma inplace_loop_refines:
  assumes "fifo_inv f" and "i + n = unat (avail f)"
    and "\<And>e. length e = unat (entry_size f) \<Longrightarrow> length (snd (fptr inp e)) = unat (entry_size f)"
    and "inplace_loop fptr inp n i ret f = (ret', f')"
  shows "fifo_inv f' \<and> avail f' = avail f \<and> entry_size f' = entry_size f \<and> num_entries f' = num_entries f \<and>
    list_inplace fptr inp ret (drop i (fifo_list f)) = (ret', drop i (fifo_list f')) \<and>
    take i (fifo_list f') = take i (fifo_list f)"
  using assms
proof (induction n arbitrary: i ret f)
  case 0
  then show ?case by simp
next
  case (Suc n)
  let ?off = "fifo_index f i * unat (entry_size f)"
  obtain r e where re: "fptr inp (fifo_slot f (fifo_index f i)) = (r, e)" by fastforce
  have i: "i < unat (avail f)" "i < unat (num_entries f)" using Suc.prems(1,2) by (auto simp: fifo_inv_def)
  have len: "length e = unat (entry_size f)"
    using Suc.prems(3) [of "fifo_slot f (fifo_index f i)"] re
      length_fifo_slot [OF Suc.prems(1) fifo_index_lt [OF Suc.prems(1) i(2)]] by simp
  define f1 where "f1 = f\<lparr>queue := mem_write (queue f) ?off e\<rparr>"
  note w = fifo_list_write [OF Suc.prems(1) i(1) len, folded f1_def]
  have fr: "avail f1 = avail f" "entry_size f1 = entry_size f" "num_entries f1 = num_entries f"
    by (simp_all add: f1_def)
  have dr: "drop i (fifo_list f) = fifo_slot f (fifo_index f i) # drop (Suc i) (fifo_list f)"
    using i(1) w(4) Cons_nth_drop_Suc [of i "fifo_list f"] by simp
  have dr1: "drop i (fifo_list f1) = e # drop (Suc i) (fifo_list f)" "take i (fifo_list f1) = take i (fifo_list f)"
    using i(1) by (simp_all add: w(2) drop_update_swap flip: Cons_nth_drop_Suc)
  show ?case
  proof (cases "r = SBI_FIFO_SKIP \<or> r = SBI_FIFO_UPDATED")
    case True
    then have "ret' = r" "f' = f1"
      using Suc.prems(4) re by (auto simp: fifo_slot_def [symmetric] f1_def Let_def)
    with True w(1) fr dr dr1 re show ?thesis by auto
  next
    case False
    then have rec: "inplace_loop fptr inp n (i + 1) r f1 = (ret', f')"
      using Suc.prems(4) re by (auto simp: fifo_slot_def [symmetric] f1_def Let_def)
    have "fifo_inv f' \<and> avail f' = avail f1 \<and> entry_size f' = entry_size f1 \<and> num_entries f' = num_entries f1 \<and>
      list_inplace fptr inp r (drop (i + 1) (fifo_list f1)) = (ret', drop (i + 1) (fifo_list f')) \<and>
      take (i + 1) (fifo_list f') = take (i + 1) (fifo_list f1)"
      using Suc.prems(2,3) w(1) fr by (intro Suc.IH rec) simp_all
    note IH = this [unfolded fr]
    have len': "i < length (fifo_list f')" using IH i(1) by simp
    have tk: "take i (fifo_list f') = take i (fifo_list f1)" "fifo_list f' ! i = fifo_list f1 ! i"
      using IH len' i(1) fr take_Suc_conv_app_nth [of i "fifo_list f'"]
        take_Suc_conv_app_nth [of i "fifo_list f1"] by simp_all
    have "drop i (fifo_list f') = e # drop (Suc i) (fifo_list f')"
      using len' tk(2) i(1) w(2) by (simp add: Cons_nth_drop_Suc [symmetric])
    moreover have "drop (Suc i) (fifo_list f1) = drop (Suc i) (fifo_list f)"
      by (simp add: w(2))
    ultimately show ?thesis
      using IH False re dr dr1 tk(1) by (simp add: Let_def split_def)
  qed
qed

subsection \<open>Properties\<close>

lemma fifo_init_inv:
  assumes "length qm = unat entries * unat esize" and "0 < entries"
  shows "fifo_inv (sbi_fifo_init qm entries esize) \<and> fifo_list (sbi_fifo_init qm entries esize) = []"
  using assms by (simp add: fifo_inv_def fifo_list_def sbi_fifo_init_def word_less_nat_alt)

lemma fifo_reset_inv: "fifo_inv f \<Longrightarrow> fifo_inv (fifo_reset f) \<and> fifo_list (fifo_reset f) = []"
  by (simp add: fifo_inv_def fifo_list_def fifo_reset_def)

text \<open>C37: From \<open>sbi_fifo_init\<close> on, any sequence of enqueues (plain or forced) and dequeues behaves as on a list bounded by the number
  of entries: the same return codes, the same dequeued entries in order, and the ring holds the list's entries; a plain
  enqueue on a full queue and a dequeue on an empty one fail and change nothing, a forced enqueue drops the oldest entry.\<close>

theorem fifo_refines_list:
  assumes "length qm = unat entries * unat esize" and "0 < entries"
    and "\<forall>x\<in>set (enq_values ops). length x = unat esize"
  defines "r \<equiv> queue_run fifo_enq fifo_deq (sbi_fifo_init qm entries esize) ops"
  shows "queue_run (list_enq (unat entries)) list_deq [] ops = (fst r, fifo_list (snd r))"
proof -
  let ?f = "sbi_fifo_init qm entries esize"
  have "num_entries ?f = entries" "fifo_entry ?f x \<longleftrightarrow> length x = unat esize" for x
    by (simp_all add: sbi_fifo_init_def fifo_entry_def)
  then show ?thesis
    using fifo.run_refines [of ?f ops] fifo_init_inv [OF assms(1,2)] assms(3) by (simp add: r_def)
qed

theorem fifo_refines_list_witness:
  "queue_run (list_enq 2) list_deq [] [Enq [1] False, Enq [2] False, Enq [3] True, Deq] =
     ([(0, None), (0, None), (0, None), (0, Some [2])], [[3]]) \<and>
   fst (queue_run fifo_enq fifo_deq (sbi_fifo_init [7, 7] 2 1) [Enq [1] False, Enq [2] False, Enq [3] True, Deq]) =
     [(0, None), (0, None), (0, None), (0, Some [2])]"
  using fifo_refines_list [of "[7, 7]" 2 1 "[Enq [1] False, Enq [2] False, Enq [3] True, Deq]"]
  by (simp add: list_enq_def list_deq_def)

text \<open>\<open>sbi_fifo_inplace_update\<close> shows the callback the entries oldest first, writes each entry back in its place, and stops at
  the first entry for which the callback answers SKIP or UPDATED; the entries behind it and the number of entries stay as they
  were.\<close>

theorem inplace_update_refines:
  assumes "fifo_inv f" and "\<And>e. length e = unat (entry_size f) \<Longrightarrow> length (snd (fptr x e)) = unat (entry_size f)"
  shows "\<exists>f'. fifo_inv f' \<and> sbi_fifo_inplace_update (Some f) (Some x) fptr =
      (fst (list_inplace fptr x SBI_FIFO_UNCHANGED (fifo_list f)), Some f') \<and>
    fifo_list f' = snd (list_inplace fptr x SBI_FIFO_UNCHANGED (fifo_list f))"
proof (cases "fifo_empty f")
  case True
  then have "fifo_list f = []" by (simp add: fifo_list_Nil_iff fifo_empty_iff)
  with True assms(1) show ?thesis by (simp add: sbi_fifo_inplace_update_def)
next
  case False
  obtain ret f' where l: "inplace_loop fptr x (unat (avail f)) 0 SBI_FIFO_UNCHANGED f = (ret, f')" by fastforce
  show ?thesis
    using inplace_loop_refines [OF assms(1) _ assms(2) l] False l by (simp add: sbi_fifo_inplace_update_def)
qed

definition ex_fifo :: sbi_fifo where
  "ex_fifo = \<lparr>queue = [1, 2, 3], entry_size = 1, num_entries = 3, avail = 2, tail = 2\<rparr>"

theorem inplace_update_refines_witness:
  "\<exists>f'. sbi_fifo_inplace_update (Some ex_fifo) (Some ()) (\<lambda>_ e. if e = [1] then (SBI_FIFO_UPDATED, [9]) else (SBI_FIFO_UNCHANGED, e)) =
     (SBI_FIFO_UPDATED, Some f') \<and> fifo_list ex_fifo = [[3], [1]] \<and> fifo_list f' = [[3], [9]]"
proof -
  let ?p = "\<lambda>(_::unit) e :: u8 list. if e = [1] then (SBI_FIFO_UPDATED, [9]) else (SBI_FIFO_UNCHANGED, e)"
  have l: "fifo_list ex_fifo = [[3], [1]]" by code_simp
  have "fifo_inv ex_fifo" by code_simp
  moreover have "length (snd (?p () e)) = unat (entry_size ex_fifo)" if "length e = unat (entry_size ex_fifo)" for e
    using that by (simp add: ex_fifo_def)
  ultimately show ?thesis using inplace_update_refines [of ex_fifo ?p "()"] by (auto simp: l)
qed

end
