(* ===== verification/Sbi_String.thy ===== *)
theory Sbi_String
  imports Sbi_Prelude
begin

text \<open>
  The string and memory routines of \<open>lib/sbi/sbi_string.c\<close>, over a flat byte memory
  \<open>mem :: nat \<Rightarrow> u8\<close>; a pointer is an address. \<open>char\<close> is unsigned on RISC-V. A loop that
  runs until it meets a NUL may not end, so it is a \<open>partial_function (option)\<close> and
  \<open>None\<close> is "does not return"; the counted loops are recursions on the count.
\<close>

type_synonym bytemem = "nat \<Rightarrow> u8"

subsection \<open>Definitions\<close>

partial_function (option) sbi_strcmp :: "bytemem \<Rightarrow> nat \<Rightarrow> nat \<Rightarrow> int option" where
  "sbi_strcmp mem a b =
    (if mem a = mem b \<and> mem a \<noteq> 0 then sbi_strcmp mem (a + 1) (b + 1)
     else Some (uint (mem a) - uint (mem b)))"

fun sbi_strncmp :: "bytemem \<Rightarrow> nat \<Rightarrow> nat \<Rightarrow> nat \<Rightarrow> int" where
  "sbi_strncmp mem a b 0 = 0"
| "sbi_strncmp mem a b (Suc count) =
    (if mem a = mem b \<and> mem a \<noteq> 0 then sbi_strncmp mem (a + 1) (b + 1) count
     else uint (mem a) - uint (mem b))"

partial_function (option) strlen_loop :: "bytemem \<Rightarrow> nat \<Rightarrow> nat \<Rightarrow> nat option" where
  "strlen_loop mem str ret =
    (if mem str \<noteq> 0 then strlen_loop mem (str + 1) (ret + 1) else Some ret)"

definition sbi_strlen :: "bytemem \<Rightarrow> nat \<Rightarrow> nat option" where
  "sbi_strlen mem str = strlen_loop mem str 0"

function strnlen_loop :: "bytemem \<Rightarrow> nat \<Rightarrow> nat \<Rightarrow> nat \<Rightarrow> nat" where
  "strnlen_loop mem str count ret =
    (if mem str \<noteq> 0 \<and> ret < count then strnlen_loop mem (str + 1) count (ret + 1) else ret)"
  by pat_completeness auto
termination
  by (relation "measure (\<lambda>(mem, str, count, ret). count - ret)") auto

declare strnlen_loop.simps [simp del]

definition sbi_strnlen :: "bytemem \<Rightarrow> nat \<Rightarrow> nat \<Rightarrow> nat" where
  "sbi_strnlen mem str count = strnlen_loop mem str count 0"

text \<open>\<open>sbi_strcpy\<close> and \<open>sbi_strncpy\<close> return \<open>dest\<close>; the model returns the memory.\<close>

partial_function (option) sbi_strcpy :: "bytemem \<Rightarrow> nat \<Rightarrow> nat \<Rightarrow> bytemem option" where
  "sbi_strcpy mem dest src =
    (if mem src \<noteq> 0 then sbi_strcpy (mem(dest := mem src)) (dest + 1) (src + 1) else Some mem)"

fun sbi_strncpy :: "bytemem \<Rightarrow> nat \<Rightarrow> nat \<Rightarrow> nat \<Rightarrow> bytemem" where
  "sbi_strncpy mem dest src 0 = mem"
| "sbi_strncpy mem dest src (Suc count) =
    (if mem src \<noteq> 0 then sbi_strncpy (mem(dest := mem src)) (dest + 1) (src + 1) count else mem)"

partial_function (option) sbi_strchr :: "bytemem \<Rightarrow> nat \<Rightarrow> u8 \<Rightarrow> nat option option" where
  "sbi_strchr mem s c =
    (if mem s \<noteq> 0 \<and> mem s \<noteq> c then sbi_strchr mem (s + 1) c
     else if mem s = 0 then Some None else Some (Some s))"

fun strrchr_loop :: "bytemem \<Rightarrow> nat \<Rightarrow> nat \<Rightarrow> u8 \<Rightarrow> nat option" where
  "strrchr_loop mem s 0 c = (if mem s \<noteq> c then None else Some s)"
| "strrchr_loop mem s (Suc k) c =
    (if mem (s + Suc k) \<noteq> c then strrchr_loop mem s k c else Some (s + Suc k))"

definition sbi_strrchr :: "bytemem \<Rightarrow> nat \<Rightarrow> u8 \<Rightarrow> nat option option" where
  "sbi_strrchr mem s c = map_option (\<lambda>n. strrchr_loop mem s n c) (sbi_strlen mem s)"

fun sbi_memset :: "bytemem \<Rightarrow> nat \<Rightarrow> u8 \<Rightarrow> nat \<Rightarrow> bytemem" where
  "sbi_memset mem s c 0 = mem"
| "sbi_memset mem s c (Suc count) = sbi_memset (mem(s := c)) (s + 1) c count"

fun sbi_memcpy :: "bytemem \<Rightarrow> nat \<Rightarrow> nat \<Rightarrow> nat \<Rightarrow> bytemem" where
  "sbi_memcpy mem dest src 0 = mem"
| "sbi_memcpy mem dest src (Suc count) = sbi_memcpy (mem(dest := mem src)) (dest + 1) (src + 1) count"

text \<open>The descending copy of \<open>sbi_memmove\<close>: byte \<open>count - 1\<close> first.\<close>

fun memmove_down :: "bytemem \<Rightarrow> nat \<Rightarrow> nat \<Rightarrow> nat \<Rightarrow> bytemem" where
  "memmove_down mem dest src 0 = mem"
| "memmove_down mem dest src (Suc count) =
    memmove_down (mem(dest + count := mem (src + count))) dest src count"

definition sbi_memmove :: "bytemem \<Rightarrow> nat \<Rightarrow> nat \<Rightarrow> nat \<Rightarrow> bytemem" where
  "sbi_memmove mem dest src count =
    (if src = dest then mem
     else if dest < src then sbi_memcpy mem dest src count
     else memmove_down mem dest src count)"

fun sbi_memcmp :: "bytemem \<Rightarrow> nat \<Rightarrow> nat \<Rightarrow> nat \<Rightarrow> int" where
  "sbi_memcmp mem s1 s2 0 = 0"
| "sbi_memcmp mem s1 s2 (Suc count) =
    (if mem s1 = mem s2 then sbi_memcmp mem (s1 + 1) (s2 + 1) count
     else uint (mem s1) - uint (mem s2))"

fun sbi_memchr :: "bytemem \<Rightarrow> nat \<Rightarrow> u8 \<Rightarrow> nat \<Rightarrow> nat option" where
  "sbi_memchr mem s c 0 = None"
| "sbi_memchr mem s c (Suc count) = (if c = mem s then Some s else sbi_memchr mem (s + 1) c count)"

subsection \<open>Correctness\<close>

text \<open>A C string of length \<open>n\<close> at \<open>p\<close>.\<close>

definition cstring :: "bytemem \<Rightarrow> nat \<Rightarrow> nat \<Rightarrow> bool" where
  "cstring mem p n \<longleftrightarrow> mem (p + n) = 0 \<and> (\<forall>i<n. mem (p + i) \<noteq> 0)"

lemma cstring_Suc: "cstring mem p (Suc n) \<longleftrightarrow> mem p \<noteq> 0 \<and> cstring mem (p + 1) n"
proof
  assume "cstring mem p (Suc n)"
  then show "mem p \<noteq> 0 \<and> cstring mem (p + 1) n"
    unfolding cstring_def by (metis add.assoc add.right_neutral add_0 add_Suc_right Suc_less_eq plus_1_eq_Suc zero_less_Suc)
next
  assume a: "mem p \<noteq> 0 \<and> cstring mem (p + 1) n"
  have "mem (p + i) \<noteq> 0" if "i < Suc n" for i
    using a that by (cases i) (auto simp: cstring_def)
  with a show "cstring mem p (Suc n)" by (auto simp: cstring_def)
qed

lemma cstring_0: "cstring mem p 0 \<longleftrightarrow> mem p = 0"
  by (simp add: cstring_def)

lemma strlen_loop_cstring: "cstring mem p n \<Longrightarrow> strlen_loop mem p r = Some (r + n)"
  by (induction n arbitrary: p r) (simp_all add: strlen_loop.simps cstring_0 cstring_Suc)

lemma sbi_strlen_cstring: "cstring mem p n \<Longrightarrow> sbi_strlen mem p = Some n"
  by (simp add: sbi_strlen_def strlen_loop_cstring)

lemma strnlen_loop_cstring:
  "cstring mem p n \<Longrightarrow> r \<le> c \<Longrightarrow> strnlen_loop mem p c r = min (r + n) c"
  by (induction n arbitrary: p r)
     (auto simp: cstring_0 cstring_Suc strnlen_loop.simps min_def)

lemma sbi_memset_eq: "sbi_memset mem s c n x = (if s \<le> x \<and> x < s + n then c else mem x)"
  by (induction n arbitrary: mem s) auto

text \<open>An ascending copy is right when the destination does not start inside the source.\<close>

lemma sbi_memcpy_eq:
  assumes "dest \<le> src \<or> src + n \<le> dest"
  shows "sbi_memcpy mem dest src n x =
    (if dest \<le> x \<and> x < dest + n then mem (src + (x - dest)) else mem x)"
  using assms
proof (induction n arbitrary: mem dest src)
  case (Suc n)
  define m where "m = mem(dest := mem src)"
  have "dest + 1 \<le> src + 1 \<or> src + 1 + n \<le> dest + 1" using Suc.prems by auto
  note IH = Suc.IH [OF this, of m]
  have step: "sbi_memcpy mem dest src (Suc n) x = sbi_memcpy m (dest + 1) (src + 1) n x"
    by (simp add: m_def)
  consider "x = dest" | "dest < x" "x < dest + Suc n" | "x < dest \<or> dest + Suc n \<le> x" by linarith
  then show ?case
  proof cases
    case 2
    then have "src + 1 + (x - (dest + 1)) = src + (x - dest)" by simp
    moreover have "src + (x - dest) \<noteq> dest" using 2 Suc.prems by auto
    ultimately show ?thesis using 2 unfolding step IH by (simp add: m_def)
  qed (unfold step IH, auto simp: m_def)
qed auto

lemma memmove_down_eq:
  assumes "src \<le> dest"
  shows "memmove_down mem dest src n x =
    (if dest \<le> x \<and> x < dest + n then mem (src + (x - dest)) else mem x)"
  using assms by (induction n arbitrary: mem) auto

lemma sbi_memmove_eq:
  "sbi_memmove mem dest src n x =
    (if dest \<le> x \<and> x < dest + n then mem (src + (x - dest)) else mem x)"
  by (auto simp: sbi_memmove_def sbi_memcpy_eq memmove_down_eq)

lemma sbi_memcmp_eq_0: "sbi_memcmp mem a b n = 0 \<longleftrightarrow> (\<forall>i<n. mem (a + i) = mem (b + i))"
proof (induction n arbitrary: a b)
  case (Suc n)
  show ?case
  proof (cases "mem a = mem b")
    case True
    have "(\<forall>i<Suc n. mem (a + i) = mem (b + i)) \<longleftrightarrow> (\<forall>i<n. mem (a + 1 + i) = mem (b + 1 + i))"
      using True less_Suc_eq_0_disj by auto
    with True Suc.IH show ?thesis by simp
  next
    case False
    then show ?thesis by (auto simp: word_uint_eq_iff)
  qed
qed simp

lemma sbi_strcmp_cstring:
  assumes "cstring mem a n" and "cstring mem b m"
  shows "\<exists>r. sbi_strcmp mem a b = Some r \<and> (r = 0 \<longleftrightarrow> n = m \<and> (\<forall>i<n. mem (a + i) = mem (b + i)))"
  using assms
proof (induction n arbitrary: a b m)
  case 0
  then show ?case
    by (cases m) (auto simp: cstring_0 cstring_Suc sbi_strcmp.simps [of mem a b] word_uint_eq_iff)
next
  case (Suc n)
  show ?case
  proof (cases m)
    case 0
    with Suc.prems show ?thesis
      by (auto simp: cstring_0 cstring_Suc sbi_strcmp.simps [of mem a b] word_uint_eq_iff)
  next
    case (Suc k)
    show ?thesis
    proof (cases "mem a = mem b")
      case True
      then have "sbi_strcmp mem a b = sbi_strcmp mem (a + 1) (b + 1)"
        using Suc.prems by (subst sbi_strcmp.simps) (simp add: cstring_Suc)
      moreover obtain r where "sbi_strcmp mem (a + 1) (b + 1) = Some r"
        "r = 0 \<longleftrightarrow> n = k \<and> (\<forall>i<n. mem (a + 1 + i) = mem (b + 1 + i))"
        using Suc.IH [of "a + 1" "b + 1" k] Suc.prems Suc by (auto simp: cstring_Suc)
      moreover have "(\<forall>i<Suc n. mem (a + i) = mem (b + i)) \<longleftrightarrow> (\<forall>i<n. mem (a + 1 + i) = mem (b + 1 + i))"
        using True less_Suc_eq_0_disj by auto
      ultimately show ?thesis using Suc by auto
    next
      case False
      then show ?thesis by (auto simp: sbi_strcmp.simps [of mem a b] word_uint_eq_iff)
    qed
  qed
qed

lemma sbi_strcpy_eq:
  assumes "cstring mem src n" and "src + n < dest \<or> dest + n \<le> src"
  shows "\<exists>mem'. sbi_strcpy mem dest src = Some mem' \<and>
    (\<forall>x. mem' x = (if dest \<le> x \<and> x < dest + n then mem (src + (x - dest)) else mem x))"
  using assms
proof (induction n arbitrary: mem src dest)
  case 0
  then show ?case by (subst sbi_strcpy.simps) (auto simp: cstring_0)
next
  case (Suc n)
  let ?m = "mem(dest := mem src)"
  have "cstring ?m (src + 1) n"
    using Suc.prems unfolding cstring_def
    by (auto simp: algebra_simps)
  moreover have "src + 1 + n < dest + 1 \<or> dest + 1 + n \<le> src + 1" using Suc.prems(2) by auto
  ultimately obtain mem' where m': "sbi_strcpy ?m (dest + 1) (src + 1) = Some mem'"
    "\<forall>x. mem' x = (if dest + 1 \<le> x \<and> x < dest + 1 + n then ?m (src + 1 + (x - (dest + 1))) else ?m x)"
    using Suc.IH [of ?m "src + 1" "dest + 1"] by blast
  have "sbi_strcpy mem dest src = Some mem'"
    using m'(1) Suc.prems(1) by (subst sbi_strcpy.simps) (simp add: cstring_Suc)
  moreover have "mem' x = (if dest \<le> x \<and> x < dest + Suc n then mem (src + (x - dest)) else mem x)" for x
  proof -
    consider "x = dest" | "dest < x" "x < dest + Suc n" | "x < dest \<or> dest + Suc n \<le> x"
      by linarith
    then show ?thesis
    proof cases
      case 2
      then have "src + 1 + (x - (dest + 1)) = src + (x - dest)" by simp
      moreover have "src + (x - dest) \<noteq> dest" using 2 Suc.prems(2) by auto
      ultimately show ?thesis using 2 m'(2) [rule_format, of x] by simp
    qed (use m'(2) in auto)
  qed
  ultimately show ?case by blast
qed

subsection \<open>Property\<close>

text \<open>\<open>sbi_memmove\<close> copies \<open>n\<close> bytes as they were before the call, also when source and destination overlap in either
  direction, and changes nothing else; \<open>sbi_memcpy\<close> does so when the destination does not start inside the source.\<close>

theorem memmove_copies:
  "sbi_memmove m dest src n = (\<lambda>x. if dest \<le> x \<and> x < dest + n then m (src + (x - dest)) else m x) \<and>
   (sbi_memcpy m dest src n = sbi_memmove m dest src n \<or> src < dest \<and> dest < src + n)"
proof -
  have "sbi_memcpy m dest src n = sbi_memmove m dest src n" if "dest \<le> src \<or> src + n \<le> dest"
    using sbi_memcpy_eq [OF that] by (auto simp: fun_eq_iff sbi_memmove_eq)
  then show ?thesis by (auto simp: fun_eq_iff sbi_memmove_eq)
qed

end
