(* ===== verification/Sbi_List.thy ===== *)
theory Sbi_List
  imports Sbi_Prelude
begin

text \<open>
  The intrusive doubly linked lists of \<open>include/sbi/sbi_list.h\<close>, at pointer level: a store
  maps the address of a \<open>struct sbi_dlist\<close> to its \<open>next\<close> and \<open>prev\<close> fields, and the
  operations are the assignments of the source in their order. \<open>dlist s head xs\<close> says that
  the ring through \<open>head\<close> holds exactly the nodes \<open>xs\<close>, in this order; the lemmas show that
  every operation acts on \<open>xs\<close> as the obvious list operation. The components that keep such
  lists (the heap, the tables of domains and SSE events) are therefore modelled with HOL lists.
\<close>

subsection \<open>Definitions\<close>

record sbi_dlist_store =
  nxt :: "ulong \<Rightarrow> ulong"
  prv :: "ulong \<Rightarrow> ulong"

definition SBI_LIST_POISON_PREV :: ulong where [sbi_defs]: "SBI_LIST_POISON_PREV = 0xDEADBEEF"
definition SBI_LIST_POISON_NEXT :: ulong where [sbi_defs]: "SBI_LIST_POISON_NEXT = 0xFADEBABE"

definition set_nxt :: "ulong \<Rightarrow> ulong \<Rightarrow> sbi_dlist_store \<Rightarrow> sbi_dlist_store" where
  "set_nxt p v s = s\<lparr>nxt := (nxt s)(p := v)\<rparr>"

definition set_prv :: "ulong \<Rightarrow> ulong \<Rightarrow> sbi_dlist_store \<Rightarrow> sbi_dlist_store" where
  "set_prv p v s = s\<lparr>prv := (prv s)(p := v)\<rparr>"

definition SBI_INIT_LIST_HEAD :: "ulong \<Rightarrow> sbi_dlist_store \<Rightarrow> sbi_dlist_store" where
  "SBI_INIT_LIST_HEAD p s = set_prv p p (set_nxt p p s)"

definition sbi_list_add_between ::
  "ulong \<Rightarrow> ulong \<Rightarrow> ulong \<Rightarrow> sbi_dlist_store \<Rightarrow> sbi_dlist_store" where
  "sbi_list_add_between new prev next s =
    set_prv next new (set_nxt prev new (set_nxt new next (set_prv new prev s)))"

definition sbi_list_empty :: "ulong \<Rightarrow> sbi_dlist_store \<Rightarrow> bool" where
  "sbi_list_empty head s \<longleftrightarrow> nxt s head = head"

definition sbi_list_add :: "ulong \<Rightarrow> ulong \<Rightarrow> sbi_dlist_store \<Rightarrow> sbi_dlist_store" where
  "sbi_list_add new head s = sbi_list_add_between new head (nxt s head) s"

definition sbi_list_add_tail :: "ulong \<Rightarrow> ulong \<Rightarrow> sbi_dlist_store \<Rightarrow> sbi_dlist_store" where
  "sbi_list_add_tail new tnode s = sbi_list_add_between new (prv s tnode) tnode s"

definition sbi_list_del_between :: "ulong \<Rightarrow> ulong \<Rightarrow> sbi_dlist_store \<Rightarrow> sbi_dlist_store" where
  "sbi_list_del_between prev next s = set_prv next prev (set_nxt prev next s)"

definition sbi_list_del_entry :: "ulong \<Rightarrow> sbi_dlist_store \<Rightarrow> sbi_dlist_store" where
  "sbi_list_del_entry entry s = sbi_list_del_between (prv s entry) (nxt s entry) s"

definition sbi_list_del :: "ulong \<Rightarrow> sbi_dlist_store \<Rightarrow> sbi_dlist_store" where
  "sbi_list_del entry s =
    set_prv entry SBI_LIST_POISON_PREV (set_nxt entry SBI_LIST_POISON_NEXT
      (sbi_list_del_between (prv s entry) (nxt s entry) s))"

definition sbi_list_del_init :: "ulong \<Rightarrow> sbi_dlist_store \<Rightarrow> sbi_dlist_store" where
  "sbi_list_del_init entry s = SBI_INIT_LIST_HEAD entry (sbi_list_del_entry entry s)"

definition sbi_list_first_entry :: "ulong \<Rightarrow> sbi_dlist_store \<Rightarrow> ulong" where
  "sbi_list_first_entry ptr s = nxt s ptr"

definition sbi_list_last_entry :: "ulong \<Rightarrow> sbi_dlist_store \<Rightarrow> ulong" where
  "sbi_list_last_entry ptr s = prv s ptr"

text \<open>
  \<open>sbi_list_for_each\<close>: the nodes the cursor visits. On a damaged ring the loop need not come
  back to \<open>head\<close>; then the value is \<open>None\<close>.
\<close>

partial_function (option) list_visit ::
  "sbi_dlist_store \<Rightarrow> ulong \<Rightarrow> ulong \<Rightarrow> ulong list option" where
  "list_visit s head pos =
    (if pos = head then Some []
     else Option.bind (list_visit s head (nxt s pos)) (\<lambda>ps. Some (pos # ps)))"

definition sbi_list_for_each :: "sbi_dlist_store \<Rightarrow> ulong \<Rightarrow> ulong list option" where
  "sbi_list_for_each s head = list_visit s head (nxt s head)"

subsection \<open>The abstraction: a ring that holds a list of nodes\<close>

fun dlseg :: "sbi_dlist_store \<Rightarrow> ulong \<Rightarrow> ulong list \<Rightarrow> ulong \<Rightarrow> bool" where
  "dlseg s p [] q \<longleftrightarrow> nxt s p = q \<and> prv s q = p"
| "dlseg s p (x # xs) q \<longleftrightarrow> nxt s p = x \<and> prv s x = p \<and> dlseg s x xs q"

definition dlist :: "sbi_dlist_store \<Rightarrow> ulong \<Rightarrow> ulong list \<Rightarrow> bool" where
  "dlist s head xs \<longleftrightarrow> distinct (head # xs) \<and> dlseg s head xs head"

lemma nxt_set [simp]:
  "nxt (set_nxt p v s) = (nxt s)(p := v)" "nxt (set_prv p v s) = nxt s"
  "prv (set_prv p v s) = (prv s)(p := v)" "prv (set_nxt p v s) = prv s"
  by (simp_all add: set_nxt_def set_prv_def)

lemma dlseg_append:
  "dlseg s p (xs @ y # ys) q \<longleftrightarrow> dlseg s p xs y \<and> dlseg s y ys q"
  by (induction xs arbitrary: p) auto

lemma dlseg_frame:
  assumes "\<And>x. x \<in> insert p (set xs) \<Longrightarrow> nxt s' x = nxt s x"
    and "\<And>x. x \<in> insert q (set xs) \<Longrightarrow> prv s' x = prv s x"
  shows "dlseg s' p xs q \<longleftrightarrow> dlseg s p xs q"
  using assms by (induction xs arbitrary: p) auto

lemma dlseg_last: "dlseg s p xs q \<Longrightarrow> prv s q = last (p # xs)"
  by (induction xs arbitrary: p) auto

lemma dlseg_first: "dlseg s p xs q \<Longrightarrow> nxt s p = hd (xs @ [q])"
  by (cases xs) auto

text \<open>The end of a segment is only linked by its last \<open>next\<close> and its own \<open>prev\<close>.\<close>

lemma dlseg_relink_end:
  assumes "dlseg s p xs q" and "distinct (p # xs)"
    and "nxt s' (last (p # xs)) = r" and "prv s' r = last (p # xs)"
    and "\<And>x. x \<in> set (p # xs) \<Longrightarrow> x \<noteq> last (p # xs) \<Longrightarrow> nxt s' x = nxt s x"
    and "\<And>x. x \<in> set xs \<Longrightarrow> prv s' x = prv s x"
  shows "dlseg s' p xs r"
  using assms
proof (induction xs arbitrary: p)
  case (Cons x xs)
  have "dlseg s' x xs r" using Cons.IH [of x] Cons.prems by auto
  moreover have "nxt s' p = x"
  proof -
    have "p \<noteq> last (p # x # xs)"
      using Cons.prems(2) last_in_set [of "x # xs"] by (auto split: if_splits)
    then show ?thesis using Cons.prems(1) Cons.prems(5) [of p] by simp
  qed
  moreover have "prv s' x = p" using Cons.prems(1,6) by simp
  ultimately show ?case by simp
qed simp

lemma dlseg_relink_start:
  assumes "dlseg s p xs q" and "distinct xs" and "q \<notin> set xs"
    and "nxt s' r = hd (xs @ [q])" and "prv s' = (prv s)(hd (xs @ [q]) := r)"
    and "\<And>x. x \<in> set xs \<Longrightarrow> nxt s' x = nxt s x"
  shows "dlseg s' r xs q"
proof (cases xs)
  case (Cons x ys)
  have "dlseg s' x ys q \<longleftrightarrow> dlseg s x ys q"
    using assms Cons by (intro dlseg_frame) auto
  then show ?thesis using assms Cons by simp
qed (use assms in simp)

lemma dlseg_split:
  "dlseg s p (xs @ ys) q \<longleftrightarrow> dlseg s p xs (hd (ys @ [q])) \<and> dlseg s (last (p # xs)) ys q"
proof (cases ys)
  case Nil
  then show ?thesis using dlseg_last by (auto dest: dlseg_last)
       (induction xs arbitrary: p; auto)
next
  case (Cons y ys')
  have "dlseg s p xs y \<Longrightarrow> nxt s (last (p # xs)) = y \<and> prv s y = last (p # xs)"
    by (induction xs arbitrary: p) auto
  then show ?thesis using Cons by (auto simp: dlseg_append simp del: last.simps)
qed

lemma dlseg_insert:
  assumes "dlseg s p (xs @ ys) q" and "distinct (p # xs @ ys)" and "q \<notin> set (xs @ ys)"
    and "new \<notin> set (p # q # xs @ ys)"
  shows "dlseg (sbi_list_add_between new (last (p # xs)) (hd (ys @ [q])) s) p (xs @ new # ys) q"
    (is "dlseg ?s' _ _ _")
proof -
  let ?a = "last (p # xs)" and ?b = "hd (ys @ [q])"
  have a: "?a \<in> set (p # xs)" and b: "?b \<in> set (ys @ [q])"
    by (rule last_in_set, simp) (rule hd_in_set, simp)
  have n: "new \<noteq> ?a" "new \<noteq> ?b" using a b assms(4) by auto
  have seg: "dlseg s p xs ?b" "dlseg s ?a ys q" using assms(1) dlseg_split by blast+
  have "dlseg ?s' p xs new"
  proof (rule dlseg_relink_end [OF seg(1)])
    show "distinct (p # xs)" using assms(2) by simp
    show "nxt ?s' ?a = new" using n by (simp add: sbi_list_add_between_def del: last.simps)
    show "prv ?s' new = ?a" using n by (simp add: sbi_list_add_between_def del: last.simps)
    show "nxt ?s' x = nxt s x" if "x \<in> set (p # xs)" "x \<noteq> ?a" for x
      using that assms(4) by (auto simp: sbi_list_add_between_def)
    show "prv ?s' x = prv s x" if "x \<in> set xs" for x
    proof -
      have "x \<noteq> ?b" using that b assms(2,3) by auto
      then show ?thesis using that assms(4) by (auto simp: sbi_list_add_between_def simp del: last.simps)
    qed
  qed
  moreover have "dlseg ?s' new ys q"
  proof (rule dlseg_relink_start [where s = "s\<lparr>prv := (prv s)(new := ?a)\<rparr>"])
    show "dlseg (s\<lparr>prv := (prv s)(new := ?a)\<rparr>) ?a ys q"
      using seg(2) assms(4) by (subst dlseg_frame [where s = s]) auto
    show "nxt ?s' x = nxt (s\<lparr>prv := (prv s)(new := ?a)\<rparr>) x" if "x \<in> set ys" for x
    proof -
      have "x \<noteq> ?a" using that a assms(2) by auto
      then show ?thesis using that assms(4) by (auto simp: sbi_list_add_between_def simp del: last.simps)
    qed
  qed (use assms n in \<open>auto simp: sbi_list_add_between_def simp del: last.simps\<close>)
  ultimately show ?thesis by (simp add: dlseg_append)
qed

lemma dlseg_remove:
  assumes "dlseg s p (xs @ e # ys) q" and "distinct (p # xs @ e # ys)" and "q \<notin> set (xs @ e # ys)"
  shows "dlseg (sbi_list_del_between (prv s e) (nxt s e) s) p (xs @ ys) q"
    (is "dlseg ?s' _ _ _")
proof -
  let ?a = "last (p # xs)" and ?b = "hd (ys @ [q])"
  have a: "?a \<in> set (p # xs)" and b: "?b \<in> set (ys @ [q])"
    by (rule last_in_set, simp) (rule hd_in_set, simp)
  have seg: "dlseg s p xs e" "dlseg s e ys q" using assms(1) by (simp_all add: dlseg_append)
  have ab: "prv s e = ?a" "nxt s e = ?b" using dlseg_last [OF seg(1)] dlseg_first [OF seg(2)] by auto
  have "dlseg ?s' p xs ?b"
  proof (rule dlseg_relink_end [OF seg(1)])
    show "prv ?s' x = prv s x" if "x \<in> set xs" for x
    proof -
      have "x \<noteq> ?b" using that b assms(2,3) by auto
      then show ?thesis by (simp add: ab sbi_list_del_between_def)
    qed
  qed (use assms(2) in \<open>auto simp: ab sbi_list_del_between_def simp del: last.simps\<close>)
  moreover have "dlseg ?s' ?a ys q"
  proof (rule dlseg_relink_start [OF seg(2)])
    show "nxt ?s' x = nxt s x" if "x \<in> set ys" for x
    proof -
      have "x \<noteq> ?a" using that a assms(2) by auto
      then show ?thesis by (simp add: ab sbi_list_del_between_def del: last.simps)
    qed
  qed (use assms in \<open>auto simp: ab sbi_list_del_between_def simp del: last.simps\<close>)
  ultimately show ?thesis by (simp only: dlseg_split)
qed

subsection \<open>The operations on rings\<close>

lemma dlist_INIT: "dlist (SBI_INIT_LIST_HEAD h s) h []"
  by (simp add: dlist_def SBI_INIT_LIST_HEAD_def)

lemma sbi_list_empty_iff: "dlist s h xs \<Longrightarrow> sbi_list_empty h s \<longleftrightarrow> xs = []"
  by (cases xs) (auto simp: dlist_def sbi_list_empty_def)

lemma sbi_list_first_entry_eq: "dlist s h (x # xs) \<Longrightarrow> sbi_list_first_entry h s = x"
  by (simp add: dlist_def sbi_list_first_entry_def)

lemma sbi_list_last_entry_eq: "dlist s h (xs @ [x]) \<Longrightarrow> sbi_list_last_entry h s = x"
  by (auto simp: dlist_def sbi_list_last_entry_def dlseg_append)

lemma dlist_insert:
  assumes "dlist s h (xs @ ys)" and "new \<notin> set (h # xs @ ys)"
  shows "dlist (sbi_list_add_between new (last (h # xs)) (hd (ys @ [h])) s) h (xs @ new # ys)"
  using assms dlseg_insert [of s h xs ys h new] by (auto simp: dlist_def simp del: last.simps)

lemma dlist_add:
  assumes "dlist s h (xs @ ys)" and "new \<notin> set (h # xs @ ys)"
  shows "dlist (sbi_list_add new (last (h # xs)) s) h (xs @ new # ys)"
proof -
  have "dlseg s (last (h # xs)) ys h" using assms(1) unfolding dlist_def by (meson dlseg_split)
  then have "nxt s (last (h # xs)) = hd (ys @ [h])" by (rule dlseg_first)
  then show ?thesis using dlist_insert [OF assms] by (simp only: sbi_list_add_def)
qed

lemma dlist_add_head: "dlist s h xs \<Longrightarrow> new \<notin> set (h # xs) \<Longrightarrow> dlist (sbi_list_add new h s) h (new # xs)"
  using dlist_add [of s h "[]" xs new] by simp

lemma dlist_add_tail:
  assumes "dlist s h xs" and "new \<notin> set (h # xs)"
  shows "dlist (sbi_list_add_tail new h s) h (xs @ [new])"
proof -
  have "prv s h = last (h # xs)" using assms(1) unfolding dlist_def by (auto dest: dlseg_last)
  then show ?thesis using dlist_insert [of s h xs "[]" new] assms
    by (simp add: sbi_list_add_tail_def del: last.simps)
qed

lemma dlist_del_entry:
  "dlist s h (xs @ e # ys) \<Longrightarrow> dlist (sbi_list_del_entry e s) h (xs @ ys)"
  using dlseg_remove [of s h xs e ys h] by (auto simp: dlist_def sbi_list_del_entry_def)

lemma dlist_unrelated:
  assumes "dlist s h xs" and "e \<notin> set (h # xs)"
  shows "dlist (set_prv e v s) h xs" and "dlist (set_nxt e v s) h xs"
proof -
  have "x \<noteq> e" if "x \<in> insert h (set xs)" for x using that assms(2) by auto
  then have "dlseg (set_prv e v s) h xs h = dlseg s h xs h" "dlseg (set_nxt e v s) h xs h = dlseg s h xs h"
    by (intro dlseg_frame; simp)+
  then show "dlist (set_prv e v s) h xs" and "dlist (set_nxt e v s) h xs"
    using assms(1) by (simp_all add: dlist_def)
qed

lemma dlist_del:
  assumes "dlist s h (xs @ e # ys)"
  shows "dlist (sbi_list_del e s) h (xs @ ys)" and "dlist (sbi_list_del_init e s) h (xs @ ys)"
    and "dlist (sbi_list_del_init e s) e []"
proof -
  have "e \<notin> set (h # xs @ ys)" using assms by (auto simp: dlist_def)
  then show "dlist (sbi_list_del e s) h (xs @ ys)" "dlist (sbi_list_del_init e s) h (xs @ ys)"
    using dlist_del_entry [OF assms]
    by (auto simp: sbi_list_del_def sbi_list_del_init_def SBI_INIT_LIST_HEAD_def
        sbi_list_del_entry_def intro!: dlist_unrelated)
  show "dlist (sbi_list_del_init e s) e []"
    by (simp add: sbi_list_del_init_def dlist_INIT)
qed

text \<open>An operation on one ring leaves every disjoint ring alone.\<close>

lemma dlist_frame_add_between:
  assumes "dlist s k zs" and "set (k # zs) \<inter> {new, prev, next} = {}"
  shows "dlist (sbi_list_add_between new prev next s) k zs"
  using assms by (auto simp: sbi_list_add_between_def intro!: dlist_unrelated)

lemma dlist_frame_del:
  assumes "dlist s k zs" and "set (k # zs) \<inter> {e, prv s e, nxt s e} = {}"
  shows "dlist (sbi_list_del e s) k zs"
  using assms by (auto simp: sbi_list_del_def sbi_list_del_between_def intro!: dlist_unrelated)

lemma list_visit_seg:
  "dlseg s p xs h \<Longrightarrow> h \<notin> set xs \<Longrightarrow> list_visit s h (nxt s p) = Some xs"
proof (induction xs arbitrary: p)
  case Nil
  then show ?case by (simp add: list_visit.simps)
next
  case (Cons x xs)
  then show ?case by (subst list_visit.simps) auto
qed

text \<open>Over a well-formed ring the iteration ends and visits the nodes in order.\<close>

lemma sbi_list_for_each_eq: "dlist s h xs \<Longrightarrow> sbi_list_for_each s h = Some xs"
  by (auto simp: dlist_def sbi_list_for_each_def intro: list_visit_seg)

subsection \<open>Property\<close>

text \<open>On a well-formed ring the list macros implement the operations on lists: initialisation gives the empty list, adding at the
  head and at the tail conses and appends, deleting removes exactly the node (and keeps it as an empty ring of its own with
  \<open>sbi_list_del_init\<close>), the emptiness test is right, and the iteration ends after visiting the nodes in order.\<close>

theorem list_ops_refine:
  assumes "dlist s h xs" and "new \<notin> set (h # xs)"
  shows "dlist (SBI_INIT_LIST_HEAD h s) h [] \<and> dlist (sbi_list_add new h s) h (new # xs) \<and>
    dlist (sbi_list_add_tail new h s) h (xs @ [new]) \<and> (sbi_list_empty h s \<longleftrightarrow> xs = []) \<and>
    sbi_list_for_each s h = Some xs \<and>
    (\<forall>ys e zs. xs = ys @ e # zs \<longrightarrow> dlist (sbi_list_del e s) h (ys @ zs) \<and>
      dlist (sbi_list_del_init e s) h (ys @ zs) \<and> dlist (sbi_list_del_init e s) e [])"
proof -
  have "dlist (sbi_list_del e s) h (ys @ zs) \<and> dlist (sbi_list_del_init e s) h (ys @ zs) \<and> dlist (sbi_list_del_init e s) e []"
    if "xs = ys @ e # zs" for ys e zs
    using dlist_del [of s h ys e zs] assms(1) that by simp
  then show ?thesis
    using assms dlist_INIT dlist_add_head dlist_add_tail sbi_list_empty_iff sbi_list_for_each_eq by simp
qed

theorem list_ops_refine_witness:
  "dlist (SBI_INIT_LIST_HEAD 16 \<lparr>nxt = \<lambda>_. 0, prv = \<lambda>_. 0\<rparr>) 16 [] \<and>
   dlist (sbi_list_add 32 16 (SBI_INIT_LIST_HEAD 16 \<lparr>nxt = \<lambda>_. 0, prv = \<lambda>_. 0\<rparr>)) 16 [32]"
  using list_ops_refine [of "SBI_INIT_LIST_HEAD 16 \<lparr>nxt = \<lambda>_. 0, prv = \<lambda>_. 0\<rparr>" 16 "[]" 32] dlist_INIT [of 16] by simp

end
