(* ===== verification/Sbi_Scratch.thy ===== *)
theory Sbi_Scratch
  imports Sbi_Bitmap Sbi_String
begin

text \<open>
  \<open>lib/sbi/sbi_scratch.c\<close> and \<open>include/sbi/sbi_scratch.h\<close>: the fixed part of the per-hart
  scratch space, the tables from hart index to hart id and to scratch space, and the
  allocator of the extra scratch space. The C tables are arrays of
  \<open>SBI_HARTMASK_MAX_BITS + 1\<close> entries; the model keeps them as functions of the index, and
  the lemmas say when only indices of the arrays are used. Each operation on the allocator
  runs under \<open>extra_lock\<close>, so it is one step here.
\<close>

subsection \<open>Definitions\<close>

definition SBI_SCRATCH_EXTRA_SPACE_OFFSET :: ulong where [simp, sbi_defs]:
  "SBI_SCRATCH_EXTRA_SPACE_OFFSET = 15 * 8"

definition SBI_SCRATCH_SIZE :: ulong where [simp, sbi_defs]: "SBI_SCRATCH_SIZE = 0x1000"

record sbi_scratch =
  fw_start :: ulong
  fw_size :: ulong
  fw_rw_offset :: ulong
  fw_heap_offset :: ulong
  fw_heap_size :: ulong
  next_arg1 :: ulong
  next_addr :: ulong
  next_mode :: ulong
  warmboot_addr :: ulong
  platform_addr :: ulong
  hartid_to_scratch :: ulong
  trap_context :: ulong
  tmp0 :: ulong
  options :: ulong
  hartindex :: ulong

text \<open>The fields of \<open>struct sbi_platform\<close> that \<open>sbi_scratch_init\<close> reads.\<close>

record sbi_platform_harts =
  hart_count :: u32
  hart_index2id :: "(nat \<Rightarrow> u32) option"

text \<open>The globals of \<open>sbi_scratch.c\<close>, with the memory the scratch spaces live in.\<close>

record scratch_globals =
  last_hartindex_having_scratch :: u32
  hartindex_to_hartid_table :: "nat \<Rightarrow> u32"
  hartindex_to_scratch_table :: "nat \<Rightarrow> ulong"
  extra_offset :: ulong
  scratch_mem :: bytemem

fun hartindex_search :: "scratch_globals \<Rightarrow> u32 \<Rightarrow> nat \<Rightarrow> nat \<Rightarrow> u32" where
  "hartindex_search g hartid i 0 = -1"
| "hartindex_search g hartid i (Suc left) =
    (if hartindex_to_hartid_table g i = hartid then of_nat i
     else hartindex_search g hartid (i + 1) left)"

text \<open>\<open>for (i = 0; i <= last; i++)\<close> makes \<open>last + 1\<close> tests.\<close>

definition sbi_hartid_to_hartindex :: "scratch_globals \<Rightarrow> u32 \<Rightarrow> u32" where
  "sbi_hartid_to_hartindex g hartid =
    hartindex_search g hartid 0 (unat (last_hartindex_having_scratch g) + 1)"

definition scratch_init_step ::
  "(u32 \<Rightarrow> nat \<Rightarrow> ulong) \<Rightarrow> sbi_platform_harts \<Rightarrow> nat \<Rightarrow> scratch_globals \<Rightarrow> scratch_globals" where
  "scratch_init_step hartid2scratch plat i g =
    (let h = (case hart_index2id plat of Some t \<Rightarrow> t i | None \<Rightarrow> of_nat i)
     in g\<lparr>hartindex_to_hartid_table := (hartindex_to_hartid_table g)(i := h),
          hartindex_to_scratch_table := (hartindex_to_scratch_table g)(i := hartid2scratch h i)\<rparr>)"

definition sbi_scratch_init ::
  "(u32 \<Rightarrow> nat \<Rightarrow> ulong) \<Rightarrow> sbi_platform_harts \<Rightarrow> scratch_globals \<Rightarrow> int \<times> scratch_globals" where
  "sbi_scratch_init hartid2scratch plat g =
    (let g = fold (scratch_init_step hartid2scratch plat) [0..<unat (hart_count plat)] g
     in (0, g\<lparr>last_hartindex_having_scratch := hart_count plat - 1\<rparr>))"

definition sbi_hartindex_valid :: "scratch_globals \<Rightarrow> u32 \<Rightarrow> bool" where
  "sbi_hartindex_valid g i \<longleftrightarrow> i \<le> last_hartindex_having_scratch g"

definition sbi_hartindex_to_hartid :: "scratch_globals \<Rightarrow> u32 \<Rightarrow> u32" where
  "sbi_hartindex_to_hartid g i =
    (if i \<le> last_hartindex_having_scratch g then hartindex_to_hartid_table g (unat i) else -1)"

definition sbi_hartindex_to_scratch :: "scratch_globals \<Rightarrow> u32 \<Rightarrow> ulong" where
  "sbi_hartindex_to_scratch g i =
    (if i \<le> last_hartindex_having_scratch g then hartindex_to_scratch_table g (unat i) else 0)"

definition sbi_hartid_to_scratch :: "scratch_globals \<Rightarrow> u32 \<Rightarrow> ulong" where
  "sbi_hartid_to_scratch g hartid = sbi_hartindex_to_scratch g (sbi_hartid_to_hartindex g hartid)"

definition sbi_hartid_valid :: "scratch_globals \<Rightarrow> u32 \<Rightarrow> bool" where
  "sbi_hartid_valid g hartid = sbi_hartindex_valid g (sbi_hartid_to_hartindex g hartid)"

definition sbi_scratch_offset_ptr :: "ulong \<Rightarrow> ulong \<Rightarrow> ulong" where
  "sbi_scratch_offset_ptr scratch off = scratch + off"

definition scratch_zero_step :: "ulong \<Rightarrow> ulong \<Rightarrow> nat \<Rightarrow> scratch_globals \<Rightarrow> scratch_globals" where
  "scratch_zero_step ret sz i g =
    (let rscratch = sbi_hartindex_to_scratch g (of_nat i)
     in if rscratch = 0 then g
        else g\<lparr>scratch_mem :=
          sbi_memset (scratch_mem g) (unat (sbi_scratch_offset_ptr rscratch ret)) 0 (unat sz)\<rparr>)"

definition sbi_scratch_alloc_offset :: "ulong \<Rightarrow> scratch_globals \<Rightarrow> ulong \<times> scratch_globals" where
  "sbi_scratch_alloc_offset sz g =
    (if sz = 0 then (0, g)
     else
       let sz = (sz + 8 - 1) AND NOT (8 - 1);
           ret = (if SBI_SCRATCH_SIZE < extra_offset g + sz then 0 else extra_offset g);
           g = (if SBI_SCRATCH_SIZE < extra_offset g + sz then g
                else g\<lparr>extra_offset := extra_offset g + sz\<rparr>)
       in (ret,
           if ret \<noteq> 0
           then fold (scratch_zero_step ret sz) [0..<unat (last_hartindex_having_scratch g) + 1] g
           else g))"

text \<open>\<open>sbi_scratch_free_offset\<close> checks its argument and releases nothing.\<close>

definition sbi_scratch_free_offset :: "ulong \<Rightarrow> scratch_globals \<Rightarrow> scratch_globals" where
  "sbi_scratch_free_offset offset g = g"

definition sbi_scratch_used_space :: "scratch_globals \<Rightarrow> ulong" where
  "sbi_scratch_used_space g = extra_offset g"

subsection \<open>The hart tables\<close>

lemma hartindex_search_found:
  assumes "i \<le> j" and "j < i + left" and "hartindex_to_hartid_table g j = hartid"
    and "\<And>k. i \<le> k \<Longrightarrow> k < j \<Longrightarrow> hartindex_to_hartid_table g k \<noteq> hartid"
  shows "hartindex_search g hartid i left = of_nat j"
  using assms
proof (induction left arbitrary: i)
  case (Suc left)
  show ?case
  proof (cases "i = j")
    case False
    then have "i + 1 \<le> j" "hartindex_to_hartid_table g i \<noteq> hartid" using Suc.prems by auto
    then show ?thesis using Suc.IH [of "i + 1"] Suc.prems by simp
  qed (use Suc.prems in simp)
qed simp

lemma hartindex_search_none:
  "(\<And>k. i \<le> k \<Longrightarrow> k < i + left \<Longrightarrow> hartindex_to_hartid_table g k \<noteq> hartid) \<Longrightarrow>
    hartindex_search g hartid i left = -1"
  by (induction left arbitrary: i) auto

lemma fold_scratch_init:
  "fold (scratch_init_step f plat) [0..<n] g =
    g\<lparr>hartindex_to_hartid_table := (\<lambda>i. if i < n
        then (case hart_index2id plat of Some t \<Rightarrow> t i | None \<Rightarrow> of_nat i)
        else hartindex_to_hartid_table g i),
      hartindex_to_scratch_table := (\<lambda>i. if i < n
        then f (case hart_index2id plat of Some t \<Rightarrow> t i | None \<Rightarrow> of_nat i) i
        else hartindex_to_scratch_table g i)\<rparr>"
proof (induction n)
  case (Suc n)
  have "fold (scratch_init_step f plat) [0..<Suc n] g =
      scratch_init_step f plat n (fold (scratch_init_step f plat) [0..<n] g)" by simp
  then show ?case
    by (simp only: Suc) (auto simp: scratch_init_step_def Let_def fun_eq_iff less_Suc_eq
      intro!: scratch_globals.equality)
qed simp

abbreviation plat_hartid :: "sbi_platform_harts \<Rightarrow> nat \<Rightarrow> u32" where
  "plat_hartid plat i \<equiv> (case hart_index2id plat of Some t \<Rightarrow> t i | None \<Rightarrow> of_nat i)"

lemma last_hartindex_init:
  assumes "0 < hart_count plat"
  shows "unat (last_hartindex_having_scratch (snd (sbi_scratch_init f plat g))) + 1 = unat (hart_count plat)"
proof -
  have "0 < unat (hart_count plat)" using assms by (simp add: unat_gt_0 word_neq_0_conv)
  then show ?thesis by (simp add: sbi_scratch_init_def Let_def unat_pred_word)
qed

lemma init_hartid_table:
  "i < unat (hart_count plat) \<Longrightarrow>
    hartindex_to_hartid_table (snd (sbi_scratch_init f plat g)) i = plat_hartid plat i"
  by (simp add: sbi_scratch_init_def Let_def fold_scratch_init)

text \<open>After the initialisation the index search inverts the platform's numbering.\<close>

lemma hartid_to_hartindex_init:
  assumes n: "0 < hart_count plat" and i: "i < unat (hart_count plat)"
    and inj: "inj_on (plat_hartid plat) {..<unat (hart_count plat)}"
  shows "sbi_hartid_to_hartindex (snd (sbi_scratch_init f plat g)) (plat_hartid plat i) = of_nat i"
  unfolding sbi_hartid_to_hartindex_def last_hartindex_init [OF n]
proof (rule hartindex_search_found)
  show "hartindex_to_hartid_table (snd (sbi_scratch_init f plat g)) i = plat_hartid plat i"
    using i by (rule init_hartid_table)
  show "hartindex_to_hartid_table (snd (sbi_scratch_init f plat g)) k \<noteq> plat_hartid plat i"
    if "k < i" for k
    using inj_on_contraD [OF inj, of k i] that i init_hartid_table [of k plat f g] by simp
qed (use i in auto)

lemma hartid_to_hartindex_none:
  assumes "0 < hart_count plat" and "\<forall>i < unat (hart_count plat). plat_hartid plat i \<noteq> hartid"
  shows "sbi_hartid_to_hartindex (snd (sbi_scratch_init f plat g)) hartid = -1"
  unfolding sbi_hartid_to_hartindex_def last_hartindex_init [OF assms(1)]
  using assms(2) init_hartid_table [of _ plat f g] by (intro hartindex_search_none) simp

subsection \<open>The extra space\<close>

definition scratch_inv :: "scratch_globals \<Rightarrow> bool" where
  "scratch_inv g \<longleftrightarrow> SBI_SCRATCH_EXTRA_SPACE_OFFSET \<le> extra_offset g \<and> extra_offset g \<le> SBI_SCRATCH_SIZE
    \<and> 8 dvd unat (extra_offset g)"

lemma scratch_zero_step_fields [simp]:
  "extra_offset (scratch_zero_step ret sz i g) = extra_offset g"
  "last_hartindex_having_scratch (scratch_zero_step ret sz i g) = last_hartindex_having_scratch g"
  "hartindex_to_hartid_table (scratch_zero_step ret sz i g) = hartindex_to_hartid_table g"
  "hartindex_to_scratch_table (scratch_zero_step ret sz i g) = hartindex_to_scratch_table g"
  by (simp_all add: scratch_zero_step_def Let_def)

lemma scratch_zero_fold_fields [simp]:
  "extra_offset (fold (scratch_zero_step ret sz) is g) = extra_offset g"
  "last_hartindex_having_scratch (fold (scratch_zero_step ret sz) is g) = last_hartindex_having_scratch g"
  "hartindex_to_hartid_table (fold (scratch_zero_step ret sz) is g) = hartindex_to_hartid_table g"
  "hartindex_to_scratch_table (fold (scratch_zero_step ret sz) is g) = hartindex_to_scratch_table g"
  by (induction "is" arbitrary: g) simp_all

text \<open>What an allocation does to the offset, for the sizes whose rounding does not wrap.\<close>

lemma scratch_alloc_cases:
  assumes inv: "scratch_inv g" and sz: "0 < sz" "unat sz \<le> 2 ^ 63"
    and res: "sbi_scratch_alloc_offset sz g = (ret, g')"
  shows "(ret = 0 \<and> g' = g \<and> 4096 < unat (extra_offset g) + round_up 8 (unat sz)) \<or>
    (ret = extra_offset g \<and> 120 \<le> unat ret \<and>
     unat (extra_offset g') = unat ret + round_up 8 (unat sz) \<and> unat (extra_offset g') \<le> 4096)"
proof -
  define w where "w = (sz + 8 - 1) AND NOT (8 - 1)"
  have r: "unat w = round_up 8 (unat sz)"
    using unat_round_up [of 3 sz] sz(2) by (simp add: w_def)
  have e: "120 \<le> unat (extra_offset g)" "unat (extra_offset g) \<le> 4096"
    using inv by (simp_all add: scratch_inv_def word_le_nat_alt)
  have a: "unat (extra_offset g + w) = unat (extra_offset g) + round_up 8 (unat sz)"
    using round_up_le [of 8 "unat sz"] sz(2) e(2) by (simp add: unat_add_nowrap r)
  have n0: "extra_offset g \<noteq> 0" using e(1) by auto
  have lt: "SBI_SCRATCH_SIZE < extra_offset g + w \<longleftrightarrow> 4096 < unat (extra_offset g) + round_up 8 (unat sz)"
    using a by (simp add: word_less_nat_alt)
  have szn: "sz \<noteq> 0" using sz(1) by auto
  note res' = res [unfolded sbi_scratch_alloc_offset_def Let_def w_def [symmetric] lt]
  show ?thesis
  proof (cases "4096 < unat (extra_offset g) + round_up 8 (unat sz)")
    case True
    then show ?thesis using res' szn by simp
  next
    case False
    then have "ret = extra_offset g" "extra_offset g' = extra_offset g + w"
      using res' szn n0 by auto
    then show ?thesis using a False e by simp
  qed
qed

lemma scratch_inv_alloc:
  assumes "scratch_inv g" and "0 < sz" "unat sz \<le> 2 ^ 63"
  shows "scratch_inv (snd (sbi_scratch_alloc_offset sz g))"
proof -
  obtain ret g' where r: "sbi_scratch_alloc_offset sz g = (ret, g')" by (metis surj_pair)
  have "8 dvd unat (extra_offset g)" using assms(1) by (simp add: scratch_inv_def)
  then show ?thesis
    using scratch_alloc_cases [OF assms r] assms(1) dvd_round_up [of 8 "unat sz"] r
    by (auto simp: scratch_inv_def word_le_nat_alt)
qed

text \<open>The addresses of a (pointer, size) pair.\<close>

definition span :: "ulong \<times> ulong \<Rightarrow> nat set" where
  "span b = {unat (fst b)..<unat (fst b) + unat (snd b)}"

text \<open>The new space is zeroed in the scratch space of every hart that has one.\<close>

definition scratch_range :: "scratch_globals \<Rightarrow> ulong \<Rightarrow> ulong \<Rightarrow> nat \<Rightarrow> nat set" where
  "scratch_range g ret sz i =
    (let r = sbi_hartindex_to_scratch g (of_nat i)
     in if r = 0 then {} else {unat (r + ret)..<unat (r + ret) + unat sz})"

lemma scratch_range_cong:
  "last_hartindex_having_scratch g' = last_hartindex_having_scratch g \<Longrightarrow>
    hartindex_to_scratch_table g' = hartindex_to_scratch_table g \<Longrightarrow>
    scratch_range g' = scratch_range g"
  by (auto simp: scratch_range_def sbi_hartindex_to_scratch_def fun_eq_iff)

lemma scratch_zero_mem:
  "scratch_mem (fold (scratch_zero_step ret sz) is g) x =
    (if x \<in> (\<Union>i\<in>set is. scratch_range g ret sz i) then 0 else scratch_mem g x)"
proof (induction "is" arbitrary: g)
  case (Cons i "is")
  have "scratch_range (scratch_zero_step ret sz i g) = scratch_range g"
    by (rule scratch_range_cong) simp_all
  moreover have "scratch_mem (scratch_zero_step ret sz i g) x =
      (if x \<in> scratch_range g ret sz i then 0 else scratch_mem g x)"
    by (simp add: scratch_zero_step_def scratch_range_def Let_def sbi_scratch_offset_ptr_def sbi_memset_eq)
  ultimately show ?case by (simp add: Cons.IH)
qed simp

lemma scratch_alloc_mem:
  assumes "sbi_scratch_alloc_offset sz g = (ret, g')" and "ret \<noteq> 0"
  shows "scratch_mem g' x =
    (if x \<in> (\<Union>i\<in>{..unat (last_hartindex_having_scratch g)}.
          scratch_range g ret ((sz + 8 - 1) AND NOT (8 - 1)) i)
     then 0 else scratch_mem g x)"
proof -
  define w where "w = (sz + 8 - 1) AND NOT (8 - 1)"
  note res = assms(1) [unfolded sbi_scratch_alloc_offset_def Let_def w_def [symmetric]]
  have g': "g' = fold (scratch_zero_step ret w) [0..<unat (last_hartindex_having_scratch g) + 1]
      (g\<lparr>extra_offset := extra_offset g + w\<rparr>)"
    using res assms(2) by (auto split: if_splits simp del: upt_Suc)
  have "scratch_range (g\<lparr>extra_offset := extra_offset g + w\<rparr>) = scratch_range g"
    by (rule scratch_range_cong) simp_all
  moreover have "set [0..<unat (last_hartindex_having_scratch g) + 1] = {..unat (last_hartindex_having_scratch g)}"
    by auto
  ultimately show ?thesis
    unfolding w_def [symmetric] g' by (simp only: scratch_zero_mem) simp
qed

subsection \<open>An interface: allocators that never hand out a byte twice\<close>

locale offset_allocator =
  fixes alloc :: "ulong \<Rightarrow> 's \<Rightarrow> ulong \<times> 's"
    and inv :: "'s \<Rightarrow> bool"
    and used :: "'s \<Rightarrow> nat set"
    and ok_size :: "ulong \<Rightarrow> bool"
  assumes alloc_keeps: "inv s \<Longrightarrow> ok_size sz \<Longrightarrow> alloc sz s = (p, s') \<Longrightarrow> inv s'"
    and alloc_mono: "inv s \<Longrightarrow> ok_size sz \<Longrightarrow> alloc sz s = (p, s') \<Longrightarrow> used s \<subseteq> used s'"
    and alloc_fresh: "inv s \<Longrightarrow> ok_size sz \<Longrightarrow> alloc sz s = (p, s') \<Longrightarrow> p \<noteq> 0 \<Longrightarrow>
      {unat p..<unat p + unat sz} \<inter> used s = {} \<and> {unat p..<unat p + unat sz} \<subseteq> used s'"
begin

text \<open>A client that makes a sequence of requests gets blocks that do not overlap.\<close>

fun alloc_all :: "ulong list \<Rightarrow> 's \<Rightarrow> (ulong \<times> ulong) list" where
  "alloc_all [] s = []"
| "alloc_all (sz # szs) s =
    (case alloc sz s of (p, s') \<Rightarrow>
      if p = 0 then alloc_all szs s' else (p, sz) # alloc_all szs s')"

lemma alloc_all_fresh:
  "inv s \<Longrightarrow> \<forall>sz \<in> set szs. ok_size sz \<Longrightarrow> b \<in> set (alloc_all szs s) \<Longrightarrow> span b \<inter> used s = {}"
proof (induction szs arbitrary: s)
  case (Cons sz szs)
  obtain p s' where a: "alloc sz s = (p, s')" by (metis surj_pair)
  have "ok_size sz" using Cons.prems(2) by simp
  then have "inv s'" "used s \<subseteq> used s'"
    using alloc_keeps [OF Cons.prems(1) _ a] alloc_mono [OF Cons.prems(1) _ a] by simp_all
  then show ?case
    using Cons a alloc_fresh [OF Cons.prems(1) _ a]
    by (auto simp: span_def split: if_splits)
qed simp

lemma alloc_all_disjoint:
  "inv s \<Longrightarrow> \<forall>sz \<in> set szs. ok_size sz \<Longrightarrow>
    sorted_wrt (\<lambda>b c. span b \<inter> span c = {}) (alloc_all szs s)"
proof (induction szs arbitrary: s)
  case (Cons sz szs)
  obtain p s' where a: "alloc sz s = (p, s')" by (metis surj_pair)
  have i: "inv s'" using alloc_keeps Cons.prems a by auto
  have "span (p, sz) \<inter> span c = {}" if "p \<noteq> 0" "c \<in> set (alloc_all szs s')" for c
  proof -
    have "span (p, sz) \<subseteq> used s'" using alloc_fresh [OF Cons.prems(1) _ a that(1)] Cons.prems(2)
      by (simp add: span_def)
    then show ?thesis using alloc_all_fresh [OF i _ that(2)] Cons.prems(2) by auto
  qed
  then show ?case using Cons.IH [OF i] Cons.prems(2) a by auto
qed simp

end

definition scratch_ok_size :: "ulong \<Rightarrow> bool" where
  "scratch_ok_size sz \<longleftrightarrow> 0 < sz \<and> unat sz \<le> 2 ^ 63"

interpretation scratch: offset_allocator sbi_scratch_alloc_offset scratch_inv
  "\<lambda>g. {..<unat (extra_offset g)}" scratch_ok_size
proof unfold_locales
  fix s sz p s'
  assume a: "scratch_inv s" "scratch_ok_size sz" "sbi_scratch_alloc_offset sz s = (p, s')"
  note c = scratch_alloc_cases [OF a(1) _ _ a(3)]
  show "scratch_inv s'" using scratch_inv_alloc [OF a(1), of sz] a(2,3) by (simp add: scratch_ok_size_def)
  show "{..<unat (extra_offset s)} \<subseteq> {..<unat (extra_offset s')}"
    using c a(2) by (auto simp: scratch_ok_size_def)
  assume "p \<noteq> 0"
  then show "{unat p..<unat p + unat sz} \<inter> {..<unat (extra_offset s)} = {} \<and>
      {unat p..<unat p + unat sz} \<subseteq> {..<unat (extra_offset s')}"
    using c a(2) round_up_ge [of 8 "unat sz"] by (auto simp: scratch_ok_size_def)
qed

subsection \<open>Properties\<close>

text \<open>The areas that a sequence of \<open>sbi_scratch_alloc_offset\<close> calls returns.\<close>

fun scratch_alloc_all :: "ulong list \<Rightarrow> scratch_globals \<Rightarrow> (ulong \<times> ulong) list" where
  "scratch_alloc_all [] g = []"
| "scratch_alloc_all (sz # szs) g =
    (case sbi_scratch_alloc_offset sz g of (p, g') \<Rightarrow>
      if p = 0 then scratch_alloc_all szs g' else (p, sz) # scratch_alloc_all szs g')"

lemma scratch_alloc_all_eq: "scratch_alloc_all szs g = scratch.alloc_all szs g"
  by (induction szs arbitrary: g) (simp_all split: prod.split)

lemma scratch_alloc_all_bounds:
  "scratch_inv g \<Longrightarrow> \<forall>sz \<in> set szs. scratch_ok_size sz \<Longrightarrow> b \<in> set (scratch_alloc_all szs g) \<Longrightarrow>
    span b \<subseteq> {120..<4096}"
proof (induction szs arbitrary: g)
  case (Cons sz szs)
  obtain p g' where a: "sbi_scratch_alloc_offset sz g = (p, g')" by (metis surj_pair)
  have ok: "0 < sz" "unat sz \<le> 2 ^ 63" using Cons.prems(2) by (simp_all add: scratch_ok_size_def)
  have i: "scratch_inv g'" using scratch_inv_alloc [OF Cons.prems(1) ok] a by simp
  have "p \<noteq> 0 \<Longrightarrow> span (p, sz) \<subseteq> {120..<4096}"
    using scratch_alloc_cases [OF Cons.prems(1) ok a] round_up_ge [of 8 "unat sz"] by (auto simp: span_def)
  then show ?case using Cons.IH [OF i] Cons.prems(2,3) a by (auto split: if_splits)
qed simp

text \<open>Scratch offsets are never shared: whatever sequence of (non-zero, at most \<open>2^63\<close>) sizes is
  requested, the areas that \<open>sbi_scratch_alloc_offset\<close> returns are pairwise disjoint and lie in the
  scratch space behind its fixed part.\<close>

theorem scratch_offsets_disjoint:
  assumes "scratch_inv g" and "\<forall>sz \<in> set szs. scratch_ok_size sz"
  shows "sorted_wrt (\<lambda>b c. span b \<inter> span c = {}) (scratch_alloc_all szs g) \<and>
    (\<forall>b \<in> set (scratch_alloc_all szs g). span b \<subseteq> {unat SBI_SCRATCH_EXTRA_SPACE_OFFSET..<unat SBI_SCRATCH_SIZE})"
  using scratch.alloc_all_disjoint [OF assms] scratch_alloc_all_bounds [OF assms] by (simp add: scratch_alloc_all_eq)

definition boot_scratch :: scratch_globals where
  "boot_scratch = \<lparr>last_hartindex_having_scratch = 0, hartindex_to_hartid_table = (\<lambda>_. 0),
    hartindex_to_scratch_table = (\<lambda>_. 0), extra_offset = 120, scratch_mem = (\<lambda>_. 0xaa)\<rparr>"

theorem scratch_offsets_disjoint_witness:
  "scratch_alloc_all [56, 8, 0xff] boot_scratch = [(120, 56), (176, 8), (184, 0xff)] \<and>
   sorted_wrt (\<lambda>b c. span b \<inter> span c = {}) (scratch_alloc_all [56, 8, 0xff] boot_scratch)"
proof -
  have "scratch_inv boot_scratch" by (simp add: scratch_inv_def boot_scratch_def)
  then have "sorted_wrt (\<lambda>b c. span b \<inter> span c = {}) (scratch_alloc_all [56, 8, 0xff] boot_scratch)"
    using scratch_offsets_disjoint [of boot_scratch "[56, 8, 0xff]"] by (simp add: scratch_ok_size_def del: scratch_alloc_all.simps)
  moreover have "scratch_alloc_all [56, 8, 0xff] boot_scratch = [(120, 56), (176, 8), (184, 0xff)]"
    by (simp add: sbi_scratch_alloc_offset_def boot_scratch_def scratch_zero_step_def sbi_hartindex_to_scratch_def Let_def)
  ultimately show ?thesis by blast
qed

text \<open>After \<open>sbi_scratch_init\<close> the two hart tables are inverse to each other: the index of a hart's id
  is the hart, the id of that index is the given id, and an id of no hart of the platform gives
  \<open>-1\<close>, which is not a valid index.\<close>

theorem hart_tables_inverse:
  fixes f g0
  assumes "0 < hart_count plat" and "inj_on (plat_hartid plat) {..<unat (hart_count plat)}"
  defines "g \<equiv> snd (sbi_scratch_init f plat g0)"
  shows "(\<forall>i < unat (hart_count plat). sbi_hartid_to_hartindex g (plat_hartid plat i) = of_nat i \<and>
      sbi_hartindex_to_hartid g (of_nat i) = plat_hartid plat i) \<and>
    (\<forall>h. h \<notin> plat_hartid plat ` {..<unat (hart_count plat)} \<longrightarrow> sbi_hartid_to_hartindex g h = -1)"
proof -
  have l: "unat (last_hartindex_having_scratch g) + 1 = unat (hart_count plat)"
    using last_hartindex_init [OF assms(1)] by (simp add: g_def)
  have "sbi_hartindex_to_hartid g (of_nat i) = plat_hartid plat i" if i: "i < unat (hart_count plat)" for i
  proof -
    have u: "unat (of_nat i :: u32) = i" using i less_trans [OF i unsigned_less] by (simp add: unat_of_nat)
    then have "of_nat i \<le> last_hartindex_having_scratch g" using i l by (simp add: word_le_nat_alt)
    then show ?thesis using init_hartid_table [OF i, of f g0] u by (simp add: sbi_hartindex_to_hartid_def g_def)
  qed
  moreover have "sbi_hartid_to_hartindex g h = -1" if "h \<notin> plat_hartid plat ` {..<unat (hart_count plat)}" for h
    unfolding g_def using that by (intro hartid_to_hartindex_none [OF assms(1)]) blast
  ultimately show ?thesis
    using hartid_to_hartindex_init [OF assms(1) _ assms(2), of _ f g0] by (simp add: g_def)
qed

theorem hart_tables_inverse_witness:
  "sbi_hartid_to_hartindex (snd (sbi_scratch_init (\<lambda>_ _. 0x80040000)
    \<lparr>hart_count = 2, hart_index2id = Some (\<lambda>i. if i = 0 then 5 else 9)\<rparr> boot_scratch)) 9 = 1"
proof -
  let ?p = "\<lparr>hart_count = 2, hart_index2id = Some (\<lambda>i. if i = 0 then 5 else 9)\<rparr>"
  have "inj_on (plat_hartid ?p) {..<unat (hart_count ?p)}" by (auto simp: inj_on_def split: if_splits)
  from hart_tables_inverse [OF _ this, of "\<lambda>_ _. 0x80040000" boot_scratch]
  have "\<forall>i < 2. sbi_hartid_to_hartindex (snd (sbi_scratch_init (\<lambda>_ _. 0x80040000) ?p boot_scratch)) (plat_hartid ?p i) = of_nat i"
    by simp
  from spec [OF this, of 1] show ?thesis by simp
qed

end
