(* ===== verification/Sbi_Heap.thy ===== *)
theory Sbi_Heap
  imports Sbi_Scratch Sbi_List "HOL-Library.Multiset"
begin

text \<open>
  The heap of \<open>lib/sbi/sbi_heap.c\<close>. A heap control block keeps three lists of heap nodes:
  unused nodes, free space and used space. The lists are HOL lists (\<open>Sbi_List\<close> shows that
  the pointer operations act as the list operations used here); \<open>hn_ptr\<close> is the address of a
  node in the housekeeping area. Every operation runs under the lock of its control block and
  is one step.
\<close>

subsection \<open>Definitions\<close>

definition HEAP_ALLOC_ALIGN :: ulong where [simp, sbi_defs]: "HEAP_ALLOC_ALIGN = 64"
definition HEAP_HOUSEKEEPING_FACTOR :: ulong where [simp, sbi_defs]: "HEAP_HOUSEKEEPING_FACTOR = 16"
definition HEAP_BASE_ALIGN :: ulong where [simp, sbi_defs]: "HEAP_BASE_ALIGN = 1024"

definition ROUNDUP :: "ulong \<Rightarrow> ulong \<Rightarrow> ulong" where
  "ROUNDUP a b = ((a - 1) div b + 1) * b"

record heap_node =
  hn_ptr :: ulong
  hn_addr :: ulong
  hn_size :: ulong

record sbi_heap_control =
  hp_base :: ulong
  hp_size :: ulong
  hp_hkbase :: ulong
  hp_hksize :: ulong
  free_node_list :: "heap_node list"
  free_space_list :: "heap_node list"
  used_space_list :: "heap_node list"

definition remove_nth :: "nat \<Rightarrow> 'a list \<Rightarrow> 'a list" where
  "remove_nth i xs = take i xs @ drop (Suc i) xs"

text \<open>The search loop of \<open>alloc_with_align\<close>: the position of \<open>np\<close>.\<close>

fun alloc_search :: "ulong \<Rightarrow> ulong \<Rightarrow> heap_node list \<Rightarrow> nat option" where
  "alloc_search align sz [] = None"
| "alloc_search align sz (n # ns) =
    (let pad = ROUNDUP (hn_addr n) align - hn_addr n
     in if sz + pad \<le> hn_size n then Some 0 else map_option Suc (alloc_search align sz ns))"

definition alloc_with_align ::
  "sbi_heap_control \<Rightarrow> ulong \<Rightarrow> ulong \<Rightarrow> ulong \<times> sbi_heap_control" where
  "alloc_with_align hp align sz =
    (if sz = 0 then (0, hp)
     else
       let sz = (sz + align - 1) AND NOT (align - 1)
       in (case alloc_search align sz (free_space_list hp) of
         None \<Rightarrow> (0, hp)
       | Some i \<Rightarrow>
           let np = free_space_list hp ! i;
               lowest_aligned = ROUNDUP (hn_addr np) align;
               pad = lowest_aligned - hn_addr np
           in if pad \<noteq> 0 then
                (case free_node_list hp of
                  [] \<Rightarrow> (0, hp)
                | n # fnl \<Rightarrow>
                    if sz + pad < hn_size np \<and> fnl \<noteq> [] then
                      let rem = (hd fnl)\<lparr>hn_addr := hn_addr np + (sz + pad),
                                         hn_size := hn_size np - (sz + pad)\<rparr>;
                          n = n\<lparr>hn_addr := lowest_aligned, hn_size := sz\<rparr>
                      in (hn_addr n,
                          hp\<lparr>free_node_list := tl fnl,
                             free_space_list :=
                               (free_space_list hp)[i := np\<lparr>hn_size := pad\<rparr>] @ [rem],
                             used_space_list := used_space_list hp @ [n]\<rparr>)
                    else if sz + pad \<noteq> hn_size np then
                      (0, hp\<lparr>free_node_list := n # fnl\<rparr>)
                    else
                      let n = n\<lparr>hn_addr := lowest_aligned, hn_size := sz\<rparr>
                      in (hn_addr n,
                          hp\<lparr>free_node_list := fnl,
                             free_space_list := (free_space_list hp)[i := np\<lparr>hn_size := pad\<rparr>],
                             used_space_list := used_space_list hp @ [n]\<rparr>))
              else if sz < hn_size np \<and> free_node_list hp \<noteq> [] then
                let n = (hd (free_node_list hp))\<lparr>hn_addr := hn_addr np, hn_size := sz\<rparr>
                in (hn_addr n,
                    hp\<lparr>free_node_list := tl (free_node_list hp),
                       free_space_list := (free_space_list hp)[i :=
                         np\<lparr>hn_addr := hn_addr np + sz, hn_size := hn_size np - sz\<rparr>],
                       used_space_list := used_space_list hp @ [n]\<rparr>)
              else if sz = hn_size np then
                (hn_addr np,
                 hp\<lparr>free_space_list := remove_nth i (free_space_list hp),
                    used_space_list := used_space_list hp @ [np]\<rparr>)
              else (0, hp)))"

definition sbi_malloc_from :: "sbi_heap_control \<Rightarrow> ulong \<Rightarrow> ulong \<times> sbi_heap_control" where
  "sbi_malloc_from hp sz = alloc_with_align hp HEAP_ALLOC_ALIGN sz"

definition sbi_aligned_alloc_from ::
  "sbi_heap_control \<Rightarrow> ulong \<Rightarrow> ulong \<Rightarrow> ulong \<times> sbi_heap_control" where
  "sbi_aligned_alloc_from hp alignment sz =
    (let alignment = (if alignment < HEAP_ALLOC_ALIGN then HEAP_ALLOC_ALIGN else alignment)
     in if alignment AND (alignment - 1) \<noteq> 0 then (0, hp)
        else if sz mod alignment \<noteq> 0 then (0, hp)
        else alloc_with_align hp alignment sz)"

definition sbi_zalloc_from ::
  "sbi_heap_control \<Rightarrow> bytemem \<Rightarrow> ulong \<Rightarrow> ulong \<times> sbi_heap_control \<times> bytemem" where
  "sbi_zalloc_from hp mem sz =
    (case sbi_malloc_from hp sz of (ret, hp') \<Rightarrow>
      (ret, hp', if ret \<noteq> 0 then sbi_memset mem (unat ret) 0 (unat sz) else mem))"

definition sbi_calloc_from ::
  "sbi_heap_control \<Rightarrow> bytemem \<Rightarrow> ulong \<Rightarrow> ulong \<Rightarrow> ulong \<times> sbi_heap_control \<times> bytemem" where
  "sbi_calloc_from hp mem nitems sz = sbi_zalloc_from hp mem (nitems * sz)"

text \<open>The first loop of \<open>sbi_free_from\<close>: the used node that holds the pointer.\<close>

fun used_search :: "ulong \<Rightarrow> heap_node list \<Rightarrow> nat option" where
  "used_search p [] = None"
| "used_search p (n # ns) =
    (if hn_addr n \<le> p \<and> p < hn_addr n + hn_size n then Some 0
     else map_option Suc (used_search p ns))"

text \<open>
  Its second loop: \<open>np\<close> is joined to the first adjacent free node (and the node itself
  returned to the unused ones), or inserted after the first node that ends before it, or
  added at the tail.
\<close>

fun free_place :: "heap_node \<Rightarrow> heap_node list \<Rightarrow> heap_node list \<times> heap_node option" where
  "free_place np [] = ([np], None)"
| "free_place np (n # ns) =
    (if hn_addr np + hn_size np = hn_addr n then
       (n\<lparr>hn_addr := hn_addr np, hn_size := hn_size n + hn_size np\<rparr> # ns, Some np)
     else if hn_addr np = hn_addr n + hn_size n then
       (n\<lparr>hn_size := hn_size n + hn_size np\<rparr> # ns, Some np)
     else if hn_addr n + hn_size n < hn_addr np then (n # np # ns, None)
     else (case free_place np ns of (ns', r) \<Rightarrow> (n # ns', r)))"

definition sbi_free_from :: "sbi_heap_control \<Rightarrow> ulong \<Rightarrow> sbi_heap_control" where
  "sbi_free_from hp p =
    (if p = 0 then hp
     else (case used_search p (used_space_list hp) of
       None \<Rightarrow> hp
     | Some i \<Rightarrow>
         let np = used_space_list hp ! i
         in (case free_place np (free_space_list hp) of (fsl, r) \<Rightarrow>
           hp\<lparr>used_space_list := remove_nth i (used_space_list hp),
              free_space_list := fsl,
              free_node_list := free_node_list hp @ (case r of Some m \<Rightarrow> [m] | None \<Rightarrow> [])\<rparr>)))"

definition sbi_heap_free_space_from :: "sbi_heap_control \<Rightarrow> ulong" where
  "sbi_heap_free_space_from hp = fold (\<lambda>n ret. ret + hn_size n) (free_space_list hp) 0"

text \<open>The source subtracts the free space of the global heap, whatever heap it is asked about.\<close>

definition sbi_heap_used_space_from :: "sbi_heap_control \<Rightarrow> sbi_heap_control \<Rightarrow> ulong" where
  "sbi_heap_used_space_from global_hpctrl hp =
    hp_size hp - hp_hksize hp - sbi_heap_free_space_from global_hpctrl"

definition sbi_heap_reserved_space_from :: "sbi_heap_control \<Rightarrow> ulong" where
  "sbi_heap_reserved_space_from hp = hp_hksize hp"

text \<open>
  \<open>sbi_heap_init_new\<close>. \<open>sizeof(struct heap_node)\<close> is 32. With an empty housekeeping area
  \<open>sbi_list_first_entry\<close> is applied to an empty list, whose result is the list head itself
  taken for a node: undefined, and \<open>None\<close> here.
\<close>

definition sbi_heap_init_new :: "ulong \<Rightarrow> ulong \<Rightarrow> (int \<times> sbi_heap_control) option" where
  "sbi_heap_init_new base sz =
    (let hksize = (sz div HEAP_HOUSEKEEPING_FACTOR) AND NOT (HEAP_BASE_ALIGN - 1);
         fnl = map (\<lambda>i. \<lparr>hn_ptr = base + 32 * of_nat i, hn_addr = 0, hn_size = 0\<rparr>)
                 [0..<unat (hksize div 32)]
     in (case fnl of
         [] \<Rightarrow> None
       | n # fnl' \<Rightarrow>
           Some (0, \<lparr>hp_base = base, hp_size = sz, hp_hkbase = base, hp_hksize = hksize,
             free_node_list = fnl',
             free_space_list = [n\<lparr>hn_addr := base + hksize, hn_size := sz - hksize\<rparr>],
             used_space_list = []\<rparr>)))"

text \<open>\<open>Some (Inl e)\<close> is an error code, \<open>Some (Inr hp)\<close> the initialised global heap.\<close>

definition sbi_heap_init :: "sbi_scratch \<Rightarrow> (int + sbi_heap_control) option" where
  "sbi_heap_init scratch =
    (if fw_heap_size scratch = 0
        \<or> fw_heap_size scratch AND (HEAP_BASE_ALIGN - 1) \<noteq> 0
        \<or> fw_heap_offset scratch < fw_rw_offset scratch
        \<or> fw_size scratch < fw_heap_offset scratch + fw_heap_size scratch
        \<or> fw_heap_offset scratch AND (HEAP_BASE_ALIGN - 1) \<noteq> 0
     then Some (Inl SBI_EINVAL)
     else map_option (\<lambda>r. Inr (snd r))
       (sbi_heap_init_new (fw_start scratch + fw_heap_offset scratch) (fw_heap_size scratch)))"

subsection \<open>The invariant: every heap byte is in exactly one node\<close>

definition in_node :: "heap_node \<Rightarrow> nat \<Rightarrow> bool" where
  "in_node n x \<longleftrightarrow> unat (hn_addr n) \<le> x \<and> x < unat (hn_addr n) + unat (hn_size n)"

definition covers :: "heap_node list \<Rightarrow> nat \<Rightarrow> nat" where
  "covers ns x = sum_list (map (\<lambda>n. of_bool (in_node n x)) ns)"

definition heap_lo :: "sbi_heap_control \<Rightarrow> nat" where
  "heap_lo hp = unat (hp_base hp) + unat (hp_hksize hp)"

definition heap_hi :: "sbi_heap_control \<Rightarrow> nat" where
  "heap_hi hp = unat (hp_base hp) + unat (hp_size hp)"

definition node_ok :: "sbi_heap_control \<Rightarrow> heap_node \<Rightarrow> bool" where
  "node_ok hp n \<longleftrightarrow> 0 < unat (hn_size n) \<and> unat (hn_addr n) + unat (hn_size n) \<le> heap_hi hp"

definition heap_inv :: "sbi_heap_control \<Rightarrow> bool" where
  "heap_inv hp \<longleftrightarrow> 0 < heap_lo hp \<and> heap_hi hp < 2 ^ 64 \<and>
    (\<forall>n \<in> set (free_space_list hp @ used_space_list hp). node_ok hp n) \<and>
    (\<forall>x. covers (free_space_list hp @ used_space_list hp) x = of_bool (heap_lo hp \<le> x \<and> x < heap_hi hp))"

lemma covers_simps [simp]:
  "covers [] x = 0"
  "covers (n # ns) x = of_bool (in_node n x) + covers ns x"
  "covers (ns @ ms) x = covers ns x + covers ms x"
  by (simp_all add: covers_def)

lemma covers_update:
  assumes "i < length ns"
  shows "covers (ns[i := m]) x + of_bool (in_node (ns ! i) x) = covers ns x + of_bool (in_node m x)"
proof -
  have "covers ns x = covers (take i ns @ ns ! i # drop (Suc i) ns) x"
    using id_take_nth_drop [OF assms] by simp
  then show ?thesis using assms by (simp add: upd_conv_take_nth_drop)
qed

lemma covers_remove:
  assumes "i < length ns"
  shows "covers (remove_nth i ns) x + of_bool (in_node (ns ! i) x) = covers ns x"
proof -
  have "covers ns x = covers (take i ns @ ns ! i # drop (Suc i) ns) x"
    using id_take_nth_drop [OF assms] by simp
  then show ?thesis by (simp add: remove_nth_def)
qed

lemma covers_mem: "n \<in> set ns \<Longrightarrow> in_node n x \<Longrightarrow> 1 \<le> covers ns x"
  by (induction ns) auto

lemma set_remove_nth: "set (remove_nth i ns) \<subseteq> set ns"
  by (auto simp: remove_nth_def dest: in_set_takeD in_set_dropD)

subsection \<open>Rounding\<close>

definition rup :: "nat \<Rightarrow> nat \<Rightarrow> nat" where
  "rup a b = ((a - 1) div b + 1) * b"

lemma rup_bounds:
  assumes "0 < a" and "0 < b"
  shows "a \<le> rup a b" and "rup a b < a + b" and "b dvd rup a b"
proof -
  have "(a - 1) div b * b + (a - 1) mod b = a - 1" by (rule div_mult_mod_eq)
  moreover have "(a - 1) mod b < b" using assms by simp
  moreover have "rup a b = (a - 1) div b * b + b" by (simp add: rup_def)
  ultimately show "a \<le> rup a b" "rup a b < a + b" using assms(1) by linarith+
  show "b dvd rup a b" by (simp add: rup_def)
qed

lemma multiple_le_2p:
  assumes "(2::nat) ^ k dvd m" and "m < 2 ^ 64 + 2 ^ k" and "k < 64"
  shows "m \<le> 2 ^ 64"
proof -
  obtain q where q: "m = 2 ^ k * q" using assms(1) by auto
  have e: "(2::nat) ^ 64 = 2 ^ k * 2 ^ (64 - k)" using assms(3) by (simp flip: power_add)
  have "2 ^ k * q < 2 ^ k * (2 ^ (64 - k) + 1)" using assms(2) q e by (simp add: algebra_simps)
  then have "q \<le> 2 ^ (64 - k)" by (simp only: mult_less_cancel1) linarith
  then have "2 ^ k * q \<le> 2 ^ k * 2 ^ (64 - k)" by (rule mult_le_mono2)
  then show ?thesis unfolding q e .
qed

lemma unat_ROUNDUP:
  assumes "k < 64" and "0 < unat a"
  shows "unat (ROUNDUP a (2 ^ k)) = rup (unat a) (2 ^ k) mod 2 ^ 64"
proof -
  have p: "unat ((2::ulong) ^ k) = 2 ^ k" using assms(1) by (rule unat_2p)
  have d: "unat ((a - 1) div 2 ^ k) = (unat a - 1) div 2 ^ k"
    using assms(2) by (simp add: unat_div unat_pred_word p)
  have lt: "unat a < 2 ^ 64" using unat_ulong_lt [of a] by simp
  have "(unat a - 1) div 2 ^ k \<le> unat a - 1" by simp
  then have "(unat a - 1) div 2 ^ k + 1 < 2 ^ 64"
    using lt assms(2) by linarith
  then have "unat ((a - 1) div 2 ^ k + 1) = (unat a - 1) div 2 ^ k + 1"
    using d by (subst unat_add_nowrap) simp_all
  then show ?thesis
    by (simp add: ROUNDUP_def rup_def unat_word_ariths(2) p)
qed

lemma unat_pad:
  assumes "k < 64" and "0 < unat a"
  shows "unat (ROUNDUP a (2 ^ k) - a) = rup (unat a) (2 ^ k) - unat a"
proof -
  let ?r = "rup (unat a) (2 ^ k)"
  have b: "unat a \<le> ?r" "?r < unat a + 2 ^ k" "2 ^ k dvd ?r"
    using assms(2) rup_bounds [of "unat a" "2 ^ k"] by auto
  have le: "?r \<le> 2 ^ 64" using b(2,3) unat_ulong_lt [of a] assms(1)
    by (intro multiple_le_2p [of k]) simp_all
  show ?thesis
  proof (cases "?r = 2 ^ 64")
    case True
    then have "ROUNDUP a (2 ^ k) = 0"
      using unat_ROUNDUP [OF assms] by (simp add: unat_eq_zero)
    then show ?thesis using True assms(2)
      using unat_sub_if_size [of 0 a] by (simp add: word_size)
  next
    case False
    then have "unat (ROUNDUP a (2 ^ k)) = ?r" using le unat_ROUNDUP [OF assms] by simp
    then show ?thesis using b(1) by (simp add: unat_sub_le word_le_nat_alt)
  qed
qed

subsection \<open>Allocation\<close>

lemma alloc_search_Some:
  "alloc_search align sz ns = Some i \<Longrightarrow>
    i < length ns \<and> sz + (ROUNDUP (hn_addr (ns ! i)) align - hn_addr (ns ! i)) \<le> hn_size (ns ! i)"
  by (induction ns arbitrary: i) (auto simp: Let_def split: if_splits)

lemma node_lo:
  assumes "heap_inv hp" and "n \<in> set (free_space_list hp @ used_space_list hp)"
  shows "heap_lo hp \<le> unat (hn_addr n)" and "0 < unat (hn_addr n)" and "node_ok hp n"
proof -
  show ok: "node_ok hp n" using assms by (auto simp: heap_inv_def)
  then have "in_node n (unat (hn_addr n))" by (simp add: in_node_def node_ok_def)
  then have "1 \<le> covers (free_space_list hp @ used_space_list hp) (unat (hn_addr n))"
    by (rule covers_mem [OF assms(2)])
  then have "of_bool (heap_lo hp \<le> unat (hn_addr n) \<and> unat (hn_addr n) < heap_hi hp) \<noteq> (0::nat)"
    using assms(1) unfolding heap_inv_def by (metis not_one_le_zero)
  then show "heap_lo hp \<le> unat (hn_addr n)" by (simp split: if_splits)
  then show "0 < unat (hn_addr n)" using assms(1) by (auto simp: heap_inv_def)
qed

text \<open>What the fit test of the search says in natural numbers: nothing wraps.\<close>

lemma fit_facts:
  assumes inv: "heap_inv hp" and n: "n \<in> set (free_space_list hp)"
    and k: "k < 64" and w: "2 ^ k dvd unat w"
    and fit: "w + (ROUNDUP (hn_addr n) (2 ^ k) - hn_addr n) \<le> hn_size n"
    and wp: "0 < unat w"
  defines "r \<equiv> rup (unat (hn_addr n)) (2 ^ k)"
  shows "unat (ROUNDUP (hn_addr n) (2 ^ k)) = r"
    and "unat (ROUNDUP (hn_addr n) (2 ^ k) - hn_addr n) = r - unat (hn_addr n)"
    and "unat (w + (ROUNDUP (hn_addr n) (2 ^ k) - hn_addr n)) = unat w + (r - unat (hn_addr n))"
    and "unat (hn_addr n) \<le> r" and "r + unat w \<le> unat (hn_addr n) + unat (hn_size n)"
    and "2 ^ k dvd r"
proof -
  let ?a = "unat (hn_addr n)" and ?pad = "ROUNDUP (hn_addr n) (2 ^ k) - hn_addr n"
  have a: "0 < ?a" and ok: "node_ok hp n" using node_lo [OF inv] n by auto
  have b: "?a \<le> r" "r < ?a + 2 ^ k" "2 ^ k dvd r"
    using a rup_bounds [of ?a "2 ^ k"] by (auto simp: r_def)
  then show "?a \<le> r" "2 ^ k dvd r" by auto
  show p: "unat ?pad = r - ?a" using unat_pad [OF k a] by (simp add: r_def)
  have "unat w < 2 ^ 64" using unat_ulong_lt [of w] by simp
  then have "2 ^ k dvd unat w + 2 ^ k" "unat w + 2 ^ k < 2 ^ 64 + 2 ^ k" using w by auto
  then have "unat w + 2 ^ k \<le> 2 ^ 64" using k by (rule multiple_le_2p)
  then have "unat w + unat ?pad < 2 ^ 64" using b p a by linarith
  then show wpad: "unat (w + ?pad) = unat w + (r - ?a)" using p by (simp add: unat_add_nowrap)
  then have "unat w + (r - ?a) \<le> unat (hn_size n)" using fit by (simp add: word_le_nat_alt)
  then show rw: "r + unat w \<le> ?a + unat (hn_size n)" using b(1) by linarith
  have "?a + unat (hn_size n) < 2 ^ 64" using ok inv unfolding node_ok_def heap_inv_def by linarith
  then have "r < 2 ^ 64" using rw by linarith
  then show "unat (ROUNDUP (hn_addr n) (2 ^ k)) = r"
    using unat_ROUNDUP [OF k a] by (simp add: r_def)
qed

lemma heap_invI:
  assumes "heap_inv hp" and "hp_base hp' = hp_base hp" "hp_size hp' = hp_size hp" "hp_hksize hp' = hp_hksize hp"
    and "\<And>n. n \<in> set (free_space_list hp' @ used_space_list hp') \<Longrightarrow> node_ok hp n"
    and "\<And>x. covers (free_space_list hp' @ used_space_list hp') x =
      covers (free_space_list hp @ used_space_list hp) x"
  shows "heap_inv hp'"
proof -
  have "heap_lo hp' = heap_lo hp" "heap_hi hp' = heap_hi hp" "node_ok hp' = node_ok hp"
    using assms(2-4) by (simp_all add: heap_lo_def heap_hi_def node_ok_def fun_eq_iff)
  then show ?thesis using assms(1,5,6) by (auto simp: heap_inv_def)
qed

text \<open>
  Cutting a free node: the part of \<open>np\<close> below the block stays in place (or \<open>np\<close> leaves the
  list), the block becomes a used node and the part above it a free node.
\<close>

lemma heap_inv_cut:
  assumes inv: "heap_inv hp" and i: "i < length (free_space_list hp)"
    and np: "np = free_space_list hp ! i"
    and same: "hp_base hp' = hp_base hp" "hp_size hp' = hp_size hp" "hp_hksize hp' = hp_hksize hp"
    and free': "free_space_list hp' = (free_space_list hp)[i := np'] @ rems"
    and used': "used_space_list hp' = used_space_list hp @ [n']"
    and ok: "\<And>m. m \<in> set (np' # n' # rems) \<Longrightarrow> node_ok hp m"
    and cut: "\<And>x. of_bool (in_node np x) = of_bool (in_node np' x) + of_bool (in_node n' x) + covers rems x"
  shows "heap_inv hp'"
proof (rule heap_invI [OF inv same])
  fix m assume "m \<in> set (free_space_list hp' @ used_space_list hp')"
  then have "m \<in> set (free_space_list hp @ used_space_list hp) \<or> m \<in> set (np' # n' # rems)"
    using set_update_subset_insert [of "free_space_list hp" i np'] by (auto simp: free' used')
  then show "node_ok hp m" using inv ok unfolding heap_inv_def by blast
next
  fix x
  show "covers (free_space_list hp' @ used_space_list hp') x = covers (free_space_list hp @ used_space_list hp) x"
    using covers_update [OF i, of np' x] cut [of x] by (simp add: free' used' np)
qed

text \<open>The same facts per branch of \<open>alloc_with_align\<close>, for the block the search chose.\<close>

lemma alloc_branches:
  assumes inv: "heap_inv hp" and k: "k < 64" and w: "2 ^ k dvd unat w" "0 < unat w"
    and s: "alloc_search (2 ^ k) w (free_space_list hp) = Some i"
    and np: "np = free_space_list hp ! i"
    and pad: "pad = ROUNDUP (hn_addr np) (2 ^ k) - hn_addr np"
    and same: "hp_base hp' = hp_base hp" "hp_size hp' = hp_size hp" "hp_hksize hp' = hp_hksize hp"
    and n': "hn_addr n' = ROUNDUP (hn_addr np) (2 ^ k)" "hn_size n' = w"
    and used': "used_space_list hp' = used_space_list hp @ [n']"
  shows "2 ^ k dvd unat (hn_addr n')" and "0 < unat (hn_addr n')"
    and "pad \<noteq> 0 \<Longrightarrow> w + pad < hn_size np \<Longrightarrow> hn_addr rem = hn_addr np + (w + pad) \<Longrightarrow>
      hn_size rem = hn_size np - (w + pad) \<Longrightarrow>
      free_space_list hp' = (free_space_list hp)[i := np\<lparr>hn_size := pad\<rparr>] @ [rem] \<Longrightarrow> heap_inv hp'"
    and "pad \<noteq> 0 \<Longrightarrow> w + pad = hn_size np \<Longrightarrow>
      free_space_list hp' = (free_space_list hp)[i := np\<lparr>hn_size := pad\<rparr>] \<Longrightarrow> heap_inv hp'"
    and "pad = 0 \<Longrightarrow> w < hn_size np \<Longrightarrow>
      free_space_list hp' = (free_space_list hp)[i :=
        np\<lparr>hn_addr := hn_addr np + w, hn_size := hn_size np - w\<rparr>] \<Longrightarrow> heap_inv hp'"
    and "pad = 0 \<Longrightarrow> w = hn_size np \<Longrightarrow>
      free_space_list hp' = remove_nth i (free_space_list hp) \<Longrightarrow> heap_inv hp'"
proof -
  let ?a = "unat (hn_addr np)" and ?s = "unat (hn_size np)" and ?r = "rup (unat (hn_addr np)) (2 ^ k)"
  have i: "i < length (free_space_list hp)" and fit: "w + pad \<le> hn_size np"
    using alloc_search_Some [OF s] by (simp_all add: np pad)
  have mem: "np \<in> set (free_space_list hp)" using i by (simp add: np)
  note f = fit_facts [OF inv mem k w(1) fit [unfolded pad] w(2), folded pad]
  have ok: "node_ok hp np" and a0: "0 < ?a" using node_lo [OF inv] mem by auto
  have hi: "?a + ?s \<le> heap_hi hp" "?a + ?s < 2 ^ 64"
    using ok inv by (auto simp: node_ok_def heap_inv_def)
  show "2 ^ k dvd unat (hn_addr n')" "0 < unat (hn_addr n')" using f(1,4,6) a0 by (simp_all add: n'(1))
  have okn: "node_ok hp n'" using f(1,5) hi w(2) by (simp add: node_ok_def n')
  note cutting = heap_inv_cut [OF inv i np same _ used']
  {
    assume p: "pad \<noteq> 0" and lt: "w + pad < hn_size np" and rem: "hn_addr rem = hn_addr np + (w + pad)"
      "hn_size rem = hn_size np - (w + pad)"
      and fr: "free_space_list hp' = (free_space_list hp)[i := np\<lparr>hn_size := pad\<rparr>] @ [rem]"
    have p0: "0 < ?r - ?a" using p f(2) by (simp add: unat_gt_0 flip: f(2))
    have l: "unat w + (?r - ?a) < ?s" using lt f(3) by (simp add: word_less_nat_alt)
    have "unat (hn_size rem) = ?s - (unat w + (?r - ?a))"
      using lt f(3) by (simp add: rem(2) unat_sub_le)
    moreover have "unat (hn_addr rem) = ?r + unat w"
      using f(3,4,5) hi(2) by (simp add: rem(1) unat_add_nowrap)
    ultimately show "heap_inv hp'"
      using f hi p0 okn l w(2)
      by (intro cutting [OF fr]) (auto simp: node_ok_def in_node_def n')
  }
  {
    assume p: "pad \<noteq> 0" and eq: "w + pad = hn_size np"
      and fr: "free_space_list hp' = (free_space_list hp)[i := np\<lparr>hn_size := pad\<rparr>]"
    have p0: "0 < ?r - ?a" using p f(2) by (simp add: unat_gt_0 flip: f(2))
    have l: "unat w + (?r - ?a) = ?s" using eq f(3) by simp
    show "heap_inv hp'"
      using f hi p0 okn l w(2) fr
      by (intro cutting [where rems = "[]"]) (auto simp: node_ok_def in_node_def n')
  }
  {
    assume p: "pad = 0" and lt: "w < hn_size np"
      and fr: "free_space_list hp' = (free_space_list hp)[i :=
        np\<lparr>hn_addr := hn_addr np + w, hn_size := hn_size np - w\<rparr>]"
    have r: "?r = ?a" using p f(2,4) by simp
    have l: "unat w < ?s" using lt by (simp add: word_less_nat_alt)
    have "unat (hn_addr np + w) = ?a + unat w" "unat (hn_size np - w) = ?s - unat w"
      using hi(2) l lt by (simp_all add: unat_add_nowrap unat_sub_le)
    then show "heap_inv hp'"
      using f r hi okn l w(2) fr
      by (intro cutting [where rems = "[]"]) (auto simp: node_ok_def in_node_def n')
  }
  {
    assume p: "pad = 0" and eq: "w = hn_size np"
      and fr: "free_space_list hp' = remove_nth i (free_space_list hp)"
    have r: "?r = ?a" using p f(2,4) by simp
    show "heap_inv hp'"
    proof (rule heap_invI [OF inv same])
      show "node_ok hp m" if "m \<in> set (free_space_list hp' @ used_space_list hp')" for m
        using that okn inv set_remove_nth [of i "free_space_list hp"]
        by (auto simp: fr used' heap_inv_def)
      have "in_node n' x = in_node np x" for x using f(1) r eq by (simp add: in_node_def n')
      then show "covers (free_space_list hp' @ used_space_list hp') x =
          covers (free_space_list hp @ used_space_list hp) x" for x
        using covers_remove [OF i, of x] by (simp add: fr used' np)
    qed
  }
qed

text \<open>
  An allocation either fails and changes nothing, or appends exactly one block to the used
  list: aligned, of the rounded size, and never at address 0.
\<close>

lemma alloc_with_align_cases:
  assumes inv: "heap_inv hp" and k: "k < 64" and sz: "0 < sz" "unat sz + (2 ^ k - 1) < 2 ^ 64"
    and res: "alloc_with_align hp (2 ^ k) sz = (ret, hp')"
  shows "(ret = 0 \<and> hp' = hp) \<or>
    (ret \<noteq> 0 \<and> heap_inv hp' \<and> 2 ^ k dvd unat ret \<and>
     (\<exists>n. used_space_list hp' = used_space_list hp @ [n] \<and> hn_addr n = ret \<and>
       unat (hn_size n) = round_up (2 ^ k) (unat sz)))"
proof -
  define w where "w = (sz + 2 ^ k - 1) AND NOT (2 ^ k - 1)"
  have wr: "unat w = round_up (2 ^ k) (unat sz)" unfolding w_def using k sz(2) by (rule unat_round_up)
  have szn: "sz \<noteq> 0" using sz(1) by auto
  then have "0 < unat sz" by (simp add: unat_gt_0)
  then have w: "2 ^ k dvd unat w" "0 < unat w"
    using dvd_round_up [of "2 ^ k" "unat sz"] round_up_ge [of "2 ^ k" "unat sz"]
    unfolding wr by (blast, simp)
  show ?thesis
  proof (cases "alloc_search (2 ^ k) w (free_space_list hp)")
    case None
    then show ?thesis using res szn by (simp add: alloc_with_align_def Let_def w_def)
  next
    case (Some i)
    define np where "np = free_space_list hp ! i"
    define low where "low = ROUNDUP (hn_addr np) (2 ^ k)"
    define pad where "pad = low - hn_addr np"
    have fit: "w + pad \<le> hn_size np"
      using alloc_search_Some [OF Some] by (simp add: np_def low_def pad_def)
    note r = res [unfolded alloc_with_align_def Let_def w_def [symmetric] Some option.case
        np_def [symmetric] low_def [symmetric] pad_def [symmetric]]
    note b = alloc_branches [OF inv k w Some np_def pad_def [unfolded low_def], folded low_def, of hp']
    have pos: "0 < unat (hn_addr m) \<Longrightarrow> hn_addr m \<noteq> 0" for m :: heap_node by auto
    consider (fail) "ret = 0" "hp' = hp"
      | (padrem) n fnl where "pad \<noteq> 0" "w + pad < hn_size np" "free_node_list hp = n # fnl"
        "ret = low" "hp' = hp\<lparr>free_node_list := tl fnl,
          free_space_list := (free_space_list hp)[i := np\<lparr>hn_size := pad\<rparr>] @
            [(hd fnl)\<lparr>hn_addr := hn_addr np + (w + pad), hn_size := hn_size np - (w + pad)\<rparr>],
          used_space_list := used_space_list hp @ [n\<lparr>hn_addr := low, hn_size := w\<rparr>]\<rparr>"
      | (padexact) n fnl where "pad \<noteq> 0" "w + pad = hn_size np" "free_node_list hp = n # fnl"
        "ret = low" "hp' = hp\<lparr>free_node_list := fnl,
          free_space_list := (free_space_list hp)[i := np\<lparr>hn_size := pad\<rparr>],
          used_space_list := used_space_list hp @ [n\<lparr>hn_addr := low, hn_size := w\<rparr>]\<rparr>"
      | (split) n where "pad = 0" "w < hn_size np" "ret = hn_addr np" "hp' = hp\<lparr>free_node_list := tl (free_node_list hp),
          free_space_list := (free_space_list hp)[i :=
            np\<lparr>hn_addr := hn_addr np + w, hn_size := hn_size np - w\<rparr>],
          used_space_list := used_space_list hp @ [n\<lparr>hn_addr := hn_addr np, hn_size := w\<rparr>]\<rparr>"
      | (exact) "pad = 0" "w = hn_size np" "ret = hn_addr np" "hp' = hp\<lparr>
          free_space_list := remove_nth i (free_space_list hp),
          used_space_list := used_space_list hp @ [np]\<rparr>"
      using r szn by (auto split: if_splits list.splits)
    then show ?thesis
    proof cases
      case padrem
      note b' = b(1,2) [of "n\<lparr>hn_addr := low, hn_size := w\<rparr>"]
        b(3) [of "n\<lparr>hn_addr := low, hn_size := w\<rparr>"
          "(hd fnl)\<lparr>hn_addr := hn_addr np + (w + pad), hn_size := hn_size np - (w + pad)\<rparr>"]
      show ?thesis using padrem b' wr by auto
    next
      case padexact
      note b' = b(1,2,4) [of "n\<lparr>hn_addr := low, hn_size := w\<rparr>"]
      show ?thesis using padexact b' wr by auto
    next
      case split
      then have "low = hn_addr np" by (simp add: pad_def)
      note b' = b(1,2,5) [of "n\<lparr>hn_addr := hn_addr np, hn_size := w\<rparr>"]
      show ?thesis using split b' wr \<open>low = hn_addr np\<close> by auto
    next
      case exact
      then have "low = hn_addr np" by (simp add: pad_def)
      show ?thesis using exact b(1,2,6) [of np] wr \<open>low = hn_addr np\<close> by auto
    qed simp
  qed
qed

subsection \<open>Freeing\<close>

lemma used_search_Some:
  "used_search p ns = Some i \<Longrightarrow> i < length ns \<and> hn_addr (ns ! i) \<le> p \<and> p < hn_addr (ns ! i) + hn_size (ns ! i)"
  by (induction ns arbitrary: i) (auto split: if_splits)

lemma unat_node_end:
  assumes "heap_hi hp < 2 ^ 64" and "node_ok hp n"
  shows "unat (hn_addr n + hn_size n) = unat (hn_addr n) + unat (hn_size n)"
  using assms by (intro unat_add_nowrap) (simp add: node_ok_def)

lemma free_place_ok:
  assumes "heap_hi hp < 2 ^ 64" and "node_ok hp np" and "\<forall>n \<in> set ns. node_ok hp n"
    and "free_place np ns = (ns', r)"
  shows "(\<forall>n \<in> set ns'. node_ok hp n) \<and> covers ns' x = covers ns x + of_bool (in_node np x)"
  using assms(3,4)
proof (induction ns arbitrary: ns')
  case Nil
  then show ?case using assms(2) by auto
next
  case (Cons n ns)
  have n: "node_ok hp n" and ns: "\<forall>n \<in> set ns. node_ok hp n" using Cons.prems(1) by auto
  have e: "unat (hn_addr n + hn_size n) = unat (hn_addr n) + unat (hn_size n)"
    "unat (hn_addr np + hn_size np) = unat (hn_addr np) + unat (hn_size np)"
    using unat_node_end [OF assms(1)] n assms(2) by auto
  have sum: "unat (hn_size n + hn_size np) = unat (hn_size n) + unat (hn_size np)"
    if "unat (hn_size n) + unat (hn_size np) < 2 ^ 64" using that by (rule unat_add_nowrap)
  consider (low) "hn_addr np + hn_size np = hn_addr n"
    | (high) "hn_addr np + hn_size np \<noteq> hn_addr n" "hn_addr np = hn_addr n + hn_size n"
    | (mid) "hn_addr np + hn_size np \<noteq> hn_addr n" "hn_addr np \<noteq> hn_addr n + hn_size n"
    by blast
  then show ?case
  proof cases
    case low
    have m: "unat (hn_addr np) + unat (hn_size np) = unat (hn_addr n)" using low e(2) by simp
    then have "unat (hn_size n + hn_size np) = unat (hn_size n) + unat (hn_size np)"
      using n assms(1) by (intro sum) (simp add: node_ok_def)
    then show ?thesis using low Cons.prems m n ns by (auto simp: node_ok_def in_node_def)
  next
    case high
    have m: "unat (hn_addr n) + unat (hn_size n) = unat (hn_addr np)" using high e(1) by simp
    then have "unat (hn_size n + hn_size np) = unat (hn_size n) + unat (hn_size np)"
      using assms(1,2) by (intro sum) (simp add: node_ok_def)
    then show ?thesis using high Cons.prems m assms(2) ns by (auto simp: node_ok_def in_node_def)
  next
    case mid
    then show ?thesis using Cons.IH [OF ns] Cons.prems n ns assms(2)
      by (auto split: if_splits prod.splits)
  qed
qed

lemma sbi_free_from_eq:
  assumes "p \<noteq> 0" and "used_search p (used_space_list hp) = Some i"
    and "free_place (used_space_list hp ! i) (free_space_list hp) = (fsl, r)"
  shows "sbi_free_from hp p = hp\<lparr>used_space_list := remove_nth i (used_space_list hp),
    free_space_list := fsl, free_node_list := free_node_list hp @ (case r of Some m \<Rightarrow> [m] | None \<Rightarrow> [])\<rparr>"
  using assms by (simp add: sbi_free_from_def Let_def)

lemma sbi_free_from_unknown: "p = 0 \<or> used_search p (used_space_list hp) = None \<Longrightarrow> sbi_free_from hp p = hp"
  by (auto simp: sbi_free_from_def)

lemma heap_inv_free:
  assumes inv: "heap_inv hp"
  shows "heap_inv (sbi_free_from hp p)"
proof (cases "p = 0 \<or> used_search p (used_space_list hp) = None")
  case False
  then obtain i where s: "used_search p (used_space_list hp) = Some i" and p: "p \<noteq> 0" by auto
  obtain fsl r where f: "free_place (used_space_list hp ! i) (free_space_list hp) = (fsl, r)"
    by (metis surj_pair)
  note h = sbi_free_from_eq [OF p s f]
  have i: "i < length (used_space_list hp)" using used_search_Some [OF s] by simp
  have ok: "\<forall>n \<in> set (free_space_list hp @ used_space_list hp). node_ok hp n" and hi: "heap_hi hp < 2 ^ 64"
    using inv by (auto simp: heap_inv_def)
  have np: "node_ok hp (used_space_list hp ! i)" and fr: "\<forall>n \<in> set (free_space_list hp). node_ok hp n"
    using ok i by auto
  show ?thesis
  proof (rule heap_invI [OF inv])
    fix n assume "n \<in> set (free_space_list (sbi_free_from hp p) @ used_space_list (sbi_free_from hp p))"
    then have "n \<in> set fsl \<or> n \<in> set (used_space_list hp)"
      using set_remove_nth [of i "used_space_list hp"] by (auto simp: h)
    then show "node_ok hp n" using free_place_ok [OF hi np fr f] ok by auto
  next
    fix x
    show "covers (free_space_list (sbi_free_from hp p) @ used_space_list (sbi_free_from hp p)) x =
        covers (free_space_list hp @ used_space_list hp) x"
      using free_place_ok [OF hi np fr f, of x] covers_remove [OF i, of x] by (simp add: h)
  qed (simp_all add: h)
qed (use inv sbi_free_from_unknown in simp)

subsection \<open>The heap as an allocator\<close>

definition block_of :: "heap_node \<Rightarrow> nat \<times> nat" where
  "block_of n = (unat (hn_addr n), unat (hn_size n))"

definition blocks :: "sbi_heap_control \<Rightarrow> (nat \<times> nat) set" where
  "blocks hp = block_of ` set (used_space_list hp)"

definition bytes_of :: "nat \<times> nat \<Rightarrow> nat set" where
  "bytes_of b = {fst b..<fst b + snd b}"

definition used_bytes :: "sbi_heap_control \<Rightarrow> nat set" where
  "used_bytes hp = (\<Union>b \<in> blocks hp. bytes_of b)"

definition heap_ok_size :: "ulong \<Rightarrow> bool" where
  "heap_ok_size sz \<longleftrightarrow> 0 < sz \<and> unat sz \<le> 2 ^ 63"

lemma bytes_of_block [simp]: "x \<in> bytes_of (block_of n) \<longleftrightarrow> in_node n x"
  by (simp add: bytes_of_def block_of_def in_node_def)

lemma two_nodes:
  assumes "i < j" and "j < length ns" and "in_node (ns ! i) x" and "in_node (ns ! j) x"
  shows "2 \<le> covers ns x"
proof -
  have i: "i < length ns" using assms by simp
  have "ns ! j \<in> set (drop (Suc i) ns)"
    using assms nth_mem [of "j - Suc i" "drop (Suc i) ns"] by simp
  then have "1 \<le> covers (drop (Suc i) ns) x" using assms(4) by (rule covers_mem)
  moreover have "covers ns x = covers (take i ns @ ns ! i # drop (Suc i) ns) x"
    using id_take_nth_drop [OF i] by simp
  ultimately show ?thesis using assms(3) by simp
qed

lemma used_covers_le: "heap_inv hp \<Longrightarrow> covers (used_space_list hp) x \<le> 1"
proof -
  assume "heap_inv hp"
  then have "covers (free_space_list hp @ used_space_list hp) x \<le> 1" by (simp add: heap_inv_def)
  then show ?thesis by simp
qed

lemma used_nodes_differ:
  assumes inv: "heap_inv hp" and i: "i < length (used_space_list hp)" and j: "j < length (used_space_list hp)"
    and ij: "i \<noteq> j"
  shows "\<not> (in_node (used_space_list hp ! i) x \<and> in_node (used_space_list hp ! j) x)"
  using two_nodes [of i j "used_space_list hp" x] two_nodes [of j i "used_space_list hp" x]
    used_covers_le [OF inv, of x] i j ij by (auto simp: neq_iff)

lemma blocks_disjoint:
  assumes "heap_inv hp" and "b \<in> blocks hp" "c \<in> blocks hp" "b \<noteq> c"
  shows "bytes_of b \<inter> bytes_of c = {}"
proof -
  obtain i j where "i < length (used_space_list hp)" "j < length (used_space_list hp)"
    and b: "b = block_of (used_space_list hp ! i)" and c: "c = block_of (used_space_list hp ! j)"
    using assms(2,3) unfolding blocks_def by (metis image_iff in_set_conv_nth)
  moreover have "i \<noteq> j" using b c assms(4) by auto
  ultimately show ?thesis
    using used_nodes_differ [OF assms(1)] bytes_of_block unfolding b c by blast
qed

lemma malloc_cases:
  assumes "heap_inv hp" and "heap_ok_size sz" and "sbi_malloc_from hp sz = (ret, hp')"
  shows "(ret = 0 \<and> hp' = hp) \<or>
    (ret \<noteq> 0 \<and> heap_inv hp' \<and> 64 dvd unat ret \<and>
     (\<exists>n. used_space_list hp' = used_space_list hp @ [n] \<and> hn_addr n = ret \<and>
       unat (hn_size n) = round_up 64 (unat sz)))"
  using alloc_with_align_cases [OF assms(1), of 6 sz ret hp'] assms(2,3)
  by (simp add: sbi_malloc_from_def heap_ok_size_def)

lemma malloc_fresh:
  assumes "heap_inv hp" and "heap_ok_size sz" and "sbi_malloc_from hp sz = (ret, hp')" and "ret \<noteq> 0"
  shows "blocks hp' = insert (unat ret, round_up 64 (unat sz)) (blocks hp)"
    and "bytes_of (unat ret, round_up 64 (unat sz)) \<inter> used_bytes hp = {}"
proof -
  obtain n where n: "used_space_list hp' = used_space_list hp @ [n]" "hn_addr n = ret"
      "unat (hn_size n) = round_up 64 (unat sz)" and inv': "heap_inv hp'"
    using malloc_cases [OF assms(1-3)] assms(4) by auto
  have b: "block_of n = (unat ret, round_up 64 (unat sz))" using n by (simp add: block_of_def)
  then show "blocks hp' = insert (unat ret, round_up 64 (unat sz)) (blocks hp)"
    using n(1) by (simp add: blocks_def)
  have "\<not> (in_node n x \<and> in_node m x)" if "m \<in> set (used_space_list hp)" for m x
  proof -
    have "covers (used_space_list hp @ [n]) x \<le> 1" using used_covers_le [OF inv', of x] n(1) by simp
    then show ?thesis using covers_mem [OF that, of x] by auto
  qed
  then show "bytes_of (unat ret, round_up 64 (unat sz)) \<inter> used_bytes hp = {}"
    unfolding b [symmetric] used_bytes_def blocks_def by auto
qed

text \<open>Freeing a block by its address removes exactly that block.\<close>

lemma used_search_at:
  assumes "n \<in> set ns" and "hn_addr n \<le> p" "p < hn_addr n + hn_size n"
  shows "\<exists>i. used_search p ns = Some i"
  using assms by (induction ns) auto

lemma set_remove_nth_distinct:
  "distinct (map f ns) \<Longrightarrow> i < length ns \<Longrightarrow> f ` set (remove_nth i ns) = f ` set ns - {f (ns ! i)}"
proof -
  assume d: "distinct (map f ns)" and i: "i < length ns"
  have e: "ns = take i ns @ ns ! i # drop (Suc i) ns" using i by (rule id_take_nth_drop)
  then have "distinct (map f (take i ns @ ns ! i # drop (Suc i) ns))" using d by simp
  then have "f (ns ! i) \<notin> f ` (set (take i ns) \<union> set (drop (Suc i) ns))" by auto
  moreover have "f ` set ns = f ` set (take i ns @ ns ! i # drop (Suc i) ns)" using e by simp
  ultimately show ?thesis by (simp add: remove_nth_def image_Un)
qed

lemma distinct_blocks: "heap_inv hp \<Longrightarrow> distinct (map block_of (used_space_list hp))"
proof (unfold distinct_conv_nth, intro allI impI)
  fix i j
  assume inv: "heap_inv hp" and i: "i < length (map block_of (used_space_list hp))"
    and j: "j < length (map block_of (used_space_list hp))" and "i \<noteq> j"
  let ?u = "used_space_list hp"
  have ok: "node_ok hp (?u ! i)" using inv i by (auto simp: heap_inv_def)
  have "in_node (?u ! i) (unat (hn_addr (?u ! i)))" using ok by (simp add: in_node_def node_ok_def)
  then have "\<not> in_node (?u ! j) (unat (hn_addr (?u ! i)))"
    using used_nodes_differ [OF inv _ _ \<open>i \<noteq> j\<close>] i j by auto
  then have "block_of (?u ! i) \<noteq> block_of (?u ! j)"
    using ok by (auto simp: block_of_def in_node_def node_ok_def)
  then show "map block_of ?u ! i \<noteq> map block_of ?u ! j" using i j by simp
qed

lemma free_blocks:
  assumes inv: "heap_inv hp" and b: "b \<in> blocks hp" and p: "unat p \<in> bytes_of b"
  shows "blocks (sbi_free_from hp p) = blocks hp - {b}"
proof -
  let ?u = "used_space_list hp"
  have hi: "heap_hi hp < 2 ^ 64" and ok: "\<forall>n \<in> set ?u. node_ok hp n" using inv by (auto simp: heap_inv_def)
  have inn: "in_node n x \<longleftrightarrow> hn_addr n \<le> p \<and> p < hn_addr n + hn_size n" if "n \<in> set ?u" "x = unat p" for n x
    using unat_node_end [OF hi] ok that by (auto simp: in_node_def word_le_nat_alt word_less_nat_alt)
  obtain j where j: "j < length ?u" and bj: "b = block_of (?u ! j)"
    using b unfolding blocks_def by (metis image_iff in_set_conv_nth)
  have pj: "in_node (?u ! j) (unat p)" using p bj by simp
  then have "hn_addr (?u ! j) \<le> p" "p < hn_addr (?u ! j) + hn_size (?u ! j)"
    using j inn by auto
  then obtain i where s: "used_search p ?u = Some i" using used_search_at nth_mem [OF j] by blast
  then have i: "i < length ?u" and pi: "in_node (?u ! i) (unat p)"
    using used_search_Some [OF s] inn by auto
  have ij: "i = j" using used_nodes_differ [OF inv i j] pi pj by blast
  have "0 < unat p"
    using pj node_lo(2) [OF inv, of "?u ! j"] j by (auto simp: in_node_def)
  then have p0: "p \<noteq> 0" by auto
  obtain fsl r where f: "free_place (?u ! i) (free_space_list hp) = (fsl, r)" by (metis surj_pair)
  show ?thesis
    using sbi_free_from_eq [OF p0 s f] set_remove_nth_distinct [OF distinct_blocks [OF inv] i] bj ij
    by (simp add: blocks_def)
qed

datatype alloc_op = Malloc ulong | Free nat

text \<open>
  An allocator that also frees. The client holds a list of (pointer, requested size) pairs;
  \<open>Free i\<close> gives back the \<open>i\<close>-th of them. Whatever the order of requests, the client never
  holds two blocks that overlap.
\<close>

locale block_allocator = offset_allocator alloc inv used ok_size
  for alloc :: "ulong \<Rightarrow> 's \<Rightarrow> ulong \<times> 's"
    and inv :: "'s \<Rightarrow> bool"
    and used :: "'s \<Rightarrow> nat set"
    and ok_size :: "ulong \<Rightarrow> bool" +
  fixes free :: "ulong \<Rightarrow> 's \<Rightarrow> 's"
    and live :: "'s \<Rightarrow> (nat \<times> nat) set"
  assumes ok_size_pos: "ok_size sz \<Longrightarrow> 0 < unat sz"
    and live_used: "b \<in> live s \<Longrightarrow> bytes_of b \<subseteq> used s"
    and live_disjoint: "inv s \<Longrightarrow> b \<in> live s \<Longrightarrow> c \<in> live s \<Longrightarrow> b \<noteq> c \<Longrightarrow> bytes_of b \<inter> bytes_of c = {}"
    and alloc_live: "inv s \<Longrightarrow> ok_size sz \<Longrightarrow> alloc sz s = (p, s') \<Longrightarrow> p \<noteq> 0 \<Longrightarrow>
      \<exists>n \<ge> unat sz. live s' = insert (unat p, n) (live s)"
    and alloc_null: "inv s \<Longrightarrow> ok_size sz \<Longrightarrow> alloc sz s = (0, s') \<Longrightarrow> live s' = live s"
    and free_keeps: "inv s \<Longrightarrow> inv (free p s)"
    and free_live: "inv s \<Longrightarrow> (unat p, n) \<in> live s \<Longrightarrow> 0 < n \<Longrightarrow> live (free p s) = live s - {(unat p, n)}"
begin

fun alloc_run :: "alloc_op list \<Rightarrow> 's \<times> (ulong \<times> ulong) list \<Rightarrow> 's \<times> (ulong \<times> ulong) list" where
  "alloc_run [] c = c"
| "alloc_run (Malloc sz # ops) (s, held) =
    (case alloc sz s of (p, s') \<Rightarrow> alloc_run ops (s', if p = 0 then held else (p, sz) # held))"
| "alloc_run (Free i # ops) (s, held) =
    (if i < length held then alloc_run ops (free (fst (held ! i)) s, remove_nth i held)
     else alloc_run ops (s, held))"

definition held_ok :: "'s \<Rightarrow> (ulong \<times> ulong) list \<Rightarrow> bool" where
  "held_ok s held \<longleftrightarrow> inv s \<and> distinct (map fst held) \<and>
    (\<forall>h \<in> set held. 0 < unat (snd h) \<and> (\<exists>n \<ge> unat (snd h). (unat (fst h), n) \<in> live s))"

lemma held_ok_Malloc:
  assumes h: "held_ok s held" and ok: "ok_size sz" and a: "alloc sz s = (p, s')"
  shows "held_ok s' (if p = 0 then held else (p, sz) # held)"
proof (cases "p = 0")
  case True
  then show ?thesis using h alloc_null [of s sz s'] alloc_keeps [of s sz p s'] ok a
    by (auto simp: held_ok_def)
next
  case False
  have i: "inv s" "inv s'" using h alloc_keeps [of s sz p s'] ok a by (auto simp: held_ok_def)
  obtain n where n: "unat sz \<le> n" "live s' = insert (unat p, n) (live s)"
    using alloc_live [OF i(1) ok a False] by blast
  have "unat p \<in> {unat p..<unat p + unat sz}" using ok_size_pos [OF ok] by simp
  then have "unat p \<notin> used s"
    using alloc_fresh [OF i(1) ok a False] by blast
  moreover have "unat (fst b) \<in> used s" if "b \<in> set held" for b
  proof -
    obtain m where "unat (snd b) \<le> m" "0 < unat (snd b)" "(unat (fst b), m) \<in> live s"
      using h \<open>b \<in> set held\<close> unfolding held_ok_def by blast
    then show ?thesis using live_used [of "(unat (fst b), m)" s] by (auto simp: bytes_of_def)
  qed
  ultimately have "p \<notin> fst ` set held" by auto
  then show ?thesis using h False i n ok_size_pos [OF ok] by (auto simp: held_ok_def)
qed

lemma held_ok_Free:
  assumes h: "held_ok s held" and i: "i < length held"
  shows "held_ok (free (fst (held ! i)) s) (remove_nth i held)"
proof -
  let ?p = "fst (held ! i)"
  have d: "distinct (map fst held)" and inv: "inv s" using h by (auto simp: held_ok_def)
  have e: "held = take i held @ held ! i # drop (Suc i) held" using i by (rule id_take_nth_drop)
  obtain n where n: "(unat ?p, n) \<in> live s" "0 < n"
  proof -
    have "0 < unat (snd (held ! i)) \<and> (\<exists>n \<ge> unat (snd (held ! i)). (unat ?p, n) \<in> live s)"
      using h nth_mem [OF i] by (simp add: held_ok_def)
    then show thesis using that by (meson order.strict_trans2)
  qed
  have live': "live (free ?p s) = live s - {(unat ?p, n)}" using free_live [OF inv n] .
  have "fst ` set (remove_nth i held) = fst ` set held - {?p}"
    using set_remove_nth_distinct [OF d i] .
  then have diff: "fst b \<noteq> ?p" if "b \<in> set (remove_nth i held)" for b using that by blast
  have "distinct (map fst (take i held @ held ! i # drop (Suc i) held))"
    using d arg_cong [OF e, of "map fst"] by simp
  then have "distinct (map fst (remove_nth i held))" by (auto simp: remove_nth_def)
  moreover have "0 < unat (snd b) \<and> (\<exists>m \<ge> unat (snd b). (unat (fst b), m) \<in> live (free ?p s))"
    if b: "b \<in> set (remove_nth i held)" for b
  proof -
    have "b \<in> set held" using subsetD [OF set_remove_nth b] .
    then obtain m where "0 < unat (snd b)" "unat (snd b) \<le> m" "(unat (fst b), m) \<in> live s"
      using h unfolding held_ok_def by blast
    then show ?thesis using diff [OF b] by (auto simp: live' word_unat_eq_iff)
  qed
  ultimately show ?thesis using free_keeps [OF inv] by (simp add: held_ok_def)
qed

lemma held_ok_run:
  "held_ok s held \<Longrightarrow> \<forall>sz. Malloc sz \<in> set ops \<longrightarrow> ok_size sz \<Longrightarrow>
    held_ok (fst (alloc_run ops (s, held))) (snd (alloc_run ops (s, held)))"
proof (induction ops arbitrary: s held)
  case (Cons x ops)
  show ?case
  proof (cases x)
    case (Malloc sz)
    obtain p s' where a: "alloc sz s = (p, s')" by (metis surj_pair)
    show ?thesis using held_ok_Malloc [OF Cons.prems(1) _ a] Cons Malloc a by simp
  next
    case (Free i)
    then show ?thesis using held_ok_Free [OF Cons.prems(1)] Cons by simp
  qed
qed simp

lemma held_ok_disjoint:
  assumes "held_ok s held" and "i < j" "j < length held"
  shows "span (held ! i) \<inter> span (held ! j) = {}"
proof -
  have ij: "fst (held ! i) \<noteq> fst (held ! j)"
    using assms nth_eq_iff_index_eq [of "map fst held" i j] by (auto simp: held_ok_def)
  obtain n m where "unat (snd (held ! i)) \<le> n" "(unat (fst (held ! i)), n) \<in> live s"
      "unat (snd (held ! j)) \<le> m" "(unat (fst (held ! j)), m) \<in> live s"
    using assms unfolding held_ok_def by (meson nth_mem order.strict_trans)
  moreover from this have "bytes_of (unat (fst (held ! i)), n) \<inter> bytes_of (unat (fst (held ! j)), m) = {}"
    using assms(1) ij by (intro live_disjoint [of s]) (auto simp: held_ok_def word_unat_eq_iff)
  ultimately show ?thesis by (auto simp: span_def bytes_of_def disjoint_iff)
qed

lemma alloc_run_disjoint:
  assumes "inv s" and "\<forall>sz. Malloc sz \<in> set ops \<longrightarrow> ok_size sz"
    and "i < j" "j < length (snd (alloc_run ops (s, [])))"
  shows "span (snd (alloc_run ops (s, [])) ! i) \<inter> span (snd (alloc_run ops (s, [])) ! j) = {}"
  using held_ok_disjoint [OF held_ok_run [of s "[]" ops]] assms by (simp add: held_ok_def)

end

interpretation heap: block_allocator "\<lambda>sz hp. sbi_malloc_from hp sz" heap_inv used_bytes heap_ok_size
  "\<lambda>p hp. sbi_free_from hp p" blocks
proof unfold_locales
  fix s sz p s'
  assume a: "heap_inv s" "heap_ok_size sz" "sbi_malloc_from s sz = (p, s')"
  show "heap_inv s'" using malloc_cases [OF a] a(1) by auto
  show "used_bytes s \<subseteq> used_bytes s'"
    using malloc_cases [OF a] by (auto simp: used_bytes_def blocks_def)
  assume p: "p \<noteq> 0"
  have g: "unat sz \<le> round_up 64 (unat sz)" by (simp add: round_up_ge)
  show "{unat p..<unat p + unat sz} \<inter> used_bytes s = {} \<and> {unat p..<unat p + unat sz} \<subseteq> used_bytes s'"
  proof
    have "{unat p..<unat p + unat sz} \<subseteq> bytes_of (unat p, round_up 64 (unat sz))"
      using g by (auto simp: bytes_of_def)
    then show "{unat p..<unat p + unat sz} \<inter> used_bytes s = {}"
        "{unat p..<unat p + unat sz} \<subseteq> used_bytes s'"
      using malloc_fresh [OF a p] by (auto simp: used_bytes_def)
  qed
  show "\<exists>n \<ge> unat sz. blocks s' = insert (unat p, n) (blocks s)"
    using malloc_fresh(1) [OF a p] g by blast
next
  fix sz assume "heap_ok_size sz" then show "0 < unat sz"
    by (simp add: heap_ok_size_def unat_gt_0 word_neq_0_conv)
next
  fix b s assume "b \<in> blocks s" then show "bytes_of b \<subseteq> used_bytes s" by (auto simp: used_bytes_def)
next
  fix s b c assume "heap_inv s" "b \<in> blocks s" "c \<in> blocks s" "b \<noteq> c"
  then show "bytes_of b \<inter> bytes_of c = {}" by (rule blocks_disjoint)
next
  fix s sz s' assume "heap_inv s" "heap_ok_size sz" "sbi_malloc_from s sz = (0, s')"
  then show "blocks s' = blocks s" using malloc_cases by blast
next
  fix s p assume "heap_inv s" then show "heap_inv (sbi_free_from s p)" by (rule heap_inv_free)
next
  fix s n and p :: ulong assume "heap_inv s" "(unat p, n) \<in> blocks s" "0 < n"
  then show "blocks (sbi_free_from s p) = blocks s - {(unat p, n)}"
    using free_blocks [of s "(unat p, n)" p] by (simp add: bytes_of_def)
qed

subsection \<open>Initialisation, space accounting and the node pool\<close>

lemma unat_hksize:
  "unat ((sz div HEAP_HOUSEKEEPING_FACTOR) AND NOT (HEAP_BASE_ALIGN - 1)) = unat sz div 16 div 1024 * 1024"
  using unat_and_not_mask [of 10 "sz div 16"] by (simp add: unat_div)

lemma heap_init_new_eq:
  "sbi_heap_init_new base sz = None \<longleftrightarrow> unat sz < 16384"
proof -
  define hk where "hk = (sz div HEAP_HOUSEKEEPING_FACTOR) AND NOT (HEAP_BASE_ALIGN - 1)"
  have "unat (hk div 32) = unat sz div 16 div 1024 * 1024 div 32"
    using unat_hksize [of sz] by (simp add: hk_def unat_div)
  then have "unat (hk div 32) = 0 \<longleftrightarrow> unat sz < 16384" by (simp add: div_eq_0_iff) linarith
  then have "[0..<unat (hk div 32)] = [] \<longleftrightarrow> unat sz < 16384" by simp
  then show ?thesis
    unfolding sbi_heap_init_new_def Let_def hk_def [symmetric] by (auto split: list.split)
qed

lemma heap_init_new_inv:
  assumes i: "sbi_heap_init_new base sz = Some (ret, hp)"
    and r: "0 < unat base" "unat base + unat sz < 2 ^ 64"
  shows "heap_inv hp" and "used_space_list hp = []" and "heap_hi hp = unat base + unat sz"
proof -
  define hk where "hk = (sz div HEAP_HOUSEKEEPING_FACTOR) AND NOT (HEAP_BASE_ALIGN - 1)"
  have u: "unat hk = unat sz div 16 div 1024 * 1024" using unat_hksize [of sz] by (simp add: hk_def)
  have le: "unat hk \<le> unat sz div 16" unfolding u by (rule div_times_less_eq_dividend)
  have "\<not> unat sz < 16384" using i heap_init_new_eq [of base sz] by auto
  then have lt: "unat hk < unat sz" using le by linarith
  obtain n fnl where hp: "hp = \<lparr>hp_base = base, hp_size = sz, hp_hkbase = base, hp_hksize = hk,
      free_node_list = fnl, free_space_list = [n\<lparr>hn_addr := base + hk, hn_size := sz - hk\<rparr>],
      used_space_list = []\<rparr>"
    using i unfolding sbi_heap_init_new_def Let_def hk_def [symmetric] by (auto split: list.splits)
  have "unat (base + hk) = unat base + unat hk" using lt r(2) by (intro unat_add_nowrap) simp
  moreover have "unat (sz - hk) = unat sz - unat hk" using lt by (intro unat_sub_le) (simp add: word_le_nat_alt)
  ultimately show "heap_inv hp" "used_space_list hp = []" "heap_hi hp = unat base + unat sz"
    using r lt by (auto simp: hp heap_inv_def heap_lo_def heap_hi_def node_ok_def in_node_def)
qed

lemma sum_in_node:
  assumes "unat (hn_addr n) + unat (hn_size n) \<le> N"
  shows "card ({..<N} \<inter> Collect (in_node n)) = unat (hn_size n)"
proof -
  have "{..<N} \<inter> Collect (in_node n) = {unat (hn_addr n)..<unat (hn_addr n) + unat (hn_size n)}"
    using assms by (auto simp: in_node_def)
  then show ?thesis by simp
qed

lemma sum_covers:
  "\<forall>n \<in> set ns. unat (hn_addr n) + unat (hn_size n) \<le> N \<Longrightarrow>
    (\<Sum>x<N. covers ns x) = (\<Sum>n\<leftarrow>ns. unat (hn_size n))"
  by (induction ns) (simp_all add: sum.distrib sum_in_node)

lemma heap_space:
  assumes "heap_inv hp"
  shows "(\<Sum>n\<leftarrow>free_space_list hp. unat (hn_size n)) + (\<Sum>n\<leftarrow>used_space_list hp. unat (hn_size n)) =
    heap_hi hp - heap_lo hp"
proof -
  have "\<forall>n \<in> set (free_space_list hp @ used_space_list hp).
      unat (hn_addr n) + unat (hn_size n) \<le> heap_hi hp"
    using assms by (auto simp: heap_inv_def node_ok_def)
  from sum_covers [OF this]
  have "(\<Sum>n\<leftarrow>free_space_list hp @ used_space_list hp. unat (hn_size n)) =
      (\<Sum>x<heap_hi hp. of_bool (heap_lo hp \<le> x \<and> x < heap_hi hp))"
    using assms unfolding heap_inv_def by (metis (no_types, lifting) sum.cong)
  also have "\<dots> = card {x. x < heap_hi hp \<and> heap_lo hp \<le> x}"
    by (simp add: Int_def of_bool_def sum.If_cases lessThan_def)
  also have "{x. x < heap_hi hp \<and> heap_lo hp \<le> x} = {heap_lo hp..<heap_hi hp}" by auto
  finally show ?thesis by simp
qed

lemma unat_fold_size:
  "unat acc + (\<Sum>n\<leftarrow>ns. unat (hn_size n)) < 2 ^ 64 \<Longrightarrow>
    unat (fold (\<lambda>n ret. ret + hn_size n) ns acc) = unat acc + (\<Sum>n\<leftarrow>ns. unat (hn_size n))"
proof (induction ns arbitrary: acc)
  case (Cons n ns)
  have "unat (acc + hn_size n) = unat acc + unat (hn_size n)"
    using Cons.prems by (intro unat_add_nowrap) simp
  then show ?case using Cons by simp
qed simp

text \<open>No heap node is lost or duplicated: each is in exactly one of the three lists.\<close>

definition node_pool :: "sbi_heap_control \<Rightarrow> ulong multiset" where
  "node_pool hp = mset (map hn_ptr (free_node_list hp @ free_space_list hp @ used_space_list hp))"

lemma map_ptr_update:
  "hn_ptr m = hn_ptr (ns ! i) \<Longrightarrow> map hn_ptr (ns[i := m]) = map hn_ptr ns"
proof (cases "i < length ns")
  case True
  assume "hn_ptr m = hn_ptr (ns ! i)"
  then have "map hn_ptr (ns[i := m]) = (map hn_ptr ns)[i := map hn_ptr ns ! i]"
    using True by (simp add: map_update)
  then show ?thesis by simp
qed (simp add: list_update_beyond)

lemma mset_remove_nth:
  "i < length ns \<Longrightarrow> mset (map f ns) = add_mset (f (ns ! i)) (mset (map f (remove_nth i ns)))"
  by (subst id_take_nth_drop [of i ns]) (simp_all add: remove_nth_def)

lemma node_pool_alloc: "node_pool (snd (alloc_with_align hp align sz)) = node_pool hp"
proof -
  have r: "i < length (free_space_list hp)"
    if "alloc_search align w (free_space_list hp) = Some i" for i w
    using alloc_search_Some [OF that] by simp
  show ?thesis
    by (auto simp: alloc_with_align_def node_pool_def Let_def map_ptr_update neq_Nil_conv mset_remove_nth [OF r]
        simp del: mset_map split: option.split list.split)
qed

lemma free_place_pool:
  "free_place np ns = (ns', r) \<Longrightarrow>
    mset (map hn_ptr ns') + mset (map hn_ptr (case r of Some m \<Rightarrow> [m] | None \<Rightarrow> [])) =
      add_mset (hn_ptr np) (mset (map hn_ptr ns))"
  by (induction ns arbitrary: ns') (auto split: if_splits prod.splits)

lemma node_pool_free: "node_pool (sbi_free_from hp p) = node_pool hp"
proof (cases "p = 0 \<or> used_search p (used_space_list hp) = None")
  case False
  then obtain i where s: "used_search p (used_space_list hp) = Some i" and p: "p \<noteq> 0" by auto
  obtain fsl r where f: "free_place (used_space_list hp ! i) (free_space_list hp) = (fsl, r)"
    by (metis surj_pair)
  have "i < length (used_space_list hp)" using used_search_Some [OF s] by simp
  from mset_remove_nth [OF this, of hn_ptr] show ?thesis
    using free_place_pool [OF f]
    by (simp add: node_pool_def sbi_free_from_eq [OF p s f] add.commute)
qed (simp add: sbi_free_from_unknown)

end
