(* ===== verification/Sbi_Heap_Alloc.thy ===== *)
theory Sbi_Heap_Alloc
  imports Sbi_Heap
begin

text \<open>
  What a client of the heap of \<open>sbi_heap.c\<close> may rely on: a client program is a sequence of
  allocations and frees, and the lemmas of the locale \<open>block_allocator\<close>, through its
  interpretation \<open>heap\<close>, bound what it holds.
\<close>

subsection \<open>Client programs\<close>

text \<open>\<open>Free i\<close> frees the \<open>i\<close>-th pointer held; the second component lists the (pointer, requested size)
  pairs that are held.\<close>

fun heap_run :: "alloc_op list \<Rightarrow> sbi_heap_control \<times> (ulong \<times> ulong) list \<Rightarrow> sbi_heap_control \<times> (ulong \<times> ulong) list" where
  "heap_run [] c = c"
| "heap_run (Malloc sz # ops) (hp, held) =
    (case sbi_malloc_from hp sz of (p, hp') \<Rightarrow> heap_run ops (hp', if p = 0 then held else (p, sz) # held))"
| "heap_run (Free i # ops) (hp, held) =
    (if i < length held then heap_run ops (sbi_free_from hp (fst (held ! i)), remove_nth i held)
     else heap_run ops (hp, held))"

fun op_size_ok :: "alloc_op \<Rightarrow> bool" where
  "op_size_ok (Malloc sz) \<longleftrightarrow> heap_ok_size sz"
| "op_size_ok (Free _) \<longleftrightarrow> True"

lemma heap_run_eq: "heap_run ops c = heap.alloc_run ops c"
  by (induction ops c rule: heap_run.induct) (simp_all split: prod.split)

lemma op_sizes: "list_all op_size_ok ops \<Longrightarrow> Malloc sz \<in> set ops \<Longrightarrow> heap_ok_size sz"
  by (auto simp: list_all_iff dest!: bspec)

lemma heap_run_held:
  assumes "heap_inv hp" and "list_all op_size_ok ops"
  shows "heap.held_ok (fst (heap_run ops (hp, []))) (snd (heap_run ops (hp, [])))"
  using heap.held_ok_run [of hp "[]" ops] assms op_sizes by (simp add: heap_run_eq heap.held_ok_def)

lemma malloc_frame:
  "hp_base (snd (alloc_with_align hp align sz)) = hp_base hp" "hp_size (snd (alloc_with_align hp align sz)) = hp_size hp"
  "hp_hksize (snd (alloc_with_align hp align sz)) = hp_hksize hp"
  by (simp_all add: alloc_with_align_def Let_def split: option.split list.split)

lemma free_frame:
  "hp_base (sbi_free_from hp p) = hp_base hp" "hp_size (sbi_free_from hp p) = hp_size hp"
  "hp_hksize (sbi_free_from hp p) = hp_hksize hp"
  by (simp_all add: sbi_free_from_def Let_def split: option.split prod.split)

lemma heap_run_frame:
  "hp_base (fst (heap_run ops c)) = hp_base (fst c) \<and> hp_size (fst (heap_run ops c)) = hp_size (fst c) \<and>
   hp_hksize (fst (heap_run ops c)) = hp_hksize (fst c) \<and> node_pool (fst (heap_run ops c)) = node_pool (fst c)"
proof (induction ops c rule: heap_run.induct)
  case (2 sz ops hp held)
  obtain p hp' where m: "sbi_malloc_from hp sz = (p, hp')" by (metis surj_pair)
  have "hp' = snd (alloc_with_align hp HEAP_ALLOC_ALIGN sz)" using m by (simp add: sbi_malloc_from_def)
  then show ?case using 2 m malloc_frame [of hp HEAP_ALLOC_ALIGN sz] node_pool_alloc [of hp HEAP_ALLOC_ALIGN sz] by simp
qed (simp_all add: free_frame node_pool_free)

lemma used_in_heap:
  assumes "heap_inv hp" and "b \<in> blocks hp" and "0 < snd b"
  shows "heap_lo hp \<le> fst b" and "fst b + snd b \<le> heap_hi hp"
  using assms node_lo by (auto simp: blocks_def block_of_def node_ok_def)

subsection \<open>Instances\<close>

definition ex_heap :: sbi_heap_control where
  "ex_heap = \<lparr>hp_base = 0x80100000, hp_size = 0x4000, hp_hkbase = 0x80100000, hp_hksize = 0x400,
    free_node_list = map (\<lambda>i. \<lparr>hn_ptr = 0x80100000 + 32 * of_nat i, hn_addr = 0, hn_size = 0\<rparr>) [1..<32],
    free_space_list = [\<lparr>hn_ptr = 0x80100000, hn_addr = 0x80100400, hn_size = 0x3c00\<rparr>], used_space_list = []\<rparr>"

lemma ex_heap_init: "sbi_heap_init_new 0x80100000 0x4000 = Some (0, ex_heap)"
proof -
  have "[0..<32] = 0 # [1..<32 :: nat]" by (simp add: upt_conv_Cons)
  then show ?thesis by (simp add: sbi_heap_init_new_def ex_heap_def Let_def)
qed

lemma ex_heap_inv: "heap_inv ex_heap"
  by (rule heap_init_new_inv(1) [OF ex_heap_init]) simp_all

subsection \<open>Properties\<close>

text \<open>C19: The heap never hands out memory twice: on a heap initialised by \<open>sbi_heap_init_new\<close>, after any
  sequence of allocations (of sizes up to \<open>2^63\<close>) and frees, two different blocks that the client
  holds do not overlap, and every block held lies between the housekeeping area and the end of the
  heap.\<close>

theorem heap_blocks_disjoint:
  assumes "sbi_heap_init_new base sz = Some (rc, hp)" and "0 < unat base" and "unat base + unat sz < 2 ^ 64"
    and "list_all op_size_ok ops"
  defines "held \<equiv> snd (heap_run ops (hp, []))"
  shows "(\<forall>i j. i < j \<and> j < length held \<longrightarrow> span (held ! i) \<inter> span (held ! j) = {}) \<and>
    (\<forall>h \<in> set held. span h \<subseteq> {unat base + unat (hp_hksize hp)..<unat base + unat sz})"
proof -
  have inv: "heap_inv hp" using heap_init_new_inv(1) [OF assms(1-3)] .
  define hp' where "hp' = fst (heap_run ops (hp, []))"
  have h: "heap.held_ok hp' held"
    using heap_run_held [OF inv assms(4)] by (simp only: held_def hp'_def)
  have lo: "heap_lo hp' = heap_lo hp" "heap_hi hp' = unat base + unat sz" "hp_base hp = base"
    using heap_run_frame [of ops "(hp, [])"] heap_init_new_inv(3) [OF assms(1-3)] assms(1)
    by (auto simp: hp'_def heap_lo_def heap_hi_def sbi_heap_init_new_def Let_def split: list.splits)
  have "span b \<subseteq> {heap_lo hp'..<heap_hi hp'}" if "b \<in> set held" for b
  proof -
    obtain n where n: "0 < unat (snd b)" "unat (snd b) \<le> n" "(unat (fst b), n) \<in> blocks hp'"
      using h \<open>b \<in> set held\<close> by (auto simp: heap.held_ok_def dest!: bspec)
    have "heap_inv hp'" using h by (simp add: heap.held_ok_def)
    from used_in_heap [OF this n(3)] show ?thesis using n(1,2) by (auto simp: span_def)
  qed
  then show ?thesis
    using heap.held_ok_disjoint [OF h] lo by (simp add: heap_lo_def)
qed

definition ex_ops :: "alloc_op list" where
  "ex_ops = [Malloc 100, Malloc 64, Free 1, Malloc 32]"

lemma ex_ops_ok: "list_all op_size_ok ex_ops"
  by (simp add: ex_ops_def heap_ok_size_def)

theorem heap_blocks_disjoint_witness:
  "let held = snd (heap_run ex_ops (ex_heap, []))
   in length held = 2 \<and> span (held ! 0) \<inter> span (held ! 1) = {}"
proof -
  have l: "length (snd (heap_run ex_ops (ex_heap, []))) = 2"
    by (simp add: ex_ops_def sbi_malloc_from_def alloc_with_align_def ROUNDUP_def sbi_free_from_def remove_nth_def
        ex_heap_def upt_conv_Cons Let_def)
  have "span (snd (heap_run ex_ops (ex_heap, [])) ! 0) \<inter> span (snd (heap_run ex_ops (ex_heap, [])) ! 1) = {}"
    using heap_blocks_disjoint [OF ex_heap_init _ _ ex_ops_ok] l by simp
  then show ?thesis using l by (simp add: Let_def)
qed

text \<open>C32: The accounting of the heap is exact: after any such sequence, the free space that
  \<open>sbi_heap_free_space_from\<close> reports and the sizes of the used blocks add up to the size of the
  heap without its housekeeping area, \<open>sbi_heap_used_space_from\<close> reports the used part for the
  global heap, and no heap node is lost or duplicated.\<close>

theorem heap_accounting:
  assumes "sbi_heap_init_new base sz = Some (rc, hp)" and "0 < unat base" and "unat base + unat sz < 2 ^ 64"
    and "list_all op_size_ok ops"
  defines "hp' \<equiv> fst (heap_run ops (hp, []))"
  shows "unat (sbi_heap_free_space_from hp') + (\<Sum>n\<leftarrow>used_space_list hp'. unat (hn_size n)) =
      unat sz - unat (sbi_heap_reserved_space_from hp') \<and>
    unat (sbi_heap_used_space_from hp' hp') = (\<Sum>n\<leftarrow>used_space_list hp'. unat (hn_size n)) \<and>
    node_pool hp' = node_pool hp"
proof -
  have inv: "heap_inv hp" using heap_init_new_inv(1) [OF assms(1-3)] .
  have i: "heap_inv hp'" using heap_run_held [OF inv assms(4)] by (simp add: heap.held_ok_def hp'_def)
  have f: "hp_base hp' = hp_base hp" "hp_size hp' = hp_size hp" "hp_hksize hp' = hp_hksize hp" "node_pool hp' = node_pool hp"
    using heap_run_frame [of ops "(hp, [])"] by (simp_all add: hp'_def)
  have s: "hp_size hp = sz" using assms(1) by (auto simp: sbi_heap_init_new_def Let_def split: list.splits)
  let ?F = "\<Sum>n\<leftarrow>free_space_list hp'. unat (hn_size n)" and ?U = "\<Sum>n\<leftarrow>used_space_list hp'. unat (hn_size n)"
  have t: "?F + ?U = unat sz - unat (hp_hksize hp')"
    using heap_space [OF i] f s by (simp add: heap_hi_def heap_lo_def)
  have lt: "unat sz < 2 ^ 64" using assms(3) by linarith
  have fs: "unat (sbi_heap_free_space_from hp') = ?F"
    using unat_fold_size [of 0 "free_space_list hp'"] t lt by (simp add: sbi_heap_free_space_from_def)
  have "hp_hksize hp' \<le> sz"
  proof (rule ccontr)
    assume "\<not> hp_hksize hp' \<le> sz"
    then have "heap_hi hp < heap_lo hp" using f s by (simp add: heap_hi_def heap_lo_def word_le_nat_alt)
    moreover have "heap_lo hp < heap_hi hp \<or> free_space_list hp = []"
      using inv node_lo [OF inv] by (fastforce simp: node_ok_def neq_Nil_conv)
    moreover have "free_space_list hp \<noteq> []" using assms(1) by (auto simp: sbi_heap_init_new_def Let_def split: list.splits)
    ultimately show False by simp
  qed
  then have d: "unat (sz - hp_hksize hp') = unat sz - unat (hp_hksize hp')" by (rule unat_sub_le)
  have le: "sbi_heap_free_space_from hp' \<le> sz - hp_hksize hp'" using fs d t by (simp add: word_le_nat_alt)
  have "unat (sbi_heap_used_space_from hp' hp') = unat (sz - hp_hksize hp') - unat (sbi_heap_free_space_from hp')"
    using unat_sub_le [OF le] f s by (simp add: sbi_heap_used_space_from_def)
  also have "\<dots> = ?U" using fs d t by linarith
  finally have u: "unat (sbi_heap_used_space_from hp' hp') = ?U" .
  have "unat (sbi_heap_free_space_from hp') + ?U = unat sz - unat (sbi_heap_reserved_space_from hp')"
    using fs t by (simp add: sbi_heap_reserved_space_from_def)
  then show ?thesis using u f(4) by blast
qed

theorem heap_accounting_witness:
  "unat (sbi_heap_free_space_from (fst (heap_run ex_ops (ex_heap, [])))) +
   (\<Sum>n\<leftarrow>used_space_list (fst (heap_run ex_ops (ex_heap, []))). unat (hn_size n)) =
   unat (0x4000 :: ulong) - unat (sbi_heap_reserved_space_from (fst (heap_run ex_ops (ex_heap, []))))"
  using heap_accounting [OF ex_heap_init _ _ ex_ops_ok] by simp

text \<open>\<open>sbi_free\<close> undoes \<open>sbi_malloc\<close>: freeing the pointer that an allocation returned leaves the
  blocks in use exactly as before the allocation and keeps the heap invariant.\<close>

theorem malloc_free_roundtrip:
  assumes "heap_inv hp" and "heap_ok_size sz" and "sbi_malloc_from hp sz = (p, hp')" and "p \<noteq> 0"
  shows "heap_inv (sbi_free_from hp' p) \<and> blocks (sbi_free_from hp' p) = blocks hp \<and>
    (unat p, round_up 64 (unat sz)) \<notin> blocks hp"
proof -
  let ?b = "(unat p, round_up 64 (unat sz))"
  have inv': "heap_inv hp'" using malloc_cases [OF assms(1-3)] assms(4) by blast
  note m = malloc_fresh [OF assms]
  have "0 < unat sz" using assms(2) by (simp add: heap_ok_size_def unat_gt_0 word_neq_0_conv)
  then have "0 < round_up 64 (unat sz)" using round_up_ge [of 64 "unat sz"] by simp
  then have p: "unat p \<in> bytes_of ?b" by (simp add: bytes_of_def)
  then have "?b \<notin> blocks hp" using m(2) by (auto simp: used_bytes_def)
  then show ?thesis using free_blocks [OF inv' _ p] m(1) heap_inv_free [OF inv'] by auto
qed

theorem malloc_free_roundtrip_witness:
  "\<exists>p hp'. sbi_malloc_from ex_heap 100 = (p, hp') \<and> p = 0x80100400 \<and> blocks (sbi_free_from hp' p) = blocks ex_heap"
proof -
  obtain hp' where m: "sbi_malloc_from ex_heap 100 = (0x80100400, hp')"
    by (simp add: sbi_malloc_from_def alloc_with_align_def ROUNDUP_def ex_heap_def Let_def)
  show ?thesis using malloc_free_roundtrip [OF ex_heap_inv _ m] m by (auto simp: heap_ok_size_def)
qed

text \<open>\<open>sbi_aligned_alloc\<close> with a power of two returns \<open>NULL\<close> and leaves the heap alone, or returns a
  pointer aligned to it (and to 64) to a new used block of at least the requested size; it always
  refuses a size that is not a multiple of the alignment.\<close>

theorem aligned_alloc_aligned:
  assumes "heap_inv hp" and "k < 64" and "0 < sz" and "unat sz + (2 ^ max k 6 - 1) < 2 ^ 64"
    and "sbi_aligned_alloc_from hp (2 ^ k) sz = (p, hp')"
  shows "p = 0 \<and> hp' = hp \<or>
    2 ^ max k 6 dvd unat sz \<and> 2 ^ max k 6 dvd unat p \<and> heap_inv hp' \<and>
    (\<exists>n. used_space_list hp' = used_space_list hp @ [n] \<and> hn_addr n = p \<and> unat sz \<le> unat (hn_size n))"
proof -
  let ?k = "max k 6"
  have k: "?k < 64" using assms(2) by simp
  have a: "(if (2 :: ulong) ^ k < HEAP_ALLOC_ALIGN then HEAP_ALLOC_ALIGN else 2 ^ k) = 2 ^ ?k"
  proof (cases "k < 6")
    case True
    then have "(2 :: nat) ^ k < 2 ^ 6" by (intro power_strict_increasing) simp_all
    then show ?thesis using True unat_2p [OF assms(2)] by (simp add: word_less_nat_alt max_def)
  next
    case False
    then have "(2 :: nat) ^ 6 \<le> 2 ^ k" by (intro power_increasing) simp_all
    then show ?thesis using False unat_2p [OF assms(2)] by (simp add: word_less_nat_alt max_def)
  qed
  have r: "sbi_aligned_alloc_from hp (2 ^ k) sz =
      (if (2 :: ulong) ^ ?k AND (2 ^ ?k - 1) \<noteq> 0 then (0, hp) else if sz mod 2 ^ ?k \<noteq> 0 then (0, hp)
       else alloc_with_align hp (2 ^ ?k) sz)"
    unfolding sbi_aligned_alloc_from_def Let_def a ..
  show ?thesis
  proof (cases "sz mod 2 ^ ?k = 0 \<and> (2 :: ulong) ^ ?k AND (2 ^ ?k - 1) = 0")
    case True
    have "unat sz mod unat ((2 :: ulong) ^ ?k) = 0" using True by (metis unat_mod unat_0)
    then have d: "2 ^ ?k dvd unat sz" using unat_2p [OF k] by (simp add: dvd_eq_mod_eq_0)
    have "alloc_with_align hp (2 ^ ?k) sz = (p, hp')" using r True assms(5) by simp
    from alloc_with_align_cases [OF assms(1) k assms(3,4) this] d show ?thesis
      using round_up_ge [of "2 ^ ?k" "unat sz"] by fastforce
  next
    case False
    then show ?thesis using r assms(5) by (auto split: if_splits)
  qed
qed

theorem aligned_alloc_aligned_witness:
  "\<exists>hp'. sbi_aligned_alloc_from ex_heap (2 ^ 12) 0x1000 = (0x80101000, hp') \<and> heap_inv hp'"
proof -
  obtain hp' where m: "sbi_aligned_alloc_from ex_heap (2 ^ 12) 0x1000 = (0x80101000, hp')"
    by (simp add: sbi_aligned_alloc_from_def alloc_with_align_def ROUNDUP_def ex_heap_def upt_conv_Cons Let_def)
  show ?thesis using aligned_alloc_aligned [OF ex_heap_inv _ _ _ m] m by auto
qed

text \<open>An allocation of nearly \<open>2^64\<close> bytes does not fail: the rounding of the size wraps around to
  0, so \<open>sbi_malloc\<close> returns a pointer to an empty block, and the next allocation returns the same
  pointer again.\<close>

theorem malloc_wraps:
  "\<exists>hp1 hp2. sbi_malloc_from ex_heap (-1) = (0x80100400, hp1) \<and> sbi_malloc_from hp1 64 = (0x80100400, hp2) \<and>
    map hn_size (used_space_list hp2) = [0, 64]"
  by (simp add: sbi_malloc_from_def alloc_with_align_def ROUNDUP_def ex_heap_def upt_conv_Cons Let_def)

end
