(* ===== verification/Sbi_Domain.thy ===== *)
theory Sbi_Domain
  imports Sbi_Heap
begin

text \<open>
  \<open>lib/sbi/sbi_domain.c\<close> and the flags of \<open>include/sbi/sbi_domain.h\<close>: the memory regions of a
  domain, the address checks, the sanity checks with the sort of the regions, the registration
  of domains and the root domain's regions.

  A region array ends at the first entry of order 0, as \<open>sbi_domain_for_each_memregion\<close>
  reads it. A \<open>struct sbi_domain *\<close> is a \<^typ>\<open>nat\<close> key of the store of domains and \<open>None\<close> is
  \<open>NULL\<close>; the domain pointer kept in each hart's scratch space is a function of the hart
  index. \<open>sbi_printf\<close> has no effect on the state and is left out.
\<close>

subsection \<open>Flags\<close>

definition SBI_DOMAIN_READ :: ulong where [simp, sbi_defs]: "SBI_DOMAIN_READ = 1"
definition SBI_DOMAIN_WRITE :: ulong where [simp, sbi_defs]: "SBI_DOMAIN_WRITE = 2"
definition SBI_DOMAIN_EXECUTE :: ulong where [simp, sbi_defs]: "SBI_DOMAIN_EXECUTE = 4"
definition SBI_DOMAIN_MMIO :: ulong where [simp, sbi_defs]: "SBI_DOMAIN_MMIO = 8"

definition SBI_DOMAIN_MEMREGION_M_READABLE :: ulong where [simp, sbi_defs]:
  "SBI_DOMAIN_MEMREGION_M_READABLE = 1"
definition SBI_DOMAIN_MEMREGION_M_WRITABLE :: ulong where [simp, sbi_defs]:
  "SBI_DOMAIN_MEMREGION_M_WRITABLE = 2"
definition SBI_DOMAIN_MEMREGION_M_EXECUTABLE :: ulong where [simp, sbi_defs]:
  "SBI_DOMAIN_MEMREGION_M_EXECUTABLE = 4"
definition SBI_DOMAIN_MEMREGION_SU_READABLE :: ulong where [simp, sbi_defs]:
  "SBI_DOMAIN_MEMREGION_SU_READABLE = 8"
definition SBI_DOMAIN_MEMREGION_SU_WRITABLE :: ulong where [simp, sbi_defs]:
  "SBI_DOMAIN_MEMREGION_SU_WRITABLE = 16"
definition SBI_DOMAIN_MEMREGION_SU_EXECUTABLE :: ulong where [simp, sbi_defs]:
  "SBI_DOMAIN_MEMREGION_SU_EXECUTABLE = 32"
definition SBI_DOMAIN_MEMREGION_M_ACCESS_MASK :: ulong where [simp, sbi_defs]:
  "SBI_DOMAIN_MEMREGION_M_ACCESS_MASK = 0x7"
definition SBI_DOMAIN_MEMREGION_SU_ACCESS_MASK :: ulong where [simp, sbi_defs]:
  "SBI_DOMAIN_MEMREGION_SU_ACCESS_MASK = 0x38"
definition SBI_DOMAIN_MEMREGION_SU_ACCESS_SHIFT :: nat where [simp, sbi_defs]:
  "SBI_DOMAIN_MEMREGION_SU_ACCESS_SHIFT = 3"
definition SBI_DOMAIN_MEMREGION_MMIO :: ulong where [simp, sbi_defs]:
  "SBI_DOMAIN_MEMREGION_MMIO = 0x80000000"

subsection \<open>Regions and domains\<close>

record sbi_domain_memregion =
  order :: nat
  base :: ulong
  flags :: ulong

record sbi_domain =
  dom_index :: u32
  assigned_harts :: sbi_hartmask
  possible_harts :: "sbi_hartmask option"
  regions :: "sbi_domain_memregion list option"
  boot_hartid :: u32
  dom_next_arg1 :: ulong
  dom_next_addr :: ulong
  dom_next_mode :: ulong
  system_reset_allowed :: bool
  system_suspend_allowed :: bool
  fw_region_inited :: bool

definition memregions :: "sbi_domain_memregion list \<Rightarrow> sbi_domain_memregion list" where
  "memregions regs = takeWhile (\<lambda>r. order r \<noteq> 0) regs"

definition sbi_domain_for_each_memregion :: "sbi_domain \<Rightarrow> sbi_domain_memregion list" where
  "sbi_domain_for_each_memregion dm = (case regions dm of None \<Rightarrow> [] | Some regs \<Rightarrow> memregions regs)"

function memregion_init_loop :: "ulong \<Rightarrow> ulong \<Rightarrow> nat \<Rightarrow> ulong \<times> nat" where
  "memregion_init_loop addr sz ord =
    (if ord < 64 then
       let b = addr AND NOT (BIT ord - 1)
       in if b \<le> addr \<and> addr < b + BIT ord \<and> b \<le> addr + sz - 1 \<and> addr + sz - 1 < b + BIT ord
          then (b, ord) else memregion_init_loop addr sz (ord + 1)
     else (0, ord))"
  by pat_completeness auto
termination
  by (relation "measure (\<lambda>(addr, sz, ord). 64 - ord)") auto

declare memregion_init_loop.simps [simp del]

definition sbi_domain_memregion_init :: "ulong \<Rightarrow> ulong \<Rightarrow> ulong \<Rightarrow> sbi_domain_memregion" where
  "sbi_domain_memregion_init addr sz fl =
    (case memregion_init_loop addr sz (log2roundup sz) of (b, ord) \<Rightarrow>
      \<lparr>order = ord, base = b, flags = fl\<rparr>)"

definition region_end :: "sbi_domain_memregion \<Rightarrow> ulong" where
  "region_end reg = (if order reg < 64 then base reg + (BIT (order reg) - 1) else -1)"

definition in_region :: "sbi_domain_memregion \<Rightarrow> ulong \<Rightarrow> bool" where
  "in_region reg addr \<longleftrightarrow> base reg \<le> addr \<and> addr \<le> region_end reg"

text \<open>The permission test of \<open>sbi_domain_check_addr\<close> for one region.\<close>

definition access_rwx :: "ulong \<Rightarrow> ulong" where
  "access_rwx access_flags =
    (if access_flags AND SBI_DOMAIN_READ \<noteq> 0 then SBI_DOMAIN_MEMREGION_M_READABLE else 0) OR
    (if access_flags AND SBI_DOMAIN_WRITE \<noteq> 0 then SBI_DOMAIN_MEMREGION_M_WRITABLE else 0) OR
    (if access_flags AND SBI_DOMAIN_EXECUTE \<noteq> 0 then SBI_DOMAIN_MEMREGION_M_EXECUTABLE else 0)"

definition region_rwx :: "sbi_domain_memregion \<Rightarrow> ulong \<Rightarrow> ulong" where
  "region_rwx reg mode =
    (if mode = PRV_M then flags reg AND SBI_DOMAIN_MEMREGION_M_ACCESS_MASK
     else drop_bit SBI_DOMAIN_MEMREGION_SU_ACCESS_SHIFT (flags reg AND SBI_DOMAIN_MEMREGION_SU_ACCESS_MASK))"

definition region_allows :: "sbi_domain_memregion \<Rightarrow> ulong \<Rightarrow> ulong \<Rightarrow> bool" where
  "region_allows reg mode access_flags =
    (if (access_flags AND SBI_DOMAIN_MMIO \<noteq> 0) \<noteq> (flags reg AND SBI_DOMAIN_MEMREGION_MMIO \<noteq> 0) then False
     else region_rwx reg mode AND access_rwx access_flags = access_rwx access_flags)"

fun check_addr_loop :: "sbi_domain_memregion list \<Rightarrow> ulong \<Rightarrow> ulong \<Rightarrow> ulong \<Rightarrow> bool" where
  "check_addr_loop [] addr mode access_flags \<longleftrightarrow> mode = PRV_M"
| "check_addr_loop (reg # regs) addr mode access_flags =
    (if in_region reg addr then region_allows reg mode access_flags
     else check_addr_loop regs addr mode access_flags)"

definition sbi_domain_check_addr :: "sbi_domain option \<Rightarrow> ulong \<Rightarrow> ulong \<Rightarrow> ulong \<Rightarrow> bool" where
  "sbi_domain_check_addr dm addr mode access_flags =
    (case dm of None \<Rightarrow> False
     | Some d \<Rightarrow> check_addr_loop (sbi_domain_for_each_memregion d) addr mode access_flags)"

definition is_region_valid :: "sbi_domain_memregion \<Rightarrow> bool" where
  "is_region_valid reg =
    (if order reg < 3 \<or> 64 < order reg then False
     else if order reg = 64 \<and> base reg \<noteq> 0 then False
     else if order reg < 64 \<and> base reg AND (BIT (order reg) - 1) \<noteq> 0 then False
     else True)"

text \<open>
  \<open>is_region_subset\<close> computes the ends with \<open>BIT(order)\<close> also for order 64, where the shift
  amount is out of range; the model has the machine's result, \<open>BIT 64 = 1\<close>.
\<close>

definition is_region_subset :: "sbi_domain_memregion \<Rightarrow> sbi_domain_memregion \<Rightarrow> bool" where
  "is_region_subset regA regB \<longleftrightarrow>
    (let regA_start = base regA; regA_end = base regA + (BIT (order regA) - 1);
         regB_start = base regB; regB_end = base regB + (BIT (order regB) - 1)
     in regB_start \<le> regA_start \<and> regA_start < regB_end \<and> regB_start < regA_end \<and> regA_end \<le> regB_end)"

definition is_region_compatible :: "sbi_domain_memregion \<Rightarrow> sbi_domain_memregion \<Rightarrow> bool" where
  "is_region_compatible regA regB \<longleftrightarrow> is_region_subset regA regB \<and> flags regA = flags regB"

definition is_region_before :: "sbi_domain_memregion \<Rightarrow> sbi_domain_memregion \<Rightarrow> bool" where
  "is_region_before regA regB =
    (if order regA < order regB then True
     else if order regA = order regB \<and> base regA < base regB then True
     else False)"

text \<open>\<open>find_region\<close> returns the position of the region, which stands for its address.\<close>

fun find_region_loop :: "sbi_domain_memregion list \<Rightarrow> ulong \<Rightarrow> nat option" where
  "find_region_loop [] addr = None"
| "find_region_loop (reg # regs) addr =
    (if in_region reg addr then Some 0 else map_option Suc (find_region_loop regs addr))"

definition find_region :: "sbi_domain \<Rightarrow> ulong \<Rightarrow> nat option" where
  "find_region dm addr = find_region_loop (sbi_domain_for_each_memregion dm) addr"

fun next_subset_loop ::
  "sbi_domain_memregion list \<Rightarrow> nat \<Rightarrow> nat \<Rightarrow> sbi_domain_memregion \<Rightarrow> ulong \<Rightarrow>
    sbi_domain_memregion option \<Rightarrow> sbi_domain_memregion option" where
  "next_subset_loop [] j k reg addr ret = ret"
| "next_subset_loop (sreg # regs) j k reg addr ret =
    (if j = k \<or> base sreg \<le> addr \<or> \<not> is_region_subset sreg reg
     then next_subset_loop regs (j + 1) k reg addr ret
     else next_subset_loop regs (j + 1) k reg addr
       (case ret of None \<Rightarrow> Some sreg
        | Some r \<Rightarrow> if base sreg < base r \<or> base sreg = base r \<and> order sreg < order r
                   then Some sreg else Some r))"

definition find_next_subset_region :: "sbi_domain \<Rightarrow> nat \<Rightarrow> ulong \<Rightarrow> sbi_domain_memregion option" where
  "find_next_subset_region dm k addr =
    (let regs = sbi_domain_for_each_memregion dm in next_subset_loop regs 0 k (regs ! k) addr None)"

text \<open>
  The loop of \<open>sbi_domain_check_addr_range\<close>. \<open>addr\<close> need not grow: a region that ends at the
  top of the address space makes it 0 again. \<open>None\<close> is "does not return".
\<close>

partial_function (option) check_range_loop ::
  "sbi_domain \<Rightarrow> ulong \<Rightarrow> ulong \<Rightarrow> ulong \<Rightarrow> ulong \<Rightarrow> bool option" where
  "check_range_loop dm addr mx mode access_flags =
    (if addr < mx then
       (case find_region dm addr of
         None \<Rightarrow> Some False
       | Some k \<Rightarrow>
           if \<not> sbi_domain_check_addr (Some dm) addr mode access_flags then Some False
           else (case find_next_subset_region dm k addr of
               Some sreg \<Rightarrow> check_range_loop dm (base sreg) mx mode access_flags
             | None \<Rightarrow>
                 let reg = sbi_domain_for_each_memregion dm ! k
                 in if order reg < 64
                    then check_range_loop dm (base reg + BIT (order reg)) mx mode access_flags
                    else Some True))
     else Some True)"

definition sbi_domain_check_addr_range ::
  "sbi_domain option \<Rightarrow> ulong \<Rightarrow> ulong \<Rightarrow> ulong \<Rightarrow> ulong \<Rightarrow> bool option" where
  "sbi_domain_check_addr_range dm addr sz mode access_flags =
    (case dm of None \<Rightarrow> Some False | Some d \<Rightarrow> check_range_loop d addr (addr + sz) mode access_flags)"

subsection \<open>Sanity checks\<close>

definition swap_region :: "nat \<Rightarrow> nat \<Rightarrow> sbi_domain_memregion list \<Rightarrow> sbi_domain_memregion list" where
  "swap_region i j regs = regs[i := regs ! j, j := regs ! i]"

definition clear_region :: "nat \<Rightarrow> sbi_domain_memregion list \<Rightarrow> sbi_domain_memregion list" where
  "clear_region i regs = regs[i := \<lparr>order = 0, base = 0, flags = 0\<rparr>]"

fun sort_inner :: "nat \<Rightarrow> nat list \<Rightarrow> sbi_domain_memregion list \<Rightarrow> sbi_domain_memregion list" where
  "sort_inner i [] regs = regs"
| "sort_inner i (j # js) regs =
    sort_inner i js (if is_region_before (regs ! j) (regs ! i) then swap_region i j regs else regs)"

definition sort_regions :: "nat \<Rightarrow> sbi_domain_memregion list \<Rightarrow> sbi_domain_memregion list" where
  "sort_regions cnt regs = fold (\<lambda>i. sort_inner i [i + 1..<cnt]) [0..<cnt - 1] regs"

text \<open>The loop that is to remove regions covered by a later one, from index \<open>i\<close> on.\<close>

definition region_covered :: "nat \<Rightarrow> nat \<Rightarrow> sbi_domain_memregion list \<Rightarrow> bool" where
  "region_covered i cnt regs \<longleftrightarrow> (\<exists>j \<in> set [i + 1..<cnt]. is_region_compatible (regs ! i) (regs ! j))"

function remove_covered :: "nat \<Rightarrow> nat \<Rightarrow> sbi_domain_memregion list \<Rightarrow> sbi_domain_memregion list" where
  "remove_covered i cnt regs =
    (if i < cnt - 1 then
       if region_covered i cnt regs then
         remove_covered i (cnt - 1)
           (clear_region (cnt - 1) (fold (\<lambda>j. swap_region j (j + 1)) [i..<cnt - 1] regs))
       else remove_covered (i + 1) cnt regs
     else regs)"
  by pat_completeness auto
termination
  by (relation "measure (\<lambda>(i, cnt, regs). 2 * cnt - i)") auto

declare remove_covered.simps [simp del]

text \<open>
  \<open>sanitize_domain\<close> returns the error code and the domain with its regions rearranged. The
  sort leaves \<open>i = cnt - 1\<close>, and the removal loop starts from that \<open>i\<close>.
\<close>

definition sanitize_domain :: "scratch_globals \<Rightarrow> sbi_domain \<Rightarrow> int \<times> sbi_domain" where
  "sanitize_domain g dm =
    (case possible_harts dm of
      None \<Rightarrow> (SBI_EINVAL, dm)
    | Some hm \<Rightarrow>
        if \<not> list_all (\<lambda>i. sbi_hartindex_valid g (of_nat i)) (sbi_hartmask_for_each_hartindex hm)
        then (SBI_EINVAL, dm)
        else (case regions dm of
          None \<Rightarrow> (SBI_EINVAL, dm)
        | Some regs \<Rightarrow>
            if \<not> list_all is_region_valid (memregions regs) then (SBI_EINVAL, dm)
            else
              let cnt = length (memregions regs)
              in if \<not> fw_region_inited dm then (SBI_EINVAL, dm)
                 else
                   let regs = remove_covered (cnt - 1) cnt (sort_regions cnt regs);
                       dm = dm\<lparr>regions := Some regs\<rparr>
                   in if dom_next_mode dm \<noteq> PRV_S \<and> dom_next_mode dm \<noteq> PRV_U then (SBI_EINVAL, dm)
                      else if \<not> sbi_domain_check_addr (Some dm) (dom_next_addr dm) (dom_next_mode dm)
                            SBI_DOMAIN_EXECUTE
                      then (SBI_EINVAL, dm)
                      else (0, dm)))"

subsection \<open>The table of domains\<close>

definition ROOT_REGION_MAX :: nat where [simp, sbi_defs]: "ROOT_REGION_MAX = 32"

record domain_globals =
  scratch_tab :: scratch_globals
  domains :: "nat \<Rightarrow> sbi_domain"
  domain_list :: "nat list"
  domain_count :: u32
  domain_finalized :: bool
  root_memregs_count :: nat
  domain_hart_ptr_offset :: ulong
  hart_domain_ptr :: "nat \<Rightarrow> nat option"

text \<open>The key of the static \<open>struct sbi_domain root\<close>.\<close>

definition root_dom :: nat where "root_dom = 0"

definition upd_domain :: "nat \<Rightarrow> (sbi_domain \<Rightarrow> sbi_domain) \<Rightarrow> domain_globals \<Rightarrow> domain_globals" where
  "upd_domain d f g = g\<lparr>domains := (domains g)(d := f (domains g d))\<rparr>"

definition sbi_hartindex_to_domain :: "domain_globals \<Rightarrow> nat \<Rightarrow> nat option" where
  "sbi_hartindex_to_domain g i =
    (if sbi_hartindex_to_scratch (scratch_tab g) (of_nat i) = 0 \<or> domain_hart_ptr_offset g = 0 then None
     else hart_domain_ptr g i)"

definition sbi_update_hartindex_to_domain :: "nat \<Rightarrow> nat \<Rightarrow> domain_globals \<Rightarrow> domain_globals" where
  "sbi_update_hartindex_to_domain i d g =
    (if sbi_hartindex_to_scratch (scratch_tab g) (of_nat i) = 0 then g
     else g\<lparr>hart_domain_ptr := (hart_domain_ptr g)(i := Some d)\<rparr>)"

definition sbi_domain_is_assigned_hart :: "domain_globals \<Rightarrow> nat option \<Rightarrow> nat \<Rightarrow> bool" where
  "sbi_domain_is_assigned_hart g d i =
    (case d of None \<Rightarrow> False | Some d \<Rightarrow> sbi_hartmask_test_hartindex i (assigned_harts (domains g d)))"

definition sbi_domain_get_assigned_hartmask ::
  "domain_globals \<Rightarrow> nat option \<Rightarrow> sbi_hartmask \<Rightarrow> int \<times> sbi_hartmask" where
  "sbi_domain_get_assigned_hartmask g d msk =
    (case d of None \<Rightarrow> (0, sbi_hartmask_clear_all msk)
     | Some d \<Rightarrow> (0, sbi_hartmask_copy msk (assigned_harts (domains g d))))"

text \<open>The body of the assignment loop of \<open>sbi_domain_register\<close>.\<close>

definition register_hart :: "u32 \<Rightarrow> nat \<Rightarrow> nat \<Rightarrow> domain_globals \<Rightarrow> domain_globals" where
  "register_hart cold_hartid d i g =
    (if \<not> (case possible_harts (domains g d) of None \<Rightarrow> False | Some hm \<Rightarrow> sbi_hartmask_test_hartindex i hm)
     then g
     else
       let g = (case sbi_hartindex_to_domain g i of
                  Some t \<Rightarrow> upd_domain t (\<lambda>td. td\<lparr>assigned_harts :=
                    sbi_hartmask_clear_hartindex i (assigned_harts td)\<rparr>) g
                | None \<Rightarrow> g);
           g = sbi_update_hartindex_to_domain i d g;
           g = upd_domain d (\<lambda>dm. dm\<lparr>assigned_harts := sbi_hartmask_set_hartindex i (assigned_harts dm)\<rparr>) g
       in if sbi_hartindex_to_hartid (scratch_tab g) (of_nat i) = cold_hartid
             \<and> boot_hartid (domains g d) \<noteq> cold_hartid
          then upd_domain d (\<lambda>dm. dm\<lparr>boot_hartid := cold_hartid\<rparr>) g
          else g)"

text \<open>
  \<open>sbi_domain_register\<close>; \<open>setup_data\<close> is the result of \<open>sbi_domain_setup_data\<close>, which runs the
  data callbacks of other components.
\<close>

definition sbi_domain_register ::
  "(nat \<Rightarrow> int) \<Rightarrow> u32 \<Rightarrow> nat option \<Rightarrow> sbi_hartmask option \<Rightarrow> domain_globals \<Rightarrow> int \<times> domain_globals" where
  "sbi_domain_register setup_data cold_hartid dp assign_mask g =
    (case (dp, assign_mask) of
      (Some d, Some msk) \<Rightarrow>
        if domain_finalized g then (SBI_EINVAL, g)
        else if d \<in> set (domain_list g) then (SBI_EALREADY, g)
        else (case sanitize_domain (scratch_tab g) (domains g d) of (rc, dm) \<Rightarrow>
          let g = upd_domain d (\<lambda>_. dm) g
          in if rc \<noteq> 0 then (rc, g)
             else
               let g = g\<lparr>domain_list := domain_list g @ [d]\<rparr>;
                   g = upd_domain d (\<lambda>dm. dm\<lparr>dom_index := domain_count g\<rparr>) g;
                   g = g\<lparr>domain_count := domain_count g + 1\<rparr>;
                   g = upd_domain d (\<lambda>dm. dm\<lparr>assigned_harts := sbi_hartmask_clear_all (assigned_harts dm)\<rparr>) g;
                   g = fold (register_hart cold_hartid d) (sbi_hartmask_for_each_hartindex msk) g;
                   rc = setup_data d
               in if rc \<noteq> 0 then (rc, g\<lparr>domain_list := remove1 d (domain_list g)\<rparr>) else (0, g))
    | _ \<Rightarrow> (SBI_EINVAL, g))"

subsection \<open>The regions of the root domain\<close>

text \<open>The shift \<open>while (nreg1->order) { *nreg1 = nreg1[1]; nreg1++; }\<close>, within the array.\<close>

function shift_down :: "nat \<Rightarrow> sbi_domain_memregion list \<Rightarrow> sbi_domain_memregion list" where
  "shift_down i regs =
    (if i + 1 < length regs \<and> order (regs ! i) \<noteq> 0 then shift_down (i + 1) (regs[i := regs ! (i + 1)])
     else regs)"
  by pat_completeness auto
termination
  by (relation "measure (\<lambda>(i, regs). length regs - i)") auto

declare shift_down.simps [simp del]

definition can_merge :: "sbi_domain_memregion \<Rightarrow> sbi_domain_memregion \<Rightarrow> bool" where
  "can_merge nreg nreg1 \<longleftrightarrow> order nreg1 \<noteq> 0 \<and>
    base nreg AND (BIT (order nreg + 1) - 1) = 0 \<and>
    base nreg + BIT (order nreg) = base nreg1 \<and>
    order nreg = order nreg1 \<and> flags nreg = flags nreg1"

lemma length_shift_down [simp]: "length (shift_down i regs) = length regs"
  by (induction i regs rule: shift_down.induct) (subst shift_down.simps, simp)

function merge_pass ::
  "nat \<Rightarrow> sbi_domain_memregion list \<Rightarrow> nat \<Rightarrow> bool \<Rightarrow> sbi_domain_memregion list \<times> nat \<times> bool" where
  "merge_pass k regs cnt merged =
    (if k + 1 < length regs \<and> order (regs ! k) \<noteq> 0 then
       if can_merge (regs ! k) (regs ! (k + 1)) then
         merge_pass (k + 1)
           (shift_down (k + 1) (regs[k := (regs ! k)\<lparr>order := order (regs ! k) + 1\<rparr>])) (cnt - 1) True
       else merge_pass (k + 1) regs cnt merged
     else (regs, cnt, merged))"
  by pat_completeness auto
termination
  by (relation "measure (\<lambda>(k, regs, cnt, merged). length regs - k)") auto

declare merge_pass.simps [simp del]

text \<open>The \<open>do ... while (reg_merged)\<close> loop.\<close>

partial_function (option) root_merge_loop ::
  "scratch_globals \<Rightarrow> sbi_domain \<Rightarrow> nat \<Rightarrow> (int \<times> sbi_domain \<times> nat) option" where
  "root_merge_loop g dm cnt =
    (case sanitize_domain g dm of (rc, dm) \<Rightarrow>
      if rc \<noteq> 0 then Some (rc, dm, cnt)
      else (case merge_pass 0 (the (regions dm)) cnt False of (regs, cnt, merged) \<Rightarrow>
        if merged then root_merge_loop g (dm\<lparr>regions := Some regs\<rparr>) cnt
        else Some (0, dm\<lparr>regions := Some regs\<rparr>, cnt)))"

definition root_add_memregion ::
  "sbi_domain_memregion \<Rightarrow> domain_globals \<Rightarrow> (int \<times> domain_globals) option" where
  "root_add_memregion reg g =
    (case regions (domains g root_dom) of
      None \<Rightarrow> Some (SBI_EINVAL, g)
    | Some regs \<Rightarrow>
        if domain_finalized g \<or> ROOT_REGION_MAX \<le> root_memregs_count g then Some (SBI_EINVAL, g)
        else if list_ex (is_region_compatible reg) (memregions regs) then Some (0, g)
        else
          let n = root_memregs_count g;
              regs = regs[n := reg, n + 1 := (regs ! (n + 1))\<lparr>order := 0\<rparr>]
          in map_option (\<lambda>(rc, dm, cnt).
               (rc, (upd_domain root_dom (\<lambda>_. dm) g)\<lparr>root_memregs_count := cnt\<rparr>))
             (root_merge_loop (scratch_tab g) ((domains g root_dom)\<lparr>regions := Some regs\<rparr>) (n + 1)))"

partial_function (option) root_add_memrange_loop ::
  "ulong \<Rightarrow> ulong \<Rightarrow> ulong \<Rightarrow> ulong \<Rightarrow> domain_globals \<Rightarrow> (int \<times> domain_globals) option" where
  "root_add_memrange_loop pos en align region_flags g =
    (if pos < en then
       let rsize = (if pos AND (align - 1) \<noteq> 0 then BIT (sbi_ffs pos)
                    else if en - pos < align then en - pos else align);
           reg = sbi_domain_memregion_init pos rsize region_flags
       in Option.bind (root_add_memregion reg g) (\<lambda>(rc, g).
            if rc \<noteq> 0 then Some (rc, g) else root_add_memrange_loop (pos + rsize) en align region_flags g)
     else Some (0, g))"

definition sbi_domain_root_add_memrange ::
  "ulong \<Rightarrow> ulong \<Rightarrow> ulong \<Rightarrow> ulong \<Rightarrow> domain_globals \<Rightarrow> (int \<times> domain_globals) option" where
  "sbi_domain_root_add_memrange addr sz align region_flags g =
    root_add_memrange_loop addr (addr + sz) align region_flags g"

text \<open>\<open>sbi_domain_finalize\<close>; \<open>domains_init\<close> is the platform's callback.\<close>

definition sbi_domain_finalize ::
  "(domain_globals \<Rightarrow> int \<times> domain_globals) \<Rightarrow> domain_globals \<Rightarrow> int \<times> domain_globals" where
  "sbi_domain_finalize domains_init g =
    (if domain_finalized g then (SBI_EINVAL, g)
     else (case domains_init g of (rc, g) \<Rightarrow>
       if rc \<noteq> 0 then (rc, g) else (0, g\<lparr>domain_finalized := True\<rparr>)))"

end
