(* ===== verification/Sbi_Domain_Check.thy ===== *)
theory Sbi_Domain_Check
  imports Sbi_Domain
begin

text \<open>
  What the checks of \<open>sbi_domain.c\<close> decide. A valid region is an aligned power-of-two block of
  addresses, so two regions are nested or disjoint; with the regions sorted by
  \<open>is_region_before\<close>, the first region that holds an address is the smallest one, and
  \<open>sbi_domain_check_addr_range\<close> may jump from region border to region border.
\<close>

subsection \<open>Regions as sets of addresses\<close>

definition rset :: "sbi_domain_memregion \<Rightarrow> nat set" where
  "rset r = {unat (base r)..<unat (base r) + 2 ^ order r}"

lemma and_mask_0_iff:
  assumes "k < 64"
  shows "(w :: ulong) AND (BIT k - 1) = 0 \<longleftrightarrow> 2 ^ k dvd unat w"
proof -
  have "w AND (BIT k - 1) = take_bit k w"
    using assms by (simp add: BIT_2p take_bit_eq_mask mask_eq_exp_minus_1)
  moreover have "unat (take_bit k w) = unat w mod 2 ^ k"
    by (simp add: unsigned_take_bit_eq flip: take_bit_eq_mod)
  ultimately show ?thesis by (metis dvd_eq_mod_eq_0 unat_eq_zero)
qed

lemma valid_region:
  assumes "is_region_valid r"
  shows "3 \<le> order r" and "order r \<le> 64" and "2 ^ order r dvd unat (base r)"
    and "unat (base r) + 2 ^ order r \<le> 2 ^ 64"
proof -
  show o: "3 \<le> order r" "order r \<le> 64" using assms by (auto simp: is_region_valid_def split: if_splits)
  show d: "2 ^ order r dvd unat (base r)"
  proof (cases "order r = 64")
    case True
    then show ?thesis using assms by (auto simp: is_region_valid_def split: if_splits)
  next
    case False
    then show ?thesis using assms o and_mask_0_iff [of "order r" "base r"]
      by (auto simp: is_region_valid_def split: if_splits)
  qed
  show "unat (base r) + 2 ^ order r \<le> 2 ^ 64"
  proof (cases "order r = 64")
    case True
    then show ?thesis using assms by (auto simp: is_region_valid_def split: if_splits)
  next
    case False
    then show ?thesis using d o unat_ulong_lt [of "base r"]
      by (intro multiple_le_2p [of "order r"]) auto
  qed
qed

lemma unat_region_last:
  assumes "is_region_valid r" and "order r < 64"
  shows "unat (base r + (BIT (order r) - 1)) = unat (base r) + (2 ^ order r - 1)"
proof -
  have "unat (BIT (order r)) = 2 ^ order r" using assms(2) by (rule unat_BIT)
  then have "unat (BIT (order r) - 1) = 2 ^ order r - 1" by (subst unat_pred_word) simp_all
  moreover have "unat (base r) + (2 ^ order r - 1) < 2 ^ 64"
  proof -
    have "0 < (2::nat) ^ order r" by simp
    then show ?thesis using valid_region(4) [OF assms(1)] by linarith
  qed
  ultimately show ?thesis by (simp add: unat_add_nowrap)
qed

lemma in_region_iff: "is_region_valid r \<Longrightarrow> in_region r a \<longleftrightarrow> unat a \<in> rset r"
proof (cases "order r = 64")
  case True
  assume "is_region_valid r"
  then have "base r = 0" using True by (auto simp: is_region_valid_def split: if_splits)
  then show ?thesis using True unat_ulong_lt [of a]
    by (auto simp: in_region_def region_end_def rset_def)
next
  case False
  assume v: "is_region_valid r"
  then have o: "order r < 64" using valid_region(2) [OF v] False by simp
  obtain m where "(2::nat) ^ order r = Suc m" using not0_implies_Suc by force
  then show ?thesis
    using unat_region_last [OF v o] o
    by (auto simp: in_region_def region_end_def rset_def word_le_nat_alt)
qed

text \<open>Two aligned power-of-two blocks that meet are nested.\<close>

lemma region_nested:
  assumes "is_region_valid s" and "is_region_valid r" and "order s \<le> order r"
    and "x \<in> rset s" and "x \<in> rset r"
  shows "rset s \<subseteq> rset r"
proof -
  obtain p q where p: "unat (base s) = 2 ^ order s * p" and q: "unat (base r) = 2 ^ order r * q"
    using valid_region(3) assms(1,2) by (meson dvdE)
  let ?m = "2 ^ (order r - order s) :: nat" and ?n = "2 ^ order s :: nat"
  have r: "(2::nat) ^ order r = ?n * ?m" using assms(3) by (simp flip: power_add)
  have x: "?n * p \<le> x" "x < ?n * p + ?n" "?n * (?m * q) \<le> x" "x < ?n * (?m * q) + ?n * ?m"
    using assms(4,5) by (auto simp: rset_def p q r mult.assoc)
  have dp: "x div ?n = p" using x(1,2) by (intro div_nat_eqI) (simp_all add: algebra_simps)
  have "?m * q \<le> x div ?n"
    using div_le_mono [OF x(3), of ?n] by simp
  moreover have "x div ?n < ?m * q + ?m"
    using x(4) by (intro less_mult_imp_div_less) (simp add: algebra_simps)
  ultimately have "?m * q \<le> p" "p + 1 \<le> ?m * q + ?m" using dp by simp_all
  then have "?n * (?m * q) \<le> ?n * p" "?n * (p + 1) \<le> ?n * (?m * q + ?m)" by (intro mult_le_mono2, simp)+
  then show ?thesis by (auto simp: rset_def p q r algebra_simps)
qed

lemma region_subset_iff:
  assumes s: "is_region_valid s" "order s < 64" and r: "is_region_valid r" "order r < 64"
  shows "is_region_subset s r \<longleftrightarrow> rset s \<subseteq> rset r"
proof -
  have n: "8 \<le> (2::nat) ^ order s" "8 \<le> (2::nat) ^ order r"
    using valid_region(1) [OF s(1)] valid_region(1) [OF r(1)]
      power_increasing [of 3 "order s" "2::nat"] power_increasing [of 3 "order r" "2::nat"] by auto
  show ?thesis (is "?l = ?r")
  proof
    assume ?l
    then show ?r using unat_region_last [OF s] unat_region_last [OF r] n
      by (auto simp: is_region_subset_def Let_def rset_def word_le_nat_alt word_less_nat_alt)
  next
    assume r': ?r
    obtain m where "(2::nat) ^ order s = Suc m" using not0_implies_Suc by force
    then have "unat (base s) \<in> rset s" "unat (base s) + (2 ^ order s - 1) \<in> rset s"
      by (auto simp: rset_def)
    then have "unat (base s) \<in> rset r" "unat (base s) + (2 ^ order s - 1) \<in> rset r" using r' by auto
    then show ?l using unat_region_last [OF s] unat_region_last [OF r] n
      by (auto simp: is_region_subset_def Let_def rset_def word_le_nat_alt word_less_nat_alt)
  qed
qed

subsection \<open>The sort\<close>

definition region_le :: "sbi_domain_memregion \<Rightarrow> sbi_domain_memregion \<Rightarrow> bool" where
  "region_le a b \<longleftrightarrow> \<not> is_region_before b a"

lemma region_le_iff:
  "region_le a b \<longleftrightarrow> order a < order b \<or> order a = order b \<and> base a \<le> base b"
  by (auto simp: region_le_def is_region_before_def)

lemma region_le_refl [simp]: "region_le a a"
  by (simp add: region_le_iff)

lemma region_le_trans: "region_le a b \<Longrightarrow> region_le b c \<Longrightarrow> region_le a c"
  by (auto simp: region_le_iff)

lemma length_swap [simp]: "length (swap_region i j regs) = length regs"
  by (simp add: swap_region_def)

lemma length_sort_inner [simp]: "length (sort_inner i js regs) = length regs"
  by (induction js arbitrary: regs) auto

lemma mset_swap_region: "i < length regs \<Longrightarrow> j < length regs \<Longrightarrow> mset (swap_region i j regs) = mset regs"
  by (simp add: swap_region_def mset_swap)

lemma mset_sort_inner:
  "i < length regs \<Longrightarrow> \<forall>j \<in> set js. j < length regs \<Longrightarrow> mset (sort_inner i js regs) = mset regs"
  by (induction js arbitrary: regs) (auto simp: mset_swap_region)

lemma sort_inner_frame:
  "k \<notin> insert i (set js) \<Longrightarrow> sort_inner i js regs ! k = regs ! k"
  by (induction js arbitrary: regs) (auto simp: swap_region_def)

lemma sort_inner_mem:
  assumes "k \<in> insert i (set js)" and "i < length regs" and "\<forall>j \<in> set js. j < length regs"
  shows "\<exists>c \<in> insert i (set js). sort_inner i js regs ! k = regs ! c"
  using assms
proof (induction js arbitrary: regs)
  case (Cons j js)
  let ?r = "if is_region_before (regs ! j) (regs ! i) then swap_region i j regs else regs"
  have step: "\<exists>c \<in> insert i (set (j # js)). ?r ! k' = regs ! c" if "k' \<in> insert i (set (j # js))" for k'
    using that Cons.prems(2,3) by (auto simp: swap_region_def nth_list_update)
  show ?case
  proof (cases "k \<in> insert i (set js)")
    case True
    have "\<exists>c \<in> insert i (set js). sort_inner i js ?r ! k = ?r ! c"
      using Cons.prems by (intro Cons.IH [OF True]) auto
    then obtain c where "c \<in> insert i (set js)" "sort_inner i js ?r ! k = ?r ! c" by blast
    then show ?thesis using step [of c] by auto
  next
    case False
    then show ?thesis using step [of k] Cons.prems(1) sort_inner_frame [of k i js ?r] by simp
  qed
qed simp

lemma sort_inner_le:
  assumes "i < length regs" and "\<forall>j \<in> set js. j < length regs" and "distinct js" and "i \<notin> set js"
  shows "region_le (sort_inner i js regs ! i) (regs ! i) \<and>
    (\<forall>j \<in> set js. region_le (sort_inner i js regs ! i) (sort_inner i js regs ! j))"
  using assms
proof (induction js arbitrary: regs)
  case (Cons j js)
  define r where "r = (if is_region_before (regs ! j) (regs ! i) then swap_region i j regs else regs)"
  have l: "length r = length regs" by (simp add: r_def)
  have IH: "region_le (sort_inner i js r ! i) (r ! i)"
    "\<forall>j \<in> set js. region_le (sort_inner i js r ! i) (sort_inner i js r ! j)"
    using Cons.IH [of r] Cons.prems l by auto
  have ij: "i \<noteq> j" using Cons.prems by auto
  have j: "sort_inner i js r ! j = r ! j" using sort_inner_frame [of j i js r] Cons.prems ij by simp
  have "region_le (r ! i) (regs ! i)" "region_le (r ! i) (r ! j)"
    using Cons.prems ij by (auto simp: r_def swap_region_def nth_list_update region_le_iff is_region_before_def
      split: if_splits)
  then show ?case using IH j unfolding sort_inner.simps r_def [symmetric] by (auto intro: region_le_trans)
qed simp

lemma sort_regions_invariant:
  assumes cnt: "cnt \<le> length regs" and n: "n \<le> cnt - 1"
  defines "r \<equiv> fold (\<lambda>i. sort_inner i [i + 1..<cnt]) [0..<n] regs"
  shows "mset r = mset regs \<and> length r = length regs \<and> (\<forall>k \<ge> cnt. r ! k = regs ! k) \<and>
    (\<forall>a < n. \<forall>b. a < b \<longrightarrow> b < cnt \<longrightarrow> region_le (r ! a) (r ! b))"
  using n unfolding r_def
proof (induction n)
  case (Suc n)
  let ?r = "fold (\<lambda>i. sort_inner i [i + 1..<cnt]) [0..<n] regs"
  let ?s = "sort_inner n [n + 1..<cnt] ?r"
  have IH: "mset ?r = mset regs" "length ?r = length regs" "\<forall>k \<ge> cnt. ?r ! k = regs ! k"
    "\<forall>a < n. \<forall>b. a < b \<longrightarrow> b < cnt \<longrightarrow> region_le (?r ! a) (?r ! b)"
    using Suc by simp_all
  have n: "n < length ?r" "\<forall>j \<in> set [n + 1..<cnt]. j < length ?r" "n < cnt - 1"
    using Suc.prems cnt IH(2) by auto
  have le: "\<forall>j \<in> set [n + 1..<cnt]. region_le (?s ! n) (?s ! j)"
    using sort_inner_le [OF n(1,2)] by simp
  have "region_le (?s ! a) (?s ! b)" if ab: "a < Suc n" "a < b" "b < cnt" for a b
  proof (cases "a = n")
    case True
    then show ?thesis using le ab by simp
  next
    case False
    then have a: "a < n" "?s ! a = ?r ! a" using ab sort_inner_frame [of a n "[n + 1..<cnt]" ?r] by auto
    show ?thesis
    proof (cases "b < n")
      case True
      then show ?thesis using a ab IH(4) sort_inner_frame [of b n "[n + 1..<cnt]" ?r] by simp
    next
      case False
      then have "b \<in> insert n (set [n + 1..<cnt])" using ab by auto
      then have "\<exists>c \<in> insert n (set [n + 1..<cnt]). ?s ! b = ?r ! c" using n(1,2) by (rule sort_inner_mem)
      then obtain c where "c \<in> insert n (set [n + 1..<cnt])" "?s ! b = ?r ! c" by blast
      then show ?thesis using a IH(4) n(3) by auto
    qed
  qed
  moreover have "?s ! k = regs ! k" if "cnt \<le> k" for k
    using that n(3) IH(3) sort_inner_frame [of k n "[n + 1..<cnt]" ?r] by simp
  ultimately show ?case using IH mset_sort_inner [OF n(1,2)] by simp
qed simp

lemma sort_regions_correct:
  assumes "cnt \<le> length regs"
  shows "mset (sort_regions cnt regs) = mset regs" and "length (sort_regions cnt regs) = length regs"
    and "drop cnt (sort_regions cnt regs) = drop cnt regs"
    and "sorted_wrt region_le (take cnt (sort_regions cnt regs))"
    and "mset (take cnt (sort_regions cnt regs)) = mset (take cnt regs)"
proof -
  let ?r = "sort_regions cnt regs"
  note inv = sort_regions_invariant [OF assms order.refl, folded sort_regions_def]
  show m: "mset ?r = mset regs" and l: "length ?r = length regs" using inv by auto
  show d: "drop cnt ?r = drop cnt regs" using inv by (intro nth_equalityI) auto
  have "region_le (?r ! a) (?r ! b)" if "a < b" "b < cnt" for a b using inv that by auto
  then show "sorted_wrt region_le (take cnt ?r)" by (auto simp: sorted_wrt_iff_nth_less)
  have "mset (take cnt ?r) + mset (drop cnt ?r) = mset (take cnt regs) + mset (drop cnt regs)"
    using m by (metis append_take_drop_id mset_append)
  then show "mset (take cnt ?r) = mset (take cnt regs)" using d by simp
qed

subsection \<open>Sanitised domains\<close>

lemma remove_covered_dead [simp]: "remove_covered (cnt - Suc 0) cnt regs = regs"
  by (simp add: remove_covered.simps)

lemma memregions_take: "memregions regs = take (length (memregions regs)) regs"
  by (simp add: memregions_def takeWhile_eq_take [symmetric])

lemma memregions_order: "r \<in> set (memregions regs) \<Longrightarrow> order r \<noteq> 0"
  by (auto simp: memregions_def dest: set_takeWhileD)

lemma length_memregions: "length (memregions regs) \<le> length regs"
  by (simp add: memregions_def length_takeWhile_le)

lemma takeWhile_dropWhile_Nil: "takeWhile P (dropWhile P xs) = []"
  by (induction xs) auto

lemma memregions_sort:
  "memregions (sort_regions (length (memregions regs)) regs) =
    take (length (memregions regs)) (sort_regions (length (memregions regs)) regs)"
proof -
  define n where "n = length (memregions regs)"
  define r where "r = sort_regions n regs"
  have n: "n \<le> length regs" by (simp add: n_def length_memregions)
  note c = sort_regions_correct [OF n, folded r_def]
  have t: "take n regs = memregions regs" using memregions_take [of regs] by (simp add: n_def)
  have "set (take n r) = set (memregions regs)" using mset_eq_setD [OF c(5)] t by simp
  then have nz: "\<forall>x \<in> set (take n r). order x \<noteq> 0" using memregions_order by auto
  have "takeWhile (\<lambda>r. order r \<noteq> 0) (drop n r) = []"
  proof -
    have "takeWhile (\<lambda>r. order r \<noteq> 0) (drop n regs) = []"
      unfolding n_def memregions_def dropWhile_eq_drop [symmetric]
      by (rule takeWhile_dropWhile_Nil)
    then show ?thesis using c(3) by simp
  qed
  then have "takeWhile (\<lambda>r. order r \<noteq> 0) (take n r @ drop n r) = take n r"
    using nz by (subst takeWhile_append2) auto
  then show ?thesis by (simp add: memregions_def [of "sort_regions _ _"] r_def n_def)
qed

text \<open>What a successful \<open>sanitize_domain\<close> establishes.\<close>

definition sane_regions :: "sbi_domain_memregion list \<Rightarrow> bool" where
  "sane_regions rs \<longleftrightarrow> sorted_wrt region_le rs \<and> (\<forall>r \<in> set rs. is_region_valid r)"

lemma sanitize_ok:
  assumes "sanitize_domain g dm = (0, dm')"
  shows "sane_regions (sbi_domain_for_each_memregion dm')"
    and "mset (sbi_domain_for_each_memregion dm') = mset (sbi_domain_for_each_memregion dm)"
    and "dm' = dm\<lparr>regions := regions dm'\<rparr>"
    and "dom_next_mode dm' = PRV_S \<or> dom_next_mode dm' = PRV_U"
    and "sbi_domain_check_addr (Some dm') (dom_next_addr dm') (dom_next_mode dm') SBI_DOMAIN_EXECUTE"
    and "fw_region_inited dm'"
    and "\<exists>hm. possible_harts dm' = Some hm \<and> (\<forall>i \<in> hartset hm. sbi_hartindex_valid g (of_nat i))"
proof -
  obtain hm regs where hm: "possible_harts dm = Some hm" and regs: "regions dm = Some regs"
    using assms by (auto simp: sanitize_domain_def split: option.splits if_splits)
  let ?n = "length (memregions regs)"
  have v: "\<forall>r \<in> set (memregions regs). is_region_valid r" and
    h: "\<forall>i \<in> hartset hm. sbi_hartindex_valid g (of_nat i)" and fw: "fw_region_inited dm" and
    d: "dm' = dm\<lparr>regions := Some (sort_regions ?n regs)\<rparr>" and
    m: "dom_next_mode dm' = PRV_S \<or> dom_next_mode dm' = PRV_U" and
    c: "sbi_domain_check_addr (Some dm') (dom_next_addr dm') (dom_next_mode dm') SBI_DOMAIN_EXECUTE"
    using assms
    by (auto simp: sanitize_domain_def hm regs Let_def list_all_iff
        simp del: SBI_DOMAIN_EXECUTE_def PRV_S_def PRV_U_def split: if_splits)
  note s = sort_regions_correct [OF length_memregions [of regs]]
  have e: "sbi_domain_for_each_memregion dm' = take ?n (sort_regions ?n regs)"
    by (simp add: sbi_domain_for_each_memregion_def d memregions_sort)
  have e0: "sbi_domain_for_each_memregion dm = memregions regs"
    by (simp add: sbi_domain_for_each_memregion_def regs)
  have t: "take ?n regs = memregions regs" by (rule memregions_take [symmetric])
  show ms: "mset (sbi_domain_for_each_memregion dm') = mset (sbi_domain_for_each_memregion dm)"
    using s(5) by (simp add: e e0 t)
  then have "set (sbi_domain_for_each_memregion dm') = set (memregions regs)"
    using e0 by (metis mset_eq_setD)
  then show "sane_regions (sbi_domain_for_each_memregion dm')" using s(4) v by (simp add: sane_regions_def e)
  show "dm' = dm\<lparr>regions := regions dm'\<rparr>" by (simp add: d)
  show "fw_region_inited dm'" using fw by (simp add: d)
  show "\<exists>hm. possible_harts dm' = Some hm \<and> (\<forall>i \<in> hartset hm. sbi_hartindex_valid g (of_nat i))"
    using hm h by (simp add: d)
  show "dom_next_mode dm' = PRV_S \<or> dom_next_mode dm' = PRV_U" by (rule m)
  show "sbi_domain_check_addr (Some dm') (dom_next_addr dm') (dom_next_mode dm') SBI_DOMAIN_EXECUTE" by (rule c)
qed

subsection \<open>The address checks\<close>

lemma find_region_loop_Some:
  "find_region_loop rs a = Some k \<longleftrightarrow> k < length rs \<and> in_region (rs ! k) a \<and> (\<forall>j < k. \<not> in_region (rs ! j) a)"
proof (induction rs arbitrary: k)
  case (Cons r rs)
  show ?case
  proof (cases k)
    case 0
    then show ?thesis by (auto split: if_splits)
  next
    case (Suc m)
    then show ?thesis using Cons.IH [of m] by (auto simp: less_Suc_eq_0_disj split: if_splits)
  qed
qed simp

lemma find_region_loop_None: "find_region_loop rs a = None \<longleftrightarrow> (\<forall>r \<in> set rs. \<not> in_region r a)"
  by (induction rs) auto

lemma check_addr_loop_eq:
  "check_addr_loop rs a mode fl =
    (case find_region_loop rs a of Some k \<Rightarrow> region_allows (rs ! k) mode fl | None \<Rightarrow> mode = PRV_M)"
  by (induction rs) (auto split: option.splits)

lemma check_addr_find:
  "sbi_domain_check_addr (Some dm) a mode fl =
    (case find_region dm a of Some k \<Rightarrow> region_allows (sbi_domain_for_each_memregion dm ! k) mode fl
     | None \<Rightarrow> mode = PRV_M)"
  by (simp add: sbi_domain_check_addr_def find_region_def check_addr_loop_eq)

text \<open>Among sane regions the deciding one is the smallest region that holds the address.\<close>

lemma find_region_smallest:
  assumes "sane_regions rs" and "find_region_loop rs a = Some k" and "r \<in> set rs" and "in_region r a"
  shows "rset (rs ! k) \<subseteq> rset r"
proof -
  obtain j where j: "j < length rs" "r = rs ! j" using assms(3) by (auto simp: in_set_conv_nth)
  have k: "k < length rs" "in_region (rs ! k) a" "\<forall>j < k. \<not> in_region (rs ! j) a"
    using assms(2) by (auto simp: find_region_loop_Some)
  have v: "is_region_valid (rs ! k)" "is_region_valid r"
    using assms(1,3) k(1) by (auto simp: sane_regions_def)
  have "k \<le> j" using k(3) j assms(4) by (metis not_le)
  then have "k = j \<or> region_le (rs ! k) (rs ! j)"
    using assms(1) j sorted_wrt_nth_less [of region_le rs k j] by (auto simp: sane_regions_def le_less)
  then have "order (rs ! k) \<le> order r" using j by (auto simp: region_le_iff)
  then show ?thesis
    using region_nested [OF v] in_region_iff v k(2) assms(4) by auto
qed

subsection \<open>The range check\<close>

fun subset_cand ::
  "sbi_domain_memregion list \<Rightarrow> nat \<Rightarrow> nat \<Rightarrow> sbi_domain_memregion \<Rightarrow> ulong \<Rightarrow> sbi_domain_memregion set" where
  "subset_cand [] j k reg addr = {}"
| "subset_cand (s # rs) j k reg addr =
    (if j \<noteq> k \<and> addr < base s \<and> is_region_subset s reg then {s} else {}) \<union> subset_cand rs (j + 1) k reg addr"

lemma subset_cand_nth:
  "i < length rs \<Longrightarrow> j + i \<noteq> k \<Longrightarrow> addr < base (rs ! i) \<Longrightarrow> is_region_subset (rs ! i) reg \<Longrightarrow>
    rs ! i \<in> subset_cand rs j k reg addr"
proof (induction rs arbitrary: i j)
  case (Cons s rs)
  then show ?case by (cases i) auto
qed simp

lemma subset_cand_D:
  "m \<in> subset_cand rs j k reg addr \<Longrightarrow> m \<in> set rs \<and> addr < base m \<and> is_region_subset m reg"
  by (induction rs arbitrary: j) (auto split: if_splits)

text \<open>\<open>find_next_subset_region\<close> returns a candidate with the least base, if there is one.\<close>

lemma next_subset_loop_spec:
  "case next_subset_loop rs j k reg addr ret of
     None \<Rightarrow> ret = None \<and> subset_cand rs j k reg addr = {}
   | Some m \<Rightarrow> m \<in> set_option ret \<union> subset_cand rs j k reg addr \<and>
       (\<forall>c \<in> set_option ret \<union> subset_cand rs j k reg addr. base m \<le> base c)"
proof (induction rs j k reg addr ret rule: next_subset_loop.induct)
  case (1 j k reg addr ret)
  then show ?case by (simp split: option.splits)
next
  case (2 s rs j k reg addr ret)
  show ?case
  proof (cases "j = k \<or> base s \<le> addr \<or> \<not> is_region_subset s reg")
    case True
    then show ?thesis using 2(1) [OF True] by (auto simp: not_le split: option.splits)
  next
    case False
    then have "j \<noteq> k" "addr < base s" "is_region_subset s reg" by auto
    then show ?thesis using 2(2) [OF False]
      by (cases ret) (auto split: option.splits if_splits)
  qed
qed

lemma find_next_subset_spec:
  fixes dm :: sbi_domain
  defines "rs \<equiv> sbi_domain_for_each_memregion dm"
  shows "find_next_subset_region dm k addr = None \<Longrightarrow> subset_cand rs 0 k (rs ! k) addr = {}"
    and "find_next_subset_region dm k addr = Some m \<Longrightarrow>
      m \<in> subset_cand rs 0 k (rs ! k) addr \<and> (\<forall>c \<in> subset_cand rs 0 k (rs ! k) addr. base m \<le> base c)"
  using next_subset_loop_spec [where rs = rs and j = 0 and k = k and reg = "rs ! k" and addr = addr and ret = None]
  by (auto simp: find_next_subset_region_def Let_def rs_def split: option.splits)

definition small_regions :: "sbi_domain_memregion list \<Rightarrow> bool" where
  "small_regions rs \<longleftrightarrow> (\<forall>r \<in> set rs. order r < 64)"

text \<open>Between \<open>addr\<close> and the next border the deciding region does not change.\<close>

lemma same_region:
  assumes sane: "sane_regions rs" and small: "small_regions rs" and k: "find_region_loop rs addr = Some k"
    and x: "addr \<le> x" "in_region (rs ! k) x"
    and none: "\<forall>c \<in> subset_cand rs 0 k (rs ! k) addr. x < base c"
  shows "find_region_loop rs x = Some k"
proof -
  have kk: "k < length rs" "in_region (rs ! k) addr" "\<forall>j < k. \<not> in_region (rs ! j) addr"
    using k by (auto simp: find_region_loop_Some)
  have "\<not> in_region (rs ! j) x" if j: "j < k" for j
  proof
    assume jx: "in_region (rs ! j) x"
    have v: "is_region_valid (rs ! j)" "is_region_valid (rs ! k)" "order (rs ! j) < 64" "order (rs ! k) < 64"
      using sane small j kk(1) by (auto simp: sane_regions_def small_regions_def)
    have "region_le (rs ! j) (rs ! k)"
      using sane j kk(1) sorted_wrt_nth_less [of region_le rs j k] by (simp add: sane_regions_def)
    then have "order (rs ! j) \<le> order (rs ! k)" by (auto simp: region_le_iff)
    then have "rset (rs ! j) \<subseteq> rset (rs ! k)"
      using region_nested [OF v(1,2)] jx x(2) in_region_iff v by blast
    then have "is_region_subset (rs ! j) (rs ! k)" using region_subset_iff [OF v(1,3) v(2,4)] by simp
    moreover have "addr < base (rs ! j)"
      using jx kk(3) j x(1) by (meson in_region_def not_le order.trans)
    ultimately have "rs ! j \<in> subset_cand rs 0 k (rs ! k) addr"
      using j kk(1) by (intro subset_cand_nth) auto
    then have "x < base (rs ! j)" using none by blast
    then show False using jx by (auto simp: in_region_def)
  qed
  then show ?thesis using kk(1) x(2) by (simp add: find_region_loop_Some)
qed

lemma unat_region_next:
  assumes "is_region_valid r" and "order r < 64" and "unat x \<in> rset r \<or> \<not> unat x < unat (base r) + 2 ^ order r"
    and "\<not> unat x \<in> rset r"
  shows "base r + BIT (order r) \<le> x"
proof -
  have ge: "unat (base r) + 2 ^ order r \<le> unat x" using assms(3,4) by auto
  then have "unat (base r) + unat (BIT (order r)) < 2 ^ 64"
    using unat_ulong_lt [of x] by (simp add: unat_BIT [OF assms(2)])
  then have "unat (base r + BIT (order r)) = unat (base r) + 2 ^ order r"
    by (simp add: unat_add_nowrap unat_BIT [OF assms(2)])
  then show ?thesis using ge by (simp add: word_le_nat_alt)
qed

lemma check_range_step:
  assumes sane: "sane_regions (sbi_domain_for_each_memregion dm)"
    and small: "small_regions (sbi_domain_for_each_memregion dm)"
    and k: "find_region dm addr = Some k" and c: "sbi_domain_check_addr (Some dm) addr mode fl"
    and x: "addr \<le> x"
    and next1: "\<And>s. find_next_subset_region dm k addr = Some s \<Longrightarrow> x < base s"
    and next2: "find_next_subset_region dm k addr = None \<Longrightarrow>
      \<not> base (sbi_domain_for_each_memregion dm ! k) + BIT (order (sbi_domain_for_each_memregion dm ! k)) \<le> x"
  shows "sbi_domain_check_addr (Some dm) x mode fl"
proof -
  let ?rs = "sbi_domain_for_each_memregion dm"
  let ?r = "?rs ! k"
  have kk: "k < length ?rs" "in_region ?r addr" using k by (auto simp: find_region_def find_region_loop_Some)
  have v: "is_region_valid ?r" "order ?r < 64" using sane small kk(1) by (auto simp: sane_regions_def small_regions_def)
  have ax: "unat (base ?r) \<le> unat x"
    using kk(2) x by (simp add: in_region_def word_le_nat_alt)
  have "unat x \<in> rset ?r"
  proof (cases "find_next_subset_region dm k addr")
    case None
    then show ?thesis using next2 unat_region_next [OF v, of x] by (auto simp: rset_def ax)
  next
    case (Some s)
    then have s: "is_region_subset s ?r" "s \<in> set ?rs" using find_next_subset_spec(2) [OF Some]
      by (auto dest: subset_cand_D)
    have vs: "is_region_valid s" "order s < 64" using s(2) sane small by (auto simp: sane_regions_def small_regions_def)
    have "unat (base s) \<in> rset s" by (simp add: rset_def)
    then have "unat (base s) \<in> rset ?r" using s(1) region_subset_iff [OF vs v] by blast
    then show ?thesis using next1 [OF Some] ax by (auto simp: rset_def word_less_nat_alt)
  qed
  then have inr: "in_region ?r x" using in_region_iff [OF v(1)] by simp
  have "\<forall>c \<in> subset_cand ?rs 0 k ?r addr. x < base c"
  proof (cases "find_next_subset_region dm k addr")
    case None
    then show ?thesis using find_next_subset_spec(1) [OF None] by simp
  next
    case (Some s)
    then show ?thesis using find_next_subset_spec(2) [OF Some] next1 [OF Some] by (auto intro: less_le_trans)
  qed
  then have "find_region dm x = Some k"
    using same_region [OF sane small _ x inr] k by (simp add: find_region_def)
  then show ?thesis using c k by (simp add: check_addr_find)
qed

lemma check_range_sound:
  assumes sane: "sane_regions (sbi_domain_for_each_memregion dm)"
    and small: "small_regions (sbi_domain_for_each_memregion dm)"
    and res: "check_range_loop dm addr mx mode fl = Some True"
    and x: "addr \<le> x" "x < mx"
  shows "sbi_domain_check_addr (Some dm) x mode fl"
proof -
  have "res \<longrightarrow> dm' = dm \<longrightarrow> (\<forall>x. addr \<le> x \<longrightarrow> x < mx \<longrightarrow> sbi_domain_check_addr (Some dm) x mode fl)"
    if "check_range_loop dm' addr mx mode fl = Some res" for dm' addr mx mode fl res
    using that
  proof (induction rule: check_range_loop.raw_induct [rotated, consumes 1])
    case (1 f dm' addr mx mode fl res)
    show ?case
    proof (intro impI allI)
      fix x assume r: "res" and d: "dm' = dm" and x: "addr \<le> x" "x < mx"
      have lt: "addr < mx" using x by auto
      obtain k where k: "find_region dm addr = Some k"
        using 1(2) r lt d by (auto split: option.splits)
      have c: "sbi_domain_check_addr (Some dm) addr mode fl"
        using 1(2) r lt d k by (auto split: if_splits)
      let ?r = "sbi_domain_for_each_memregion dm ! k"
      have o: "order ?r < 64"
        using k small by (auto simp: find_region_def find_region_loop_Some small_regions_def)
      show "sbi_domain_check_addr (Some dm) x mode fl"
      proof (rule ccontr)
        assume n: "\<not> sbi_domain_check_addr (Some dm) x mode fl"
        have "(\<exists>s. find_next_subset_region dm k addr = Some s \<and> base s \<le> x) \<or>
          find_next_subset_region dm k addr = None \<and> base ?r + BIT (order ?r) \<le> x"
          using check_range_step [OF sane small k c x(1)] n by (meson not_le)
        then show False
          using 1 r d lt k c o x n by (auto simp: Let_def)
      qed
    qed
  qed
  from this [OF res] show ?thesis using x by blast
qed

text \<open>
  The loop makes progress as long as no region of order below 64 ends at the top of the
  address space.
\<close>

definition below_top :: "sbi_domain_memregion list \<Rightarrow> bool" where
  "below_top rs \<longleftrightarrow> (\<forall>r \<in> set rs. order r < 64 \<longrightarrow> unat (base r) + 2 ^ order r < 2 ^ 64)"

lemma check_range_returns:
  assumes sane: "sane_regions (sbi_domain_for_each_memregion dm)"
    and top: "below_top (sbi_domain_for_each_memregion dm)"
  shows "\<exists>b. check_range_loop dm addr mx mode fl = Some b"
proof (induction "unat mx - unat addr" arbitrary: addr rule: less_induct)
  case less
  let ?rs = "sbi_domain_for_each_memregion dm"
  have IH: "\<exists>b. check_range_loop dm a mx mode fl = Some b" if "addr < a" "addr < mx" for a
    using less [of a] that by (auto simp: word_less_nat_alt)
  have s: "addr < base s" if "find_next_subset_region dm k addr = Some s" for s k
    using find_next_subset_spec(2) [OF that] by (auto dest: subset_cand_D)
  have e: "addr < base (?rs ! k) + BIT (order (?rs ! k))"
    if "find_region dm addr = Some k" "order (?rs ! k) < 64" for k
  proof -
    have k: "k < length ?rs" "in_region (?rs ! k) addr"
      using that(1) by (auto simp: find_region_def find_region_loop_Some)
    have v: "is_region_valid (?rs ! k)" and t: "unat (base (?rs ! k)) + 2 ^ order (?rs ! k) < 2 ^ 64"
      using sane top k(1) that(2) by (auto simp: sane_regions_def below_top_def)
    have "unat (base (?rs ! k) + BIT (order (?rs ! k))) = unat (base (?rs ! k)) + 2 ^ order (?rs ! k)"
      using t by (simp add: unat_add_nowrap unat_BIT [OF that(2)])
    moreover have "unat addr \<in> rset (?rs ! k)" using in_region_iff [OF v] k(2) by simp
    ultimately show ?thesis by (simp add: word_less_nat_alt rset_def)
  qed
  show ?case
    by (subst check_range_loop.simps) (auto simp: Let_def split: option.splits intro!: IH s e)
qed

subsection \<open>Building a region from a range\<close>

definition init_cond :: "ulong \<Rightarrow> ulong \<Rightarrow> nat \<Rightarrow> bool" where
  "init_cond addr sz k \<longleftrightarrow>
    (let b = addr AND NOT (BIT k - 1)
     in b \<le> addr \<and> addr < b + BIT k \<and> b \<le> addr + sz - 1 \<and> addr + sz - 1 < b + BIT k)"

lemma memregion_init_loop_spec:
  assumes "k \<le> 64" and "memregion_init_loop addr sz k = (b, m)"
  shows "k \<le> m \<and> m \<le> 64 \<and> (\<forall>j. k \<le> j \<longrightarrow> j < m \<longrightarrow> \<not> init_cond addr sz j) \<and>
    (if m < 64 then init_cond addr sz m \<and> b = addr AND NOT (BIT m - 1) else b = 0)"
  using assms
proof (induction addr sz k rule: memregion_init_loop.induct)
  case (1 addr sz k)
  show ?case
  proof (cases "k < 64 \<and> \<not> init_cond addr sz k")
    case True
    then have "memregion_init_loop addr sz k = memregion_init_loop addr sz (k + 1)"
      by (subst memregion_init_loop.simps) (auto simp: init_cond_def Let_def)
    moreover have "\<not> (addr AND NOT (BIT k - 1) \<le> addr \<and> addr < (addr AND NOT (BIT k - 1)) + BIT k \<and>
        addr AND NOT (BIT k - 1) \<le> addr + sz - 1 \<and> addr + sz - 1 < (addr AND NOT (BIT k - 1)) + BIT k)"
      using True by (simp add: init_cond_def Let_def)
    ultimately have "k + 1 \<le> m \<and> m \<le> 64 \<and> (\<forall>j. k + 1 \<le> j \<longrightarrow> j < m \<longrightarrow> \<not> init_cond addr sz j) \<and>
        (if m < 64 then init_cond addr sz m \<and> b = addr AND NOT (BIT m - 1) else b = 0)"
      using "1.IH" "1.prems" True by simp
    then show ?thesis using True by (metis Suc_eq_plus1 Suc_leI Suc_leD le_neq_implies_less)
  next
    case False
    then have "memregion_init_loop addr sz k = (if k < 64 then (addr AND NOT (BIT k - 1), k) else (0, k))"
      by (subst memregion_init_loop.simps) (auto simp: init_cond_def Let_def)
    then show ?thesis using "1.prems" False by (auto split: if_splits)
  qed
qed

lemma init_cond_iff:
  assumes k: "k < 64" and sz: "0 < unat sz" "unat addr + unat sz \<le> 2 ^ 64"
  defines "b \<equiv> unat addr div 2 ^ k * 2 ^ k"
  shows "init_cond addr sz k \<longleftrightarrow> unat addr + unat sz \<le> b + 2 ^ k \<and> b + 2 ^ k < 2 ^ 64"
proof -
  have ub: "unat (addr AND NOT (BIT k - 1)) = b"
    using unat_and_not_mask [OF k, of addr] by (simp add: b_def BIT_2p [OF k])
  have ul: "unat (addr + sz - 1) = unat addr + unat sz - 1"
  proof -
    have "unat (sz - 1) = unat sz - 1" using sz(1) by (rule unat_pred_word)
    then have "unat (addr + (sz - 1)) = unat addr + (unat sz - 1)"
      using sz unat_add_nowrap [of addr "sz - 1"] by simp
    then show ?thesis using sz(1) by (simp add: add_diff_eq)
  qed
  have mod: "unat addr = b + unat addr mod 2 ^ k" unfolding b_def by (rule div_mult_mod_eq [symmetric])
  have modlt: "unat addr mod 2 ^ k < 2 ^ k" by simp
  have le: "b + 2 ^ k \<le> 2 ^ 64"
    using mod unat_ulong_lt [of addr] k by (intro multiple_le_2p [of k]) (simp_all add: b_def)
  show ?thesis
  proof (cases "b + 2 ^ k = 2 ^ 64")
    case True
    then have "(addr AND NOT (BIT k - 1)) + BIT k = 0"
      using unat_word_ariths(1) [of "addr AND NOT (BIT k - 1)" "BIT k"]
      by (simp add: ub unat_BIT [OF k] unat_eq_zero)
    then show ?thesis using True by (simp add: init_cond_def Let_def)
  next
    case False
    then have lt: "b + 2 ^ k < 2 ^ 64" using le by simp
    then have "unat ((addr AND NOT (BIT k - 1)) + BIT k) = b + 2 ^ k"
      by (simp add: unat_add_nowrap ub unat_BIT [OF k])
    then have "init_cond addr sz k \<longleftrightarrow>
        b \<le> unat addr \<and> unat addr < b + 2 ^ k \<and> b \<le> unat addr + unat sz - 1 \<and> unat addr + unat sz - 1 < b + 2 ^ k"
      by (simp add: init_cond_def Let_def word_le_nat_alt word_less_nat_alt ub ul)
    then show ?thesis using lt mod modlt sz(1) by linarith
  qed
qed

lemma memregion_init_covers:
  fixes fl :: ulong
  assumes sz: "0 < unat sz" "unat addr + unat sz \<le> 2 ^ 64"
  defines "r \<equiv> sbi_domain_memregion_init addr sz fl"
  shows "{unat addr..<unat addr + unat sz} \<subseteq> rset r" and "2 ^ order r dvd unat (base r)"
    and "order r \<le> 64" and "flags r = fl"
    and "\<And>m q. m < order r \<Longrightarrow> {unat addr..<unat addr + unat sz} \<subseteq> {q * 2 ^ m..<q * 2 ^ m + 2 ^ m} \<Longrightarrow>
      q * 2 ^ m + 2 ^ m \<ge> 2 ^ 64"
proof -
  obtain b k where l: "memregion_init_loop addr sz (log2roundup sz) = (b, k)" by (metis surj_pair)
  have r: "order r = k" "base r = b" "flags r = fl"
    using l by (simp_all add: r_def sbi_domain_memregion_init_def)
  note p = memregion_init_loop_spec [OF log2roundup_least(1) l]
  show "order r \<le> 64" "flags r = fl" using p r by auto
  have ub: "unat b = unat addr div 2 ^ k * 2 ^ k" if "k < 64"
    using p that unat_and_not_mask [OF that, of addr] by (simp add: BIT_2p [OF that])
  have b0: "k = 64 \<and> b = 0" if "\<not> k < 64" using p that by simp
  show "2 ^ order r dvd unat (base r)"
    by (cases "k < 64") (simp_all add: r ub b0)
  show "{unat addr..<unat addr + unat sz} \<subseteq> rset r"
  proof (cases "k < 64")
    case True
    then have "init_cond addr sz k" using p by simp
    then have "unat addr + unat sz \<le> unat b + 2 ^ k" using init_cond_iff [OF True sz] ub [OF True] by simp
    moreover have "unat b \<le> unat addr" using ub [OF True] by (simp add: div_times_less_eq_dividend)
    ultimately show ?thesis by (auto simp: rset_def r)
  next
    case False
    then show ?thesis using b0 [OF False] sz(2) by (auto simp: rset_def r)
  qed
  fix m q assume m: "m < order r" and sub: "{unat addr..<unat addr + unat sz} \<subseteq> {q * 2 ^ m..<q * 2 ^ m + 2 ^ m}"
  have m64: "m < 64" using m p r by simp
  have a: "q * 2 ^ m \<le> unat addr" "unat addr < q * 2 ^ m + 2 ^ m" "unat addr + unat sz \<le> q * 2 ^ m + 2 ^ m"
  proof -
    have "unat addr \<in> {unat addr..<unat addr + unat sz}"
      "unat addr + unat sz - 1 \<in> {unat addr..<unat addr + unat sz}" using sz(1) by auto
    then have "unat addr \<in> {q * 2 ^ m..<q * 2 ^ m + 2 ^ m}"
      "unat addr + unat sz - 1 \<in> {q * 2 ^ m..<q * 2 ^ m + 2 ^ m}" using sub by blast+
    then show "q * 2 ^ m \<le> unat addr" "unat addr < q * 2 ^ m + 2 ^ m"
      "unat addr + unat sz \<le> q * 2 ^ m + 2 ^ m" by auto
  qed
  have q: "unat addr div 2 ^ m = q" using a(1,2) by (intro div_nat_eqI) (simp_all add: algebra_simps)
  have "log2roundup sz \<le> m"
  proof (rule ccontr)
    assume "\<not> log2roundup sz \<le> m"
    then have "BIT m < sz" using log2roundup_least(2) [of sz] by simp
    then have "2 ^ m < unat sz" using m64 by (simp add: word_less_nat_alt unat_BIT)
    then show False using a by linarith
  qed
  then have "\<not> init_cond addr sz m" using p m r by simp
  then show "q * 2 ^ m + 2 ^ m \<ge> 2 ^ 64" using init_cond_iff [OF m64 sz] q a(3) by auto
qed

end
