(* ===== verification/Sbi_Domain_Access.thy ===== *)
theory Sbi_Domain_Access
  imports Sbi_Domain_Check
begin

text \<open>
  What the access checks of a domain guarantee once \<open>sanitize_domain\<close> has accepted it, and the
  inputs for which \<open>sbi_domain_check_addr_range\<close> falls short of that.
\<close>

subsection \<open>An instance\<close>

text \<open>
  A small instance: two harts, a firmware region for M-mode only inside a region that S-mode
  may use, and device memory.
\<close>

definition ex_scratch :: scratch_globals where
  "ex_scratch = \<lparr>last_hartindex_having_scratch = 1, hartindex_to_hartid_table = (\<lambda>i. of_nat i),
    hartindex_to_scratch_table = (\<lambda>i. 0x80040000 + of_nat (4096 * i)), extra_offset = 120, scratch_mem = (\<lambda>_. 0)\<rparr>"

definition fw_region :: sbi_domain_memregion where
  "fw_region = \<lparr>order = 18, base = 0x80000000, flags = 0x7\<rparr>"

definition ram_region :: sbi_domain_memregion where
  "ram_region = \<lparr>order = 28, base = 0x80000000, flags = 0x3f\<rparr>"

definition dev_region :: sbi_domain_memregion where
  "dev_region = \<lparr>order = 12, base = 0x10000000, flags = 0x8000001b\<rparr>"

definition ex_domain :: "sbi_domain_memregion list \<Rightarrow> sbi_domain" where
  "ex_domain rs = \<lparr>dom_index = 0, assigned_harts = hartmask_zero,
    possible_harts = Some (sbi_hartmask_set_hartindex 0 hartmask_zero),
    regions = Some (rs @ [\<lparr>order = 0, base = 0, flags = 0\<rparr>]), boot_hartid = 0, dom_next_arg1 = 0,
    dom_next_addr = 0x80200000, dom_next_mode = 1, system_reset_allowed = True,
    system_suspend_allowed = True, fw_region_inited = True\<rparr>"

definition all_region :: sbi_domain_memregion where
  "all_region = \<lparr>order = 64, base = 0, flags = 0x3f\<rparr>"

text \<open>The two halves of the address space.\<close>

definition halves :: sbi_domain where
  "halves = ex_domain [\<lparr>order = 63, base = 0, flags = 0x3f\<rparr>, \<lparr>order = 63, base = 0x8000000000000000, flags = 0x3f\<rparr>]"

lemmas ex_region_defs = fw_region_def ram_region_def dev_region_def all_region_def

lemmas domain_eval = sbi_domain_check_addr_def sbi_domain_for_each_memregion_def ex_domain_def memregions_def
  ex_region_defs in_region_def region_end_def BIT_def region_allows_def region_rwx_def access_rwx_def

lemmas range_eval = domain_eval sbi_domain_check_addr_range_def find_region_def find_next_subset_region_def
  is_region_subset_def

lemma ex_region_before [simp]:
  "is_region_before fw_region ram_region" "\<not> is_region_before ram_region fw_region"
  "is_region_before dev_region ram_region" "\<not> is_region_before ram_region dev_region"
  "is_region_before dev_region fw_region" "\<not> is_region_before fw_region dev_region"
  by (simp_all add: is_region_before_def ex_region_defs)

lemma ex_region_valid [simp]: "is_region_valid fw_region" "is_region_valid ram_region" "is_region_valid dev_region"
  by (simp_all add: is_region_valid_def ex_region_defs BIT_def)

lemma ex_sort: "sort_regions (Suc (Suc (Suc 0))) [ram_region, fw_region, dev_region, x] = [dev_region, fw_region, ram_region, x]"
  by (simp add: sort_regions_def upt_rec swap_region_def)

lemma ex_memregions [simp]:
  "memregions [ram_region, fw_region, dev_region, \<lparr>order = 0, base = 0, flags = 0\<rparr>] = [ram_region, fw_region, dev_region]"
  by (simp add: memregions_def ex_region_defs)

lemma ex_sanitize:
  "sanitize_domain ex_scratch (ex_domain [ram_region, fw_region, dev_region]) =
    (0, ex_domain [dev_region, fw_region, ram_region])"
proof -
  have h: "sbi_hartmask_for_each_hartindex (sbi_hartmask_set_hartindex 0 hartmask_zero) = [0]"
    by (simp add: hm.visit_elems hm.elems_set)
  have c: "sbi_domain_check_addr (Some (ex_domain [dev_region, fw_region, ram_region])) 0x80200000 1 4"
    by (simp add: domain_eval)
  show ?thesis
    using c by (simp add: sanitize_domain_def ex_domain_def h ex_scratch_def sbi_hartindex_valid_def ex_sort Let_def)
qed


subsection \<open>Properties\<close>

text \<open>C1: After a successful \<open>sanitize_domain\<close>, \<open>sbi_domain_check_addr\<close> decides an access by the
  smallest of the domain's regions that hold the address: there is a region of the domain that
  holds it, lies inside every other such region, and grants or refuses the access; where no
  region holds the address, only M-mode passes.\<close>

theorem check_addr_smallest:
  fixes a :: ulong
  assumes "sanitize_domain g dm = (0, dm')"
  defines "hits \<equiv> {r \<in> set (sbi_domain_for_each_memregion dm). unat a \<in> rset r}"
  shows "(\<exists>r \<in> hits. (\<forall>r' \<in> hits. rset r \<subseteq> rset r') \<and>
      (sbi_domain_check_addr (Some dm') a mode fl \<longleftrightarrow> region_allows r mode fl)) \<or>
    hits = {} \<and> (sbi_domain_check_addr (Some dm') a mode fl \<longleftrightarrow> mode = PRV_M)"
proof -
  let ?rs = "sbi_domain_for_each_memregion dm'"
  note s = sanitize_ok [OF assms(1)]
  have eq: "set ?rs = set (sbi_domain_for_each_memregion dm)" using s(2) mset_eq_setD by blast
  have hits: "r \<in> hits \<longleftrightarrow> r \<in> set ?rs \<and> in_region r a" for r
    using s(1) eq by (auto simp: hits_def in_region_iff sane_regions_def)
  show ?thesis
  proof (cases "find_region_loop ?rs a")
    case None
    then have "hits = {}" using hits find_region_loop_None [of ?rs a] by blast
    then show ?thesis using None by (simp add: check_addr_find find_region_def)
  next
    case (Some k)
    then have "?rs ! k \<in> hits" using hits by (auto simp: find_region_loop_Some)
    moreover have "\<forall>r' \<in> hits. rset (?rs ! k) \<subseteq> rset r'"
      using find_region_smallest [OF s(1) Some] hits by blast
    ultimately show ?thesis using Some by (auto simp: check_addr_find find_region_def)
  qed
qed

theorem check_addr_smallest_witness:
  "let dm = ex_domain [ram_region, fw_region, dev_region]; dm' = ex_domain [dev_region, fw_region, ram_region];
     hits = {r \<in> set (sbi_domain_for_each_memregion dm). unat (0x80000100 :: ulong) \<in> rset r}
   in sanitize_domain ex_scratch dm = (0, dm') \<and>
     ((\<exists>r \<in> hits. (\<forall>r' \<in> hits. rset r \<subseteq> rset r') \<and>
      (sbi_domain_check_addr (Some dm') 0x80000100 PRV_S SBI_DOMAIN_READ \<longleftrightarrow>
        region_allows r PRV_S SBI_DOMAIN_READ)) \<or>
      hits = {} \<and> (sbi_domain_check_addr (Some dm') 0x80000100 PRV_S SBI_DOMAIN_READ \<longleftrightarrow> PRV_S = PRV_M))"
  unfolding Let_def using ex_sanitize check_addr_smallest [OF ex_sanitize] by blast

text \<open>\<open>sanitize_domain\<close> succeeds only for a domain whose regions are valid, whose next mode is S or
  U and whose next address is executable in it; it then only rearranges the regions, into an
  order where a region comes before every region of larger order, and keeps the rest.\<close>

theorem sanitize_domain_sorts:
  assumes "sanitize_domain g dm = (0, dm')"
  shows "sorted_wrt region_le (sbi_domain_for_each_memregion dm') \<and>
    (\<forall>r \<in> set (sbi_domain_for_each_memregion dm'). is_region_valid r) \<and>
    mset (sbi_domain_for_each_memregion dm') = mset (sbi_domain_for_each_memregion dm) \<and>
    dm' = dm\<lparr>regions := regions dm'\<rparr> \<and> (dom_next_mode dm = PRV_S \<or> dom_next_mode dm = PRV_U) \<and>
    sbi_domain_check_addr (Some dm') (dom_next_addr dm) (dom_next_mode dm) SBI_DOMAIN_EXECUTE"
proof -
  note s = sanitize_ok [OF assms]
  have "dom_next_mode dm' = dom_next_mode dm" "dom_next_addr dm' = dom_next_addr dm" by (subst s(3), simp)+
  then show ?thesis using s by (simp only: sane_regions_def) blast
qed

theorem sanitize_domain_sorts_witness:
  "sorted_wrt region_le (sbi_domain_for_each_memregion (ex_domain [dev_region, fw_region, ram_region])) \<and>
   sanitize_domain ex_scratch (ex_domain [ram_region, fw_region, dev_region]) =
    (0, ex_domain [dev_region, fw_region, ram_region])"
  using sanitize_domain_sorts [OF ex_sanitize] ex_sanitize by blast

text \<open>C31: In a sanitized domain without a region of order 64, a range that
  \<open>sbi_domain_check_addr_range\<close> accepts is safe: every address of a range that does not wrap
  around passes \<open>sbi_domain_check_addr\<close>.\<close>

theorem check_addr_range_sound:
  assumes "sanitize_domain g dm = (0, dm')" and "\<forall>r \<in> set (sbi_domain_for_each_memregion dm). order r < 64"
    and "sbi_domain_check_addr_range (Some dm') addr sz mode fl = Some True"
    and "unat addr + unat sz < 2 ^ 64" and "unat addr \<le> unat x" and "unat x < unat addr + unat sz"
  shows "sbi_domain_check_addr (Some dm') x mode fl"
proof (rule check_range_sound)
  show "sane_regions (sbi_domain_for_each_memregion dm')" using sanitize_ok(1) [OF assms(1)] .
  show "small_regions (sbi_domain_for_each_memregion dm')"
    using assms(2) mset_eq_setD [OF sanitize_ok(2) [OF assms(1)]] by (simp add: small_regions_def)
  show "check_range_loop dm' addr (addr + sz) mode fl = Some True"
    using assms(3) by (simp add: sbi_domain_check_addr_range_def)
  show "addr \<le> x" using assms(5) by (simp add: word_le_nat_alt)
  show "x < addr + sz" using assms(4,6) by (simp add: word_less_nat_alt unat_add_nowrap)
qed

lemma ex_range_check:
  "sbi_domain_check_addr_range (Some (ex_domain [dev_region, fw_region, ram_region])) 0x80100000 0x2000 1 1 = Some True"
  by (simp add: range_eval check_range_loop.simps)

theorem check_addr_range_sound_witness:
  "sbi_domain_check_addr (Some (ex_domain [dev_region, fw_region, ram_region])) 0x80101234 1 1"
  by (rule check_addr_range_sound [OF ex_sanitize _ ex_range_check])
    (simp_all add: sbi_domain_for_each_memregion_def ex_domain_def, simp add: ex_region_defs)

text \<open>In a sanitized domain where no region of order below 64 ends at the top of the address
  space, \<open>sbi_domain_check_addr_range\<close> returns for every range.\<close>

theorem check_addr_range_returns:
  assumes "sanitize_domain g dm = (0, dm')"
    and "\<forall>r \<in> set (sbi_domain_for_each_memregion dm). order r < 64 \<longrightarrow> unat (base r) + 2 ^ order r < 2 ^ 64"
  shows "\<exists>b. sbi_domain_check_addr_range (Some dm') addr sz mode fl = Some b"
proof -
  have "below_top (sbi_domain_for_each_memregion dm')"
    using assms(2) mset_eq_setD [OF sanitize_ok(2) [OF assms(1)]] by (simp add: below_top_def)
  then show ?thesis
    using check_range_returns [OF sanitize_ok(1) [OF assms(1)]] by (simp add: sbi_domain_check_addr_range_def)
qed

theorem check_addr_range_returns_witness:
  "\<exists>b. sbi_domain_check_addr_range (Some (ex_domain [dev_region, fw_region, ram_region])) 0x7ff00000 (-1) 1 1 = Some b"
  by (rule check_addr_range_returns [OF ex_sanitize])
    (simp add: sbi_domain_for_each_memregion_def ex_domain_def, simp add: ex_region_defs)

text \<open>C34: For a non-empty range that does not wrap around, \<open>sbi_domain_memregion_init\<close> gives an
  aligned power-of-two region that holds the whole range, and no smaller aligned block below
  the top of the address space holds it.\<close>

theorem memregion_init_smallest:
  fixes fl :: ulong
  assumes "0 < unat sz" and "unat addr + unat sz \<le> 2 ^ 64"
  defines "r \<equiv> sbi_domain_memregion_init addr sz fl"
  shows "{unat addr..<unat addr + unat sz} \<subseteq> rset r \<and> 2 ^ order r dvd unat (base r) \<and>
    order r \<le> 64 \<and> flags r = fl \<and>
    (\<forall>m q. m < order r \<and> q * 2 ^ m + 2 ^ m < 2 ^ 64 \<longrightarrow>
      \<not> {unat addr..<unat addr + unat sz} \<subseteq> {q * 2 ^ m..<q * 2 ^ m + 2 ^ m})"
proof -
  note c = memregion_init_covers [OF assms(1,2), where fl = fl, folded r_def]
  show ?thesis using c by (meson not_less)
qed

theorem memregion_init_smallest_witness:
  "{unat (0x80001000 :: ulong)..<unat (0x80001000 :: ulong) + unat (0x3000 :: ulong)}
    \<subseteq> rset (sbi_domain_memregion_init 0x80001000 0x3000 0x3f) \<and>
   order (sbi_domain_memregion_init 0x80001000 0x3000 0x3f) = 14"
proof -
  have l: "log2roundup 0x3000 = 14"
    by (simp add: log2roundup_def log2roundup_loop.simps BIT_def word_le_nat_alt)
  show ?thesis
    using memregion_init_smallest [of "0x3000" "0x80001000" "0x3f"]
    by (simp add: sbi_domain_memregion_init_def l memregion_init_loop.simps BIT_def Let_def)
qed

lemma ex_root_sanitize:
  "sanitize_domain ex_scratch (ex_domain [fw_region, all_region]) = (0, ex_domain [fw_region, all_region])"
proof -
  have h: "sbi_hartmask_for_each_hartindex (sbi_hartmask_set_hartindex 0 hartmask_zero) = [0]"
    by (simp add: hm.visit_elems hm.elems_set)
  have c: "sbi_domain_check_addr (Some (ex_domain [fw_region, all_region])) 0x80200000 1 4"
    by (simp add: domain_eval)
  have s: "sort_regions (Suc (Suc 0)) [fw_region, all_region, x] = [fw_region, all_region, x]" for x
    by (simp add: sort_regions_def upt_rec is_region_before_def fw_region_def all_region_def)
  have m: "memregions [fw_region, all_region, \<lparr>order = 0, base = 0, flags = 0\<rparr>] = [fw_region, all_region]"
    by (simp add: memregions_def fw_region_def all_region_def)
  have v: "is_region_valid all_region" by (simp add: is_region_valid_def all_region_def)
  show ?thesis
    using c by (simp add: sanitize_domain_def ex_domain_def h m v ex_scratch_def sbi_hartindex_valid_def s Let_def)
qed

text \<open>With a region of order 64, \<open>sbi_domain_check_addr_range\<close> accepts a range of S-mode memory
  that crosses the firmware's M-mode region, because \<open>is_region_subset\<close> computes the end of the
  large region with a shift by 64; \<open>sbi_domain_check_addr\<close> refuses an address inside that range.\<close>

theorem check_addr_range_order64:
  "let dm = ex_domain [fw_region, all_region]
   in sanitize_domain ex_scratch dm = (0, dm) \<and>
     sbi_domain_check_addr_range (Some dm) 0x7ffff000 0x2000 PRV_S SBI_DOMAIN_READ = Some True \<and>
     \<not> sbi_domain_check_addr (Some dm) 0x80000000 PRV_S SBI_DOMAIN_READ"
  unfolding Let_def
  by (rule conjI [OF ex_root_sanitize], simp add: range_eval check_range_loop.simps)

lemma halves_diverge:
  "check_range_loop dm a mx mode fl = Some b \<Longrightarrow>
    \<not> (dm = halves \<and> mx = 0x8000000000001000 \<and> mode = 1 \<and> fl = 1 \<and> (a = 0 \<or> a = 0x8000000000000000))"
proof (induction rule: check_range_loop.raw_induct [rotated, consumes 1])
  case (1 f dm a mx mode fl b)
  show ?case
  proof
    assume *: "dm = halves \<and> mx = 0x8000000000001000 \<and> mode = 1 \<and> fl = 1 \<and> (a = 0 \<or> a = 0x8000000000000000)"
    then have "f halves (a + 0x8000000000000000) 0x8000000000001000 1 1 = Some b"
      using 1(2)
  by (auto simp: range_eval halves_def)
    then show False using 1(1) * by fastforce
  qed
qed

text \<open>When a region of order below 64 ends at the top of the address space, the position of
  \<open>sbi_domain_check_addr_range\<close> wraps around to 0 and the loop never ends: with the two halves of
  the address space as regions, the check of one page at \<open>2^63\<close> does not return.\<close>

theorem check_addr_range_diverges:
  "sbi_domain_check_addr_range (Some halves) 0x8000000000000000 0x1000 PRV_S SBI_DOMAIN_READ = None"
  using halves_diverge [of halves "0x8000000000000000" "0x8000000000001000" 1 1]
  by (cases "check_range_loop halves 0x8000000000000000 0x8000000000001000 1 1")
    (auto simp: sbi_domain_check_addr_range_def)

end
