(* ===== verification/Sbi_Domain_Reg.thy ===== *)
theory Sbi_Domain_Reg
  imports Sbi_Domain_Access
begin

text \<open>
  The registration of domains keeps the two records of hart ownership consistent: the
  \<open>assigned_harts\<close> masks of the domains and the domain pointer in each hart's scratch space.
  So a hart is assigned to at most one registered domain.
\<close>

abbreviation assigned :: "domain_globals \<Rightarrow> nat \<Rightarrow> nat set" where
  "assigned g d \<equiv> hartset (assigned_harts (domains g d))"

definition possible :: "domain_globals \<Rightarrow> nat \<Rightarrow> nat set" where
  "possible g d = (case possible_harts (domains g d) of None \<Rightarrow> {} | Some hm \<Rightarrow> hartset hm)"

text \<open>Every hart of the platform has a scratch space, and the pointer slot is allocated.\<close>

definition harts_ready :: "domain_globals \<Rightarrow> bool" where
  "harts_ready g \<longleftrightarrow> domain_hart_ptr_offset g \<noteq> 0 \<and>
    (\<forall>i. sbi_hartindex_valid (scratch_tab g) (of_nat i) \<longrightarrow> sbi_hartindex_to_scratch (scratch_tab g) (of_nat i) \<noteq> 0)"

definition wf_domains :: "domain_globals \<Rightarrow> bool" where
  "wf_domains g \<longleftrightarrow> (\<forall>d. wf_hartmask (assigned_harts (domains g d)))"

definition ownership_inv :: "domain_globals \<Rightarrow> bool" where
  "ownership_inv g \<longleftrightarrow> wf_domains g \<and> distinct (domain_list g) \<and>
    (\<forall>d \<in> set (domain_list g). \<forall>i \<in> assigned g d. hart_domain_ptr g i = Some d \<and> i \<in> possible g d)"

lemma domains_upd [simp]:
  "domains (upd_domain d f g) e = (if e = d then f (domains g d) else domains g e)"
  "scratch_tab (upd_domain d f g) = scratch_tab g"
  "domain_list (upd_domain d f g) = domain_list g"
  "domain_hart_ptr_offset (upd_domain d f g) = domain_hart_ptr_offset g"
  "hart_domain_ptr (upd_domain d f g) = hart_domain_ptr g"
  "domain_finalized (upd_domain d f g) = domain_finalized g"
  "domain_count (upd_domain d f g) = domain_count g"
  "root_memregs_count (upd_domain d f g) = root_memregs_count g"
  by (simp_all add: upd_domain_def)

lemma update_hart_ptr [simp]:
  "domains (sbi_update_hartindex_to_domain i d g) = domains g"
  "scratch_tab (sbi_update_hartindex_to_domain i d g) = scratch_tab g"
  "domain_list (sbi_update_hartindex_to_domain i d g) = domain_list g"
  "domain_hart_ptr_offset (sbi_update_hartindex_to_domain i d g) = domain_hart_ptr_offset g"
  "domain_finalized (sbi_update_hartindex_to_domain i d g) = domain_finalized g"
  by (simp_all add: sbi_update_hartindex_to_domain_def)

lemma register_hart_fields [simp]:
  "scratch_tab (register_hart c d i g) = scratch_tab g"
  "domain_list (register_hart c d i g) = domain_list g"
  "domain_hart_ptr_offset (register_hart c d i g) = domain_hart_ptr_offset g"
  "domain_finalized (register_hart c d i g) = domain_finalized g"
  "possible_harts (domains (register_hart c d i g) e) = possible_harts (domains g e)"
  "regions (domains (register_hart c d i g) e) = regions (domains g e)"
  by (auto simp: register_hart_def Let_def split: option.split)

lemma possible_register_hart [simp]: "possible (register_hart c d i g) e = possible g e"
  by (simp add: possible_def)

lemma register_hart_skip: "i \<notin> possible g d \<Longrightarrow> register_hart c d i g = g"
  by (auto simp: register_hart_def possible_def hartset_test split: option.splits)

lemma register_hart_assign:
  assumes p: "i \<in> possible g d" and wf: "wf_domains g"
    and s: "sbi_hartindex_to_scratch (scratch_tab g) (of_nat i) \<noteq> 0" "domain_hart_ptr_offset g \<noteq> 0"
  shows "hart_domain_ptr (register_hart c d i g) = (hart_domain_ptr g)(i := Some d)"
    and "wf_domains (register_hart c d i g)"
    and "assigned (register_hart c d i g) e =
      (if e = d then insert i (assigned g d)
       else if hart_domain_ptr g i = Some e then assigned g e - {i} else assigned g e)"
proof -
  have i: "i < 128" using p hartset_bound by (auto simp: possible_def split: option.splits)
  have t: "case possible_harts (domains g d) of None \<Rightarrow> False | Some hm \<Rightarrow> sbi_hartmask_test_hartindex i hm"
    using p by (auto simp: possible_def hartset_test split: option.splits)
  have d: "sbi_hartindex_to_domain g i = hart_domain_ptr g i" using s by (simp add: sbi_hartindex_to_domain_def)
  have w: "wf_hartmask (assigned_harts (domains g e))" for e using wf by (simp add: wf_domains_def)
  show "hart_domain_ptr (register_hart c d i g) = (hart_domain_ptr g)(i := Some d)"
    using t s by (auto simp: register_hart_def Let_def d sbi_update_hartindex_to_domain_def split: option.split)
  show "wf_domains (register_hart c d i g)"
    using t w by (auto simp: register_hart_def Let_def d wf_domains_def split: option.split)
  show "assigned (register_hart c d i g) e =
      (if e = d then insert i (assigned g d)
       else if hart_domain_ptr g i = Some e then assigned g e - {i} else assigned g e)"
    using t w i by (auto simp: register_hart_def Let_def d hartset_set hartset_clear split: option.split)
qed

lemma ownership_register_hart:
  assumes inv: "ownership_inv g" and d: "d \<in> set (domain_list g)" and r: "harts_ready g"
    and v: "\<forall>i \<in> possible g d. sbi_hartindex_valid (scratch_tab g) (of_nat i)"
  shows "ownership_inv (register_hart c d i g)"
proof (cases "i \<in> possible g d")
  case True
  have s: "sbi_hartindex_to_scratch (scratch_tab g) (of_nat i) \<noteq> 0" "domain_hart_ptr_offset g \<noteq> 0"
    and w: "wf_domains g" using True v r inv by (auto simp: harts_ready_def ownership_inv_def)
  note a = register_hart_assign [OF True w s]
  show ?thesis
    using inv True a(2) by (auto simp: ownership_inv_def a(1,3) split: if_splits)
qed (use inv in \<open>simp add: register_hart_skip\<close>)

lemma ownership_fold:
  "ownership_inv g \<Longrightarrow> d \<in> set (domain_list g) \<Longrightarrow> harts_ready g \<Longrightarrow>
    \<forall>i \<in> possible g d. sbi_hartindex_valid (scratch_tab g) (of_nat i) \<Longrightarrow>
    ownership_inv (fold (register_hart c d) is g)"
proof (induction "is" arbitrary: g)
  case (Cons i "is")
  have "harts_ready (register_hart c d i g)" using Cons.prems(3) by (simp add: harts_ready_def)
  then show ?case using Cons ownership_register_hart [OF Cons.prems] by simp
qed simp

lemma sanitize_frame:
  "snd (sanitize_domain g dm) = dm\<lparr>regions := regions (snd (sanitize_domain g dm))\<rparr>"
  by (auto simp: sanitize_domain_def Let_def split: option.split)

lemma ownership_register:
  assumes inv: "ownership_inv g" and r: "harts_ready g"
    and res: "sbi_domain_register setup_data c dp am g = (rc, g')"
  shows "ownership_inv g'"
proof (cases "\<exists>d m. dp = Some d \<and> am = Some m \<and> \<not> domain_finalized g \<and> d \<notin> set (domain_list g)")
  case False
  then have "g' = g" using res by (auto simp: sbi_domain_register_def split: option.splits if_splits)
  then show ?thesis using inv by simp
next
  case True
  then obtain d m where dp: "dp = Some d" "am = Some m" "\<not> domain_finalized g" "d \<notin> set (domain_list g)" by blast
  obtain rc0 dm where s: "sanitize_domain (scratch_tab g) (domains g d) = (rc0, dm)" by (metis surj_pair)
  have dm: "dm = (domains g d)\<lparr>regions := regions dm\<rparr>" using sanitize_frame [of "scratch_tab g" "domains g d"] s by simp
  have ah: "assigned_harts dm = assigned_harts (domains g d)" "possible_harts dm = possible_harts (domains g d)"
    by (subst dm, simp)+
  let ?g1 = "upd_domain d (\<lambda>_. dm) g"
  show ?thesis
  proof (cases "rc0 = 0")
    case False
    then have "g' = ?g1" using res dp s by (auto simp: sbi_domain_register_def Let_def)
    then show ?thesis using inv dp(4) ah
      by (auto simp: ownership_inv_def wf_domains_def possible_def)
  next
    case True
    define g2 where "g2 = upd_domain d (\<lambda>dm. dm\<lparr>assigned_harts := sbi_hartmask_clear_all (assigned_harts dm)\<rparr>)
      ((upd_domain d (\<lambda>dm. dm\<lparr>dom_index := domain_count g\<rparr>) (?g1\<lparr>domain_list := domain_list g @ [d]\<rparr>))
        \<lparr>domain_count := domain_count g + 1\<rparr>)"
    have wf: "wf_hartmask (assigned_harts (domains g e))" for e
      using inv by (simp add: ownership_inv_def wf_domains_def)
    have "ownership_inv g2"
      using inv dp(4) ah wf by (auto simp: g2_def ownership_inv_def wf_domains_def possible_def hartset_clear_all)
    moreover have "harts_ready g2" using r by (simp add: g2_def harts_ready_def)
    moreover have "\<forall>i \<in> possible g2 d. sbi_hartindex_valid (scratch_tab g2) (of_nat i)"
      using sanitize_ok(7) [of "scratch_tab g" "domains g d" dm] s True ah by (auto simp: g2_def possible_def)
    ultimately have f: "ownership_inv (fold (register_hart c d) (sbi_hartmask_for_each_hartindex m) g2)"
      by (intro ownership_fold) (simp_all add: g2_def)
    have "g' = fold (register_hart c d) (sbi_hartmask_for_each_hartindex m) g2 \<or>
      g' = (fold (register_hart c d) (sbi_hartmask_for_each_hartindex m) g2)
        \<lparr>domain_list := remove1 d (domain_list (fold (register_hart c d) (sbi_hartmask_for_each_hartindex m) g2))\<rparr>"
      using res dp s True by (auto simp: sbi_domain_register_def Let_def g2_def split: if_splits)
    then show ?thesis using f
      by (auto simp: ownership_inv_def wf_domains_def possible_def dest: notin_set_remove1 set_remove1_subset [THEN subsetD])
  qed
qed

lemma register_hart_fold_fields:
  "scratch_tab (fold (register_hart c d) is g) = scratch_tab g \<and>
   domain_hart_ptr_offset (fold (register_hart c d) is g) = domain_hart_ptr_offset g"
  by (induction "is" arbitrary: g) simp_all

lemma register_frame:
  "scratch_tab (snd (sbi_domain_register sd c dp am g)) = scratch_tab g \<and>
   domain_hart_ptr_offset (snd (sbi_domain_register sd c dp am g)) = domain_hart_ptr_offset g"
  by (auto simp: sbi_domain_register_def Let_def register_hart_fold_fields split: option.split prod.split)

subsection \<open>Properties\<close>

text \<open>A sequence of registrations, each with the result of its data callbacks, the cold boot
  hart, the domain and the mask of harts to assign.\<close>

fun register_all ::
  "((nat \<Rightarrow> int) \<times> u32 \<times> nat option \<times> sbi_hartmask option) list \<Rightarrow> domain_globals \<Rightarrow> domain_globals" where
  "register_all [] g = g"
| "register_all ((sd, c, dp, am) # calls) g = register_all calls (snd (sbi_domain_register sd c dp am g))"

lemma ownership_register_all:
  "ownership_inv g \<Longrightarrow> harts_ready g \<Longrightarrow> ownership_inv (register_all calls g)"
proof (induction calls g rule: register_all.induct)
  case (2 sd c dp am calls g)
  have "ownership_inv (snd (sbi_domain_register sd c dp am g))"
    using ownership_register [OF 2(2,3)] by (metis surjective_pairing)
  moreover have "harts_ready (snd (sbi_domain_register sd c dp am g))"
    using 2(3) register_frame [of sd c dp am g] by (simp add: harts_ready_def)
  ultimately show ?case using 2(1) by simp
qed simp

text \<open>C26: Hart ownership is exclusive: from a consistent table and with scratch spaces set up, after
  any sequence of \<open>sbi_domain_register\<close> calls, failed ones included, no hart is assigned to two
  registered domains, the domain pointer of every assigned hart is its domain, and a domain
  only owns harts that are possible for it.\<close>

theorem hart_ownership_exclusive:
  fixes calls
  assumes "ownership_inv g" and "harts_ready g"
  defines "g' \<equiv> register_all calls g"
  shows "(\<forall>d \<in> set (domain_list g'). \<forall>e \<in> set (domain_list g'). d \<noteq> e \<longrightarrow> assigned g' d \<inter> assigned g' e = {}) \<and>
    (\<forall>d \<in> set (domain_list g'). \<forall>i \<in> assigned g' d. hart_domain_ptr g' i = Some d \<and> i \<in> possible g' d)"
  using ownership_register_all [OF assms(1,2), of calls, folded g'_def]
  unfolding ownership_inv_def disjoint_iff by (metis option.inject)

definition ex_domains :: domain_globals where
  "ex_domains = \<lparr>scratch_tab = ex_scratch, domains = (\<lambda>d. ex_domain [ram_region, fw_region, dev_region]),
    domain_list = [], domain_count = 0, domain_finalized = False, root_memregs_count = 0,
    domain_hart_ptr_offset = 120, hart_domain_ptr = (\<lambda>_. None)\<rparr>"

definition hart0 :: sbi_hartmask where
  "hart0 = sbi_hartmask_set_hartindex 0 hartmask_zero"

lemma ex_domains_ok: "ownership_inv ex_domains" "harts_ready ex_domains"
  by (simp_all add: ownership_inv_def wf_domains_def ex_domains_def ex_domain_def harts_ready_def ex_scratch_def
      sbi_hartindex_valid_def sbi_hartindex_to_scratch_def le_Suc_eq word_le_nat_alt unat_of_nat)

lemma hart0_each [simp]: "sbi_hartmask_for_each_hartindex hart0 = [0]" "hartset hart0 = {0}"
  by (simp_all add: hart0_def hm.visit_elems hm.elems_set)

theorem hart_ownership_exclusive_witness:
  "let g' = register_all [(\<lambda>_. 0, 0, Some 1, Some hart0), (\<lambda>_. 0, 0, Some 2, Some hart0)] ex_domains
   in domain_list g' = [1, 2] \<and> hart_domain_ptr g' 0 = Some 2 \<and> assigned g' 1 \<inter> assigned g' 2 = {}"
proof -
  let ?g = "register_all [(\<lambda>_. 0, 0, Some 1, Some hart0), (\<lambda>_. 0, 0, Some 2, Some hart0)] ex_domains"
  have t: "sbi_hartmask_test_hartindex 0 (sbi_hartmask_set_hartindex 0 hartmask_zero)"
    by (simp add: hartset_test hm.elems_set)
  have "domain_list ?g = [1, 2] \<and> hart_domain_ptr ?g 0 = Some 2"
    using ex_sanitize t
    by (simp add: sbi_domain_register_def ex_domains_def Let_def register_hart_def upd_domain_def ex_domain_def
        sbi_hartindex_to_domain_def sbi_update_hartindex_to_domain_def sbi_hartindex_to_scratch_def
        sbi_hartindex_to_hartid_def ex_scratch_def)
  then show ?thesis using hart_ownership_exclusive [OF ex_domains_ok, of "[(\<lambda>_. 0, 0, Some 1, Some hart0), (\<lambda>_. 0, 0, Some 2, Some hart0)]"]
    by (simp add: Let_def)
qed

end
