(* ===== verification/Sbi_Hsm.thy ===== *)
theory Sbi_Hsm
  imports Sbi_Domain_Reg
begin

text \<open>
  \<open>lib/sbi/sbi_hsm.c\<close>: the state of each hart and the operations that start, stop, suspend and
  resume it. A hart's \<open>struct sbi_hsm_data\<close> and \<open>struct sbi_scratch\<close> are functions of the hart
  index. The HSM device of the platform, the result of sending the wake-up interrupt and the
  boot counters of \<open>sbi_init.c\<close> are arguments. Functions that do not come back (a hang, the
  switch to the next privilege mode, the jump to the warm-boot entry) return an \<open>outcome\<close>.
\<close>

subsection \<open>State\<close>

definition SBI_HSM_STATE_STARTED :: int where [simp, sbi_defs]: "SBI_HSM_STATE_STARTED = 0"
definition SBI_HSM_STATE_STOPPED :: int where [simp, sbi_defs]: "SBI_HSM_STATE_STOPPED = 1"
definition SBI_HSM_STATE_START_PENDING :: int where [simp, sbi_defs]: "SBI_HSM_STATE_START_PENDING = 2"
definition SBI_HSM_STATE_STOP_PENDING :: int where [simp, sbi_defs]: "SBI_HSM_STATE_STOP_PENDING = 3"
definition SBI_HSM_STATE_SUSPENDED :: int where [simp, sbi_defs]: "SBI_HSM_STATE_SUSPENDED = 4"
definition SBI_HSM_STATE_RESUME_PENDING :: int where [simp, sbi_defs]: "SBI_HSM_STATE_RESUME_PENDING = 6"

definition SBI_HSM_SUSP_NON_RET_BIT :: u32 where [simp, sbi_defs]: "SBI_HSM_SUSP_NON_RET_BIT = 0x80000000"
definition SBI_HSM_SUSPEND_RET_DEFAULT :: u32 where [simp, sbi_defs]: "SBI_HSM_SUSPEND_RET_DEFAULT = 0"
definition SBI_HSM_SUSPEND_RET_PLATFORM :: u32 where [simp, sbi_defs]: "SBI_HSM_SUSPEND_RET_PLATFORM = 0x10000000"
definition SBI_HSM_SUSPEND_NON_RET_DEFAULT :: u32 where [simp, sbi_defs]:
  "SBI_HSM_SUSPEND_NON_RET_DEFAULT = 0x80000000"
definition SBI_HSM_SUSPEND_NON_RET_PLATFORM :: u32 where [simp, sbi_defs]:
  "SBI_HSM_SUSPEND_NON_RET_PLATFORM = 0x90000000"

definition MIP_SSIP :: ulong where [simp, sbi_defs]: "MIP_SSIP = 0x2"
definition MIP_STIP :: ulong where [simp, sbi_defs]: "MIP_STIP = 0x20"

record sbi_hsm_data =
  hsm_state :: int
  suspend_type :: ulong
  saved_mie :: ulong
  saved_mip :: ulong
  saved_medeleg :: ulong
  saved_menvcfg :: ulong
  start_ticket :: int

text \<open>The CSRs that a non-retentive suspend saves and restores.\<close>

record hart_csrs =
  csr_mie :: ulong
  csr_mip :: ulong
  csr_medeleg :: ulong
  csr_menvcfg :: ulong

record sbi_hsm_device =
  dev_hart_start :: "(u32 \<Rightarrow> ulong \<Rightarrow> int) option"
  dev_hart_stop :: "int option"
  dev_hart_suspend :: "(u32 \<Rightarrow> ulong \<Rightarrow> int) option"

record hsm_globals =
  hsm_doms :: domain_globals
  hsm_data :: "nat \<Rightarrow> sbi_hsm_data"
  hsm_scratch :: "nat \<Rightarrow> sbi_scratch"
  hsm_csrs :: "nat \<Rightarrow> hart_csrs"
  hsm_dev :: "sbi_hsm_device option"

datatype outcome = Ret int | Hang | Switch_mode u32 ulong ulong ulong | Jump_warmboot ulong

definition upd_data :: "nat \<Rightarrow> (sbi_hsm_data \<Rightarrow> sbi_hsm_data) \<Rightarrow> hsm_globals \<Rightarrow> hsm_globals" where
  "upd_data i f g = g\<lparr>hsm_data := (hsm_data g)(i := f (hsm_data g i))\<rparr>"

definition upd_scratch :: "nat \<Rightarrow> (sbi_scratch \<Rightarrow> sbi_scratch) \<Rightarrow> hsm_globals \<Rightarrow> hsm_globals" where
  "upd_scratch i f g = g\<lparr>hsm_scratch := (hsm_scratch g)(i := f (hsm_scratch g i))\<rparr>"

definition upd_csrs :: "nat \<Rightarrow> (hart_csrs \<Rightarrow> hart_csrs) \<Rightarrow> hsm_globals \<Rightarrow> hsm_globals" where
  "upd_csrs i f g = g\<lparr>hsm_csrs := (hsm_csrs g)(i := f (hsm_csrs g i))\<rparr>"

abbreviation state_of :: "hsm_globals \<Rightarrow> nat \<Rightarrow> int" where
  "state_of g i \<equiv> hsm_state (hsm_data g i)"

subsection \<open>Operations\<close>

text \<open>\<open>atomic_cmpxchg\<close> on a hart's state: the old value, and the state after.\<close>

definition state_cmpxchg :: "nat \<Rightarrow> int \<Rightarrow> int \<Rightarrow> hsm_globals \<Rightarrow> int \<times> hsm_globals" where
  "state_cmpxchg i old new g =
    (state_of g i, if state_of g i = old then upd_data i (\<lambda>h. h\<lparr>hsm_state := new\<rparr>) g else g)"

definition sbi_hsm_hart_change_state :: "nat \<Rightarrow> int \<Rightarrow> int \<Rightarrow> hsm_globals \<Rightarrow> bool \<times> hsm_globals" where
  "sbi_hsm_hart_change_state i oldstate newstate g =
    (case state_cmpxchg i oldstate newstate g of (state, g) \<Rightarrow> (state = oldstate, g))"

definition hsm_hart_get_state :: "hsm_globals \<Rightarrow> nat \<Rightarrow> int" where
  "hsm_hart_get_state g i =
    (if sbi_hartindex_to_scratch (scratch_tab (hsm_doms g)) (of_nat i) = 0 then SBI_EINVAL else state_of g i)"

definition sbi_hsm_hart_get_state :: "hsm_globals \<Rightarrow> nat option \<Rightarrow> u32 \<Rightarrow> int" where
  "sbi_hsm_hart_get_state g d hartid =
    (let i = unat (sbi_hartid_to_hartindex (scratch_tab (hsm_doms g)) hartid)
     in if \<not> sbi_domain_is_assigned_hart (hsm_doms g) d i then SBI_EINVAL else hsm_hart_get_state g i)"

definition hsm_start_ticket_acquire :: "nat \<Rightarrow> hsm_globals \<Rightarrow> bool \<times> hsm_globals" where
  "hsm_start_ticket_acquire i g =
    (start_ticket (hsm_data g i) = 0,
     if start_ticket (hsm_data g i) = 0 then upd_data i (\<lambda>h. h\<lparr>start_ticket := 1\<rparr>) g else g)"

definition hsm_start_ticket_release :: "nat \<Rightarrow> hsm_globals \<Rightarrow> hsm_globals" where
  "hsm_start_ticket_release i g = upd_data i (\<lambda>h. h\<lparr>start_ticket := 0\<rparr>) g"

definition interruptible_state :: "int \<Rightarrow> bool" where
  "interruptible_state hstate \<longleftrightarrow>
    \<not> (hstate \<noteq> SBI_HSM_STATE_STARTED \<and> hstate \<noteq> SBI_HSM_STATE_SUSPENDED \<and> hstate \<noteq> SBI_HSM_STATE_RESUME_PENDING)"

text \<open>
  The loop clears bits of the mask it iterates over, always the one just visited, so the
  harts visited are those of the mask at the start.
\<close>

definition sbi_hsm_hart_interruptible_mask ::
  "hsm_globals \<Rightarrow> nat option \<Rightarrow> sbi_hartmask \<Rightarrow> int \<times> sbi_hartmask" where
  "sbi_hsm_hart_interruptible_mask g d m =
    (case sbi_domain_get_assigned_hartmask (hsm_doms g) d m of (ret, m) \<Rightarrow>
      if ret \<noteq> 0 then (ret, m)
      else (0, fold (\<lambda>i m. if interruptible_state (hsm_hart_get_state g i) then m
                          else sbi_hartmask_clear_hartindex i m)
                 (sbi_hartmask_for_each_hartindex m) m))"

definition sbi_hsm_hart_start_finish :: "nat \<Rightarrow> u32 \<Rightarrow> hsm_globals \<Rightarrow> outcome \<times> hsm_globals" where
  "sbi_hsm_hart_start_finish i hartid g =
    (case sbi_hsm_hart_change_state i SBI_HSM_STATE_START_PENDING SBI_HSM_STATE_STARTED g of (ok, g) \<Rightarrow>
      if \<not> ok then (Hang, g)
      else
        let s = hsm_scratch g i;
            g = hsm_start_ticket_release i g
        in (Switch_mode hartid (next_arg1 s) (next_addr s) (next_mode s), g))"

text \<open>
  One test of the loop of \<open>sbi_hsm_hart_wait\<close>: \<open>True\<close> leaves the loop. (The saved and restored
  \<open>mie\<close> is not changed by the loop.)
\<close>

definition sbi_hsm_hart_wait_done :: "nat \<Rightarrow> hsm_globals \<Rightarrow> bool" where
  "sbi_hsm_hart_wait_done i g \<longleftrightarrow> \<not> state_of g i \<noteq> SBI_HSM_STATE_START_PENDING"

definition sbi_hsm_set_device :: "sbi_hsm_device option \<Rightarrow> hsm_globals \<Rightarrow> hsm_globals" where
  "sbi_hsm_set_device dev g = (if dev = None \<or> hsm_dev g \<noteq> None then g else g\<lparr>hsm_dev := dev\<rparr>)"

definition hsm_device_has_hart_hotplug :: "hsm_globals \<Rightarrow> bool" where
  "hsm_device_has_hart_hotplug g =
    (case hsm_dev g of None \<Rightarrow> False | Some dev \<Rightarrow> dev_hart_start dev \<noteq> None \<and> dev_hart_stop dev \<noteq> None)"

definition hsm_device_has_hart_secondary_boot :: "hsm_globals \<Rightarrow> bool" where
  "hsm_device_has_hart_secondary_boot g =
    (case hsm_dev g of None \<Rightarrow> False | Some dev \<Rightarrow> dev_hart_start dev \<noteq> None \<and> dev_hart_stop dev = None)"

definition hsm_device_hart_start :: "hsm_globals \<Rightarrow> u32 \<Rightarrow> ulong \<Rightarrow> int" where
  "hsm_device_hart_start g hartid saddr =
    (case hsm_dev g of None \<Rightarrow> SBI_ENOTSUPP
     | Some dev \<Rightarrow> (case dev_hart_start dev of None \<Rightarrow> SBI_ENOTSUPP | Some f \<Rightarrow> f hartid saddr))"

definition hsm_device_hart_stop :: "hsm_globals \<Rightarrow> int" where
  "hsm_device_hart_stop g =
    (case hsm_dev g of None \<Rightarrow> SBI_ENOTSUPP
     | Some dev \<Rightarrow> (case dev_hart_stop dev of None \<Rightarrow> SBI_ENOTSUPP | Some r \<Rightarrow> r))"

definition hsm_device_hart_suspend :: "hsm_globals \<Rightarrow> u32 \<Rightarrow> ulong \<Rightarrow> int" where
  "hsm_device_hart_suspend g stype mmode_resume_addr =
    (case hsm_dev g of None \<Rightarrow> SBI_ENOTSUPP
     | Some dev \<Rightarrow> (case dev_hart_suspend dev of None \<Rightarrow> SBI_ENOTSUPP
         | Some f \<Rightarrow> f stype mmode_resume_addr))"

text \<open>The cold-boot branch of \<open>sbi_hsm_init\<close>, after its scratch space was allocated.\<close>

definition hsm_init_hart :: "nat \<Rightarrow> nat \<Rightarrow> hsm_globals \<Rightarrow> hsm_globals" where
  "hsm_init_hart current i g =
    (if sbi_hartindex_to_scratch (scratch_tab (hsm_doms g)) (of_nat i) = 0 then g
     else upd_data i (\<lambda>h. h\<lparr>hsm_state := if i = current then SBI_HSM_STATE_START_PENDING else SBI_HSM_STATE_STOPPED,
                            start_ticket := 0\<rparr>) g)"

definition sbi_hsm_init_cold :: "nat \<Rightarrow> hsm_globals \<Rightarrow> int \<times> hsm_globals" where
  "sbi_hsm_init_cold current g =
    (case sbi_scratch_alloc_offset 56 (scratch_tab (hsm_doms g)) of (off, tab) \<Rightarrow>
      let g = g\<lparr>hsm_doms := (hsm_doms g)\<lparr>scratch_tab := tab\<rparr>\<rparr>
      in if off = 0 then (SBI_ENOMEM, g)
         else (0, fold (hsm_init_hart current) [0..<unat (last_hartindex_having_scratch tab) + 1] g))"

definition sbi_hsm_exit :: "nat \<Rightarrow> hsm_globals \<Rightarrow> outcome \<times> hsm_globals" where
  "sbi_hsm_exit i g =
    (case sbi_hsm_hart_change_state i SBI_HSM_STATE_STOP_PENDING SBI_HSM_STATE_STOPPED g of (ok, g) \<Rightarrow>
      if \<not> ok then (Hang, g)
      else if hsm_device_has_hart_hotplug g \<and> hsm_device_hart_stop g \<noteq> SBI_ENOTSUPP then (Hang, g)
      else (Jump_warmboot (warmboot_addr (hsm_scratch g i)), g))"

text \<open>
  \<open>sbi_hsm_hart_start\<close>: \<open>self\<close> is the calling hart, \<open>ipi_send\<close> the result of
  \<open>sbi_ipi_raw_send\<close>, \<open>init_count\<close> and \<open>entry_count\<close> the boot counters of a hart.
\<close>

definition sbi_hsm_hart_start ::
  "(nat \<Rightarrow> int) \<Rightarrow> (nat \<Rightarrow> ulong) \<Rightarrow> (nat \<Rightarrow> ulong) \<Rightarrow> nat \<Rightarrow> nat option \<Rightarrow> u32 \<Rightarrow> ulong \<Rightarrow> ulong \<Rightarrow> ulong \<Rightarrow>
    hsm_globals \<Rightarrow> int \<times> hsm_globals" where
  "sbi_hsm_hart_start ipi_send init_count entry_count self d hartid saddr smode arg1 g =
    (let i = unat (sbi_hartid_to_hartindex (scratch_tab (hsm_doms g)) hartid)
     in if smode \<noteq> PRV_S \<and> smode \<noteq> PRV_U then (SBI_EINVAL, g)
        else if d \<noteq> None \<and> \<not> sbi_domain_is_assigned_hart (hsm_doms g) d i then (SBI_EINVAL, g)
        else if d \<noteq> None \<and>
            \<not> sbi_domain_check_addr (map_option (domains (hsm_doms g)) d) saddr smode SBI_DOMAIN_EXECUTE
        then (SBI_EINVALID_ADDR, g)
        else if sbi_hartindex_to_scratch (scratch_tab (hsm_doms g)) (of_nat i) = 0 then (SBI_EINVAL, g)
        else (case hsm_start_ticket_acquire i g of (got, g) \<Rightarrow>
          if \<not> got then (SBI_EINVAL, g)
          else
            let g = upd_scratch i (\<lambda>s. s\<lparr>next_arg1 := arg1, next_addr := saddr, next_mode := smode\<rparr>) g
            in (case state_cmpxchg i SBI_HSM_STATE_STOPPED SBI_HSM_STATE_START_PENDING g of (hstate, g) \<Rightarrow>
              if hstate = SBI_HSM_STATE_STARTED then (SBI_EALREADY, hsm_start_ticket_release i g)
              else if hstate \<noteq> SBI_HSM_STATE_STOPPED then (SBI_EINVAL, hsm_start_ticket_release i g)
              else
                let rc = (if hsm_device_has_hart_hotplug g \<and> entry_count i = init_count i
                             \<or> hsm_device_has_hart_secondary_boot g \<and> init_count i = 0
                          then hsm_device_hart_start g hartid (warmboot_addr (hsm_scratch g self))
                          else ipi_send i)
                in if rc = 0 then (0, g)
                   else (rc, hsm_start_ticket_release i
                     (snd (sbi_hsm_hart_change_state i SBI_HSM_STATE_START_PENDING SBI_HSM_STATE_STOPPED g))))))"

text \<open>\<open>sbi_hsm_hart_stop\<close>; with \<open>exitnow\<close> it continues in \<open>sbi_exit\<close>, which ends in \<open>sbi_hsm_exit\<close>.\<close>

definition sbi_hsm_hart_stop :: "nat \<Rightarrow> hsm_globals \<Rightarrow> int \<times> hsm_globals" where
  "sbi_hsm_hart_stop i g =
    (if sbi_hartindex_to_domain (hsm_doms g) i = None then (SBI_EFAIL, g)
     else (case sbi_hsm_hart_change_state i SBI_HSM_STATE_STARTED SBI_HSM_STATE_STOP_PENDING g of (ok, g) \<Rightarrow>
       if \<not> ok then (SBI_EFAIL, g) else (0, g)))"

definition hsm_suspend_non_ret_save :: "bool \<Rightarrow> nat \<Rightarrow> hsm_globals \<Rightarrow> hsm_globals" where
  "hsm_suspend_non_ret_save priv_1_12 i g =
    upd_data i (\<lambda>h. h\<lparr>saved_mie := csr_mie (hsm_csrs g i),
                     saved_mip := csr_mip (hsm_csrs g i) AND (MIP_SSIP OR MIP_STIP),
                     saved_medeleg := csr_medeleg (hsm_csrs g i),
                     saved_menvcfg := (if priv_1_12 then csr_menvcfg (hsm_csrs g i) else saved_menvcfg h)\<rparr>) g"

definition hsm_suspend_non_ret_restore :: "bool \<Rightarrow> nat \<Rightarrow> hsm_globals \<Rightarrow> hsm_globals" where
  "hsm_suspend_non_ret_restore priv_1_12 i g =
    upd_csrs i (\<lambda>c. c\<lparr>csr_menvcfg := (if priv_1_12 then saved_menvcfg (hsm_data g i) else csr_menvcfg c),
                     csr_medeleg := saved_medeleg (hsm_data g i),
                     csr_mie := saved_mie (hsm_data g i),
                     csr_mip := csr_mip c OR (saved_mip (hsm_data g i) AND (MIP_SSIP OR MIP_STIP))\<rparr>) g"

definition sbi_hsm_hart_resume_start :: "nat \<Rightarrow> hsm_globals \<Rightarrow> outcome \<times> hsm_globals" where
  "sbi_hsm_hart_resume_start i g =
    (case sbi_hsm_hart_change_state i SBI_HSM_STATE_SUSPENDED SBI_HSM_STATE_RESUME_PENDING g of (ok, g) \<Rightarrow>
      (if ok then Ret 0 else Hang, g))"

definition sbi_hsm_hart_resume_finish :: "bool \<Rightarrow> nat \<Rightarrow> u32 \<Rightarrow> hsm_globals \<Rightarrow> outcome \<times> hsm_globals" where
  "sbi_hsm_hart_resume_finish priv_1_12 i hartid g =
    (case sbi_hsm_hart_change_state i SBI_HSM_STATE_RESUME_PENDING SBI_HSM_STATE_STARTED g of (ok, g) \<Rightarrow>
      if \<not> ok then (Hang, g)
      else
        let g = hsm_suspend_non_ret_restore priv_1_12 i g; s = hsm_scratch g i
        in (Switch_mode hartid (next_arg1 s) (next_addr s) (next_mode s), g))"

definition bad_suspend_type :: "u32 \<Rightarrow> bool" where
  "bad_suspend_type t \<longleftrightarrow>
    SBI_HSM_SUSPEND_RET_DEFAULT < t \<and> t < SBI_HSM_SUSPEND_RET_PLATFORM \<or>
    SBI_HSM_SUSPEND_NON_RET_DEFAULT < t \<and> t < SBI_HSM_SUSPEND_NON_RET_PLATFORM"

text \<open>The platform's suspend, or the default one for the default types.\<close>

definition hsm_try_suspend :: "hsm_globals \<Rightarrow> u32 \<Rightarrow> ulong \<Rightarrow> int" where
  "hsm_try_suspend g stype warmboot =
    (let ret = hsm_device_hart_suspend g stype warmboot
     in if ret = SBI_ENOTSUPP \<and> (stype = SBI_HSM_SUSPEND_RET_DEFAULT \<or> stype = SBI_HSM_SUSPEND_NON_RET_DEFAULT)
        then 0 else ret)"

text \<open>\<open>sbi_hsm_hart_suspend\<close> once the hart is in the state \<open>SUSPENDED\<close>.\<close>

definition hsm_suspend_run :: "bool \<Rightarrow> nat \<Rightarrow> u32 \<Rightarrow> hsm_globals \<Rightarrow> outcome \<times> hsm_globals" where
  "hsm_suspend_run priv_1_12 i stype g =
    (let non_ret = (stype AND SBI_HSM_SUSP_NON_RET_BIT \<noteq> 0);
         g = upd_data i (\<lambda>h. h\<lparr>suspend_type := ucast stype\<rparr>) g;
         g = (if non_ret then hsm_suspend_non_ret_save priv_1_12 i g else g);
         ret = hsm_try_suspend g stype (warmboot_addr (hsm_scratch g i))
     in if ret = 0 \<and> non_ret then (Jump_warmboot (warmboot_addr (hsm_scratch g i)), g)
        else (case sbi_hsm_hart_change_state i SBI_HSM_STATE_SUSPENDED SBI_HSM_STATE_STARTED g of
          (ok, g) \<Rightarrow> (if ok then Ret ret else Hang, g)))"

definition sbi_hsm_hart_suspend ::
  "bool \<Rightarrow> nat \<Rightarrow> u32 \<Rightarrow> ulong \<Rightarrow> ulong \<Rightarrow> ulong \<Rightarrow> hsm_globals \<Rightarrow> outcome \<times> hsm_globals" where
  "sbi_hsm_hart_suspend priv_1_12 i stype raddr rmode arg1 g =
    (case sbi_hartindex_to_domain (hsm_doms g) i of
      None \<Rightarrow> (Ret SBI_EFAIL, g)
    | Some d \<Rightarrow>
        if bad_suspend_type stype then (Ret SBI_EINVAL, g)
        else
          let non_ret = (stype AND SBI_HSM_SUSP_NON_RET_BIT \<noteq> 0)
          in if non_ret \<and> rmode \<noteq> PRV_S \<and> rmode \<noteq> PRV_U then (Ret SBI_EFAIL, g)
             else if non_ret \<and>
                 \<not> sbi_domain_check_addr (Some (domains (hsm_doms g) d)) raddr rmode SBI_DOMAIN_EXECUTE
             then (Ret SBI_EINVALID_ADDR, g)
             else
               let g = upd_scratch i (\<lambda>s. s\<lparr>next_arg1 := arg1, next_addr := raddr, next_mode := rmode\<rparr>) g
               in (case sbi_hsm_hart_change_state i SBI_HSM_STATE_STARTED SBI_HSM_STATE_SUSPENDED g of (ok, g) \<Rightarrow>
                 if \<not> ok then (Ret SBI_EFAIL, g) else hsm_suspend_run priv_1_12 i stype g))"

subsection \<open>The life cycle of a hart\<close>

lemma upd_fields [simp]:
  "hsm_data (upd_data i f g) j = (if j = i then f (hsm_data g i) else hsm_data g j)"
  "hsm_scratch (upd_data i f g) = hsm_scratch g" "hsm_csrs (upd_data i f g) = hsm_csrs g"
  "hsm_doms (upd_data i f g) = hsm_doms g" "hsm_dev (upd_data i f g) = hsm_dev g"
  "hsm_data (upd_scratch i h g) = hsm_data g" "hsm_csrs (upd_scratch i h g) = hsm_csrs g"
  "hsm_scratch (upd_scratch i h g) j = (if j = i then h (hsm_scratch g i) else hsm_scratch g j)"
  "hsm_doms (upd_scratch i h g) = hsm_doms g" "hsm_dev (upd_scratch i h g) = hsm_dev g"
  "hsm_data (upd_csrs i k g) = hsm_data g" "hsm_scratch (upd_csrs i k g) = hsm_scratch g"
  "hsm_doms (upd_csrs i k g) = hsm_doms g" "hsm_dev (upd_csrs i k g) = hsm_dev g"
  "hsm_csrs (upd_csrs i k g) j = (if j = i then k (hsm_csrs g i) else hsm_csrs g j)"
  by (simp_all add: upd_data_def upd_scratch_def upd_csrs_def)

lemma change_state_eq:
  "sbi_hsm_hart_change_state i old new g =
    (state_of g i = old, if state_of g i = old then upd_data i (\<lambda>h. h\<lparr>hsm_state := new\<rparr>) g else g)"
  by (simp add: sbi_hsm_hart_change_state_def state_cmpxchg_def)

lemma device_upd [simp]:
  "hsm_device_has_hart_hotplug (upd_data i f g) = hsm_device_has_hart_hotplug g"
  "hsm_device_hart_stop (upd_data i f g) = hsm_device_hart_stop g"
  "hsm_device_has_hart_secondary_boot (upd_data i f g) = hsm_device_has_hart_secondary_boot g"
  "hsm_device_hart_start (upd_data i f g) = hsm_device_hart_start g"
  "hsm_device_has_hart_hotplug (upd_scratch i h g) = hsm_device_has_hart_hotplug g"
  "hsm_device_has_hart_secondary_boot (upd_scratch i h g) = hsm_device_has_hart_secondary_boot g"
  "hsm_device_hart_start (upd_scratch i h g) = hsm_device_hart_start g"
  "hsm_device_hart_suspend (upd_data i f g) = hsm_device_hart_suspend g"
  "hsm_device_hart_suspend (upd_scratch i h g) = hsm_device_hart_suspend g"
  by (simp_all add: hsm_device_has_hart_hotplug_def hsm_device_hart_stop_def fun_eq_iff
      hsm_device_has_hart_secondary_boot_def hsm_device_hart_start_def hsm_device_hart_suspend_def)

lemmas hsm_op_defs = sbi_hsm_hart_start_finish_def sbi_hsm_exit_def sbi_hsm_hart_start_def
  sbi_hsm_hart_stop_def sbi_hsm_hart_resume_start_def sbi_hsm_hart_resume_finish_def
  sbi_hsm_hart_suspend_def hsm_start_ticket_acquire_def hsm_start_ticket_release_def
  hsm_suspend_non_ret_save_def hsm_suspend_non_ret_restore_def state_cmpxchg_def change_state_eq Let_def

text \<open>What a suspend does to the states of the harts.\<close>

lemma suspend_run_state:
  assumes "state_of g i = SBI_HSM_STATE_SUSPENDED"
  shows "state_of (snd (hsm_suspend_run p i t g)) j = state_of g j \<or>
    j = i \<and> state_of (snd (hsm_suspend_run p i t g)) j = SBI_HSM_STATE_STARTED"
proof -
  define nr where "nr = (t AND SBI_HSM_SUSP_NON_RET_BIT \<noteq> 0)"
  define g1 where "g1 = upd_data i (\<lambda>h. h\<lparr>suspend_type := ucast t\<rparr>) g"
  define g2 where "g2 = (if nr then hsm_suspend_non_ret_save p i g1 else g1)"
  have s: "state_of g2 k = state_of g k" for k
    by (simp add: g2_def g1_def hsm_suspend_non_ret_save_def)
  have "snd (hsm_suspend_run p i t g) = g2 \<or>
      snd (hsm_suspend_run p i t g) = snd (sbi_hsm_hart_change_state i SBI_HSM_STATE_SUSPENDED SBI_HSM_STATE_STARTED g2)"
    unfolding hsm_suspend_run_def nr_def [symmetric] Let_def g1_def [symmetric] g2_def [symmetric]
    by (simp split: prod.split)
  then show ?thesis using s assms by (cases "j = i") (auto simp: change_state_eq)
qed

lemma suspend_outcomes:
  fixes i x a m g
  defines "g0 \<equiv> upd_scratch i (\<lambda>s. s\<lparr>next_arg1 := x, next_addr := a, next_mode := m\<rparr>) g"
  shows "(\<exists>e. sbi_hsm_hart_suspend p i t a m x g = (Ret e, g)) \<or>
    (\<exists>e. sbi_hsm_hart_suspend p i t a m x g = (Ret e, g0)) \<or>
    state_of g i = SBI_HSM_STATE_STARTED \<and>
    sbi_hsm_hart_suspend p i t a m x g =
      hsm_suspend_run p i t (upd_data i (\<lambda>h. h\<lparr>hsm_state := SBI_HSM_STATE_SUSPENDED\<rparr>) g0)"
proof (cases "sbi_hartindex_to_domain (hsm_doms g) i")
  case (Some d)
  define c where "c = (bad_suspend_type t, t AND SBI_HSM_SUSP_NON_RET_BIT \<noteq> 0, m \<noteq> PRV_S \<and> m \<noteq> PRV_U,
    sbi_domain_check_addr (Some (domains (hsm_doms g) d)) a m SBI_DOMAIN_EXECUTE)"
  obtain c1 c2 c3 c4 where c: "c = (c1, c2, c3, c4)" by (metis prod_cases4)
  note e = c [unfolded c_def prod.inject]
  have "state_of g0 i = state_of g i" by (simp add: g0_def)
  then have "sbi_hsm_hart_suspend p i t a m x g =
      (if c1 then (Ret SBI_EINVAL, g) else if c2 \<and> c3 then (Ret SBI_EFAIL, g)
       else if c2 \<and> \<not> c4 then (Ret SBI_EINVALID_ADDR, g)
       else if state_of g i = SBI_HSM_STATE_STARTED
       then hsm_suspend_run p i t (upd_data i (\<lambda>h. h\<lparr>hsm_state := SBI_HSM_STATE_SUSPENDED\<rparr>) g0)
       else (Ret SBI_EFAIL, g0))"
    unfolding sbi_hsm_hart_suspend_def Some option.case Let_def change_state_eq
    by (simp only: e g0_def [symmetric] prod.case conj_assoc if_True if_False) simp
  then show ?thesis by simp
qed (simp add: sbi_hsm_hart_suspend_def)

lemma suspend_state:
  "state_of (snd (sbi_hsm_hart_suspend p i t a m x g)) j = state_of g j \<or>
    j = i \<and> state_of g i = SBI_HSM_STATE_STARTED \<and>
    state_of (snd (sbi_hsm_hart_suspend p i t a m x g)) j = SBI_HSM_STATE_SUSPENDED"
proof -
  define g1 where "g1 = upd_data i (\<lambda>h. h\<lparr>hsm_state := SBI_HSM_STATE_SUSPENDED\<rparr>)
    (upd_scratch i (\<lambda>s. s\<lparr>next_arg1 := x, next_addr := a, next_mode := m\<rparr>) g)"
  have s: "state_of g1 i = SBI_HSM_STATE_SUSPENDED" "j \<noteq> i \<Longrightarrow> state_of g1 j = state_of g j"
    by (simp_all add: g1_def)
  show ?thesis
    using suspend_outcomes [of p i t a m x g, folded g1_def] suspend_run_state [OF s(1), of p t j] s
    by (cases "j = i") auto
qed

text \<open>What a start request does, branch by branch, once its arguments are accepted.\<close>

definition start_accepted :: "hsm_globals \<Rightarrow> nat option \<Rightarrow> u32 \<Rightarrow> ulong \<Rightarrow> ulong \<Rightarrow> nat \<Rightarrow> bool" where
  "start_accepted g d hartid saddr smode i \<longleftrightarrow>
    i = unat (sbi_hartid_to_hartindex (scratch_tab (hsm_doms g)) hartid) \<and>
    (smode = PRV_S \<or> smode = PRV_U) \<and>
    (d = None \<or> sbi_domain_is_assigned_hart (hsm_doms g) d i \<and>
      sbi_domain_check_addr (map_option (domains (hsm_doms g)) d) saddr smode SBI_DOMAIN_EXECUTE) \<and>
    sbi_hartindex_to_scratch (scratch_tab (hsm_doms g)) (of_nat i) \<noteq> 0"

lemma start_rejected:
  assumes "\<not> start_accepted g d hartid saddr smode (unat (sbi_hartid_to_hartindex (scratch_tab (hsm_doms g)) hartid))"
  shows "snd (sbi_hsm_hart_start ipi ic ec self d hartid saddr smode arg1 g) = g \<and>
    fst (sbi_hsm_hart_start ipi ic ec self d hartid saddr smode arg1 g) \<in> {SBI_EINVAL, SBI_EINVALID_ADDR}"
  using assms by (auto simp: start_accepted_def sbi_hsm_hart_start_def Let_def)

lemma start_busy:
  assumes "start_accepted g d hartid saddr smode i" and "start_ticket (hsm_data g i) \<noteq> 0"
  shows "sbi_hsm_hart_start ipi ic ec self d hartid saddr smode arg1 g = (SBI_EINVAL, g)"
  using assms by (auto simp: start_accepted_def sbi_hsm_hart_start_def hsm_start_ticket_acquire_def Let_def)

lemma start_not_stopped:
  assumes "start_accepted g d hartid saddr smode i" and "start_ticket (hsm_data g i) = 0"
    and "state_of g i \<noteq> SBI_HSM_STATE_STOPPED"
  shows "sbi_hsm_hart_start ipi ic ec self d hartid saddr smode arg1 g =
    (if state_of g i = SBI_HSM_STATE_STARTED then SBI_EALREADY else SBI_EINVAL,
     upd_data i (\<lambda>h. h\<lparr>start_ticket := 0\<rparr>)
      (upd_scratch i (\<lambda>s. s\<lparr>next_arg1 := arg1, next_addr := saddr, next_mode := smode\<rparr>)
        (upd_data i (\<lambda>h. h\<lparr>start_ticket := 1\<rparr>) g)))"
  using assms by (auto simp: start_accepted_def hsm_op_defs)

lemma start_stopped:
  fixes ipi ic ec self hartid saddr smode arg1 g i
  defines "g' \<equiv> upd_scratch i (\<lambda>s. s\<lparr>next_arg1 := arg1, next_addr := saddr, next_mode := smode\<rparr>)
      (upd_data i (\<lambda>h. h\<lparr>start_ticket := 1, hsm_state := SBI_HSM_STATE_START_PENDING\<rparr>) g)"
    and "rc \<equiv> (if hsm_device_has_hart_hotplug g \<and> ec i = ic i \<or> hsm_device_has_hart_secondary_boot g \<and> ic i = 0
          then hsm_device_hart_start g hartid (warmboot_addr (hsm_scratch g self)) else ipi i)"
  assumes "start_accepted g d hartid saddr smode i" and "start_ticket (hsm_data g i) = 0"
    and "state_of g i = SBI_HSM_STATE_STOPPED"
  shows "sbi_hsm_hart_start ipi ic ec self d hartid saddr smode arg1 g =
    (if rc = 0 then (0, g')
     else (rc, upd_data i (\<lambda>h. h\<lparr>hsm_state := SBI_HSM_STATE_STOPPED, start_ticket := 0\<rparr>) g'))"
proof -
  have i: "unat (sbi_hartid_to_hartindex (scratch_tab (hsm_doms g)) hartid) = i"
    using assms(3) by (simp add: start_accepted_def)
  define g1 where "g1 = upd_scratch i (\<lambda>s. s\<lparr>next_arg1 := arg1, next_addr := saddr, next_mode := smode\<rparr>)
      (upd_data i (\<lambda>h. h\<lparr>start_ticket := 1\<rparr>) g)"
  have g': "upd_data i (\<lambda>h. h\<lparr>hsm_state := SBI_HSM_STATE_START_PENDING\<rparr>) g1 = g'"
    by (simp add: g1_def g'_def upd_data_def upd_scratch_def)
  have st: "state_of g1 i = SBI_HSM_STATE_STOPPED" "state_of g' i = SBI_HSM_STATE_START_PENDING"
    "warmboot_addr (hsm_scratch g' self) = warmboot_addr (hsm_scratch g self)"
    using assms(5) by (simp_all add: g1_def g'_def)
  have rc: "rc = (if hsm_device_has_hart_hotplug g' \<and> ec i = ic i \<or> hsm_device_has_hart_secondary_boot g' \<and> ic i = 0
          then hsm_device_hart_start g' hartid (warmboot_addr (hsm_scratch g' self)) else ipi i)"
    unfolding st(3) by (simp add: rc_def g'_def)
  have c: "(smode \<noteq> PRV_S \<and> smode \<noteq> PRV_U) = False"
      "(d \<noteq> None \<and> \<not> sbi_domain_is_assigned_hart (hsm_doms g) d i) = False"
      "(d \<noteq> None \<and> \<not> sbi_domain_check_addr (map_option (domains (hsm_doms g)) d) saddr smode SBI_DOMAIN_EXECUTE) = False"
      "(sbi_hartindex_to_scratch (scratch_tab (hsm_doms g)) (of_nat i) = 0) = False"
    using assms(3) by (auto simp: start_accepted_def)
  have t: "hsm_start_ticket_acquire i g = (True, upd_data i (\<lambda>h. h\<lparr>start_ticket := 1\<rparr>) g)"
    using assms(4) by (simp add: hsm_start_ticket_acquire_def)
  have x: "state_cmpxchg i SBI_HSM_STATE_STOPPED SBI_HSM_STATE_START_PENDING g1 = (SBI_HSM_STATE_STOPPED, g')"
    using st(1) g' by (simp add: state_cmpxchg_def)
  have ns: "(SBI_HSM_STATE_STOPPED = SBI_HSM_STATE_STARTED) = False"
    "(SBI_HSM_STATE_STOPPED \<noteq> SBI_HSM_STATE_STOPPED) = False" by simp_all
  have "sbi_hsm_hart_start ipi ic ec self d hartid saddr smode arg1 g =
      (if rc = 0 then (0, g')
       else (rc, hsm_start_ticket_release i (upd_data i (\<lambda>h. h\<lparr>hsm_state := SBI_HSM_STATE_STOPPED\<rparr>) g')))"
    unfolding sbi_hsm_hart_start_def Let_def i c if_False t prod.case not_True_eq_False g1_def [symmetric] x ns
      rc [symmetric] change_state_eq st(2)
    by simp
  then show ?thesis by (simp add: hsm_start_ticket_release_def upd_data_def)
qed

lemma start_transition:
  fixes ipi ic ec self d hartid saddr smode arg1 g
  defines "i \<equiv> unat (sbi_hartid_to_hartindex (scratch_tab (hsm_doms g)) hartid)"
    and "r \<equiv> sbi_hsm_hart_start ipi ic ec self d hartid saddr smode arg1 g"
  shows "state_of (snd r) j = state_of g j \<or>
    j = i \<and> state_of g j = SBI_HSM_STATE_STOPPED \<and> state_of (snd r) j = SBI_HSM_STATE_START_PENDING"
proof (cases "start_accepted g d hartid saddr smode i")
  case True
  consider "start_ticket (hsm_data g i) \<noteq> 0"
    | "start_ticket (hsm_data g i) = 0" "state_of g i \<noteq> SBI_HSM_STATE_STOPPED"
    | "start_ticket (hsm_data g i) = 0" "state_of g i = SBI_HSM_STATE_STOPPED" by blast
  then show ?thesis
    by cases (simp_all add: r_def start_busy [OF True] start_not_stopped [OF True] start_stopped [OF True])
next
  case False
  then show ?thesis using start_rejected [OF False [unfolded i_def]] by (simp add: r_def)
qed

text \<open>What a suspend that ends in the warm-boot entry has done.\<close>

lemma suspend_run_jump:
  assumes "hsm_suspend_run p i t g = (Jump_warmboot w, g')"
  shows "t AND SBI_HSM_SUSP_NON_RET_BIT \<noteq> 0"
    and "g' = hsm_suspend_non_ret_save p i (upd_data i (\<lambda>h. h\<lparr>suspend_type := ucast t\<rparr>) g)"
proof -
  define nr where "nr = (t AND SBI_HSM_SUSP_NON_RET_BIT \<noteq> 0)"
  have nr: "nr" using assms unfolding hsm_suspend_run_def nr_def [symmetric] Let_def
    by (auto split: if_splits prod.splits)
  show "t AND SBI_HSM_SUSP_NON_RET_BIT \<noteq> 0" using nr nr_def by blast
  show "g' = hsm_suspend_non_ret_save p i (upd_data i (\<lambda>h. h\<lparr>suspend_type := ucast t\<rparr>) g)"
    using assms nr unfolding hsm_suspend_run_def nr_def [symmetric] Let_def
    by (auto split: if_splits prod.splits)
qed

lemma suspend_jump:
  assumes "sbi_hsm_hart_suspend p i t raddr rmode arg1 g = (Jump_warmboot w, g')"
  shows "g' = hsm_suspend_non_ret_save p i (upd_data i (\<lambda>h. h\<lparr>hsm_state := SBI_HSM_STATE_SUSPENDED,
    suspend_type := ucast t\<rparr>) (upd_scratch i (\<lambda>s. s\<lparr>next_arg1 := arg1, next_addr := raddr, next_mode := rmode\<rparr>) g))"
proof -
  define g1 where "g1 = upd_data i (\<lambda>h. h\<lparr>hsm_state := SBI_HSM_STATE_SUSPENDED\<rparr>)
    (upd_scratch i (\<lambda>s. s\<lparr>next_arg1 := arg1, next_addr := raddr, next_mode := rmode\<rparr>) g)"
  have "hsm_suspend_run p i t g1 = (Jump_warmboot w, g')"
    using suspend_outcomes [of p i t raddr rmode arg1 g, folded g1_def] assms by auto
  from suspend_run_jump(2) [OF this] show ?thesis by (simp add: g1_def upd_data_def)
qed

subsection \<open>Properties\<close>

text \<open>The operations that write the state of a hart, with their arguments.\<close>

datatype hsm_op =
    Start "nat \<Rightarrow> int" "nat \<Rightarrow> ulong" "nat \<Rightarrow> ulong" nat "nat option" u32 ulong ulong ulong
  | Start_finish nat u32
  | Stop nat
  | Exit nat
  | Suspend bool nat u32 ulong ulong ulong
  | Resume_start nat
  | Resume_finish bool nat u32

fun hsm_exec :: "hsm_op \<Rightarrow> hsm_globals \<Rightarrow> hsm_globals" where
  "hsm_exec (Start ipi ic ec self d hartid saddr smode arg1) g =
    snd (sbi_hsm_hart_start ipi ic ec self d hartid saddr smode arg1 g)"
| "hsm_exec (Start_finish i hartid) g = snd (sbi_hsm_hart_start_finish i hartid g)"
| "hsm_exec (Stop i) g = snd (sbi_hsm_hart_stop i g)"
| "hsm_exec (Exit i) g = snd (sbi_hsm_exit i g)"
| "hsm_exec (Suspend p i t a m x) g = snd (sbi_hsm_hart_suspend p i t a m x g)"
| "hsm_exec (Resume_start i) g = snd (sbi_hsm_hart_resume_start i g)"
| "hsm_exec (Resume_finish p i hartid) g = snd (sbi_hsm_hart_resume_finish p i hartid g)"

text \<open>The hart an operation acts on, and the one transition it may make.\<close>

fun op_hart :: "hsm_globals \<Rightarrow> hsm_op \<Rightarrow> nat" where
  "op_hart g (Start _ _ _ _ _ hartid _ _ _) = unat (sbi_hartid_to_hartindex (scratch_tab (hsm_doms g)) hartid)"
| "op_hart g (Start_finish i _) = i"
| "op_hart g (Stop i) = i"
| "op_hart g (Exit i) = i"
| "op_hart g (Suspend _ i _ _ _ _) = i"
| "op_hart g (Resume_start i) = i"
| "op_hart g (Resume_finish _ i _) = i"

fun op_transition :: "hsm_op \<Rightarrow> int \<times> int" where
  "op_transition (Start _ _ _ _ _ _ _ _ _) = (SBI_HSM_STATE_STOPPED, SBI_HSM_STATE_START_PENDING)"
| "op_transition (Start_finish _ _) = (SBI_HSM_STATE_START_PENDING, SBI_HSM_STATE_STARTED)"
| "op_transition (Stop _) = (SBI_HSM_STATE_STARTED, SBI_HSM_STATE_STOP_PENDING)"
| "op_transition (Exit _) = (SBI_HSM_STATE_STOP_PENDING, SBI_HSM_STATE_STOPPED)"
| "op_transition (Suspend _ _ _ _ _ _) = (SBI_HSM_STATE_STARTED, SBI_HSM_STATE_SUSPENDED)"
| "op_transition (Resume_start _) = (SBI_HSM_STATE_SUSPENDED, SBI_HSM_STATE_RESUME_PENDING)"
| "op_transition (Resume_finish _ _ _) = (SBI_HSM_STATE_RESUME_PENDING, SBI_HSM_STATE_STARTED)"

text \<open>An instance: two harts, hart 0 in the state \<open>st\<close>.\<close>

definition ex_hsm :: "int \<Rightarrow> hsm_globals" where
  "ex_hsm st = \<lparr>hsm_doms = (ex_domains\<lparr>hart_domain_ptr := (\<lambda>_. Some 0),
      domains := (\<lambda>d. ex_domain [dev_region, fw_region, ram_region]\<lparr>assigned_harts := hart0\<rparr>)\<rparr>),
    hsm_data = (\<lambda>_. \<lparr>hsm_state = st, suspend_type = 0, saved_mie = 0, saved_mip = 0, saved_medeleg = 0,
      saved_menvcfg = 0, start_ticket = 0\<rparr>),
    hsm_scratch = (\<lambda>_. \<lparr>fw_start = 0x80000000, fw_size = 0x40000, fw_rw_offset = 0, fw_heap_offset = 0,
      fw_heap_size = 0, next_arg1 = 0, next_addr = 0x80200000, next_mode = 1, warmboot_addr = 0x80000400,
      platform_addr = 0, hartid_to_scratch = 0, trap_context = 0, tmp0 = 0, options = 0, hartindex = 0\<rparr>),
    hsm_csrs = (\<lambda>_. \<lparr>csr_mie = 0x222, csr_mip = 0x20, csr_medeleg = 0xb109, csr_menvcfg = 0\<rparr>), hsm_dev = None\<rparr>"

lemma ex_hsm_accepted: "start_accepted (ex_hsm st) (Some 0) 0 0x80300000 1 0"
proof -
  have h: "sbi_hartid_to_hartindex ex_scratch 0 = 0"
    by (simp add: sbi_hartid_to_hartindex_def ex_scratch_def)
  have t: "sbi_hartmask_test_hartindex 0 hart0" by (simp add: hartset_test)
  have c: "sbi_domain_check_addr (Some (ex_domain [dev_region, fw_region, ram_region]\<lparr>assigned_harts := hart0\<rparr>)) 0x80300000 1 4"
    by (simp add: domain_eval)
  show ?thesis
    using t c by (simp add: start_accepted_def ex_hsm_def ex_domains_def h sbi_domain_is_assigned_hart_def)
      (simp add: sbi_hartindex_to_scratch_def ex_scratch_def)
qed

lemma ex_hsm_fields:
  "start_ticket (hsm_data (ex_hsm st) i) = 0" "state_of (ex_hsm st) i = st" "hsm_dev (ex_hsm st) = None"
  by (simp_all add: ex_hsm_def)

text \<open>C22: The life cycle of a hart: each of the HSM operations leaves the state of every hart as it was,
  or makes the one transition of that operation on the one hart it acts on. In particular a start
  only wakes a stopped hart, and no operation moves a hart that is not its own target.\<close>

theorem hsm_transitions:
  "state_of (hsm_exec op g) j = state_of g j \<or>
   j = op_hart g op \<and> (state_of g j, state_of (hsm_exec op g) j) = op_transition op"
proof (cases op)
  case (Start ipi ic ec self d hartid saddr smode arg1)
  then show ?thesis using start_transition [of ipi ic ec self d hartid saddr smode arg1 g j] by auto
next
  case (Suspend p i t a m x)
  then show ?thesis using suspend_state [of p i t a m x g j] by auto
qed (auto simp: hsm_op_defs)

text \<open>A start request that reports success hands its arguments over: the target is left in
  \<open>START_PENDING\<close> with the ticket taken, the entry point is executable for the requested mode in the
  domain, and the target's \<open>sbi_hsm_hart_start_finish\<close> then enters that mode at the requested
  address with the requested argument, in state \<open>STARTED\<close> and with the ticket free again.\<close>

theorem start_hands_over:
  assumes "sbi_hsm_hart_start ipi ic ec self d hartid saddr smode arg1 g = (0, g')"
  defines "i \<equiv> unat (sbi_hartid_to_hartindex (scratch_tab (hsm_doms g)) hartid)"
  shows "state_of g' i = SBI_HSM_STATE_START_PENDING \<and> start_ticket (hsm_data g' i) = 1 \<and>
    (d \<noteq> None \<longrightarrow> sbi_domain_check_addr (map_option (domains (hsm_doms g)) d) saddr smode SBI_DOMAIN_EXECUTE) \<and>
    (\<exists>g''. sbi_hsm_hart_start_finish i hartid g' = (Switch_mode hartid arg1 saddr smode, g'') \<and>
      state_of g'' i = SBI_HSM_STATE_STARTED \<and> start_ticket (hsm_data g'' i) = 0)"
proof -
  have a: "start_accepted g d hartid saddr smode i"
    using start_rejected [of g d hartid saddr smode ipi ic ec self arg1] assms(1) by (auto simp: i_def)
  have t: "start_ticket (hsm_data g i) = 0"
    using start_busy [OF a, of ipi ic ec self arg1] assms(1) by (cases "start_ticket (hsm_data g i) = 0") auto
  have s: "state_of g i = SBI_HSM_STATE_STOPPED"
    using start_not_stopped [OF a t, of ipi ic ec self arg1] assms(1)
    by (cases "state_of g i = SBI_HSM_STATE_STOPPED") (simp_all split: if_splits)
  have g': "g' = upd_scratch i (\<lambda>s. s\<lparr>next_arg1 := arg1, next_addr := saddr, next_mode := smode\<rparr>)
      (upd_data i (\<lambda>h. h\<lparr>start_ticket := 1, hsm_state := SBI_HSM_STATE_START_PENDING\<rparr>) g)"
    using start_stopped [OF a t s, of ipi ic ec self arg1] assms(1) by (auto split: if_splits)
  show ?thesis using a by (auto simp: g' start_accepted_def hsm_op_defs)
qed

theorem start_hands_over_witness:
  "\<exists>g' g''. sbi_hsm_hart_start (\<lambda>_. 0) (\<lambda>_. 0) (\<lambda>_. 0) 1 (Some 0) 0 0x80300000 1 7 (ex_hsm 1) = (0, g') \<and>
    sbi_hsm_hart_start_finish 0 0 g' = (Switch_mode 0 7 0x80300000 1, g'')"
proof -
  have i: "unat (sbi_hartid_to_hartindex (scratch_tab (hsm_doms (ex_hsm 1))) 0) = 0"
    using ex_hsm_accepted [of 1] by (simp add: start_accepted_def)
  obtain g' where g': "sbi_hsm_hart_start (\<lambda>_. 0) (\<lambda>_. 0) (\<lambda>_. 0) 1 (Some 0) 0 0x80300000 1 7 (ex_hsm 1) = (0, g')"
    using start_stopped [OF ex_hsm_accepted [of 1], of "\<lambda>_. 0" "\<lambda>_. 0" "\<lambda>_. 0" 1 7]
    by (simp add: ex_hsm_fields hsm_device_has_hart_hotplug_def hsm_device_has_hart_secondary_boot_def)
  show ?thesis using start_hands_over [OF g'] g' by (auto simp: i)
qed

text \<open>A start request that reports an error leaves the state of every hart and every start ticket
  as they were.\<close>

theorem start_error_keeps:
  assumes "sbi_hsm_hart_start ipi ic ec self d hartid saddr smode arg1 g = (rc, g')" and "rc \<noteq> 0"
  shows "\<forall>j. state_of g' j = state_of g j \<and> start_ticket (hsm_data g' j) = start_ticket (hsm_data g j)"
proof -
  define i where "i = unat (sbi_hartid_to_hartindex (scratch_tab (hsm_doms g)) hartid)"
  show ?thesis
  proof (cases "start_accepted g d hartid saddr smode i")
    case True
    consider "start_ticket (hsm_data g i) \<noteq> 0"
      | "start_ticket (hsm_data g i) = 0" "state_of g i \<noteq> SBI_HSM_STATE_STOPPED"
      | "start_ticket (hsm_data g i) = 0" "state_of g i = SBI_HSM_STATE_STOPPED" by blast
    then show ?thesis
      using assms by cases (auto simp: start_busy [OF True] start_not_stopped [OF True] start_stopped [OF True] split: if_splits)
  next
    case False
    then show ?thesis using start_rejected [OF False [unfolded i_def], of ipi ic ec self arg1] assms by auto
  qed
qed

theorem start_error_keeps_witness:
  "\<exists>g'. sbi_hsm_hart_start (\<lambda>_. 0) (\<lambda>_. 0) (\<lambda>_. 0) 1 (Some 0) 0 0x80300000 1 7 (ex_hsm 0) = (SBI_EALREADY, g') \<and>
    (\<forall>j. state_of g' j = 0)"
proof -
  obtain g' where g': "sbi_hsm_hart_start (\<lambda>_. 0) (\<lambda>_. 0) (\<lambda>_. 0) 1 (Some 0) 0 0x80300000 1 7 (ex_hsm 0) = (SBI_EALREADY, g')"
    using start_not_stopped [OF ex_hsm_accepted [of 0], of "\<lambda>_. 0" "\<lambda>_. 0" "\<lambda>_. 0" 1 7] by (simp add: ex_hsm_fields)
  show ?thesis using start_error_keeps [OF g'] g' by (auto simp: ex_hsm_fields)
qed

text \<open>A failed start request for a suspended hart redirects the hart: the request is refused with
  \<open>SBI_EINVAL\<close>, yet its argument, address and mode have replaced the saved resume point, and the
  hart resumes there.\<close>

theorem start_clobbers_suspended:
  assumes "start_accepted g d hartid saddr smode i" and "start_ticket (hsm_data g i) = 0"
    and "state_of g i = SBI_HSM_STATE_SUSPENDED"
  shows "\<exists>g1 g2 g3. sbi_hsm_hart_start ipi ic ec self d hartid saddr smode arg1 g = (SBI_EINVAL, g1) \<and>
    sbi_hsm_hart_resume_start i g1 = (Ret 0, g2) \<and>
    sbi_hsm_hart_resume_finish p i hartid g2 = (Switch_mode hartid arg1 saddr smode, g3)"
  using assms start_not_stopped [OF assms(1,2)] by (auto simp: hsm_op_defs)


theorem start_clobbers_suspended_witness:
  "\<exists>g1 g2 g3. sbi_hsm_hart_start (\<lambda>_. 0) (\<lambda>_. 0) (\<lambda>_. 0) 1 (Some 0) 0 0x80300000 1 7 (ex_hsm 4) = (SBI_EINVAL, g1) \<and>
    sbi_hsm_hart_resume_start 0 g1 = (Ret 0, g2) \<and>
    sbi_hsm_hart_resume_finish True 0 0 g2 = (Switch_mode 0 7 0x80300000 1, g3)"
  by (rule start_clobbers_suspended [OF ex_hsm_accepted]) (simp_all add: ex_hsm_fields)

text \<open>A non-retentive suspend that went down through the warm-boot entry comes back where it was told
  to: whatever the warm boot wrote to the CSRs, \<open>sbi_hsm_hart_resume_start\<close> and
  \<open>sbi_hsm_hart_resume_finish\<close> enter the saved mode at the saved address with the saved argument,
  with \<open>mie\<close>, \<open>medeleg\<close> and (on privileged spec 1.12) \<open>menvcfg\<close> as before the suspend and the
  pending supervisor software and timer interrupts set again.\<close>

theorem suspend_resume_roundtrip:
  assumes "sbi_hsm_hart_suspend p i t raddr rmode arg1 g = (Jump_warmboot w, g1)"
  defines "before \<equiv> hsm_csrs g i"
  shows "\<exists>g2 g3. sbi_hsm_hart_resume_start i (upd_csrs i boot g1) = (Ret 0, g2) \<and>
    sbi_hsm_hart_resume_finish p i hartid g2 = (Switch_mode hartid arg1 raddr rmode, g3) \<and>
    state_of g3 i = SBI_HSM_STATE_STARTED \<and>
    csr_mie (hsm_csrs g3 i) = csr_mie before \<and> csr_medeleg (hsm_csrs g3 i) = csr_medeleg before \<and>
    (p \<longrightarrow> csr_menvcfg (hsm_csrs g3 i) = csr_menvcfg before) \<and>
    csr_mip before AND (MIP_SSIP OR MIP_STIP) = csr_mip (hsm_csrs g3 i) AND csr_mip before AND (MIP_SSIP OR MIP_STIP)"
proof -
  have "csr_mip before AND 34 = (y OR (csr_mip before AND 34)) AND csr_mip before AND (34 :: ulong)" for y
    by (rule bit_word_eqI) (auto simp: bit_simps)
  then show ?thesis using suspend_jump [OF assms(1)] by (simp add: hsm_op_defs before_def)
qed

theorem suspend_resume_roundtrip_witness:
  "\<exists>g1 g2 g3. sbi_hsm_hart_suspend True 0 0x80000000 0x80300000 1 7 (ex_hsm 0) = (Jump_warmboot 0x80000400, g1) \<and>
    sbi_hsm_hart_resume_start 0 (upd_csrs 0 (\<lambda>c. c\<lparr>csr_mie := 0, csr_mip := 0\<rparr>) g1) = (Ret 0, g2) \<and>
    sbi_hsm_hart_resume_finish True 0 0 g2 = (Switch_mode 0 7 0x80300000 1, g3) \<and> csr_mie (hsm_csrs g3 0) = 0x222"
proof -
  have d: "sbi_hartindex_to_domain (hsm_doms (ex_hsm 0)) 0 = Some 0"
    by (simp add: ex_hsm_def ex_domains_def sbi_hartindex_to_domain_def sbi_hartindex_to_scratch_def ex_scratch_def)
  have c: "sbi_domain_check_addr (Some (domains (hsm_doms (ex_hsm 0)) 0)) 0x80300000 1 4"
    using ex_hsm_accepted [of 0] by (simp add: start_accepted_def)
  have b: "\<not> bad_suspend_type 0x80000000" by (simp add: bad_suspend_type_def)
  obtain g1 where g1: "sbi_hsm_hart_suspend True 0 0x80000000 0x80300000 1 7 (ex_hsm 0) = (Jump_warmboot 0x80000400, g1)"
    using b c by (simp add: sbi_hsm_hart_suspend_def d change_state_eq hsm_suspend_run_def hsm_try_suspend_def
        hsm_device_hart_suspend_def hsm_suspend_non_ret_save_def ex_hsm_fields Let_def)
      (simp add: ex_hsm_def)
  have "csr_mie (hsm_csrs (ex_hsm 0) 0) = 0x222" by (simp add: ex_hsm_def)
  then show ?thesis using suspend_resume_roundtrip [OF g1, of "\<lambda>c. c\<lparr>csr_mie := 0, csr_mip := 0\<rparr>" 0] g1 by auto
qed

end
