(* ===== verification/Sbi_Hsm_Race.thy ===== *)
theory Sbi_Hsm_Race
  imports Sbi_Hsm
begin

text \<open>
  The protocol between the harts that request the start of one target hart
  (\<open>sbi_hsm_hart_start\<close>) and the target (\<open>sbi_hsm_hart_wait\<close>, \<open>sbi_hsm_hart_start_finish\<close>,
  \<open>sbi_hsm_hart_stop\<close>, \<open>sbi_hsm_exit\<close>), as an interleaving of the single loads, stores and
  compare-and-swaps of the source. Any number of requesters, numbered by \<^typ>\<open>nat\<close>, runs at any
  speed. \<open>committed\<close> is a ghost: the request whose compare-and-swap was the last to succeed.
  The flag of the step relation says whether the wake-up of the target may report a failure.
\<close>

subsection \<open>The interleaved steps\<close>

type_synonym start_request = "ulong \<times> ulong \<times> ulong"

text \<open>The program counter of a requester: the access of \<open>sbi_hsm_hart_start\<close> it makes next.\<close>

datatype req_pc =
    R_Idle
  | R_Arg1 start_request
  | R_Addr start_request
  | R_Mode start_request
  | R_Cas start_request
  | R_Send
  | R_Release

datatype tgt_pc =
    T_Wait
  | T_Boot
  | T_Ld_Arg1
  | T_Ld_Addr ulong
  | T_Ld_Mode ulong ulong
  | T_Release start_request
  | T_Run start_request
  | T_Exit

record race =
  r_state :: int
  r_ticket :: int
  n_arg1 :: ulong
  n_addr :: ulong
  n_mode :: ulong
  rpc :: "nat \<Rightarrow> req_pc"
  tpc :: tgt_pc
  committed :: "start_request option"

inductive race_step :: "bool \<Rightarrow> race \<Rightarrow> race \<Rightarrow> bool" for may_fail :: bool where
  acquire: "rpc c p = R_Idle \<Longrightarrow> r_ticket c = 0 \<Longrightarrow>
    race_step may_fail c (c\<lparr>r_ticket := 1, rpc := (rpc c)(p := R_Arg1 q)\<rparr>)"
| write_arg1: "rpc c p = R_Arg1 q \<Longrightarrow>
    race_step may_fail c (c\<lparr>n_arg1 := fst q, rpc := (rpc c)(p := R_Addr q)\<rparr>)"
| write_addr: "rpc c p = R_Addr q \<Longrightarrow>
    race_step may_fail c (c\<lparr>n_addr := fst (snd q), rpc := (rpc c)(p := R_Mode q)\<rparr>)"
| write_mode: "rpc c p = R_Mode q \<Longrightarrow>
    race_step may_fail c (c\<lparr>n_mode := snd (snd q), rpc := (rpc c)(p := R_Cas q)\<rparr>)"
| cas_ok: "rpc c p = R_Cas q \<Longrightarrow> r_state c = SBI_HSM_STATE_STOPPED \<Longrightarrow>
    race_step may_fail c (c\<lparr>r_state := SBI_HSM_STATE_START_PENDING, committed := Some q,
      rpc := (rpc c)(p := R_Send)\<rparr>)"
| cas_err: "rpc c p = R_Cas q \<Longrightarrow> r_state c \<noteq> SBI_HSM_STATE_STOPPED \<Longrightarrow>
    race_step may_fail c (c\<lparr>rpc := (rpc c)(p := R_Release)\<rparr>)"
| send_ok: "rpc c p = R_Send \<Longrightarrow> race_step may_fail c (c\<lparr>rpc := (rpc c)(p := R_Idle)\<rparr>)"
| send_fail: "may_fail \<Longrightarrow> rpc c p = R_Send \<Longrightarrow>
    race_step may_fail c (c\<lparr>r_state := (if r_state c = SBI_HSM_STATE_START_PENDING
        then SBI_HSM_STATE_STOPPED else r_state c), rpc := (rpc c)(p := R_Release)\<rparr>)"
| release: "rpc c p = R_Release \<Longrightarrow>
    race_step may_fail c (c\<lparr>r_ticket := 0, rpc := (rpc c)(p := R_Idle)\<rparr>)"
| t_wake: "tpc c = T_Wait \<Longrightarrow> r_state c = SBI_HSM_STATE_START_PENDING \<Longrightarrow>
    race_step may_fail c (c\<lparr>tpc := T_Boot\<rparr>)"
| t_start: "tpc c = T_Boot \<Longrightarrow> r_state c = SBI_HSM_STATE_START_PENDING \<Longrightarrow>
    race_step may_fail c (c\<lparr>r_state := SBI_HSM_STATE_STARTED, tpc := T_Ld_Arg1\<rparr>)"
| t_arg1: "tpc c = T_Ld_Arg1 \<Longrightarrow> race_step may_fail c (c\<lparr>tpc := T_Ld_Addr (n_arg1 c)\<rparr>)"
| t_addr: "tpc c = T_Ld_Addr a \<Longrightarrow> race_step may_fail c (c\<lparr>tpc := T_Ld_Mode a (n_addr c)\<rparr>)"
| t_mode: "tpc c = T_Ld_Mode a b \<Longrightarrow> race_step may_fail c (c\<lparr>tpc := T_Release (a, b, n_mode c)\<rparr>)"
| t_release: "tpc c = T_Release r \<Longrightarrow> race_step may_fail c (c\<lparr>r_ticket := 0, tpc := T_Run r\<rparr>)"
| t_stop: "tpc c = T_Run r \<Longrightarrow> r_state c = SBI_HSM_STATE_STARTED \<Longrightarrow>
    race_step may_fail c (c\<lparr>r_state := SBI_HSM_STATE_STOP_PENDING, tpc := T_Exit\<rparr>)"
| t_exit: "tpc c = T_Exit \<Longrightarrow> r_state c = SBI_HSM_STATE_STOP_PENDING \<Longrightarrow>
    race_step may_fail c (c\<lparr>r_state := SBI_HSM_STATE_STOPPED, tpc := T_Wait\<rparr>)"

definition race_init :: "race \<Rightarrow> bool" where
  "race_init c \<longleftrightarrow> r_state c = SBI_HSM_STATE_STOPPED \<and> r_ticket c = 0 \<and> (\<forall>p. rpc c p = R_Idle) \<and> tpc c = T_Wait"

text \<open>A requester between taking the ticket and giving it away.\<close>

fun critical :: "req_pc \<Rightarrow> bool" where
  "critical R_Idle = False"
| "critical R_Send = False"
| "critical _ = True"

fun loading :: "tgt_pc \<Rightarrow> bool" where
  "loading T_Ld_Arg1 = True"
| "loading (T_Ld_Addr _) = True"
| "loading (T_Ld_Mode _ _) = True"
| "loading (T_Release _) = True"
| "loading _ = False"

subsection \<open>The invariant\<close>

text \<open>The ticket belongs to the target from the commit until it has read the request.\<close>

definition target_owns :: "race \<Rightarrow> bool" where
  "target_owns c \<longleftrightarrow> r_state c = SBI_HSM_STATE_START_PENDING \<or> loading (tpc c)"

fun pc_state :: "tgt_pc \<Rightarrow> int \<Rightarrow> bool" where
  "pc_state T_Wait s \<longleftrightarrow> s = SBI_HSM_STATE_STOPPED \<or> s = SBI_HSM_STATE_START_PENDING"
| "pc_state T_Boot s \<longleftrightarrow> s = SBI_HSM_STATE_START_PENDING"
| "pc_state T_Exit s \<longleftrightarrow> s = SBI_HSM_STATE_STOP_PENDING"
| "pc_state _ s \<longleftrightarrow> s = SBI_HSM_STATE_STARTED"

fun written :: "race \<Rightarrow> req_pc \<Rightarrow> bool" where
  "written c (R_Addr q) \<longleftrightarrow> n_arg1 c = fst q"
| "written c (R_Mode q) \<longleftrightarrow> n_arg1 c = fst q \<and> n_addr c = fst (snd q)"
| "written c (R_Cas q) \<longleftrightarrow> n_arg1 c = fst q \<and> n_addr c = fst (snd q) \<and> n_mode c = snd (snd q)"
| "written c _ \<longleftrightarrow> True"

fun loaded :: "race \<Rightarrow> tgt_pc \<Rightarrow> bool" where
  "loaded c (T_Ld_Addr a) \<longleftrightarrow> a = n_arg1 c"
| "loaded c (T_Ld_Mode a b) \<longleftrightarrow> a = n_arg1 c \<and> b = n_addr c"
| "loaded c (T_Release r) \<longleftrightarrow> committed c = Some r"
| "loaded c (T_Run r) \<longleftrightarrow> committed c = Some r"
| "loaded c _ \<longleftrightarrow> True"

definition race_inv :: "race \<Rightarrow> bool" where
  "race_inv c \<longleftrightarrow>
    (\<forall>p q. critical (rpc c p) \<longrightarrow> critical (rpc c q) \<longrightarrow> p = q) \<and>
    (\<forall>p. critical (rpc c p) \<longrightarrow> r_ticket c = 1 \<and> \<not> target_owns c) \<and>
    (target_owns c \<longrightarrow> r_ticket c = 1 \<and> committed c = Some (n_arg1 c, n_addr c, n_mode c)) \<and>
    pc_state (tpc c) (r_state c) \<and>
    (\<forall>p. written c (rpc c p)) \<and> loaded c (tpc c)"

lemma race_inv_init: "race_init c \<Longrightarrow> race_inv c"
  by (simp add: race_init_def race_inv_def target_owns_def)

lemma written_idle: "\<not> critical pc \<Longrightarrow> written c pc"
  by (cases pc) auto

lemma written_cong:
  "n_arg1 c' = n_arg1 c \<Longrightarrow> n_addr c' = n_addr c \<Longrightarrow> n_mode c' = n_mode c \<Longrightarrow> written c' pc = written c pc"
  by (cases pc) auto

lemma loaded_cong:
  "n_arg1 c' = n_arg1 c \<Longrightarrow> n_addr c' = n_addr c \<Longrightarrow> committed c' = committed c \<Longrightarrow> loaded c' pc = loaded c pc"
  by (cases pc) auto

lemma loaded_running:
  "\<not> loading pc \<Longrightarrow> committed c' = committed c \<Longrightarrow> loaded c' pc = loaded c pc"
  by (cases pc) auto

lemma waiting_loaded: "pc_state pc SBI_HSM_STATE_STOPPED \<Longrightarrow> pc = T_Wait"
  by (cases pc) auto

text \<open>A store by the one requester in its critical section.\<close>

lemma race_inv_write:
  assumes inv: "race_inv c" and p: "critical (rpc c p)" and pc: "critical pc" "written c' pc"
    and same: "r_state c' = r_state c" "r_ticket c' = r_ticket c" "tpc c' = tpc c" "committed c' = committed c"
    and rpc': "rpc c' = (rpc c)(p := pc)"
  shows "race_inv c'"
proof -
  have u: "\<not> critical (rpc c q)" if "q \<noteq> p" for q using inv p that by (auto simp: race_inv_def)
  have own: "r_ticket c = 1" "\<not> target_owns c" using inv p by (auto simp: race_inv_def)
  have own': "\<not> target_owns c'" using own same by (simp add: target_owns_def)
  have "\<not> loading (tpc c)" using own by (simp add: target_owns_def)
  then have "loaded c' (tpc c')" using inv same loaded_running [of "tpc c" c' c] by (simp add: race_inv_def)
  then show ?thesis
    using inv u own own' pc same written_idle [OF u] by (auto simp: race_inv_def rpc')
qed

lemma race_inv_crit:
  assumes "race_inv c" and "rpc c p = pc" and "critical pc"
  shows "r_ticket c = 1" and "\<not> target_owns c" and "r \<noteq> p \<Longrightarrow> \<not> critical (rpc c r)"
proof -
  have c: "critical (rpc c p)" using assms by simp
  show "r_ticket c = 1" "\<not> target_owns c" using assms(1) c unfolding race_inv_def by blast+
  show "r \<noteq> p \<Longrightarrow> \<not> critical (rpc c r)" using assms(1) c unfolding race_inv_def by blast
qed

lemma race_inv_quiet:
  assumes "\<And>r. \<not> critical (rpc c r)" and "pc_state (tpc c) (r_state c)" and "loaded c (tpc c)"
    and "target_owns c \<Longrightarrow> r_ticket c = 1 \<and> committed c = Some (n_arg1 c, n_addr c, n_mode c)"
  shows "race_inv c"
  using assms written_idle [OF assms(1)] by (simp add: race_inv_def)

text \<open>A step of the target, or of a requester that is not in its critical section.\<close>

lemma race_inv_other:
  assumes inv: "race_inv c" and crit: "\<And>r. critical (rpc c' r) \<Longrightarrow> rpc c' r = rpc c r"
    and own: "target_owns c' \<Longrightarrow> target_owns c" and tick: "target_owns c' \<or> (\<exists>r. critical (rpc c' r)) \<Longrightarrow> r_ticket c' = r_ticket c"
    and same: "n_arg1 c' = n_arg1 c" "n_addr c' = n_addr c" "n_mode c' = n_mode c" "committed c' = committed c"
    and pc: "pc_state (tpc c') (r_state c')" and l: "loaded c' (tpc c')"
  shows "race_inv c'"
proof -
  have w: "written c' (rpc c' r)" for r
  proof (cases "critical (rpc c' r)")
    case True
    then show ?thesis using inv crit [OF True] same written_cong [of c' c] by (simp add: race_inv_def)
  qed (rule written_idle)
  have c: "critical (rpc c r)" if "critical (rpc c' r)" for r using crit [OF that] that by simp
  have u: "p = q" if "critical (rpc c' p)" "critical (rpc c' q)" for p q
    using inv c [OF that(1)] c [OF that(2)] by (simp add: race_inv_def)
  have o: "r_ticket c' = 1 \<and> \<not> target_owns c'" if "critical (rpc c' p)" for p
  proof -
    have "r_ticket c = 1" "\<not> target_owns c" using inv c [OF that] by (auto simp: race_inv_def)
    then show ?thesis using tick own that by auto
  qed
  have t: "r_ticket c' = 1 \<and> committed c' = Some (n_arg1 c', n_addr c', n_mode c')" if "target_owns c'"
    using inv own [OF that] tick that same by (simp add: race_inv_def)
  show ?thesis unfolding race_inv_def using u o t w pc l by blast
qed

lemma race_inv_step:
  assumes "race_step False c c'" and inv: "race_inv c"
  shows "race_inv c'"
  using assms(1)
proof cases
  case (acquire p q)
  have n: "\<not> critical (rpc c q)" for q using inv acquire by (auto simp: race_inv_def)
  have o: "\<not> target_owns c" using inv acquire by (auto simp: race_inv_def)
  have l: "loaded c' (tpc c) = loaded c (tpc c)" by (rule loaded_cong) (simp_all add: acquire(1))
  have w: "written c' (rpc c' r)" for r using written_idle [OF n] by (simp add: acquire(1))
  have u: "r = p" if "critical (rpc c' r)" for r
    using that n [of r] by (simp add: acquire(1) split: if_splits)
  have o': "\<not> target_owns c'" using o by (simp add: acquire(1) target_owns_def)
  have f: "r_ticket c' = 1" "tpc c' = tpc c" "r_state c' = r_state c" by (simp_all add: acquire(1))
  show ?thesis
    unfolding race_inv_def using inv u o' l w f by (simp add: race_inv_def) metis
next
  case (write_arg1 p q)
  show ?thesis by (rule race_inv_write [OF inv, of p "R_Addr q"]) (simp_all add: write_arg1)
next
  case (write_addr p q)
  have "written c (R_Addr q)" using inv write_addr(2) unfolding race_inv_def by metis
  then show ?thesis by (intro race_inv_write [OF inv, of p "R_Mode q"]) (simp_all add: write_addr)
next
  case (write_mode p q)
  have "written c (R_Mode q)" using inv write_mode(2) unfolding race_inv_def by metis
  then show ?thesis by (intro race_inv_write [OF inv, of p "R_Cas q"]) (simp_all add: write_mode)
next
  case (cas_ok p q)
  have w: "written c (R_Cas q)" using inv cas_ok(2) unfolding race_inv_def by metis
  have u: "\<not> critical (rpc c r)" if "r \<noteq> p" for r using race_inv_crit(3) [OF inv cas_ok(2) _ that] by simp
  have t: "tpc c = T_Wait" using inv cas_ok(3) waiting_loaded [of "tpc c"] by (simp add: race_inv_def)
  have k: "r_ticket c = 1" using race_inv_crit(1) [OF inv cas_ok(2)] by simp
  show ?thesis
  proof (rule race_inv_quiet)
    show "\<not> critical (rpc c' r)" for r using u [of r] by (simp add: cas_ok(1))
  qed (use k w t in \<open>simp_all add: cas_ok(1)\<close>)
next
  case (cas_err p q)
  show ?thesis by (rule race_inv_write [OF inv, of p R_Release]) (simp_all add: cas_err)
next
  case (send_ok p)
  have f: "n_arg1 c' = n_arg1 c" "n_addr c' = n_addr c" "committed c' = committed c" "tpc c' = tpc c"
    by (simp_all add: send_ok(1))
  have l: "loaded c' (tpc c') = loaded c (tpc c)" unfolding f(4) by (rule loaded_cong [OF f(1-3)])
  show ?thesis
  proof (rule race_inv_other [OF inv])
    show "critical (rpc c' r) \<Longrightarrow> rpc c' r = rpc c r" for r by (simp add: send_ok(1) split: if_splits)
    show "loaded c' (tpc c')" using l inv by (simp add: race_inv_def)
  qed (use inv in \<open>simp_all add: race_inv_def target_owns_def send_ok(1)\<close>)
next
  case (release p)
  have u: "\<not> critical (rpc c r)" if "r \<noteq> p" for r using race_inv_crit(3) [OF inv release(2) _ that] by simp
  have o: "\<not> target_owns c" using race_inv_crit(2) [OF inv release(2)] by simp
  have f: "n_arg1 c' = n_arg1 c" "n_addr c' = n_addr c" "committed c' = committed c" "tpc c' = tpc c"
    by (simp_all add: release(1))
  have l: "loaded c' (tpc c') = loaded c (tpc c)" unfolding f(4) by (rule loaded_cong [OF f(1-3)])
  show ?thesis
  proof (rule race_inv_quiet)
    show "\<not> critical (rpc c' r)" for r using u [of r] by (simp add: release(1))
    show "loaded c' (tpc c')" using l inv by (simp add: race_inv_def)
  qed (use inv o in \<open>simp_all add: release(1) race_inv_def target_owns_def\<close>)
next
  case t_wake
  then show ?thesis using inv by (intro race_inv_other [OF inv]) (auto simp: race_inv_def target_owns_def)
next
  case t_start
  then show ?thesis using inv by (intro race_inv_other [OF inv]) (auto simp: race_inv_def target_owns_def)
next
  case t_arg1
  then show ?thesis using inv by (intro race_inv_other [OF inv]) (auto simp: race_inv_def target_owns_def)
next
  case (t_addr a)
  then show ?thesis using inv by (intro race_inv_other [OF inv]) (auto simp: race_inv_def target_owns_def)
next
  case (t_mode a b)
  then show ?thesis using inv by (intro race_inv_other [OF inv]) (auto simp: race_inv_def target_owns_def)
next
  case (t_release r)
  have "\<not> critical (rpc c p)" for p using inv t_release(2) by (auto simp: race_inv_def target_owns_def)
  then show ?thesis using inv t_release
    by (intro race_inv_other [OF inv]) (auto simp: race_inv_def target_owns_def)
next
  case (t_stop r)
  then show ?thesis using inv by (intro race_inv_other [OF inv]) (auto simp: race_inv_def target_owns_def)
next
  case t_exit
  then show ?thesis using inv by (intro race_inv_other [OF inv]) (auto simp: race_inv_def target_owns_def)
qed simp

lemma race_inv_reach:
  "(race_step False)\<^sup>*\<^sup>* c0 c \<Longrightarrow> race_init c0 \<Longrightarrow> race_inv c"
  by (induction rule: rtranclp_induct) (auto intro: race_inv_init race_inv_step)

subsection \<open>Properties\<close>

text \<open>C20: Concurrent start requests are safe as long as the wake-up of the target does not report a
  failure: in every interleaving of any number of requesters with the target, at most one requester
  is inside the section that writes the target's scratch fields, none is there while the target is
  to read them, and when the target runs it runs exactly the request that won the
  compare-and-swap, never a mixture of two requests.\<close>

theorem start_race_safe:
  assumes "race_init c0" and "(race_step False)\<^sup>*\<^sup>* c0 c"
  shows "(\<forall>p q. critical (rpc c p) \<longrightarrow> critical (rpc c q) \<longrightarrow> p = q) \<and>
    (\<forall>p. critical (rpc c p) \<longrightarrow> r_state c \<noteq> SBI_HSM_STATE_START_PENDING \<and> \<not> loading (tpc c)) \<and>
    (\<forall>r. tpc c = T_Run r \<longrightarrow> committed c = Some r)"
  using race_inv_reach [OF assms(2,1)] unfolding race_inv_def target_owns_def
  by (metis loaded.simps(4))

definition ex_race :: race where
  "ex_race = \<lparr>r_state = SBI_HSM_STATE_STOPPED, r_ticket = 0, n_arg1 = 0, n_addr = 0, n_mode = 0,
    rpc = (\<lambda>_. R_Idle), tpc = T_Wait, committed = None\<rparr>"

lemma ex_race_init: "race_init ex_race"
  by (simp add: race_init_def ex_race_def)

lemma step_then: "race_step b x y \<Longrightarrow> (race_step b)\<^sup>*\<^sup>* y z \<Longrightarrow> (race_step b)\<^sup>*\<^sup>* x z"
  by (rule converse_rtranclp_into_rtranclp)

text \<open>Requester 0 commits its request, the target starts with it and gives the ticket back.\<close>

lemma ex_race_run:
  "\<exists>c. (race_step b)\<^sup>*\<^sup>* ex_race c \<and> r_ticket c = 0 \<and> r_state c = SBI_HSM_STATE_STARTED \<and>
    rpc c = (\<lambda>_. R_Idle)(0 := R_Send) \<and> tpc c = T_Run (7, 0x80300000, 1)"
  apply (intro exI conjI)
      apply (rule step_then [OF race_step.acquire [where p = 0 and q = "(7, 0x80300000, 1)"]], simp add: ex_race_def, simp add: ex_race_def)
      apply (rule step_then [OF race_step.write_arg1 [where p = 0 and q = "(7, 0x80300000, 1)"]], simp)
      apply (rule step_then [OF race_step.write_addr [where p = 0 and q = "(7, 0x80300000, 1)"]], simp)
      apply (rule step_then [OF race_step.write_mode [where p = 0 and q = "(7, 0x80300000, 1)"]], simp)
      apply (rule step_then [OF race_step.cas_ok [where p = 0 and q = "(7, 0x80300000, 1)"]], simp, simp add: ex_race_def)
      apply (rule step_then [OF race_step.t_wake], simp add: ex_race_def, simp)
      apply (rule step_then [OF race_step.t_start], simp, simp)
      apply (rule step_then [OF race_step.t_arg1], simp)
      apply (rule step_then [OF race_step.t_addr [where a = 7]], simp)
      apply (rule step_then [OF race_step.t_mode [where a = 7 and b = "0x80300000"]], simp)
      apply (rule step_then [OF race_step.t_release [where r = "(7, 0x80300000, 1)"]], simp)
      apply (rule rtranclp.rtrancl_refl)
     apply (simp_all add: ex_race_def)
  done

theorem start_race_safe_witness:
  "\<exists>c. (race_step False)\<^sup>*\<^sup>* ex_race c \<and> tpc c = T_Run (7, 0x80300000, 1) \<and> committed c = Some (7, 0x80300000, 1)"
  using ex_race_run [of False] start_race_safe [OF ex_race_init] by blast

text \<open>When the wake-up of the target can report a failure after the target has already seen the
  request, the requester's error path releases a ticket that another requester holds by then: an
  interleaving reaches a state where two requesters are at once inside the section the ticket
  protects.\<close>

theorem start_ticket_stolen:
  "\<exists>c p q. (race_step True)\<^sup>*\<^sup>* ex_race c \<and> p \<noteq> q \<and> critical (rpc c p) \<and> critical (rpc c q)"
proof -
  obtain c where c: "(race_step True)\<^sup>*\<^sup>* ex_race c" "r_ticket c = 0" "r_state c = SBI_HSM_STATE_STARTED"
    "rpc c = (\<lambda>_. R_Idle)(0 := R_Send)" using ex_race_run [of True] by blast
  have "\<exists>d. (race_step True)\<^sup>*\<^sup>* c d \<and> critical (rpc d 1) \<and> critical (rpc d 2)"
    apply (intro exI conjI)
      apply (rule step_then [OF race_step.acquire [where p = 1 and q = "(1, 1, 1)"]], simp add: c, simp add: c)
      apply (rule step_then [OF race_step.send_fail [where p = 0]], simp, simp add: c)
      apply (rule step_then [OF race_step.release [where p = 0]], simp)
      apply (rule step_then [OF race_step.acquire [where p = 2 and q = "(2, 2, 2)"]], simp add: c, simp)
      apply (rule rtranclp.rtrancl_refl)
     apply simp_all
    done
  then show ?thesis using c(1) by (metis n_not_Suc_n numeral_2_eq_2 rtranclp_trans One_nat_def)
qed

end
