(* ===== verification/Sbi_Ipi.thy ===== *)
theory Sbi_Ipi
  imports Sbi_Hsm
begin

text \<open>
  \<open>lib/sbi/sbi_ipi.c\<close>: the table of IPI events, sending an event to a set of harts and
  processing the pending events of the current hart. The callbacks of an event act on a client
  state \<open>'s\<close> and carry data of type \<open>'d\<close>; the IPI device is modelled by the interrupt line it
  raises and clears for each hart. The firmware counters that the PMU keeps are not part of
  this state.
\<close>

subsection \<open>Definitions\<close>

definition SBI_IPI_EVENT_MAX :: nat where [simp, sbi_defs]: "SBI_IPI_EVENT_MAX = 64"
definition SBI_IPI_UPDATE_SUCCESS :: int where [simp, sbi_defs]: "SBI_IPI_UPDATE_SUCCESS = 0"
definition SBI_IPI_UPDATE_BREAK :: int where [simp, sbi_defs]: "SBI_IPI_UPDATE_BREAK = 1"
definition SBI_IPI_UPDATE_RETRY :: int where [simp, sbi_defs]: "SBI_IPI_UPDATE_RETRY = 2"

record ('s, 'd) sbi_ipi_event_ops =
  ev_update :: "(nat \<Rightarrow> nat \<Rightarrow> 'd \<Rightarrow> 's \<Rightarrow> int \<times> 's) option"
  ev_sync :: "(nat \<Rightarrow> 's \<Rightarrow> 's) option"
  ev_process :: "(nat \<Rightarrow> 's \<Rightarrow> 's) option"

record ('s, 'd) ipi_globals =
  ipi_hsm :: hsm_globals
  ipi_type :: "nat \<Rightarrow> ulong"
  ipi_ops_array :: "nat \<Rightarrow> ('s, 'd) sbi_ipi_event_ops option"
  dev_ipi_send :: bool
  dev_ipi_clear :: bool
  ipi_pending :: "nat \<Rightarrow> bool"
  client :: 's

abbreviation ipi_tab :: "('s, 'd) ipi_globals \<Rightarrow> scratch_globals" where
  "ipi_tab g \<equiv> scratch_tab (hsm_doms (ipi_hsm g))"

definition sbi_ipi_raw_send :: "nat \<Rightarrow> ('s, 'd) ipi_globals \<Rightarrow> int \<times> ('s, 'd) ipi_globals" where
  "sbi_ipi_raw_send i g =
    (if \<not> dev_ipi_send g then (SBI_EINVAL, g)
     else (0, g\<lparr>ipi_pending := (ipi_pending g)(i := True)\<rparr>))"

definition sbi_ipi_raw_clear :: "nat \<Rightarrow> ('s, 'd) ipi_globals \<Rightarrow> ('s, 'd) ipi_globals" where
  "sbi_ipi_raw_clear self g =
    (if dev_ipi_clear g then g\<lparr>ipi_pending := (ipi_pending g)(self := False)\<rparr> else g)"

text \<open>The part of \<open>sbi_ipi_send\<close> after the callbacks: set the bit, raise the interrupt.\<close>

definition ipi_trigger :: "nat \<Rightarrow> nat \<Rightarrow> int \<Rightarrow> ('s, 'd) ipi_globals \<Rightarrow> int \<times> ('s, 'd) ipi_globals" where
  "ipi_trigger remote event ret g =
    (let old = ipi_type g remote;
         g = g\<lparr>ipi_type := (ipi_type g)(remote := old OR BIT event)\<rparr>
     in if old = 0 then sbi_ipi_raw_send remote g else (ret, g))"

definition sbi_ipi_send ::
  "nat \<Rightarrow> nat \<Rightarrow> nat \<Rightarrow> 'd \<Rightarrow> ('s, 'd) ipi_globals \<Rightarrow> int \<times> ('s, 'd) ipi_globals" where
  "sbi_ipi_send self remote event data g =
    (if SBI_IPI_EVENT_MAX \<le> event then (SBI_EINVAL, g)
     else (case ipi_ops_array g event of
       None \<Rightarrow> (SBI_EINVAL, g)
     | Some ops \<Rightarrow>
         if sbi_hartindex_to_scratch (ipi_tab g) (of_nat remote) = 0 then (SBI_EINVAL, g)
         else (case ev_update ops of
           Some upd \<Rightarrow>
             (case upd self remote data (client g) of (ret, cl) \<Rightarrow>
               let g = g\<lparr>client := cl\<rparr>
               in if ret \<noteq> SBI_IPI_UPDATE_SUCCESS then (ret, g) else ipi_trigger remote event ret g)
         | None \<Rightarrow>
             if sbi_hartindex_to_scratch (ipi_tab g) (of_nat self) =
                sbi_hartindex_to_scratch (ipi_tab g) (of_nat remote)
             then (0, g\<lparr>client := (case ev_process ops of Some pr \<Rightarrow> pr self (client g) | None \<Rightarrow> client g)\<rparr>)
             else ipi_trigger remote event 0 g)))"

definition sbi_ipi_sync :: "nat \<Rightarrow> nat \<Rightarrow> ('s, 'd) ipi_globals \<Rightarrow> int \<times> ('s, 'd) ipi_globals" where
  "sbi_ipi_sync self event g =
    (if SBI_IPI_EVENT_MAX \<le> event then (SBI_EINVAL, g)
     else (case ipi_ops_array g event of
       None \<Rightarrow> (SBI_EINVAL, g)
     | Some ops \<Rightarrow>
         (0, case ev_sync ops of Some sy \<Rightarrow> g\<lparr>client := sy self (client g)\<rparr> | None \<Rightarrow> g)))"

definition sbi_hartmask_set_hartid :: "scratch_globals \<Rightarrow> u32 \<Rightarrow> sbi_hartmask \<Rightarrow> sbi_hartmask" where
  "sbi_hartmask_set_hartid tab h m = sbi_hartmask_set_hartindex (unat (sbi_hartid_to_hartindex tab h)) m"

text \<open>\<open>for (i = hbase; hmask; i++, hmask >>= 1)\<close>; the index is passed as a \<open>u32\<close> hart id.\<close>

function hmask_loop :: "scratch_globals \<Rightarrow> ulong \<Rightarrow> ulong \<Rightarrow> sbi_hartmask \<Rightarrow> sbi_hartmask" where
  "hmask_loop tab i hmask m =
    (if hmask \<noteq> 0
     then hmask_loop tab (i + 1) (drop_bit 1 hmask)
            (if hmask AND 1 \<noteq> 0 then sbi_hartmask_set_hartid tab (ucast i) m else m)
     else m)"
  by pat_completeness auto
termination
proof (relation "measure (\<lambda>(tab, i, hmask, m). unat hmask)", goal_cases)
  case (2 tab i hmask m)
  have "unat (drop_bit 1 hmask) = unat hmask div 2"
    by (simp only: unsigned_drop_bit_eq) (simp add: take_bit_nat_eq_self unat_ulong_lt drop_bit_eq_div)
  then show ?case using 2 by (simp add: unat_gt_0)
qed simp

declare hmask_loop.simps [simp del]

text \<open>One pass over the target mask: \<open>Inl\<close> leaves the \<open>do\<close> loop with an error.\<close>

fun send_pass ::
  "nat \<Rightarrow> nat \<Rightarrow> 'd \<Rightarrow> nat list \<Rightarrow> sbi_hartmask \<Rightarrow> bool \<Rightarrow> ('s, 'd) ipi_globals \<Rightarrow>
    (int + (sbi_hartmask \<times> bool)) \<times> ('s, 'd) ipi_globals" where
  "send_pass self event data [] m retry g = (Inr (m, retry), g)"
| "send_pass self event data (i # is) m retry g =
    (case sbi_ipi_send self i event data g of (rc, g) \<Rightarrow>
      if rc < 0 then (Inl rc, g)
      else if rc = SBI_IPI_UPDATE_RETRY then send_pass self event data is m True g
      else send_pass self event data is (sbi_hartmask_clear_hartindex i m) retry g)"

partial_function (option) send_loop ::
  "nat \<Rightarrow> nat \<Rightarrow> 'd \<Rightarrow> sbi_hartmask \<Rightarrow> ('s, 'd) ipi_globals \<Rightarrow> (int \<times> ('s, 'd) ipi_globals) option" where
  "send_loop self event data m g =
    (case send_pass self event data (sbi_hartmask_for_each_hartindex m) m False g of
       (Inl rc, g) \<Rightarrow> Some (rc, g)
     | (Inr (m, retry), g) \<Rightarrow> if retry then send_loop self event data m g else Some (0, g))"

text \<open>\<open>hbase = -1UL\<close> selects every interruptible hart of the caller's domain.\<close>

definition sbi_ipi_send_many ::
  "nat \<Rightarrow> ulong \<Rightarrow> ulong \<Rightarrow> nat \<Rightarrow> 'd \<Rightarrow> ('s, 'd) ipi_globals \<Rightarrow> (int \<times> ('s, 'd) ipi_globals) option" where
  "sbi_ipi_send_many self hmask hbase event data g =
    (case sbi_hsm_hart_interruptible_mask (ipi_hsm g) (sbi_hartindex_to_domain (hsm_doms (ipi_hsm g)) self)
        hartmask_zero of (rc, target) \<Rightarrow>
      if rc \<noteq> 0 then Some (rc, g)
      else
        let target = (if hbase \<noteq> -1 then sbi_hartmask_and target target (hmask_loop (ipi_tab g) hbase hmask hartmask_zero)
                      else target)
        in map_option (\<lambda>(rc, g). (rc, snd (sbi_ipi_sync self event g))) (send_loop self event data target g))"

text \<open>The first free slot of the event table.\<close>

definition sbi_ipi_event_create ::
  "('s, 'd) sbi_ipi_event_ops option \<Rightarrow> ('s, 'd) ipi_globals \<Rightarrow> int \<times> ('s, 'd) ipi_globals" where
  "sbi_ipi_event_create ops g =
    (case ops of None \<Rightarrow> (SBI_EINVAL, g)
     | Some o' \<Rightarrow>
         if ev_process o' = None then (SBI_EINVAL, g)
         else (case filter (\<lambda>i. ipi_ops_array g i = None) [0..<SBI_IPI_EVENT_MAX] of
           [] \<Rightarrow> (SBI_ENOSPC, g)
         | i # _ \<Rightarrow> (int i, g\<lparr>ipi_ops_array := (ipi_ops_array g)(i := Some o')\<rparr>)))"

definition sbi_ipi_event_destroy :: "nat \<Rightarrow> ('s, 'd) ipi_globals \<Rightarrow> ('s, 'd) ipi_globals" where
  "sbi_ipi_event_destroy event g =
    (if SBI_IPI_EVENT_MAX \<le> event then g else g\<lparr>ipi_ops_array := (ipi_ops_array g)(event := None)\<rparr>)"

definition sbi_ipi_update_halt :: "scratch_globals \<Rightarrow> nat \<Rightarrow> nat \<Rightarrow> int" where
  "sbi_ipi_update_halt tab self remote =
    (if sbi_hartindex_to_scratch tab (of_nat self) = sbi_hartindex_to_scratch tab (of_nat remote)
     then SBI_IPI_UPDATE_BREAK else SBI_IPI_UPDATE_SUCCESS)"

function process_loop :: "nat \<Rightarrow> ulong \<Rightarrow> nat \<Rightarrow> ('s, 'd) ipi_globals \<Rightarrow> ('s, 'd) ipi_globals" where
  "process_loop self ipi ev g =
    (if ipi \<noteq> 0
     then process_loop self (drop_bit 1 ipi) (ev + 1)
       (if ipi AND 1 \<noteq> 0 then
          (case ipi_ops_array g ev of
             Some ops \<Rightarrow> g\<lparr>client := (case ev_process ops of Some pr \<Rightarrow> pr self (client g) | None \<Rightarrow> client g)\<rparr>
           | None \<Rightarrow> g)
        else g)
     else g)"
  by pat_completeness auto
termination
proof (relation "measure (\<lambda>(self, ipi, ev, g). unat ipi)", goal_cases)
  case (2 self ipi ev g)
  have "unat (drop_bit 1 ipi) = unat ipi div 2"
    by (simp only: unsigned_drop_bit_eq) (simp add: take_bit_nat_eq_self unat_ulong_lt drop_bit_eq_div)
  then show ?case using 2 by (simp add: unat_gt_0)
qed simp

declare process_loop.simps [simp del]

definition sbi_ipi_process :: "nat \<Rightarrow> ('s, 'd) ipi_globals \<Rightarrow> ('s, 'd) ipi_globals" where
  "sbi_ipi_process self g =
    (let g = sbi_ipi_raw_clear self g;
         ipi = ipi_type g self;
         g = g\<lparr>ipi_type := (ipi_type g)(self := 0)\<rparr>
     in process_loop self ipi 0 g)"

subsection \<open>Processing\<close>

definition run_event :: "nat \<Rightarrow> nat \<Rightarrow> ('s, 'd) ipi_globals \<Rightarrow> ('s, 'd) ipi_globals" where
  "run_event self ev g =
    (case ipi_ops_array g ev of
       Some ops \<Rightarrow> g\<lparr>client := (case ev_process ops of Some pr \<Rightarrow> pr self (client g) | None \<Rightarrow> client g)\<rparr>
     | None \<Rightarrow> g)"

lemma and_1_bit: "(w :: ulong) AND 1 \<noteq> 0 \<longleftrightarrow> bit w 0"
  by (simp add: and_one_eq even_iff_mod_2_eq_zero [symmetric] bit_0 one_neq_zero)

lemma bits_shift:
  "w \<noteq> 0 \<Longrightarrow> filter (\<lambda>e. bit (w :: ulong) (e - ev)) [ev..<ev + n] =
    (if n = 0 then [] else (if bit w 0 then [ev] else []) @
      filter (\<lambda>e. bit (drop_bit 1 w) (e - (ev + 1))) [ev + 1..<ev + 1 + (n - 1)])"
proof (cases n)
  case (Suc m)
  have "filter (\<lambda>e. bit w (e - ev)) [ev + 1..<ev + n] =
      filter (\<lambda>e. bit (drop_bit 1 w) (e - (ev + 1))) [ev + 1..<ev + n]"
    by (rule filter_cong) (auto simp: bit_drop_bit_eq Suc_diff_Suc)
  moreover have "[ev..<ev + n] = ev # [ev + 1..<ev + n]" "ev + 1 + (n - 1) = ev + n"
    using Suc by (simp_all add: upt_conv_Cons del: upt_Suc)
  ultimately show ?thesis using Suc by (simp only:) simp
qed simp

text \<open>The loop runs the callback of every set bit once, in increasing order.\<close>

lemma process_loop_eq:
  "(\<And>k. bit ipi k \<Longrightarrow> k < n) \<Longrightarrow>
    process_loop self ipi ev g = fold (run_event self) (filter (\<lambda>e. bit ipi (e - ev)) [ev..<ev + n]) g"
proof (induction n arbitrary: ipi ev g)
  case 0
  then have "ipi = 0" by (auto simp: word_eq_0_iff_bit)
  then show ?case by (simp add: process_loop.simps)
next
  case (Suc n)
  show ?case
  proof (cases "ipi = 0")
    case True
    then show ?thesis by (simp add: process_loop.simps)
  next
    case False
    have b: "\<And>k. bit (drop_bit 1 ipi) k \<Longrightarrow> k < n" using Suc.prems by (auto simp: bit_drop_bit_eq)
    have "process_loop self ipi ev g =
        process_loop self (drop_bit 1 ipi) (ev + 1) (if bit ipi 0 then run_event self ev g else g)"
      unfolding process_loop.simps [of self ipi ev g] and_1_bit run_event_def [symmetric]
      using False by (simp only: not_False_eq_True if_True)
    also have "\<dots> = fold (run_event self) (filter (\<lambda>e. bit (drop_bit 1 ipi) (e - (ev + 1))) [ev + 1..<ev + 1 + n])
        (if bit ipi 0 then run_event self ev g else g)" by (rule Suc.IH [OF b])
    finally have "process_loop self ipi ev g = fold (run_event self) ((if bit ipi 0 then [ev] else []) @
        filter (\<lambda>e. bit (drop_bit 1 ipi) (e - (ev + 1))) [ev + 1..<ev + 1 + n]) g"
      by (simp del: upt_Suc)
    moreover have "filter (\<lambda>e. bit ipi (e - ev)) [ev..<ev + Suc n] = (if bit ipi 0 then [ev] else []) @
        filter (\<lambda>e. bit (drop_bit 1 ipi) (e - (ev + 1))) [ev + 1..<ev + 1 + n]"
      using bits_shift [OF False, of ev "Suc n"] by (simp only: nat.distinct if_False diff_Suc_1)
    ultimately show ?thesis by (simp only:)
  qed
qed

lemma sbi_ipi_process_eq:
  "sbi_ipi_process self g =
    fold (run_event self) (filter (\<lambda>e. bit (ipi_type g self) e) [0..<64])
      ((sbi_ipi_raw_clear self g)\<lparr>ipi_type := (ipi_type g)(self := 0)\<rparr>)"
proof -
  have "process_loop self (ipi_type g self) 0 g' = fold (run_event self) (filter (bit (ipi_type g self)) [0..<64]) g'"
    for g' :: "('a, 'b) ipi_globals"
    using process_loop_eq [of "ipi_type g self" 64 self 0 g'] by (simp add: bit_word_lt)
  then show ?thesis by (simp add: sbi_ipi_process_def sbi_ipi_raw_clear_def Let_def)
qed

subsection \<open>Sending\<close>

definition self_scratch :: "('s, 'd) ipi_globals \<Rightarrow> nat \<Rightarrow> nat \<Rightarrow> bool" where
  "self_scratch g self i \<longleftrightarrow>
    sbi_hartindex_to_scratch (ipi_tab g) (of_nat self) = sbi_hartindex_to_scratch (ipi_tab g) (of_nat i)"

text \<open>
  An event without \<open>update\<close> callback, or with the one of the halt event, reaches each listed hart but the sender; the sender processes
  an event without \<open>update\<close> callback at once.
\<close>

definition reaching :: "('s, 'd) ipi_globals \<Rightarrow> ('s, 'd) sbi_ipi_event_ops \<Rightarrow> bool" where
  "reaching g ops \<longleftrightarrow> ev_update ops = None \<or>
    ev_update ops = Some (\<lambda>self remote data cl. (sbi_ipi_update_halt (ipi_tab g) self remote, cl))"

definition self_run :: "('s, 'd) sbi_ipi_event_ops \<Rightarrow> nat \<Rightarrow> 's \<Rightarrow> 's" where
  "self_run ops self cl =
    (if ev_update ops = None then case ev_process ops of Some pr \<Rightarrow> pr self cl | None \<Rightarrow> cl else cl)"

definition sent :: "('s, 'd) ipi_globals \<Rightarrow> nat \<Rightarrow> nat \<Rightarrow> nat set \<Rightarrow> nat \<Rightarrow> ulong" where
  "sent g self event T = (\<lambda>j. if j \<in> T \<and> \<not> self_scratch g self j then ipi_type g j OR BIT event else ipi_type g j)"

lemma send_simple:
  assumes "event < 64" and "ipi_ops_array g event = Some ops" and "reaching g ops" and "dev_ipi_send g"
    and "sbi_hartindex_to_scratch (ipi_tab g) (of_nat i) \<noteq> 0"
  shows "\<exists>rc pend. (rc = 0 \<or> rc = SBI_IPI_UPDATE_BREAK) \<and> sbi_ipi_send self i event data g =
    (rc, g\<lparr>client := (if self_scratch g self i then self_run ops self (client g) else client g),
       ipi_pending := pend, ipi_type := sent g self event {i}\<rparr>)"
proof (cases "self_scratch g self i")
  case True
  then have "sent g self event {i} = ipi_type g" by (auto simp: sent_def)
  then show ?thesis using assms True
    by (auto simp: sbi_ipi_send_def self_scratch_def reaching_def self_run_def sbi_ipi_update_halt_def Let_def
        intro!: exI [of _ "ipi_pending g"])
next
  case False
  have "sent g self event {i} = (ipi_type g)(i := ipi_type g i OR BIT event)" using False by (auto simp: sent_def)
  moreover have "sbi_ipi_send self i event data g = ipi_trigger i event 0 g"
    using assms False by (auto simp: sbi_ipi_send_def self_scratch_def reaching_def sbi_ipi_update_halt_def Let_def)
  ultimately show ?thesis using False assms(4)
    by (simp add: ipi_trigger_def sbi_ipi_raw_send_def Let_def) (intro conjI impI exI; rule ipi_globals.equality; simp)
qed

lemma send_pass_simple:
  assumes "event < 64" and "ipi_ops_array g event = Some ops" and "reaching g ops" and "dev_ipi_send g"
    and "\<forall>i \<in> set is. sbi_hartindex_to_scratch (ipi_tab g) (of_nat i) \<noteq> 0" and "distinct is"
  shows "\<exists>m' pend. send_pass self event data is m False g =
    (Inr (m', False), g\<lparr>client := (self_run ops self ^^ length (filter (self_scratch g self) is)) (client g),
       ipi_pending := pend, ipi_type := sent g self event (set is)\<rparr>)"
  using assms
proof (induction "is" arbitrary: m g)
  case Nil
  show ?case by (intro exI [of _ m] exI [of _ "ipi_pending g"]) (simp add: sent_def)
next
  case (Cons i "is")
  obtain rc pend where s: "rc = 0 \<or> rc = SBI_IPI_UPDATE_BREAK" "sbi_ipi_send self i event data g =
    (rc, g\<lparr>client := (if self_scratch g self i then self_run ops self (client g) else client g),
       ipi_pending := pend, ipi_type := sent g self event {i}\<rparr>)"
    (is "_ = (rc, ?g)")
    using send_simple [OF Cons.prems(1-4), of i self data] Cons.prems(5) by auto
  have same: "self_scratch ?g self = self_scratch g self" by (simp add: self_scratch_def fun_eq_iff)
  have "reaching ?g ops" using Cons.prems(3) by (simp add: reaching_def)
  then obtain m' pend' where r: "send_pass self event data is (sbi_hartmask_clear_hartindex i m) False ?g =
    (Inr (m', False), ?g\<lparr>client := (self_run ops self ^^ length (filter (self_scratch g self) is)) (client ?g),
       ipi_pending := pend', ipi_type := sent ?g self event (set is)\<rparr>)"
    using Cons.IH [of ?g "sbi_hartmask_clear_hartindex i m"] Cons.prems same by auto
  have "sent ?g self event (set is) = sent g self event (set (i # is))"
    using Cons.prems(6) by (auto simp: sent_def self_scratch_def fun_eq_iff)
  then have "send_pass self event data (i # is) m False g =
    (Inr (m', False), g\<lparr>client := (self_run ops self ^^ length (filter (self_scratch g self) (i # is))) (client g),
       ipi_pending := pend', ipi_type := sent g self event (set (i # is))\<rparr>)"
    using r s by (auto simp: funpow_swap1)
  then show ?case by blast
qed

lemma send_loop_simple:
  assumes "event < 64" and "ipi_ops_array g event = Some ops" and "reaching g ops" and "dev_ipi_send g"
    and "\<forall>i \<in> hartset m. sbi_hartindex_to_scratch (ipi_tab g) (of_nat i) \<noteq> 0"
  shows "\<exists>pend. send_loop self event data m g =
    Some (0, g\<lparr>client := (self_run ops self ^^ card {i \<in> hartset m. self_scratch g self i}) (client g),
       ipi_pending := pend, ipi_type := sent g self event (hartset m)\<rparr>)"
proof -
  have d: "distinct (sbi_hartmask_for_each_hartindex m)" by (simp add: for_each_hartindex)
  have "length (filter (self_scratch g self) (sbi_hartmask_for_each_hartindex m)) = card {i \<in> hartset m. self_scratch g self i}"
    using distinct_card [OF distinct_filter [OF d, of "self_scratch g self"]] by simp
  then obtain m' pend where "send_pass self event data (sbi_hartmask_for_each_hartindex m) m False g =
    (Inr (m', False), g\<lparr>client := (self_run ops self ^^ card {i \<in> hartset m. self_scratch g self i}) (client g),
       ipi_pending := pend, ipi_type := sent g self event (hartset m)\<rparr>)"
    using send_pass_simple [OF assms(1-4) _ d, of self data m] assms(5) by auto
  then show ?thesis by (subst send_loop.simps) (simp, blast)
qed

subsection \<open>The target harts\<close>

lemma hartset_set_any:
  "wf_hartmask m \<Longrightarrow> hartset (sbi_hartmask_set_hartindex i m) = hartset m \<union> ({i} \<inter> {..<128})"
  by (cases "i < 128") (auto simp: hartset_set hartset_set_out)

lemma hartset_hmask_loop:
  "wf_hartmask m \<Longrightarrow> wf_hartmask (hmask_loop tab i hmask m) \<and>
    hartset (hmask_loop tab i hmask m) =
      hartset m \<union> ({unat (sbi_hartid_to_hartindex tab (ucast (i + of_nat k))) | k. bit hmask k} \<inter> {..<128})"
proof (induction tab i hmask m rule: hmask_loop.induct)
  case (1 tab i hmask m)
  show ?case
  proof (cases "hmask = 0")
    case True
    then show ?thesis using "1.prems" by (simp add: hmask_loop.simps)
  next
    case False
    let ?ix = "\<lambda>j. unat (sbi_hartid_to_hartindex tab (ucast j))"
    let ?m = "if hmask AND 1 \<noteq> 0 then sbi_hartmask_set_hartid tab (ucast i) m else m"
    have wf: "wf_hartmask ?m" using "1.prems" by (simp add: sbi_hartmask_set_hartid_def)
    have m: "hartset ?m = hartset m \<union> ({?ix i | j. bit hmask 0} \<inter> {..<128})"
      using "1.prems" by (auto simp: and_1_bit sbi_hartmask_set_hartid_def hartset_set_any)
    have "hmask_loop tab i hmask m = hmask_loop tab (i + 1) (drop_bit 1 hmask) ?m"
      using False by (subst hmask_loop.simps) simp
    moreover have "{?ix (i + of_nat k) | k. bit hmask k} =
        {?ix i | j. bit hmask 0} \<union> {?ix (i + 1 + of_nat k) | k. bit (drop_bit 1 hmask) k}" (is "?l = ?r")
    proof
      show "?l \<subseteq> ?r"
      proof
        fix x assume "x \<in> ?l"
        then obtain k where k: "x = ?ix (i + of_nat k)" "bit hmask k" by blast
        show "x \<in> ?r"
        proof (cases k)
          case (Suc j)
          then have "x = ?ix (i + 1 + of_nat j)" "bit (drop_bit 1 hmask) j"
            using k by (simp_all add: bit_drop_bit_eq add.assoc)
          then show ?thesis by blast
        qed (use k in auto)
      qed
      show "?r \<subseteq> ?l"
      proof
        fix x assume "x \<in> ?r"
        then consider "x = ?ix i" "bit hmask 0" | k where "x = ?ix (i + 1 + of_nat k)" "bit hmask (Suc k)"
          by (auto simp: bit_drop_bit_eq)
        then show "x \<in> ?l"
        proof cases
          case (2 k)
          then have "x = ?ix (i + of_nat (Suc k))" by (simp add: add.assoc)
          then show ?thesis using 2(2) by blast
        qed (auto intro: exI [of _ 0])
      qed
    qed
    ultimately show ?thesis using "1.IH" [OF False wf] m by (simp add: Int_Un_distrib2 Un_assoc)
  qed
qed

lemma hartset_fold_clear:
  "wf_hartmask m \<Longrightarrow>
    wf_hartmask (fold (\<lambda>i m. if P i then m else sbi_hartmask_clear_hartindex i m) is m) \<and>
    hartset (fold (\<lambda>i m. if P i then m else sbi_hartmask_clear_hartindex i m) is m) =
      hartset m - {i \<in> set is. \<not> P i}"
  by (induction "is" arbitrary: m) (auto simp: hartset_clear)

definition interruptible :: "hsm_globals \<Rightarrow> nat option \<Rightarrow> nat set" where
  "interruptible g d = {i. sbi_domain_is_assigned_hart (hsm_doms g) d i \<and> interruptible_state (hsm_hart_get_state g i)}"

lemma interruptible_mask:
  assumes "wf_hartmask m"
  shows "\<exists>m'. sbi_hsm_hart_interruptible_mask g d m = (0, m') \<and> wf_hartmask m' \<and> hartset m' = interruptible g d"
proof -
  obtain m1 where m1: "sbi_domain_get_assigned_hartmask (hsm_doms g) d m = (0, m1)" "wf_hartmask m1"
      "hartset m1 = {i. sbi_domain_is_assigned_hart (hsm_doms g) d i}"
    using assms by (cases d) (auto simp: sbi_domain_get_assigned_hartmask_def sbi_domain_is_assigned_hart_def
      hartset_clear_all hartset_copy hartset_test)
  then show ?thesis
    using hartset_fold_clear [OF m1(2), of "\<lambda>i. interruptible_state (hsm_hart_get_state g i)" "sbi_hartmask_for_each_hartindex m1"]
    by (auto simp: sbi_hsm_hart_interruptible_mask_def interruptible_def)
qed

text \<open>The harts that a request names with \<open>hmask\<close> and \<open>hbase\<close>.\<close>

definition requested :: "scratch_globals \<Rightarrow> ulong \<Rightarrow> ulong \<Rightarrow> nat set" where
  "requested tab hmask hbase =
    (if hbase = -1 then {..<128}
     else {unat (sbi_hartid_to_hartindex tab (ucast (hbase + of_nat k))) | k. bit hmask k} \<inter> {..<128})"

definition targets :: "('s, 'd) ipi_globals \<Rightarrow> nat \<Rightarrow> ulong \<Rightarrow> ulong \<Rightarrow> nat set" where
  "targets g self hmask hbase =
    interruptible (ipi_hsm g) (sbi_hartindex_to_domain (hsm_doms (ipi_hsm g)) self) \<inter> requested (ipi_tab g) hmask hbase"

lemma send_many_simple:
  assumes ops: "event < 64" "ipi_ops_array g event = Some ops" "reaching g ops" "ev_sync ops = None" "dev_ipi_send g"
    and sc: "\<forall>i \<in> targets g self hmask hbase. sbi_hartindex_to_scratch (ipi_tab g) (of_nat i) \<noteq> 0"
  shows "\<exists>pend. sbi_ipi_send_many self hmask hbase event data g =
    Some (0, g\<lparr>client := (self_run ops self ^^ card {i \<in> targets g self hmask hbase. self_scratch g self i}) (client g),
      ipi_pending := pend, ipi_type := sent g self event (targets g self hmask hbase)\<rparr>)"
proof -
  let ?d = "sbi_hartindex_to_domain (hsm_doms (ipi_hsm g)) self"
  obtain m1 where m1: "sbi_hsm_hart_interruptible_mask (ipi_hsm g) ?d hartmask_zero = (0, m1)" "wf_hartmask m1"
      "hartset m1 = interruptible (ipi_hsm g) ?d"
    using interruptible_mask [of hartmask_zero "ipi_hsm g" ?d] by auto
  define m2 where "m2 = (if hbase \<noteq> -1 then sbi_hartmask_and m1 m1 (hmask_loop (ipi_tab g) hbase hmask hartmask_zero) else m1)"
  have h: "hartset m2 = targets g self hmask hbase"
    using m1 hartset_bound [of m1] hartset_hmask_loop [of hartmask_zero "ipi_tab g" hbase hmask]
    by (auto simp: m2_def targets_def requested_def hartset_and)
  obtain pend where l: "send_loop self event data m2 g =
    Some (0, g\<lparr>client := (self_run ops self ^^ card {i \<in> hartset m2. self_scratch g self i}) (client g),
       ipi_pending := pend, ipi_type := sent g self event (hartset m2)\<rparr>)"
    using send_loop_simple [OF ops(1-3,5), of m2 self data] sc h by auto
  have "sbi_ipi_send_many self hmask hbase event data g =
      map_option (\<lambda>(rc, g). (rc, snd (sbi_ipi_sync self event g))) (send_loop self event data m2 g)"
    by (simp add: sbi_ipi_send_many_def m1(1) m2_def)
  then show ?thesis using l h ops by (intro exI [of _ pend]) (simp add: sbi_ipi_sync_def)
qed

subsection \<open>No lost wake-up\<close>

text \<open>
  Senders (\<open>fetch_or\<close>, then \<open>sbi_ipi_raw_send\<close> if the old value was zero) and the receiver
  (\<open>sbi_ipi_raw_clear\<close>, then exchange with zero) as interleaved single accesses.
\<close>

datatype snd_pc = S_Idle | S_Raise
datatype rcv_pc = V_Idle | V_Cleared

record wake =
  w_type :: ulong
  w_pending :: bool
  spc :: "nat \<Rightarrow> snd_pc"
  vpc :: rcv_pc

inductive wake_step :: "wake \<Rightarrow> wake \<Rightarrow> bool" where
  set_bit: "spc c p = S_Idle \<Longrightarrow>
    wake_step c (c\<lparr>w_type := w_type c OR BIT e, spc := (spc c)(p := if w_type c = 0 then S_Raise else S_Idle)\<rparr>)"
| raise: "spc c p = S_Raise \<Longrightarrow> wake_step c (c\<lparr>w_pending := True, spc := (spc c)(p := S_Idle)\<rparr>)"
| clear: "vpc c = V_Idle \<Longrightarrow> w_pending c \<Longrightarrow> wake_step c (c\<lparr>w_pending := False, vpc := V_Cleared\<rparr>)"
| take_all: "vpc c = V_Cleared \<Longrightarrow> wake_step c (c\<lparr>w_type := 0, vpc := V_Idle\<rparr>)"

definition wake_inv :: "wake \<Rightarrow> bool" where
  "wake_inv c \<longleftrightarrow> w_type c = 0 \<or> w_pending c \<or> vpc c = V_Cleared \<or> (\<exists>p. spc c p = S_Raise)"

lemma wake_inv_step: "wake_step c c' \<Longrightarrow> wake_inv c \<Longrightarrow> wake_inv c'"
proof (induction rule: wake_step.induct)
  case (set_bit c p e)
  show ?case
  proof (cases "w_type c = 0")
    case False
    have "q \<noteq> p" if "spc c q = S_Raise" for q using that set_bit(1) by auto
    then show ?thesis using set_bit(2) False by (auto simp: wake_inv_def)
  qed (auto simp: wake_inv_def)
qed (auto simp: wake_inv_def)

lemma wake_inv_reach: "wake_step\<^sup>*\<^sup>* c0 c \<Longrightarrow> w_type c0 = 0 \<Longrightarrow> wake_inv c"
  by (induction rule: rtranclp_induct) (auto simp: wake_inv_def [of c0] intro: wake_inv_step)

subsection \<open>Properties\<close>

text \<open>\<open>sbi_ipi_process\<close> takes all pending events of the current hart at once and runs the callback of
  each registered one exactly once, in increasing order of the event number; the events of other
  harts and the table of events are not touched.\<close>

theorem ipi_process_all:
  "sbi_ipi_process self g =
    fold (run_event self) (filter (bit (ipi_type g self)) [0..<SBI_IPI_EVENT_MAX])
      ((sbi_ipi_raw_clear self g)\<lparr>ipi_type := (ipi_type g)(self := 0)\<rparr>) \<and>
   ipi_type (sbi_ipi_process self g) = (ipi_type g)(self := 0) \<and>
   ipi_ops_array (sbi_ipi_process self g) = ipi_ops_array g"
proof -
  have "ipi_type (fold (run_event self) es h) = ipi_type h \<and> ipi_ops_array (fold (run_event self) es h) = ipi_ops_array h"
    for es and h :: "('a, 'b) ipi_globals"
    by (induction es arbitrary: h) (simp_all add: run_event_def split: option.split)
  then show ?thesis by (simp add: sbi_ipi_process_eq sbi_ipi_raw_clear_def)
qed

text \<open>For an event without \<open>update\<close> and \<open>sync\<close> callbacks and a working IPI device,
  \<open>sbi_ipi_send_many\<close> returns 0 and sets the event's bit for exactly the harts that the mask and
  base name, that belong to the caller's domain and that are started, suspended or resuming; the
  calling hart itself is served directly and its bits stay.\<close>

theorem ipi_send_many_targets:
  fixes g :: "('s, 'd) ipi_globals"
  assumes "event < SBI_IPI_EVENT_MAX" and "ipi_ops_array g event = Some ops" and "ev_update ops = None"
    and "ev_sync ops = None" and "dev_ipi_send g"
    and "\<forall>i \<in> targets g self hmask hbase. sbi_hartindex_to_scratch (ipi_tab g) (of_nat i) \<noteq> 0"
  shows "\<exists>g'. sbi_ipi_send_many self hmask hbase event data g = Some (0, g') \<and>
    (\<forall>j. ipi_type g' j =
      (if j \<in> targets g self hmask hbase \<and> \<not> self_scratch g self j then ipi_type g j OR BIT event else ipi_type g j))"
  using send_many_simple [of event g ops self hmask hbase data] assms by (auto simp: reaching_def sent_def)

definition ex_ipi :: "(nat, unit) ipi_globals" where
  "ex_ipi = \<lparr>ipi_hsm = ex_hsm 0, ipi_type = (\<lambda>_. 0),
    ipi_ops_array = (\<lambda>e. if e = 0 then Some \<lparr>ev_update = None, ev_sync = None, ev_process = Some (\<lambda>_ n. n + 1)\<rparr> else None),
    dev_ipi_send = True, dev_ipi_clear = True, ipi_pending = (\<lambda>_. False), client = 0\<rparr>"

lemma ex_hsm_tabs:
  "scratch_tab (hsm_doms (ex_hsm st)) = ex_scratch"
  "sbi_hartindex_to_domain (hsm_doms (ex_hsm st)) (Suc 0) = Some 0"
  "sbi_domain_is_assigned_hart (hsm_doms (ex_hsm st)) (Some 0) i \<longleftrightarrow> i = 0"
  "sbi_hartindex_to_scratch ex_scratch 0 = 0x80040000" "sbi_hartindex_to_scratch ex_scratch 1 = 0x80041000"
  by (simp_all add: ex_hsm_def ex_domains_def sbi_hartindex_to_domain_def sbi_hartindex_to_scratch_def ex_scratch_def
      sbi_domain_is_assigned_hart_def hartset_test)

theorem ipi_send_many_targets_witness:
  "\<exists>g'. sbi_ipi_send_many 1 1 0 0 () ex_ipi = Some (0, g') \<and> ipi_type g' 0 = 1 \<and> ipi_type g' 1 = 0"
proof -
  have f: "ipi_hsm ex_ipi = ex_hsm 0" "ipi_type ex_ipi = (\<lambda>_. 0)" "dev_ipi_send ex_ipi"
    "ipi_ops_array ex_ipi 0 = Some \<lparr>ev_update = None, ev_sync = None, ev_process = Some (\<lambda>_ n. n + 1)\<rparr>"
    by (simp_all add: ex_ipi_def)
  have i: "interruptible (ex_hsm 0) (Some 0) = {0}"
    by (auto simp: interruptible_def ex_hsm_tabs hsm_hart_get_state_def ex_hsm_fields interruptible_state_def)
  have "sbi_hartid_to_hartindex ex_scratch 0 = 0" by (simp add: sbi_hartid_to_hartindex_def ex_scratch_def)
  then have r: "0 \<in> requested ex_scratch 1 0" by (auto simp: requested_def intro!: exI [of _ 0])
  have s: "\<not> self_scratch ex_ipi 1 0" by (simp add: self_scratch_def f ex_hsm_tabs)
  show ?thesis
    using ipi_send_many_targets [of 0 ex_ipi, OF _ f(4), of 1 1 0 "()"] r s
    by (auto simp: f ex_hsm_tabs i BIT_def targets_def)
qed

text \<open>C30: No IPI is lost: starting without pending events, in every interleaving of senders with the
  receiver, an event bit that is set is matched by a raised interrupt, by a receiver that is about to
  take the bits, or by a sender that is about to raise the interrupt; so once all of them are idle,
  a pending event has its interrupt raised.\<close>

theorem ipi_no_lost_wakeup:
  assumes "wake_step\<^sup>*\<^sup>* c0 c" and "w_type c0 = 0" and "w_type c \<noteq> 0"
  shows "w_pending c \<or> vpc c = V_Cleared \<or> (\<exists>p. spc c p = S_Raise)"
  using wake_inv_reach [OF assms(1,2)] assms(3) by (simp add: wake_inv_def)

theorem ipi_no_lost_wakeup_witness:
  "\<exists>c. wake_step\<^sup>*\<^sup>* \<lparr>w_type = 0, w_pending = False, spc = (\<lambda>_. S_Idle), vpc = V_Idle\<rparr> c \<and> w_type c \<noteq> 0 \<and>
    (w_pending c \<or> vpc c = V_Cleared \<or> (\<exists>p. spc c p = S_Raise))"
proof -
  let ?c0 = "\<lparr>w_type = 0, w_pending = False, spc = (\<lambda>_. S_Idle), vpc = V_Idle\<rparr>"
  have "wake_step ?c0 (?c0\<lparr>w_type := BIT 0, spc := (spc ?c0)(0 := S_Raise)\<rparr>)"
    using wake_step.set_bit [of ?c0 0 0] by simp
  then have s: "wake_step\<^sup>*\<^sup>* ?c0 (?c0\<lparr>w_type := BIT 0, spc := (spc ?c0)(0 := S_Raise)\<rparr>)" by (rule r_into_rtranclp)
  have n: "w_type (?c0\<lparr>w_type := BIT 0, spc := (spc ?c0)(0 := S_Raise)\<rparr>) \<noteq> 0" by (simp add: BIT_def)
  show ?thesis using ipi_no_lost_wakeup [OF s _ n] s n by auto
qed

end
