(* ===== verification/Sbi_Tlb.thy ===== *)
theory Sbi_Tlb
  imports Sbi_Fifo Sbi_Ipi
begin

text \<open>
  \<open>lib/sbi/sbi_tlb.c\<close>: remote fence requests. A request is queued in the FIFO of the target
  hart, merged with a pending request when their ranges allow it, and executed when the target
  handles the IPI. Each hart's FIFO is a list with a capacity; \<open>Sbi_Fifo\<close> shows that the
  ring buffer implements \<open>list_enq\<close>, \<open>list_deq\<close> and \<open>list_inplace\<close>. The fence
  instructions a hart executes are kept as a trace.
\<close>

subsection \<open>Definitions\<close>

definition SBI_TLB_FLUSH_ALL :: ulong where [sbi_defs]: "SBI_TLB_FLUSH_ALL = -1"
definition PAGE_SIZE :: ulong where [sbi_defs]: "PAGE_SIZE = 4096"

definition SBI_TLB_FENCE_I :: int where [simp, sbi_defs]: "SBI_TLB_FENCE_I = 0"
definition SBI_TLB_SFENCE_VMA :: int where [simp, sbi_defs]: "SBI_TLB_SFENCE_VMA = 1"
definition SBI_TLB_SFENCE_VMA_ASID :: int where [simp, sbi_defs]: "SBI_TLB_SFENCE_VMA_ASID = 2"
definition SBI_TLB_HFENCE_GVMA_VMID :: int where [simp, sbi_defs]: "SBI_TLB_HFENCE_GVMA_VMID = 3"
definition SBI_TLB_HFENCE_GVMA :: int where [simp, sbi_defs]: "SBI_TLB_HFENCE_GVMA = 4"
definition SBI_TLB_HFENCE_VVMA_ASID :: int where [simp, sbi_defs]: "SBI_TLB_HFENCE_VVMA_ASID = 5"
definition SBI_TLB_HFENCE_VVMA :: int where [simp, sbi_defs]: "SBI_TLB_HFENCE_VVMA = 6"
definition SBI_TLB_TYPE_MAX :: int where [simp, sbi_defs]: "SBI_TLB_TYPE_MAX = 7"

record sbi_tlb_info =
  tstart :: ulong
  tsize :: ulong
  asid :: u16
  vmid :: u16
  ttype :: int
  smask :: sbi_hartmask

text \<open>
  The instructions: \<open>fence.i\<close>, \<open>sfence.vma\<close> and the hypervisor fences. \<open>hfence.vvma\<close> acts on the
  VMID of \<open>hgatp\<close>, which the source sets around it.
\<close>

datatype fence =
    Fence_i
  | Sfence_all
  | Sfence_va ulong
  | Sfence_asid u16
  | Sfence_va_asid ulong u16
  | Hfence_gvma_all
  | Hfence_gvma_gpa ulong
  | Hfence_gvma_vmid u16
  | Hfence_gvma_vmid_gpa ulong u16
  | Hfence_vvma_all u16
  | Hfence_vvma_va u16 ulong
  | Hfence_vvma_asid u16 u16
  | Hfence_vvma_asid_va u16 ulong u16

definition flush_everything :: "sbi_tlb_info \<Rightarrow> bool" where
  "flush_everything t \<longleftrightarrow> tstart t = 0 \<and> tsize t = 0 \<or> tsize t = SBI_TLB_FLUSH_ALL"

text \<open>\<open>for (i = 0; i < size; i += PAGE_SIZE)\<close>: the values of \<open>start + i\<close>. \<open>None\<close>: the loop does not end.\<close>

partial_function (option) page_loop :: "ulong \<Rightarrow> ulong \<Rightarrow> ulong \<Rightarrow> ulong list option" where
  "page_loop start sz i =
    (if i < sz then Option.bind (page_loop start sz (i + PAGE_SIZE)) (\<lambda>ps. Some ((start + i) # ps))
     else Some [])"

definition fence_range :: "fence \<Rightarrow> (ulong \<Rightarrow> fence) \<Rightarrow> sbi_tlb_info \<Rightarrow> fence list option" where
  "fence_range everything one t =
    (if flush_everything t then Some [everything] else map_option (map one) (page_loop (tstart t) (tsize t) 0))"

definition sbi_tlb_local_hfence_vvma :: "sbi_tlb_info \<Rightarrow> fence list option" where
  "sbi_tlb_local_hfence_vvma t = fence_range (Hfence_vvma_all (vmid t)) (Hfence_vvma_va (vmid t)) t"

definition sbi_tlb_local_hfence_gvma :: "sbi_tlb_info \<Rightarrow> fence list option" where
  "sbi_tlb_local_hfence_gvma t = fence_range Hfence_gvma_all (\<lambda>a. Hfence_gvma_gpa (drop_bit 2 a)) t"

definition sbi_tlb_local_sfence_vma :: "sbi_tlb_info \<Rightarrow> fence list option" where
  "sbi_tlb_local_sfence_vma t = fence_range Sfence_all Sfence_va t"

definition sbi_tlb_local_hfence_vvma_asid :: "sbi_tlb_info \<Rightarrow> fence list option" where
  "sbi_tlb_local_hfence_vvma_asid t =
    fence_range (Hfence_vvma_asid (vmid t) (asid t)) (\<lambda>a. Hfence_vvma_asid_va (vmid t) a (asid t)) t"

definition sbi_tlb_local_hfence_gvma_vmid :: "sbi_tlb_info \<Rightarrow> fence list option" where
  "sbi_tlb_local_hfence_gvma_vmid t =
    fence_range (Hfence_gvma_vmid (vmid t)) (\<lambda>a. Hfence_gvma_vmid_gpa (drop_bit 2 a) (vmid t)) t"

definition sbi_tlb_local_sfence_vma_asid :: "sbi_tlb_info \<Rightarrow> fence list option" where
  "sbi_tlb_local_sfence_vma_asid t = fence_range (Sfence_asid (asid t)) (\<lambda>a. Sfence_va_asid a (asid t)) t"

definition sbi_tlb_local_fence_i :: "sbi_tlb_info \<Rightarrow> fence list option" where
  "sbi_tlb_local_fence_i t = Some [Fence_i]"

definition tlb_entry_local_process :: "sbi_tlb_info \<Rightarrow> fence list option" where
  "tlb_entry_local_process t =
    (if ttype t = SBI_TLB_FENCE_I then sbi_tlb_local_fence_i t
     else if ttype t = SBI_TLB_SFENCE_VMA then sbi_tlb_local_sfence_vma t
     else if ttype t = SBI_TLB_SFENCE_VMA_ASID then sbi_tlb_local_sfence_vma_asid t
     else if ttype t = SBI_TLB_HFENCE_GVMA_VMID then sbi_tlb_local_hfence_gvma_vmid t
     else if ttype t = SBI_TLB_HFENCE_GVMA then sbi_tlb_local_hfence_gvma t
     else if ttype t = SBI_TLB_HFENCE_VVMA_ASID then sbi_tlb_local_hfence_vvma_asid t
     else if ttype t = SBI_TLB_HFENCE_VVMA then sbi_tlb_local_hfence_vvma t
     else Some [])"

record tlb_state =
  tlb_tab :: scratch_globals
  tlb_fifo :: "nat \<Rightarrow> sbi_tlb_info list"
  tlb_cap :: nat
  tlb_syncs :: "nat \<Rightarrow> int"
  fences :: "nat \<Rightarrow> fence list"

definition run_fences :: "nat \<Rightarrow> sbi_tlb_info \<Rightarrow> tlb_state \<Rightarrow> tlb_state option" where
  "run_fences self t s =
    map_option (\<lambda>fs. s\<lparr>fences := (fences s)(self := fences s self @ fs)\<rparr>) (tlb_entry_local_process t)"

definition sync_done :: "nat \<Rightarrow> tlb_state \<Rightarrow> tlb_state" where
  "sync_done r s =
    (if sbi_hartindex_to_scratch (tlb_tab s) (of_nat r) = 0 then s
     else s\<lparr>tlb_syncs := (tlb_syncs s)(r := tlb_syncs s r - 1)\<rparr>)"

definition tlb_entry_process :: "nat \<Rightarrow> sbi_tlb_info \<Rightarrow> tlb_state \<Rightarrow> tlb_state option" where
  "tlb_entry_process self t s =
    map_option (fold sync_done (sbi_hartmask_for_each_hartindex (smask t))) (run_fences self t s)"

definition tlb_process_once :: "nat \<Rightarrow> tlb_state \<Rightarrow> (bool \<times> tlb_state) option" where
  "tlb_process_once self s =
    (case list_deq (tlb_fifo s self) of (rc, t, q) \<Rightarrow>
      (case t of
         Some t' \<Rightarrow> map_option (Pair True) (tlb_entry_process self t' (s\<lparr>tlb_fifo := (tlb_fifo s)(self := q)\<rparr>))
       | None \<Rightarrow> Some (False, s)))"

partial_function (option) tlb_process :: "nat \<Rightarrow> tlb_state \<Rightarrow> tlb_state option" where
  "tlb_process self s =
    Option.bind (tlb_process_once self s) (\<lambda>(more, s). if more then tlb_process self s else Some s)"

text \<open>One round of the loop of \<open>tlb_sync\<close>; \<open>False\<close> leaves it.\<close>

definition tlb_sync_round :: "nat \<Rightarrow> tlb_state \<Rightarrow> (bool \<times> tlb_state) option" where
  "tlb_sync_round self s =
    (if tlb_syncs s self > 0 then map_option (\<lambda>(_, s). (True, s)) (tlb_process_once self s)
     else Some (False, s))"

definition tlb_range_check :: "sbi_tlb_info \<Rightarrow> sbi_tlb_info \<Rightarrow> int \<times> sbi_tlb_info" where
  "tlb_range_check cur nx =
    (let next_end = tstart nx + tsize nx; curr_end = tstart cur + tsize cur
     in if tstart nx \<le> tstart cur \<and> next_end > curr_end then
          (SBI_FIFO_UPDATED, cur\<lparr>tstart := tstart nx, tsize := tsize nx,
             smask := sbi_hartmask_or (smask cur) (smask cur) (smask nx)\<rparr>)
        else if tstart nx \<ge> tstart cur \<and> next_end \<le> curr_end then
          (SBI_FIFO_SKIP, cur\<lparr>smask := sbi_hartmask_or (smask cur) (smask cur) (smask nx)\<rparr>)
        else (SBI_FIFO_UNCHANGED, cur))"

definition tlb_update_cb :: "sbi_tlb_info \<Rightarrow> sbi_tlb_info \<Rightarrow> int \<times> sbi_tlb_info" where
  "tlb_update_cb nx cur =
    (if ttype nx = SBI_TLB_SFENCE_VMA_ASID \<and> ttype cur = SBI_TLB_SFENCE_VMA_ASID then
       if asid nx = asid cur then tlb_range_check cur nx else (SBI_FIFO_UNCHANGED, cur)
     else if ttype nx = SBI_TLB_SFENCE_VMA \<and> ttype cur = SBI_TLB_SFENCE_VMA then tlb_range_check cur nx
     else (SBI_FIFO_UNCHANGED, cur))"

definition tlb_update :: "nat \<Rightarrow> nat \<Rightarrow> sbi_tlb_info \<Rightarrow> tlb_state \<Rightarrow> (int \<times> tlb_state) option" where
  "tlb_update self remote t s =
    (if sbi_hartindex_to_hartid (tlb_tab s) (of_nat remote) = sbi_hartindex_to_hartid (tlb_tab s) (of_nat self)
     then map_option (Pair SBI_IPI_UPDATE_BREAK) (run_fences self t s)
     else
       (case list_inplace tlb_update_cb t SBI_FIFO_UNCHANGED (tlb_fifo s remote) of (ret, q) \<Rightarrow>
         let s = s\<lparr>tlb_fifo := (tlb_fifo s)(remote := q)\<rparr>;
             (rc, q') = (if ret = SBI_FIFO_UNCHANGED then list_enq (tlb_cap s) q t False else (0, q))
         in if rc < 0 then map_option (\<lambda>(_, s). (SBI_IPI_UPDATE_RETRY, s)) (tlb_process_once self s)
            else Some (SBI_IPI_UPDATE_SUCCESS,
              s\<lparr>tlb_fifo := (tlb_fifo s)(remote := q'),
                tlb_syncs := (tlb_syncs s)(self := tlb_syncs s self + 1)\<rparr>)))"

text \<open>\<open>sbi_tlb_request\<close> up to the IPI: the request that is sent, or an error.\<close>

definition sbi_tlb_request_info :: "ulong \<Rightarrow> sbi_tlb_info \<Rightarrow> int + sbi_tlb_info" where
  "sbi_tlb_request_info flush_limit t =
    (if ttype t < 0 \<or> ttype t \<ge> SBI_TLB_TYPE_MAX then Inl SBI_EINVAL
     else Inr (if tsize t > flush_limit then t\<lparr>tstart := 0, tsize := SBI_TLB_FLUSH_ALL\<rparr> else t))"

subsection \<open>The pages that are fenced\<close>

lemma pages_Suc:
  "map (\<lambda>k. s + of_nat (4096 * k)) [0..<Suc n] = (s :: ulong) # map (\<lambda>k. s + 4096 + of_nat (4096 * k)) [0..<n]"
proof -
  have "[0..<Suc n] = 0 # map Suc [0..<n]" by (simp add: map_Suc_upt upt_conv_Cons del: upt_Suc)
  then show ?thesis by (simp add: algebra_simps del: upt_Suc)
qed

lemma page_loop_eq:
  assumes "unat sz \<le> 2 ^ 64 - 4096"
  shows "page_loop start sz i =
    Some (map (\<lambda>k. start + i + of_nat (4096 * k)) [0..<(unat sz - unat i + 4095) div 4096])"
proof (induction "unat sz - unat i" arbitrary: i rule: less_induct)
  case less
  show ?case
  proof (cases "i < sz")
    case False
    then have "unat sz - unat i = 0" by (simp add: word_less_nat_alt)
    then show ?thesis using False by (simp add: page_loop.simps)
  next
    case True
    then have lt: "unat i < unat sz" by (simp add: word_less_nat_alt)
    have u: "unat (i + PAGE_SIZE) = unat i + 4096"
      using lt assms by (simp add: PAGE_SIZE_def unat_add_nowrap)
    let ?n = "(unat sz - unat (i + PAGE_SIZE) + 4095) div 4096"
    have IH: "page_loop start sz (i + PAGE_SIZE) =
        Some (map (\<lambda>k. start + (i + PAGE_SIZE) + of_nat (4096 * k)) [0..<?n])"
      using lt u by (intro less) simp
    have n: "(unat sz - unat i + 4095) div 4096 = Suc ?n"
    proof (cases "unat sz \<le> unat i + 4096")
      case True
      then have "(unat sz - unat i + 4095) div 4096 = 1" using lt by (intro div_nat_eqI) simp_all
      then show ?thesis using True u by simp
    next
      case False
      then have "unat sz - unat i + 4095 = (unat sz - (unat i + 4096) + 4095) + 4096" by simp
      then show ?thesis by (simp only: u)
    qed
    have e: "start + (i + PAGE_SIZE) = start + i + 4096" by (simp add: PAGE_SIZE_def)
    show ?thesis
      unfolding page_loop.simps [of start sz i] IH n pages_Suc e using True by simp
  qed
qed

text \<open>For an aligned start every page of the range is fenced.\<close>

lemma page_loop_covers:
  assumes sz: "unat sz \<le> 2 ^ 64 - 4096" and al: "4096 dvd unat start" and nw: "unat start + unat sz \<le> 2 ^ 64"
    and x: "unat start \<le> x" "x < unat start + unat sz"
  shows "\<exists>ps p. page_loop start sz 0 = Some ps \<and> p \<in> set ps \<and> unat p div 4096 = x div 4096"
proof -
  define k where "k = (x - unat start) div 4096"
  define p where "p = start + of_nat (4096 * k)"
  have d: "4096 * k \<le> x - unat start" by (simp add: k_def)
  have "x - unat start + 4096 \<le> unat sz + 4095" using x by simp
  then have "(x - unat start + 4096) div 4096 \<le> (unat sz + 4095) div 4096" by (rule div_le_mono)
  then have kn: "k < (unat sz + 4095) div 4096" by (simp add: k_def)
  have "unat (of_nat (4096 * k) :: ulong) = 4096 * k"
    using d x nw by (simp add: unat_of_nat del: of_nat_mult)
  then have u: "unat p = unat start + 4096 * k"
    using d x nw unfolding p_def by (subst unat_add_nowrap) simp_all
  obtain q where q: "unat start = 4096 * q" using al by auto
  have "unat p div 4096 = q + k" unfolding u q by simp
  moreover have "x div 4096 = q + k"
  proof -
    have "x = (x - unat start) + 4096 * q" using x q by simp
    then have "x div 4096 = ((x - unat start) + 4096 * q) div 4096" by (rule arg_cong)
    also have "\<dots> = q + k" by (simp add: k_def)
    finally show ?thesis .
  qed
  moreover have "p \<in> set (map (\<lambda>k. start + 0 + of_nat (4096 * k)) [0..<(unat sz - unat (0::ulong) + 4095) div 4096])"
    using kn by (auto simp: p_def)
  ultimately show ?thesis using page_loop_eq [OF sz, of start 0] by metis
qed

subsection \<open>Merging requests\<close>

definition trange :: "sbi_tlb_info \<Rightarrow> nat set" where
  "trange t = {unat (tstart t)..<unat (tstart t) + unat (tsize t)}"

text \<open>A request whose range is what it says: no wrap-around, and not the \<open>(0, 0)\<close> encoding of "everything".\<close>

definition plain_request :: "sbi_tlb_info \<Rightarrow> bool" where
  "plain_request t \<longleftrightarrow> unat (tstart t) + unat (tsize t) < 2 ^ 64 \<and> \<not> (tstart t = 0 \<and> tsize t = 0) \<and> wf_hartmask (smask t)"

text \<open>
  \<open>e\<close> asks for at least the fences of \<open>t\<close> and signals at least the same harts. The ASID
  and VMID count only for the types that use them.
\<close>

definition subsumes :: "sbi_tlb_info \<Rightarrow> sbi_tlb_info \<Rightarrow> bool" where
  "subsumes e t \<longleftrightarrow> ttype e = ttype t \<and> (ttype t = SBI_TLB_SFENCE_VMA \<or> asid e = asid t) \<and>
    (ttype t = SBI_TLB_SFENCE_VMA \<or> ttype t = SBI_TLB_SFENCE_VMA_ASID \<or> vmid e = vmid t) \<and>
    trange t \<subseteq> trange e \<and> hartset (smask t) \<subseteq> hartset (smask e)"

lemma subsumes_refl [simp]: "subsumes t t"
  by (simp add: subsumes_def)

lemma range_check_sound:
  assumes "plain_request cur" and "plain_request nx" and "tlb_range_check cur nx = (ret, cur')"
  shows "plain_request cur' \<and> trange cur \<subseteq> trange cur' \<and> hartset (smask cur) \<subseteq> hartset (smask cur') \<and>
    ttype cur' = ttype cur \<and> asid cur' = asid cur \<and> vmid cur' = vmid cur \<and>
    (ret \<noteq> SBI_FIFO_UNCHANGED \<longrightarrow> trange nx \<subseteq> trange cur' \<and> hartset (smask nx) \<subseteq> hartset (smask cur')) \<and>
    (ret = SBI_FIFO_UNCHANGED \<longrightarrow> cur' = cur)"
proof -
  have e: "unat (tstart cur + tsize cur) = unat (tstart cur) + unat (tsize cur)"
    "unat (tstart nx + tsize nx) = unat (tstart nx) + unat (tsize nx)"
    using assms(1,2) by (simp_all add: plain_request_def unat_add_nowrap)
  have wf: "wf_hartmask (smask cur)" using assms(1) by (simp add: plain_request_def)
  show ?thesis
    using assms e wf
    by (auto simp: tlb_range_check_def Let_def plain_request_def trange_def word_le_nat_alt word_less_nat_alt
        hartset_or split: if_splits)
qed

lemma update_cb_sound:
  assumes "plain_request cur" and "plain_request nx" and "tlb_update_cb nx cur = (ret, cur')"
  shows "plain_request cur'" and "subsumes cur' cur" and "ret \<noteq> SBI_FIFO_UNCHANGED \<Longrightarrow> subsumes cur' nx"
    and "ret = SBI_FIFO_UNCHANGED \<Longrightarrow> cur' = cur"
proof -
  have "plain_request cur' \<and> subsumes cur' cur \<and> (ret \<noteq> SBI_FIFO_UNCHANGED \<longrightarrow> subsumes cur' nx) \<and>
    (ret = SBI_FIFO_UNCHANGED \<longrightarrow> cur' = cur)"
  proof (cases "ttype nx = SBI_TLB_SFENCE_VMA_ASID \<and> ttype cur = SBI_TLB_SFENCE_VMA_ASID \<and> asid nx = asid cur \<or>
      ttype nx = SBI_TLB_SFENCE_VMA \<and> ttype cur = SBI_TLB_SFENCE_VMA")
    case True
    then have "tlb_range_check cur nx = (ret, cur')" using assms(3) by (auto simp: tlb_update_cb_def)
    then show ?thesis using range_check_sound [OF assms(1,2)] True by (auto simp: subsumes_def)
  next
    case False
    then have "ret = SBI_FIFO_UNCHANGED" "cur' = cur"
      using assms(3) by (auto simp: tlb_update_cb_def split: if_splits)
    then show ?thesis using assms(1) by simp
  qed
  then show "plain_request cur'" "subsumes cur' cur" "ret \<noteq> SBI_FIFO_UNCHANGED \<Longrightarrow> subsumes cur' nx"
    "ret = SBI_FIFO_UNCHANGED \<Longrightarrow> cur' = cur" by auto
qed

lemma subsumes_trans: "subsumes a b \<Longrightarrow> subsumes b c \<Longrightarrow> subsumes a c"
  unfolding subsumes_def by (intro conjI) (metis, metis, metis, blast, blast)

lemma inplace_sound:
  assumes "\<forall>e \<in> set q. plain_request e" and "plain_request t"
    and "list_inplace tlb_update_cb t SBI_FIFO_UNCHANGED q = (ret, q')"
  shows "(\<forall>e \<in> set q'. plain_request e) \<and> list_all2 (\<lambda>e' e. subsumes e' e) q' q \<and>
    (ret \<noteq> SBI_FIFO_UNCHANGED \<longrightarrow> (\<exists>e' \<in> set q'. subsumes e' t)) \<and> (ret = SBI_FIFO_UNCHANGED \<longrightarrow> q' = q)"
  using assms(1,3)
proof (induction q arbitrary: ret q')
  case Nil
  then show ?case by simp
next
  case (Cons c q)
  obtain r c' where cb: "tlb_update_cb t c = (r, c')" by (metis surj_pair)
  have c: "plain_request c" using Cons.prems(1) by simp
  note u = update_cb_sound [OF c assms(2) cb]
  have r3: "r = SBI_FIFO_SKIP \<or> r = SBI_FIFO_UPDATED \<or> r = SBI_FIFO_UNCHANGED"
    using cb by (auto simp: tlb_update_cb_def tlb_range_check_def Let_def split: if_splits)
  show ?case
  proof (cases "r = SBI_FIFO_SKIP \<or> r = SBI_FIFO_UPDATED")
    case True
    then have "ret = r" "q' = c' # q" using Cons.prems(2) cb by auto
    moreover have "list_all2 subsumes q q" by (simp add: list_all2_same)
    ultimately show ?thesis using True u Cons.prems(1) by auto
  next
    case False
    then have r: "r = SBI_FIFO_UNCHANGED" using r3 by blast
    obtain ret1 q1 where l: "list_inplace tlb_update_cb t SBI_FIFO_UNCHANGED q = (ret1, q1)" by (metis surj_pair)
    have "ret = ret1" "q' = c' # q1" using Cons.prems(2) cb r l by auto
    then show ?thesis using Cons.IH [OF _ l] Cons.prems(1) u r by auto
  qed
qed

text \<open>No pending request is lost or weakened, and the new one is in the queue.\<close>

lemma tlb_update_sound:
  assumes plain: "\<forall>e \<in> set (tlb_fifo s remote). plain_request e" "plain_request t"
    and res: "tlb_update self remote t s = Some (SBI_IPI_UPDATE_SUCCESS, s')"
  shows "\<forall>e \<in> insert t (set (tlb_fifo s remote)). \<exists>e' \<in> set (tlb_fifo s' remote). subsumes e' e"
    and "\<forall>e \<in> set (tlb_fifo s' remote). plain_request e"
    and "tlb_syncs s' = (tlb_syncs s)(self := tlb_syncs s self + 1)"
proof -
  obtain ret q where l: "list_inplace tlb_update_cb t SBI_FIFO_UNCHANGED (tlb_fifo s remote) = (ret, q)"
    by (metis surj_pair)
  note i = inplace_sound [OF plain l]
  have neq: "sbi_hartindex_to_hartid (tlb_tab s) (of_nat remote) \<noteq> sbi_hartindex_to_hartid (tlb_tab s) (of_nat self)"
    using res by (auto simp: tlb_update_def)
  have "tlb_syncs s' = (tlb_syncs s)(self := tlb_syncs s self + 1) \<and>
    tlb_fifo s' remote = (if ret = SBI_FIFO_UNCHANGED then q @ [t] else q)"
    using res neq l by (auto simp: tlb_update_def Let_def list_enq_def split: if_splits prod.splits)
  moreover have "\<exists>e' \<in> set q. subsumes e' e" if e: "e \<in> set (tlb_fifo s remote)" for e
  proof -
    have a: "list_all2 subsumes q (tlb_fifo s remote)" using i by blast
    obtain j where j: "j < length (tlb_fifo s remote)" "e = tlb_fifo s remote ! j"
      using e by (auto simp: in_set_conv_nth)
    have "j < length q" using j(1) list_all2_lengthD [OF a] by simp
    then show ?thesis using list_all2_nthD [OF a, of j] j(2) nth_mem [of j q] by blast
  qed
  ultimately show "\<forall>e \<in> insert t (set (tlb_fifo s remote)). \<exists>e' \<in> set (tlb_fifo s' remote). subsumes e' e"
    "\<forall>e \<in> set (tlb_fifo s' remote). plain_request e"
    "tlb_syncs s' = (tlb_syncs s)(self := tlb_syncs s self + 1)"
    using i plain(2) by auto
qed

subsection \<open>The fences of merged requests\<close>

lemma unat_m1: "unat (-1 :: ulong) = 2 ^ 64 - 1"
  by (simp add: unsigned_minus_1_eq_mask mask_eq_exp_minus_1)

text \<open>The first fence has at least the effect of the second.\<close>

definition covers_fence :: "fence \<Rightarrow> fence \<Rightarrow> bool" where
  "covers_fence f g \<longleftrightarrow> f = g \<or>
    f = Sfence_all \<and> (\<exists>a. g = Sfence_va a) \<or>
    (\<exists>n a. f = Sfence_asid n \<and> g = Sfence_va_asid a n) \<or>
    f = Hfence_gvma_all \<and> (\<exists>a. g = Hfence_gvma_gpa a) \<or>
    (\<exists>v a. f = Hfence_gvma_vmid v \<and> g = Hfence_gvma_vmid_gpa a v) \<or>
    (\<exists>v a. f = Hfence_vvma_all v \<and> g = Hfence_vvma_va v a) \<or>
    (\<exists>v n a. f = Hfence_vvma_asid v n \<and> g = Hfence_vvma_asid_va v a n)"

lemma covers_fence_intros [simp]:
  "covers_fence f f" "covers_fence Sfence_all (Sfence_va a)" "covers_fence (Sfence_asid n) (Sfence_va_asid a n)"
  "covers_fence Hfence_gvma_all (Hfence_gvma_gpa a)" "covers_fence (Hfence_gvma_vmid v) (Hfence_gvma_vmid_gpa a v)"
  "covers_fence (Hfence_vvma_all v) (Hfence_vvma_va v a)" "covers_fence (Hfence_vvma_asid v n) (Hfence_vvma_asid_va v a n)"
  by (auto simp: covers_fence_def)

text \<open>Executing \<open>e'\<close> issues, for every fence instruction that executing \<open>e\<close> issues, one that has at least its effect.\<close>

definition fences_cover :: "sbi_tlb_info \<Rightarrow> sbi_tlb_info \<Rightarrow> bool" where
  "fences_cover e' e \<longleftrightarrow> (\<exists>fs fs'. tlb_entry_local_process e = Some fs \<and> tlb_entry_local_process e' = Some fs' \<and>
    (\<forall>f \<in> set fs. \<exists>f' \<in> set fs'. covers_fence f' f))"

text \<open>
  A plain request that starts at a page boundary and has a size that the flush limit lets through, or is the full flush that
  \<open>sbi_tlb_request\<close> makes of a larger one.
\<close>

definition page_request :: "sbi_tlb_info \<Rightarrow> bool" where
  "page_request t \<longleftrightarrow> plain_request t \<and> 4096 dvd unat (tstart t) \<and>
    (unat (tsize t) \<le> 2 ^ 64 - 4096 \<or> tstart t = 0 \<and> tsize t = SBI_TLB_FLUSH_ALL)"

lemma page_loop_set:
  assumes "unat sz \<le> 2 ^ 64 - 4096" and "4096 dvd unat start" and "unat start + unat sz < 2 ^ 64"
  shows "\<exists>ps. page_loop start sz 0 = Some ps \<and> set ps = {p. 4096 dvd unat p \<and> unat start \<le> unat p \<and> unat p < unat start + unat sz}"
proof -
  let ?n = "(unat sz + 4095) div 4096"
  have k: "k < ?n \<longleftrightarrow> 4096 * k < unat sz" for k by (simp add: less_eq_div_iff_mult_less_eq [symmetric] flip: Suc_le_eq) linarith
  have u: "unat (start + of_nat (4096 * k)) = unat start + 4096 * k" if "4096 * k < unat sz" for k
  proof -
    have "unat (of_nat (4096 * k) :: ulong) = 4096 * k" using that assms(3) by (simp add: unat_of_nat del: of_nat_mult)
    then show ?thesis using that assms(3) by (subst unat_add_nowrap) simp_all
  qed
  have "(\<lambda>k. start + of_nat (4096 * k)) ` {..<?n} = {p. 4096 dvd unat p \<and> unat start \<le> unat p \<and> unat p < unat start + unat sz}"
    (is "?l = ?r")
  proof
    show "?l \<subseteq> ?r" using u k assms(2) by auto
    show "?r \<subseteq> ?l"
    proof
      fix p assume p: "p \<in> ?r"
      then have "4096 dvd unat p - unat start" "unat start \<le> unat p" using assms(2) by (auto intro: dvd_diff_nat)
      then obtain j where j: "unat p = unat start + 4096 * j" by (metis dvdE le_add_diff_inverse)
      then have lt: "4096 * j < unat sz" using p by simp
      then have "p = start + of_nat (4096 * j)" using u [of j] j by (metis unsigned_word_eqI)
      then show "p \<in> ?l" using lt k by blast
    qed
  qed
  then show ?thesis using page_loop_eq [OF assms(1), of start 0] by (simp add: atLeast0LessThan)
qed

lemma fence_range_cases:
  assumes "page_request t"
  shows "if tsize t = SBI_TLB_FLUSH_ALL then fence_range everything one t = Some [everything]
    else \<exists>fs. fence_range everything one t = Some fs \<and> set fs = one ` {p. 4096 dvd unat p \<and> unat p \<in> trange t}"
proof (cases "tsize t = SBI_TLB_FLUSH_ALL")
  case False
  then have r: "unat (tsize t) \<le> 2 ^ 64 - 4096" "4096 dvd unat (tstart t)" "unat (tstart t) + unat (tsize t) < 2 ^ 64"
    "\<not> flush_everything t" using assms by (auto simp: page_request_def plain_request_def flush_everything_def)
  then show ?thesis using False page_loop_set [OF r(1-3)] by (auto simp: fence_range_def trange_def)
qed (simp add: fence_range_def flush_everything_def)

lemma fence_range_covers_subset:
  assumes "page_request e" and "page_request e'" and "trange e \<subseteq> trange e'" and "\<And>p. covers_fence everything (one p)"
  shows "\<exists>fs fs'. fence_range everything one e = Some fs \<and> fence_range everything one e' = Some fs' \<and>
    (\<forall>f \<in> set fs. \<exists>f' \<in> set fs'. covers_fence f' f)"
proof (cases "tsize e = SBI_TLB_FLUSH_ALL")
  case True
  then have "trange e = {0..<2 ^ 64 - 1}" using assms(1) by (auto simp: page_request_def trange_def SBI_TLB_FLUSH_ALL_def unat_m1)
  then have "2 ^ 64 - 1 \<le> unat (tstart e') + unat (tsize e')" "unat (tstart e') = 0"
    using assms(3) by (auto simp: trange_def)
  then have "tsize e' = SBI_TLB_FLUSH_ALL" using assms(2) by (auto simp: page_request_def)
  then show ?thesis using True fence_range_cases [OF assms(1), of everything one] fence_range_cases [OF assms(2), of everything one] by auto
next
  case False
  let ?P = "\<lambda>t. {p :: ulong. 4096 dvd unat p \<and> unat p \<in> trange t}"
  obtain fs where fs: "fence_range everything one e = Some fs" "set fs = one ` ?P e"
    using fence_range_cases [OF assms(1), of everything one] False by auto
  have sub: "one ` ?P e \<subseteq> one ` ?P e'" using assms(3) by blast
  show ?thesis
  proof (cases "tsize e' = SBI_TLB_FLUSH_ALL")
    case True
    then have "fence_range everything one e' = Some [everything]" using fence_range_cases [OF assms(2), of everything one] by simp
    then show ?thesis using fs assms(4) by auto
  next
    case False
    then obtain fs' where fs': "fence_range everything one e' = Some fs'" "set fs' = one ` ?P e'"
      using fence_range_cases [OF assms(2), of everything one] by auto
    have "\<exists>f' \<in> set fs'. covers_fence f' f" if "f \<in> set fs" for f
      using subsetD [OF sub [folded fs(2) fs'(2)] that] by (rule bexI [rotated]) simp
    then show ?thesis using fs(1) fs'(1) by simp
  qed
qed

lemma subsumes_fences:
  assumes "subsumes e' e" and "page_request e" and "page_request e'"
  shows "fences_cover e' e"
proof -
  have r: "trange e \<subseteq> trange e'" using assms(1) by (simp add: subsumes_def)
  note c = fence_range_covers_subset [OF assms(2,3) r]
  have t: "ttype e' = ttype e" "ttype e \<noteq> SBI_TLB_SFENCE_VMA \<longrightarrow> asid e' = asid e"
    "ttype e \<noteq> SBI_TLB_SFENCE_VMA \<longrightarrow> ttype e \<noteq> SBI_TLB_SFENCE_VMA_ASID \<longrightarrow> vmid e' = vmid e"
    using assms(1) by (auto simp: subsumes_def)
  note locals = tlb_entry_local_process_def sbi_tlb_local_fence_i_def sbi_tlb_local_sfence_vma_def sbi_tlb_local_sfence_vma_asid_def
    sbi_tlb_local_hfence_gvma_vmid_def sbi_tlb_local_hfence_gvma_def sbi_tlb_local_hfence_vvma_asid_def sbi_tlb_local_hfence_vvma_def
  consider "ttype e = 1" | "ttype e = 2" | "ttype e = 3" | "ttype e = 4" | "ttype e = 5" | "ttype e = 6" | "ttype e = 0 \<or> ttype e \<notin> {0..6}"
    by force
  then show ?thesis
  proof cases
    case 1
    then show ?thesis using c [of Sfence_all Sfence_va] t by (simp add: fences_cover_def locals)
  next
    case 2
    then show ?thesis using c [of "Sfence_asid (asid e)" "\<lambda>a. Sfence_va_asid a (asid e)"] t by (simp add: fences_cover_def locals)
  next
    case 3
    then show ?thesis
      using c [of "Hfence_gvma_vmid (vmid e)" "\<lambda>a. Hfence_gvma_vmid_gpa (drop_bit 2 a) (vmid e)"] t by (simp add: fences_cover_def locals)
  next
    case 4
    then show ?thesis using c [of Hfence_gvma_all "\<lambda>a. Hfence_gvma_gpa (drop_bit 2 a)"] t by (simp add: fences_cover_def locals)
  next
    case 5
    then show ?thesis
      using c [of "Hfence_vvma_asid (vmid e) (asid e)" "\<lambda>a. Hfence_vvma_asid_va (vmid e) a (asid e)"] t by (simp add: fences_cover_def locals)
  next
    case 6
    then show ?thesis using c [of "Hfence_vvma_all (vmid e)" "Hfence_vvma_va (vmid e)"] t by (simp add: fences_cover_def locals)
  next
    case 7
    then show ?thesis using t by (auto simp: fences_cover_def locals)
  qed
qed

text \<open>Merging keeps a queue of page requests one.\<close>

lemma update_cb_page:
  "page_request nx \<Longrightarrow> page_request cur \<Longrightarrow> tlb_update_cb nx cur = (ret, cur') \<Longrightarrow> page_request cur'"
  using update_cb_sound(1) [of cur nx ret cur']
  by (auto simp: page_request_def tlb_update_cb_def tlb_range_check_def Let_def split: if_splits)

lemma inplace_page:
  "\<forall>e \<in> set q. page_request e \<Longrightarrow> page_request t \<Longrightarrow> list_inplace tlb_update_cb t st q = (ret, q') \<Longrightarrow> \<forall>e \<in> set q'. page_request e"
proof (induction q arbitrary: st ret q')
  case (Cons c q)
  obtain r c' where cb: "tlb_update_cb t c = (r, c')" by (metis surj_pair)
  obtain ret1 q1 where l: "list_inplace tlb_update_cb t r q = (ret1, q1)" by (metis surj_pair)
  then show ?case using Cons cb update_cb_page [OF _ _ cb] by (auto split: if_splits)
qed simp

lemma tlb_update_page:
  assumes "\<forall>e \<in> set (tlb_fifo s remote). page_request e" and "page_request t"
    and "tlb_update self remote t s = Some (SBI_IPI_UPDATE_SUCCESS, s')"
  shows "\<forall>e \<in> set (tlb_fifo s' remote). page_request e"
proof -
  obtain ret q where l: "list_inplace tlb_update_cb t SBI_FIFO_UNCHANGED (tlb_fifo s remote) = (ret, q)"
    by (metis surj_pair)
  have "tlb_fifo s' remote = (if ret = SBI_FIFO_UNCHANGED then q @ [t] else q)"
    using assms(3) l by (auto simp: tlb_update_def Let_def list_enq_def split: if_splits prod.splits)
  then show ?thesis using inplace_page [OF assms(1,2) l] assms(2) by auto
qed

subsection \<open>Processing\<close>

lemma fold_sync_done_fields:
  "tlb_fifo (fold sync_done rs s) = tlb_fifo s" "fences (fold sync_done rs s) = fences s"
  "tlb_tab (fold sync_done rs s) = tlb_tab s" "tlb_cap (fold sync_done rs s) = tlb_cap s"
  by (induction rs arbitrary: s) (simp_all add: sync_done_def)

lemma fold_sync_done_syncs:
  "tlb_syncs (fold sync_done rs s) r =
    tlb_syncs s r - (if sbi_hartindex_to_scratch (tlb_tab s) (of_nat r) = 0 then 0 else int (count_list rs r))"
  by (induction rs arbitrary: s) (auto simp: sync_done_def)

lemma count_list_distinct: "distinct xs \<Longrightarrow> count_list xs x = of_bool (x \<in> set xs)"
  by (induction xs) auto

definition waiting_on :: "tlb_state \<Rightarrow> nat \<Rightarrow> sbi_tlb_info list \<Rightarrow> nat" where
  "waiting_on s r q =
    (if sbi_hartindex_to_scratch (tlb_tab s) (of_nat r) = 0 then 0 else length (filter (\<lambda>t. r \<in> hartset (smask t)) q))"

lemma tlb_process_drains:
  assumes "tlb_fifo s self = q" and "\<forall>t \<in> set q. tlb_entry_local_process t = Some (fs t)"
  shows "\<exists>s'. tlb_process self s = Some s' \<and> tlb_fifo s' = (tlb_fifo s)(self := []) \<and>
    fences s' = (fences s)(self := fences s self @ concat (map fs q)) \<and>
    (\<forall>r. tlb_syncs s' r = tlb_syncs s r - int (waiting_on s r q))"
  using assms
proof (induction q arbitrary: s)
  case Nil
  then show ?case
    by (subst tlb_process.simps) (auto simp: tlb_process_once_def list_deq_def waiting_on_def)
next
  case (Cons t q)
  define s1 where "s1 = fold sync_done (sbi_hartmask_for_each_hartindex (smask t))
    (s\<lparr>tlb_fifo := (tlb_fifo s)(self := q), fences := (fences s)(self := fences s self @ fs t)\<rparr>)"
  have once: "tlb_process_once self s = Some (True, s1)"
    using Cons.prems by (simp add: tlb_process_once_def list_deq_def tlb_entry_process_def run_fences_def s1_def)
  have f: "tlb_fifo s1 = (tlb_fifo s)(self := q)" "fences s1 = (fences s)(self := fences s self @ fs t)"
    "tlb_tab s1 = tlb_tab s" by (simp_all add: s1_def fold_sync_done_fields)
  have y: "tlb_syncs s1 r = tlb_syncs s r - int (waiting_on s r [t])" for r
    by (simp add: s1_def fold_sync_done_syncs waiting_on_def count_list_distinct for_each_hartindex)
  obtain s' where s': "tlb_process self s1 = Some s'" "tlb_fifo s' = (tlb_fifo s1)(self := [])"
    "fences s' = (fences s1)(self := fences s1 self @ concat (map fs q))"
    "\<forall>r. tlb_syncs s' r = tlb_syncs s1 r - int (waiting_on s1 r q)"
    using Cons.IH [of s1] Cons.prems(2) f(1) by fastforce
  have "waiting_on s r (t # q) = waiting_on s r [t] + waiting_on s1 r q" for r
    by (simp add: waiting_on_def f)
  then show ?case
    using s' f y by (subst tlb_process.simps) (simp add: once)
qed

subsection \<open>Properties\<close>

text \<open>C21: Merging never loses a fence: when a request is queued for a remote hart, for every request that was pending there and
  for the new one there is a queued request that signals at least the same harts and whose execution issues, for every fence
  instruction the original would have issued, one with at least its effect; and the sender waits for one more acknowledgement. This is
  for requests that start at a page boundary, do not wrap around, have a size at least a page below \<open>2^64\<close> or are the full flush that
  \<open>sbi_tlb_request\<close> makes, and are not the \<open>(0, 0)\<close> encoding of a full flush. Without the conditions fences can be lost:
  \<open>tlb_unaligned_lost\<close> and \<open>tlb_flush_all_lost\<close> below.\<close>

theorem tlb_update_keeps:
  assumes "\<forall>e \<in> set (tlb_fifo s remote). page_request e" and "page_request t"
    and "tlb_update self remote t s = Some (SBI_IPI_UPDATE_SUCCESS, s')"
  shows "(\<forall>e \<in> insert t (set (tlb_fifo s remote)). \<exists>e' \<in> set (tlb_fifo s' remote).
      fences_cover e' e \<and> hartset (smask e) \<subseteq> hartset (smask e')) \<and>
    (\<forall>e \<in> set (tlb_fifo s' remote). page_request e) \<and>
    tlb_syncs s' = (tlb_syncs s)(self := tlb_syncs s self + 1)"
proof -
  have plain: "\<forall>e \<in> set (tlb_fifo s remote). plain_request e" "plain_request t" using assms(1,2) by (auto simp: page_request_def)
  note page = tlb_update_page [OF assms]
  have "\<exists>e' \<in> set (tlb_fifo s' remote). fences_cover e' e \<and> hartset (smask e) \<subseteq> hartset (smask e')"
    if e: "e \<in> insert t (set (tlb_fifo s remote))" for e
  proof -
    obtain e' where e': "e' \<in> set (tlb_fifo s' remote)" "subsumes e' e" using tlb_update_sound(1) [OF plain assms(3)] e by blast
    have "page_request e" using e assms(1,2) by auto
    then have "fences_cover e' e" using subsumes_fences [OF e'(2)] page e'(1) by blast
    then show ?thesis using e' by (auto simp: subsumes_def)
  qed
  then show ?thesis using page tlb_update_sound(3) [OF plain assms(3)] by blast
qed

definition sfence :: "ulong \<Rightarrow> ulong \<Rightarrow> sbi_tlb_info" where
  "sfence start sz = \<lparr>tstart = start, tsize = sz, asid = 0, vmid = 0, ttype = SBI_TLB_SFENCE_VMA, smask = hart0\<rparr>"

definition ex_tlb :: "sbi_tlb_info list \<Rightarrow> tlb_state" where
  "ex_tlb q = \<lparr>tlb_tab = ex_scratch, tlb_fifo = (\<lambda>i. if i = 1 then q else []), tlb_cap = 8,
    tlb_syncs = (\<lambda>_. 1), fences = (\<lambda>_. [])\<rparr>"

lemma ex_hartids: "sbi_hartindex_to_hartid ex_scratch 0 = 0" "sbi_hartindex_to_hartid ex_scratch 1 = 1"
  by (simp_all add: sbi_hartindex_to_hartid_def ex_scratch_def)

theorem tlb_update_keeps_witness:
  "\<exists>s'. tlb_update 0 1 (sfence 0x1000 0x4000) (ex_tlb [sfence 0x2000 0x1000]) = Some (SBI_IPI_UPDATE_SUCCESS, s') \<and>
    length (tlb_fifo s' 1) = 1 \<and> fences_cover (hd (tlb_fifo s' 1)) (sfence 0x2000 0x1000) \<and>
    fences_cover (hd (tlb_fifo s' 1)) (sfence 0x1000 0x4000)"
proof -
  have wf: "wf_hartmask hart0" by (simp add: hart0_def)
  obtain s' where s': "tlb_update 0 1 (sfence 0x1000 0x4000) (ex_tlb [sfence 0x2000 0x1000]) = Some (SBI_IPI_UPDATE_SUCCESS, s')"
    "length (tlb_fifo s' 1) = 1"
    by (simp add: tlb_update_def ex_tlb_def ex_hartids tlb_update_cb_def sfence_def tlb_range_check_def Let_def)
  obtain e where e: "tlb_fifo s' 1 = [e]" using s'(2) by (auto simp: length_Suc_conv)
  have p: "\<forall>e \<in> set (tlb_fifo (ex_tlb [sfence 0x2000 0x1000]) 1). page_request e" "page_request (sfence 0x1000 0x4000)"
    using wf by (simp_all add: ex_tlb_def page_request_def plain_request_def sfence_def)
  have "\<forall>t \<in> {sfence 0x1000 0x4000, sfence 0x2000 0x1000}. fences_cover e t"
    using tlb_update_keeps [OF p s'(1)] e by (simp add: ex_tlb_def)
  then show ?thesis using s' e by simp
qed

text \<open>A range request fences its range: for a page-aligned range that does not wrap around and is
  not within a page of \<open>2^64\<close> long, the loop of the \<open>sbi_tlb_local_*\<close> functions ends and for every
  address of the range issues a fence for its page; a request for everything issues the one full
  fence.\<close>

theorem fence_range_covers:
  assumes "4096 dvd unat (tstart t)" and "unat (tstart t) + unat (tsize t) \<le> 2 ^ 64"
    and "unat (tsize t) \<le> 2 ^ 64 - 4096"
  shows "\<exists>fs. fence_range everything one t = Some fs \<and>
    (if tstart t = 0 \<and> tsize t = 0 then fs = [everything]
     else \<forall>x \<in> {unat (tstart t)..<unat (tstart t) + unat (tsize t)}.
       \<exists>p. one p \<in> set fs \<and> unat p div 4096 = x div 4096)"
proof -
  have "tsize t \<noteq> SBI_TLB_FLUSH_ALL" using assms(3) unat_m1 by (auto simp: SBI_TLB_FLUSH_ALL_def)
  then have f: "flush_everything t \<longleftrightarrow> tstart t = 0 \<and> tsize t = 0" by (simp add: flush_everything_def)
  obtain ps where ps: "page_loop (tstart t) (tsize t) 0 = Some ps" using page_loop_eq [OF assms(3)] by blast
  have "\<exists>p. one p \<in> one ` set ps \<and> unat p div 4096 = x div 4096"
    if "x \<in> {unat (tstart t)..<unat (tstart t) + unat (tsize t)}" for x
    using page_loop_covers [OF assms(3,1,2), of x] ps that by auto
  then show ?thesis by (auto simp: fence_range_def f ps)
qed

theorem fence_range_covers_witness:
  "\<exists>fs. sbi_tlb_local_sfence_vma (sfence 0x2000 0x3000) = Some fs \<and>
    (\<exists>p. Sfence_va p \<in> set fs \<and> unat p div 4096 = 0x3abc div 4096)"
proof -
  obtain fs where fs: "fence_range Sfence_all Sfence_va (sfence 0x2000 0x3000) = Some fs"
    "\<forall>x \<in> {0x2000..<0x5000}. \<exists>p. Sfence_va p \<in> set fs \<and> unat p div 4096 = x div 4096"
    using fence_range_covers [of "sfence 0x2000 0x3000" Sfence_all Sfence_va] by (auto simp: sfence_def)
  show ?thesis using fs(1) bspec [OF fs(2), of "0x3abc"] by (simp add: sbi_tlb_local_sfence_vma_def)
qed

text \<open>Handling the fence IPI drains the queue of the hart: if the local processing of each queued
  request ends, \<open>tlb_process\<close> returns with an empty queue, has executed the fences of the requests in
  their order, and has acknowledged each request once to each hart of its mask that has a scratch
  space.\<close>

theorem tlb_process_all:
  assumes "\<forall>t \<in> set (tlb_fifo s self). \<exists>f. tlb_entry_local_process t = Some f"
  shows "\<exists>s'. tlb_process self s = Some s' \<and> tlb_fifo s' = (tlb_fifo s)(self := []) \<and>
    fences s' self = fences s self @ concat (map (\<lambda>t. the (tlb_entry_local_process t)) (tlb_fifo s self)) \<and>
    (\<forall>r. sbi_hartindex_to_scratch (tlb_tab s) (of_nat r) \<noteq> 0 \<longrightarrow>
      tlb_syncs s' r = tlb_syncs s r - int (length (filter (\<lambda>t. r \<in> hartset (smask t)) (tlb_fifo s self))))"
  using tlb_process_drains [OF refl, of s self "\<lambda>t. the (tlb_entry_local_process t)"] assms
  by (auto simp: waiting_on_def)

theorem tlb_process_all_witness:
  "\<exists>s'. tlb_process 1 (ex_tlb [sfence 0 0, sfence 0 (-1)]) = Some s' \<and> fences s' 1 = [Sfence_all, Sfence_all] \<and>
    tlb_syncs s' 0 = -1"
proof -
  have p: "tlb_entry_local_process (sfence 0 0) = Some [Sfence_all]" "tlb_entry_local_process (sfence 0 (-1)) = Some [Sfence_all]"
    by (simp_all add: tlb_entry_local_process_def sfence_def sbi_tlb_local_sfence_vma_def fence_range_def
        flush_everything_def SBI_TLB_FLUSH_ALL_def)
  have f: "tlb_fifo (ex_tlb q) 1 = q" "fences (ex_tlb q) 1 = []" "tlb_tab (ex_tlb q) = ex_scratch" "tlb_syncs (ex_tlb q) r = 1" for q r
    by (simp_all add: ex_tlb_def)
  have m: "hartset (smask (sfence a b)) = {0}" for a b by (simp add: sfence_def)
  let ?s = "ex_tlb [sfence 0 0, sfence 0 (-1)]"
  have a: "\<forall>t \<in> set (tlb_fifo ?s 1). \<exists>f. tlb_entry_local_process t = Some f" unfolding f by (simp add: p)
  obtain s' where s': "tlb_process 1 ?s = Some s'"
    "fences s' 1 = fences ?s 1 @ concat (map (\<lambda>t. the (tlb_entry_local_process t)) (tlb_fifo ?s 1))"
    "\<forall>r. sbi_hartindex_to_scratch (tlb_tab ?s) (of_nat r) \<noteq> 0 \<longrightarrow>
      tlb_syncs s' r = tlb_syncs ?s r - int (length (filter (\<lambda>t. r \<in> hartset (smask t)) (tlb_fifo ?s 1)))"
    using tlb_process_all [OF a] by blast
  have "tlb_syncs s' 0 = -1" using spec [OF s'(3), of 0] unfolding f by (simp add: m ex_hsm_tabs)
  moreover have "fences s' 1 = [Sfence_all, Sfence_all]" unfolding s'(2) f by (simp add: p)
  ultimately show ?thesis using s'(1) by blast
qed

text \<open>C36: Every accepted fence request is executed in finite time: with a flush limit at least a page
  below \<open>2^64\<close>, the request that \<open>sbi_tlb_request\<close> sends makes \<open>tlb_entry_local_process\<close> end.\<close>

theorem tlb_request_terminates:
  assumes "sbi_tlb_request_info limit t = Inr t'" and "unat limit \<le> 2 ^ 64 - 4096"
  shows "\<exists>fs. tlb_entry_local_process t' = Some fs"
proof -
  have "unat (tsize t') \<le> 2 ^ 64 - 4096 \<or> tsize t' = SBI_TLB_FLUSH_ALL"
    using assms by (auto simp: sbi_tlb_request_info_def word_less_nat_alt not_less split: if_splits)
  then have "\<exists>fs. fence_range everything one t' = Some fs" for everything one
    using page_loop_eq [of "tsize t'" "tstart t'" 0] by (auto simp: fence_range_def flush_everything_def)
  then show ?thesis
    by (simp add: tlb_entry_local_process_def sbi_tlb_local_fence_i_def sbi_tlb_local_sfence_vma_def
        sbi_tlb_local_sfence_vma_asid_def sbi_tlb_local_hfence_gvma_vmid_def sbi_tlb_local_hfence_gvma_def
        sbi_tlb_local_hfence_vvma_asid_def sbi_tlb_local_hfence_vvma_def)
qed

theorem tlb_request_terminates_witness:
  "\<exists>fs. tlb_entry_local_process (sfence 0x2000 0x3000) = Some fs"
  by (rule tlb_request_terminates [of "4096 * 64" "sfence 0x2000 0x3000"])
    (simp_all add: sbi_tlb_request_info_def sfence_def)

text \<open>A pending full flush in the \<open>(0, 0)\<close> encoding can be lost: a later request for a single page
  at address 0 replaces it in the queue, and the target then fences that page only.\<close>

theorem tlb_flush_all_lost:
  "\<exists>s'. tlb_update 0 1 (sfence 0 0x1000) (ex_tlb [sfence 0 0]) = Some (SBI_IPI_UPDATE_SUCCESS, s') \<and>
    map tlb_entry_local_process [sfence 0 0] = [Some [Sfence_all]] \<and>
    map tlb_entry_local_process (tlb_fifo s' 1) = [Some [Sfence_va 0]]"
  by (simp add: tlb_update_def ex_tlb_def ex_hartids tlb_update_cb_def sfence_def tlb_range_check_def Let_def
      tlb_entry_local_process_def sbi_tlb_local_sfence_vma_def fence_range_def flush_everything_def
      SBI_TLB_FLUSH_ALL_def page_loop.simps PAGE_SIZE_def)

text \<open>Merging compares addresses, but the fences are issued from the start of the merged request on: when that is not at a page
  boundary, a page that the dropped request named is not fenced.\<close>

theorem tlb_unaligned_lost:
  "\<exists>s'. tlb_update 0 1 (sfence 0x2000 0x400) (ex_tlb [sfence 0x1800 0x1000]) = Some (SBI_IPI_UPDATE_SUCCESS, s') \<and>
    tlb_entry_local_process (sfence 0x2000 0x400) = Some [Sfence_va 0x2000] \<and>
    map tlb_entry_local_process (tlb_fifo s' 1) = [Some [Sfence_va 0x1800]]"
  by (simp add: tlb_update_def ex_tlb_def ex_hartids tlb_update_cb_def sfence_def tlb_range_check_def Let_def
      tlb_entry_local_process_def sbi_tlb_local_sfence_vma_def fence_range_def flush_everything_def
      SBI_TLB_FLUSH_ALL_def page_loop.simps PAGE_SIZE_def)

end
