(* ===== verification/Sbi_Sse.thy ===== *)
theory Sbi_Sse
  imports Sbi_Ipi Sbi_List Sbi_Fifo
begin

unbundle bit_operations_syntax

text \<open>
  Supervisor software events, \<open>lib/sbi/sbi_sse.c\<close>: the events with their attributes, the per-hart lists of enabled events,
  registration, enabling, injection into the interrupted context, completion, and the attribute access of S-mode.

  An event is named by a reference: \<open>Global i\<close> is \<open>global_events[i].event\<close>, \<open>Local h i\<close> is \<open>local_events[i]\<close> of hart \<open>h\<close>.
  The lists are rings of pointers in a store as in \<open>Sbi_List\<close>; \<open>node_of\<close> gives the address of an event's \<open>node\<close>, \<open>head_of\<close>
  that of a hart's list head and \<open>ref_at\<close> is \<open>container_of\<close>. The state lives in the client part of the IPI layer, because
  enabling and injecting send the inject IPI. An operation holds the locks of its event and list for its whole body and is one
  step. A call of an event's callback is recorded in \<open>cb_log\<close>.
\<close>

subsection \<open>Constants\<close>

definition SBI_SSE_STATE_UNUSED :: ulong where [simp, sbi_defs]: "SBI_SSE_STATE_UNUSED = 0"
definition SBI_SSE_STATE_REGISTERED :: ulong where [simp, sbi_defs]: "SBI_SSE_STATE_REGISTERED = 1"
definition SBI_SSE_STATE_ENABLED :: ulong where [simp, sbi_defs]: "SBI_SSE_STATE_ENABLED = 2"
definition SBI_SSE_STATE_RUNNING :: ulong where [simp, sbi_defs]: "SBI_SSE_STATE_RUNNING = 3"

definition SBI_SSE_ATTR_STATUS :: u32 where [simp, sbi_defs]: "SBI_SSE_ATTR_STATUS = 0"
definition SBI_SSE_ATTR_PRIO :: u32 where [simp, sbi_defs]: "SBI_SSE_ATTR_PRIO = 1"
definition SBI_SSE_ATTR_CONFIG :: u32 where [simp, sbi_defs]: "SBI_SSE_ATTR_CONFIG = 2"
definition SBI_SSE_ATTR_PREFERRED_HART :: u32 where [simp, sbi_defs]: "SBI_SSE_ATTR_PREFERRED_HART = 3"
definition SBI_SSE_ATTR_ENTRY_PC :: u32 where [simp, sbi_defs]: "SBI_SSE_ATTR_ENTRY_PC = 4"
definition SBI_SSE_ATTR_ENTRY_ARG :: u32 where [simp, sbi_defs]: "SBI_SSE_ATTR_ENTRY_ARG = 5"
definition SBI_SSE_ATTR_INTERRUPTED_SEPC :: u32 where [simp, sbi_defs]: "SBI_SSE_ATTR_INTERRUPTED_SEPC = 6"
definition SBI_SSE_ATTR_INTERRUPTED_FLAGS :: u32 where [simp, sbi_defs]: "SBI_SSE_ATTR_INTERRUPTED_FLAGS = 7"
definition SBI_SSE_ATTR_INTERRUPTED_A6 :: u32 where [simp, sbi_defs]: "SBI_SSE_ATTR_INTERRUPTED_A6 = 8"
definition SBI_SSE_ATTR_INTERRUPTED_A7 :: u32 where [simp, sbi_defs]: "SBI_SSE_ATTR_INTERRUPTED_A7 = 9"
definition SBI_SSE_ATTR_MAX :: nat where [simp, sbi_defs]: "SBI_SSE_ATTR_MAX = 10"

definition SBI_SSE_ATTR_STATUS_STATE_MASK :: ulong where [simp, sbi_defs]: "SBI_SSE_ATTR_STATUS_STATE_MASK = 3"
definition SBI_SSE_ATTR_STATUS_PENDING_OFFSET :: nat where [simp, sbi_defs]: "SBI_SSE_ATTR_STATUS_PENDING_OFFSET = 2"
definition SBI_SSE_ATTR_STATUS_INJECT_OFFSET :: nat where [simp, sbi_defs]: "SBI_SSE_ATTR_STATUS_INJECT_OFFSET = 3"
definition SBI_SSE_ATTR_CONFIG_ONESHOT :: ulong where [simp, sbi_defs]: "SBI_SSE_ATTR_CONFIG_ONESHOT = 1"

definition FLAGS_STATUS_SPP :: ulong where "FLAGS_STATUS_SPP = BIT 0"
definition FLAGS_STATUS_SPIE :: ulong where "FLAGS_STATUS_SPIE = BIT 1"
definition FLAGS_HSTATUS_SPV :: ulong where "FLAGS_HSTATUS_SPV = BIT 2"
definition FLAGS_HSTATUS_SPVP :: ulong where "FLAGS_HSTATUS_SPVP = BIT 3"

definition SBI_SSE_EVENT_LOCAL_RAS :: u32 where [simp, sbi_defs]: "SBI_SSE_EVENT_LOCAL_RAS = 0"
definition SBI_SSE_EVENT_LOCAL_DOUBLE_TRAP :: u32 where [simp, sbi_defs]: "SBI_SSE_EVENT_LOCAL_DOUBLE_TRAP = 1"
definition SBI_SSE_EVENT_GLOBAL_RAS :: u32 where [simp, sbi_defs]: "SBI_SSE_EVENT_GLOBAL_RAS = 0x8000"
definition SBI_SSE_EVENT_LOCAL_PMU :: u32 where [simp, sbi_defs]: "SBI_SSE_EVENT_LOCAL_PMU = 0x10000"
definition SBI_SSE_EVENT_LOCAL_SOFTWARE :: u32 where [simp, sbi_defs]: "SBI_SSE_EVENT_LOCAL_SOFTWARE = 0xffff0000"
definition SBI_SSE_EVENT_GLOBAL_SOFTWARE :: u32 where [simp, sbi_defs]: "SBI_SSE_EVENT_GLOBAL_SOFTWARE = 0xffff8000"
definition SBI_SSE_EVENT_GLOBAL_BIT :: u32 where [simp, sbi_defs]: "SBI_SSE_EVENT_GLOBAL_BIT = 0x8000"

definition MSTATUS_SIE :: ulong where "MSTATUS_SIE = BIT 1"
definition MSTATUS_SPIE :: ulong where "MSTATUS_SPIE = BIT 5"
definition MSTATUS_SPP :: ulong where "MSTATUS_SPP = BIT 8"
definition MSTATUS_MPP :: ulong where "MSTATUS_MPP = push_bit 11 3"
definition MSTATUS_MPV :: ulong where "MSTATUS_MPV = BIT 39"
definition HSTATUS_SPV :: ulong where "HSTATUS_SPV = BIT 7"
definition HSTATUS_SPVP :: ulong where "HSTATUS_SPVP = BIT 8"

subsection \<open>State\<close>

text \<open>The attributes, in the order of \<open>struct sbi_sse_event_attrs\<close>.\<close>

record sbi_sse_event_attrs =
  at_status :: ulong
  at_prio :: ulong
  at_config :: ulong
  at_hartid :: ulong
  entry_pc :: ulong
  entry_arg :: ulong
  i_sepc :: ulong
  i_flags :: ulong
  i_a6 :: ulong
  i_a7 :: ulong

record sbi_sse_event = sbi_sse_event_attrs +
  event_id :: u32
  hartindex :: u32

datatype event_ref = Global nat | Local nat nat

datatype sse_cb = Set_hartid ulong | Complete_cb | Register_cb | Unregister_cb | Enable_cb | Disable_cb

text \<open>The saved registers of a trap that the SSE code uses, and the CSRs it accesses.\<close>

record sbi_trap_regs =
  mepc :: ulong
  mstatus :: ulong
  a6 :: ulong
  a7 :: ulong

record s_csrs =
  c_sepc :: ulong
  c_hstatus :: ulong

record sse_state =
  supported_events :: "u32 list"
  global_event_count :: nat
  local_event_count :: nat
  events :: "event_ref \<Rightarrow> sbi_sse_event"
  dl :: sbi_dlist_store
  node_of :: "event_ref \<Rightarrow> ulong"
  head_of :: "nat \<Rightarrow> ulong"
  ref_at :: "ulong \<Rightarrow> event_ref"
  shs_ptr :: "nat \<Rightarrow> bool"
  masked :: "nat \<Rightarrow> bool"
  inject_fifo :: "nat \<Rightarrow> sbi_fifo"
  sse_ipi_inject_event :: nat
  shs_ptr_off :: ulong
  sse_inject_fifo_off :: ulong
  sse_inject_fifo_mem_off :: ulong
  csrs :: "nat \<Rightarrow> s_csrs"
  misa_H :: bool
  cb_log :: "(sse_cb \<times> u32) list"

type_synonym sse_globals = "(sse_state, unit) ipi_globals"

definition upd_ev :: "event_ref \<Rightarrow> (sbi_sse_event \<Rightarrow> sbi_sse_event) \<Rightarrow> sse_state \<Rightarrow> sse_state" where
  "upd_ev r f s = s\<lparr>events := (events s)(r := f (events s r))\<rparr>"

definition sse_event_invoke_cb :: "event_ref \<Rightarrow> sse_cb \<Rightarrow> sse_state \<Rightarrow> sse_state" where
  "sse_event_invoke_cb r c s = s\<lparr>cb_log := cb_log s @ [(c, event_id (events s r))]\<rparr>"

definition upd_client :: "(sse_state \<Rightarrow> sse_state) \<Rightarrow> sse_globals \<Rightarrow> sse_globals" where
  "upd_client f g = g\<lparr>client := f (client g)\<rparr>"

definition current_hartid :: "scratch_globals \<Rightarrow> nat \<Rightarrow> u32" where
  "current_hartid t self = sbi_hartindex_to_hartid t (of_nat self)"

subsection \<open>Events\<close>

definition EVENT_IS_GLOBAL :: "u32 \<Rightarrow> bool" where
  "EVENT_IS_GLOBAL i \<longleftrightarrow> i AND SBI_SSE_EVENT_GLOBAL_BIT \<noteq> 0"

definition standard_events :: "u32 list" where
  "standard_events = [SBI_SSE_EVENT_LOCAL_RAS, SBI_SSE_EVENT_LOCAL_DOUBLE_TRAP, SBI_SSE_EVENT_GLOBAL_RAS,
    SBI_SSE_EVENT_LOCAL_PMU, SBI_SSE_EVENT_LOCAL_SOFTWARE, SBI_SSE_EVENT_GLOBAL_SOFTWARE]"

definition sse_is_standard_event :: "u32 \<Rightarrow> bool" where
  "sse_is_standard_event i \<longleftrightarrow> i \<in> set standard_events"

definition sse_event_state :: "sbi_sse_event \<Rightarrow> ulong" where
  "sse_event_state e = at_status e AND SBI_SSE_ATTR_STATUS_STATE_MASK"

definition sse_event_pending :: "sbi_sse_event \<Rightarrow> bool" where
  "sse_event_pending e \<longleftrightarrow> at_status e AND BIT SBI_SSE_ATTR_STATUS_PENDING_OFFSET \<noteq> 0"

definition sse_event_is_global :: "sbi_sse_event \<Rightarrow> bool" where
  "sse_event_is_global e = EVENT_IS_GLOBAL (event_id e)"

definition sse_event_set_state :: "ulong \<Rightarrow> sbi_sse_event \<Rightarrow> sbi_sse_event" where
  "sse_event_set_state st e = e\<lparr>at_status := (at_status e AND NOT SBI_SSE_ATTR_STATUS_STATE_MASK) OR st\<rparr>"

definition sse_event_get :: "nat \<Rightarrow> u32 \<Rightarrow> sse_state \<Rightarrow> int \<times> event_ref option" where
  "sse_event_get self i s =
    (case List.find (\<lambda>r. event_id (events s r) = i)
        (if EVENT_IS_GLOBAL i then map Global [0..<global_event_count s] else map (Local self) [0..<local_event_count s]) of
      Some r \<Rightarrow> (SBI_OK, Some r)
    | None \<Rightarrow> (if sse_is_standard_event i then SBI_ENOTSUPP else SBI_EINVAL, None))"

subsection \<open>The list of enabled events\<close>

text \<open>The walk of \<open>sse_event_add_to_list\<close>: the node before which the event goes, the list head at the end.\<close>

partial_function (option) add_position :: "sse_state \<Rightarrow> sbi_sse_event \<Rightarrow> ulong \<Rightarrow> ulong \<Rightarrow> ulong option" where
  "add_position s e head cur =
    (if cur = head then Some head
     else
       let tmp = events s (ref_at s cur)
       in if at_prio e < at_prio tmp then Some cur
          else if at_prio e = at_prio tmp \<and> event_id e < event_id tmp then Some cur
          else add_position s e head (nxt (dl s) cur))"

definition sse_event_add_to_list :: "event_ref \<Rightarrow> sse_state \<Rightarrow> sse_state option" where
  "sse_event_add_to_list r s =
    (let e = events s r; head = head_of s (unat (hartindex e))
     in map_option (\<lambda>p. s\<lparr>dl := sbi_list_add_tail (node_of s r) p (dl s)\<rparr>) (add_position s e head (nxt (dl s) head)))"

definition sse_event_remove_from_list :: "event_ref \<Rightarrow> sse_state \<Rightarrow> sse_state" where
  "sse_event_remove_from_list r s = s\<lparr>dl := sbi_list_del (node_of s r) (dl s)\<rparr>"

definition sse_event_disable :: "event_ref \<Rightarrow> sse_state \<Rightarrow> int \<times> sse_state" where
  "sse_event_disable r s =
    (if sse_event_state (events s r) \<noteq> SBI_SSE_STATE_ENABLED then (SBI_EINVALID_STATE, s)
     else
       let s = sse_event_invoke_cb r Disable_cb s;
           s = sse_event_remove_from_list r s;
           s = upd_ev r (sse_event_set_state SBI_SSE_STATE_REGISTERED) s
       in (SBI_OK, s))"

subsection \<open>Attributes\<close>

definition sse_event_set_hart_id_check :: "nat \<Rightarrow> sbi_sse_event \<Rightarrow> ulong \<Rightarrow> hsm_globals \<Rightarrow> int" where
  "sse_event_set_hart_id_check self e new_hartid h =
    (let hartid = (ucast new_hartid :: u32); hd = sbi_hartindex_to_domain (hsm_doms h) self
     in if \<not> sse_event_is_global e then SBI_EBAD_RANGE
        else if \<not> sbi_domain_is_assigned_hart (hsm_doms h) hd
                  (unat (sbi_hartid_to_hartindex (scratch_tab (hsm_doms h)) hartid)) then SBI_EINVAL
        else if sbi_hsm_hart_get_state h hd hartid \<noteq> SBI_HSM_STATE_STARTED then SBI_EINVAL
        else SBI_OK)"

definition running_here_check :: "nat \<Rightarrow> sbi_sse_event \<Rightarrow> hsm_globals \<Rightarrow> int" where
  "running_here_check self e h =
    (if sse_event_state e \<noteq> SBI_SSE_STATE_RUNNING then SBI_EINVALID_STATE
     else if ucast (current_hartid (scratch_tab (hsm_doms h)) self) \<noteq> at_hartid e then SBI_EINVAL
     else SBI_OK)"

definition sse_event_set_attr_check :: "nat \<Rightarrow> sbi_sse_event \<Rightarrow> u32 \<Rightarrow> ulong \<Rightarrow> hsm_globals \<Rightarrow> int" where
  "sse_event_set_attr_check self e attr val h =
    (if attr = SBI_SSE_ATTR_CONFIG then
       if SBI_SSE_STATE_ENABLED \<le> sse_event_state e then SBI_EINVALID_STATE
       else if val AND NOT SBI_SSE_ATTR_CONFIG_ONESHOT \<noteq> 0 then SBI_EINVAL
       else SBI_OK
     else if attr = SBI_SSE_ATTR_PRIO then
       if SBI_SSE_STATE_ENABLED \<le> sse_event_state e then SBI_EINVALID_STATE
       else if val \<noteq> ucast (ucast val :: u32) then SBI_EINVAL
       else SBI_OK
     else if attr = SBI_SSE_ATTR_PREFERRED_HART then
       if SBI_SSE_STATE_ENABLED \<le> sse_event_state e then SBI_EINVALID_STATE
       else sse_event_set_hart_id_check self e val h
     else if attr = SBI_SSE_ATTR_INTERRUPTED_FLAGS then
       if val AND NOT (FLAGS_STATUS_SPP OR FLAGS_STATUS_SPIE OR FLAGS_HSTATUS_SPV OR FLAGS_HSTATUS_SPVP) \<noteq> 0
       then SBI_EINVAL
       else running_here_check self e h
     else if attr = SBI_SSE_ATTR_INTERRUPTED_SEPC \<or> attr = SBI_SSE_ATTR_INTERRUPTED_A6 \<or>
             attr = SBI_SSE_ATTR_INTERRUPTED_A7 then running_here_check self e h
     else SBI_EBAD_RANGE)"

definition sse_event_set_attr :: "event_ref \<Rightarrow> u32 \<Rightarrow> ulong \<Rightarrow> scratch_globals \<Rightarrow> sse_state \<Rightarrow> sse_state" where
  "sse_event_set_attr r attr val t s =
    (if attr = SBI_SSE_ATTR_CONFIG then upd_ev r (\<lambda>e. e\<lparr>at_config := val\<rparr>) s
     else if attr = SBI_SSE_ATTR_PRIO then upd_ev r (\<lambda>e. e\<lparr>at_prio := ucast (ucast val :: u32)\<rparr>) s
     else if attr = SBI_SSE_ATTR_PREFERRED_HART then
       sse_event_invoke_cb r (Set_hartid val)
         (upd_ev r (\<lambda>e. e\<lparr>at_hartid := val, hartindex := sbi_hartid_to_hartindex t (ucast val)\<rparr>) s)
     else if attr = SBI_SSE_ATTR_INTERRUPTED_SEPC then upd_ev r (\<lambda>e. e\<lparr>i_sepc := val\<rparr>) s
     else if attr = SBI_SSE_ATTR_INTERRUPTED_FLAGS then upd_ev r (\<lambda>e. e\<lparr>i_flags := val\<rparr>) s
     else if attr = SBI_SSE_ATTR_INTERRUPTED_A6 then upd_ev r (\<lambda>e. e\<lparr>i_a6 := val\<rparr>) s
     else if attr = SBI_SSE_ATTR_INTERRUPTED_A7 then upd_ev r (\<lambda>e. e\<lparr>i_a7 := val\<rparr>) s
     else s)"

subsection \<open>Registration\<close>

definition sse_event_register :: "event_ref \<Rightarrow> ulong \<Rightarrow> ulong \<Rightarrow> sse_state \<Rightarrow> int \<times> sse_state" where
  "sse_event_register r pc arg s =
    (if sse_event_state (events s r) \<noteq> SBI_SSE_STATE_UNUSED then (SBI_EINVALID_STATE, s)
     else
       let s = upd_ev r (\<lambda>e. e\<lparr>entry_pc := pc, entry_arg := arg\<rparr>) s;
           s = upd_ev r (sse_event_set_state SBI_SSE_STATE_REGISTERED) s;
           s = sse_event_invoke_cb r Register_cb s
       in (0, s))"

definition sse_event_unregister :: "event_ref \<Rightarrow> sse_state \<Rightarrow> int \<times> sse_state" where
  "sse_event_unregister r s =
    (if sse_event_state (events s r) \<noteq> SBI_SSE_STATE_REGISTERED then (SBI_EINVALID_STATE, s)
     else
       let s = sse_event_invoke_cb r Unregister_cb s;
           s = upd_ev r (sse_event_set_state SBI_SSE_STATE_UNUSED) s
       in (0, s))"

subsection \<open>Injection and resumption\<close>

definition sse_interrupted_flags :: "bool \<Rightarrow> ulong \<Rightarrow> ulong \<Rightarrow> ulong" where
  "sse_interrupted_flags has_h mst hst =
    (let flags = 0;
         flags = (if mst AND MSTATUS_SPIE \<noteq> 0 then flags OR FLAGS_STATUS_SPIE else flags);
         flags = (if mst AND MSTATUS_SPP \<noteq> 0 then flags OR FLAGS_STATUS_SPP else flags)
     in if has_h then
          let flags = (if hst AND HSTATUS_SPV \<noteq> 0 then flags OR FLAGS_HSTATUS_SPV else flags)
          in (if hst AND HSTATUS_SPVP \<noteq> 0 then flags OR FLAGS_HSTATUS_SPVP else flags)
        else flags)"

definition inject_mstatus :: "ulong \<Rightarrow> ulong" where
  "inject_mstatus m =
    (let m = m AND NOT (MSTATUS_SPP OR MSTATUS_SPIE);
         m = (if m AND MSTATUS_MPP \<noteq> 0 then m OR MSTATUS_SPP else m)
     in (if m AND MSTATUS_SIE \<noteq> 0 then m OR MSTATUS_SPIE else m))"

definition inject_hstatus :: "ulong \<Rightarrow> ulong \<Rightarrow> ulong" where
  "inject_hstatus m h =
    (let h = (if m AND MSTATUS_MPV \<noteq> 0 then h OR HSTATUS_SPV else h);
         h = h AND NOT HSTATUS_SPVP
     in (if h AND HSTATUS_SPV \<noteq> 0 \<and> m AND MSTATUS_SPP \<noteq> 0 then h OR HSTATUS_SPVP else h))"

definition entry_mstatus :: "ulong \<Rightarrow> ulong" where
  "entry_mstatus m =
    (let m = m AND NOT (MSTATUS_MPP OR MSTATUS_SIE);
         m = m OR push_bit 11 PRV_S
     in m AND NOT MSTATUS_MPV)"

definition sse_event_inject :: "nat \<Rightarrow> u32 \<Rightarrow> event_ref \<Rightarrow> sbi_trap_regs \<Rightarrow> sse_state \<Rightarrow> sbi_trap_regs \<times> sse_state" where
  "sse_event_inject self hid r regs s =
    (let s = upd_ev r (sse_event_set_state SBI_SSE_STATE_RUNNING) s;
         s = upd_ev r (\<lambda>e. e\<lparr>at_status := NOT (BIT SBI_SSE_ATTR_STATUS_PENDING_OFFSET)\<rparr>) s;
         c = csrs s self;
         s = upd_ev r (\<lambda>e. e\<lparr>i_a6 := a6 regs, i_a7 := a7 regs,
               i_flags := sse_interrupted_flags (misa_H s) (mstatus regs) (c_hstatus c), i_sepc := c_sepc c\<rparr>) s;
         regs = regs\<lparr>mstatus := inject_mstatus (mstatus regs)\<rparr>;
         c = (if misa_H s then c\<lparr>c_hstatus := inject_hstatus (mstatus regs) (c_hstatus c)\<rparr> else c);
         c = c\<lparr>c_sepc := mepc regs\<rparr>;
         regs = regs\<lparr>a6 := ucast hid, a7 := entry_arg (events s r), mepc := entry_pc (events s r),
                     mstatus := entry_mstatus (mstatus regs)\<rparr>
     in (regs, s\<lparr>csrs := (csrs s)(self := c)\<rparr>))"

definition resume_mpp :: "ulong \<Rightarrow> ulong" where
  "resume_mpp m =
    (let m = m AND NOT MSTATUS_MPP
     in (if m AND MSTATUS_SPP \<noteq> 0 then m OR push_bit 11 PRV_S else m))"

definition resume_mpv :: "ulong \<Rightarrow> ulong \<Rightarrow> ulong" where
  "resume_mpv hst m =
    (let m = m AND NOT MSTATUS_MPV
     in (if hst AND HSTATUS_SPV \<noteq> 0 then m OR MSTATUS_MPV else m))"

definition resume_hstatus :: "ulong \<Rightarrow> ulong \<Rightarrow> ulong" where
  "resume_hstatus flgs h =
    (let h = h AND NOT (HSTATUS_SPV OR HSTATUS_SPVP);
         h = (if flgs AND FLAGS_HSTATUS_SPV \<noteq> 0 then h OR HSTATUS_SPV else h)
     in (if flgs AND FLAGS_HSTATUS_SPVP \<noteq> 0 then h OR HSTATUS_SPVP else h))"

definition resume_sstatus :: "ulong \<Rightarrow> ulong \<Rightarrow> ulong" where
  "resume_sstatus flgs m =
    (let m = m AND NOT MSTATUS_SIE;
         m = (if m AND MSTATUS_SPIE \<noteq> 0 then m OR MSTATUS_SIE else m);
         m = m AND NOT MSTATUS_SPIE;
         m = (if flgs AND FLAGS_STATUS_SPIE \<noteq> 0 then m OR MSTATUS_SPIE else m);
         m = m AND NOT MSTATUS_SPP
     in (if flgs AND FLAGS_STATUS_SPP \<noteq> 0 then m OR MSTATUS_SPP else m))"

definition sse_event_resume :: "nat \<Rightarrow> event_ref \<Rightarrow> sbi_trap_regs \<Rightarrow> sse_state \<Rightarrow> sbi_trap_regs \<times> sse_state" where
  "sse_event_resume self r regs s =
    (let e = events s r; c = csrs s self; hst = c_hstatus c;
         regs = regs\<lparr>mepc := c_sepc c, mstatus := resume_mpp (mstatus regs)\<rparr>;
         regs = (if misa_H s then regs\<lparr>mstatus := resume_mpv hst (mstatus regs)\<rparr> else regs);
         c = (if misa_H s then c\<lparr>c_hstatus := resume_hstatus (i_flags e) hst\<rparr> else c);
         regs = regs\<lparr>mstatus := resume_sstatus (i_flags e) (mstatus regs), a7 := i_a7 e, a6 := i_a6 e\<rparr>;
         c = c\<lparr>c_sepc := i_sepc e\<rparr>
     in (regs, s\<lparr>csrs := (csrs s)(self := c)\<rparr>))"

definition sse_event_is_ready :: "u32 \<Rightarrow> sbi_sse_event \<Rightarrow> bool" where
  "sse_event_is_ready hid e \<longleftrightarrow>
    \<not> (\<not> sse_event_pending e \<or> sse_event_state e \<noteq> SBI_SSE_STATE_ENABLED \<or> at_hartid e \<noteq> ucast hid)"

definition sse_event_check_inject ::
  "nat \<Rightarrow> u32 \<Rightarrow> event_ref \<Rightarrow> sbi_trap_regs \<Rightarrow> sse_state \<Rightarrow> bool \<times> sbi_trap_regs \<times> sse_state" where
  "sse_event_check_inject self hid r regs s =
    (if sse_event_state (events s r) = SBI_SSE_STATE_RUNNING then (True, regs, s)
     else if sse_event_is_ready hid (events s r) then (True, sse_event_inject self hid r regs s)
     else (False, regs, s))"

partial_function (option) process_walk ::
  "nat \<Rightarrow> u32 \<Rightarrow> sbi_trap_regs \<Rightarrow> sse_state \<Rightarrow> ulong \<Rightarrow> (sbi_trap_regs \<times> sse_state) option" where
  "process_walk self hid regs s cur =
    (if cur = head_of s self then Some (regs, s)
     else (case sse_event_check_inject self hid (ref_at s cur) regs s of (ret, regs', s') \<Rightarrow>
       if ret then Some (regs', s') else process_walk self hid regs' s' (nxt (dl s') cur)))"

definition sbi_sse_process_pending_events ::
  "nat \<Rightarrow> u32 \<Rightarrow> sbi_trap_regs \<Rightarrow> sse_state \<Rightarrow> (sbi_trap_regs \<times> sse_state) option" where
  "sbi_sse_process_pending_events self hid regs s =
    (if masked s self then Some (regs, s) else process_walk self hid regs s (nxt (dl s) (head_of s self)))"

subsection \<open>Pending events\<close>

definition sse_event_set_pending :: "event_ref \<Rightarrow> sse_state \<Rightarrow> int \<times> sse_state" where
  "sse_event_set_pending r s =
    (if sse_event_state (events s r) \<noteq> SBI_SSE_STATE_RUNNING \<and> sse_event_state (events s r) \<noteq> SBI_SSE_STATE_ENABLED
     then (SBI_EINVALID_STATE, s)
     else (SBI_OK, upd_ev r (\<lambda>e. e\<lparr>at_status := at_status e OR BIT SBI_SSE_ATTR_STATUS_PENDING_OFFSET\<rparr>) s))"

text \<open>A queued event id is four bytes, least significant first.\<close>

definition id_bytes :: "u32 \<Rightarrow> u8 list" where
  "id_bytes w = [ucast w, ucast (drop_bit 8 w), ucast (drop_bit 16 w), ucast (drop_bit 24 w)]"

definition bytes_id :: "u8 list \<Rightarrow> u32" where
  "bytes_id b = ucast (b ! 0) OR push_bit 8 (ucast (b ! 1)) OR push_bit 16 (ucast (b ! 2)) OR push_bit 24 (ucast (b ! 3))"

text \<open>The loop of \<open>sse_ipi_inject_process\<close>; every turn takes an entry, so the number of entries bounds it.\<close>

fun inject_drain :: "nat \<Rightarrow> nat \<Rightarrow> sse_state \<Rightarrow> sse_state" where
  "inject_drain 0 self s = s"
| "inject_drain (Suc n) self s =
    (case sbi_fifo_dequeue (Some (inject_fifo s self)) True of
      (rc, Some d, Some f) \<Rightarrow>
        (let s = s\<lparr>inject_fifo := (inject_fifo s)(self := f)\<rparr>
         in if rc \<noteq> 0 then s
            else (case sse_event_get self (bytes_id d) s of
                (_, None) \<Rightarrow> inject_drain n self s
              | (_, Some r) \<Rightarrow> inject_drain n self (snd (sse_event_set_pending r s))))
    | _ \<Rightarrow> s)"

definition sse_ipi_inject_process :: "nat \<Rightarrow> sse_state \<Rightarrow> sse_state" where
  "sse_ipi_inject_process self s = inject_drain (unat (avail (inject_fifo s self))) self s"

definition sse_ipi_inject_ops :: "(sse_state, unit) sbi_ipi_event_ops" where
  "sse_ipi_inject_ops = \<lparr>ev_update = None, ev_sync = None, ev_process = Some sse_ipi_inject_process\<rparr>"

definition sse_ipi_inject_send :: "nat \<Rightarrow> ulong \<Rightarrow> u32 \<Rightarrow> sse_globals \<Rightarrow> (int \<times> sse_globals) option" where
  "sse_ipi_inject_send self hartid i g =
    (if sbi_hartid_to_scratch (ipi_tab g) (ucast hartid) = 0 then Some (SBI_EINVAL, g)
     else
       let h = unat (sbi_hartid_to_hartindex (ipi_tab g) (ucast hartid))
       in case sbi_fifo_enqueue (Some (inject_fifo (client g) h)) (Some (id_bytes i)) False of (ret, f) \<Rightarrow>
         if ret \<noteq> 0 then Some (SBI_EFAIL, g)
         else
           let g = upd_client (\<lambda>s. s\<lparr>inject_fifo := (inject_fifo s)(h := the f)\<rparr>) g
           in map_option (\<lambda>(ret, g). (if ret \<noteq> 0 then SBI_EFAIL else SBI_OK, g))
                (sbi_ipi_send_many self 1 hartid (sse_ipi_inject_event (client g)) () g))"

definition sse_inject_event :: "nat \<Rightarrow> u32 \<Rightarrow> ulong \<Rightarrow> sse_globals \<Rightarrow> (int \<times> sse_globals) option" where
  "sse_inject_event self i hartid g =
    (case sse_event_get self i (client g) of
      (ret, None) \<Rightarrow> Some (ret, g)
    | (_, Some r) \<Rightarrow>
        let e = events (client g) r;
            hartid = (if sse_event_is_global e then at_hartid e else hartid)
        in if hartid \<noteq> ucast (current_hartid (ipi_tab g) self) then sse_ipi_inject_send self hartid i g
           else (case sse_event_set_pending r (client g) of (ret, s) \<Rightarrow> Some (ret, g\<lparr>client := s\<rparr>)))"

definition sse_event_enable :: "nat \<Rightarrow> event_ref \<Rightarrow> sse_globals \<Rightarrow> (int \<times> sse_globals) option" where
  "sse_event_enable self r g =
    (if sse_event_state (events (client g) r) \<noteq> SBI_SSE_STATE_REGISTERED then Some (SBI_EINVALID_STATE, g)
     else (case sse_event_add_to_list r (upd_ev r (sse_event_set_state SBI_SSE_STATE_ENABLED) (client g)) of
         None \<Rightarrow> None
       | Some s \<Rightarrow>
           let g = g\<lparr>client := sse_event_invoke_cb r Enable_cb s\<rparr>; e = events (client g) r
           in if sse_event_is_global e \<and> sse_event_pending e
              then map_option (\<lambda>(_, g). (SBI_OK, g))
                     (sbi_ipi_send_many self 1 (at_hartid e) (sse_ipi_inject_event (client g)) () g)
              else Some (SBI_OK, g)))"

text \<open>\<open>skip\<close> is \<open>out->skip_regs_update\<close>.\<close>

definition sse_event_complete ::
  "nat \<Rightarrow> u32 \<Rightarrow> event_ref \<Rightarrow> sbi_trap_regs \<Rightarrow> sse_state \<Rightarrow> int \<times> bool \<times> sbi_trap_regs \<times> sse_state" where
  "sse_event_complete self hid r regs s =
    (if sse_event_state (events s r) \<noteq> SBI_SSE_STATE_RUNNING then (SBI_EINVALID_STATE, False, regs, s)
     else if at_hartid (events s r) \<noteq> ucast hid then (SBI_EINVAL, False, regs, s)
     else
       let s = upd_ev r (sse_event_set_state SBI_SSE_STATE_ENABLED) s;
           s = (if at_config (events s r) AND SBI_SSE_ATTR_CONFIG_ONESHOT \<noteq> 0 then snd (sse_event_disable r s) else s);
           s = sse_event_invoke_cb r Complete_cb s
       in case sse_event_resume self r regs s of (regs, s) \<Rightarrow> (SBI_OK, True, regs, s))"

partial_function (option) complete_walk ::
  "nat \<Rightarrow> u32 \<Rightarrow> sbi_trap_regs \<Rightarrow> sse_state \<Rightarrow> ulong \<Rightarrow> (int \<times> bool \<times> sbi_trap_regs \<times> sse_state) option" where
  "complete_walk self hid regs s cur =
    (if cur = head_of s self then Some (SBI_OK, False, regs, s)
     else if sse_event_state (events s (ref_at s cur)) = SBI_SSE_STATE_RUNNING
     then Some (sse_event_complete self hid (ref_at s cur) regs s)
     else complete_walk self hid regs s (nxt (dl s) cur))"

definition sbi_sse_complete ::
  "nat \<Rightarrow> u32 \<Rightarrow> sbi_trap_regs \<Rightarrow> sse_state \<Rightarrow> (int \<times> bool \<times> sbi_trap_regs \<times> sse_state) option" where
  "sbi_sse_complete self hid regs s = complete_walk self hid regs s (nxt (dl s) (head_of s self))"

subsection \<open>The interface\<close>

text \<open>Operations on an event: look it up, run the operation, report its code.\<close>

definition sbi_sse_enable :: "nat \<Rightarrow> u32 \<Rightarrow> sse_globals \<Rightarrow> (int \<times> sse_globals) option" where
  "sbi_sse_enable self i g =
    (case sse_event_get self i (client g) of
      (ret, None) \<Rightarrow> Some (ret, g)
    | (_, Some r) \<Rightarrow> sse_event_enable self r g)"

definition sbi_sse_disable :: "nat \<Rightarrow> u32 \<Rightarrow> sse_state \<Rightarrow> int \<times> sse_state" where
  "sbi_sse_disable self i s =
    (case sse_event_get self i s of (ret, None) \<Rightarrow> (ret, s) | (_, Some r) \<Rightarrow> sse_event_disable r s)"

definition sbi_sse_hart_mask :: "nat \<Rightarrow> sse_state \<Rightarrow> int \<times> sse_state" where
  "sbi_sse_hart_mask self s =
    (if \<not> shs_ptr s self then (SBI_EFAIL, s)
     else if masked s self then (SBI_EALREADY_STOPPED, s)
     else (SBI_OK, s\<lparr>masked := (masked s)(self := True)\<rparr>))"

definition sbi_sse_hart_unmask :: "nat \<Rightarrow> sse_state \<Rightarrow> int \<times> sse_state" where
  "sbi_sse_hart_unmask self s =
    (if \<not> shs_ptr s self then (SBI_EFAIL, s)
     else if \<not> masked s self then (SBI_EALREADY_STARTED, s)
     else (SBI_OK, s\<lparr>masked := (masked s)(self := False)\<rparr>))"

definition sbi_sse_inject_from_ecall :: "nat \<Rightarrow> u32 \<Rightarrow> ulong \<Rightarrow> sse_globals \<Rightarrow> (int \<times> sse_globals) option" where
  "sbi_sse_inject_from_ecall self i hartid g =
    (let doms = hsm_doms (ipi_hsm g)
     in if \<not> sbi_domain_is_assigned_hart doms (sbi_hartindex_to_domain doms self)
               (unat (sbi_hartid_to_hartindex (ipi_tab g) (ucast hartid)))
        then Some (SBI_EINVAL, g)
        else sse_inject_event self i hartid g)"

definition sbi_sse_inject_event :: "nat \<Rightarrow> u32 \<Rightarrow> sse_globals \<Rightarrow> (int \<times> sse_globals) option" where
  "sbi_sse_inject_event self i g = sse_inject_event self i (ucast (current_hartid (ipi_tab g) self)) g"

text \<open>\<open>has_set_hartid\<close>: the callbacks contain \<open>set_hartid_cb\<close>; \<open>zalloc_ok\<close>: the allocation succeeded.\<close>

definition sbi_sse_add_event :: "bool \<Rightarrow> bool \<Rightarrow> u32 \<Rightarrow> sse_state \<Rightarrow> int \<times> sse_state" where
  "sbi_sse_add_event zalloc_ok has_set_hartid i s =
    (if i \<in> set (supported_events s) then (SBI_EINVAL, s)
     else if has_set_hartid \<and> \<not> EVENT_IS_GLOBAL i then (SBI_EINVAL, s)
     else if \<not> zalloc_ok then (SBI_ENOMEM, s)
     else (SBI_OK, s\<lparr>supported_events := i # supported_events s\<rparr>))"

definition sbi_sse_attr_check :: "nat \<Rightarrow> u32 \<Rightarrow> u32 \<Rightarrow> ulong \<Rightarrow> ulong \<Rightarrow> ulong \<Rightarrow> domain_globals \<Rightarrow> int option" where
  "sbi_sse_attr_check self base_id cnt phys_lo phys_hi access_flags doms =
    (let end_id = (ucast base_id :: u64) + ucast (cnt - 1)
     in if cnt = 0 then Some SBI_EINVAL
        else if of_nat SBI_SSE_ATTR_MAX \<le> end_id then Some SBI_EBAD_RANGE
        else if phys_lo AND 7 \<noteq> 0 then Some SBI_EINVALID_ADDR
        else if phys_hi \<noteq> 0 then Some SBI_EINVALID_ADDR
        else (case sbi_domain_check_addr_range (map_option (domains doms) (sbi_hartindex_to_domain doms self))
                 phys_lo (8 * ucast cnt) PRV_S access_flags of
            None \<Rightarrow> None
          | Some ok \<Rightarrow> Some (if ok then SBI_OK else SBI_EINVALID_ADDR)))"

text \<open>S-mode memory as a map from addresses to the words stored there.\<close>

type_synonym smem = "ulong \<Rightarrow> ulong"

definition attrs_list :: "sbi_sse_event \<Rightarrow> ulong list" where
  "attrs_list e = [at_status e, at_prio e, at_config e, at_hartid e, entry_pc e, entry_arg e, i_sepc e, i_flags e, i_a6 e, i_a7 e]"

fun copy_attrs :: "ulong \<Rightarrow> ulong list \<Rightarrow> smem \<Rightarrow> smem" where
  "copy_attrs out [] m = m"
| "copy_attrs out (v # vs) m = copy_attrs (out + 8) vs (m(out := v))"

definition sbi_sse_read_attrs ::
  "nat \<Rightarrow> u32 \<Rightarrow> u32 \<Rightarrow> u32 \<Rightarrow> ulong \<Rightarrow> ulong \<Rightarrow> smem \<Rightarrow> sse_globals \<Rightarrow> (int \<times> smem) option" where
  "sbi_sse_read_attrs self i base_id cnt lo hi m g =
    (case sbi_sse_attr_check self base_id cnt lo hi SBI_DOMAIN_WRITE (hsm_doms (ipi_hsm g)) of
      None \<Rightarrow> None
    | Some ret \<Rightarrow>
        if ret \<noteq> 0 then Some (ret, m)
        else (case sse_event_get self i (client g) of
            (ret, None) \<Rightarrow> Some (ret, m)
          | (_, Some r) \<Rightarrow>
              Some (SBI_OK, copy_attrs lo (take (unat cnt) (drop (unat base_id) (attrs_list (events (client g) r)))) m)))"

text \<open>
  \<open>sse_write_attrs\<close> reads the values twice, for the check and for the update. \<open>m1\<close> and \<open>m2\<close> are the contents of S-mode memory
  in the first and the second pass: another hart may write in between.
\<close>

fun check_attrs :: "nat \<Rightarrow> sbi_sse_event \<Rightarrow> hsm_globals \<Rightarrow> (u32 \<times> ulong) list \<Rightarrow> int" where
  "check_attrs self e h [] = 0"
| "check_attrs self e h ((i, v) # rest) =
    (let ret = sse_event_set_attr_check self e i v h in if ret \<noteq> 0 then ret else check_attrs self e h rest)"

fun set_attrs :: "event_ref \<Rightarrow> scratch_globals \<Rightarrow> (u32 \<times> ulong) list \<Rightarrow> sse_state \<Rightarrow> sse_state" where
  "set_attrs r t [] s = s"
| "set_attrs r t ((i, v) # rest) s = set_attrs r t rest (sse_event_set_attr r i v t s)"

definition attr_pass :: "u32 \<Rightarrow> u32 \<Rightarrow> ulong \<Rightarrow> smem \<Rightarrow> (u32 \<times> ulong) list" where
  "attr_pass base_id cnt phys m =
    map (\<lambda>k. (base_id + of_nat k, m (phys + 8 * of_nat k))) [0..<unat (base_id + cnt) - unat base_id]"

definition sse_write_attrs ::
  "nat \<Rightarrow> event_ref \<Rightarrow> u32 \<Rightarrow> u32 \<Rightarrow> ulong \<Rightarrow> smem \<Rightarrow> smem \<Rightarrow> sse_globals \<Rightarrow> int \<times> sse_globals" where
  "sse_write_attrs self r base_id cnt phys m1 m2 g =
    (let ret = check_attrs self (events (client g) r) (ipi_hsm g) (attr_pass base_id cnt phys m1)
     in if ret \<noteq> 0 then (ret, g)
        else (ret, upd_client (set_attrs r (ipi_tab g) (attr_pass base_id cnt phys m2)) g))"

definition sbi_sse_write_attrs ::
  "nat \<Rightarrow> u32 \<Rightarrow> u32 \<Rightarrow> u32 \<Rightarrow> ulong \<Rightarrow> ulong \<Rightarrow> smem \<Rightarrow> smem \<Rightarrow> sse_globals \<Rightarrow> (int \<times> sse_globals) option" where
  "sbi_sse_write_attrs self i base_id cnt lo hi m1 m2 g =
    (case sbi_sse_attr_check self base_id cnt lo hi SBI_DOMAIN_READ (hsm_doms (ipi_hsm g)) of
      None \<Rightarrow> None
    | Some ret \<Rightarrow>
        if ret \<noteq> 0 then Some (ret, g)
        else (case sse_event_get self i (client g) of
            (ret, None) \<Rightarrow> Some (ret, g)
          | (_, Some r) \<Rightarrow> Some (sse_write_attrs self r base_id cnt lo m1 m2 g)))"

definition sbi_sse_register :: "nat \<Rightarrow> u32 \<Rightarrow> ulong \<Rightarrow> ulong \<Rightarrow> sse_globals \<Rightarrow> (int \<times> sse_globals) option" where
  "sbi_sse_register self i pc arg g =
    (let doms = hsm_doms (ipi_hsm g)
     in if pc AND 1 \<noteq> 0 then Some (SBI_EINVAL, g)
        else (case sbi_domain_check_addr_range (map_option (domains doms) (sbi_hartindex_to_domain doms self))
                 pc 8 PRV_S SBI_DOMAIN_EXECUTE of
            None \<Rightarrow> None
          | Some ok \<Rightarrow>
              if \<not> ok then Some (SBI_EINVALID_ADDR, g)
              else (case sse_event_get self i (client g) of
                  (ret, None) \<Rightarrow> Some (ret, g)
                | (_, Some r) \<Rightarrow> (case sse_event_register r pc arg (client g) of (ret, s) \<Rightarrow> Some (ret, g\<lparr>client := s\<rparr>)))))"

definition sbi_sse_unregister :: "nat \<Rightarrow> u32 \<Rightarrow> sse_state \<Rightarrow> int \<times> sse_state" where
  "sbi_sse_unregister self i s =
    (case sse_event_get self i s of (ret, None) \<Rightarrow> (ret, s) | (_, Some r) \<Rightarrow> sse_event_unregister r s)"

subsection \<open>Initialisation and exit\<close>

definition zero_event :: sbi_sse_event where
  "zero_event = \<lparr>at_status = 0, at_prio = 0, at_config = 0, at_hartid = 0, entry_pc = 0, entry_arg = 0, i_sepc = 0,
    i_flags = 0, i_a6 = 0, i_a7 = 0, event_id = 0, hartindex = 0\<rparr>"

definition sse_event_init :: "nat \<Rightarrow> u32 \<Rightarrow> event_ref \<Rightarrow> u32 \<Rightarrow> sse_state \<Rightarrow> sse_state" where
  "sse_event_init self hid r i s =
    upd_ev r (\<lambda>e. e\<lparr>event_id := i, hartindex := of_nat self, at_hartid := ucast hid,
      at_status := at_status e OR BIT SBI_SSE_ATTR_STATUS_INJECT_OFFSET\<rparr>) s"

definition sse_event_count_init :: "sse_state \<Rightarrow> sse_state" where
  "sse_event_count_init s =
    s\<lparr>global_event_count := global_event_count s + length (filter EVENT_IS_GLOBAL (supported_events s)),
      local_event_count := local_event_count s + length (filter (\<lambda>i. \<not> EVENT_IS_GLOBAL i) (supported_events s))\<rparr>"

fun init_events :: "nat \<Rightarrow> u32 \<Rightarrow> (nat \<Rightarrow> event_ref) \<Rightarrow> nat \<Rightarrow> u32 list \<Rightarrow> sse_state \<Rightarrow> sse_state" where
  "init_events self hid mk n [] s = s"
| "init_events self hid mk n (i # is) s = init_events self hid mk (n + 1) is (sse_event_init self hid (mk n) i s)"

definition sse_global_init :: "bool \<Rightarrow> nat \<Rightarrow> u32 \<Rightarrow> sse_state \<Rightarrow> int \<times> sse_state" where
  "sse_global_init zalloc_ok self hid s =
    (if \<not> zalloc_ok then (SBI_ENOMEM, s)
     else
       let s = s\<lparr>events := (\<lambda>r. case r of Global _ \<Rightarrow> zero_event | Local _ _ \<Rightarrow> events s r)\<rparr>
       in (0, init_events self hid Global 0 (filter EVENT_IS_GLOBAL (supported_events s)) s))"

definition sse_local_init :: "nat \<Rightarrow> u32 \<Rightarrow> sse_state \<Rightarrow> sse_state" where
  "sse_local_init self hid s =
    (let s = s\<lparr>dl := SBI_INIT_LIST_HEAD (head_of s self) (dl s)\<rparr>
     in init_events self hid (Local self) 0 (filter (\<lambda>i. \<not> EVENT_IS_GLOBAL i) (supported_events s)) s)"

definition upd_scratch_tab :: "scratch_globals \<Rightarrow> sse_globals \<Rightarrow> sse_globals" where
  "upd_scratch_tab t g =
    g\<lparr>ipi_hsm := (ipi_hsm g)\<lparr>hsm_doms := (hsm_doms (ipi_hsm g))\<lparr>scratch_tab := t\<rparr>\<rparr>\<rparr>"

definition sizeof_fifo :: ulong where "sizeof_fifo = 24"

definition sse_cold_init :: "bool \<Rightarrow> nat \<Rightarrow> u32 \<Rightarrow> sse_globals \<Rightarrow> int \<times> sse_globals" where
  "sse_cold_init zalloc_ok self hid g =
    (case sse_global_init zalloc_ok self hid (sse_event_count_init (client g)) of (ret, s) \<Rightarrow>
      if ret \<noteq> 0 then (ret, g\<lparr>client := s\<rparr>)
      else (case sbi_scratch_alloc_offset 8 (ipi_tab g) of (o1, t1) \<Rightarrow>
        if o1 = 0 then (SBI_ENOMEM, upd_scratch_tab t1 (g\<lparr>client := s\<rparr>))
        else (case sbi_scratch_alloc_offset sizeof_fifo t1 of (o2, t2) \<Rightarrow>
          if o2 = 0 then (SBI_ENOMEM, upd_scratch_tab t2 (g\<lparr>client := s\<lparr>shs_ptr_off := o1\<rparr>\<rparr>))
          else (case sbi_scratch_alloc_offset (of_nat (global_event_count s + local_event_count s) * 4) t2 of (o3, t3) \<Rightarrow>
            let s = s\<lparr>shs_ptr_off := o1, sse_inject_fifo_off := o2, sse_inject_fifo_mem_off := o3\<rparr>;
                g = upd_scratch_tab t3 (g\<lparr>client := s\<rparr>)
            in if o3 = 0 then (SBI_ENOMEM, g)
               else (case sbi_ipi_event_create (Some sse_ipi_inject_ops) g of (ret, g) \<Rightarrow>
                 if ret < 0 then (ret, g)
                 else (0, upd_client (\<lambda>s. s\<lparr>sse_ipi_inject_event := nat ret\<rparr>) g))))))"

definition sbi_sse_init :: "bool \<Rightarrow> bool \<Rightarrow> u8 list \<Rightarrow> nat \<Rightarrow> u32 \<Rightarrow> bool \<Rightarrow> sse_globals \<Rightarrow> int \<times> sse_globals" where
  "sbi_sse_init zalloc_global zalloc_shs fifo_mem self hid cold_boot g =
    (case (if cold_boot then sse_cold_init zalloc_global self hid g else (0, g)) of (ret, g) \<Rightarrow>
      if ret \<noteq> 0 then (ret, g)
      else if \<not> shs_ptr (client g) self \<and> \<not> zalloc_shs then (SBI_ENOMEM, g)
      else
        let s = client g;
            s = (if shs_ptr s self then s
                 else s\<lparr>events := (\<lambda>r. case r of Local h _ \<Rightarrow> if h = self then zero_event else events s r | Global _ \<Rightarrow> events s r),
                        masked := (masked s)(self := True), shs_ptr := (shs_ptr s)(self := True)\<rparr>);
            s = sse_local_init self hid s;
            f = sbi_fifo_init fifo_mem (of_nat (global_event_count s + local_event_count s)) 4
        in (0, g\<lparr>client := s\<lparr>inject_fifo := (inject_fifo s)(self := f)\<rparr>\<rparr>))"

definition exit_event :: "nat \<Rightarrow> u32 \<Rightarrow> u32 \<Rightarrow> sse_state \<Rightarrow> sse_state" where
  "exit_event self hid i s =
    (case sse_event_get self i s of
      (_, None) \<Rightarrow> s
    | (_, Some r) \<Rightarrow>
        if at_hartid (events s r) \<noteq> ucast hid then s
        else if SBI_SSE_STATE_REGISTERED < sse_event_state (events s r)
        then upd_ev r (sse_event_set_state SBI_SSE_STATE_UNUSED) s
        else s)"

definition sbi_sse_exit :: "nat \<Rightarrow> u32 \<Rightarrow> sse_state \<Rightarrow> sse_state" where
  "sbi_sse_exit self hid s = fold (exit_event self hid) (supported_events s) s"

subsection \<open>The SBI extension\<close>

text \<open>
  \<open>sbi_ecall_sse_handler\<close>: \<open>a k\<close> is the argument register \<open>a0\<close> to \<open>a4\<close>; 32-bit parameters take the low half of the register.
  The result is the code, \<open>skip_regs_update\<close>, the trap registers, S-mode memory and the state. \<open>m1\<close> and \<open>m2\<close> are S-mode memory
  at the two passes of an attribute write.
\<close>

type_synonym sse_result = "int \<times> bool \<times> sbi_trap_regs \<times> smem \<times> sse_globals"

definition sse_ret :: "sbi_trap_regs \<Rightarrow> smem \<Rightarrow> (int \<times> sse_globals) option \<Rightarrow> sse_result option" where
  "sse_ret regs m x = map_option (\<lambda>(ret, g). (ret, False, regs, m, g)) x"

definition sse_ret_s :: "sbi_trap_regs \<Rightarrow> smem \<Rightarrow> sse_globals \<Rightarrow> int \<times> sse_state \<Rightarrow> sse_result option" where
  "sse_ret_s regs m g x = (case x of (ret, s) \<Rightarrow> Some (ret, False, regs, m, g\<lparr>client := s\<rparr>))"

definition sbi_ecall_sse_handler ::
  "nat \<Rightarrow> ulong \<Rightarrow> (nat \<Rightarrow> ulong) \<Rightarrow> sbi_trap_regs \<Rightarrow> smem \<Rightarrow> smem \<Rightarrow> sse_globals \<Rightarrow> sse_result option" where
  "sbi_ecall_sse_handler self funcid a regs m1 m2 g =
    (let hid = current_hartid (ipi_tab g) self
     in if funcid = 0 then
          map_option (\<lambda>(ret, m). (ret, False, regs, m, g))
            (sbi_sse_read_attrs self (ucast (a 0)) (ucast (a 1)) (ucast (a 2)) (a 3) (a 4) m1 g)
        else if funcid = 1 then
          sse_ret regs m2 (sbi_sse_write_attrs self (ucast (a 0)) (ucast (a 1)) (ucast (a 2)) (a 3) (a 4) m1 m2 g)
        else if funcid = 2 then sse_ret regs m1 (sbi_sse_register self (ucast (a 0)) (a 1) (a 2) g)
        else if funcid = 3 then sse_ret_s regs m1 g (sbi_sse_unregister self (ucast (a 0)) (client g))
        else if funcid = 4 then sse_ret regs m1 (sbi_sse_enable self (ucast (a 0)) g)
        else if funcid = 5 then sse_ret_s regs m1 g (sbi_sse_disable self (ucast (a 0)) (client g))
        else if funcid = 6 then
          map_option (\<lambda>(ret, skip, regs, s). (ret, skip, regs, m1, g\<lparr>client := s\<rparr>)) (sbi_sse_complete self hid regs (client g))
        else if funcid = 7 then sse_ret regs m1 (sbi_sse_inject_from_ecall self (ucast (a 0)) (a 1) g)
        else if funcid = 9 then sse_ret_s regs m1 g (sbi_sse_hart_mask self (client g))
        else if funcid = 8 then sse_ret_s regs m1 g (sbi_sse_hart_unmask self (client g))
        else Some (SBI_ENOTSUPP, False, regs, m1, g))"

end
