(* ===== verification/Sbi_Sse_Regs.thy ===== *)
theory Sbi_Sse_Regs
  imports Sbi_Sse
begin

unbundle bit_operations_syntax

text \<open>
  The register side of supervisor software events: what injection and resumption do to \<open>mstatus\<close>, \<open>hstatus\<close> and the event's
  status word, bit by bit.
\<close>

lemma and_BIT: "k < 64 \<Longrightarrow> (x AND BIT k \<noteq> 0) = bit x k"
  by (auto simp: word_eq_0_iff_bit bit_and_iff bit_BIT)

lemma bit_BIT_lt: "k < 64 \<Longrightarrow> bit (BIT k) n \<longleftrightarrow> n = k"
  by (simp add: bit_BIT)

lemma bit_not_ulong: "bit (NOT (x :: ulong)) n \<longleftrightarrow> n < 64 \<and> \<not> bit x n"
  by (simp add: bit_not_iff)

lemma bit_3: "bit (3 :: ulong) n \<longleftrightarrow> n = 0 \<or> n = 1"
proof -
  have "bit (mask 2 :: ulong) n \<longleftrightarrow> n = 0 \<or> n = 1" by (auto simp: bit_mask_iff)
  then show ?thesis by (simp add: mask_eq_exp_minus_1)
qed

lemma bit_MPP: "bit MSTATUS_MPP n \<longleftrightarrow> n = 11 \<or> n = 12"
  by (simp only: MSTATUS_MPP_def bit_push_bit_iff bit_3) auto

lemma and_MPP: "(x AND MSTATUS_MPP \<noteq> 0) = (bit x 11 \<or> bit x 12)"
  by (simp only: word_eq_0_iff_bit bit_and_iff bit_MPP) (auto dest: bit_word_lt)

lemma bit_PRV_S: "bit (push_bit 11 PRV_S) n \<longleftrightarrow> n = 11"
  by (simp only: PRV_S_def bit_push_bit_iff bit_1_iff) auto

lemmas status_bits = MSTATUS_SIE_def MSTATUS_SPIE_def MSTATUS_SPP_def MSTATUS_MPV_def HSTATUS_SPV_def HSTATUS_SPVP_def
  FLAGS_STATUS_SPP_def FLAGS_STATUS_SPIE_def FLAGS_HSTATUS_SPV_def FLAGS_HSTATUS_SPVP_def

lemmas bit_logic = bit_and_iff bit_or_iff bit_not_ulong bit_BIT_lt bit_MPP bit_PRV_S

lemma bit_if: "bit (if P then a else b) n \<longleftrightarrow> (if P then bit a n else bit b n)"
  by simp

lemma bit_inject_mstatus:
  "bit (inject_mstatus m) n \<longleftrightarrow>
    (if n = 8 then bit m 11 \<or> bit m 12 else if n = 5 then bit m 1 else bit m n)"
  by (cases "n < 64"; simp only: inject_mstatus_def Let_def bit_if and_MPP status_bits and_BIT bit_logic)
    (auto dest: bit_word_lt)

lemma bit_entry_mstatus:
  "bit (entry_mstatus m) n \<longleftrightarrow> n = 11 \<or> n \<notin> {1, 12, 39} \<and> bit m n"
  by (simp only: entry_mstatus_def Let_def status_bits bit_logic) (auto dest: bit_word_lt)

lemma bit_inject_hstatus:
  "bit (inject_hstatus m h) n \<longleftrightarrow>
    (if n = 8 then (bit h 7 \<or> bit m 39) \<and> bit m 8 else if n = 7 then bit h 7 \<or> bit m 39 else bit h n)"
  by (cases "n < 64"; simp only: inject_hstatus_def Let_def bit_if status_bits and_BIT bit_logic)
    (auto dest: bit_word_lt)

lemma bit_interrupted_flags:
  "bit (sse_interrupted_flags H m h) n \<longleftrightarrow>
    n = 0 \<and> bit m 8 \<or> n = 1 \<and> bit m 5 \<or> H \<and> (n = 2 \<and> bit h 7 \<or> n = 3 \<and> bit h 8)"
  by (simp only: sse_interrupted_flags_def Let_def bit_if status_bits and_BIT bit_logic) auto

lemma bit_resume_mpp: "bit (resume_mpp m) n \<longleftrightarrow> (if n = 11 then bit m 8 else if n = 12 then False else bit m n)"
  by (simp only: resume_mpp_def Let_def bit_if status_bits and_BIT bit_logic) (auto dest: bit_word_lt)

lemma bit_resume_mpv: "bit (resume_mpv h m) n \<longleftrightarrow> (if n = 39 then bit h 7 else bit m n)"
  by (simp only: resume_mpv_def Let_def bit_if status_bits and_BIT bit_logic) (auto dest: bit_word_lt)

lemma bit_resume_hstatus:
  "bit (resume_hstatus f h) n \<longleftrightarrow> (if n = 7 then bit f 2 else if n = 8 then bit f 3 else bit h n)"
  by (simp only: resume_hstatus_def Let_def bit_if status_bits and_BIT bit_logic) (auto dest: bit_word_lt)

lemma bit_resume_sstatus:
  "bit (resume_sstatus f m) n \<longleftrightarrow>
    (if n = 1 then bit m 5 else if n = 5 then bit f 1 else if n = 8 then bit f 0 else bit m n)"
  by (simp only: resume_sstatus_def Let_def bit_if status_bits and_BIT bit_logic) (auto dest: bit_word_lt)

lemmas sse_bits = bit_inject_mstatus bit_entry_mstatus bit_inject_hstatus bit_interrupted_flags bit_resume_mpp bit_resume_mpv
  bit_resume_hstatus bit_resume_sstatus

text \<open>Entering the handler and resuming undoes itself on both status registers.\<close>

lemma mstatus_roundtrip_H:
  assumes "\<not> bit m 12" and "bit m 39 \<or> \<not> bit h 7"
  defines "f \<equiv> sse_interrupted_flags True m h" and "m1 \<equiv> inject_mstatus m"
  shows "resume_sstatus f (resume_mpv (inject_hstatus m1 h) (resume_mpp (entry_mstatus m1))) = m"
    and "resume_hstatus f (inject_hstatus m1 h) = h"
  by (rule bit_word_eqI; use assms(1,2) in \<open>auto simp: f_def m1_def sse_bits\<close>)+

lemma mstatus_roundtrip_noH:
  assumes "\<not> bit m 12" and "\<not> bit m 39"
  shows "resume_sstatus (sse_interrupted_flags False m h) (resume_mpp (entry_mstatus (inject_mstatus m))) = m"
  by (rule bit_word_eqI) (use assms in \<open>auto simp: sse_bits\<close>)

lemma bit_MPV_lost:
  assumes "\<not> bit m 39" and "bit h 7"
  shows "bit (resume_sstatus f (resume_mpv (inject_hstatus (inject_mstatus m) h) (resume_mpp (entry_mstatus (inject_mstatus m))))) 39"
  using assms by (simp add: sse_bits)

subsection \<open>The status word\<close>

lemma set_state_and: "(x AND NOT 3 OR st) AND 3 = st AND (3 :: ulong)"
  by (rule bit_word_eqI, simp only: bit_and_iff bit_or_iff bit_not_ulong bit_3) auto

lemma at_status_set_state: "at_status (sse_event_set_state st e) = (at_status e AND NOT 3) OR st"
  by (simp add: sse_event_set_state_def)

lemma state_set_state [simp]:
  assumes "st \<in> {0, 1, 2, 3}"
  shows "sse_event_state (sse_event_set_state st e) = st"
proof -
  have "st AND 3 = st" using assms by auto
  then show ?thesis
    by (simp only: sse_event_state_def SBI_SSE_ATTR_STATUS_STATE_MASK_def at_status_set_state set_state_and)
qed

lemma state_bits: "sse_event_state e = at_status e AND 3" "sse_event_pending e \<longleftrightarrow> bit (at_status e) 2"
  by (simp_all add: sse_event_state_def sse_event_pending_def and_BIT)

lemma pending_set_state [simp]:
  assumes "st \<in> {0, 1, 2, 3}"
  shows "sse_event_pending (sse_event_set_state st e) = sse_event_pending e"
proof -
  have "\<not> bit st 2" using assms by (auto simp: bit_3 bit_1_iff)
  then show ?thesis
    by (simp only: state_bits at_status_set_state bit_or_iff bit_and_iff bit_not_ulong bit_3) auto
qed

lemma state_le_3: "sse_event_state e \<in> {0, 1, 2, 3}"
proof -
  have "unat (at_status e AND 3) \<le> 3"
    using word_and_le1 [of "at_status e" 3] by (simp add: word_le_nat_alt)
  then have "unat (at_status e AND 3) \<in> unat ` {0, 1, 2, 3 :: ulong}" by auto
  then obtain w :: ulong where "w \<in> {0, 1, 2, 3}" "unat (at_status e AND 3) = unat w" by blast
  then show ?thesis by (simp add: state_bits(1) word_unat_eq_iff)
qed


lemma inject_status:
  "sse_event_state (e\<lparr>at_status := NOT (BIT 2)\<rparr>) = SBI_SSE_STATE_RUNNING"
  "\<not> sse_event_pending (e\<lparr>at_status := NOT (BIT 2)\<rparr>)"
  by (simp_all add: state_bits bit_not_ulong bit_BIT) (simp add: BIT_2p)

lemma upd_ev_simps [simp]:
  "events (upd_ev r f s) = (events s)(r := f (events s r))" "dl (upd_ev r f s) = dl s"
  "csrs (upd_ev r f s) = csrs s" "misa_H (upd_ev r f s) = misa_H s" "node_of (upd_ev r f s) = node_of s"
  "head_of (upd_ev r f s) = head_of s" "ref_at (upd_ev r f s) = ref_at s" "shs_ptr (upd_ev r f s) = shs_ptr s"
  "masked (upd_ev r f s) = masked s"
  by (simp_all add: upd_ev_def)

text \<open>What injection leaves behind.\<close>

lemma inject_result:
  assumes "sse_event_inject self hid r regs s = (regs1, s1)"
  shows "mepc regs1 = entry_pc (events s r)" "a7 regs1 = entry_arg (events s r)" "a6 regs1 = ucast hid"
    "mstatus regs1 = entry_mstatus (inject_mstatus (mstatus regs))"
    "csrs s1 self = \<lparr>c_sepc = mepc regs, c_hstatus = (if misa_H s then
       inject_hstatus (inject_mstatus (mstatus regs)) (c_hstatus (csrs s self)) else c_hstatus (csrs s self))\<rparr>"
    "i_flags (events s1 r) = sse_interrupted_flags (misa_H s) (mstatus regs) (c_hstatus (csrs s self))"
    "i_sepc (events s1 r) = c_sepc (csrs s self)" "i_a6 (events s1 r) = a6 regs" "i_a7 (events s1 r) = a7 regs"
    "at_status (events s1 r) = NOT (BIT 2)" "misa_H s1 = misa_H s"
  using assms unfolding sse_event_inject_def Let_def by (auto simp: sse_event_set_state_def)

lemma inject_resume:
  assumes inj: "sse_event_inject self hid r regs s = (regs1, s1)"
    and mpp: "\<not> bit (mstatus regs) 12"
    and virt: "if misa_H s then bit (mstatus regs) 39 \<or> \<not> bit (c_hstatus (csrs s self)) 7 else \<not> bit (mstatus regs) 39"
  shows "fst (sse_event_resume self r regs1 s1) = regs"
    and "csrs (snd (sse_event_resume self r regs1 s1)) self = csrs s self"
proof -
  note R = inject_result [OF inj]
  define m h where "m = mstatus regs" and "h = c_hstatus (csrs s self)"
  show "fst (sse_event_resume self r regs1 s1) = regs"
    using mstatus_roundtrip_H(1) [of m h] mstatus_roundtrip_noH [of m h] mpp virt
    by (cases "misa_H s") (simp_all add: sse_event_resume_def Let_def R m_def h_def)
  show "csrs (snd (sse_event_resume self r regs1 s1)) self = csrs s self"
    using mstatus_roundtrip_H(2) [of m h] mpp virt
    by (cases "misa_H s") (simp_all add: sse_event_resume_def Let_def R m_def h_def)
qed

end
