(* ===== verification/Sbi_Sse_Inv.thy ===== *)
theory Sbi_Sse_Inv
  imports Sbi_Sse_Regs
begin

unbundle bit_operations_syntax

text \<open>
  The invariant of the SSE state and the proof that every operation keeps it: each hart's ring of pointers holds exactly the
  enabled and running events that belong to the hart, in the order of their priorities (the smaller number first) and event
  ids. \<open>sse_view s L\<close> says that the rings hold the lists \<open>L\<close>.
\<close>

definition enabled :: "sbi_sse_event \<Rightarrow> bool" where
  "enabled e \<longleftrightarrow> SBI_SSE_STATE_ENABLED \<le> sse_event_state e"

definition ev_before :: "sbi_sse_event \<Rightarrow> sbi_sse_event \<Rightarrow> bool" where
  "ev_before e t \<longleftrightarrow> at_prio e < at_prio t \<or> at_prio e = at_prio t \<and> event_id e < event_id t"

definition valid_ref :: "sse_state \<Rightarrow> event_ref \<Rightarrow> bool" where
  "valid_ref s r \<longleftrightarrow> (case r of Global i \<Rightarrow> i < global_event_count s | Local h i \<Rightarrow> shs_ptr s h \<and> i < local_event_count s)"

definition layout :: "sse_state \<Rightarrow> bool" where
  "layout s \<longleftrightarrow> (\<forall>r. valid_ref s r \<longrightarrow> ref_at s (node_of s r) = r) \<and> inj_on (head_of s) {h. shs_ptr s h} \<and>
    (\<forall>r h. valid_ref s r \<longrightarrow> shs_ptr s h \<longrightarrow> node_of s r \<noteq> head_of s h)"

definition rings :: "sse_state \<Rightarrow> (nat \<Rightarrow> event_ref list) \<Rightarrow> bool" where
  "rings s L \<longleftrightarrow> (\<forall>h. shs_ptr s h \<longrightarrow> dlist (dl s) (head_of s h) (map (node_of s) (L h)))"

definition listed :: "sse_state \<Rightarrow> (nat \<Rightarrow> event_ref list) \<Rightarrow> bool" where
  "listed s L \<longleftrightarrow> (\<forall>r h. r \<in> set (L h) \<longleftrightarrow> enabled (events s r) \<and> unat (hartindex (events s r)) = h)"

definition ordered :: "sse_state \<Rightarrow> (nat \<Rightarrow> event_ref list) \<Rightarrow> bool" where
  "ordered s L \<longleftrightarrow> (\<forall>h. sorted_wrt (\<lambda>a b. \<not> ev_before (events s b) (events s a)) (L h))"

definition placed :: "sse_state \<Rightarrow> bool" where
  "placed s \<longleftrightarrow> (\<forall>r. valid_ref s r \<longrightarrow> shs_ptr s (unat (hartindex (events s r)))) \<and>
    (\<forall>r. enabled (events s r) \<longrightarrow> valid_ref s r)"

definition sse_view :: "sse_state \<Rightarrow> (nat \<Rightarrow> event_ref list) \<Rightarrow> bool" where
  "sse_view s L \<longleftrightarrow> layout s \<and> rings s L \<and> listed s L \<and> ordered s L \<and> placed s"

definition sse_inv :: "sse_state \<Rightarrow> bool" where
  "sse_inv s \<longleftrightarrow> (\<exists>L. sse_view s L)"

lemmas view_defs = sse_view_def layout_def rings_def listed_def ordered_def placed_def valid_ref_def

lemma view_other [simp]:
  "sse_view (s\<lparr>csrs := x1\<rparr>) L = sse_view s L" "sse_view (s\<lparr>cb_log := x2\<rparr>) L = sse_view s L"
  "sse_view (s\<lparr>masked := x3\<rparr>) L = sse_view s L" "sse_view (s\<lparr>inject_fifo := x4\<rparr>) L = sse_view s L"
  by (simp_all add: view_defs cong: event_ref.case_cong)

lemma view_cb [simp]: "sse_view (sse_event_invoke_cb r c s) L = sse_view s L"
  by (simp add: sse_event_invoke_cb_def)

lemma enabled_state: "enabled e \<longleftrightarrow> sse_event_state e \<in> {2, 3}"
  using state_le_3 [of e] by (auto simp: enabled_def word_le_nat_alt)

lemma enabled_set_state [simp]: "st \<in> {0, 1, 2, 3} \<Longrightarrow> enabled (sse_event_set_state st e) \<longleftrightarrow> st \<in> {2, 3}"
  unfolding enabled_state by (subst state_set_state) auto

lemma set_state_keeps [simp]:
  "hartindex (sse_event_set_state st e) = hartindex e" "at_prio (sse_event_set_state st e) = at_prio e"
  "event_id (sse_event_set_state st e) = event_id e" "at_hartid (sse_event_set_state st e) = at_hartid e"
  "at_config (sse_event_set_state st e) = at_config e"
  by (simp_all add: sse_event_set_state_def)

subsection \<open>Updates that leave the lists alone\<close>

lemma view_upd_ev:
  assumes v: "sse_view s L" and en: "enabled (f (events s r)) = enabled (events s r)"
    and same: "enabled (events s r) \<Longrightarrow> hartindex (f (events s r)) = hartindex (events s r) \<and>
      at_prio (f (events s r)) = at_prio (events s r) \<and> event_id (f (events s r)) = event_id (events s r)"
    and place: "valid_ref s r \<Longrightarrow> shs_ptr s (unat (hartindex (f (events s r))))"
  shows "sse_view (upd_ev r f s) L"
proof -
  have vr: "valid_ref (upd_ev r f s) = valid_ref s"
    by (auto simp: valid_ref_def upd_ev_def fun_eq_iff split: event_ref.split)
  have lst: "listed (upd_ev r f s) L" using v en same by (auto simp: sse_view_def listed_def)
  have mem: "enabled (events s x)" if "x \<in> set (L h)" for x h using v that by (auto simp: sse_view_def listed_def)
  have eq: "ev_before (events (upd_ev r f s) b) (events (upd_ev r f s) a) = ev_before (events s b) (events s a)"
    if "a \<in> set (L h)" "b \<in> set (L h)" for a b h
    using mem [OF that(1)] mem [OF that(2)] same by (auto simp: ev_before_def)
  have srt: "sorted_wrt (\<lambda>a b. \<not> ev_before (events s b) (events s a)) (L h)" for h
    using v by (simp add: sse_view_def ordered_def)
  have "sorted_wrt (\<lambda>a b. \<not> ev_before (events (upd_ev r f s) b) (events (upd_ev r f s) a)) (L h)" for h
    by (rule sorted_wrt_mono_rel [OF _ srt]) (simp only: eq not_False_eq_True)
  then have "ordered (upd_ev r f s) L" unfolding ordered_def by blast
  moreover have "placed (upd_ev r f s)" using v en place by (auto simp: sse_view_def placed_def vr)
  moreover have "layout (upd_ev r f s)" "rings (upd_ev r f s) L" using v by (simp_all add: sse_view_def layout_def rings_def vr)
  ultimately show ?thesis using lst by (simp add: sse_view_def)
qed

text \<open>The common case: the update touches neither the list position nor the owner of the event.\<close>

lemma view_upd_keep:
  assumes "sse_view s L" and "enabled (f (events s r)) = enabled (events s r)"
    and "hartindex (f (events s r)) = hartindex (events s r)" "at_prio (f (events s r)) = at_prio (events s r)"
    and "event_id (f (events s r)) = event_id (events s r)"
  shows "sse_view (upd_ev r f s) L"
  using assms by (intro view_upd_ev) (auto simp: sse_view_def placed_def)

lemma get_valid:
  assumes "sse_event_get self i s = (ret, Some r)" and "shs_ptr s self"
  shows "valid_ref s r" "ret = 0"
proof -
  have "valid_ref s r" if "List.find P (map Global [0..<global_event_count s]) = Some r" for P
    using that by (auto simp: find_Some_iff valid_ref_def)
  moreover have "valid_ref s r" if "List.find P (map (Local self) [0..<local_event_count s]) = Some r" for P
    using that assms(2) by (auto simp: find_Some_iff valid_ref_def)
  ultimately show "valid_ref s r" using assms(1) by (auto simp: sse_event_get_def split: option.splits if_splits)
  show "ret = 0" using assms(1) by (auto simp: sse_event_get_def split: option.splits)
qed

subsection \<open>Enabling: insertion by priority\<close>

lemma add_position_seg:
  assumes "dlseg (dl s) p (map (node_of s) xs) head" and "head \<notin> set (map (node_of s) xs)"
    and "\<And>x. x \<in> set xs \<Longrightarrow> ref_at s (node_of s x) = x"
  shows "add_position s e head (nxt (dl s) p) =
    Some (hd (map (node_of s) (dropWhile (\<lambda>x. \<not> ev_before e (events s x)) xs) @ [head]))"
  using assms(1-3)
proof (induction xs arbitrary: p)
  case Nil
  then show ?case by (subst add_position.simps) simp
next
  case (Cons x xs)
  then have n: "nxt (dl s) p = node_of s x" "node_of s x \<noteq> head" by auto
  show ?case
  proof (cases "ev_before e (events s x)")
    case True
    then show ?thesis using n Cons.prems(3) by (subst add_position.simps) (auto simp: ev_before_def Let_def)
  next
    case False
    then have "add_position s e head (nxt (dl s) p) = add_position s e head (nxt (dl s) (node_of s x))"
      using n Cons.prems(3) by (subst add_position.simps) (auto simp: ev_before_def Let_def)
    then show ?thesis using Cons.IH [of "node_of s x"] Cons.prems False by simp
  qed
qed

lemma ev_before_trans: "\<not> ev_before e b \<Longrightarrow> \<not> ev_before b a \<Longrightarrow> \<not> ev_before e a"
  by (auto simp: ev_before_def)

lemma ev_before_asym: "ev_before e b \<Longrightarrow> \<not> ev_before b e"
  by (auto simp: ev_before_def)

lemma insert_sorted:
  assumes "sorted_wrt (\<lambda>a b. \<not> ev_before (E b) (E a)) xs" and "E new = e"
  shows "sorted_wrt (\<lambda>a b. \<not> ev_before (E b) (E a))
    (takeWhile (\<lambda>x. \<not> ev_before e (E x)) xs @ new # dropWhile (\<lambda>x. \<not> ev_before e (E x)) xs)"
  using assms(1)
proof (induction xs)
  case (Cons x xs)
  show ?case
  proof (cases "ev_before e (E x)")
    case True
    have "\<not> ev_before (E y) e" if "y \<in> set (x # xs)" for y
    proof -
      have "\<not> ev_before (E y) (E x)" using that Cons.prems by (auto simp: ev_before_def)
      then show ?thesis using True by (auto simp: ev_before_def)
    qed
    then show ?thesis using True Cons.prems assms(2) by auto
  next
    case False
    define ys where "ys = takeWhile (\<lambda>x. \<not> ev_before e (E x)) xs @ new # dropWhile (\<lambda>x. \<not> ev_before e (E x)) xs"
    have "set ys = insert new (set xs)"
      by (simp add: ys_def) (metis Un_commute set_append takeWhile_dropWhile_id)
    then have "\<forall>y\<in>set ys. \<not> ev_before (E y) (E x)" using Cons.prems False assms(2) by auto
    then have "sorted_wrt (\<lambda>a b. \<not> ev_before (E b) (E a)) (x # ys)" using Cons by (simp add: ys_def)
    then show ?thesis using False by (simp add: ys_def)
  qed
qed (simp add: assms(2))


text \<open>Addresses of different events and of events and heads differ.\<close>

lemma layout_ring_disjoint:
  assumes "layout s" and "h \<noteq> k" and "shs_ptr s h" "shs_ptr s k" and "set xs \<inter> set zs = {}"
    and "\<And>x. x \<in> set xs \<union> set zs \<Longrightarrow> valid_ref s x"
  shows "set (head_of s h # map (node_of s) xs) \<inter> set (head_of s k # map (node_of s) zs) = {}"
proof -
  have inj: "node_of s x \<noteq> node_of s z" if "x \<in> set xs" "z \<in> set zs" for x z
    using assms(1,5,6) that unfolding layout_def by (metis Un_iff disjoint_iff)
  have "head_of s h \<noteq> head_of s k" using assms(1-4) unfolding layout_def inj_on_def by auto
  moreover have "node_of s x \<noteq> head_of s h" "node_of s x \<noteq> head_of s k" if "x \<in> set xs \<union> set zs" for x
    using assms(1,3,4) assms(6) [OF that] unfolding layout_def by auto
  ultimately show ?thesis using inj by (auto dest: sym)
qed

lemma view_valid: "listed s L \<Longrightarrow> placed s \<Longrightarrow> x \<in> set (L k) \<Longrightarrow> valid_ref s x"
  by (simp add: listed_def placed_def)

lemma listed_disjoint: "listed s L \<Longrightarrow> h \<noteq> k \<Longrightarrow> set (L h) \<inter> set (L k) = {}"
  by (auto simp: listed_def)

lemma dlist_prv:
  "dlist s h (xs @ ys) \<Longrightarrow> prv s (hd (ys @ [h])) = last (h # xs)"
  unfolding dlist_def by (metis dlseg_last dlseg_split)

lemma dlist_nbrs:
  assumes "dlist s h (xs @ e # ys)"
  shows "prv s e = last (h # xs)" "nxt s e = hd (ys @ [h])"
  using assms unfolding dlist_def dlseg_append by (metis dlseg_last, metis dlseg_first)

lemma last_in: "last (h # xs) \<in> set (h # xs @ ys)" and hd_in: "hd (ys @ [h]) \<in> set (h # xs @ ys)"
  by (metis UnI1 last_in_set list.distinct(1) set_append append_Cons) (cases ys; simp)

lemma view_add:
  assumes v: "sse_view s L" and r: "valid_ref s r" "\<not> enabled (events s r)"
  defines "h \<equiv> unat (hartindex (events s r))" and "s1 \<equiv> upd_ev r (sse_event_set_state SBI_SSE_STATE_ENABLED) s"
  defines "P \<equiv> \<lambda>x. \<not> ev_before (events s1 r) (events s1 x)"
  defines "M \<equiv> L(h := takeWhile P (L h) @ r # dropWhile P (L h))"
  shows "\<exists>d. sse_event_add_to_list r s1 = Some (s1\<lparr>dl := d\<rparr>) \<and> sse_view (s1\<lparr>dl := d\<rparr>) M"
proof -
  define xs ys where "xs = takeWhile P (L h)" and "ys = dropWhile P (L h)"
  let ?n = "node_of s" and ?hd = "head_of s h"
  define d where "d = sbi_list_add_between (?n r) (last (?hd # map ?n xs)) (hd (map ?n ys @ [?hd])) (dl s)"
  have Lh: "L h = xs @ ys" by (simp add: xs_def ys_def)
  have lay: "layout s" and lst: "listed s L" and ord: "ordered s L" and pl: "placed s" and rg: "rings s L"
    using v by (simp_all add: sse_view_def)
  have notin: "r \<notin> set (L k)" for k using lst r(2) by (auto simp: listed_def)
  have shs: "shs_ptr s h" using pl r(1) by (simp add: placed_def h_def)
  have ring: "dlist (dl s) ?hd (map ?n xs @ map ?n ys)" using rg shs Lh by (metis map_append rings_def)
  have e1: "events s1 x = events s x" if "x \<noteq> r" for x using that by (simp add: s1_def)
  have fresh: "?n r \<notin> set (head_of s k # map ?n (L k))" if "shs_ptr s k" for k
    using notin [of k] lay that r(1) view_valid [OF lst pl] by (auto simp: layout_def) (metis)
  have new: "dlist d ?hd (map ?n xs @ ?n r # map ?n ys)"
    unfolding d_def using ring fresh [OF shs] unfolding Lh by (intro dlist_insert) simp_all
  have f1: "dl s1 = dl s" "node_of s1 = ?n" "ref_at s1 = ref_at s" by (simp_all add: s1_def)
  have "dlist (dl s) ?hd (map ?n (L h))" using rg shs by (simp add: rings_def)
  then have "add_position s1 (events s1 r) ?hd (nxt (dl s1) ?hd) =
      Some (hd (map (node_of s1) (dropWhile (\<lambda>x. \<not> ev_before (events s1 r) (events s1 x)) (L h)) @ [?hd]))"
    using lay view_valid [OF lst pl] by (intro add_position_seg) (simp_all add: f1 dlist_def layout_def)
  then have "add_position s1 (events s1 r) ?hd (nxt (dl s1) ?hd) = Some (hd (map ?n ys @ [?hd]))"
    unfolding f1 ys_def P_def .
  moreover have "sbi_list_add_tail (?n r) (hd (map ?n ys @ [?hd])) (dl s) = d"
    using dlist_prv [OF ring] by (simp only: sbi_list_add_tail_def d_def)
  ultimately have add: "sse_event_add_to_list r s1 = Some (s1\<lparr>dl := d\<rparr>)"
    by (simp add: sse_event_add_to_list_def Let_def s1_def h_def)
  have "dlist d (head_of s k) (map ?n (L k))" if k: "k \<noteq> h" "shs_ptr s k" for k
  proof -
    have dis: "set (?hd # map ?n (xs @ ys)) \<inter> set (head_of s k # map ?n (L k)) = {}"
      unfolding Lh [symmetric]
      using listed_disjoint [OF lst, of h k] k shs view_valid [OF lst pl] by (intro layout_ring_disjoint lay) auto
    have "last (?hd # map ?n xs) \<in> set (?hd # map ?n (xs @ ys))" "hd (map ?n ys @ [?hd]) \<in> set (?hd # map ?n (xs @ ys))"
      using last_in [of ?hd "map ?n xs" "map ?n ys"] hd_in [of "map ?n ys" ?hd "map ?n xs"] by simp_all
    then have "set (head_of s k # map ?n (L k)) \<inter> {?n r, last (?hd # map ?n xs), hd (map ?n ys @ [?hd])} = {}"
      using dis fresh [OF k(2)] by blast
    then show ?thesis unfolding d_def using rg k(2) by (intro dlist_frame_add_between) (auto simp: rings_def)
  qed
  then have rings: "rings (s1\<lparr>dl := d\<rparr>) M"
    using new by (simp add: rings_def s1_def M_def flip: xs_def ys_def)
  have setM: "set (M k) = (if k = h then insert r (set (L k)) else set (L k))" for k
  proof -
    have "set (L h) = set xs \<union> set ys" by (simp add: Lh)
    then show ?thesis unfolding M_def xs_def [symmetric] ys_def [symmetric] by simp
  qed
  have "x \<in> set (M k) \<longleftrightarrow> enabled (events s1 x) \<and> unat (hartindex (events s1 x)) = k" for x k
  proof (cases "x = r")
    case True
    then show ?thesis using notin [of k] by (auto simp: setM s1_def h_def)
  next
    case False
    then show ?thesis using lst e1 [OF False] by (simp add: setM listed_def)
  qed
  then have "listed (s1\<lparr>dl := d\<rparr>) M" by (simp add: listed_def)
  moreover have "ordered (s1\<lparr>dl := d\<rparr>) M"
  proof -
    have "sorted_wrt (\<lambda>a b. \<not> ev_before (events s1 b) (events s1 a)) (L k)" for k
    proof (rule sorted_wrt_mono_rel)
      show "sorted_wrt (\<lambda>a b. \<not> ev_before (events s b) (events s a)) (L k)" using ord by (simp add: ordered_def)
      fix a b assume "a \<in> set (L k)" "b \<in> set (L k)" "\<not> ev_before (events s b) (events s a)"
      moreover from this have "a \<noteq> r" "b \<noteq> r" using notin [of k] by auto
      ultimately show "\<not> ev_before (events s1 b) (events s1 a)" using e1 by simp
    qed
    then show ?thesis
      using insert_sorted [of "events s1" "L h" r "events s1 r"] by (simp add: ordered_def M_def P_def)
  qed
  moreover have "placed (s1\<lparr>dl := d\<rparr>)" "layout (s1\<lparr>dl := d\<rparr>)"
    using pl r(1) lay by (auto simp: placed_def s1_def upd_ev_def valid_ref_def layout_def cong: event_ref.case_cong)
  ultimately show ?thesis using add rings by (auto simp: sse_view_def)
qed


subsection \<open>Disabling: removal\<close>

lemma rings_del:
  assumes lay: "layout s" and lst: "listed s L" and pl: "placed s" and rg: "rings s L" and r: "r \<in> set (L h)"
    and shs: "shs_ptr s h"
  shows "rings (s\<lparr>dl := sbi_list_del (node_of s r) (dl s)\<rparr>) (L(h := removeAll r (L h)))" and "distinct (L h)"
proof -
  let ?n = "node_of s" and ?hd = "head_of s h"
  obtain xs ys where Lh: "L h = xs @ r # ys" using r by (meson split_list)
  have ring: "dlist (dl s) ?hd (map ?n xs @ ?n r # map ?n ys)"
    using rg shs Lh by (metis (no_types) list.simps(9) map_append rings_def)
  then have "distinct (map ?n (L h))" by (simp add: dlist_def Lh)
  then show dist: "distinct (L h)" by (simp add: distinct_map)
  then have "removeAll r (L h) = xs @ ys" by (auto simp: Lh removeAll_id)
  moreover have "dlist (sbi_list_del (?n r) (dl s)) ?hd (map ?n xs @ map ?n ys)" using dlist_del(1) [OF ring] .
  moreover have "dlist (sbi_list_del (?n r) (dl s)) (head_of s k) (map ?n (L k))" if k: "k \<noteq> h" "shs_ptr s k" for k
  proof -
    have dis: "set (?hd # map ?n (L h)) \<inter> set (head_of s k # map ?n (L k)) = {}"
      using layout_ring_disjoint [OF lay, of h k "L h" "L k"] listed_disjoint [OF lst, of h k] k shs
        view_valid [OF lst pl] by blast
    have "prv (dl s) (?n r) \<in> set (?hd # map ?n (L h))" "nxt (dl s) (?n r) \<in> set (?hd # map ?n (L h))"
      using dlist_nbrs [OF ring] last_in [of ?hd "map ?n xs" "?n r # map ?n ys"] hd_in [of "map ?n ys" ?hd "map ?n xs @ [?n r]"]
      by (simp_all add: Lh)
    moreover have "?n r \<in> set (?hd # map ?n (L h))" using r by simp
    ultimately have "set (head_of s k # map ?n (L k)) \<inter> {?n r, prv (dl s) (?n r), nxt (dl s) (?n r)} = {}"
      using dis by blast
    then show ?thesis using rg k(2) by (intro dlist_frame_del) (auto simp: rings_def)
  qed
  ultimately show "rings (s\<lparr>dl := sbi_list_del (?n r) (dl s)\<rparr>) (L(h := removeAll r (L h)))"
    using shs by (simp add: rings_def)
qed

lemma view_del:
  assumes v: "sse_view s L" and r: "enabled (events s r)"
  defines "h \<equiv> unat (hartindex (events s r))"
  defines "s1 \<equiv> upd_ev r (sse_event_set_state SBI_SSE_STATE_REGISTERED) (sse_event_remove_from_list r s)"
  shows "sse_view s1 (L(h := removeAll r (L h)))"
proof -
  let ?M = "L(h := removeAll r (L h))"
  have lay: "layout s" and lst: "listed s L" and ord: "ordered s L" and pl: "placed s" and rg: "rings s L"
    using v by (simp_all add: sse_view_def)
  have rL: "r \<in> set (L h)" using lst r by (simp add: listed_def h_def)
  have shs: "shs_ptr s h" using pl r by (simp add: placed_def h_def)
  have ev: "events s1 x = (if x = r then sse_event_set_state 1 (events s r) else events s x)" for x
    by (simp add: s1_def sse_event_remove_from_list_def)
  have f1: "dl s1 = sbi_list_del (node_of s r) (dl s)" "node_of s1 = node_of s" "head_of s1 = head_of s" "ref_at s1 = ref_at s"
      "shs_ptr s1 = shs_ptr s" "valid_ref s1 = valid_ref s"
    by (auto simp: s1_def sse_event_remove_from_list_def valid_ref_def upd_ev_def fun_eq_iff split: event_ref.split)
  have sub: "set (?M k) = set (L k) - {r}" for k
    using rL lst by (auto simp: listed_def h_def)
  have "listed s1 ?M" unfolding listed_def sub ev using lst by (auto simp: listed_def)
  moreover have "ordered s1 ?M" unfolding ordered_def
  proof
    fix k
    have "sorted_wrt (\<lambda>a b. \<not> ev_before (events s b) (events s a)) (?M k)"
      using ord by (simp add: ordered_def sorted_wrt_filter removeAll_filter_not_eq)
    then show "sorted_wrt (\<lambda>a b. \<not> ev_before (events s1 b) (events s1 a)) (?M k)"
      using sub [of k] by (elim sorted_wrt_mono_rel [rotated]) (auto simp: ev)
  qed
  moreover have "rings s1 ?M" using rings_del(1) [OF lay lst pl rg rL shs] by (simp add: rings_def f1)
  moreover have "placed s1" using pl by (auto simp: placed_def f1 ev)
  moreover have "layout s1" using lay by (simp add: layout_def f1)
  ultimately show ?thesis by (simp add: sse_view_def)
qed

subsection \<open>Every operation keeps the invariant\<close>

lemma inv_disable: "sse_inv s \<Longrightarrow> sse_inv (snd (sse_event_disable r s))"
proof -
  assume "sse_inv s"
  then obtain L where v: "sse_view (sse_event_invoke_cb r Disable_cb s) L" by (auto simp: sse_inv_def)
  show ?thesis
  proof (cases "sse_event_state (events s r) = SBI_SSE_STATE_ENABLED")
    case True
    then have "enabled (events (sse_event_invoke_cb r Disable_cb s) r)" by (simp add: enabled_def sse_event_invoke_cb_def)
    from view_del [OF v this] show ?thesis using True by (auto simp: sse_inv_def sse_event_disable_def Let_def)
  next
    case False
    then show ?thesis using \<open>sse_inv s\<close> by (simp add: sse_event_disable_def)
  qed
qed

lemma inv_register: "sse_inv s \<Longrightarrow> sse_inv (snd (sse_event_register r pc arg s))"
proof -
  assume "sse_inv s"
  then obtain L where v: "sse_view s L" by (auto simp: sse_inv_def)
  have "sse_view (upd_ev r (sse_event_set_state SBI_SSE_STATE_REGISTERED)
      (upd_ev r (\<lambda>e. e\<lparr>entry_pc := pc, entry_arg := arg\<rparr>) s)) L" if "sse_event_state (events s r) = 0"
    using that by (intro view_upd_keep v) (simp_all add: enabled_state, simp_all add: state_bits)
  then show ?thesis using \<open>sse_inv s\<close> by (auto simp: sse_inv_def sse_event_register_def Let_def)
qed

lemma inv_unregister: "sse_inv s \<Longrightarrow> sse_inv (snd (sse_event_unregister r s))"
proof -
  assume "sse_inv s"
  then obtain L where v: "sse_view (sse_event_invoke_cb r Unregister_cb s) L" by (auto simp: sse_inv_def)
  have "sse_view (upd_ev r (sse_event_set_state SBI_SSE_STATE_UNUSED) (sse_event_invoke_cb r Unregister_cb s)) L"
    if "sse_event_state (events s r) = 1"
    using that by (intro view_upd_keep v) (simp_all add: enabled_state sse_event_invoke_cb_def)
  then show ?thesis using \<open>sse_inv s\<close> by (auto simp: sse_inv_def sse_event_unregister_def Let_def)
qed

lemma inv_set_pending: "sse_inv s \<Longrightarrow> sse_inv (snd (sse_event_set_pending r s))"
proof -
  assume "sse_inv s"
  then obtain L where v: "sse_view s L" by (auto simp: sse_inv_def)
  have "(w OR BIT 2) AND 3 = w AND 3" for w :: ulong
    by (rule bit_word_eqI, simp only: bit_and_iff bit_or_iff bit_BIT bit_3) auto
  then have "sse_view (upd_ev r (\<lambda>e. e\<lparr>at_status := at_status e OR BIT 2\<rparr>) s) L"
    by (intro view_upd_keep v) (simp_all add: enabled_state state_bits)
  then show ?thesis using \<open>sse_inv s\<close> by (auto simp: sse_inv_def sse_event_set_pending_def)
qed


lemma upd_ev_upd_ev [simp]: "upd_ev r f (upd_ev r f' s) = upd_ev r (\<lambda>e. f (f' e)) s"
  by (simp add: upd_ev_def)

lemma view_inject:
  assumes v: "sse_view s L" and r: "enabled (events s r)"
  shows "sse_view (snd (sse_event_inject self hid r regs s)) L"
proof -
  have "3 = (NOT (BIT 2)) AND (3 :: ulong)" by (simp add: BIT_2p)
  then show ?thesis
    unfolding sse_event_inject_def Let_def snd_conv view_other upd_ev_upd_ev
    by (intro view_upd_keep v) (simp_all add: r, simp add: enabled_state state_bits)
qed

lemma snd_resume: "\<exists>c. snd (sse_event_resume self r regs s) = s\<lparr>csrs := c\<rparr>"
  by (simp add: sse_event_resume_def Let_def) blast

lemma inv_complete: "sse_inv s \<Longrightarrow> sse_inv (snd (snd (snd (sse_event_complete self hid r regs s))))"
proof -
  assume i: "sse_inv s"
  then obtain L where v: "sse_view s L" by (auto simp: sse_inv_def)
  define s1 where "s1 = upd_ev r (sse_event_set_state SBI_SSE_STATE_ENABLED) s"
  define s2 where "s2 = (if at_config (events s1 r) AND SBI_SSE_ATTR_CONFIG_ONESHOT \<noteq> 0 then snd (sse_event_disable r s1) else s1)"
  show ?thesis
  proof (cases "sse_event_state (events s r) = SBI_SSE_STATE_RUNNING \<and> at_hartid (events s r) = ucast hid")
    case True
    then have "sse_view s1 L" unfolding s1_def by (intro view_upd_keep v) (simp_all add: enabled_state)
    then have "sse_inv s1" by (auto simp: sse_inv_def)
    then have "sse_inv s2" unfolding s2_def using inv_disable by simp
    moreover obtain c where "snd (sse_event_resume self r regs (sse_event_invoke_cb r Complete_cb s2)) =
        (sse_event_invoke_cb r Complete_cb s2)\<lparr>csrs := c\<rparr>" using snd_resume by blast
    ultimately show ?thesis
      using True unfolding sse_event_complete_def Let_def s1_def [symmetric] s2_def [symmetric]
      by (simp add: sse_inv_def split_def)
  next
    case False
    then show ?thesis using i by (auto simp: sse_event_complete_def)
  qed
qed

text \<open>The two walks over a ring, on lists. The walk for pending events stops at an event that runs or is ready on this hart.\<close>

definition deciding :: "u32 \<Rightarrow> sbi_sse_event \<Rightarrow> bool" where
  "deciding hid e \<longleftrightarrow> sse_event_state e = SBI_SSE_STATE_RUNNING \<or> sse_event_is_ready hid e"

lemma process_walk_seg:
  assumes "dlseg (dl s) p (map (node_of s) xs) (head_of s self)" and "head_of s self \<notin> set (map (node_of s) xs)"
    and "\<And>x. x \<in> set xs \<Longrightarrow> ref_at s (node_of s x) = x"
  shows "process_walk self hid regs s (nxt (dl s) p) =
    Some (case List.find (\<lambda>x. deciding hid (events s x)) xs of None \<Rightarrow> (regs, s)
      | Some x \<Rightarrow> if sse_event_state (events s x) = SBI_SSE_STATE_RUNNING then (regs, s) else sse_event_inject self hid x regs s)"
  using assms(1-3)
proof (induction xs arbitrary: p)
  case Nil
  then show ?case by (subst process_walk.simps) simp
next
  case (Cons x xs)
  then have n: "nxt (dl s) p = node_of s x" "node_of s x \<noteq> head_of s self" by auto
  show ?case
  proof (cases "deciding hid (events s x)")
    case True
    then show ?thesis
      using n Cons.prems(3) by (subst process_walk.simps) (auto simp: sse_event_check_inject_def deciding_def split: prod.split)
  next
    case False
    then have "process_walk self hid regs s (nxt (dl s) p) = process_walk self hid regs s (nxt (dl s) (node_of s x))"
      using n Cons.prems(3) by (subst process_walk.simps) (simp add: sse_event_check_inject_def deciding_def)
    then show ?thesis using Cons.IH [of "node_of s x"] Cons.prems False by simp
  qed
qed

lemma complete_walk_seg:
  assumes "dlseg (dl s) p (map (node_of s) xs) (head_of s self)" and "head_of s self \<notin> set (map (node_of s) xs)"
    and "\<And>x. x \<in> set xs \<Longrightarrow> ref_at s (node_of s x) = x"
  shows "complete_walk self hid regs s (nxt (dl s) p) =
    Some (case List.find (\<lambda>x. sse_event_state (events s x) = SBI_SSE_STATE_RUNNING) xs of
        None \<Rightarrow> (SBI_OK, False, regs, s) | Some x \<Rightarrow> sse_event_complete self hid x regs s)"
  using assms(1-3)
proof (induction xs arbitrary: p)
  case Nil
  then show ?case by (subst complete_walk.simps) simp
next
  case (Cons x xs)
  then have n: "nxt (dl s) p = node_of s x" "node_of s x \<noteq> head_of s self" by auto
  then show ?case
    using n Cons.prems(3) Cons.IH [of "node_of s x"] Cons.prems by (subst complete_walk.simps) auto
qed

lemma view_ring:
  assumes "sse_view s L" and "shs_ptr s self"
  shows "dlseg (dl s) (head_of s self) (map (node_of s) (L self)) (head_of s self)"
    and "head_of s self \<notin> set (map (node_of s) (L self))" and "\<And>x. x \<in> set (L self) \<Longrightarrow> ref_at s (node_of s x) = x"
  using assms view_valid [of s L] by (auto simp: sse_view_def rings_def dlist_def layout_def)

lemma process_pending_eq:
  assumes "sse_view s L" and "shs_ptr s self" and "\<not> masked s self"
  shows "sbi_sse_process_pending_events self hid regs s =
    Some (case List.find (\<lambda>x. deciding hid (events s x)) (L self) of None \<Rightarrow> (regs, s)
      | Some x \<Rightarrow> if sse_event_state (events s x) = SBI_SSE_STATE_RUNNING then (regs, s) else sse_event_inject self hid x regs s)"
  unfolding sbi_sse_process_pending_events_def
  using process_walk_seg [OF view_ring [OF assms(1,2)], of hid regs] assms(3) by simp

lemma complete_eq:
  assumes "sse_view s L" and "shs_ptr s self"
  shows "sbi_sse_complete self hid regs s =
    Some (case List.find (\<lambda>x. sse_event_state (events s x) = SBI_SSE_STATE_RUNNING) (L self) of
        None \<Rightarrow> (SBI_OK, False, regs, s) | Some x \<Rightarrow> sse_event_complete self hid x regs s)"
  unfolding sbi_sse_complete_def using complete_walk_seg [OF view_ring [OF assms], of hid regs] .

lemma find_mem: "List.find P xs = Some x \<Longrightarrow> x \<in> set xs \<and> P x"
  by (auto simp: find_Some_iff)

lemma inv_process_pending:
  assumes "sse_inv s" and "shs_ptr s self"
  shows "\<exists>regs' s'. sbi_sse_process_pending_events self hid regs s = Some (regs', s') \<and> sse_inv s'"
proof -
  obtain L where v: "sse_view s L" using assms(1) by (auto simp: sse_inv_def)
  show ?thesis
  proof (cases "masked s self")
    case True
    then show ?thesis using assms(1) by (simp add: sbi_sse_process_pending_events_def)
  next
    case False
    have "sse_inv (snd (sse_event_inject self hid x regs s))" if "x \<in> set (L self)" for x
      using view_inject [OF v, of x] v that by (auto simp: sse_inv_def sse_view_def listed_def)
    then show ?thesis
      unfolding process_pending_eq [OF v assms(2) False] using assms(1)
      by (auto split: option.split prod.split dest!: find_mem) (metis prod.collapse)
  qed
qed

end
