(* ===== verification/Sbi_Sse_Steps.thy ===== *)
theory Sbi_Sse_Steps
  imports Sbi_Sse_Inv
begin

unbundle bit_operations_syntax

text \<open>
  The SSE operations that go through the IPI layer or through S-mode memory, and the runs of SBI calls, interrupts and event
  deliveries: the invariant holds in every reachable state.
\<close>

subsection \<open>Sending the inject IPI\<close>

definition same_ipi :: "('s, 'd) ipi_globals \<Rightarrow> ('s, 'd) ipi_globals \<Rightarrow> bool" where
  "same_ipi g g' \<longleftrightarrow> ipi_hsm g' = ipi_hsm g \<and> ipi_ops_array g' = ipi_ops_array g"

lemma send_keeps:
  assumes "ipi_ops_array g event = Some ops" and "ev_update ops = None" and "ev_process ops = Some pr"
    and "\<And>c. P c \<Longrightarrow> P (pr self c)" and "P (client g)"
    and "sbi_ipi_send self i event data g = (rc, g')"
  shows "P (client g') \<and> same_ipi g g' \<and> rc \<noteq> SBI_IPI_UPDATE_RETRY"
  using assms
  by (auto simp: sbi_ipi_send_def ipi_trigger_def sbi_ipi_raw_send_def same_ipi_def Let_def split: if_splits)

lemma send_pass_keeps:
  assumes "ipi_ops_array g event = Some ops" and "ev_update ops = None" and "ev_process ops = Some pr"
    and "\<And>c. P c \<Longrightarrow> P (pr self c)" and "P (client g)"
    and "send_pass self event data is m False g = (x, g')"
  shows "P (client g') \<and> same_ipi g g' \<and> (\<forall>m' b. x = Inr (m', b) \<longrightarrow> \<not> b)"
  using assms(1,5,6)
proof (induction "is" arbitrary: m g)
  case Nil
  then show ?case by (auto simp: same_ipi_def)
next
  case (Cons i "is")
  obtain rc g1 where s: "sbi_ipi_send self i event data g = (rc, g1)" by fastforce
  note k = send_keeps [OF Cons.prems(1) assms(2,3,4) Cons.prems(2) s]
  show ?case
  proof (cases "rc < 0")
    case True
    then show ?thesis using Cons.prems s k by auto
  next
    case False
    then have "send_pass self event data is (sbi_hartmask_clear_hartindex i m) False g1 = (x, g')"
      using Cons.prems s k by auto
    moreover have "ipi_ops_array g1 event = Some ops" using k Cons.prems(1) by (simp add: same_ipi_def)
    ultimately show ?thesis using Cons.IH [of g1] k by (auto simp: same_ipi_def)
  qed
qed

lemma send_many_keeps:
  assumes "ipi_ops_array g event = Some ops" and "ev_update ops = None" and "ev_process ops = Some pr" "ev_sync ops = None"
    and "\<And>c. P c \<Longrightarrow> P (pr self c)" and "P (client g)"
  shows "\<exists>rc g'. sbi_ipi_send_many self hmask hbase event data g = Some (rc, g') \<and> P (client g') \<and> same_ipi g g'"
proof -
  have "\<exists>rc g'. send_loop self event data m g = Some (rc, g') \<and> P (client g') \<and> same_ipi g g'" for m
  proof -
    obtain x g1 where s: "send_pass self event data (sbi_hartmask_for_each_hartindex m) m False g = (x, g1)" by fastforce
    note k = send_pass_keeps [OF assms(1-3,5,6) s]
    show ?thesis using s k by (subst send_loop.simps) (auto split: sum.split)
  qed
  moreover have "snd (sbi_ipi_sync self event g') = g'" if "same_ipi g g'" for g'
    using that assms(1,4) by (auto simp: sbi_ipi_sync_def same_ipi_def)
  moreover have "P (client g) \<and> same_ipi g g" using assms(6) by (simp add: same_ipi_def)
  ultimately show ?thesis
    unfolding sbi_ipi_send_many_def Let_def by (cases "sbi_hsm_hart_interruptible_mask (ipi_hsm g)
      (sbi_hartindex_to_domain (hsm_doms (ipi_hsm g)) self) hartmask_zero") (simp, metis (no_types, lifting) case_prod_conv option.map(2))
qed

text \<open>What the IPI handler and the operations keep besides the invariant.\<close>

definition same_shape_s :: "sse_state \<Rightarrow> sse_state \<Rightarrow> bool" where
  "same_shape_s s s' \<longleftrightarrow> shs_ptr s' = shs_ptr s \<and> sse_ipi_inject_event s' = sse_ipi_inject_event s"

lemma shape_trans: "same_shape_s a b \<Longrightarrow> same_shape_s b c \<Longrightarrow> same_shape_s a c"
  by (simp add: same_shape_s_def)

lemma shape_ops [simp]:
  "same_shape_s s s" "same_shape_s s (upd_ev r f s')  = same_shape_s s s'"
  "same_shape_s s (snd (sse_event_set_pending r s)) = True"
  "same_shape_s s (sse_event_invoke_cb r c s') = same_shape_s s s'"
  "same_shape_s s (s'\<lparr>inject_fifo := x\<rparr>) = same_shape_s s s'" "same_shape_s s (s'\<lparr>csrs := y\<rparr>) = same_shape_s s s'"
  "same_shape_s s (s'\<lparr>dl := z\<rparr>) = same_shape_s s s'" "same_shape_s s (s'\<lparr>masked := z1\<rparr>) = same_shape_s s s'"
  by (simp_all add: same_shape_s_def upd_ev_def sse_event_invoke_cb_def sse_event_set_pending_def)

lemma inv_fifo [simp]: "sse_inv (s\<lparr>inject_fifo := x\<rparr>) = sse_inv s" "sse_inv (s\<lparr>masked := y\<rparr>) = sse_inv s"
  by (simp_all add: sse_inv_def)

lemma inject_drain_keeps: "sse_inv s \<Longrightarrow> sse_inv (inject_drain n self s) \<and> same_shape_s s (inject_drain n self s)"
proof (induction n arbitrary: s)
  case (Suc n)
  obtain rc d f where q: "sbi_fifo_dequeue (Some (inject_fifo s self)) True = (rc, d, f)" using prod_cases3 by blast
  show ?case
  proof (cases "rc = 0 \<and> d \<noteq> None \<and> f \<noteq> None")
    case True
    then obtain dd ff where df: "d = Some dd" "f = Some ff" by auto
    define s1 where "s1 = s\<lparr>inject_fifo := (inject_fifo s)(self := ff)\<rparr>"
    have i1: "sse_inv s1" "same_shape_s s s1" using Suc.prems by (simp_all add: s1_def)
    obtain rt ro where g: "sse_event_get self (bytes_id dd) s1 = (rt, ro)" by fastforce
    show ?thesis
    proof (cases ro)
      case None
      then have "inject_drain (Suc n) self s = inject_drain n self s1" using True q df g by (simp add: s1_def Let_def)
      then show ?thesis using Suc.IH [OF i1(1)] i1(2) shape_trans by metis
    next
      case (Some r)
      have "inject_drain (Suc n) self s = inject_drain n self (snd (sse_event_set_pending r s1))"
        using True q df g Some by (simp add: s1_def Let_def)
      moreover have "sse_inv (snd (sse_event_set_pending r s1))" using inv_set_pending [OF i1(1)] .
      moreover have "same_shape_s s (snd (sse_event_set_pending r s1))"
        using i1(2) shape_ops(3) [of s1 r] shape_trans by blast
      ultimately show ?thesis using Suc.IH [of "snd (sse_event_set_pending r s1)"] shape_trans by metis
    qed
  next
    case False
    then show ?thesis using Suc.prems q by (auto simp: Let_def split: option.split)
  qed
qed simp


subsection \<open>The state of the whole layer\<close>

definition sse_ok :: "sse_globals \<Rightarrow> bool" where
  "sse_ok g \<longleftrightarrow> sse_inv (client g) \<and>
    (\<forall>i :: u32. hsm_hart_get_state (ipi_hsm g) (unat i) = SBI_HSM_STATE_STARTED \<longrightarrow> shs_ptr (client g) (unat i)) \<and>
    ipi_ops_array g (sse_ipi_inject_event (client g)) = Some sse_ipi_inject_ops"

lemma ok_client: "sse_ok g \<Longrightarrow> sse_inv s \<Longrightarrow> same_shape_s (client g) s \<Longrightarrow> sse_ok (g\<lparr>client := s\<rparr>)"
  by (simp add: sse_ok_def same_shape_s_def)

lemma ok_send_many:
  assumes "sse_ok g"
  shows "\<exists>rc g'. sbi_ipi_send_many self hmask hbase (sse_ipi_inject_event (client g)) () g = Some (rc, g') \<and> sse_ok g' \<and>
    shs_ptr (client g') = shs_ptr (client g)"
proof -
  let ?P = "\<lambda>c. sse_inv c \<and> same_shape_s (client g) c"
  have step: "?P (sse_ipi_inject_process self c)" if "?P c" for c
    using inject_drain_keeps that shape_trans by (metis sse_ipi_inject_process_def)
  have "\<exists>rc g'. sbi_ipi_send_many self hmask hbase (sse_ipi_inject_event (client g)) () g = Some (rc, g') \<and> ?P (client g') \<and>
      same_ipi g g'"
    by (rule send_many_keeps [where ops = sse_ipi_inject_ops and pr = sse_ipi_inject_process and P = ?P])
      (use assms step in \<open>auto simp: sse_ok_def sse_ipi_inject_ops_def\<close>)
  then obtain rc g' where g': "sbi_ipi_send_many self hmask hbase (sse_ipi_inject_event (client g)) () g = Some (rc, g')"
      "?P (client g')" "same_ipi g g'" by blast
  then have "sse_ok g'" using assms by (simp add: sse_ok_def same_ipi_def same_shape_s_def)
  then show ?thesis using g' by (auto simp: same_shape_s_def)
qed

lemma ok_enable:
  assumes ok: "sse_ok g" and self: "shs_ptr (client g) self"
  shows "\<exists>ret g'. sbi_sse_enable self i g = Some (ret, g') \<and> sse_ok g' \<and> shs_ptr (client g') = shs_ptr (client g)"
proof -
  obtain rt ro where gt: "sse_event_get self i (client g) = (rt, ro)" by fastforce
  show ?thesis
  proof (cases "\<exists>r. ro = Some r \<and> sse_event_state (events (client g) r) = SBI_SSE_STATE_REGISTERED")
    case True
    then obtain r where r: "ro = Some r" "sse_event_state (events (client g) r) = 1" by auto
    obtain L where v: "sse_view (client g) L" using ok by (auto simp: sse_ok_def sse_inv_def)
    have vr: "valid_ref (client g) r" using get_valid(1) gt r(1) self by blast
    have ne: "\<not> enabled (events (client g) r)" using r(2) by (simp add: enabled_state)
    obtain d where d:
        "sse_event_add_to_list r (upd_ev r (sse_event_set_state SBI_SSE_STATE_ENABLED) (client g)) =
         Some ((upd_ev r (sse_event_set_state SBI_SSE_STATE_ENABLED) (client g))\<lparr>dl := d\<rparr>)"
        "sse_inv ((upd_ev r (sse_event_set_state SBI_SSE_STATE_ENABLED) (client g))\<lparr>dl := d\<rparr>)"
      using view_add [OF v vr ne] unfolding sse_inv_def by blast
    define s where "s = sse_event_invoke_cb r Enable_cb ((upd_ev r (sse_event_set_state SBI_SSE_STATE_ENABLED) (client g))\<lparr>dl := d\<rparr>)"
    have shp: "same_shape_s (client g) s" by (simp add: s_def)
    have "sse_inv s" using d(2) by (auto simp: s_def sse_inv_def)
    then have oks: "sse_ok (g\<lparr>client := s\<rparr>)" using ok_client [OF ok _ shp] by simp
    have "sbi_sse_enable self i g = (if sse_event_is_global (events s r) \<and> sse_event_pending (events s r)
        then map_option (\<lambda>(_, g). (SBI_OK, g))
          (sbi_ipi_send_many self 1 (at_hartid (events s r)) (sse_ipi_inject_event s) () (g\<lparr>client := s\<rparr>))
        else Some (SBI_OK, g\<lparr>client := s\<rparr>))"
      using r gt d(1) unfolding sbi_sse_enable_def sse_event_enable_def by (simp add: s_def Let_def)
    then show ?thesis
      using ok_send_many [OF oks, of self 1 "at_hartid (events s r)"] oks shp by (auto simp: same_shape_s_def)
  next
    case False
    then show ?thesis using ok gt by (auto simp: sbi_sse_enable_def sse_event_enable_def split: option.split)
  qed
qed

lemma ok_inject:
  assumes ok: "sse_ok g"
  shows "\<exists>ret g'. sse_inject_event self i hartid g = Some (ret, g') \<and> sse_ok g' \<and> shs_ptr (client g') = shs_ptr (client g)"
proof -
  have send: "\<exists>ret g'. sse_ipi_inject_send self hh i g = Some (ret, g') \<and> sse_ok g' \<and> shs_ptr (client g') = shs_ptr (client g)" for hh
  proof -
    define h where "h = unat (sbi_hartid_to_hartindex (ipi_tab g) (ucast hh))"
    obtain ret f where e: "sbi_fifo_enqueue (Some (inject_fifo (client g) h)) (Some (id_bytes i)) False = (ret, f)" by fastforce
    define g1 where "g1 = upd_client (\<lambda>s. s\<lparr>inject_fifo := (inject_fifo s)(h := the f)\<rparr>) g"
    have "sse_ok g1" unfolding g1_def upd_client_def using ok by (intro ok_client ok) (simp_all add: sse_ok_def)
    moreover have "shs_ptr (client g1) = shs_ptr (client g)" by (simp add: g1_def upd_client_def)
    ultimately obtain rc g' where sm: "sbi_ipi_send_many self 1 hh (sse_ipi_inject_event (client g1)) () g1 = Some (rc, g')"
        "sse_ok g'" "shs_ptr (client g') = shs_ptr (client g)"
      using ok_send_many [of g1 self 1 hh] by auto
    show ?thesis
      unfolding sse_ipi_inject_send_def Let_def h_def [symmetric] by (simp add: e sm ok g1_def [symmetric])
  qed
  obtain rt ro where gt: "sse_event_get self i (client g) = (rt, ro)" by fastforce
  show ?thesis
  proof (cases ro)
    case None
    then show ?thesis using ok gt by (simp add: sse_inject_event_def)
  next
    case (Some r)
    have "sse_ok (g\<lparr>client := snd (sse_event_set_pending r (client g))\<rparr>)"
      using ok by (intro ok_client ok inv_set_pending) (simp_all add: sse_ok_def)
    moreover have "shs_ptr (snd (sse_event_set_pending r (client g))) = shs_ptr (client g)"
      using shape_ops(3) [of "client g" r] by (simp add: same_shape_s_def)
    ultimately show ?thesis using send Some gt by (simp add: sse_inject_event_def Let_def split_def)
  qed
qed


subsection \<open>Attributes\<close>

lemma check_attr_ok:
  assumes "sse_event_set_attr_check self e i v h = 0"
  shows "i = SBI_SSE_ATTR_PRIO \<or> i = SBI_SSE_ATTR_PREFERRED_HART \<Longrightarrow> \<not> enabled e"
    and "i = SBI_SSE_ATTR_PREFERRED_HART \<Longrightarrow>
      hsm_hart_get_state h (unat (sbi_hartid_to_hartindex (scratch_tab (hsm_doms h)) (ucast v))) = SBI_HSM_STATE_STARTED"
  using assms
  by (auto simp: sse_event_set_attr_check_def enabled_def sse_event_set_hart_id_check_def sbi_hsm_hart_get_state_def Let_def
      split: if_splits)

lemma view_set_attr:
  assumes v: "sse_view s L" and ne: "i = SBI_SSE_ATTR_PRIO \<or> i = SBI_SSE_ATTR_PREFERRED_HART \<Longrightarrow> \<not> enabled (events s r)"
    and hart: "i = SBI_SSE_ATTR_PREFERRED_HART \<Longrightarrow> shs_ptr s (unat (sbi_hartid_to_hartindex t (ucast val)))"
  shows "sse_view (sse_event_set_attr r i val t s) L"
proof -
  have k: "sse_view (upd_ev r f s) L" if "\<And>e. at_status (f e) = at_status e \<and> hartindex (f e) = hartindex e \<and>
      at_prio (f e) = at_prio e \<and> event_id (f e) = event_id e" for f
    using that by (intro view_upd_keep v) (simp_all add: enabled_def state_bits)
  have p: "sse_view (upd_ev r f s) L" if "\<not> enabled (events s r)" "\<And>e. at_status (f e) = at_status e"
      "shs_ptr s (unat (hartindex (f (events s r))))" for f
    using that by (intro view_upd_ev v) (simp_all add: enabled_def state_bits)
  have "shs_ptr s (unat (hartindex (events s r)))" if "valid_ref s r" using v that by (simp add: sse_view_def placed_def)
  then have q: "sse_view (upd_ev r (\<lambda>e. e\<lparr>at_prio := w\<rparr>) s) L" if "\<not> enabled (events s r)" for w
    using that by (intro view_upd_ev v) (simp_all add: enabled_def state_bits)
  show ?thesis unfolding sse_event_set_attr_def using v k p q ne hart by auto
qed

lemma set_attr_keeps:
  "same_shape_s s (sse_event_set_attr r i v t s)"
  "sse_event_state (events (sse_event_set_attr r i v t s) r) = sse_event_state (events s r)"
  by (simp_all add: sse_event_set_attr_def state_bits sse_event_invoke_cb_def same_shape_s_def upd_ev_def)

lemma inv_set_attrs:
  assumes "sse_inv s" and "\<forall>(i, v)\<in>set xs. (i = SBI_SSE_ATTR_PRIO \<or> i = SBI_SSE_ATTR_PREFERRED_HART \<longrightarrow> \<not> enabled (events s r)) \<and>
      (i = SBI_SSE_ATTR_PREFERRED_HART \<longrightarrow> shs_ptr s (unat (sbi_hartid_to_hartindex t (ucast v))))"
  shows "sse_inv (set_attrs r t xs s) \<and> same_shape_s s (set_attrs r t xs s)"
  using assms
proof (induction xs arbitrary: s)
  case (Cons a xs)
  obtain i v where a: "a = (i, v)" by fastforce
  define s1 where "s1 = sse_event_set_attr r i v t s"
  obtain L where "sse_view s L" using Cons.prems(1) by (auto simp: sse_inv_def)
  then have "sse_view s1 L" unfolding s1_def using Cons.prems(2) a by (intro view_set_attr) auto
  then have "sse_inv s1" by (auto simp: sse_inv_def)
  moreover have "enabled (events s1 r) = enabled (events s r)" "shs_ptr s1 = shs_ptr s"
    using set_attr_keeps(1) [of s r i v t] set_attr_keeps(2) [of r i v t s] by (simp_all add: s1_def enabled_def same_shape_s_def)
  ultimately have "sse_inv (set_attrs r t xs s1) \<and> same_shape_s s1 (set_attrs r t xs s1)"
    using Cons.prems(2) by (intro Cons.IH) auto
  then show ?case using set_attr_keeps(1) [of s r i v t] shape_trans by (auto simp: a s1_def)
qed simp

lemma check_attrs_ok: "check_attrs self e h xs = 0 \<Longrightarrow> (i, v) \<in> set xs \<Longrightarrow> sse_event_set_attr_check self e i v h = 0"
  by (induction xs rule: check_attrs.induct) (auto simp: Let_def split: if_splits)

lemma ok_write_attrs:
  assumes ok: "sse_ok g"
  shows "sse_ok (snd (sse_write_attrs self r b c p m m g)) \<and>
    shs_ptr (client (snd (sse_write_attrs self r b c p m m g))) = shs_ptr (client g)"
proof (cases "check_attrs self (events (client g) r) (ipi_hsm g) (attr_pass b c p m) = 0")
  case True
  have "sse_inv (set_attrs r (ipi_tab g) (attr_pass b c p m) (client g)) \<and>
      same_shape_s (client g) (set_attrs r (ipi_tab g) (attr_pass b c p m) (client g))"
  proof (rule inv_set_attrs)
    show "sse_inv (client g)" using ok by (simp add: sse_ok_def)
    show "\<forall>(i, v)\<in>set (attr_pass b c p m).
        (i = SBI_SSE_ATTR_PRIO \<or> i = SBI_SSE_ATTR_PREFERRED_HART \<longrightarrow> \<not> enabled (events (client g) r)) \<and>
        (i = SBI_SSE_ATTR_PREFERRED_HART \<longrightarrow> shs_ptr (client g) (unat (sbi_hartid_to_hartindex (ipi_tab g) (ucast v))))"
      using check_attr_ok [OF check_attrs_ok [OF True]] ok unfolding sse_ok_def by blast
  qed
  then show ?thesis using True ok_client [OF ok] by (auto simp: sse_write_attrs_def upd_client_def same_shape_s_def)
qed (use ok in \<open>simp add: sse_write_attrs_def\<close>)


subsection \<open>Runs\<close>

text \<open>
  The steps of the layer: an SBI call of a hart whose SSE state exists (S-mode memory does not change during the call), the
  delivery of pending events on the way out of a trap, the inject IPI, and an injection by the firmware.
\<close>

inductive sse_step :: "sse_globals \<Rightarrow> sse_globals \<Rightarrow> bool" where
  ecall: "shs_ptr (client g) self \<Longrightarrow> sbi_ecall_sse_handler self funcid a regs m m g = Some (ret, skip, regs', m', g') \<Longrightarrow>
    sse_step g g'"
| deliver: "shs_ptr (client g) self \<Longrightarrow> sbi_sse_process_pending_events self hid regs (client g) = Some (regs', s') \<Longrightarrow>
    sse_step g (g\<lparr>client := s'\<rparr>)"
| ipi: "sse_step g (upd_client (sse_ipi_inject_process self) g)"
| inject: "sbi_sse_inject_event self i g = Some (ret, g') \<Longrightarrow> sse_step g g'"

lemma shape_disable [simp]: "same_shape_s s (snd (sse_event_disable r s'))= same_shape_s s s'"
  by (simp add: sse_event_disable_def Let_def sse_event_remove_from_list_def)

lemma shape_inject: "same_shape_s s (snd (sse_event_inject self hid r regs s))"
  by (simp add: sse_event_inject_def Let_def)

lemma shape_complete: "same_shape_s s (snd (snd (snd (sse_event_complete self hid r regs s))))"
  by (simp add: sse_event_complete_def Let_def sse_event_resume_def split_def)

lemma ok_client_op:
  assumes "sse_ok g" and "sse_inv (client g) \<Longrightarrow> sse_inv s" and "same_shape_s (client g) s"
  shows "sse_ok (g\<lparr>client := s\<rparr>)"
  using assms by (intro ok_client) (simp_all add: sse_ok_def)

lemma ok_deliver:
  assumes "sse_ok g" and "shs_ptr (client g) self"
    and "sbi_sse_process_pending_events self hid regs (client g) = Some (regs', s')"
  shows "sse_ok (g\<lparr>client := s'\<rparr>)"
proof -
  obtain L where v: "sse_view (client g) L" using assms(1) by (auto simp: sse_ok_def sse_inv_def)
  have "sse_inv s'" using inv_process_pending [of "client g" self hid regs] assms by (auto simp: sse_ok_def)
  moreover have "same_shape_s (client g) s'"
  proof (cases "masked (client g) self")
    case True
    then show ?thesis using assms(3) by (simp add: sbi_sse_process_pending_events_def)
  next
    case False
    show ?thesis
      using assms(3) unfolding process_pending_eq [OF v assms(2) False]
      by (auto split: option.splits if_splits) (metis shape_inject snd_conv)
  qed
  ultimately show ?thesis using ok_client [OF assms(1)] by simp
qed

lemma ok_complete:
  assumes "sse_ok g" and "shs_ptr (client g) self"
    and "sbi_sse_complete self hid regs (client g) = Some (ret, skip, regs', s')"
  shows "sse_ok (g\<lparr>client := s'\<rparr>)"
proof -
  obtain L where v: "sse_view (client g) L" using assms(1) by (auto simp: sse_ok_def sse_inv_def)
  have "sse_inv (client g)" using assms(1) by (simp add: sse_ok_def)
  then have "sse_inv s' \<and> same_shape_s (client g) s'"
    using assms(3) unfolding complete_eq [OF v assms(2)]
    by (auto split: option.splits) (metis inv_complete snd_conv, metis shape_complete snd_conv)
  then show ?thesis using ok_client [OF assms(1)] by simp
qed

lemma ok_call_s:
  assumes ok: "sse_ok g"
  shows "sse_ok (g\<lparr>client := snd (sbi_sse_unregister self i (client g))\<rparr>)" "sse_ok (g\<lparr>client := snd (sbi_sse_disable self i (client g))\<rparr>)"
    "sse_ok (g\<lparr>client := snd (sbi_sse_hart_mask self (client g))\<rparr>)" "sse_ok (g\<lparr>client := snd (sbi_sse_hart_unmask self (client g))\<rparr>)"
proof -
  show "sse_ok (g\<lparr>client := snd (sbi_sse_unregister self i (client g))\<rparr>)"
    using ok ok_client_op [OF ok inv_unregister]
    by (simp add: sbi_sse_unregister_def sse_event_unregister_def Let_def split: prod.split option.split)
  show "sse_ok (g\<lparr>client := snd (sbi_sse_disable self i (client g))\<rparr>)"
    using ok ok_client_op [OF ok inv_disable] by (simp add: sbi_sse_disable_def split: prod.split option.split)
  show "sse_ok (g\<lparr>client := snd (sbi_sse_hart_mask self (client g))\<rparr>)" "sse_ok (g\<lparr>client := snd (sbi_sse_hart_unmask self (client g))\<rparr>)"
    by (rule ok_client_op [OF ok]; simp add: sbi_sse_hart_mask_def sbi_sse_hart_unmask_def)+
qed

end
