(* ===== verification/Sbi_Sse_Spec.thy ===== *)
theory Sbi_Sse_Spec
  imports Sbi_Sse_Steps
begin

unbundle bit_operations_syntax

text \<open>
  The properties of supervisor software events: the invariant over runs, delivery in priority order, the round trip through a
  handler, and the places where the code falls short.
\<close>

lemma ok_register:
  assumes ok: "sse_ok g" and "sbi_sse_register self i pc arg g = Some (ret, g')"
  shows "sse_ok g'"
proof -
  have "sse_ok (g\<lparr>client := snd (sse_event_register r pc arg (client g))\<rparr>)" for r
    by (rule ok_client_op [OF ok inv_register]) (simp_all add: sse_event_register_def Let_def)
  then show ?thesis
    using assms by (auto simp: sbi_sse_register_def Let_def split_def split: if_splits option.splits)
qed

lemma ok_write:
  assumes ok: "sse_ok g" and "sbi_sse_write_attrs self i b c lo hi m m g = Some (ret, g')"
  shows "sse_ok g'"
  using assms ok_write_attrs [OF ok, of self _ b c lo m]
  by (auto simp: sbi_sse_write_attrs_def split: if_splits option.splits prod.splits) (metis snd_conv)

lemma ok_ecall:
  assumes ok: "sse_ok g" and self: "shs_ptr (client g) self"
    and call: "sbi_ecall_sse_handler self funcid a regs m m g = Some (ret, skip, regs', m', g')"
  shows "sse_ok g'"
proof -
  note defs = sbi_ecall_sse_handler_def Let_def sse_ret_def sse_ret_s_def
  consider "funcid = 0" | "funcid = 1" | "funcid = 2" | "funcid = 3" | "funcid = 4" | "funcid = 5" | "funcid = 6" | "funcid = 7"
    | "funcid = 8" | "funcid = 9" | "funcid \<notin> {0, 1, 2, 3, 4, 5, 6, 7, 8, 9}" by blast
  then show ?thesis
  proof cases
    case 1 then show ?thesis using call ok by (auto simp: defs)
  next
    case 2 then show ?thesis using call ok_write [OF ok] by (auto simp: defs)
  next
    case 3 then show ?thesis using call ok_register [OF ok] by (auto simp: defs)
  next
    case 4 then show ?thesis using call ok_call_s(1) [OF ok, of self "ucast (a 0)"] by (auto simp: defs split: prod.splits)
  next
    case 5 then show ?thesis using call ok_enable [OF ok self, of "ucast (a 0)"] by (auto simp: defs)
  next
    case 6 then show ?thesis using call ok_call_s(2) [OF ok, of self "ucast (a 0)"] by (auto simp: defs split: prod.splits)
  next
    case 7 then show ?thesis using call ok_complete [OF ok self] by (auto simp: defs)
  next
    case 8 then show ?thesis
      using call ok_inject [OF ok, of self "ucast (a 0)" "a 1"] ok
      by (auto simp: defs sbi_sse_inject_from_ecall_def split: if_splits)
  next
    case 9 then show ?thesis using call ok_call_s(4) [OF ok, of self] by (auto simp: defs split: prod.splits)
  next
    case 10 then show ?thesis using call ok_call_s(3) [OF ok, of self] by (auto simp: defs split: prod.splits)
  next
    case 11 then show ?thesis using call ok by (auto simp: defs)
  qed
qed

lemma ok_step: "sse_step g g' \<Longrightarrow> sse_ok g \<Longrightarrow> sse_ok g'"
proof (induction rule: sse_step.induct)
  case (ecall g self funcid a regs m ret skip regs' m' g')
  then show ?case using ok_ecall by blast
next
  case (deliver g self hid regs regs' s')
  then show ?case using ok_deliver by blast
next
  case (ipi g self)
  then show ?case
    unfolding upd_client_def using inject_drain_keeps [of "client g" _ self]
    by (intro ok_client_op) (simp_all add: sse_ipi_inject_process_def sse_ok_def)
next
  case (inject self i g ret g')
  then show ?case using ok_inject [of g self i "ucast (current_hartid (ipi_tab g) self)"] by (auto simp: sbi_sse_inject_event_def)
qed

lemma ok_steps: "sse_step\<^sup>*\<^sup>* g g' \<Longrightarrow> sse_ok g \<Longrightarrow> sse_ok g'"
  by (induction rule: rtranclp_induct) (auto intro: ok_step)

subsection \<open>An example machine\<close>

text \<open>Two harts, one global software event and a local software event on each hart.\<close>

definition ex_node :: "event_ref \<Rightarrow> ulong" where
  "ex_node r = (case r of Global i \<Rightarrow> 0x1000 | Local h i \<Rightarrow> if h = 0 then 0x1100 else 0x1200)"

definition ex_ref :: "ulong \<Rightarrow> event_ref" where
  "ex_ref p = (if p = 0x1000 then Global 0 else if p = 0x1100 then Local 0 0 else Local 1 0)"

definition ex_event :: "ulong \<Rightarrow> event_ref \<Rightarrow> sbi_sse_event" where
  "ex_event gst r = zero_event\<lparr>event_id := (case r of Global _ \<Rightarrow> 0xffff8000 | Local _ _ \<Rightarrow> 0xffff0000),
    at_status := (case r of Global _ \<Rightarrow> gst | Local _ _ \<Rightarrow> 8),
    hartindex := (case r of Global _ \<Rightarrow> 1 | Local h _ \<Rightarrow> of_nat h),
    at_hartid := (case r of Global _ \<Rightarrow> 1 | Local h _ \<Rightarrow> of_nat h)\<rparr>"

definition ex_sse :: "ulong \<Rightarrow> sse_state" where
  "ex_sse gst = \<lparr>supported_events = [0xffff0000, 0xffff8000], global_event_count = 1, local_event_count = 1,
    events = ex_event gst, dl = \<lparr>nxt = id, prv = id\<rparr>, node_of = ex_node, head_of = (\<lambda>h. if h = 0 then 0x2000 else 0x2100),
    ref_at = ex_ref, shs_ptr = (\<lambda>h. h < 2), masked = (\<lambda>_. False),
    inject_fifo = (\<lambda>_. sbi_fifo_init (replicate 12 0) 3 4), sse_ipi_inject_event = 0, shs_ptr_off = 120,
    sse_inject_fifo_off = 128, sse_inject_fifo_mem_off = 152, csrs = (\<lambda>_. \<lparr>c_sepc = 0, c_hstatus = 0\<rparr>), misa_H = True, cb_log = []\<rparr>"

definition ex_sse_g :: "sse_globals" where
  "ex_sse_g = \<lparr>ipi_hsm = ex_hsm 0, ipi_type = (\<lambda>_. 0), ipi_ops_array = (\<lambda>e. if e = 0 then Some sse_ipi_inject_ops else None),
    dev_ipi_send = True, dev_ipi_clear = True, ipi_pending = (\<lambda>_. False), client = ex_sse 8\<rparr>"

lemma ex_state: "sse_event_state (ex_event gst r) = (case r of Global _ \<Rightarrow> gst AND 3 | Local _ _ \<Rightarrow> 0)"
  by (simp add: ex_event_def state_bits(1) split: event_ref.split)

lemma ex_sse_view: "gst AND 3 < 2 \<Longrightarrow> sse_view (ex_sse gst) (\<lambda>_. [])"
proof -
  assume g: "gst AND 3 < 2"
  have ne: "\<not> enabled (events (ex_sse gst) r)" for r
    using g by (cases r) (simp_all add: ex_sse_def enabled_def ex_state linorder_not_le)
  have vr: "valid_ref (ex_sse gst) r \<longleftrightarrow> r = Global 0 \<or> r = Local 0 0 \<or> r = Local 1 0" for r
    by (cases r) (auto simp: valid_ref_def ex_sse_def less_2_cases_iff)
  have "layout (ex_sse gst)"
    unfolding layout_def vr by (auto simp: ex_sse_def ex_node_def ex_ref_def inj_on_def less_2_cases_iff)
  moreover have "rings (ex_sse gst) (\<lambda>_. [])" by (simp add: rings_def ex_sse_def dlist_def)
  moreover have "listed (ex_sse gst) (\<lambda>_. [])" by (simp add: listed_def ne)
  moreover have "placed (ex_sse gst)"
    unfolding placed_def vr using ne by (auto simp: ex_sse_def ex_event_def)
  ultimately show ?thesis by (simp add: sse_view_def ordered_def)
qed

lemma ex_sse_ok: "sse_ok ex_sse_g"
proof -
  have "sse_inv (ex_sse 8)" using ex_sse_view [of 8] by (auto simp: sse_inv_def)
  moreover have "unat i < 2" if "sbi_hartindex_to_scratch ex_scratch i \<noteq> 0" for i :: u32
    using that by (auto simp: sbi_hartindex_to_scratch_def ex_scratch_def word_le_nat_alt split: if_splits)
  ultimately show ?thesis
    by (auto simp: sse_ok_def ex_sse_g_def ex_sse_def hsm_hart_get_state_def ex_hsm_tabs split: if_splits)
qed


subsection \<open>Properties\<close>

text \<open>C23: Over any run of SBI calls of any harts, deliveries, inject IPIs and firmware injections, each hart's ring of list nodes stays
  intact and holds exactly the events that are enabled or running and prefer this hart, sorted by priority and event id.\<close>

theorem sse_lists_invariant:
  assumes "sse_ok g" and "sse_step\<^sup>*\<^sup>* g g'"
  shows "\<exists>L. \<forall>h. (shs_ptr (client g') h \<longrightarrow> sbi_list_for_each (dl (client g')) (head_of (client g') h) = Some (map (node_of (client g')) (L h))) \<and>
    set (L h) = {r. SBI_SSE_STATE_ENABLED \<le> sse_event_state (events (client g') r) \<and> unat (hartindex (events (client g') r)) = h} \<and>
    sorted_wrt (\<lambda>a b. \<not> ev_before (events (client g') b) (events (client g') a)) (L h)"
proof -
  have "sse_ok g'" using ok_steps [OF assms(2,1)] .
  then obtain L where "sse_view (client g') L" by (auto simp: sse_ok_def sse_inv_def)
  then show ?thesis
    by (intro exI [of _ L]) (auto simp: sse_view_def rings_def listed_def ordered_def enabled_def intro: sbi_list_for_each_eq)
qed

theorem sse_lists_invariant_witness:
  "\<exists>g'. sse_step\<^sup>*\<^sup>* ex_sse_g g' \<and> sse_ok ex_sse_g \<and> masked (client g') 0 \<and>
    (\<exists>L. \<forall>h. set (L h) = {r. SBI_SSE_STATE_ENABLED \<le> sse_event_state (events (client g') r) \<and> unat (hartindex (events (client g') r)) = h})"
proof -
  let ?regs = "\<lparr>mepc = 0, mstatus = 0, a6 = 0, a7 = 0\<rparr>" and ?g = "ex_sse_g\<lparr>client := (ex_sse 8)\<lparr>masked := (masked (ex_sse 8))(0 := True)\<rparr>\<rparr>"
  have "sse_step ex_sse_g ?g"
    by (rule sse_step.ecall [where self = 0 and funcid = 9 and regs = ?regs and regs' = ?regs and ret = 0 and skip = False
        and m = "\<lambda>_. 0" and m' = "\<lambda>_. 0" and a = "\<lambda>_. 0"])
      (simp_all add: ex_sse_g_def ex_sse_def sbi_ecall_sse_handler_def Let_def sse_ret_s_def sbi_sse_hart_mask_def)
  then have "sse_step\<^sup>*\<^sup>* ex_sse_g ?g" by blast
  then show ?thesis using sse_lists_invariant [OF ex_sse_ok, of ?g] ex_sse_ok by (intro exI [of _ ?g]) auto
qed

text \<open>C24: On an unmasked hart the delivery always returns and looks at the hart's enabled events in priority order: if the first one
  that runs or is ready runs, nothing happens (an event never interrupts one of higher or equal priority); if it is ready, exactly
  this event is injected; if there is none, nothing happens.\<close>

theorem sse_delivers_highest:
  assumes "sse_inv s" and "shs_ptr s self" and "\<not> masked s self"
  defines "cand \<equiv> \<lambda>r. enabled (events s r) \<and> unat (hartindex (events s r)) = self"
  shows "\<exists>regs' s'. sbi_sse_process_pending_events self hid regs s = Some (regs', s') \<and>
    ((\<forall>r. cand r \<longrightarrow> \<not> deciding hid (events s r)) \<and> (regs', s') = (regs, s) \<or>
     (\<exists>r. cand r \<and> deciding hid (events s r) \<and> (\<forall>x. cand x \<and> deciding hid (events s x) \<longrightarrow> \<not> ev_before (events s x) (events s r)) \<and>
        (regs', s') = (if sse_event_state (events s r) = SBI_SSE_STATE_RUNNING then (regs, s)
                       else sse_event_inject self hid r regs s)))"
proof -
  obtain L where v: "sse_view s L" using assms(1) by (auto simp: sse_inv_def)
  have cand: "cand r \<longleftrightarrow> r \<in> set (L self)" for r using v by (auto simp: cand_def sse_view_def listed_def)
  have srt: "sorted_wrt (\<lambda>a b. \<not> ev_before (events s b) (events s a)) (L self)" using v by (simp add: sse_view_def ordered_def)
  show ?thesis
  proof (cases "List.find (\<lambda>x. deciding hid (events s x)) (L self)")
    case None
    then have "sbi_sse_process_pending_events self hid regs s = Some (regs, s)"
      using process_pending_eq [OF v assms(2,3), of hid regs] by simp
    moreover have "\<forall>r. cand r \<longrightarrow> \<not> deciding hid (events s r)" using None by (simp add: cand find_None_iff)
    ultimately show ?thesis by simp
  next
    case (Some r)
    then obtain i where i: "i < length (L self)" "r = L self ! i" "deciding hid (events s r)"
        "\<forall>j<i. \<not> deciding hid (events s (L self ! j))" by (auto simp: find_Some_iff)
    have first: "\<not> ev_before (events s x) (events s r)" if x: "x \<in> set (L self)" "deciding hid (events s x)" for x
    proof -
      obtain j where j: "j < length (L self)" "x = L self ! j" using x(1) unfolding in_set_conv_nth by blast
      have "\<not> j < i" using i(4) x(2) j(2) by blast
      then show ?thesis
        using sorted_wrt_nth_less [OF srt, of i j] i(2) j by (cases "i = j") (simp_all add: ev_before_def)
    qed
    have "r \<in> set (L self)" using i by simp
    then have c: "cand r \<and> deciding hid (events s r) \<and> (\<forall>x. cand x \<and> deciding hid (events s x) \<longrightarrow> \<not> ev_before (events s x) (events s r))"
      using i(3) first by (simp add: cand)
    obtain regs' s' where res: "(if sse_event_state (events s r) = SBI_SSE_STATE_RUNNING then (regs, s)
        else sse_event_inject self hid r regs s) = (regs', s')" by (meson surj_pair)
    then have "sbi_sse_process_pending_events self hid regs s = Some (regs', s')"
      using process_pending_eq [OF v assms(2,3), of hid regs] Some by simp
    then show ?thesis using c res by metis
  qed
qed

theorem sse_delivers_highest_witness:
  "\<exists>regs' s'. sbi_sse_process_pending_events 0 0 \<lparr>mepc = 0, mstatus = 0, a6 = 0, a7 = 0\<rparr> (ex_sse 8) = Some (regs', s')"
proof -
  have "sse_inv (ex_sse 8)" using ex_sse_view [of 8] by (auto simp: sse_inv_def)
  moreover have "shs_ptr (ex_sse 8) 0" "\<not> masked (ex_sse 8) 0" by (simp_all add: ex_sse_def)
  ultimately show ?thesis using sse_delivers_highest by blast
qed

text \<open>C25: A handler that leaves the registers alone is transparent: injecting an event and resuming from it gives back the trap
  registers and the CSRs of the interrupted context, for a trap from U- or S-mode, when the hypervisor extension is absent (and
  MPV clear), or the context was virtual, or \<open>hstatus.SPV\<close> was clear.\<close>

theorem sse_inject_resume_roundtrip:
  assumes "sse_event_inject self hid r regs s = (regs1, s1)" and "\<not> bit (mstatus regs) 12"
    and "if misa_H s then bit (mstatus regs) 39 \<or> \<not> bit (c_hstatus (csrs s self)) 7 else \<not> bit (mstatus regs) 39"
  shows "fst (sse_event_resume self r regs1 s1) = regs \<and> csrs (snd (sse_event_resume self r regs1 s1)) self = csrs s self"
  using inject_resume [OF assms] by blast

theorem sse_inject_resume_roundtrip_witness:
  "fst (sse_event_resume 0 (Local 0 0) (fst (sse_event_inject 0 0 (Local 0 0) \<lparr>mepc = 0x80300000, mstatus = 0x8A0, a6 = 1, a7 = 2\<rparr> (ex_sse 8)))
     (snd (sse_event_inject 0 0 (Local 0 0) \<lparr>mepc = 0x80300000, mstatus = 0x8A0, a6 = 1, a7 = 2\<rparr> (ex_sse 8)))) =
   \<lparr>mepc = 0x80300000, mstatus = 0x8A0, a6 = 1, a7 = 2\<rparr>"
  using sse_inject_resume_roundtrip [OF prod.collapse [symmetric], of "\<lparr>mepc = 0x80300000, mstatus = 0x8A0, a6 = 1, a7 = 2\<rparr>" "ex_sse 8" 0]
  by (simp add: ex_sse_def)

text \<open>The condition on \<open>hstatus.SPV\<close> is needed: \<open>sse_event_inject\<close> sets SPV when the interrupted context was virtual but does
  not clear it otherwise. So when an event interrupts the hypervisor while \<open>hstatus.SPV\<close> is set, \<open>sse_event_resume\<close> returns
  with MPV set, that is to a virtual mode instead of to the hypervisor.\<close>

theorem sse_resume_virtual:
  assumes "misa_H s" and "\<not> bit (mstatus regs) 39" and "bit (c_hstatus (csrs s self)) 7"
    and "sse_event_inject self hid r regs s = (regs1, s1)"
  shows "bit (mstatus (fst (sse_event_resume self r regs1 s1))) 39"
  using bit_MPV_lost [OF assms(2,3)] inject_result [OF assms(4)] assms(1)
  by (simp add: sse_event_resume_def Let_def)

theorem sse_resume_virtual_witness:
  "\<exists>regs1 s1. sse_event_inject 0 0 (Local 0 0) \<lparr>mepc = 0, mstatus = 0x800, a6 = 0, a7 = 0\<rparr>
      ((ex_sse 8)\<lparr>csrs := \<lambda>_. \<lparr>c_sepc = 0, c_hstatus = 0x80\<rparr>\<rparr>) = (regs1, s1) \<and>
    bit (mstatus (fst (sse_event_resume 0 (Local 0 0) regs1 s1))) 39"
proof -
  let ?s = "(ex_sse 8)\<lparr>csrs := \<lambda>_. \<lparr>c_sepc = 0, c_hstatus = 0x80\<rparr>\<rparr>" and ?regs = "\<lparr>mepc = 0, mstatus = 0x800, a6 = 0, a7 = 0\<rparr>"
  obtain regs1 s1 where i: "sse_event_inject 0 0 (Local 0 0) ?regs ?s = (regs1, s1)" by fastforce
  moreover have "misa_H ?s" "\<not> bit (mstatus ?regs) 39" "bit (c_hstatus (csrs ?s 0)) 7" by (simp_all add: ex_sse_def)
  ultimately show ?thesis using sse_resume_virtual [of ?s ?regs 0 0 "Local 0 0" regs1 s1] by blast
qed


lemma ex_hart_check:
  "sbi_hartid_to_hartindex ex_scratch 0 = 0" "sbi_hartid_to_hartindex ex_scratch 7 = -1"
  "sse_event_set_attr_check 0 (ex_event 8 (Global 0)) 3 0 (ex_hsm 0) = 0"
  "sse_event_set_attr_check 0 (ex_event 8 (Global 0)) 3 7 (ex_hsm 0) = SBI_EINVAL"
  "sse_event_set_attr_check 0 (ex_event 8 (Global 0)) 3 0x100000000 (ex_hsm 0) = 0"
proof -
  show i: "sbi_hartid_to_hartindex ex_scratch 0 = 0" "sbi_hartid_to_hartindex ex_scratch 7 = -1"
    by (simp_all add: sbi_hartid_to_hartindex_def ex_scratch_def)
  have d: "sbi_hartindex_to_domain (hsm_doms (ex_hsm st)) 0 = Some 0" for st
    by (simp add: ex_hsm_def ex_domains_def sbi_hartindex_to_domain_def sbi_hartindex_to_scratch_def ex_scratch_def)
  have g: "sse_event_is_global (ex_event 8 (Global 0))"
    by (simp add: sse_event_is_global_def EVENT_IS_GLOBAL_def ex_event_def)
  have h: "hsm_hart_get_state (ex_hsm 0) 0 = 0" by (simp add: hsm_hart_get_state_def ex_hsm_tabs ex_hsm_fields)
  have u: "(4294967296 :: u32) = 0" "0 < unat (-1 :: u32)" by (simp_all add: unat_gt_0)
  note s = sse_event_set_attr_check_def sse_event_set_hart_id_check_def ex_state sbi_hsm_hart_get_state_def Let_def
  show "sse_event_set_attr_check 0 (ex_event 8 (Global 0)) 3 0 (ex_hsm 0) = 0"
    "sse_event_set_attr_check 0 (ex_event 8 (Global 0)) 3 7 (ex_hsm 0) = SBI_EINVAL"
    "sse_event_set_attr_check 0 (ex_event 8 (Global 0)) 3 0x100000000 (ex_hsm 0) = 0"
    by (simp_all add: s i d g h u ex_hsm_tabs)
qed

lemma ex_pass: "attr_pass 3 1 0 m = [(3, m 0)]"
  by (simp add: attr_pass_def)

lemma ex_write:
  "sse_write_attrs 0 (Global 0) 3 1 0 m1 m2 ex_sse_g =
    (let ret = sse_event_set_attr_check 0 (ex_event 8 (Global 0)) 3 (m1 0) (ex_hsm 0)
     in if ret \<noteq> 0 then (ret, ex_sse_g)
        else (0, ex_sse_g\<lparr>client := sse_event_set_attr (Global 0) 3 (m2 0) ex_scratch (ex_sse 8)\<rparr>))"
  by (simp add: sse_write_attrs_def ex_pass ex_sse_g_def upd_client_def ex_hsm_tabs Let_def) (simp add: ex_sse_def)

text \<open>The check of the preferred hart can be bypassed in two ways. The attributes are read from S-mode memory once for the check
  and again for the update, so another hart can put a hart id in between that the check refuses, and the event is then owned by a
  hart that does not exist. And the check looks at the low 32 bits of the value while the update stores all of it, so a hart id
  plus \<open>2^32\<close> is accepted and the event is never ready on any hart.\<close>

theorem sse_preferred_hart_unchecked:
  "fst (sse_write_attrs 0 (Global 0) 3 1 0 (\<lambda>_. 7) (\<lambda>_. 7) ex_sse_g) = SBI_EINVAL \<and>
   fst (sse_write_attrs 0 (Global 0) 3 1 0 (\<lambda>_. 0) (\<lambda>_. 7) ex_sse_g) = 0 \<and>
   hartindex (events (client (snd (sse_write_attrs 0 (Global 0) 3 1 0 (\<lambda>_. 0) (\<lambda>_. 7) ex_sse_g))) (Global 0)) = -1 \<and>
   fst (sse_write_attrs 0 (Global 0) 3 1 0 (\<lambda>_. 0x100000000) (\<lambda>_. 0x100000000) ex_sse_g) = 0 \<and>
   (\<forall>hid. \<not> sse_event_is_ready hid
     (events (client (snd (sse_write_attrs 0 (Global 0) 3 1 0 (\<lambda>_. 0x100000000) (\<lambda>_. 0x100000000) ex_sse_g))) (Global 0)))"
proof -
  have "at_hartid (events (sse_event_set_attr (Global 0) 3 0x100000000 ex_scratch (ex_sse 8)) (Global 0)) = 0x100000000"
    by (simp add: sse_event_set_attr_def sse_event_invoke_cb_def)
  moreover have "(0x100000000 :: ulong) \<noteq> ucast (hid :: u32)" for hid
  proof
    assume "(0x100000000 :: ulong) = ucast hid"
    then have "unat (0x100000000 :: ulong) = unat (ucast hid :: ulong)" by simp
    then show False using unat_u32_lt [of hid] by (simp add: unat_ucast_up)
  qed
  moreover have "hartindex (events (sse_event_set_attr (Global 0) 3 7 ex_scratch (ex_sse 8)) (Global 0)) = -1"
    by (simp add: sse_event_set_attr_def sse_event_invoke_cb_def ex_hart_check)
  ultimately show ?thesis by (simp add: ex_write ex_hart_check Let_def sse_event_is_ready_def)
qed

lemma list_visit_loop:
  assumes "nxt s x = x" and "x \<noteq> h"
  shows "list_visit s h x = None"
proof (rule ccontr)
  assume "list_visit s h x \<noteq> None"
  then obtain ys where "list_visit s h x = Some ys" by blast
  then have "\<not> (nxt s x = x \<and> x \<noteq> h)"
    by (induction rule: list_visit.raw_induct [rotated, consumes 1]) (auto split: if_splits bind_splits)
  then show False using assms by simp
qed

text \<open>Insertion into an empty ring, and a second insertion of the only node of a ring.\<close>

lemma add_tail_nxt:
  "nxt (sbi_list_add_tail n head d) = (nxt d)(n := head, prv d head := n)"
  "prv (sbi_list_add_tail n head d) = (prv d)(n := prv d head, head := n)"
  by (simp_all add: sbi_list_add_tail_def sbi_list_add_between_def)

lemma add_to_empty:
  assumes "head = head_of s (unat (hartindex (events s r)))" and "nxt (dl s) head = head"
  shows "sse_event_add_to_list r s = Some (s\<lparr>dl := sbi_list_add_tail (node_of s r) head (dl s)\<rparr>)"
proof -
  have "add_position s (events s r) head (nxt (dl s) head) = Some head"
    using assms(2) by (subst add_position.simps) simp
  then show ?thesis
    using assms by (simp add: sse_event_add_to_list_def Let_def)
qed

lemma add_twice:
  assumes "head = head_of s (unat (hartindex (events s r)))" and "ref_at s (node_of s r) = r" and "node_of s r \<noteq> head"
    and "nxt (dl s) head = node_of s r" "nxt (dl s) (node_of s r) = head"
  shows "sse_event_add_to_list r s = Some (s\<lparr>dl := sbi_list_add_tail (node_of s r) head (dl s)\<rparr>)"
proof -
  have "add_position s (events s r) head head = Some head" by (subst add_position.simps) simp
  then have "add_position s (events s r) head (node_of s r) = Some head"
    using assms by (subst add_position.simps) simp
  then show ?thesis
    using assms by (simp add: sse_event_add_to_list_def Let_def)
qed

lemma enable_quiet:
  assumes "sse_event_state (events (client g) r) = SBI_SSE_STATE_REGISTERED" and "\<not> sse_event_pending (events (client g) r)"
    and "sse_event_add_to_list r (upd_ev r (sse_event_set_state SBI_SSE_STATE_ENABLED) (client g)) = Some (s1\<lparr>dl := d\<rparr>)"
    and "s1 = upd_ev r (sse_event_set_state SBI_SSE_STATE_ENABLED) (client g)"
  shows "sse_event_enable self r g = Some (0, g\<lparr>client := sse_event_invoke_cb r Enable_cb (s1\<lparr>dl := d\<rparr>)\<rparr>)"
  using assms by (simp add: sse_event_enable_def Let_def sse_event_invoke_cb_def)

text \<open>\<open>sbi_sse_exit\<close> marks an enabled event of the exiting hart as unused but leaves its node in the hart's list. When another hart
  registers and enables this global event again, the node is inserted a second time and points to itself: every walk over
  the list then runs forever, with the list's lock held.\<close>

theorem sse_exit_stale_node:
  "\<exists>g1 g2. sse_event_enable 0 (Global 0) (ex_sse_g\<lparr>client := ex_sse 9\<rparr>) = Some (0, g1) \<and>
    sse_event_enable 0 (Global 0) (g1\<lparr>client := snd (sse_event_register (Global 0) 0 0 (sbi_sse_exit 1 1 (client g1)))\<rparr>) = Some (0, g2) \<and>
    sbi_list_for_each (dl (client g2)) (head_of (client g2) 1) = None"
proof -
  let ?g0 = "ex_sse_g\<lparr>client := ex_sse 9\<rparr>" and ?E = "sse_event_set_state SBI_SSE_STATE_ENABLED"
  define s1 where "s1 = upd_ev (Global 0) ?E (ex_sse 9)"
  have x: "ex_node (Global 0) = 0x1000" "hartindex (ex_event 9 (Global 0)) = 1" "at_hartid (ex_event 9 (Global 0)) = 1"
    "event_id (ex_event 9 (Global 0)) = 0xffff8000" "sse_event_state (ex_event 9 (Global 0)) = 1"
    "\<not> sse_event_pending (ex_event 9 (Global 0))"
    by (simp_all add: ex_node_def ex_event_def state_bits)
  have f1: "dl s1 = \<lparr>nxt = id, prv = id\<rparr>" "node_of s1 = ex_node" "head_of s1 1 = 0x2100" "events s1 (Global 0) = ?E (ex_event 9 (Global 0))"
    "ref_at s1 0x1000 = Global 0"
    by (simp_all add: s1_def ex_sse_def ex_ref_def)
  define d where "d = sbi_list_add_tail 0x1000 0x2100 \<lparr>nxt = id, prv = id\<rparr>"
  have d: "nxt d 0x2100 = 0x1000" "nxt d 0x1000 = 0x2100" "prv d 0x2100 = 0x1000"
    by (simp_all add: d_def add_tail_nxt)
  have "sse_event_add_to_list (Global 0) s1 = Some (s1\<lparr>dl := d\<rparr>)"
    using add_to_empty [of "0x2100" s1 "Global 0"] f1(3) by (simp add: f1 x d_def)
  define g1 where "g1 = ?g0\<lparr>client := sse_event_invoke_cb (Global 0) Enable_cb (s1\<lparr>dl := d\<rparr>)\<rparr>"
  have 1: "sse_event_enable 0 (Global 0) ?g0 = Some (0, g1)"
    unfolding g1_def using \<open>sse_event_add_to_list (Global 0) s1 = _\<close>
    by (intro enable_quiet) (simp_all add: s1_def, simp_all add: ex_sse_def x)
  have c1: "dl (client g1) = d" "node_of (client g1) = ex_node" "head_of (client g1) 1 = 0x2100" "ref_at (client g1) 0x1000 = Global 0"
    "events (client g1) = (ex_event 9)(Global 0 := ?E (ex_event 9 (Global 0)))"
    by (simp_all add: g1_def f1 s1_def sse_event_invoke_cb_def) (simp_all add: ex_sse_def ex_ref_def upd_ev_def)
  have ex: "sbi_sse_exit 1 1 (client g1) = upd_ev (Global 0) (sse_event_set_state SBI_SSE_STATE_UNUSED) (client g1)"
  proof -
    have "supported_events (client g1) = [0xffff0000, 0xffff8000]" "global_event_count (client g1) = 1" "local_event_count (client g1) = 1"
      by (simp_all add: g1_def s1_def sse_event_invoke_cb_def upd_ev_def) (simp_all add: ex_sse_def)
    moreover from this have "sse_event_get 1 0xffff0000 (client g1) = (SBI_OK, Some (Local 1 0))"
      "sse_event_get 1 0xffff8000 (client g1) = (SBI_OK, Some (Global 0))"
      by (simp_all add: sse_event_get_def EVENT_IS_GLOBAL_def c1 x, simp add: ex_event_def)
    moreover have "sse_event_state (ex_event 9 (Local 1 0)) = 0" by (simp add: ex_state)
    ultimately show ?thesis by (simp add: sbi_sse_exit_def exit_event_def c1 x)
  qed
  define s3 where "s3 = snd (sse_event_register (Global 0) 0 0 (sbi_sse_exit 1 1 (client g1)))"
  define s4 where "s4 = upd_ev (Global 0) ?E s3"
  have c3: "dl s4 = d" "node_of s4 = ex_node" "head_of s4 1 = 0x2100" "ref_at s4 0x1000 = Global 0" "hartindex (events s4 (Global 0)) = 1"
    unfolding s4_def s3_def ex using c1(3) by (simp_all add: sse_event_register_def Let_def sse_event_invoke_cb_def c1 x)
  define d' where "d' = sbi_list_add_tail 0x1000 0x2100 d"
  have add: "sse_event_add_to_list (Global 0) s4 = Some (s4\<lparr>dl := d'\<rparr>)"
    using add_twice [of "0x2100" s4 "Global 0"] c3(3,4) by (simp add: c3 x d d'_def)
  have "nxt d' 0x2100 = 0x1000" "nxt d' 0x1000 = 0x1000" by (simp_all add: d'_def add_tail_nxt d)
  then have loop: "sbi_list_for_each d' 0x2100 = None"
    using list_visit_loop [of d' "0x1000" "0x2100"] by (simp add: sbi_list_for_each_def)
  have q: "sse_event_state (events s3 (Global 0)) = 1" "\<not> sse_event_pending (events s3 (Global 0))"
    unfolding s3_def ex by (simp_all add: sse_event_register_def Let_def sse_event_invoke_cb_def c1 x)
      (simp add: sse_event_pending_def at_status_set_state, simp add: ex_event_def BIT_2p)
  have 2: "sse_event_enable 0 (Global 0) (g1\<lparr>client := s3\<rparr>) =
      Some (0, g1\<lparr>client := sse_event_invoke_cb (Global 0) Enable_cb (s4\<lparr>dl := d'\<rparr>)\<rparr>)" (is "_ = Some (0, ?g2)")
    using enable_quiet [where g = "g1\<lparr>client := s3\<rparr>" and r = "Global 0" and ?s1.0 = s4 and d = d'] add
    by (simp add: s4_def q)
  have "dl (client ?g2) = d'" "head_of (client ?g2) 1 = 0x2100"
    using c3(3) by (simp_all add: sse_event_invoke_cb_def)
  then show ?thesis
    using 1 2 loop unfolding s3_def by (intro exI [of _ g1] exI [of _ ?g2]) simp
qed

end
