(* ===== verification/Sbi_Domain_Data.thy ===== *)
theory Sbi_Domain_Data
  imports Sbi_Domain_Reg
begin

text \<open>
  Per-domain data of other components, \<open>lib/sbi/sbi_domain_data.c\<close>. A \<open>struct sbi_domain_data *\<close> is a key of the store \<open>datas\<close>, a
  domain is named as in \<open>Sbi_Domain\<close>, and \<open>slot g d\<close> is the array \<open>idx_to_data_ptr\<close> of domain \<open>d\<close>.

  \<open>sbi_zalloc\<close> gives every block an identity of its own, never used again; \<open>fails n\<close> says that the \<open>n\<close>-th allocation finds no
  memory. A setup callback is the function of domain and block that gives its result; \<open>cleaned\<close> logs the calls of the cleanup
  callbacks.
\<close>

subsection \<open>The code\<close>

definition SBI_DOMAIN_MAX_DATA_PTRS :: nat where [simp, sbi_defs]: "SBI_DOMAIN_MAX_DATA_PTRS = 32"

record sbi_domain_data =
  data_idx :: nat
  data_size :: ulong
  data_setup :: "(nat \<Rightarrow> nat \<Rightarrow> int) option"
  data_cleanup :: bool

record data_globals =
  datas :: "nat \<Rightarrow> sbi_domain_data"
  data_list :: "nat list"
  data_idx_bmap :: "ulong list"
  doms :: "nat list"
  slot :: "nat \<Rightarrow> nat \<Rightarrow> nat option"
  live :: "nat set"
  allocs :: nat
  cleaned :: "(nat \<times> nat \<times> nat) list"

definition sbi_zalloc :: "(nat \<Rightarrow> bool) \<Rightarrow> data_globals \<Rightarrow> nat option \<times> data_globals" where
  "sbi_zalloc fails g =
    (if fails (allocs g) then (None, g\<lparr>allocs := allocs g + 1\<rparr>)
     else (Some (allocs g), g\<lparr>allocs := allocs g + 1, live := insert (allocs g) (live g)\<rparr>))"

definition sbi_free :: "nat \<Rightarrow> data_globals \<Rightarrow> data_globals" where
  "sbi_free p g = g\<lparr>live := live g - {p}\<rparr>"

definition set_slot :: "nat \<Rightarrow> nat \<Rightarrow> nat option \<Rightarrow> data_globals \<Rightarrow> data_globals" where
  "set_slot d i p g = g\<lparr>slot := (slot g)(d := (slot g d)(i := p))\<rparr>"

definition sbi_domain_data_ptr :: "data_globals \<Rightarrow> nat option \<Rightarrow> nat option \<Rightarrow> nat option" where
  "sbi_domain_data_ptr g dp data =
    (case (dp, data) of
      (Some d, Some x) \<Rightarrow> if data_idx (datas g x) < SBI_DOMAIN_MAX_DATA_PTRS then slot g d (data_idx (datas g x)) else None
    | _ \<Rightarrow> None)"

definition domain_cleanup_data_one :: "nat \<Rightarrow> nat \<Rightarrow> data_globals \<Rightarrow> data_globals" where
  "domain_cleanup_data_one d x g =
    (case slot g d (data_idx (datas g x)) of
      None \<Rightarrow> g
    | Some p \<Rightarrow>
        let g = (if data_cleanup (datas g x) then g\<lparr>cleaned := cleaned g @ [(d, x, p)]\<rparr> else g);
            g = sbi_free p g
        in set_slot d (data_idx (datas g x)) None g)"

definition sbi_domain_cleanup_data :: "nat option \<Rightarrow> data_globals \<Rightarrow> data_globals" where
  "sbi_domain_cleanup_data dp g =
    (case dp of None \<Rightarrow> g | Some d \<Rightarrow> fold (domain_cleanup_data_one d) (data_list g) g)"

definition domain_setup_data_one :: "(nat \<Rightarrow> bool) \<Rightarrow> nat \<Rightarrow> nat \<Rightarrow> data_globals \<Rightarrow> int \<times> data_globals" where
  "domain_setup_data_one fails d x g =
    (if slot g d (data_idx (datas g x)) \<noteq> None then (SBI_EALREADY, g)
     else (case sbi_zalloc fails g of
         (None, g) \<Rightarrow> (SBI_ENOMEM, sbi_domain_cleanup_data (Some d) g)
       | (Some p, g) \<Rightarrow>
           let rc = (case data_setup (datas g x) of None \<Rightarrow> 0 | Some f \<Rightarrow> f d p)
           in if rc \<noteq> 0 then (rc, sbi_free p g)
              else (0, set_slot d (data_idx (datas g x)) (Some p) g)))"

fun setup_loop :: "(nat \<Rightarrow> bool) \<Rightarrow> nat \<Rightarrow> nat list \<Rightarrow> data_globals \<Rightarrow> int \<times> data_globals" where
  "setup_loop fails d [] g = (0, g)"
| "setup_loop fails d (x # xs) g =
    (case domain_setup_data_one fails d x g of (rc, g) \<Rightarrow>
      if rc \<noteq> 0 then (rc, sbi_domain_cleanup_data (Some d) g) else setup_loop fails d xs g)"

definition sbi_domain_setup_data :: "(nat \<Rightarrow> bool) \<Rightarrow> nat option \<Rightarrow> data_globals \<Rightarrow> int \<times> data_globals" where
  "sbi_domain_setup_data fails dp g =
    (case dp of None \<Rightarrow> (SBI_EINVAL, g) | Some d \<Rightarrow> setup_loop fails d (data_list g) g)"

definition sbi_domain_unregister_data :: "nat \<Rightarrow> data_globals \<Rightarrow> data_globals" where
  "sbi_domain_unregister_data x g =
    (let g = fold (\<lambda>d. domain_cleanup_data_one d x) (doms g) g;
         g = g\<lparr>data_list := remove1 x (data_list g)\<rparr>
     in g\<lparr>data_idx_bmap := bitmap_clear (data_idx_bmap g) (data_idx (datas g x)) 1\<rparr>)"

fun register_loop :: "(nat \<Rightarrow> bool) \<Rightarrow> nat \<Rightarrow> nat list \<Rightarrow> data_globals \<Rightarrow> int \<times> data_globals" where
  "register_loop fails x [] g = (0, g)"
| "register_loop fails x (d # ds) g =
    (case domain_setup_data_one fails d x g of (rc, g) \<Rightarrow>
      if rc \<noteq> 0 then (rc, sbi_domain_unregister_data x g) else register_loop fails x ds g)"

definition sbi_domain_register_data :: "(nat \<Rightarrow> bool) \<Rightarrow> nat option \<Rightarrow> data_globals \<Rightarrow> int \<times> data_globals" where
  "sbi_domain_register_data fails data g =
    (case data of
      None \<Rightarrow> (SBI_EINVAL, g)
    | Some x \<Rightarrow>
        if data_size (datas g x) = 0 then (SBI_EINVAL, g)
        else (case List.find (\<lambda>i. \<not> bitmap_test (data_idx_bmap g) i) [0..<SBI_DOMAIN_MAX_DATA_PTRS] of
            None \<Rightarrow> (SBI_ENOSPC, g)
          | Some i \<Rightarrow>
              let g = g\<lparr>data_idx_bmap := bitmap_set (data_idx_bmap g) i 1\<rparr>;
                  g = g\<lparr>datas := (datas g)(x := (datas g x)\<lparr>data_idx := i\<rparr>)\<rparr>;
                  g = g\<lparr>data_list := data_list g @ [x]\<rparr>
              in register_loop fails x (doms g) g))"

text \<open>The part of \<open>sbi_domain_register\<close> that concerns the data: the domain is put on the list, its data are set up, and a failure
  takes it off again.\<close>

definition add_domain :: "(nat \<Rightarrow> bool) \<Rightarrow> nat \<Rightarrow> data_globals \<Rightarrow> int \<times> data_globals" where
  "add_domain fails d g =
    (case sbi_domain_setup_data fails (Some d) (g\<lparr>doms := doms g @ [d]\<rparr>) of (rc, g) \<Rightarrow>
      if rc \<noteq> 0 then (rc, g\<lparr>doms := remove1 d (doms g)\<rparr>) else (0, g))"

subsection \<open>Slots and blocks\<close>

text \<open>The filled slots are those of \<open>S\<close>; each holds a live block of its own, and no other block is live.\<close>

definition slots_ok :: "(nat \<times> nat) set \<Rightarrow> data_globals \<Rightarrow> bool" where
  "slots_ok S g \<longleftrightarrow> (\<forall>d i. slot g d i \<noteq> None \<longleftrightarrow> (d, i) \<in> S) \<and> (\<forall>p \<in> live g. p < allocs g) \<and>
    live g = {p. \<exists>d i. slot g d i = Some p} \<and>
    (\<forall>d i d' i' p. slot g d i = Some p \<longrightarrow> slot g d' i' = Some p \<longrightarrow> d' = d \<and> i' = i)"

text \<open>The fields that the set-up and clean-up of slots leave alone.\<close>

definition same_reg :: "data_globals \<Rightarrow> data_globals \<Rightarrow> bool" where
  "same_reg g g' \<longleftrightarrow> datas g' = datas g \<and> data_list g' = data_list g \<and> data_idx_bmap g' = data_idx_bmap g \<and> doms g' = doms g"

lemma same_reg_refl [simp]: "same_reg g g"
  by (simp add: same_reg_def)

lemma same_reg_trans [trans]: "same_reg a b \<Longrightarrow> same_reg b c \<Longrightarrow> same_reg a c"
  by (simp add: same_reg_def)

lemma slots_None: "slots_ok S g \<Longrightarrow> slot g d i = None \<longleftrightarrow> (d, i) \<notin> S"
  by (metis slots_ok_def)

lemma slots_inj: "slots_ok S g \<Longrightarrow> slot g d i = Some p \<Longrightarrow> slot g d' i' = Some p \<Longrightarrow> d' = d \<and> i' = i"
  unfolding slots_ok_def by blast

lemma slots_okI:
  "(\<And>d i. slot g d i \<noteq> None \<longleftrightarrow> (d, i) \<in> S) \<Longrightarrow> (\<And>p. p \<in> live g \<Longrightarrow> p < allocs g) \<Longrightarrow>
    live g = {p. \<exists>d i. slot g d i = Some p} \<Longrightarrow>
    (\<And>d i d' i' p. slot g d i = Some p \<Longrightarrow> slot g d' i' = Some p \<Longrightarrow> d' = d \<and> i' = i) \<Longrightarrow> slots_ok S g"
  unfolding slots_ok_def by blast

lemma slots_cong: "slot g' = slot g \<Longrightarrow> live g' = live g \<Longrightarrow> allocs g' = allocs g \<Longrightarrow> slots_ok S g' = slots_ok S g"
  by (simp add: slots_ok_def)

lemma set_slot_fields:
  "slot (set_slot d i p g) = (slot g)(d := (slot g d)(i := p))" "live (set_slot d i p g) = live g" "allocs (set_slot d i p g) = allocs g"
  by (simp_all add: set_slot_def)

lemma slots_fill:
  assumes "slots_ok S g" and "(d, i) \<notin> S"
  shows "slots_ok (insert (d, i) S) (set_slot d i (Some (allocs g)) (g\<lparr>allocs := allocs g + 1, live := insert (allocs g) (live g)\<rparr>))"
proof -
  have n: "slot g d i = None" using assms by (simp add: slots_None)
  have new: "slot g d' i' \<noteq> Some (allocs g)" for d' i' using assms(1) by (fastforce simp: slots_ok_def)
  have "insert (allocs g) (live g) = {p. \<exists>d' i'. ((slot g)(d := (slot g d)(i := Some (allocs g)))) d' i' = Some p}" (is "_ = ?R")
  proof
    show "insert (allocs g) (live g) \<subseteq> ?R"
    proof
      fix p assume p: "p \<in> insert (allocs g) (live g)"
      show "p \<in> ?R"
      proof (cases "p = allocs g")
        case False
        then obtain d' i' where "slot g d' i' = Some p" using p assms(1) by (auto simp: slots_ok_def)
        moreover then have "d' \<noteq> d \<or> i' \<noteq> i" using n by auto
        ultimately show ?thesis by (intro CollectI) (rule exI [of _ d'], rule exI [of _ i'], auto)
      next
        case True
        then show ?thesis by (intro CollectI) (rule exI [of _ d], rule exI [of _ i], simp)
      qed
    qed
    show "?R \<subseteq> insert (allocs g) (live g)" using assms(1) by (auto simp: slots_ok_def split: if_splits)
  qed
  note L = this
  let ?s = "(slot g)(d := (slot g d)(i := Some (allocs g)))"
  have inj: "d2 = d1 \<and> i2 = i1" if e: "?s d1 i1 = Some p" "?s d2 i2 = Some p" for d1 i1 d2 i2 p
  proof (cases "p = allocs g")
    case True
    then show ?thesis using that new by (auto split: if_splits)
  next
    case False
    then have "slot g d1 i1 = Some p" "slot g d2 i2 = Some p" using that by (auto split: if_splits)
    then show ?thesis using slots_inj [OF assms(1)] by blast
  qed
  show ?thesis
  proof (rule slots_okI, goal_cases)
    case (1 d' i')
    then show ?case using slots_None [OF assms(1), of d' i'] by (auto simp: set_slot_def)
  next
    case (2 p)
    then show ?case using assms(1) by (auto simp: slots_ok_def set_slot_def intro: less_SucI)
  next
    case 3
    have "slot (g\<lparr>allocs := allocs g + 1, live := A\<rparr>) = slot g" "live (g\<lparr>allocs := allocs g + 1, live := A\<rparr>) = A" for A by simp_all
    then show ?case using L by (simp only: set_slot_fields)
  next
    case (4 d1 i1 d2 i2 p)
    then show ?case by (intro inj) (simp_all add: set_slot_fields del: fun_upd_apply)
  qed
qed

lemma slots_clear:
  assumes "slots_ok S g" and "slot g d i = Some p"
  shows "slots_ok (S - {(d, i)}) (set_slot d i None (sbi_free p g))"
proof -
  have "live g - {p} = {q. \<exists>d' i'. ((slot g)(d := (slot g d)(i := None))) d' i' = Some q}" (is "_ = ?R")
  proof
    show "live g - {p} \<subseteq> ?R"
    proof
      fix q assume "q \<in> live g - {p}"
      then obtain d' i' where s: "slot g d' i' = Some q" and "q \<noteq> p" using assms(1) by (auto simp: slots_ok_def)
      then have "d' \<noteq> d \<or> i' \<noteq> i" using assms(2) by auto
      then show "q \<in> ?R" using s by (intro CollectI) (rule exI [of _ d'], rule exI [of _ i'], auto)
    qed
    show "?R \<subseteq> live g - {p}" using assms by (auto simp: slots_ok_def split: if_splits)
  qed
  note L = this
  have fr: "slot (sbi_free p g) = slot g" "live (sbi_free p g) = live g - {p}" "allocs (sbi_free p g) = allocs g"
    by (simp_all add: sbi_free_def)
  show ?thesis
  proof (rule slots_okI, goal_cases)
    case (1 d' i')
    then show ?case using slots_None [OF assms(1), of d' i'] by (auto simp: set_slot_fields fr)
  next
    case (2 q)
    then show ?case using assms(1) by (auto simp: set_slot_fields fr slots_ok_def)
  next
    case 3
    then show ?case using L by (simp only: set_slot_fields fr)
  next
    case (4 d1 i1 d2 i2 q)
    then show ?case using slots_inj [OF assms(1)] by (auto simp: set_slot_fields fr split: if_splits)
  qed
qed

lemma cleanup_one:
  assumes "slots_ok S g"
  shows "slots_ok (S - {(d, data_idx (datas g x))}) (domain_cleanup_data_one d x g)" "same_reg g (domain_cleanup_data_one d x g)"
proof -
  let ?i = "data_idx (datas g x)"
  show "slots_ok (S - {(d, ?i)}) (domain_cleanup_data_one d x g)"
  proof (cases "slot g d ?i")
    case None
    then have "(d, ?i) \<notin> S" using assms by (simp add: slots_None)
    then show ?thesis using assms None by (simp add: domain_cleanup_data_one_def)
  next
    case (Some p)
    let ?g = "if data_cleanup (datas g x) then g\<lparr>cleaned := cleaned g @ [(d, x, p)]\<rparr> else g"
    have "slots_ok S ?g" "slot ?g d ?i = Some p" using assms Some by (simp_all add: slots_ok_def)
    from slots_clear [OF this] show ?thesis
      using Some by (cases "data_cleanup (datas g x)") (simp_all add: domain_cleanup_data_one_def Let_def sbi_free_def)
  qed
  show "same_reg g (domain_cleanup_data_one d x g)"
    by (simp add: domain_cleanup_data_one_def same_reg_def Let_def set_slot_def sbi_free_def split: option.split)
qed

text \<open>Cleaning up a list of slots.\<close>

lemma cleanup_slots:
  assumes "slots_ok S g"
  shows "slots_ok (S - set (map (\<lambda>(d, x). (d, data_idx (datas g x))) ps)) (fold (\<lambda>(d, x). domain_cleanup_data_one d x) ps g) \<and>
    same_reg g (fold (\<lambda>(d, x). domain_cleanup_data_one d x) ps g)"
  using assms
proof (induction ps arbitrary: S g)
  case (Cons q ps)
  obtain d x where q: "q = (d, x)" by (cases q)
  note c = cleanup_one [OF Cons.prems, of d x]
  have i: "datas (domain_cleanup_data_one d x g) = datas g" using c(2) by (simp add: same_reg_def)
  have "slots_ok (S - {(d, data_idx (datas g x))} - set (map (\<lambda>(d, x). (d, data_idx (datas g x))) ps))
      (fold (\<lambda>(d, x). domain_cleanup_data_one d x) ps (domain_cleanup_data_one d x g)) \<and>
    same_reg (domain_cleanup_data_one d x g) (fold (\<lambda>(d, x). domain_cleanup_data_one d x) ps (domain_cleanup_data_one d x g))"
    using Cons.IH [OF c(1)] by (simp add: i)
  moreover have "S - {(d, data_idx (datas g x))} - set (map (\<lambda>(d, x). (d, data_idx (datas g x))) ps) =
    S - set (map (\<lambda>(d, x). (d, data_idx (datas g x))) (q # ps))" by (auto simp: q)
  ultimately show ?case using c(2) by (auto simp: q intro: same_reg_trans)
qed simp

lemma fold_pairs:
  "fold (domain_cleanup_data_one d) xs g = fold (\<lambda>(d, x). domain_cleanup_data_one d x) (map (Pair d) xs) g"
  "fold (\<lambda>d. domain_cleanup_data_one d x) ds g = fold (\<lambda>(d, x). domain_cleanup_data_one d x) (map (\<lambda>d. (d, x)) ds) g"
  by (simp_all add: fold_map comp_def)

lemma cleanup_domain:
  assumes "slots_ok S g"
  shows "slots_ok (S - {d} \<times> (\<lambda>x. data_idx (datas g x)) ` set (data_list g)) (sbi_domain_cleanup_data (Some d) g)"
    and "same_reg g (sbi_domain_cleanup_data (Some d) g)"
proof -
  have "set (map (\<lambda>(d, x). (d, data_idx (datas g x))) (map (Pair d) (data_list g))) = {d} \<times> (\<lambda>x. data_idx (datas g x)) ` set (data_list g)"
    by auto
  then show "slots_ok (S - {d} \<times> (\<lambda>x. data_idx (datas g x)) ` set (data_list g)) (sbi_domain_cleanup_data (Some d) g)"
    "same_reg g (sbi_domain_cleanup_data (Some d) g)"
    using cleanup_slots [OF assms, of "map (Pair d) (data_list g)"] by (simp_all add: sbi_domain_cleanup_data_def fold_pairs)
qed

lemma setup_one:
  assumes "slots_ok S g" and "(d, data_idx (datas g x)) \<notin> S" and "domain_setup_data_one (\<lambda>_. False) d x g = (rc, g')"
  shows "slots_ok (if rc = 0 then insert (d, data_idx (datas g x)) S else S) g'" "same_reg g g'"
proof -
  let ?i = "data_idx (datas g x)" and ?g = "g\<lparr>allocs := allocs g + 1, live := insert (allocs g) (live g)\<rparr>"
  have n: "slot g d ?i = None" using assms(1,2) by (simp add: slots_None)
  have notin: "allocs g \<notin> live g" using assms(1) by (auto simp: slots_ok_def)
  have "slots_ok S (sbi_free (allocs g) ?g)" using assms(1) notin unfolding slots_ok_def sbi_free_def by (auto intro: less_SucI)
  then show "slots_ok (if rc = 0 then insert (d, ?i) S else S) g'"
    using slots_fill [OF assms(1,2)] assms(3) n by (auto simp: domain_setup_data_one_def sbi_zalloc_def Let_def split: if_splits)
  show "same_reg g g'"
    using assms(3) n by (auto simp: domain_setup_data_one_def sbi_zalloc_def Let_def same_reg_def set_slot_def sbi_free_def split: if_splits)
qed

lemma setup_one_memory:
  "\<not> fails (allocs g) \<Longrightarrow> domain_setup_data_one fails d x g = domain_setup_data_one (\<lambda>_. False) d x g"
  by (simp add: domain_setup_data_one_def sbi_zalloc_def)

text \<open>An allocation that fails costs the domain slots, but leaves no block without a slot.\<close>

lemma setup_one_safe:
  assumes "slots_ok S g" and "(d, data_idx (datas g x)) \<notin> S" and "domain_setup_data_one fails d x g = (rc, g')"
  shows "\<exists>S' \<subseteq> (if rc = 0 then insert (d, data_idx (datas g x)) S else S). slots_ok S' g'" and "same_reg g g'"
proof -
  let ?i = "data_idx (datas g x)" and ?g = "g\<lparr>allocs := allocs g + 1\<rparr>"
  have n: "slot g d ?i = None" using assms(1,2) by (simp add: slots_None)
  have "(\<exists>S' \<subseteq> (if rc = 0 then insert (d, ?i) S else S). slots_ok S' g') \<and> same_reg g g'"
  proof (cases "fails (allocs g)")
    case False
    then have "domain_setup_data_one (\<lambda>_. False) d x g = (rc, g')" using assms(3) setup_one_memory [of fails g d x] by simp
    from setup_one [OF assms(1,2) this] show ?thesis by blast
  next
    case True
    have "slots_ok S ?g" using assms(1) by (auto simp: slots_ok_def less_SucI)
    note c = cleanup_domain [OF this, of d]
    have "rc = SBI_ENOMEM" "g' = sbi_domain_cleanup_data (Some d) ?g"
      using assms(3) True n by (simp_all add: domain_setup_data_one_def sbi_zalloc_def)
    then show ?thesis using c by (auto simp: same_reg_def)
  qed
  then show "\<exists>S' \<subseteq> (if rc = 0 then insert (d, ?i) S else S). slots_ok S' g'" "same_reg g g'" by blast+
qed

subsection \<open>The registry\<close>

abbreviation idx_of :: "data_globals \<Rightarrow> nat \<Rightarrow> nat" where
  "idx_of g x \<equiv> data_idx (datas g x)"

text \<open>The indices of the registered data are distinct and are those marked in the bitmap.\<close>

definition reg_ok :: "data_globals \<Rightarrow> bool" where
  "reg_ok g \<longleftrightarrow> length (data_idx_bmap g) = 1 \<and> distinct (data_list g) \<and> distinct (doms g) \<and>
    inj_on (idx_of g) (set (data_list g)) \<and> (\<forall>x \<in> set (data_list g). idx_of g x < 32) \<and>
    (\<forall>i<32. bm_bit (data_idx_bmap g) i \<longleftrightarrow> i \<in> idx_of g ` set (data_list g))"

definition data_inv :: "data_globals \<Rightarrow> bool" where
  "data_inv g \<longleftrightarrow> reg_ok g \<and> slots_ok (set (doms g) \<times> idx_of g ` set (data_list g)) g"

text \<open>What is left of it when memory runs out: no block is outside the slots of the registered data in the registered domains.\<close>

definition data_safe :: "data_globals \<Rightarrow> bool" where
  "data_safe g \<longleftrightarrow> reg_ok g \<and> (\<exists>S \<subseteq> set (doms g) \<times> idx_of g ` set (data_list g). slots_ok S g)"

lemma same_reg_ok: "same_reg g g' \<Longrightarrow> reg_ok g' = reg_ok g"
  by (simp add: same_reg_def reg_ok_def)

lemma slots_diff: "D0 \<subseteq> D \<Longrightarrow> i \<notin> I \<Longrightarrow> D \<times> I \<union> D0 \<times> {i} - D \<times> {i} = D \<times> I"
  by auto

lemma unregister_slots:
  assumes "reg_ok g" and "x \<in> set (data_list g)" and "slots_ok S g"
  shows "reg_ok (sbi_domain_unregister_data x g)" and "slots_ok (S - set (doms g) \<times> {idx_of g x}) (sbi_domain_unregister_data x g)"
    and "datas (sbi_domain_unregister_data x g) = datas g" and "doms (sbi_domain_unregister_data x g) = doms g"
    and "set (data_list (sbi_domain_unregister_data x g)) = set (data_list g) - {x}"
proof -
  let ?f = "fold (\<lambda>d. domain_cleanup_data_one d x) (doms g) g"
  have "set (map (\<lambda>(d, x). (d, idx_of g x)) (map (\<lambda>d. (d, x)) (doms g))) = set (doms g) \<times> {idx_of g x}" by auto
  then have c: "slots_ok (S - set (doms g) \<times> {idx_of g x}) ?f" "same_reg g ?f"
    using cleanup_slots [OF assms(3), of "map (\<lambda>d. (d, x)) (doms g)"] unfolding fold_pairs(2) by simp_all
  have f: "datas ?f = datas g" "data_list ?f = data_list g" "data_idx_bmap ?f = data_idx_bmap g" "doms ?f = doms g"
    using c(2) by (simp_all add: same_reg_def)
  have r: "length (data_idx_bmap g) = 1" "distinct (data_list g)" "inj_on (idx_of g) (set (data_list g))" "idx_of g x < 32"
      "\<And>i. i < 32 \<Longrightarrow> bm_bit (data_idx_bmap g) i \<longleftrightarrow> i \<in> idx_of g ` set (data_list g)"
    using assms(1,2) by (auto simp: reg_ok_def)
  have s: "set (remove1 x (data_list g)) = set (data_list g) - {x}" using r(2) by simp
  have "i \<in> idx_of g ` (set (data_list g) - {x}) \<longleftrightarrow> i \<noteq> idx_of g x \<and> i \<in> idx_of g ` set (data_list g)" for i
    using inj_on_image_set_diff [OF r(3), of "set (data_list g)" "{x}"] assms(2) by auto
  then have b: "bm_bit (bitmap_clear (data_idx_bmap g) (idx_of g x) 1) i \<longleftrightarrow> i \<in> idx_of g ` (set (data_list g) - {x})" if "i < 32" for i
    using that r bitmap_clear_bits [of "idx_of g x" 1 "data_idx_bmap g" i] by auto
  show "reg_ok (sbi_domain_unregister_data x g)"
    using assms(1) b by (auto simp: reg_ok_def sbi_domain_unregister_data_def Let_def f s simp del: bitmap_clear.simps intro: inj_on_subset)
  show "slots_ok (S - set (doms g) \<times> {idx_of g x}) (sbi_domain_unregister_data x g)"
    using c(1) by (simp add: slots_ok_def sbi_domain_unregister_data_def Let_def)
  show "datas (sbi_domain_unregister_data x g) = datas g" "doms (sbi_domain_unregister_data x g) = doms g"
    "set (data_list (sbi_domain_unregister_data x g)) = set (data_list g) - {x}"
    by (simp_all add: sbi_domain_unregister_data_def Let_def f s)
qed

lemma unregister_ok:
  assumes "reg_ok g" and "x \<in> set (data_list g)"
    and "slots_ok S g" "S - set (doms g) \<times> {idx_of g x} = set (doms g) \<times> idx_of g ` (set (data_list g) - {x})"
  shows "data_inv (sbi_domain_unregister_data x g)"
  using unregister_slots [OF assms(1-3)] by (simp add: data_inv_def assms(4))

lemma unregister_safe:
  assumes "reg_ok g" and "x \<in> set (data_list g)" and "slots_ok S g" and "S \<subseteq> set (doms g) \<times> idx_of g ` set (data_list g)"
  shows "data_safe (sbi_domain_unregister_data x g)"
proof -
  have "S - set (doms g) \<times> {idx_of g x} \<subseteq> set (doms g) \<times> idx_of g ` (set (data_list g) - {x})" using assms(4) by auto
  then show ?thesis using unregister_slots [OF assms(1-3)] unfolding data_safe_def by metis
qed

lemma register_loop_ok:
  assumes "reg_ok g" and "x \<in> set (data_list g)" and "doms g = ds0 @ ds"
    and "slots_ok (set (doms g) \<times> idx_of g ` (set (data_list g) - {x}) \<union> set ds0 \<times> {idx_of g x}) g"
    and "register_loop (\<lambda>_. False) x ds g = (rc, g')"
  shows "data_inv g'"
  using assms
proof (induction ds arbitrary: ds0 g)
  case Nil
  have "insert x (set (data_list g)) = set (data_list g)" using Nil.prems(2) by auto
  then have "set (doms g) \<times> idx_of g ` (set (data_list g) - {x}) \<union> set ds0 \<times> {idx_of g x} = set (doms g) \<times> idx_of g ` set (data_list g)"
    using Nil.prems(2,3) by auto
  then show ?case using Nil.prems by (simp add: data_inv_def)
next
  case (Cons d ds)
  let ?S = "set (doms g) \<times> idx_of g ` (set (data_list g) - {x}) \<union> set ds0 \<times> {idx_of g x}"
  obtain r1 g1 where s: "domain_setup_data_one (\<lambda>_. False) d x g = (r1, g1)" by fastforce
  have inj: "idx_of g x \<notin> idx_of g ` (set (data_list g) - {x})"
    using Cons.prems(1,2) by (auto simp: reg_ok_def inj_on_def)
  have "d \<notin> set ds0" using Cons.prems(1,3) by (auto simp: reg_ok_def)
  then have "(d, idx_of g x) \<notin> ?S" using inj by auto
  note one = setup_one [OF Cons.prems(4) this s]
  have f: "datas g1 = datas g" "data_list g1 = data_list g" "doms g1 = doms g" "reg_ok g1"
    using one(2) same_reg_ok [OF one(2)] Cons.prems(1) by (simp_all add: same_reg_def)
  show ?case
  proof (cases "r1 = 0")
    case True
    have "insert (d, idx_of g x) ?S = set (doms g1) \<times> idx_of g1 ` (set (data_list g1) - {x}) \<union> set (ds0 @ [d]) \<times> {idx_of g1 x}"
      using f by auto
    then show ?thesis
      using Cons.IH [of g1 "ds0 @ [d]"] one(1) True f s Cons.prems by simp
  next
    case False
    have "?S - set (doms g1) \<times> {idx_of g1 x} = set (doms g1) \<times> idx_of g1 ` (set (data_list g1) - {x})"
      using slots_diff [OF _ inj, of "set ds0" "set (doms g)"] f Cons.prems(3) by auto
    then have "data_inv (sbi_domain_unregister_data x g1)"
      using unregister_ok [of g1 x ?S] one(1) False f Cons.prems(2) by simp
    then show ?thesis using False s Cons.prems(5) by simp
  qed
qed

lemma register_loop_safe:
  assumes "reg_ok g" and "x \<in> set (data_list g)" and "doms g = ds0 @ ds" and "slots_ok S g"
    and "S \<subseteq> set (doms g) \<times> idx_of g ` (set (data_list g) - {x}) \<union> set ds0 \<times> {idx_of g x}"
    and "register_loop fails x ds g = (rc, g')"
  shows "data_safe g'"
  using assms
proof (induction ds arbitrary: ds0 g S)
  case Nil
  then have "S \<subseteq> set (doms g) \<times> idx_of g ` set (data_list g)" by auto
  then show ?case using Nil.prems by (auto simp: data_safe_def)
next
  case (Cons d ds)
  obtain r1 g1 where s: "domain_setup_data_one fails d x g = (r1, g1)" by fastforce
  have inj: "idx_of g x \<notin> idx_of g ` (set (data_list g) - {x})" "d \<notin> set ds0"
    using Cons.prems(1-3) by (auto simp: reg_ok_def inj_on_def)
  then have "(d, idx_of g x) \<notin> S" using Cons.prems(5) by auto
  note one = setup_one_safe [OF Cons.prems(4) this s]
  obtain S1 where S1: "S1 \<subseteq> (if r1 = 0 then insert (d, idx_of g x) S else S)" "slots_ok S1 g1" using one(1) by blast
  have f: "datas g1 = datas g" "data_list g1 = data_list g" "doms g1 = doms g" "reg_ok g1"
    using one(2) same_reg_ok [OF one(2)] Cons.prems(1) by (simp_all add: same_reg_def)
  show ?case
  proof (cases "r1 = 0")
    case True
    have "S1 \<subseteq> set (doms g1) \<times> idx_of g1 ` (set (data_list g1) - {x}) \<union> set (ds0 @ [d]) \<times> {idx_of g1 x}"
      using S1(1) Cons.prems(5) True f(1-3) by (auto split: if_splits)
    then show ?thesis using Cons.IH [OF f(4) _ _ S1(2), of "ds0 @ [d]"] True f s Cons.prems by simp
  next
    case False
    have "S1 \<subseteq> set (doms g1) \<times> idx_of g1 ` set (data_list g1)"
      using S1(1) Cons.prems(2,3,5) False f(1-3) by auto
    then have "data_safe (sbi_domain_unregister_data x g1)" using unregister_safe [OF f(4) _ S1(2)] f Cons.prems(2) by simp
    then show ?thesis using False s Cons.prems(6) by simp
  qed
qed

text \<open>The state in which \<open>sbi_domain_register_data\<close> starts to set up its blocks.\<close>

definition with_index :: "nat \<Rightarrow> nat \<Rightarrow> data_globals \<Rightarrow> data_globals" where
  "with_index x i g = g\<lparr>data_idx_bmap := bitmap_set (data_idx_bmap g) i 1, datas := (datas g)(x := (datas g x)\<lparr>data_idx := i\<rparr>),
    data_list := data_list g @ [x]\<rparr>"

lemma with_index_ok:
  assumes r: "reg_ok g" and x: "x \<notin> set (data_list g)" and i: "List.find (\<lambda>i. \<not> bitmap_test (data_idx_bmap g) i) [0..<32] = Some i"
  shows "reg_ok (with_index x i g)" and "idx_of (with_index x i g) ` set (data_list g) = idx_of g ` set (data_list g)"
    and "set (data_list (with_index x i g)) = insert x (set (data_list g))" and "doms (with_index x i g) = doms g"
    and "slots_ok S (with_index x i g) = slots_ok S g"
proof -
  let ?g = "with_index x i g"
  have free: "i < 32" "\<not> bm_bit (data_idx_bmap g) i"
    using i by (auto simp: find_Some_iff bitmap_test_def test_bit_mem_eq)
  have ix: "idx_of ?g y = (if y = x then i else idx_of g y)" for y by (simp add: with_index_def)
  have new: "i \<notin> idx_of g ` set (data_list g)" using r free by (auto simp: reg_ok_def)
  show img: "idx_of ?g ` set (data_list g) = idx_of g ` set (data_list g)" using x ix by auto
  have b: "bm_bit (data_idx_bmap ?g) k \<longleftrightarrow> k = i \<or> bm_bit (data_idx_bmap g) k" for k
    using bitmap_set_bits [of i 1 "data_idx_bmap g" k] r free(1) by (auto simp: with_index_def reg_ok_def simp del: bitmap_set.simps)
  show set1: "set (data_list ?g) = insert x (set (data_list g))" "doms ?g = doms g" by (simp_all add: with_index_def)
  have "inj_on (idx_of ?g) (insert x (set (data_list g)))" using r x new ix unfolding reg_ok_def inj_on_def by auto
  then show "reg_ok ?g"
    using r x free(1) b ix img unfolding reg_ok_def set1 by (simp add: with_index_def del: bitmap_set.simps)
  show "slots_ok S ?g = slots_ok S g" by (rule slots_cong) (simp_all add: with_index_def)
qed

lemma register_cases:
  assumes "sbi_domain_register_data fails (Some x) g = (rc, g')"
  obtains "g' = g" | i where "List.find (\<lambda>i. \<not> bitmap_test (data_idx_bmap g) i) [0..<32] = Some i"
    "register_loop fails x (doms g) (with_index x i g) = (rc, g')"
  using assms
  by (auto simp: sbi_domain_register_data_def Let_def with_index_def simp del: bitmap_set.simps split: if_splits option.splits)

lemma register_ok:
  assumes "data_inv g" and "x \<notin> set (data_list g)" and "sbi_domain_register_data (\<lambda>_. False) (Some x) g = (rc, g')"
  shows "data_inv g'"
  using assms(3)
proof (cases rule: register_cases)
  case (2 i)
  have r: "reg_ok g" "slots_ok (set (doms g) \<times> idx_of g ` set (data_list g)) g" using assms(1) by (simp_all add: data_inv_def)
  note w = with_index_ok [OF r(1) assms(2) 2(1)]
  have "insert x (set (data_list g)) - {x} = set (data_list g)" using assms(2) by auto
  then show ?thesis using register_loop_ok [OF w(1) _ _ _ 2(2), of "[]"] r(2) by (simp add: w(2-5))
qed (use assms(1) in simp)

lemma register_safe:
  assumes "data_safe g" and "x \<notin> set (data_list g)" and "sbi_domain_register_data fails (Some x) g = (rc, g')"
  shows "data_safe g'"
  using assms(3)
proof (cases rule: register_cases)
  case (2 i)
  obtain S where r: "reg_ok g" "slots_ok S g" "S \<subseteq> set (doms g) \<times> idx_of g ` set (data_list g)" using assms(1) by (auto simp: data_safe_def)
  note w = with_index_ok [OF r(1) assms(2) 2(1)]
  have "insert x (set (data_list g)) - {x} = set (data_list g)" using assms(2) by auto
  then show ?thesis using register_loop_safe [OF w(1) _ _ _ _ 2(2), of "[]" S] r(2,3) by (simp add: w(2-5))
qed (use assms(1) in simp)

lemma setup_loop_ok:
  assumes "reg_ok g" and "data_list g = xs0 @ xs" and "d \<notin> D"
    and "slots_ok (D \<times> idx_of g ` set (data_list g) \<union> {d} \<times> idx_of g ` set xs0) g" and "setup_loop (\<lambda>_. False) d xs g = (rc, g')"
  shows "same_reg g g' \<and> slots_ok ((if rc = 0 then insert d D else D) \<times> idx_of g ` set (data_list g)) g'"
  using assms
proof (induction xs arbitrary: xs0 g)
  case Nil
  then have "D \<times> idx_of g ` set xs0 \<union> {d} \<times> idx_of g ` set xs0 = insert d D \<times> idx_of g ` set (data_list g)" by auto
  then show ?case using Nil by simp
next
  case (Cons x xs)
  let ?I = "idx_of g ` set (data_list g)" and ?S = "D \<times> idx_of g ` set (data_list g) \<union> {d} \<times> idx_of g ` set xs0"
  obtain r1 g1 where s: "domain_setup_data_one (\<lambda>_. False) d x g = (r1, g1)" by fastforce
  have "idx_of g x \<notin> idx_of g ` set xs0"
    using Cons.prems(1,2) by (auto simp: reg_ok_def inj_on_def)
  then have "(d, idx_of g x) \<notin> ?S" using Cons.prems(3) by auto
  note one = setup_one [OF Cons.prems(4) this s]
  have f: "datas g1 = datas g" "data_list g1 = data_list g" "reg_ok g1"
    using one(2) same_reg_ok [OF one(2)] Cons.prems(1) by (simp_all add: same_reg_def)
  show ?case
  proof (cases "r1 = 0")
    case True
    have "insert (d, idx_of g x) ?S = D \<times> idx_of g1 ` set (data_list g1) \<union> {d} \<times> idx_of g1 ` set (xs0 @ [x])" using f by auto
    then have "same_reg g1 g' \<and> slots_ok ((if rc = 0 then insert d D else D) \<times> ?I) g'"
      using Cons.IH [of g1 "xs0 @ [x]"] one(1) True f s Cons.prems by simp
    then show ?thesis using one(2) same_reg_trans by blast
  next
    case False
    have g': "g' = sbi_domain_cleanup_data (Some d) g1" "rc \<noteq> 0" using False s Cons.prems(5) by auto
    have "?S - {d} \<times> idx_of g1 ` set (data_list g1) = D \<times> ?I" using f Cons.prems(2,3) by auto
    then show ?thesis using cleanup_domain [of ?S g1 d] one False g' same_reg_trans by auto
  qed
qed

lemma add_domain_ok:
  assumes "data_inv g" and "d \<notin> set (doms g)" and "add_domain (\<lambda>_. False) d g = (rc, g')"
  shows "data_inv g'"
proof -
  let ?g = "g\<lparr>doms := doms g @ [d]\<rparr>" and ?I = "idx_of g ` set (data_list g)"
  obtain r1 g1 where s: "setup_loop (\<lambda>_. False) d (data_list g) ?g = (r1, g1)" by fastforce
  have r: "reg_ok g" "slots_ok (set (doms g) \<times> ?I) g" using assms(1) by (simp_all add: data_inv_def)
  have r1: "reg_ok ?g" using r(1) assms(2) by (simp add: reg_ok_def)
  have l: "same_reg ?g g1 \<and> slots_ok ((if r1 = 0 then insert d (set (doms g)) else set (doms g)) \<times> ?I) g1"
    using setup_loop_ok [OF r1 _ assms(2), of "[]" "data_list g" r1 g1] r(2) s slots_cong [of ?g g] by simp
  have f: "datas g1 = datas g" "data_list g1 = data_list g" "doms g1 = doms g @ [d]" "reg_ok g1"
    using l r1 same_reg_ok [of ?g g1] by (simp_all add: same_reg_def)
  show ?thesis
  proof (cases "r1 = 0")
    case True
    then have "g' = g1" using assms(3) s by (simp add: add_domain_def sbi_domain_setup_data_def)
    then show ?thesis using l f True by (simp add: data_inv_def)
  next
    case False
    then have g': "g' = g1\<lparr>doms := remove1 d (doms g1)\<rparr>" using assms(3) s by (simp add: add_domain_def sbi_domain_setup_data_def)
    have "remove1 d (doms g @ [d]) = doms g" using assms(2) by (simp add: remove1_append)
    then show ?thesis using l f False g' r(1) slots_cong [of g' g1] by (simp add: data_inv_def reg_ok_def)
  qed
qed

lemma setup_loop_safe:
  assumes "reg_ok g" and "data_list g = xs0 @ xs" and "d \<notin> D" and "slots_ok S g"
    and "S \<subseteq> D \<times> idx_of g ` set (data_list g) \<union> {d} \<times> idx_of g ` set xs0" and "setup_loop fails d xs g = (rc, g')"
  shows "same_reg g g' \<and> (\<exists>S' \<subseteq> (if rc = 0 then insert d D else D) \<times> idx_of g ` set (data_list g). slots_ok S' g')"
  using assms
proof (induction xs arbitrary: xs0 g S)
  case Nil
  then have "S \<subseteq> insert d D \<times> idx_of g ` set (data_list g)" by auto
  then show ?case using Nil.prems by auto
next
  case (Cons x xs)
  let ?I = "idx_of g ` set (data_list g)"
  obtain r1 g1 where s: "domain_setup_data_one fails d x g = (r1, g1)" by fastforce
  have "idx_of g x \<notin> idx_of g ` set xs0" using Cons.prems(1,2) by (auto simp: reg_ok_def inj_on_def)
  then have "(d, idx_of g x) \<notin> S" using Cons.prems(3,5) by auto
  note one = setup_one_safe [OF Cons.prems(4) this s]
  obtain S1 where S1: "S1 \<subseteq> (if r1 = 0 then insert (d, idx_of g x) S else S)" "slots_ok S1 g1" using one(1) by blast
  have f: "datas g1 = datas g" "data_list g1 = data_list g" "reg_ok g1"
    using one(2) same_reg_ok [OF one(2)] Cons.prems(1) by (simp_all add: same_reg_def)
  show ?case
  proof (cases "r1 = 0")
    case True
    have "S1 \<subseteq> D \<times> idx_of g1 ` set (data_list g1) \<union> {d} \<times> idx_of g1 ` set (xs0 @ [x])"
      using S1(1) Cons.prems(5) True f(1,2) by (auto split: if_splits)
    then have "same_reg g1 g' \<and> (\<exists>S' \<subseteq> (if rc = 0 then insert d D else D) \<times> ?I. slots_ok S' g')"
      using Cons.IH [OF f(3) _ Cons.prems(3) S1(2), of "xs0 @ [x]"] True f s Cons.prems by simp
    then show ?thesis using one(2) same_reg_trans by blast
  next
    case False
    have g': "g' = sbi_domain_cleanup_data (Some d) g1" "rc \<noteq> 0" using False s Cons.prems(6) by auto
    have "S1 - {d} \<times> idx_of g1 ` set (data_list g1) \<subseteq> D \<times> ?I" using S1(1) Cons.prems(2,5) False f(1,2) by auto
    then show ?thesis using cleanup_domain [OF S1(2), of d] one(2) g' same_reg_trans by auto
  qed
qed

lemma add_domain_safe:
  assumes "data_safe g" and "d \<notin> set (doms g)" and "add_domain fails d g = (rc, g')"
  shows "data_safe g'"
proof -
  let ?g = "g\<lparr>doms := doms g @ [d]\<rparr>" and ?I = "idx_of g ` set (data_list g)"
  obtain r1 g1 where s: "setup_loop fails d (data_list g) ?g = (r1, g1)" by fastforce
  obtain S where r: "reg_ok g" "slots_ok S g" "S \<subseteq> set (doms g) \<times> ?I" using assms(1) by (auto simp: data_safe_def)
  have r1: "reg_ok ?g" "slots_ok S ?g" using r(1,2) assms(2) slots_cong [of ?g g] by (simp_all add: reg_ok_def)
  have l: "same_reg ?g g1 \<and> (\<exists>S' \<subseteq> (if r1 = 0 then insert d (set (doms g)) else set (doms g)) \<times> ?I. slots_ok S' g1)"
    using setup_loop_safe [OF r1(1) _ assms(2) r1(2), of "[]" "data_list g" fails r1 g1] r(3) s by simp
  then obtain S' where S': "S' \<subseteq> (if r1 = 0 then insert d (set (doms g)) else set (doms g)) \<times> ?I" "slots_ok S' g1" by blast
  have f: "datas g1 = datas g" "data_list g1 = data_list g" "doms g1 = doms g @ [d]" "reg_ok g1"
    using l r1(1) same_reg_ok [of ?g g1] by (simp_all add: same_reg_def)
  show ?thesis
  proof (cases "r1 = 0")
    case True
    then have "g' = g1" using assms(3) s by (simp add: add_domain_def sbi_domain_setup_data_def)
    then show ?thesis using S' f True by (auto simp: data_safe_def)
  next
    case False
    then have g': "g' = g1\<lparr>doms := remove1 d (doms g1)\<rparr>" using assms(3) s by (simp add: add_domain_def sbi_domain_setup_data_def)
    have d: "remove1 d (doms g @ [d]) = doms g" using assms(2) by (simp add: remove1_append)
    have "slots_ok S' g'" "reg_ok g'" using S'(2) slots_cong [of g' g1] f(4) r(1) by (simp_all add: g' reg_ok_def f d)
    then show ?thesis using S'(1) False f d unfolding data_safe_def by (intro conjI exI [of _ S']) (simp_all add: g')
  qed
qed

subsection \<open>Running out of memory\<close>

text \<open>\<open>mem_lasted\<close>: no allocation has failed so far. Then the operations ran as if none could.\<close>

definition mem_lasted :: "(nat \<Rightarrow> bool) \<Rightarrow> data_globals \<Rightarrow> bool" where
  "mem_lasted fails g \<longleftrightarrow> (\<forall>n<allocs g. \<not> fails n)"

lemma allocs_cleanup_one [simp]: "allocs (domain_cleanup_data_one d x g) = allocs g"
  by (simp add: domain_cleanup_data_one_def Let_def set_slot_def sbi_free_def split: option.split)

lemma allocs_cleanup [simp]:
  "allocs (fold (domain_cleanup_data_one d) xs g) = allocs g" "allocs (fold (\<lambda>d. domain_cleanup_data_one d x) ds g) = allocs g"
  "allocs (sbi_domain_cleanup_data dp g) = allocs g" "allocs (sbi_domain_unregister_data x g) = allocs g"
proof -
  show f: "allocs (fold (domain_cleanup_data_one d) xs g) = allocs g" for d xs g by (induction xs arbitrary: g) simp_all
  show h: "allocs (fold (\<lambda>d. domain_cleanup_data_one d x) ds g) = allocs g" for x ds g by (induction ds arbitrary: g) simp_all
  show "allocs (sbi_domain_cleanup_data dp g) = allocs g" by (simp add: sbi_domain_cleanup_data_def f split: option.split)
  show "allocs (sbi_domain_unregister_data x g) = allocs g" by (simp add: sbi_domain_unregister_data_def Let_def h)
qed

lemma setup_one_lasted:
  assumes "domain_setup_data_one fails d x g = (rc, g')"
  shows "allocs g \<le> allocs g' \<and> (mem_lasted fails g' \<longrightarrow> domain_setup_data_one (\<lambda>_. False) d x g = (rc, g'))"
proof -
  have a: "allocs g' = allocs g \<or> allocs g' = allocs g + 1"
    using assms by (auto simp: domain_setup_data_one_def sbi_zalloc_def Let_def sbi_free_def set_slot_def split: if_splits)
  consider "\<not> fails (allocs g)" | y where "slot g d (data_idx (datas g x)) = Some y"
    | "fails (allocs g)" "slot g d (data_idx (datas g x)) = None" by (cases "slot g d (data_idx (datas g x))") blast+
  then show ?thesis
  proof cases
    case 3
    then have "allocs g' = allocs g + 1" using assms by (auto simp: domain_setup_data_one_def sbi_zalloc_def)
    then show ?thesis using 3(1) by (auto simp: mem_lasted_def)
  next
    case 2
    then show ?thesis using assms by (simp add: domain_setup_data_one_def)
  qed (use assms a setup_one_memory [of fails g d x] in auto)
qed

lemma mem_lasted_mono: "mem_lasted fails g' \<Longrightarrow> allocs g \<le> allocs g' \<Longrightarrow> mem_lasted fails g"
  by (simp add: mem_lasted_def)

lemma mem_lasted_same [simp]:
  "mem_lasted fails (sbi_domain_cleanup_data dp g) = mem_lasted fails g" "mem_lasted fails (sbi_domain_unregister_data x g) = mem_lasted fails g"
  by (simp_all add: mem_lasted_def)

lemma register_loop_lasted:
  "register_loop fails x ds g = (rc, g') \<Longrightarrow>
    allocs g \<le> allocs g' \<and> (mem_lasted fails g' \<longrightarrow> register_loop (\<lambda>_. False) x ds g = (rc, g'))"
proof (induction ds arbitrary: g)
  case (Cons d ds)
  obtain r1 g1 where s: "domain_setup_data_one fails d x g = (r1, g1)" by fastforce
  note one = setup_one_lasted [OF s]
  show ?case
  proof (cases "r1 = 0")
    case True
    note IH = Cons.IH [of g1]
    then show ?thesis using Cons.prems s one True mem_lasted_mono [of fails g' g1] by auto
  qed (use Cons.prems s one in auto)
qed simp

lemma setup_loop_lasted:
  "setup_loop fails d xs g = (rc, g') \<Longrightarrow>
    allocs g \<le> allocs g' \<and> (mem_lasted fails g' \<longrightarrow> setup_loop (\<lambda>_. False) d xs g = (rc, g'))"
proof (induction xs arbitrary: g)
  case (Cons x xs)
  obtain r1 g1 where s: "domain_setup_data_one fails d x g = (r1, g1)" by fastforce
  note one = setup_one_lasted [OF s]
  show ?case
  proof (cases "r1 = 0")
    case True
    note IH = Cons.IH [of g1]
    then show ?thesis using Cons.prems s one True mem_lasted_mono [of fails g' g1] by auto
  qed (use Cons.prems s one in auto)
qed simp

lemma register_lasted:
  assumes "sbi_domain_register_data fails (Some x) g = (rc, g')"
  shows "allocs g \<le> allocs g' \<and> (mem_lasted fails g' \<longrightarrow> sbi_domain_register_data (\<lambda>_. False) (Some x) g = (rc, g'))"
proof (cases "data_size (datas g x) = 0 \<or> List.find (\<lambda>i. \<not> bitmap_test (data_idx_bmap g) i) [0..<32] = None")
  case True
  then show ?thesis using assms by (auto simp: sbi_domain_register_data_def)
next
  case False
  then obtain i where i: "List.find (\<lambda>i. \<not> bitmap_test (data_idx_bmap g) i) [0..<32] = Some i" by auto
  have res: "sbi_domain_register_data f (Some x) g = register_loop f x (doms g) (with_index x i g)" for f
    using False i by (simp add: sbi_domain_register_data_def Let_def with_index_def del: bitmap_set.simps)
  then show ?thesis using register_loop_lasted [of fails x "doms g" "with_index x i g"] assms by (simp add: with_index_def)
qed

lemma add_domain_lasted:
  assumes "add_domain fails d g = (rc, g')"
  shows "allocs g \<le> allocs g' \<and> (mem_lasted fails g' \<longrightarrow> add_domain (\<lambda>_. False) d g = (rc, g'))"
proof -
  obtain r1 g1 where s: "setup_loop fails d (data_list g) (g\<lparr>doms := doms g @ [d]\<rparr>) = (r1, g1)" by fastforce
  then show ?thesis using assms setup_loop_lasted [OF s]
    by (auto simp: add_domain_def sbi_domain_setup_data_def mem_lasted_def split: if_splits)
qed

subsection \<open>Clients\<close>

text \<open>What a client of the registry gets from its pointers.\<close>

lemma data_ptr_slot: "reg_ok g \<Longrightarrow> x \<in> set (data_list g) \<Longrightarrow> sbi_domain_data_ptr g (Some d) (Some x) = slot g d (idx_of g x)"
  by (auto simp: sbi_domain_data_ptr_def reg_ok_def)

lemma data_ptr_some:
  assumes "data_inv g" and "d \<in> set (doms g)" and "x \<in> set (data_list g)"
  shows "\<exists>p \<in> live g. sbi_domain_data_ptr g (Some d) (Some x) = Some p"
proof -
  have i: "reg_ok g" "slots_ok (set (doms g) \<times> idx_of g ` set (data_list g)) g" using assms(1) by (simp_all add: data_inv_def)
  then obtain p where "slot g d (idx_of g x) = Some p" using slots_None [OF i(2), of d "idx_of g x"] assms(2,3) by fastforce
  then show ?thesis using i assms(3) data_ptr_slot [OF i(1) assms(3), of d] by (auto simp: slots_ok_def)
qed

lemma data_ptr_inj:
  assumes i: "reg_ok g" "slots_ok S g" and "x \<in> set (data_list g)" "x' \<in> set (data_list g)"
    and "sbi_domain_data_ptr g (Some d) (Some x) = Some p" "sbi_domain_data_ptr g (Some d') (Some x') = Some p"
  shows "d = d' \<and> x = x'"
proof -
  have "slot g d (idx_of g x) = Some p" "slot g d' (idx_of g x') = Some p"
    using assms(3-6) data_ptr_slot [OF i(1)] by simp_all
  from slots_inj [OF i(2) this] show ?thesis using i(1) assms(3,4) by (auto simp: reg_ok_def inj_on_def)
qed

subsection \<open>Properties\<close>

text \<open>The states reached by registering and unregistering data and adding domains, in any order, with callbacks that may fail and with
  any allocations failing (\<open>fails\<close>). A data object is registered once at a time, a domain added once.\<close>

inductive data_reach :: "(nat \<Rightarrow> bool) \<Rightarrow> data_globals \<Rightarrow> data_globals \<Rightarrow> bool" for fails g0 where
  start: "data_reach fails g0 g0"
| register: "data_reach fails g0 g \<Longrightarrow> x \<notin> set (data_list g) \<Longrightarrow>
    data_reach fails g0 (snd (sbi_domain_register_data fails (Some x) g))"
| unregister: "data_reach fails g0 g \<Longrightarrow> x \<in> set (data_list g) \<Longrightarrow> data_reach fails g0 (sbi_domain_unregister_data x g)"
| domain: "data_reach fails g0 g \<Longrightarrow> d \<notin> set (doms g) \<Longrightarrow> data_reach fails g0 (snd (add_domain fails d g))"

lemma data_unregister_inv:
  assumes "data_inv g" and "x \<in> set (data_list g)"
  shows "data_inv (sbi_domain_unregister_data x g)"
proof -
  have r: "reg_ok g" "slots_ok (set (doms g) \<times> idx_of g ` set (data_list g)) g" "inj_on (idx_of g) (set (data_list g))"
    using assms(1) by (simp_all add: data_inv_def reg_ok_def)
  then have "set (doms g) \<times> idx_of g ` set (data_list g) - set (doms g) \<times> {idx_of g x} =
    set (doms g) \<times> idx_of g ` (set (data_list g) - {x})"
    using inj_on_image_set_diff [of "idx_of g" "set (data_list g)" "set (data_list g)" "{x}"] assms(2) by auto
  then show ?thesis using r assms(2) unregister_ok by blast
qed

lemma data_reach_safe: "data_reach fails g0 g \<Longrightarrow> data_safe g0 \<Longrightarrow> data_safe g"
proof (induction rule: data_reach.induct)
  case (unregister g x)
  then show ?case using unregister_safe by (auto simp: data_safe_def)
qed (metis prod.collapse register_safe add_domain_safe)+

lemma data_reach_inv: "data_reach fails g0 g \<Longrightarrow> data_inv g0 \<Longrightarrow> mem_lasted fails g \<Longrightarrow> data_inv g"
proof (induction rule: data_reach.induct)
  case (register g x)
  obtain rc g' where r: "sbi_domain_register_data fails (Some x) g = (rc, g')" by fastforce
  then show ?case
    using register register_lasted [OF r] mem_lasted_mono [of fails g' g] register_ok [of g x] by simp
next
  case (domain g d)
  obtain rc g' where r: "add_domain fails d g = (rc, g')" by fastforce
  then show ?case
    using domain add_domain_lasted [OF r] mem_lasted_mono [of fails g' g] add_domain_ok [of g d] by simp
qed (simp_all add: data_unregister_inv)

definition data_boot :: "(nat \<Rightarrow> sbi_domain_data) \<Rightarrow> data_globals" where
  "data_boot ds = \<lparr>datas = ds, data_list = [], data_idx_bmap = [0], doms = [], slot = (\<lambda>_ _. None), live = {}, allocs = 0, cleaned = []\<rparr>"

lemma data_boot_inv: "data_inv (data_boot ds)"
  by (simp add: data_inv_def reg_ok_def slots_ok_def data_boot_def bm_bit_def)

lemma data_inv_safe: "data_inv g \<Longrightarrow> data_safe g"
  by (auto simp: data_inv_def data_safe_def)

text \<open>C33: Domain data are allocated separately and without leaks: from boot on, after any sequence of data registrations, removals and
  domain registrations, also ones whose callbacks fail and ones that find no memory, every pointer \<open>sbi_domain_data_ptr\<close> gives for
  registered data and a registered domain is a live block, different pairs of data and domain never get the same block, and every live
  block is the one of such a pair. As long as no allocation has failed, every such pair has its block; without this condition it may
  not: a registration that finds no memory takes the blocks of other data away (\<open>register_enomem_wipes\<close> below).\<close>

theorem domain_data_separate:
  assumes "data_reach fails (data_boot ds) g"
  shows "(\<forall>d \<in> set (doms g). \<forall>x \<in> set (data_list g). \<forall>p. sbi_domain_data_ptr g (Some d) (Some x) = Some p \<longrightarrow> p \<in> live g) \<and>
    (\<forall>d \<in> set (doms g). \<forall>x \<in> set (data_list g). \<forall>d' \<in> set (doms g). \<forall>x' \<in> set (data_list g). \<forall>p.
      sbi_domain_data_ptr g (Some d) (Some x) = Some p \<longrightarrow> sbi_domain_data_ptr g (Some d') (Some x') = Some p \<longrightarrow> d = d' \<and> x = x') \<and>
    (\<forall>p \<in> live g. \<exists>d \<in> set (doms g). \<exists>x \<in> set (data_list g). sbi_domain_data_ptr g (Some d) (Some x) = Some p) \<and>
    ((\<forall>n < allocs g. \<not> fails n) \<longrightarrow>
      (\<forall>d \<in> set (doms g). \<forall>x \<in> set (data_list g). sbi_domain_data_ptr g (Some d) (Some x) \<noteq> None))"
proof -
  have "data_safe g" using data_reach_safe [OF assms data_inv_safe [OF data_boot_inv]] .
  then obtain S where i: "reg_ok g" "slots_ok S g" "S \<subseteq> set (doms g) \<times> idx_of g ` set (data_list g)" by (auto simp: data_safe_def)
  have "\<exists>d \<in> set (doms g). \<exists>x \<in> set (data_list g). sbi_domain_data_ptr g (Some d) (Some x) = Some p" if "p \<in> live g" for p
  proof -
    obtain d k where k: "slot g d k = Some p" using i(2) \<open>p \<in> live g\<close> by (auto simp: slots_ok_def)
    then have "(d, k) \<in> set (doms g) \<times> idx_of g ` set (data_list g)" using slots_None [OF i(2), of d k] i(3) by auto
    then show ?thesis using k i(1) data_ptr_slot [of g] by auto
  qed
  moreover have "p \<in> live g" if "x \<in> set (data_list g)" "sbi_domain_data_ptr g (Some d) (Some x) = Some p" for d x p
    using that i data_ptr_slot [OF i(1), of x d] by (auto simp: slots_ok_def)
  moreover have "d = d' \<and> x = x'" if "x \<in> set (data_list g)" "x' \<in> set (data_list g)"
    "sbi_domain_data_ptr g (Some d) (Some x) = Some p" "sbi_domain_data_ptr g (Some d') (Some x') = Some p" for d x d' x' p
    using data_ptr_inj [OF i(1,2) that] .
  moreover have "sbi_domain_data_ptr g (Some d) (Some x) \<noteq> None"
    if "\<forall>n < allocs g. \<not> fails n" "d \<in> set (doms g)" "x \<in> set (data_list g)" for d x
  proof -
    have "data_inv g" using data_reach_inv [OF assms data_boot_inv] that(1) by (simp add: mem_lasted_def)
    from data_ptr_some [OF this that(2,3)] show ?thesis by auto
  qed
  ultimately show ?thesis by blast
qed

definition ex_data :: sbi_domain_data where
  "ex_data = \<lparr>data_idx = 0, data_size = 64, data_setup = None, data_cleanup = True\<rparr>"

theorem domain_data_separate_witness:
  "let g = snd (add_domain (\<lambda>_. False) 5 (snd (sbi_domain_register_data (\<lambda>_. False) (Some 0) (data_boot (\<lambda>_. ex_data)))))
   in doms g = [5] \<and> data_list g = [0] \<and> (\<exists>p \<in> live g. sbi_domain_data_ptr g (Some 5) (Some 0) = Some p)"
proof -
  let ?r = "snd (sbi_domain_register_data (\<lambda>_. False) (Some 0) (data_boot (\<lambda>_. ex_data)))"
  let ?g = "snd (add_domain (\<lambda>_. False) 5 ?r)"
  have f: "List.find (\<lambda>i. \<not> bitmap_test [0] i) [0..<32] = Some 0"
    by (subst upt_conv_Cons) (simp_all add: bitmap_test_def test_bit_mem_eq bm_bit_def)
  have r: "doms ?r = []" "data_list ?r = [0]"
    by (simp_all add: sbi_domain_register_data_def data_boot_def ex_data_def f Let_def)
  have d: "data_setup (datas ?r 0) = None"
    by (simp add: sbi_domain_register_data_def data_boot_def ex_data_def f Let_def)
  have s: "slot ?r 5 (idx_of ?r 0) = None"
    by (simp add: sbi_domain_register_data_def data_boot_def ex_data_def f Let_def)
  have g: "doms ?g = [5]" "data_list ?g = [0]"
    using r d s by (simp_all add: add_domain_def sbi_domain_setup_data_def domain_setup_data_one_def sbi_zalloc_def set_slot_def)
  have reach: "data_reach (\<lambda>_. False) (data_boot (\<lambda>_. ex_data)) ?g"
    using r by (intro data_reach.domain data_reach.register data_reach.start) (simp_all add: data_boot_def)
  define h where "h = ?g"
  have h: "doms h = [5]" "data_list h = [0]" using g unfolding h_def by blast+
  note sep = domain_data_separate [OF reach, folded h_def]
  have "sbi_domain_data_ptr h (Some 5) (Some 0) \<noteq> None" using sep [THEN conjunct2, THEN conjunct2, THEN conjunct2] unfolding h by simp
  then obtain p where p: "sbi_domain_data_ptr h (Some 5) (Some 0) = Some p" by blast
  then have "p \<in> live h" using sep [THEN conjunct1] unfolding h by simp
  then have "doms h = [5] \<and> data_list h = [0] \<and> (\<exists>p \<in> live h. sbi_domain_data_ptr h (Some 5) (Some 0) = Some p)" using p h by blast
  then show ?thesis unfolding Let_def h_def .
qed

text \<open>Running out of memory is different: when the block for a new data object cannot be allocated, \<open>domain_setup_data_one\<close> removes
  every block of the domain, so the other components lose their data although they are still registered.\<close>

lemma register_enomem_wipes:
  assumes inv: "data_inv g" and x: "x \<notin> set (data_list g)" "data_size (datas g x) \<noteq> 0" and fails: "fails (allocs g)"
    and i: "List.find (\<lambda>i. \<not> bitmap_test (data_idx_bmap g) i) [0..<32] = Some i" and ds: "doms g = d # ds"
    and res: "sbi_domain_register_data fails (Some x) g = (rc, g')" and y: "y \<in> set (data_list g)"
  shows "rc = SBI_ENOMEM \<and> d \<in> set (doms g') \<and> y \<in> set (data_list g') \<and> sbi_domain_data_ptr g' (Some d) (Some y) = None"
proof -
  define g1 where "g1 = g\<lparr>data_idx_bmap := bitmap_set (data_idx_bmap g) i 1, datas := (datas g)(x := (datas g x)\<lparr>data_idx := i\<rparr>),
    data_list := data_list g @ [x], allocs := allocs g + 1\<rparr>"
  let ?S = "set (doms g) \<times> idx_of g ` set (data_list g)" and ?g2 = "sbi_domain_cleanup_data (Some d) g1"
  let ?S2 = "?S - {d} \<times> idx_of g1 ` set (data_list g1)"
  have r: "reg_ok g" "slots_ok ?S g" using inv by (simp_all add: data_inv_def)
  have "\<not> bm_bit (data_idx_bmap g) i" "i < 32" using i by (auto simp: find_Some_iff bitmap_test_def test_bit_mem_eq)
  then have "i \<notin> idx_of g ` set (data_list g)" using r(1) by (auto simp: reg_ok_def)
  then have n: "slot g d i = None" using slots_None [OF r(2), of d i] by auto
  have r1: "slots_ok ?S g1" by (rule slots_okI) (use r(2) in \<open>auto simp: g1_def slots_ok_def less_Suc_eq\<close>)
  note c = cleanup_domain [OF r1, of d]
  have f: "datas ?g2 = datas g1" "data_list ?g2 = data_list g @ [x]" "doms ?g2 = doms g"
    using c(2) by (simp_all add: same_reg_def g1_def)
  have g': "rc = SBI_ENOMEM" "g' = sbi_domain_unregister_data x ?g2"
    using res x(2) i ds fails n
    by (simp_all add: sbi_domain_register_data_def Let_def domain_setup_data_one_def sbi_zalloc_def g1_def del: bitmap_set.simps)
  let ?g3 = "fold (\<lambda>d. domain_cleanup_data_one d x) (doms ?g2) ?g2"
  have c3: "slots_ok (?S2 - set (map (\<lambda>(d, x). (d, idx_of ?g2 x)) (map (\<lambda>d. (d, x)) (doms ?g2)))) ?g3" "same_reg ?g2 ?g3"
    using cleanup_slots [OF c(1), of "map (\<lambda>d. (d, x)) (doms ?g2)"] unfolding fold_pairs(2) by blast+
  have k: "idx_of g1 y = idx_of g y" "y \<in> set (data_list g1)" using x(1) y by (auto simp: g1_def)
  then have "(d, idx_of g y) \<notin> ?S2" by force
  then have "slot ?g3 d (idx_of g y) = None" using slots_None [OF c3(1), of d "idx_of g y"] by simp
  moreover have "datas ?g3 = datas g1" "data_list ?g3 = data_list g @ [x]" "doms ?g3 = doms g" using c3(2) f by (simp_all add: same_reg_def)
  ultimately show ?thesis
    using g' k(1) ds x(1) y by (auto simp: sbi_domain_unregister_data_def Let_def sbi_domain_data_ptr_def remove1_append)
qed

end
