(* ===== verification/Sbi_Pmp.thy ===== *)
theory Sbi_Pmp
  imports Sbi_Domain_Access "HOL-Library.Monad_Syntax"
begin

unbundle bit_operations_syntax

text \<open>
  Physical memory protection: the PMP access functions of \<open>lib/sbi/riscv_asm.c\<close> and the programming of a domain's regions into
  the PMP registers in \<open>lib/sbi/sbi_hart.c\<close>, with and without the Smepmp extension.

  The registers are CSRs by number. \<open>csr_write\<close> and \<open>pmp_check\<close> are the hardware's part, as the privileged architecture and the
  Smepmp extension define it for RV64: a locked entry ignores writes unless \<open>mseccfg.RLB\<close> is set, an address register keeps
  \<open>abits\<close> bits, the lowest-numbered matching entry decides an access. \<open>None\<close> is \<open>sbi_panic\<close>.
\<close>

subsection \<open>Constants\<close>

definition PMP_R :: ulong where [simp, sbi_defs]: "PMP_R = 1"
definition PMP_W :: ulong where [simp, sbi_defs]: "PMP_W = 2"
definition PMP_X :: ulong where [simp, sbi_defs]: "PMP_X = 4"
definition PMP_A :: ulong where [simp, sbi_defs]: "PMP_A = 0x18"
definition PMP_A_TOR :: ulong where [simp, sbi_defs]: "PMP_A_TOR = 8"
definition PMP_A_NA4 :: ulong where [simp, sbi_defs]: "PMP_A_NA4 = 0x10"
definition PMP_A_NAPOT :: ulong where [simp, sbi_defs]: "PMP_A_NAPOT = 0x18"
definition PMP_L :: ulong where [simp, sbi_defs]: "PMP_L = 0x80"
definition PMP_SHIFT :: nat where [simp, sbi_defs]: "PMP_SHIFT = 2"
definition PMP_COUNT :: nat where [simp, sbi_defs]: "PMP_COUNT = 64"

definition CSR_PMPCFG0 :: nat where [simp, sbi_defs]: "CSR_PMPCFG0 = 0x3a0"
definition CSR_PMPADDR0 :: nat where [simp, sbi_defs]: "CSR_PMPADDR0 = 0x3b0"
definition CSR_MCYCLE :: nat where [simp, sbi_defs]: "CSR_MCYCLE = 0xb00"
definition CSR_MINSTRET :: nat where [simp, sbi_defs]: "CSR_MINSTRET = 0xb02"
definition CSR_MHPMCOUNTER3 :: nat where [simp, sbi_defs]: "CSR_MHPMCOUNTER3 = 0xb03"
definition CSR_MCOUNTINHIBIT :: nat where [simp, sbi_defs]: "CSR_MCOUNTINHIBIT = 0x320"
definition CSR_MCYCLECFG :: nat where [simp, sbi_defs]: "CSR_MCYCLECFG = 0x321"
definition CSR_MINSTRETCFG :: nat where [simp, sbi_defs]: "CSR_MINSTRETCFG = 0x322"
definition CSR_MHPMEVENT3 :: nat where [simp, sbi_defs]: "CSR_MHPMEVENT3 = 0x323"
definition CSR_MSECCFG :: nat where [simp, sbi_defs]: "CSR_MSECCFG = 0x747"

definition MSECCFG_MML :: ulong where "MSECCFG_MML = BIT 0"
definition MSECCFG_RLB :: ulong where "MSECCFG_RLB = BIT 2"

definition SBI_SMEPMP_RESV_ENTRY :: nat where [simp, sbi_defs]: "SBI_SMEPMP_RESV_ENTRY = 0"

definition SBI_DOMAIN_MEMREGION_ENF_PERMISSIONS :: ulong where "SBI_DOMAIN_MEMREGION_ENF_PERMISSIONS = BIT 6"

subsection \<open>The hardware\<close>

record pmp_hw =
  csr :: "nat \<Rightarrow> ulong"
  abits :: nat

definition csr_read :: "nat \<Rightarrow> pmp_hw \<Rightarrow> ulong" where
  "csr_read num m = csr m num"

text \<open>Entry \<open>i\<close>: its configuration byte and its address register; on RV64 a configuration CSR holds eight entries.\<close>

definition cfg_csr :: "nat \<Rightarrow> nat" where "cfg_csr i = 0x3a0 + 2 * (i div 8)"

definition entry_cfg :: "pmp_hw \<Rightarrow> nat \<Rightarrow> ulong" where
  "entry_cfg m i = drop_bit (8 * (i mod 8)) (csr m (cfg_csr i)) AND 0xff"

definition entry_addr :: "pmp_hw \<Rightarrow> nat \<Rightarrow> ulong" where
  "entry_addr m i = csr m (0x3b0 + i)"

definition rlb :: "pmp_hw \<Rightarrow> bool" where "rlb m \<longleftrightarrow> bit (csr m 0x747) 2"
definition mml :: "pmp_hw \<Rightarrow> bool" where "mml m \<longleftrightarrow> bit (csr m 0x747) 0"

definition entry_locked :: "pmp_hw \<Rightarrow> nat \<Rightarrow> bool" where
  "entry_locked m i \<longleftrightarrow> bit (entry_cfg m i) 7 \<and> \<not> rlb m"

text \<open>The bits of a configuration CSR whose byte is locked.\<close>

definition lock_mask :: "ulong \<Rightarrow> ulong" where
  "lock_mask w = fold (\<lambda>j acc. acc OR (if bit w (8 * j + 7) then push_bit (8 * j) 0xff else 0)) [0..<8] 0"

definition csr_write :: "nat \<Rightarrow> ulong \<Rightarrow> pmp_hw \<Rightarrow> pmp_hw" where
  "csr_write num v m =
    (if 0x3a0 \<le> num \<and> num < 0x3b0 then
       let keep = (if rlb m then 0 else lock_mask (csr m num))
       in m\<lparr>csr := (csr m)(num := (csr m num AND keep) OR (v AND NOT keep))\<rparr>
     else if 0x3b0 \<le> num \<and> num < 0x3f0 then
       let i = num - 0x3b0
       in if entry_locked m i \<or> entry_locked m (i + 1) \<and> i + 1 < 64 \<and> entry_cfg m (i + 1) AND 0x18 = 8 then m
          else m\<lparr>csr := (csr m)(num := v AND mask (abits m))\<rparr>
     else m\<lparr>csr := (csr m)(num := v)\<rparr>)"

text \<open>
  Whether entry \<open>i\<close> matches a byte address. In a NAPOT entry the ones at the low end of the address register give the size, and
  \<open>p XOR (p + 1)\<close> is the mask of the bits that do not take part in the comparison.
\<close>

definition napot_mask :: "ulong \<Rightarrow> ulong" where "napot_mask p = p XOR (p + 1)"

definition pmp_match :: "pmp_hw \<Rightarrow> nat \<Rightarrow> ulong \<Rightarrow> bool" where
  "pmp_match m i a =
    (let p = entry_addr m i; t = entry_cfg m i AND 0x18; w = drop_bit 2 a
     in if t = 0x18 then w AND NOT (napot_mask p) = p AND NOT (napot_mask p)
        else if t = 0x10 then w = p
        else if t = 8 then (if i = 0 then 0 else entry_addr m (i - 1)) \<le> w \<and> w < p
        else False)"

text \<open>The permissions an entry gives, as a mask of \<open>PMP_R\<close>, \<open>PMP_W\<close> and \<open>PMP_X\<close>; the second is the table of Smepmp.\<close>

definition plain_perm :: "ulong \<Rightarrow> ulong \<Rightarrow> ulong" where
  "plain_perm cfg mode = (if mode = PRV_M \<and> \<not> bit cfg 7 then 7 else cfg AND 7)"

definition mml_perm :: "ulong \<Rightarrow> ulong \<Rightarrow> ulong" where
  "mml_perm cfg mode =
    (let rwx = cfg AND 7
     in if bit cfg 7 then
          if rwx = 2 then 4
          else if rwx = 6 then (if mode = PRV_M then 5 else 4)
          else if rwx = 7 then 1
          else if mode = PRV_M then rwx else 0
        else
          if rwx = 2 then (if mode = PRV_M then 3 else 1)
          else if rwx = 6 then 3
          else if mode = PRV_M then 0 else rwx)"

definition pmp_check :: "nat \<Rightarrow> pmp_hw \<Rightarrow> ulong \<Rightarrow> ulong \<Rightarrow> ulong \<Rightarrow> bool" where
  "pmp_check cnt m mode acc a =
    (case List.find (\<lambda>i. pmp_match m i a) [0..<cnt] of
      None \<Rightarrow> mode = PRV_M \<and> (mml m \<longrightarrow> acc AND 4 = 0)
    | Some i \<Rightarrow>
        (if mml m then mml_perm (entry_cfg m i) mode else plain_perm (entry_cfg m i) mode) AND acc = acc)"

subsection \<open>PMP access functions\<close>

text \<open>The CSRs that \<open>csr_read_num\<close> and \<open>csr_write_num\<close> know on RV64.\<close>

definition known_csr :: "nat \<Rightarrow> bool" where
  "known_csr num \<longleftrightarrow>
    CSR_PMPCFG0 \<le> num \<and> num < CSR_PMPCFG0 + 16 \<or> CSR_PMPADDR0 \<le> num \<and> num < CSR_PMPADDR0 + 64 \<or>
    num = CSR_MCYCLE \<or> num = CSR_MINSTRET \<or> CSR_MHPMCOUNTER3 \<le> num \<and> num < CSR_MHPMCOUNTER3 + 29 \<or>
    num = CSR_MCOUNTINHIBIT \<or> num = CSR_MCYCLECFG \<or> num = CSR_MINSTRETCFG \<or>
    CSR_MHPMEVENT3 \<le> num \<and> num < CSR_MHPMEVENT3 + 29"

definition csr_read_num :: "nat \<Rightarrow> pmp_hw \<Rightarrow> ulong option" where
  "csr_read_num num m = (if known_csr num then Some (csr_read num m) else None)"

definition csr_write_num :: "nat \<Rightarrow> ulong \<Rightarrow> pmp_hw \<Rightarrow> pmp_hw option" where
  "csr_write_num num v m = (if known_csr num then Some (csr_write num v m) else None)"

text \<open>The loop of \<open>ctz\<close>; its caller excludes 0, for which the test of the model adds an end.\<close>

function ctz_loop :: "ulong \<Rightarrow> nat \<Rightarrow> nat" where
  "ctz_loop x ret = (if x AND 1 \<noteq> 0 \<or> x = 0 then ret else ctz_loop (drop_bit 1 x) (ret + 1))"
  by pat_completeness auto
termination
  by (relation "measure (\<lambda>(x, r). unat x)") (auto simp: drop_bit_eq_div unat_div unat_gt_0)

declare ctz_loop.simps [simp del]

definition ctz :: "ulong \<Rightarrow> nat" where
  "ctz x = (if x = 0 then 64 else ctz_loop x 0)"

definition pmpcfg_csr :: "nat \<Rightarrow> nat" where
  "pmpcfg_csr n = unset_bit 0 (CSR_PMPCFG0 + n div 4)"

definition pmpcfg_shift :: "nat \<Rightarrow> nat" where
  "pmpcfg_shift n = (n mod 8) * 8"

definition pmp_disable :: "nat \<Rightarrow> pmp_hw \<Rightarrow> (int \<times> pmp_hw) option" where
  "pmp_disable n m =
    (if PMP_COUNT \<le> n then Some (SBI_EINVAL, m)
     else do {
       old \<leftarrow> csr_read_num (pmpcfg_csr n) m;
       let cfgmask = NOT (push_bit (pmpcfg_shift n) 0xff);
       let pmpcfg = old AND cfgmask;
       m \<leftarrow> csr_write_num (pmpcfg_csr n) pmpcfg m;
       Some (SBI_OK, m)
     })"

definition pmp_encode_addr :: "ulong \<Rightarrow> nat \<Rightarrow> ulong" where
  "pmp_encode_addr addr log2len =
    (if log2len = PMP_SHIFT then drop_bit PMP_SHIFT addr
     else if log2len = 64 then -1
     else let addrmask = push_bit (log2len - PMP_SHIFT) 1 - 1
          in (drop_bit PMP_SHIFT addr AND NOT addrmask) OR drop_bit 1 addrmask)"

definition pmp_set :: "nat \<Rightarrow> ulong \<Rightarrow> ulong \<Rightarrow> nat \<Rightarrow> pmp_hw \<Rightarrow> (int \<times> pmp_hw) option" where
  "pmp_set n prot addr log2len m =
    (if PMP_COUNT \<le> n \<or> 64 < log2len \<or> log2len < PMP_SHIFT then Some (SBI_EINVAL, m)
     else do {
       let prot = (prot AND NOT PMP_A) OR (if log2len = PMP_SHIFT then PMP_A_NA4 else PMP_A_NAPOT);
       let cfgmask = NOT (push_bit (pmpcfg_shift n) 0xff);
       old \<leftarrow> csr_read_num (pmpcfg_csr n) m;
       let pmpcfg = old AND cfgmask;
       let pmpcfg = pmpcfg OR (push_bit (pmpcfg_shift n) prot AND NOT cfgmask);
       m \<leftarrow> csr_write_num (CSR_PMPADDR0 + n) (pmp_encode_addr addr log2len) m;
       m \<leftarrow> csr_write_num (pmpcfg_csr n) pmpcfg m;
       Some (0, m)
     })"

text \<open>\<open>pmp_get\<close>: the code, and protection, address and size.\<close>

definition pmp_get :: "nat \<Rightarrow> pmp_hw \<Rightarrow> (int \<times> ulong \<times> ulong \<times> nat) option" where
  "pmp_get n m =
    (if PMP_COUNT \<le> n then Some (SBI_EINVAL, 0, 0, 0)
     else do {
       let cfgmask = push_bit (pmpcfg_shift n) 0xff;
       cfg \<leftarrow> csr_read_num (pmpcfg_csr n) m;
       let prot = drop_bit (pmpcfg_shift n) (cfg AND cfgmask);
       addr \<leftarrow> csr_read_num (CSR_PMPADDR0 + n) m;
       Some (if prot AND PMP_A = PMP_A_NAPOT then
               if addr = -1 then (0, prot, 0, 64)
               else let t1 = ctz (NOT addr)
                    in (0, prot, push_bit PMP_SHIFT (addr AND NOT (push_bit t1 1 - 1)), t1 + PMP_SHIFT + 1)
             else (0, prot, push_bit PMP_SHIFT addr, PMP_SHIFT))
     })"

definition is_pmp_entry_mapped :: "nat \<Rightarrow> pmp_hw \<Rightarrow> bool option" where
  "is_pmp_entry_mapped entry m =
    do {
      (ret, prot, addr, log2len) \<leftarrow> pmp_get entry m;
      Some (if ret \<noteq> 0 then False else prot AND PMP_A \<noteq> 0)
    }"

subsection \<open>Programming the regions of a domain\<close>

record sbi_hart_features =
  has_smepmp :: bool
  pmp_count :: nat
  pmp_addr_bits :: nat
  pmp_log2gran :: nat

definition oldpmp_flags :: "sbi_domain_memregion \<Rightarrow> ulong" where
  "oldpmp_flags reg =
    (if flags reg AND SBI_DOMAIN_MEMREGION_ENF_PERMISSIONS \<noteq> 0 then PMP_L else 0) OR
    (if flags reg AND SBI_DOMAIN_MEMREGION_SU_READABLE \<noteq> 0 then PMP_R else 0) OR
    (if flags reg AND SBI_DOMAIN_MEMREGION_SU_WRITABLE \<noteq> 0 then PMP_W else 0) OR
    (if flags reg AND SBI_DOMAIN_MEMREGION_SU_EXECUTABLE \<noteq> 0 then PMP_X else 0)"

fun oldpmp_loop :: "sbi_hart_features \<Rightarrow> ulong \<Rightarrow> nat \<Rightarrow> sbi_domain_memregion list \<Rightarrow> pmp_hw \<Rightarrow> pmp_hw option" where
  "oldpmp_loop hf mx idx [] m = Some m"
| "oldpmp_loop hf mx idx (reg # rs) m =
    (if pmp_count hf \<le> idx then Some m
     else if pmp_log2gran hf \<le> order reg \<and> drop_bit PMP_SHIFT (base reg) < mx
     then do {
       (ret, m) \<leftarrow> pmp_set idx (oldpmp_flags reg) (base reg) (order reg) m;
       oldpmp_loop hf mx (idx + 1) rs m
     }
     else oldpmp_loop hf mx idx rs m)"

definition sbi_hart_oldpmp_configure :: "sbi_hart_features \<Rightarrow> ulong \<Rightarrow> sbi_domain \<Rightarrow> pmp_hw \<Rightarrow> (int \<times> pmp_hw) option" where
  "sbi_hart_oldpmp_configure hf mx dm m =
    map_option (\<lambda>m. (0, m)) (oldpmp_loop hf mx 0 (sbi_domain_for_each_memregion dm) m)"

text \<open>The region types of Smepmp, from the low six flag bits.\<close>

definition ACCESS_MASK :: ulong where [simp, sbi_defs]: "ACCESS_MASK = 0x3f"

definition IS_SUR_MR :: "ulong \<Rightarrow> bool" where "IS_SUR_MR fl \<longleftrightarrow> fl AND ACCESS_MASK = 0x09"
definition IS_SUX_MRX :: "ulong \<Rightarrow> bool" where "IS_SUX_MRX fl \<longleftrightarrow> fl AND ACCESS_MASK = 0x25"
definition IS_SUX_MX :: "ulong \<Rightarrow> bool" where "IS_SUX_MX fl \<longleftrightarrow> fl AND ACCESS_MASK = 0x24"
definition IS_SURW_MRW :: "ulong \<Rightarrow> bool" where "IS_SURW_MRW fl \<longleftrightarrow> fl AND ACCESS_MASK = 0x1b"
definition IS_SUR_MRW :: "ulong \<Rightarrow> bool" where "IS_SUR_MRW fl \<longleftrightarrow> fl AND ACCESS_MASK = 0x0b"

definition IS_SHARED :: "ulong \<Rightarrow> bool" where
  "IS_SHARED fl \<longleftrightarrow> IS_SUR_MR fl \<or> IS_SUX_MRX fl \<or> IS_SUX_MX fl \<or> IS_SURW_MRW fl \<or> IS_SUR_MRW fl"

definition M_ONLY_ACCESS :: "ulong \<Rightarrow> bool" where
  "M_ONLY_ACCESS fl \<longleftrightarrow>
    fl AND SBI_DOMAIN_MEMREGION_M_ACCESS_MASK \<noteq> 0 \<and> fl AND SBI_DOMAIN_MEMREGION_SU_ACCESS_MASK = 0"

definition SU_ONLY_ACCESS :: "ulong \<Rightarrow> bool" where
  "SU_ONLY_ACCESS fl \<longleftrightarrow>
    fl AND SBI_DOMAIN_MEMREGION_SU_ACCESS_MASK \<noteq> 0 \<and> fl AND SBI_DOMAIN_MEMREGION_M_ACCESS_MASK = 0"

definition sbi_hart_get_smepmp_flags :: "sbi_domain_memregion \<Rightarrow> ulong" where
  "sbi_hart_get_smepmp_flags reg =
    (let fl = flags reg
     in if IS_SHARED fl then
          if IS_SUR_MR fl then PMP_L OR PMP_R OR PMP_W OR PMP_X
          else if IS_SUX_MRX fl then PMP_L OR PMP_W OR PMP_X
          else if IS_SUX_MX fl then PMP_L OR PMP_W
          else if IS_SURW_MRW fl then PMP_W OR PMP_X
          else if IS_SUR_MRW fl then PMP_W
          else 0
        else if M_ONLY_ACCESS fl then
          if fl AND SBI_DOMAIN_MEMREGION_M_ACCESS_MASK = 7 then 0
          else PMP_L OR
            (if fl AND SBI_DOMAIN_MEMREGION_M_READABLE \<noteq> 0 then PMP_R else 0) OR
            (if fl AND SBI_DOMAIN_MEMREGION_M_WRITABLE \<noteq> 0 then PMP_W else 0) OR
            (if fl AND SBI_DOMAIN_MEMREGION_M_EXECUTABLE \<noteq> 0 then PMP_X else 0)
        else if SU_ONLY_ACCESS fl then
          (if fl AND SBI_DOMAIN_MEMREGION_SU_READABLE \<noteq> 0 then PMP_R else 0) OR
          (if fl AND SBI_DOMAIN_MEMREGION_SU_WRITABLE \<noteq> 0 then PMP_W else 0) OR
          (if fl AND SBI_DOMAIN_MEMREGION_SU_EXECUTABLE \<noteq> 0 then PMP_X else 0)
        else 0)"

definition sbi_hart_smepmp_set :: "sbi_domain_memregion \<Rightarrow> nat \<Rightarrow> ulong \<Rightarrow> nat \<Rightarrow> ulong \<Rightarrow> pmp_hw \<Rightarrow> pmp_hw option" where
  "sbi_hart_smepmp_set reg idx fl log2gran mx m =
    (if log2gran \<le> order reg \<and> drop_bit PMP_SHIFT (base reg) < mx
     then map_option snd (pmp_set idx fl (base reg) (order reg) m)
     else Some m)"

text \<open>
  One pass of \<open>sbi_hart_smepmp_configure\<close> over the regions, for those with \<open>M_ONLY_ACCESS flags = sel\<close>. The flag of the result
  says that the pass ran to its end; at a region without PMP flags the function returns at once.
\<close>

fun smepmp_pass ::
  "sbi_hart_features \<Rightarrow> ulong \<Rightarrow> bool \<Rightarrow> nat \<Rightarrow> sbi_domain_memregion list \<Rightarrow> pmp_hw \<Rightarrow> (bool \<times> pmp_hw) option" where
  "smepmp_pass hf mx sel idx [] m = Some (True, m)"
| "smepmp_pass hf mx sel idx (reg # rs) m =
    (let idx = (if idx = SBI_SMEPMP_RESV_ENTRY then idx + 1 else idx)
     in if pmp_count hf \<le> idx then Some (True, m)
        else if M_ONLY_ACCESS (flags reg) \<noteq> sel then smepmp_pass hf mx sel (idx + 1) rs m
        else
          let fl = sbi_hart_get_smepmp_flags reg
          in if fl = 0 then Some (False, m)
             else do {
               m \<leftarrow> sbi_hart_smepmp_set reg idx fl (pmp_log2gran hf) mx m;
               smepmp_pass hf mx sel (idx + 1) rs m
             })"

definition csr_set :: "nat \<Rightarrow> ulong \<Rightarrow> pmp_hw \<Rightarrow> pmp_hw" where
  "csr_set num v m = csr_write num (csr_read num m OR v) m"

definition sbi_hart_smepmp_configure :: "sbi_hart_features \<Rightarrow> ulong \<Rightarrow> sbi_domain \<Rightarrow> pmp_hw \<Rightarrow> (int \<times> pmp_hw) option" where
  "sbi_hart_smepmp_configure hf mx dm m =
    do {
      let m = csr_set CSR_MSECCFG MSECCFG_RLB m;
      (ret, m) \<leftarrow> pmp_disable SBI_SMEPMP_RESV_ENTRY m;
      (fin, m) \<leftarrow> smepmp_pass hf mx True 0 (sbi_domain_for_each_memregion dm) m;
      if \<not> fin then Some (0, m)
      else do {
        let m = csr_set CSR_MSECCFG MSECCFG_MML m;
        (fin, m) \<leftarrow> smepmp_pass hf mx False 0 (sbi_domain_for_each_memregion dm) m;
        Some (0, m)
      }
    }"

text \<open>\<open>sbi_hart_pmp_configure\<close>; the fences at its end have no effect on the registers.\<close>

definition sbi_hart_pmp_configure :: "sbi_hart_features \<Rightarrow> sbi_domain \<Rightarrow> pmp_hw \<Rightarrow> (int \<times> pmp_hw) option" where
  "sbi_hart_pmp_configure hf dm m =
    (if pmp_count hf = 0 then Some (0, m)
     else
       let pmp_bits = pmp_addr_bits hf - 1;
           mx = BIT pmp_bits OR (BIT pmp_bits - 1)
       in if has_smepmp hf then sbi_hart_smepmp_configure hf mx dm m
          else sbi_hart_oldpmp_configure hf mx dm m)"

text \<open>The search of \<open>sbi_hart_map_saddr\<close> for a region; \<open>None\<close> is its \<open>return SBI_EFAIL\<close>.\<close>

function map_saddr_loop :: "ulong \<Rightarrow> ulong \<Rightarrow> nat \<Rightarrow> ulong \<Rightarrow> (ulong \<times> nat) option" where
  "map_saddr_loop addr sz ord b =
    (if ord \<le> 64 then
       if ord < 64 then
         let b = addr AND NOT (push_bit ord 1 - 1)
         in if b \<le> addr \<and> addr < b + push_bit ord 1 \<and> b \<le> addr + sz - 1 \<and> addr + sz - 1 < b + push_bit ord 1
            then Some (b, ord) else map_saddr_loop addr sz (ord + 1) b
       else None
     else Some (b, ord))"
  by pat_completeness auto
termination
  by (relation "measure (\<lambda>(addr, sz, ord, b). 65 - ord)") auto

declare map_saddr_loop.simps [simp del]

definition sbi_hart_map_saddr :: "sbi_hart_features \<Rightarrow> ulong \<Rightarrow> ulong \<Rightarrow> pmp_hw \<Rightarrow> (int \<times> pmp_hw) option" where
  "sbi_hart_map_saddr hf addr sz m =
    (if \<not> has_smepmp hf then Some (SBI_OK, m)
     else do {
       mapped \<leftarrow> is_pmp_entry_mapped SBI_SMEPMP_RESV_ENTRY m;
       if mapped then Some (SBI_ENOSPC, m)
       else (case map_saddr_loop addr sz (max (pmp_log2gran hf) (log2roundup sz)) 0 of
           None \<Rightarrow> Some (SBI_EFAIL, m)
         | Some (b, ord) \<Rightarrow> map_option (\<lambda>(_, m). (SBI_OK, m)) (pmp_set SBI_SMEPMP_RESV_ENTRY (PMP_W OR PMP_X) b ord m))
     })"

definition sbi_hart_unmap_saddr :: "sbi_hart_features \<Rightarrow> pmp_hw \<Rightarrow> (int \<times> pmp_hw) option" where
  "sbi_hart_unmap_saddr hf m =
    (if \<not> has_smepmp hf then Some (SBI_OK, m) else pmp_disable SBI_SMEPMP_RESV_ENTRY m)"

end
