(* ===== verification/Sbi_Pmp_Regs.thy ===== *)
theory Sbi_Pmp_Regs
  imports Sbi_Pmp
begin

unbundle bit_operations_syntax

text \<open>
  The PMP access functions at the level of entries: what \<open>pmp_set\<close> and \<open>pmp_disable\<close> do to the configuration bytes and address
  registers, and which addresses an entry matches that was encoded from a valid region.
\<close>

subsection \<open>Registers\<close>

lemma unset_bit_0_nat: "unset_bit 0 (x :: nat) = 2 * (x div 2)"
  by (simp add: unset_bit_0)

lemma pmpcfg_csr_eq [simp]: "pmpcfg_csr n = cfg_csr n"
  proof -
  have "n div 8 = n div 4 div 2" by (simp add: div_mult2_eq [symmetric])
  moreover have "2 * ((928 + x) div 2) = 928 + 2 * (x div 2)" for x :: nat by presburger
  ultimately show ?thesis by (simp add: pmpcfg_csr_def unset_bit_0_nat cfg_csr_def)
qed

lemma pmpcfg_shift_eq [simp]: "pmpcfg_shift n = 8 * (n mod 8)"
  by (simp add: pmpcfg_shift_def)

lemma known_pmp [simp]: "n < 64 \<Longrightarrow> known_csr (cfg_csr n)" "n < 64 \<Longrightarrow> known_csr (0x3b0 + n)"
  by (auto simp: known_csr_def cfg_csr_def)

lemma cfg_csr_range: "n < 64 \<Longrightarrow> 0x3a0 \<le> cfg_csr n \<and> cfg_csr n < 0x3b0"
  by (simp add: cfg_csr_def)

lemma bit_0xff [simp]: "bit (255 :: int) k \<longleftrightarrow> k < 8"
proof -
  have "bit (mask 8 :: int) k \<longleftrightarrow> k < 8" by (simp only: bit_mask_iff possible_bit_int simp_thms)
  moreover have "(mask 8 :: int) = 255" by (simp add: mask_eq_exp_minus_1)
  ultimately show ?thesis by metis
qed

lemma bit_18 [simp]: "bit (24 :: int) k \<longleftrightarrow> k = 3 \<or> k = 4"
proof -
  have "bit (2 ^ 3 OR 2 ^ 4 :: int) k \<longleftrightarrow> k = 3 \<or> k = 4" unfolding bit_or_iff bit_exp_iff by auto
  then show ?thesis by simp
qed

lemma bit_lock_mask: "bit (lock_mask w) k \<longleftrightarrow> k < 64 \<and> bit w (8 * (k div 8) + 7)"
proof -
  have "bit (fold (\<lambda>j acc. acc OR (if bit w (8 * j + 7) then push_bit (8 * j) 0xff else 0)) xs z) k \<longleftrightarrow>
      bit z k \<or> (\<exists>j \<in> set xs. bit w (8 * j + 7) \<and> 8 * j \<le> k \<and> k < 8 * j + 8 \<and> k < 64)" for xs :: "nat list" and z :: ulong
    by (induction xs arbitrary: z) (auto simp: bit_or_iff bit_push_bit_iff bit_0xff)
  moreover have "(\<exists>j \<in> set [0..<8]. bit w (8 * j + 7) \<and> 8 * j \<le> k \<and> k < 8 * j + 8 \<and> k < 64) \<longleftrightarrow> k < 64 \<and> bit w (8 * (k div 8) + 7)"
  proof
    assume "\<exists>j \<in> set [0..<8]. bit w (8 * j + 7) \<and> 8 * j \<le> k \<and> k < 8 * j + 8 \<and> k < 64"
    then obtain j where j: "bit w (8 * j + 7)" "8 * j \<le> k" "k < 8 * j + 8" "k < 64" by blast
    then have "j = k div 8" by linarith
    then show "k < 64 \<and> bit w (8 * (k div 8) + 7)" using j by simp
  next
    assume "k < 64 \<and> bit w (8 * (k div 8) + 7)"
    then show "\<exists>j \<in> set [0..<8]. bit w (8 * j + 7) \<and> 8 * j \<le> k \<and> k < 8 * j + 8 \<and> k < 64"
      by (intro bexI [of _ "k div 8"]) auto
  qed
  ultimately show ?thesis unfolding lock_mask_def by simp
qed

lemma bit_entry_cfg: "bit (entry_cfg m i) k \<longleftrightarrow> k < 8 \<and> bit (csr m (cfg_csr i)) (8 * (i mod 8) + k)"
  by (auto simp: entry_cfg_def bit_and_iff bit_0xff bit_drop_bit_eq)

lemma entry_pos: "cfg_csr i = cfg_csr n \<Longrightarrow> i mod 8 = n mod 8 \<Longrightarrow> i = n"
  unfolding cfg_csr_def by (metis add_left_cancel div_mult_mod_eq mult_cancel1 zero_neq_numeral)

text \<open>Writing one byte of a configuration CSR.\<close>

definition put_cfg :: "nat \<Rightarrow> ulong \<Rightarrow> pmp_hw \<Rightarrow> pmp_hw" where
  "put_cfg n prot m = csr_write (cfg_csr n)
    (csr m (cfg_csr n) AND NOT (push_bit (8 * (n mod 8)) 0xff) OR push_bit (8 * (n mod 8)) prot AND push_bit (8 * (n mod 8)) 0xff) m"

lemma put_cfg_csr:
  assumes "n < 64"
  shows "\<exists>v. put_cfg n prot m = m\<lparr>csr := (csr m)(cfg_csr n := v)\<rparr>"
  using cfg_csr_range [OF assms] by (simp add: put_cfg_def csr_write_def Let_def) blast

lemma put_cfg_other [simp]:
  assumes "n < 64"
  shows "entry_addr (put_cfg n prot m) i = entry_addr m i" "csr (put_cfg n prot m) 0x747 = csr m 0x747" "abits (put_cfg n prot m) = abits m"
proof -
  obtain v where "put_cfg n prot m = m\<lparr>csr := (csr m)(cfg_csr n := v)\<rparr>" using put_cfg_csr [OF assms] by blast
  then show "entry_addr (put_cfg n prot m) i = entry_addr m i" "csr (put_cfg n prot m) 0x747 = csr m 0x747"
      "abits (put_cfg n prot m) = abits m"
    using cfg_csr_range [OF assms] by (simp_all add: entry_addr_def)
qed

lemma bit_put_cfg:
  assumes n: "n < 64" and u: "\<not> entry_locked m n" and k: "k < 64"
  shows "bit (csr (put_cfg n prot m) (cfg_csr n)) k \<longleftrightarrow>
    (if k div 8 = n mod 8 then bit prot (k mod 8) else bit (csr m (cfg_csr n)) k)"
proof -
  let ?s = "8 * (n mod 8)"
  have ul: "\<not> bit (csr m (cfg_csr n)) (?s + 7)" if "\<not> rlb m"
    using u that by (simp add: entry_locked_def bit_entry_cfg)
  have "bit (csr (put_cfg n prot m) (cfg_csr n)) k \<longleftrightarrow>
    (if \<not> rlb m \<and> bit (csr m (cfg_csr n)) (8 * (k div 8) + 7) then bit (csr m (cfg_csr n)) k
     else if ?s \<le> k \<and> k - ?s < 8 then bit prot (k - ?s) else bit (csr m (cfg_csr n)) k)"
    using cfg_csr_range [OF n] k
    by (auto simp: put_cfg_def csr_write_def Let_def bit_and_iff bit_or_iff bit_not_iff bit_lock_mask bit_push_bit_iff)
  moreover have "k div 8 = n mod 8 \<longleftrightarrow> ?s \<le> k \<and> k - ?s < 8" by linarith
  moreover have "k - ?s = k mod 8" if "k div 8 = n mod 8" using that by (metis minus_mult_div_eq_mod)
  ultimately show ?thesis using ul by auto
qed

lemma put_cfg_entry:
  assumes n: "n < 64" and u: "\<not> entry_locked m n"
  shows "entry_cfg (put_cfg n prot m) i = (if i = n then prot AND 0xff else entry_cfg m i)"
proof (rule bit_word_eqI)
  fix k
  show "bit (entry_cfg (put_cfg n prot m) i) k \<longleftrightarrow> bit (if i = n then prot AND 0xff else entry_cfg m i) k"
  proof (cases "cfg_csr i = cfg_csr n")
    case True
    have "k < 8 \<Longrightarrow> (8 * (i mod 8) + k) div 8 = i mod 8" "k < 8 \<Longrightarrow> (8 * (i mod 8) + k) mod 8 = k" by auto
    moreover have "k < 8 \<Longrightarrow> 8 * (i mod 8) + k < 64" by linarith
    ultimately show ?thesis
      using bit_put_cfg [OF n u, of "8 * (i mod 8) + k" prot] entry_pos [OF True] True
      by (cases "i = n") (auto simp: bit_entry_cfg bit_and_iff split: if_splits)
  next
    case False
    obtain v where "put_cfg n prot m = m\<lparr>csr := (csr m)(cfg_csr n := v)\<rparr>" using put_cfg_csr [OF n] by blast
    then show ?thesis using False by (auto simp: entry_cfg_def)
  qed
qed

text \<open>Writing an address register.\<close>

definition no_tor :: "pmp_hw \<Rightarrow> bool" where
  "no_tor m \<longleftrightarrow> (\<forall>i<64. entry_cfg m i AND 0x18 \<noteq> 8)"

lemma addr_write:
  assumes "n < 64" and "\<not> entry_locked m n" and "no_tor m"
  shows "csr_write (0x3b0 + n) v m = m\<lparr>csr := (csr m)(0x3b0 + n := v AND mask (abits m))\<rparr>"
  using assms by (auto simp: csr_write_def Let_def no_tor_def)

lemma addr_upd [simp]:
  assumes "n < 64"
  shows "entry_cfg (m\<lparr>csr := (csr m)(0x3b0 + n := v)\<rparr>) i = (if i < 64 then entry_cfg m i else entry_cfg (m\<lparr>csr := (csr m)(0x3b0 + n := v)\<rparr>) i)"
    "entry_addr (m\<lparr>csr := (csr m)(0x3b0 + n := v)\<rparr>) i = (if i = n then v else entry_addr m i)"
  using assms cfg_csr_range [of i] by (auto simp: entry_cfg_def entry_addr_def)

text \<open>The configuration byte and address register \<open>pmp_set\<close> writes.\<close>

definition set_cfg :: "ulong \<Rightarrow> nat \<Rightarrow> ulong" where
  "set_cfg prot ord = ((prot AND NOT PMP_A) OR (if ord = PMP_SHIFT then PMP_A_NA4 else PMP_A_NAPOT)) AND 0xff"

lemma pmp_set_ok:
  assumes n: "n < 64" and ord: "2 \<le> ord" "ord \<le> 64" and u: "\<not> entry_locked m n" and nt: "no_tor m"
  obtains m' where "pmp_set n prot addr ord m = Some (0, m')"
    and "\<And>i. i < 64 \<Longrightarrow> entry_cfg m' i = (if i = n then set_cfg prot ord else entry_cfg m i)"
    and "\<And>i. entry_addr m' i = (if i = n then pmp_encode_addr addr ord AND mask (abits m) else entry_addr m i)"
    and "csr m' 0x747 = csr m 0x747" and "abits m' = abits m"
proof -
  let ?p = "(prot AND NOT PMP_A) OR (if ord = PMP_SHIFT then PMP_A_NA4 else PMP_A_NAPOT)"
  define m1 where "m1 = m\<lparr>csr := (csr m)(0x3b0 + n := pmp_encode_addr addr ord AND mask (abits m))\<rparr>"
  have c: "csr m1 (cfg_csr n) = csr m (cfg_csr n)" "csr m1 0x747 = csr m 0x747" "abits m1 = abits m"
    using cfg_csr_range [OF n] n by (simp_all add: m1_def)
  have "entry_cfg m1 i = entry_cfg m i" if "i < 64" for i
    using addr_upd(1) [OF n, of m _ i] that unfolding m1_def by presburger
  moreover have "rlb m1 = rlb m" using c by (simp add: rlb_def)
  ultimately have u1: "\<not> entry_locked m1 n" "\<And>i. i < 64 \<Longrightarrow> entry_cfg m1 i = entry_cfg m i"
    using u n by (simp_all add: entry_locked_def)
  have w: "csr_write (0x3b0 + n) (pmp_encode_addr addr ord) m = m1" using addr_write [OF n u nt] by (simp add: m1_def)
  have "pmp_set n prot addr ord m = Some (0, put_cfg n ?p m1)"
    using n ord c(1) w known_pmp(2) [OF n]
    by (simp add: pmp_set_def csr_read_num_def csr_write_num_def csr_read_def Let_def put_cfg_def add.commute del: PMP_A_def PMP_A_NA4_def PMP_A_NAPOT_def)
  moreover have "entry_cfg (put_cfg n ?p m1) i = (if i = n then set_cfg prot ord else entry_cfg m i)" if "i < 64" for i
    using that put_cfg_entry [OF n u1(1), of ?p i] u1(2) by (simp add: set_cfg_def del: PMP_A_def PMP_A_NA4_def PMP_A_NAPOT_def)
  ultimately show ?thesis using that [of "put_cfg n ?p m1"] n c by (simp add: m1_def)
qed

lemma pmp_disable_ok:
  assumes "n < 64" and "\<not> entry_locked m n"
  obtains m' where "pmp_disable n m = Some (0, m')" and "\<And>i. entry_cfg m' i = (if i = n then 0 else entry_cfg m i)"
    and "\<And>i. entry_addr m' i = entry_addr m i" and "csr m' 0x747 = csr m 0x747" and "abits m' = abits m"
proof -
  have "pmp_disable n m = Some (0, put_cfg n 0 m)"
    using assms by (simp add: pmp_disable_def csr_read_num_def csr_write_num_def csr_read_def Let_def put_cfg_def)
  then show ?thesis using that [of "put_cfg n 0 m"] assms put_cfg_entry [OF assms, of 0] by simp
qed

subsection \<open>Matching\<close>

lemma napot_mask_low:
  fixes p :: ulong
  assumes "t < 64" and ones: "\<And>j. j < t \<Longrightarrow> bit p j" and zero: "\<not> bit p t"
  shows "napot_mask p = mask (Suc t)"
proof -
  define u where "u = p AND NOT (mask (Suc t))"
  have d: "u AND mask t = 0" "u AND push_bit t 1 = 0"
    by (rule bit_word_eqI, auto simp: u_def bit_and_iff bit_not_iff bit_mask_iff bit_exp_iff)+
  have "p = u OR mask t"
    using ones zero by (intro bit_word_eqI) (auto simp: u_def bit_or_iff bit_and_iff bit_not_iff bit_mask_iff less_Suc_eq)
  then have p: "p = u + mask t" using d(1) by (simp add: disjunctive_add_eq_or)
  have "mask t + 1 = (push_bit t 1 :: ulong)" by (simp add: mask_eq_exp_minus_1 push_bit_eq_mult)
  then have "p + 1 = u + push_bit t 1" using p by (simp add: add.assoc)
  then have "p + 1 = u OR push_bit t 1" using d(2) by (simp add: disjunctive_add_eq_or)
  moreover have "(u OR mask t) XOR (u OR push_bit t 1) = mask (Suc t)"
  proof (rule bit_word_eqI)
    fix j
    have "bit u j \<Longrightarrow> t < j" by (auto simp: u_def bit_and_iff bit_not_iff bit_mask_iff)
    then show "bit ((u OR mask t) XOR (u OR push_bit t 1)) j \<longleftrightarrow> bit (mask (Suc t) :: ulong) j"
      using \<open>t < 64\<close> by (auto simp: bit_xor_iff bit_or_iff bit_mask_iff bit_exp_iff)
  qed
  ultimately show ?thesis using \<open>p = u OR mask t\<close> by (simp add: napot_mask_def)
qed

lemma and_not_mask_eq_iff: "x AND NOT (mask k) = y AND NOT (mask k) \<longleftrightarrow> drop_bit k x = drop_bit k (y :: ulong)"
proof
  assume e: "x AND NOT (mask k) = y AND NOT (mask k)"
  show "drop_bit k x = drop_bit k y"
  proof (rule bit_word_eqI)
    fix n
    show "bit (drop_bit k x) n \<longleftrightarrow> bit (drop_bit k y) n"
      using arg_cong [OF e, of "\<lambda>w. bit w (k + n)"] by (auto simp: bit_drop_bit_eq bit_and_iff bit_not_iff bit_mask_iff dest: bit_word_lt)
  qed
next
  assume e: "drop_bit k x = drop_bit k y"
  show "x AND NOT (mask k) = y AND NOT (mask k)"
  proof (rule bit_word_eqI)
    fix n
    show "bit (x AND NOT (mask k)) n \<longleftrightarrow> bit (y AND NOT (mask k)) n"
      using arg_cong [OF e, of "\<lambda>w. bit w (n - k)"] by (auto simp: bit_drop_bit_eq bit_and_iff bit_not_iff bit_mask_iff)
  qed
qed

lemma bit_lt_exp: "unat (w :: ulong) < 2 ^ k \<Longrightarrow> bit w j \<Longrightarrow> j < k"
proof (rule ccontr)
  assume w: "unat w < 2 ^ k" "bit w j" "\<not> j < k"
  then have "(2 :: nat) ^ k \<le> 2 ^ j" by simp
  then have "unat w div 2 ^ j = 0" using w(1) by (meson div_less less_le_trans)
  moreover have "bit (unat w) j" using w(2) by (simp add: bit_unsigned_iff)
  ultimately show False by (simp add: bit_iff_odd)
qed

lemma base_low_bits: "is_region_valid r \<Longrightarrow> j < order r \<Longrightarrow> \<not> bit (base r) j"
proof -
  assume "is_region_valid r" "j < order r"
  then have "2 ^ order r dvd unat (base r)" using valid_region(3) by blast
  then have "take_bit (order r) (unat (base r)) = 0" by (simp add: take_bit_eq_mod)
  then have "\<not> bit (unat (base r)) j" using \<open>j < order r\<close> by (metis bit_0_eq bit_take_bit_iff bot_apply bot_bool_def)
  then show ?thesis by (simp add: bit_unsigned_iff)
qed

lemma bit_encode_addr:
  assumes v: "is_region_valid r"
  shows "bit (pmp_encode_addr (base r) (order r)) j \<longleftrightarrow> j < 64 \<and> (order r = 64 \<or> j < order r - 3 \<or> bit (base r) (j + 2))"
proof -
  note o = valid_region(1,2) [OF v]
  have m: "push_bit (order r - 2) 1 - 1 = (mask (order r - 2) :: ulong)" by (simp add: mask_eq_exp_minus_1)
  have "j < order r - 2 \<Longrightarrow> \<not> bit (base r) (j + 2)" using base_low_bits [OF v, of "j + 2"] by simp
  then show ?thesis
    using o unfolding pmp_encode_addr_def PMP_SHIFT_def Let_def m
    by (auto simp: bit_or_iff bit_and_iff bit_not_iff bit_mask_iff bit_drop_bit_eq add.commute dest: bit_word_lt)
qed

lemma match_region:
  assumes v: "is_region_valid r" and n: "abits m \<le> 54"
    and b: "unat (base r) < 2 ^ (abits m + 2)" and a: "unat a < 2 ^ (abits m + 2)"
    and e: "entry_addr m i = pmp_encode_addr (base r) (order r) AND mask (abits m)" and c: "entry_cfg m i AND 0x18 = 0x18"
  shows "pmp_match m i a \<longleftrightarrow> in_region r a"
proof -
  define p where "p = entry_addr m i"
  define t where "t = min (abits m) (order r - 3)"
  note o = valid_region(1,2) [OF v]
  have p: "bit p j \<longleftrightarrow> j < abits m \<and> (order r = 64 \<or> j < order r - 3 \<or> bit (base r) (j + 2))" for j
    using n by (auto simp: p_def e bit_and_iff bit_mask_iff bit_encode_addr [OF v])
  have hi: "bit (base r) j \<Longrightarrow> j < abits m + 2" for j using bit_lt_exp [OF b] .
  have "bit p j" if "j < t" for j using that by (auto simp: p t_def)
  moreover have "\<not> bit p t" using base_low_bits [OF v, of "order r - 3 + 2"] o n by (auto simp: p t_def min_def)
  moreover have "t < 64" using n by (simp add: t_def)
  ultimately have nm: "napot_mask p = mask (Suc t)" by (intro napot_mask_low) auto
  have "drop_bit (Suc t) p = drop_bit (Suc t) (drop_bit 2 (base r))"
    using base_low_bits [OF v] o n
    by (intro bit_word_eqI) (auto simp: bit_drop_bit_eq p t_def min_def dest: hi split: if_splits)
  then have "pmp_match m i a \<longleftrightarrow> drop_bit (t + 3) a = drop_bit (t + 3) (base r)"
    using c by (simp add: pmp_match_def Let_def p_def [symmetric] nm and_not_mask_eq_iff numeral_3_eq_3)
  also have "\<dots> \<longleftrightarrow> unat a div 2 ^ (t + 3) = unat (base r) div 2 ^ (t + 3)"
    by (simp only: word_unat_eq_iff unat_drop_bit_eq) (simp only: drop_bit_eq_div)
  also have "\<dots> \<longleftrightarrow> unat a \<in> rset r"
  proof (cases "order r - 3 \<le> abits m")
    case True
    obtain q where q: "unat (base r) = 2 ^ order r * q" using valid_region(3) [OF v] by blast
    have "x div d = y \<longleftrightarrow> d * y \<le> x \<and> x < d * y + d" if "0 < d" for x y d :: nat
      using that by (metis add.commute div_nat_eqI dividend_less_times_div mult.commute mult_Suc_right times_div_less_eq_dividend)
    then show ?thesis using True o q by (simp add: t_def rset_def)
  next
    case False
    then have le: "(2 :: nat) ^ (abits m + 2) < 2 ^ (t + 3)" "(2 :: nat) ^ (abits m + 2) < 2 ^ order r"
      by (intro power_strict_increasing; simp add: t_def)+
    then have "unat (base r) = 0" using b valid_region(3) [OF v] by (metis dvd_imp_le less_trans linorder_not_less not_gr_zero)
    then show ?thesis using le a by (simp add: rset_def)
  qed
  finally show ?thesis by (simp add: in_region_iff [OF v])
qed

subsection \<open>Reading an entry back\<close>

lemma ctz_loop_low: "bit x k \<Longrightarrow> (\<And>j. j < k \<Longrightarrow> \<not> bit x j) \<Longrightarrow> ctz_loop x r = r + k"
proof (induction k arbitrary: x r)
  case 0
  then show ?case by (subst ctz_loop.simps) (simp add: and_one_eq odd_iff_mod_2_eq_one bit_0)
next
  case (Suc k)
  have "ctz_loop (drop_bit 1 x) (r + 1) = r + 1 + k" using Suc.prems by (intro Suc.IH) (simp_all add: bit_drop_bit_eq)
  moreover have "\<not> bit x 0" "x \<noteq> 0" using Suc.prems by auto
  ultimately show ?case by (subst ctz_loop.simps) (simp add: and_one_eq bit_0 even_iff_mod_2_eq_zero)
qed

text \<open>\<open>pmp_get\<close> gives back what \<open>pmp_set\<close> wrote for a valid region inside the physical address space.\<close>

lemma pmp_set_get:
  assumes v: "is_region_valid r" and n: "abits m \<le> 54" "order r \<le> abits m + 2" and b: "unat (base r) < 2 ^ (abits m + 2)"
    and "i < 64" "\<not> entry_locked m i" "no_tor m" and "pmp_set i prot (base r) (order r) m = Some (ret, m')"
  shows "pmp_get i m' = Some (0, set_cfg prot (order r), base r, order r)"
proof -
  note o = valid_region(1,2) [OF v]
  have e: "entry_cfg m' i = set_cfg prot (order r)" "entry_addr m' i = pmp_encode_addr (base r) (order r) AND mask (abits m)"
  proof -
    have "2 \<le> order r" using o by simp
    from pmp_set_ok [OF assms(5) this o(2) assms(6,7), of prot "base r"] obtain m1
      where "pmp_set i prot (base r) (order r) m = Some (0, m1)" "entry_cfg m1 i = set_cfg prot (order r)"
        "entry_addr m1 i = pmp_encode_addr (base r) (order r) AND mask (abits m)" using assms(5) by metis
    then show "entry_cfg m' i = set_cfg prot (order r)" "entry_addr m' i = pmp_encode_addr (base r) (order r) AND mask (abits m)"
      using assms(8) by simp_all
  qed
  define p where "p = entry_addr m' i"
  have p: "bit p j \<longleftrightarrow> j < abits m \<and> (j < order r - 3 \<or> bit (base r) (j + 2))" for j
    using n by (auto simp: p_def e bit_and_iff bit_mask_iff bit_encode_addr [OF v])
  have hi: "bit (base r) j \<Longrightarrow> j < abits m + 2" for j using bit_lt_exp [OF b] .
  have z: "\<not> bit p (order r - 3)" using base_low_bits [OF v, of "order r - 3 + 2"] o by (simp add: p)
  have "ctz_loop (NOT p) 0 = 0 + (order r - 3)"
    using z o n by (intro ctz_loop_low) (auto simp: bit_not_iff p)
  moreover have "p \<noteq> -1" using z o by (auto simp: bit_minus_1_iff)
  moreover have "push_bit 2 (p AND NOT (push_bit (order r - 3) 1 - 1)) = base r"
  proof (rule bit_word_eqI)
    fix j assume "j < LENGTH(64)"
    have "push_bit (order r - 3) 1 - 1 = (mask (order r - 3) :: ulong)" by (simp add: mask_eq_exp_minus_1)
    moreover have "Suc (Suc (j - 2)) = j" if "2 \<le> j" using that by simp
    moreover have "\<not> j - 2 < order r - 3" if "2 \<le> j" "bit (base r) j" using that base_low_bits [OF v, of j] o by linarith
    ultimately show "bit (push_bit 2 (p AND NOT (push_bit (order r - 3) 1 - 1))) j \<longleftrightarrow> bit (base r) j"
      using base_low_bits [OF v, of j] hi [of j] o
      by (cases "2 \<le> j") (auto simp: bit_push_bit_iff bit_and_iff bit_not_iff bit_mask_iff p dest: bit_word_lt)
  qed
  moreover have "drop_bit (8 * (i mod 8)) (csr m' (cfg_csr i) AND push_bit (8 * (i mod 8)) 0xff) = entry_cfg m' i"
    by (rule bit_word_eqI) (auto simp: bit_drop_bit_eq bit_and_iff bit_push_bit_iff bit_entry_cfg dest: bit_word_lt)
  moreover have "entry_cfg m' i AND 0x18 = 0x18"
    using o by (intro bit_word_eqI) (auto simp: e set_cfg_def bit_and_iff bit_or_iff bit_not_iff)
  moreover have "NOT p \<noteq> 0" using \<open>p \<noteq> -1\<close> by (metis bit.compl_zero bit.double_compl)
  moreover have "Suc (Suc (Suc (order r - 3))) = order r" using o by simp
  moreover have "csr m' (944 + i) = p" by (simp add: p_def entry_addr_def)
  ultimately show ?thesis
    using \<open>i < 64\<close> known_pmp [OF \<open>i < 64\<close>] o e(1)
    by (simp add: pmp_get_def csr_read_num_def csr_read_def Let_def ctz_def)
qed

end
