(* ===== verification/Sbi_Pmp_Spec.thy ===== *)
theory Sbi_Pmp_Spec
  imports Sbi_Pmp_Regs
begin

unbundle bit_operations_syntax

text \<open>
  That the PMP registers enforce a domain: after \<open>sbi_hart_pmp_configure\<close> on a hart without Smepmp the hardware grants an access of
  S- or U-mode exactly when \<open>sbi_domain_check_addr\<close> does.
\<close>

subsection \<open>Programming a list of regions\<close>

definition region_fits :: "sbi_hart_features \<Rightarrow> nat \<Rightarrow> sbi_domain_memregion \<Rightarrow> bool" where
  "region_fits hf n r \<longleftrightarrow> is_region_valid r \<and> pmp_log2gran hf \<le> order r \<and> unat (base r) < 2 ^ (n + 2)"

text \<open>The entries \<open>off\<close>, \<open>off + 1\<close>, ... hold the regions \<open>rs\<close> selected by \<open>P\<close> with flags \<open>f\<close>; the others are those of \<open>m\<close>.\<close>

definition programmed ::
  "(sbi_domain_memregion \<Rightarrow> bool) \<Rightarrow> (sbi_domain_memregion \<Rightarrow> ulong) \<Rightarrow> nat \<Rightarrow> sbi_domain_memregion list \<Rightarrow> pmp_hw \<Rightarrow> pmp_hw \<Rightarrow> bool" where
  "programmed P f off rs m m' \<longleftrightarrow> csr m' 0x747 = csr m 0x747 \<and> abits m' = abits m \<and>
    (\<forall>i<64. if off \<le> i \<and> i < off + length rs \<and> P (rs ! (i - off))
       then entry_cfg m' i = set_cfg (f (rs ! (i - off))) (order (rs ! (i - off))) \<and>
         entry_addr m' i = pmp_encode_addr (base (rs ! (i - off))) (order (rs ! (i - off))) AND mask (abits m)
       else entry_cfg m' i = entry_cfg m i \<and> entry_addr m' i = entry_addr m i)"

lemma programmed_Nil: "programmed P f off [] m m"
  by (auto simp: programmed_def)

lemma programmed_skip: "\<not> P r \<Longrightarrow> programmed P f (Suc off) rs m m' \<Longrightarrow> programmed P f off (r # rs) m m'"
  by (auto simp: programmed_def nth_Cons' split: if_splits)

lemma set_cfg_napot: "ord \<noteq> 2 \<Longrightarrow> set_cfg p ord AND 0x18 = 0x18"
  by (intro bit_word_eqI) (auto simp: set_cfg_def bit_and_iff bit_or_iff bit_not_iff)

lemma programmed_set:
  assumes off: "off < 64" and fits: "is_region_valid r" and u: "\<not> entry_locked m off" and nt: "no_tor m" and "P r"
  obtains m1 where "pmp_set off (f r) (base r) (order r) m = Some (0, m1)" "csr m1 0x747 = csr m 0x747" "abits m1 = abits m"
    "\<And>i. i < 64 \<Longrightarrow> i \<noteq> off \<Longrightarrow> entry_cfg m1 i = entry_cfg m i" "no_tor m1"
    "\<And>rs m'. programmed P f (Suc off) rs m1 m' \<Longrightarrow> programmed P f off (r # rs) m m'"
proof -
  have o: "2 \<le> order r" "order r \<le> 64" "order r \<noteq> 2" using valid_region [OF fits] by simp_all
  obtain m1 where m1: "pmp_set off (f r) (base r) (order r) m = Some (0, m1)"
      "\<And>i. i < 64 \<Longrightarrow> entry_cfg m1 i = (if i = off then set_cfg (f r) (order r) else entry_cfg m i)"
      "\<And>i. entry_addr m1 i = (if i = off then pmp_encode_addr (base r) (order r) AND mask (abits m) else entry_addr m i)"
      "csr m1 0x747 = csr m 0x747" "abits m1 = abits m"
    using pmp_set_ok [OF off o(1,2) u nt, of "f r" "base r"] by blast
  have "programmed P f off (r # rs) m m'" if "programmed P f (Suc off) rs m1 m'" for rs m'
    using that m1(2-) \<open>P r\<close> off by (auto simp: programmed_def nth_Cons' split: if_splits)
  moreover have "no_tor m1"
    using nt m1(2) set_cfg_napot [OF o(3), of "f r"] by (auto simp: no_tor_def)
  ultimately show ?thesis using that m1 off by simp
qed

lemma region_in_range:
  assumes "region_fits hf n r" and "0 < n" "n \<le> 54"
  shows "drop_bit 2 (base r) < BIT (n - 1) OR (BIT (n - 1) - 1)"
proof -
  have v: "is_region_valid r" "unat (base r) < 2 ^ (n + 2)" using assms by (simp_all add: region_fits_def)
  have "(2 :: nat) ^ 3 dvd unat (base r)" using valid_region [OF v(1)] by (meson dvd_trans le_imp_power_dvd)
  then obtain q where q: "unat (base r) = 8 * q" by auto
  obtain k where n: "n = Suc k" using \<open>0 < n\<close> gr0_implies_Suc by blast
  have "BIT k OR (BIT k - 1) = (mask n :: ulong)"
    using assms(2,3) n by (simp add: BIT_2p mask_Suc_exp flip: mask_eq_exp_minus_1)
  moreover have "unat (mask n :: ulong) = 2 ^ n - 1" using assms(3) unat_2p [of n] by (simp add: mask_eq_exp_minus_1 unat_pred_word)
  moreover have "unat (drop_bit 2 (base r)) = 2 * q" by (simp add: unat_div q drop_bit_eq_div)
  moreover have "2 * q < 2 ^ n - 1" using v(2) q n by simp
  ultimately show ?thesis using n by (simp add: word_less_nat_alt)
qed

subsection \<open>The hardware check\<close>

lemma find_upt_region:
  assumes "length rs + off \<le> cnt" and "\<And>j. j < length rs \<Longrightarrow> Q (off + j) \<longleftrightarrow> in_region (rs ! j) a"
    and "\<And>i. i < cnt \<Longrightarrow> i < off \<or> off + length rs \<le> i \<Longrightarrow> \<not> Q i"
  shows "List.find Q [0..<cnt] = map_option ((+) off) (find_region_loop rs a)"
proof (cases "find_region_loop rs a")
  case None
  then have n: "\<not> in_region (rs ! j) a" if "j < length rs" for j using that by (auto simp: find_region_loop_None)
  have "\<not> Q i" if "i < cnt" for i
  proof (cases "off \<le> i \<and> i < off + length rs")
    case True
    then have "i - off < length rs" "off + (i - off) = i" by auto
    then show ?thesis using n assms(2) by metis
  qed (use assms(3) that in auto)
  then show ?thesis using None by (simp add: find_None_iff)
next
  case (Some k)
  then have k: "k < length rs" "in_region (rs ! k) a" "\<And>j. j < k \<Longrightarrow> \<not> in_region (rs ! j) a"
    by (auto simp: find_region_loop_Some)
  have "\<not> Q i" if "i < off + k" for i
  proof (cases "off \<le> i")
    case True
    then have "i - off < k" "off + (i - off) = i" using that by auto
    then show ?thesis using k assms(2) by (metis less_trans)
  qed (use assms(1,3) that k in auto)
  then have "List.find Q [0..<cnt] = Some (off + k)"
    using k assms(1,2) by (auto simp: find_Some_iff intro!: exI [of _ "off + k"])
  then show ?thesis using Some by simp
qed

text \<open>Single flag bits, and the small masks of the flag words as ranges of bits.\<close>

lemma and_flag:
  fixes fl :: ulong
  shows "fl AND 1 = 0 \<longleftrightarrow> \<not> bit fl 0" "fl AND 2 = 0 \<longleftrightarrow> \<not> bit fl 1" "fl AND 4 = 0 \<longleftrightarrow> \<not> bit fl 2" "fl AND 8 = 0 \<longleftrightarrow> \<not> bit fl 3"
    "fl AND 16 = 0 \<longleftrightarrow> \<not> bit fl 4" "fl AND 32 = 0 \<longleftrightarrow> \<not> bit fl 5" "fl AND 0x80000000 = 0 \<longleftrightarrow> \<not> bit fl 31"
  using and_exp_eq_0_iff_not_bit [of fl 0] and_exp_eq_0_iff_not_bit [of fl 1] and_exp_eq_0_iff_not_bit [of fl 2]
    and_exp_eq_0_iff_not_bit [of fl 3] and_exp_eq_0_iff_not_bit [of fl 4] and_exp_eq_0_iff_not_bit [of fl 5]
    and_exp_eq_0_iff_not_bit [of fl 31]
  by simp_all

lemma bit_small_masks [simp]:
  "bit (7 :: int) k \<longleftrightarrow> k < 3" "bit (56 :: int) k \<longleftrightarrow> 3 \<le> k \<and> k < 6" "bit (2 :: int) k \<longleftrightarrow> k = 1" "bit (4 :: int) k \<longleftrightarrow> k = 2"
    "bit (8 :: int) k \<longleftrightarrow> k = 3"
proof -
  have m: "(mask 3 :: int) = 7" "push_bit 3 (mask 3 :: int) = 56" by (simp_all add: mask_eq_exp_minus_1)
  have "bit (mask 3 :: int) k \<longleftrightarrow> k < 3" "bit (push_bit 3 (mask 3) :: int) k \<longleftrightarrow> 3 \<le> k \<and> k < 6"
    unfolding bit_push_bit_iff bit_mask_iff by auto
  then show "bit (7 :: int) k \<longleftrightarrow> k < 3" "bit (56 :: int) k \<longleftrightarrow> 3 \<le> k \<and> k < 6" using m by metis+
  have "bit (2 ^ 1 :: int) k \<longleftrightarrow> k = 1" "bit (2 ^ 2 :: int) k \<longleftrightarrow> k = 2" "bit (2 ^ 3 :: int) k \<longleftrightarrow> k = 3"
    unfolding bit_exp_iff by auto
  then show "bit (2 :: int) k \<longleftrightarrow> k = 1" "bit (4 :: int) k \<longleftrightarrow> k = 2" "bit (8 :: int) k \<longleftrightarrow> k = 3" by simp_all
qed

lemma bit_rwx: "bit (region_rwx r mode) k \<longleftrightarrow> k < 3 \<and> bit (flags r) (if mode = PRV_M then k else k + 3)"
proof -
  have "bit (drop_bit 3 (flags r AND 0x38)) k \<longleftrightarrow> k < 3 \<and> bit (flags r) (k + 3)"
    unfolding bit_drop_bit_eq bit_and_iff by (auto simp: add.commute dest: bit_word_lt)
  then show ?thesis by (auto simp: region_rwx_def bit_and_iff)
qed

lemma bit_access: "bit (access_rwx fl) k \<longleftrightarrow> k < 3 \<and> bit fl k"
  by (cases "k = 0") (auto simp: access_rwx_def and_flag bit_or_iff bit_1_iff less_Suc_eq numeral_3_eq_3 numeral_2_eq_2)

lemma access_rwx_mmio [simp]: "access_rwx (fl XOR SBI_DOMAIN_MMIO) = access_rwx fl"
  by (intro bit_word_eqI) (auto simp: bit_access bit_xor_iff)

lemma region_allows_mmio:
  "region_allows r mode fl \<or> region_allows r mode (fl XOR SBI_DOMAIN_MMIO) \<longleftrightarrow>
    region_rwx r mode AND access_rwx fl = access_rwx fl"
proof -
  have "bit (fl XOR SBI_DOMAIN_MMIO) 3 \<longleftrightarrow> \<not> bit fl 3" by (simp add: bit_xor_iff)
  then show ?thesis by (auto simp: region_allows_def and_flag simp del: SBI_DOMAIN_MMIO_def) (simp_all add: and_flag)
qed

lemma oldpmp_loop_ok:
  assumes "\<And>r. r \<in> set rs \<Longrightarrow> region_fits hf (abits m) r" and "0 < abits m" "abits m \<le> 54"
    and "idx + length rs \<le> pmp_count hf" "pmp_count hf \<le> 64"
    and "\<And>i. idx \<le> i \<Longrightarrow> i < 64 \<Longrightarrow> entry_cfg m i = 0" and "no_tor m"
    and "mx = BIT (abits m - 1) OR (BIT (abits m - 1) - 1)"
  shows "\<exists>m'. oldpmp_loop hf mx idx rs m = Some m' \<and> programmed (\<lambda>_. True) oldpmp_flags idx rs m m'"
  using assms
proof (induction rs arbitrary: idx m)
  case Nil
  then show ?case by (auto intro: programmed_Nil)
next
  case (Cons r rs)
  have fits: "region_fits hf (abits m) r" using Cons.prems(1) by simp
  have idx: "idx < 64" using Cons.prems(4,5) by simp
  have "\<not> entry_locked m idx" using Cons.prems(6) [of idx] idx by (simp add: entry_locked_def)
  then obtain m1 where m1: "pmp_set idx (oldpmp_flags r) (base r) (order r) m = Some (0, m1)" "abits m1 = abits m"
      "\<And>i. i < 64 \<Longrightarrow> i \<noteq> idx \<Longrightarrow> entry_cfg m1 i = entry_cfg m i" "no_tor m1"
      "\<And>rs m'. programmed (\<lambda>_. True) oldpmp_flags (Suc idx) rs m1 m' \<Longrightarrow> programmed (\<lambda>_. True) oldpmp_flags idx (r # rs) m m'"
    using programmed_set [OF idx _ _ Cons.prems(7), of r "\<lambda>_. True" oldpmp_flags thesis] fits unfolding region_fits_def by blast
  have "\<exists>m'. oldpmp_loop hf mx (Suc idx) rs m1 = Some m' \<and> programmed (\<lambda>_. True) oldpmp_flags (Suc idx) rs m1 m'"
    using Cons.prems m1(2,3,4) by (intro Cons.IH) auto
  then show ?case
    using Cons.prems(4,8) fits region_in_range [OF fits Cons.prems(2,3)] m1(1,5) by (auto simp: region_fits_def)
qed

subsection \<open>Without Smepmp\<close>

text \<open>A hart whose PMP can hold the regions of a domain, with all its entries off.\<close>

definition pmp_fits :: "nat \<Rightarrow> sbi_hart_features \<Rightarrow> sbi_domain \<Rightarrow> pmp_hw \<Rightarrow> bool" where
  "pmp_fits resv hf dm m \<longleftrightarrow> pmp_addr_bits hf = abits m \<and> 0 < abits m \<and> abits m \<le> 54 \<and> 0 < pmp_count hf \<and> pmp_count hf \<le> 64 \<and>
    resv + length (sbi_domain_for_each_memregion dm) \<le> pmp_count hf \<and>
    (\<forall>r \<in> set (sbi_domain_for_each_memregion dm). region_fits hf (abits m) r) \<and> (\<forall>i<64. entry_cfg m i = 0) \<and> \<not> mml m"

lemma check_addr_mmio:
  "sbi_domain_check_addr (Some dm) a mode fl \<or> sbi_domain_check_addr (Some dm) a mode (fl XOR SBI_DOMAIN_MMIO) \<longleftrightarrow>
    (case find_region_loop (sbi_domain_for_each_memregion dm) a of None \<Rightarrow> mode = PRV_M
     | Some k \<Rightarrow> region_rwx (sbi_domain_for_each_memregion dm ! k) mode AND access_rwx fl = access_rwx fl)"
  unfolding check_addr_find find_region_def using region_allows_mmio by (auto split: option.split)

lemma find_match:
  assumes "programmed (\<lambda>_. True) f off rs m0 m" and "off + length rs \<le> cnt" "cnt \<le> 64" "abits m0 \<le> 54"
    and "\<And>r. r \<in> set rs \<Longrightarrow> region_fits hf (abits m0) r" and "unat a < 2 ^ (abits m0 + 2)"
    and "\<And>i. i < 64 \<Longrightarrow> entry_cfg m0 i AND 0x18 = 0"
  shows "List.find (\<lambda>i. pmp_match m i a) [0..<cnt] = map_option ((+) off) (find_region_loop rs a)"
proof (rule find_upt_region)
  fix j assume j: "j < length rs"
  then have v: "region_fits hf (abits m0) (rs ! j)" using assms(5) by simp
  then have "order (rs ! j) \<noteq> 2" using valid_region(1) [of "rs ! j"] by (auto simp: region_fits_def)
  then have "set_cfg (f (rs ! j)) (order (rs ! j)) AND 0x18 = 0x18" by (rule set_cfg_napot)
  then show "pmp_match m (off + j) a \<longleftrightarrow> in_region (rs ! j) a"
    using assms j v by (intro match_region) (auto simp: programmed_def region_fits_def)
next
  fix i assume i: "i < cnt" "i < off \<or> off + length rs \<le> i"
  then have "entry_cfg m i = entry_cfg m0 i" using assms(1,3) by (auto simp: programmed_def)
  then show "\<not> pmp_match m i a" using assms(3) assms(7) [of i] i(1) by (simp add: pmp_match_def Let_def)
qed (use assms(2) in simp)

lemma bit_not_18 [simp]: "bit (- 25 :: int) k \<longleftrightarrow> k \<noteq> 3 \<and> k \<noteq> 4"
proof -
  have "bit (NOT 24 :: int) k \<longleftrightarrow> \<not> bit (24 :: int) k" unfolding bit_not_iff by (simp only: possible_bit_int simp_thms)
  then show ?thesis by simp
qed

lemma bit_set_cfg: "ord \<noteq> 2 \<Longrightarrow> bit (set_cfg p ord) k \<longleftrightarrow> k < 8 \<and> (k = 3 \<or> k = 4 \<or> bit p k)"
  by (auto simp: set_cfg_def bit_and_iff bit_or_iff bit_not_iff)

lemma bit_oldpmp_flags: "k < 3 \<Longrightarrow> bit (oldpmp_flags r) k \<longleftrightarrow> bit (flags r) (k + 3)"
proof -
  assume "k < 3"
  then consider "k = 0" | "k = 1" | "k = 2" by linarith
  then show ?thesis by cases (simp_all add: oldpmp_flags_def and_flag bit_or_iff)
qed

lemma old_perm:
  assumes "mode \<noteq> PRV_M" and "is_region_valid r"
  shows "plain_perm (set_cfg (oldpmp_flags r) (order r)) mode = region_rwx r mode"
proof (rule bit_word_eqI)
  fix k
  have "order r \<noteq> 2" using valid_region(1) [OF assms(2)] by simp
  then show "bit (plain_perm (set_cfg (oldpmp_flags r) (order r)) mode) k \<longleftrightarrow> bit (region_rwx r mode) k"
    using assms(1) bit_oldpmp_flags [of k r] by (auto simp: plain_perm_def bit_and_iff bit_set_cfg bit_rwx)
qed

subsection \<open>An instance\<close>

definition ex_pmp :: pmp_hw where
  "ex_pmp = \<lparr>csr = (\<lambda>_. 0), abits = 54\<rparr>"

definition ex_features :: "bool \<Rightarrow> sbi_hart_features" where
  "ex_features sme = \<lparr>has_smepmp = sme, pmp_count = 16, pmp_addr_bits = 54, pmp_log2gran = 12\<rparr>"

text \<open>Firmware that M-mode may read and execute, memory of S-mode, and a device that both may use.\<close>

definition sme_regions :: "sbi_domain_memregion list" where
  "sme_regions = [dev_region, \<lparr>order = 18, base = 0x80000000, flags = 5\<rparr>, \<lparr>order = 28, base = 0x80000000, flags = 0x38\<rparr>]"

lemma sme_memregions: "sbi_domain_for_each_memregion (ex_domain sme_regions) = sme_regions"
  by (simp add: sbi_domain_for_each_memregion_def ex_domain_def memregions_def sme_regions_def dev_region_def)

lemma ex_fits: "resv \<le> 13 \<Longrightarrow> pmp_fits resv (ex_features sme) (ex_domain sme_regions) ex_pmp"
  unfolding pmp_fits_def sme_memregions
  by (auto simp: ex_features_def ex_pmp_def sme_regions_def region_fits_def is_region_valid_def dev_region_def BIT_def entry_cfg_def mml_def)

subsection \<open>Enforcement\<close>

lemma oldpmp_configured:
  assumes "pmp_fits 0 hf dm m" and "\<not> has_smepmp hf"
  obtains m' where "sbi_hart_pmp_configure hf dm m = Some (0, m')"
    and "programmed (\<lambda>_. True) oldpmp_flags 0 (sbi_domain_for_each_memregion dm) m m'"
proof -
  let ?rs = "sbi_domain_for_each_memregion dm" and ?mx = "BIT (abits m - 1) OR (BIT (abits m - 1) - 1)"
  obtain m' where "oldpmp_loop hf ?mx 0 ?rs m = Some m'" "programmed (\<lambda>_. True) oldpmp_flags 0 ?rs m m'"
    using oldpmp_loop_ok [of ?rs hf m 0 ?mx] assms(1) by (auto simp: no_tor_def pmp_fits_def)
  then show ?thesis
    using that assms by (auto simp: sbi_hart_pmp_configure_def sbi_hart_oldpmp_configure_def Let_def pmp_fits_def)
qed

lemma oldpmp_enforces:
  assumes "pmp_fits 0 hf dm m" and p: "programmed (\<lambda>_. True) oldpmp_flags 0 (sbi_domain_for_each_memregion dm) m m'"
    and M: "mode \<noteq> PRV_M" and a: "unat a < 2 ^ (abits m + 2)"
  shows "pmp_check (pmp_count hf) m' mode (access_rwx fl) a \<longleftrightarrow>
      sbi_domain_check_addr (Some dm) a mode fl \<or> sbi_domain_check_addr (Some dm) a mode (fl XOR SBI_DOMAIN_MMIO)"
proof -
  let ?rs = "sbi_domain_for_each_memregion dm"
  have f: "abits m \<le> 54" "pmp_count hf \<le> 64" "length ?rs \<le> pmp_count hf"
      "\<And>r. r \<in> set ?rs \<Longrightarrow> region_fits hf (abits m) r" "\<And>i. i < 64 \<Longrightarrow> entry_cfg m i = 0" "\<not> mml m"
    using assms(1) by (simp_all add: pmp_fits_def)
  have fm: "List.find (\<lambda>i. pmp_match m' i a) [0..<pmp_count hf] = find_region_loop ?rs a"
    using find_match [OF p _ f(2,1,4) a] f(3,5) by (cases "find_region_loop ?rs a") simp_all
  have mm: "\<not> mml m'" using p f(6) by (simp add: programmed_def mml_def)
  show ?thesis
  proof (cases "find_region_loop ?rs a")
    case (Some k)
    then have k: "k < length ?rs" by (simp add: find_region_loop_Some)
    then have "entry_cfg m' k = set_cfg (oldpmp_flags (?rs ! k)) (order (?rs ! k))" using p f(2,3) by (auto simp: programmed_def)
    moreover have "is_region_valid (?rs ! k)" using f(4) k by (simp add: region_fits_def)
    ultimately show ?thesis using Some fm mm old_perm [OF M] unfolding check_addr_mmio by (simp add: pmp_check_def)
  next
    case None
    then show ?thesis using fm M unfolding check_addr_mmio by (simp add: pmp_check_def)
  qed
qed

text \<open>C2: Without Smepmp the PMP enforces the domain: after \<open>sbi_hart_pmp_configure\<close> for a domain whose regions fit the PMP, the
  hardware grants an access from S- or U-mode to a physical address exactly when \<open>sbi_domain_check_addr\<close> allows it, as a memory
  or as an I/O access (the PMP does not tell these apart).\<close>

theorem pmp_enforces_domain:
  assumes "pmp_fits 0 hf dm m" and "\<not> has_smepmp hf" and "mode = PRV_S \<or> mode = PRV_U" and "unat a < 2 ^ (abits m + 2)"
  shows "\<exists>m'. sbi_hart_pmp_configure hf dm m = Some (0, m') \<and>
    (pmp_check (pmp_count hf) m' mode (access_rwx fl) a \<longleftrightarrow>
      sbi_domain_check_addr (Some dm) a mode fl \<or> sbi_domain_check_addr (Some dm) a mode (fl XOR SBI_DOMAIN_MMIO))"
proof -
  obtain m' where m': "sbi_hart_pmp_configure hf dm m = Some (0, m')"
      "programmed (\<lambda>_. True) oldpmp_flags 0 (sbi_domain_for_each_memregion dm) m m'"
    using oldpmp_configured [OF assms(1,2)] .
  moreover have "mode \<noteq> PRV_M" using assms(3) by auto
  ultimately show ?thesis using oldpmp_enforces [OF assms(1) m'(2) _ assms(4)] by blast
qed

theorem pmp_enforces_domain_witness:
  "\<exists>m'. sbi_hart_pmp_configure (ex_features False) (ex_domain sme_regions) ex_pmp = Some (0, m') \<and>
    (pmp_check 16 m' PRV_S (access_rwx 1) 0x80000100 \<longleftrightarrow>
      sbi_domain_check_addr (Some (ex_domain sme_regions)) 0x80000100 PRV_S 1 \<or>
      sbi_domain_check_addr (Some (ex_domain sme_regions)) 0x80000100 PRV_S (1 XOR SBI_DOMAIN_MMIO))"
  using pmp_enforces_domain [OF ex_fits, of False PRV_S "0x80000100" 1] by (simp add: ex_features_def ex_pmp_def)

end
