(* ===== verification/Sbi_Smepmp.thy ===== *)
theory Sbi_Smepmp
  imports Sbi_Pmp_Spec
begin

unbundle bit_operations_syntax

text \<open>
  The enforcement of a domain on a hart with Smepmp, where the PMP also restricts M-mode, and the temporary mapping of S-mode
  memory that M-mode needs there for shared buffers.
\<close>

subsection \<open>With Smepmp\<close>

text \<open>The flags Smepmp can express: a shared type, or M-mode only without RWX, or S/U-mode only, and no write without read.\<close>

definition smepmp_encodable :: "ulong \<Rightarrow> bool" where
  "smepmp_encodable fl \<longleftrightarrow> IS_SHARED fl \<or>
    M_ONLY_ACCESS fl \<and> fl AND 7 \<noteq> 7 \<and> (fl AND 2 = 0 \<or> fl AND 1 \<noteq> 0) \<or> SU_ONLY_ACCESS fl \<and> (fl AND 16 = 0 \<or> fl AND 8 \<noteq> 0)"

lemmas smepmp_types = IS_SHARED_def IS_SUR_MR_def IS_SUX_MRX_def IS_SUX_MX_def IS_SURW_MRW_def IS_SUR_MRW_def
  M_ONLY_ACCESS_def SU_ONLY_ACCESS_def

text \<open>Only the low six flag bits matter, so a table of 64 cases decides.\<close>

lemma smepmp_perm_table:
  "\<forall>x \<in> set (map of_nat [0..<64]). \<forall>mode \<in> {PRV_U, PRV_S, PRV_M}. smepmp_encodable x \<longrightarrow>
    (let r = \<lparr>order = 3, base = 0, flags = x\<rparr>; fl = sbi_hart_get_smepmp_flags r
     in fl \<noteq> 0 \<and> mml_perm (set_cfg fl 3) mode = region_rwx r mode)"
  by code_simp

lemma and_low:
  fixes fl :: ulong
  shows "(fl AND 0x3f) AND 1 = fl AND 1" "(fl AND 0x3f) AND 2 = fl AND 2" "(fl AND 0x3f) AND 4 = fl AND 4" "(fl AND 0x3f) AND 7 = fl AND 7"
    "(fl AND 0x3f) AND 8 = fl AND 8" "(fl AND 0x3f) AND 16 = fl AND 16" "(fl AND 0x3f) AND 32 = fl AND 32" "(fl AND 0x3f) AND 0x38 = fl AND 0x38"
    "(fl AND 0x3f) AND 0x3f = fl AND 0x3f"
  by (simp_all add: and.assoc)

lemma smepmp_low:
  fixes r :: sbi_domain_memregion
  defines "r' \<equiv> \<lparr>order = 3, base = 0, flags = flags r AND 0x3f\<rparr>"
  shows "sbi_hart_get_smepmp_flags r' = sbi_hart_get_smepmp_flags r" "region_rwx r' mode = region_rwx r mode"
    "smepmp_encodable (flags r') = smepmp_encodable (flags r)"
  unfolding r'_def
  by (simp_all only: sbi_hart_get_smepmp_flags_def smepmp_encodable_def smepmp_types region_rwx_def sbi_domain_memregion.select_convs
    Let_def sbi_defs and_low ACCESS_MASK_def SBI_DOMAIN_MEMREGION_M_ACCESS_MASK_def SBI_DOMAIN_MEMREGION_SU_ACCESS_MASK_def)

lemma smepmp_perm:
  assumes enc: "smepmp_encodable (flags r)" and "is_region_valid r" and mode: "mode \<in> {PRV_U, PRV_S, PRV_M}"
  shows "sbi_hart_get_smepmp_flags r \<noteq> 0" "mml_perm (set_cfg (sbi_hart_get_smepmp_flags r) (order r)) mode = region_rwx r mode"
proof -
  define x where "x = flags r AND 0x3f"
  have "unat x \<le> 63" using word_and_le1 [of "flags r" "0x3f"] by (simp add: x_def word_le_nat_alt)
  then have "x \<in> set (map of_nat [0..<64])" by (auto simp: image_iff intro!: bexI [of _ "unat x"])
  moreover have "set_cfg p (order r) = set_cfg p 3" for p using valid_region(1) [OF assms(2)] by (simp add: set_cfg_def)
  ultimately show "sbi_hart_get_smepmp_flags r \<noteq> 0" "mml_perm (set_cfg (sbi_hart_get_smepmp_flags r) (order r)) mode = region_rwx r mode"
    using smepmp_perm_table mode enc smepmp_low [of r] unfolding x_def [symmetric] by (auto simp: Let_def)
qed

lemma smepmp_pass_0: "smepmp_pass hf mx sel 0 rs m = smepmp_pass hf mx sel 1 rs m"
  by (cases rs) simp_all

lemma smepmp_pass_ok:
  assumes "\<And>r. r \<in> set rs \<Longrightarrow> region_fits hf (abits m) r \<and> sbi_hart_get_smepmp_flags r \<noteq> 0" and "0 < abits m" "abits m \<le> 54"
    and "0 < idx" "idx + length rs \<le> pmp_count hf" "pmp_count hf \<le> 64" and "rlb m" and "no_tor m"
    and "mx = BIT (abits m - 1) OR (BIT (abits m - 1) - 1)"
  shows "\<exists>m'. smepmp_pass hf mx sel idx rs m = Some (True, m') \<and>
    programmed (\<lambda>r. M_ONLY_ACCESS (flags r) = sel) sbi_hart_get_smepmp_flags idx rs m m' \<and> no_tor m'"
  using assms
proof (induction rs arbitrary: idx m)
  case Nil
  then show ?case by (auto intro: programmed_Nil)
next
  case (Cons r rs)
  let ?P = "\<lambda>r. M_ONLY_ACCESS (flags r) = sel"
  have fits: "region_fits hf (abits m) r" "sbi_hart_get_smepmp_flags r \<noteq> 0" using Cons.prems(1) by simp_all
  have idx: "idx < 64" "idx < pmp_count hf" using Cons.prems(5,6) by simp_all
  show ?case
  proof (cases "?P r")
    case True
    have "\<not> entry_locked m idx" using Cons.prems(7) by (simp add: entry_locked_def)
    then obtain m1 where m1: "pmp_set idx (sbi_hart_get_smepmp_flags r) (base r) (order r) m = Some (0, m1)"
        "csr m1 0x747 = csr m 0x747" "abits m1 = abits m" "no_tor m1"
        "\<And>rs m'. programmed ?P sbi_hart_get_smepmp_flags (Suc idx) rs m1 m' \<Longrightarrow> programmed ?P sbi_hart_get_smepmp_flags idx (r # rs) m m'"
      using programmed_set [OF idx(1) _ _ Cons.prems(8), of r ?P sbi_hart_get_smepmp_flags thesis] fits True unfolding region_fits_def by blast
    have "\<exists>m'. smepmp_pass hf mx sel (Suc idx) rs m1 = Some (True, m') \<and> programmed ?P sbi_hart_get_smepmp_flags (Suc idx) rs m1 m' \<and> no_tor m'"
      using Cons.prems m1(2,3,4) by (intro Cons.IH) (auto simp: rlb_def)
    then show ?thesis
      using Cons.prems(4,9) True idx(2) fits region_in_range [OF fits(1) Cons.prems(2,3)] m1(1,5)
      by (auto simp: sbi_hart_smepmp_set_def region_fits_def Let_def)
  next
    case False
    have "\<exists>m'. smepmp_pass hf mx sel (Suc idx) rs m = Some (True, m') \<and> programmed ?P sbi_hart_get_smepmp_flags (Suc idx) rs m m' \<and> no_tor m'"
      using Cons.prems by (intro Cons.IH) auto
    then show ?thesis using False Cons.prems(4) idx(2) programmed_skip [of ?P r] by (auto simp: Let_def)
  qed
qed

text \<open>\<open>mseccfg\<close> is independent of the entries.\<close>

definition with_sec :: "ulong \<Rightarrow> pmp_hw \<Rightarrow> pmp_hw" where
  "with_sec c m = m\<lparr>csr := (csr m)(0x747 := c)\<rparr>"

lemma with_sec_simps [simp]:
  "i < 64 \<Longrightarrow> entry_cfg (with_sec c m) i = entry_cfg m i" "i < 64 \<Longrightarrow> entry_addr (with_sec c m) i = entry_addr m i"
  "csr (with_sec c m) 0x747 = c" "abits (with_sec c m) = abits m" "with_sec c (with_sec d m) = with_sec c m"
  using cfg_csr_range [of i] by (auto simp: with_sec_def entry_cfg_def entry_addr_def)

lemma csr_set_sec: "csr_set CSR_MSECCFG v m = with_sec (csr m 0x747 OR v) m"
  by (simp add: csr_set_def csr_write_def csr_read_def with_sec_def)

lemma no_tor_sec [simp]: "no_tor (with_sec c m) = no_tor m"
  by (simp add: no_tor_def)

lemma programmed_compose:
  assumes "programmed P f off rs m m1" and "programmed (\<lambda>r. P r = False) f off rs (with_sec c m1) m2"
  shows "programmed (\<lambda>_. True) f off rs (with_sec c m) m2"
  unfolding programmed_def
proof (intro conjI allI impI)
  fix i :: nat assume i: "i < 64"
  show "if off \<le> i \<and> i < off + length rs \<and> True
    then entry_cfg m2 i = set_cfg (f (rs ! (i - off))) (order (rs ! (i - off))) \<and>
      entry_addr m2 i = pmp_encode_addr (base (rs ! (i - off))) (order (rs ! (i - off))) AND mask (abits (with_sec c m))
    else entry_cfg m2 i = entry_cfg (with_sec c m) i \<and> entry_addr m2 i = entry_addr (with_sec c m) i"
    using assms i unfolding programmed_def by (cases "P (rs ! (i - off))") (auto split: if_splits)
qed (use assms in \<open>simp_all add: programmed_def\<close>)

lemma bit_sec [simp]: "bit (x OR MSECCFG_RLB) 2" "bit (x OR MSECCFG_MML) 0" "bit (x OR MSECCFG_MML) 2 = bit x 2"
  by (simp_all add: bit_or_iff MSECCFG_RLB_def MSECCFG_MML_def bit_BIT)

lemma smepmp_configure_ok:
  fixes dm :: sbi_domain
  defines "rs \<equiv> sbi_domain_for_each_memregion dm"
  assumes fits: "pmp_fits 1 hf dm m" and enc: "\<And>r. r \<in> set rs \<Longrightarrow> sbi_hart_get_smepmp_flags r \<noteq> 0"
    and mx: "mx = BIT (abits m - 1) OR (BIT (abits m - 1) - 1)"
  obtains m0 m' where "sbi_hart_smepmp_configure hf mx dm m = Some (0, m')" "mml m'"
    "programmed (\<lambda>_. True) sbi_hart_get_smepmp_flags 1 rs m0 m'" "\<And>i. i < 64 \<Longrightarrow> entry_cfg m0 i = 0" "abits m0 = abits m"
proof -
  have f: "0 < abits m" "abits m \<le> 54" "pmp_count hf \<le> 64" "1 + length rs \<le> pmp_count hf"
      "\<And>r. r \<in> set rs \<Longrightarrow> region_fits hf (abits m) r" "\<And>i. i < 64 \<Longrightarrow> entry_cfg m i = 0"
    using fits by (auto simp: pmp_fits_def rs_def)
  have rlb: "rlb (with_sec (csr m 0x747 OR MSECCFG_RLB) m)" by (simp add: rlb_def)
  then obtain md where md: "pmp_disable 0 (with_sec (csr m 0x747 OR MSECCFG_RLB) m) = Some (0, md)" "\<And>i. i < 64 \<Longrightarrow> entry_cfg md i = 0"
      "csr md 0x747 = csr m 0x747 OR MSECCFG_RLB" "abits md = abits m"
    using pmp_disable_ok [of 0 "with_sec (csr m 0x747 OR MSECCFG_RLB) m" thesis] f(6) by (auto simp: entry_locked_def)
  have "no_tor md" using md(2) by (simp add: no_tor_def)
  then obtain m1 where m1: "smepmp_pass hf mx True 1 rs md = Some (True, m1)" "no_tor m1"
      "programmed (\<lambda>r. M_ONLY_ACCESS (flags r)) sbi_hart_get_smepmp_flags 1 rs md m1"
    using smepmp_pass_ok [of rs hf md 1 mx True] f enc mx md by (auto simp: rlb_def)
  let ?c = "csr m1 0x747 OR MSECCFG_MML"
  have c: "csr m1 0x747 = csr m 0x747 OR MSECCFG_RLB" "abits m1 = abits m" using m1(3) md by (simp_all add: programmed_def)
  obtain m2 where m2: "smepmp_pass hf mx False 1 rs (with_sec ?c m1) = Some (True, m2)"
      "programmed (\<lambda>r. M_ONLY_ACCESS (flags r) = False) sbi_hart_get_smepmp_flags 1 rs (with_sec ?c m1) m2"
    using smepmp_pass_ok [of rs hf "with_sec ?c m1" 1 mx False] f enc mx m1(2) c by (auto simp: rlb_def)
  have p: "programmed (\<lambda>_. True) sbi_hart_get_smepmp_flags 1 rs (with_sec ?c md) m2"
    using programmed_compose [OF m1(3) m2(2)] .
  then have "mml m2" by (simp add: programmed_def mml_def)
  moreover have "sbi_hart_smepmp_configure hf mx dm m = Some (0, m2)"
    using md(1) m1(1) m2(1)
    by (simp add: sbi_hart_smepmp_configure_def csr_set_sec smepmp_pass_0 rs_def [symmetric] del: CSR_MSECCFG_def)
  ultimately show ?thesis using that p md by simp
qed

text \<open>C3: With Smepmp the PMP enforces the domain for every mode: if the flags of all regions are of a kind that Smepmp can express,
  then after \<open>sbi_hart_pmp_configure\<close> the hardware grants an access from U-, S- or M-mode exactly when \<open>sbi_domain_check_addr\<close>
  allows it (for M-mode at the addresses that some region holds).\<close>

theorem smepmp_enforces_domain:
  assumes "pmp_fits 1 hf dm m" and "has_smepmp hf"
    and "\<forall>r \<in> set (sbi_domain_for_each_memregion dm). smepmp_encodable (flags r)"
    and "mode \<in> {PRV_U, PRV_S, PRV_M}" and "mode = PRV_M \<longrightarrow> find_region dm a \<noteq> None" and "unat a < 2 ^ (abits m + 2)"
  shows "\<exists>m'. sbi_hart_pmp_configure hf dm m = Some (0, m') \<and>
    (pmp_check (pmp_count hf) m' mode (access_rwx fl) a \<longleftrightarrow>
      sbi_domain_check_addr (Some dm) a mode fl \<or> sbi_domain_check_addr (Some dm) a mode (fl XOR SBI_DOMAIN_MMIO))"
proof -
  let ?rs = "sbi_domain_for_each_memregion dm" and ?mx = "BIT (abits m - 1) OR (BIT (abits m - 1) - 1)"
  have f: "pmp_addr_bits hf = abits m" "abits m \<le> 54" "0 < pmp_count hf" "pmp_count hf \<le> 64" "1 + length ?rs \<le> pmp_count hf"
      "\<And>r. r \<in> set ?rs \<Longrightarrow> region_fits hf (abits m) r"
    using assms(1) by (simp_all add: pmp_fits_def)
  have v: "is_region_valid r \<and> smepmp_encodable (flags r)" if "r \<in> set ?rs" for r using that f(6) assms(3) by (simp add: region_fits_def)
  then have nz: "sbi_hart_get_smepmp_flags r \<noteq> 0" if "r \<in> set ?rs" for r
    using that smepmp_perm(1) [of r PRV_S] by auto
  obtain m0 m' where m': "sbi_hart_smepmp_configure hf ?mx dm m = Some (0, m')" "mml m'"
      "programmed (\<lambda>_. True) sbi_hart_get_smepmp_flags 1 ?rs m0 m'" "\<And>i. i < 64 \<Longrightarrow> entry_cfg m0 i = 0" "abits m0 = abits m"
    using smepmp_configure_ok [OF assms(1) nz refl, of thesis] by blast
  have fm: "List.find (\<lambda>i. pmp_match m' i a) [0..<pmp_count hf] = map_option Suc (find_region_loop ?rs a)"
    using find_match [OF m'(3) f(5,4), of hf a] f(2,6) assms(6) m'(4,5) by (cases "find_region_loop ?rs a") simp_all
  have "pmp_check (pmp_count hf) m' mode (access_rwx fl) a \<longleftrightarrow>
    (case find_region_loop ?rs a of None \<Rightarrow> mode = PRV_M
     | Some k \<Rightarrow> region_rwx (?rs ! k) mode AND access_rwx fl = access_rwx fl)"
  proof (cases "find_region_loop ?rs a")
    case None
    then show ?thesis using fm assms(5) by (simp add: pmp_check_def find_region_def)
  next
    case (Some k)
    then have k: "k < length ?rs" by (simp add: find_region_loop_Some)
    then have "entry_cfg m' (Suc k) = set_cfg (sbi_hart_get_smepmp_flags (?rs ! k)) (order (?rs ! k))"
      using m'(3) f(4,5) by (auto simp: programmed_def)
    then show ?thesis using Some fm m'(2) smepmp_perm(2) [of "?rs ! k" mode] v k assms(4) by (simp add: pmp_check_def)
  qed
  then have "pmp_check (pmp_count hf) m' mode (access_rwx fl) a \<longleftrightarrow>
      sbi_domain_check_addr (Some dm) a mode fl \<or> sbi_domain_check_addr (Some dm) a mode (fl XOR SBI_DOMAIN_MMIO)"
    unfolding check_addr_mmio .
  then show ?thesis using m'(1) f(1,3) assms(2) by (auto simp: sbi_hart_pmp_configure_def Let_def)
qed

theorem smepmp_enforces_domain_witness:
  "\<exists>m'. sbi_hart_pmp_configure (ex_features True) (ex_domain sme_regions) ex_pmp = Some (0, m') \<and>
    (pmp_check 16 m' PRV_M (access_rwx 4) 0x80200000 \<longleftrightarrow>
      sbi_domain_check_addr (Some (ex_domain sme_regions)) 0x80200000 PRV_M 4 \<or>
      sbi_domain_check_addr (Some (ex_domain sme_regions)) 0x80200000 PRV_M (4 XOR SBI_DOMAIN_MMIO))"
proof -
  have "\<forall>r \<in> set (sbi_domain_for_each_memregion (ex_domain sme_regions)). smepmp_encodable (flags r)"
    unfolding sme_memregions by (simp add: sme_regions_def dev_region_def smepmp_encodable_def smepmp_types)
  moreover have "find_region (ex_domain sme_regions) 0x80200000 \<noteq> None"
    unfolding find_region_def sme_memregions by (simp add: sme_regions_def dev_region_def in_region_def region_end_def BIT_def)
  ultimately show ?thesis
    using smepmp_enforces_domain [OF ex_fits, of True PRV_M "0x80200000" 4] by (simp add: ex_features_def ex_pmp_def)
qed

subsection \<open>Temporary mappings\<close>

lemma map_saddr_loop_eq:
  assumes "ord \<le> 64"
  shows "map_saddr_loop addr sz ord b0 = (case memregion_init_loop addr sz ord of (b, k) \<Rightarrow> if k < 64 then Some (b, k) else None)"
  using assms
proof (induction addr sz ord b0 rule: map_saddr_loop.induct)
  case (1 addr sz ord b0)
  show ?case
  proof (cases "ord < 64")
    case True
    have "push_bit ord 1 = BIT ord" using True by (simp add: BIT_2p)
    then show ?thesis
      using 1 True by (subst map_saddr_loop.simps, subst memregion_init_loop.simps) (auto simp: Let_def)
  next
    case False
    then show ?thesis using "1.prems" by (subst map_saddr_loop.simps, subst memregion_init_loop.simps) auto
  qed
qed

text \<open>The block that \<open>sbi_hart_map_saddr\<close> finds for a range of physical addresses.\<close>

lemma map_saddr_block:
  assumes "4 < unat sz" and "unat addr + unat sz \<le> 2 ^ (n + 2)" "n \<le> 54" and "gran \<le> 63"
  obtains b k where "map_saddr_loop addr sz (max gran (log2roundup sz)) 0 = Some (b, k)"
    "is_region_valid \<lparr>order = k, base = b, flags = fl\<rparr>" "unat b < 2 ^ (n + 2)"
    "{unat addr..<unat addr + unat sz} \<subseteq> rset \<lparr>order = k, base = b, flags = fl\<rparr>"
proof -
  let ?s = "max gran (log2roundup sz)"
  have "(2 :: nat) ^ (n + 2) \<le> 2 ^ 56" using assms(3) by (intro power_increasing) auto
  then have sum: "unat addr + unat sz \<le> 2 ^ 56" using assms(2) by linarith
  have l3: "2 < log2roundup sz"
  proof (rule ccontr)
    assume "\<not> 2 < log2roundup sz"
    then have l: "(2 :: nat) ^ log2roundup sz \<le> 2 ^ 2" "log2roundup sz < 64" using power_increasing [of "log2roundup sz" 2 "2 :: nat"] by auto
    then have "unat sz \<le> 2 ^ log2roundup sz" using log2roundup_least(3) [of sz] by (simp add: word_le_nat_alt unat_BIT)
    then show False using l assms(1) by simp
  qed
  have l56: "log2roundup sz \<le> 56"
  proof (rule ccontr)
    assume "\<not> log2roundup sz \<le> 56"
    then have "BIT 56 < sz" using log2roundup_least(2) [of sz] by simp
    then show False using sum by (simp add: word_less_nat_alt unat_BIT)
  qed
  obtain b k where l: "memregion_init_loop addr sz ?s = (b, k)" by (metis surj_pair)
  have s: "?s \<le> 64" using l56 assms(4) by simp
  note p = memregion_init_loop_spec [OF s l]
  define K where "K = max ?s 57"
  have K: "K < 64" "?s \<le> K" using l56 assms(4) by (simp_all add: K_def)
  have "(2 :: nat) ^ 56 < 2 ^ K" by (intro power_strict_increasing) (simp_all add: K_def)
  moreover have "(2 :: nat) ^ K < 2 ^ 64" using K(1) by (intro power_strict_increasing) simp_all
  moreover have sz: "0 < unat sz" "unat addr + unat sz \<le> 2 ^ 64" using assms(1) sum by simp_all
  ultimately have "init_cond addr sz K" using init_cond_iff [OF K(1) sz] sum by simp
  then have k: "k < 64" using p K by (meson not_le_imp_less order.strict_trans1)
  then have ic: "init_cond addr sz k" "b = addr AND NOT (BIT k - 1)" "3 \<le> k" using p l3 by auto
  have ub: "unat b = unat addr div 2 ^ k * 2 ^ k" using ic(2) unat_and_not_mask [OF k, of addr] by (simp add: BIT_2p [OF k])
  have le: "unat b \<le> unat addr" unfolding ub by (rule div_times_less_eq_dividend)
  have "unat addr + unat sz \<le> unat b + 2 ^ k" using init_cond_iff [OF k sz] ic(1) ub by simp
  moreover have "2 ^ k dvd unat b" by (simp add: ub)
  ultimately show ?thesis
    using that [of b k] l k ic(3) le assms(1,2) s
    by (auto simp: map_saddr_loop_eq is_region_valid_def and_mask_0_iff rset_def)
qed

lemma pmp_match_cong:
  assumes "entry_cfg m' i = entry_cfg m i" and "entry_cfg m i AND 0x18 \<noteq> 0 \<Longrightarrow> entry_addr m' i = entry_addr m i" and "entry_cfg m i AND 0x18 \<noteq> 8"
  shows "pmp_match m' i a = pmp_match m i a"
  using assms by (auto simp: pmp_match_def Let_def)

lemma pmp_check_cong:
  assumes "csr m' 0x747 = csr m 0x747" and "\<And>i. i < cnt \<Longrightarrow> entry_cfg m' i = entry_cfg m i \<and> pmp_match m' i a = pmp_match m i a"
  shows "pmp_check cnt m' mode acc a = pmp_check cnt m mode acc a"
proof -
  have "List.find (\<lambda>i. pmp_match m' i a) [0..<cnt] = List.find (\<lambda>i. pmp_match m i a) [0..<cnt]"
    using assms(2) by (intro find_cong) auto
  moreover have "i < cnt" if "List.find (\<lambda>i. pmp_match m i a) [0..<cnt] = Some i" for i using that by (auto simp: find_Some_iff)
  ultimately show ?thesis using assms by (simp add: pmp_check_def mml_def split: option.split)
qed

lemma entry_not_mapped: "n < 64 \<Longrightarrow> entry_cfg m n = 0 \<Longrightarrow> is_pmp_entry_mapped n m = Some False"
proof -
  assume n: "n < 64" "entry_cfg m n = 0"
  have "drop_bit (8 * (n mod 8)) (csr m (cfg_csr n) AND push_bit (8 * (n mod 8)) 0xff) = entry_cfg m n"
    by (rule bit_word_eqI) (auto simp: bit_drop_bit_eq bit_and_iff bit_push_bit_iff bit_entry_cfg dest: bit_word_lt)
  then show ?thesis
    using n known_pmp(2) [OF n(1)] by (simp add: is_pmp_entry_mapped_def pmp_get_def csr_read_num_def csr_read_def Let_def)
qed

text \<open>C4: The temporary mapping works: on a configured Smepmp hart with its reserved entry off, \<open>sbi_hart_map_saddr\<close> always finds an
  entry for a range of physical memory of more than 4 bytes and M-mode may then read and write every address of the range; and
  \<open>sbi_hart_unmap_saddr\<close> restores the protection: every access is decided as before the mapping.\<close>

theorem map_saddr_roundtrip:
  assumes "has_smepmp hf" and "0 < cnt" "cnt \<le> 64" and "abits m \<le> 54" and "pmp_log2gran hf \<le> 63"
    and "mml m" and "rlb m" and "no_tor m" and "entry_cfg m 0 = 0"
    and "4 < unat sz" and "unat addr + unat sz \<le> 2 ^ (abits m + 2)"
  shows "\<exists>m1 m2. sbi_hart_map_saddr hf addr sz m = Some (SBI_OK, m1) \<and>
    (\<forall>x. unat addr \<le> unat x \<longrightarrow> unat x < unat addr + unat sz \<longrightarrow> pmp_check cnt m1 PRV_M (PMP_R OR PMP_W) x) \<and>
    sbi_hart_unmap_saddr hf m1 = Some (SBI_OK, m2) \<and> (\<forall>mode acc x. pmp_check cnt m2 mode acc x = pmp_check cnt m mode acc x)"
proof -
  obtain b k where bk: "map_saddr_loop addr sz (max (pmp_log2gran hf) (log2roundup sz)) 0 = Some (b, k)"
      "is_region_valid \<lparr>order = k, base = b, flags = 0\<rparr>" "unat b < 2 ^ (abits m + 2)"
      "{unat addr..<unat addr + unat sz} \<subseteq> rset \<lparr>order = k, base = b, flags = 0\<rparr>"
    using map_saddr_block [OF assms(10,11,4,5)] by blast
  have k: "3 \<le> k" "2 \<le> k" "k \<le> 64" using valid_region(1,2) [OF bk(2)] by simp_all
  have u: "\<not> entry_locked m 0" using assms(7) by (simp add: entry_locked_def)
  obtain m1 where m1: "pmp_set 0 (PMP_W OR PMP_X) b k m = Some (0, m1)"
      "\<And>i. i < 64 \<Longrightarrow> entry_cfg m1 i = (if i = 0 then set_cfg (PMP_W OR PMP_X) k else entry_cfg m i)"
      "\<And>i. entry_addr m1 i = (if i = 0 then pmp_encode_addr b k AND mask (abits m) else entry_addr m i)"
      "csr m1 0x747 = csr m 0x747" "abits m1 = abits m"
    using pmp_set_ok [OF _ k(2,3) u assms(8), of "PMP_W OR PMP_X" b thesis] by simp
  have "sbi_hart_map_saddr hf addr sz m = Some (SBI_OK, m1)"
    using assms(1) bk(1) m1(1) entry_not_mapped [OF _ assms(9)] by (simp add: sbi_hart_map_saddr_def)
  moreover have "pmp_check cnt m1 PRV_M (PMP_R OR PMP_W) x" if x: "unat addr \<le> unat x" "unat x < unat addr + unat sz" for x
  proof -
    have "pmp_match m1 0 x \<longleftrightarrow> in_region \<lparr>order = k, base = b, flags = 0\<rparr> x"
      using m1 k(1) set_cfg_napot [of k "PMP_W OR PMP_X"] bk(3) x assms(4,11)
      by (intro match_region bk(2)) (auto simp del: PMP_W_def PMP_X_def)
    then have "pmp_match m1 0 x" using bk(4) x in_region_iff [OF bk(2)] by auto
    then have "List.find (\<lambda>i. pmp_match m1 i x) [0..<cnt] = Some 0" using assms(2) by (simp add: upt_rec)
    moreover have "set_cfg (PMP_W OR PMP_X) k = 0x1e" using k(1) by (simp add: set_cfg_def)
    ultimately show ?thesis using m1(2,4) assms(6) by (simp add: pmp_check_def mml_def mml_perm_def)
  qed
  moreover have u1: "\<not> entry_locked m1 0" using assms(7) m1(4) by (simp add: entry_locked_def rlb_def)
  obtain m2 where m2: "pmp_disable 0 m1 = Some (0, m2)" "\<And>i. entry_cfg m2 i = (if i = 0 then 0 else entry_cfg m1 i)"
      "\<And>i. entry_addr m2 i = entry_addr m1 i" "csr m2 0x747 = csr m1 0x747"
    using pmp_disable_ok [OF _ u1, of thesis] by simp
  have "entry_cfg m2 i = entry_cfg m i \<and> pmp_match m2 i x = pmp_match m i x" if "i < 64" for i x
    using that m1(2,3) m2(2,3) assms(8,9) by (intro conjI pmp_match_cong) (auto simp: no_tor_def)
  then have "pmp_check cnt m2 mode acc x = pmp_check cnt m mode acc x" for mode acc x
    using m1(4) m2(4) assms(3) by (intro pmp_check_cong) auto
  ultimately show ?thesis using m2(1) assms(1) by (auto simp: sbi_hart_unmap_saddr_def)
qed

theorem map_saddr_roundtrip_witness:
  "\<exists>m1. sbi_hart_map_saddr (ex_features True) 0x80200000 80 (with_sec 5 ex_pmp) = Some (SBI_OK, m1) \<and>
    pmp_check 16 m1 PRV_M (PMP_R OR PMP_W) 0x80200048"
proof -
  have "mml (with_sec 5 ex_pmp)" "rlb (with_sec 5 ex_pmp)" by (simp_all add: mml_def rlb_def)
  moreover have "no_tor (with_sec 5 ex_pmp)" "entry_cfg (with_sec 5 ex_pmp) 0 = 0" by (simp_all add: no_tor_def) (simp_all add: entry_cfg_def ex_pmp_def)
  ultimately show ?thesis
    using map_saddr_roundtrip [of "ex_features True" 16 "with_sec 5 ex_pmp" 80 "0x80200000"]
    by (auto simp: ex_features_def) (auto simp: ex_pmp_def)
qed

text \<open>A region that Smepmp cannot express, here the first one with all permissions for M-mode only, ends the programming: the function
  reports success but MML stays off and no entry is written.\<close>

lemma smepmp_rwx_unprotected:
  assumes "sbi_domain_for_each_memregion dm = r # rs" and "flags r AND 0x3f = 7" and "1 < pmp_count hf" and "pmp_fits 1 hf dm m"
  shows "\<exists>m'. sbi_hart_smepmp_configure hf mx dm m = Some (0, m') \<and> \<not> mml m' \<and> (\<forall>i<64. entry_cfg m' i = 0)"
proof -
  let ?m = "with_sec (csr m 0x747 OR MSECCFG_RLB) m"
  have f: "\<And>i. i < 64 \<Longrightarrow> entry_cfg m i = 0" "\<not> mml m" using assms(4) by (auto simp: pmp_fits_def)
  have "\<not> entry_locked ?m 0" by (simp add: entry_locked_def rlb_def)
  then obtain md where md: "pmp_disable 0 ?m = Some (0, md)" "\<And>i. i < 64 \<Longrightarrow> entry_cfg md i = 0" "csr md 0x747 = csr m 0x747 OR MSECCFG_RLB"
    using pmp_disable_ok [of 0 ?m thesis] f(1) by auto
  have low: "flags r AND 7 = 7" "flags r AND 0x38 = 0"
    using and_low(4,8) [of "flags r"] assms(2) by simp_all
  then have "M_ONLY_ACCESS (flags r)" "sbi_hart_get_smepmp_flags r = 0"
    using assms(2) by (simp_all add: M_ONLY_ACCESS_def sbi_hart_get_smepmp_flags_def Let_def IS_SHARED_def IS_SUR_MR_def IS_SUX_MRX_def
      IS_SUX_MX_def IS_SURW_MRW_def IS_SUR_MRW_def)
  then have "smepmp_pass hf mx True 0 (r # rs) md = Some (False, md)" using assms(3) by simp
  moreover have "\<not> mml md" using f(2) md(3) by (simp add: mml_def bit_or_iff MSECCFG_RLB_def bit_BIT)
  ultimately show ?thesis
    using md(1,2) assms(1) by (simp add: sbi_hart_smepmp_configure_def csr_set_sec del: CSR_MSECCFG_def)
qed

end
