(* ===== verification/Sbi_Trap.thy ===== *)
theory Sbi_Trap
  imports Sbi_Sse_Regs
begin

unbundle bit_operations_syntax

text \<open>
  The redirection of traps to a lower privilege mode, \<open>sbi_trap_redirect\<close> of \<open>lib/sbi/sbi_trap.c\<close>, on RV64 and against what the
  hardware does when a trap is delegated.

  \<open>trap_csrs\<close> are the CSRs of the hart that the function accesses; the saved registers are those of \<open>Sbi_Sse\<close>.
\<close>

subsection \<open>The code\<close>

definition MSTATUS_SPELP :: ulong where "MSTATUS_SPELP = BIT 23"
definition MSTATUS_MPELP :: ulong where "MSTATUS_MPELP = BIT 41"
definition HSTATUS_GVA :: ulong where "HSTATUS_GVA = BIT 6"

record sbi_trap_info =
  cause :: ulong
  tval :: ulong
  tval2 :: ulong
  tinst :: ulong
  gva :: bool

text \<open>The whole trap context: the general registers by number, \<open>mepc\<close> and \<open>mstatus\<close>, and the details of the trap.\<close>

record sbi_trap_context =
  tc_gpr :: "nat \<Rightarrow> ulong"
  tc_mepc :: ulong
  tc_mstatus :: ulong
  tc_trap :: sbi_trap_info
  tc_prev :: ulong

record trap_csrs =
  hstatus :: ulong
  htval :: ulong
  htinst :: ulong
  hedeleg :: ulong
  vsstatus :: ulong
  vstval :: ulong
  vsepc :: ulong
  vscause :: ulong
  vstvec :: ulong
  stval :: ulong
  sepc :: ulong
  scause :: ulong
  stvec :: ulong
  has_H :: bool
  has_zicfilp :: bool

definition sbi_regs_from_virt :: "sbi_trap_regs \<Rightarrow> bool" where
  "sbi_regs_from_virt regs \<longleftrightarrow> mstatus regs AND MSTATUS_MPV \<noteq> 0"

definition sbi_mstatus_prev_mode :: "ulong \<Rightarrow> ulong" where
  "sbi_mstatus_prev_mode m = drop_bit 11 (m AND MSTATUS_MPP)"

text \<open>The update of \<open>hstatus\<close> for a trap to HS-mode, and the two status updates; \<open>p\<close> says that the trap came from S-mode.\<close>

definition redirect_hstatus :: "bool \<Rightarrow> bool \<Rightarrow> bool \<Rightarrow> ulong \<Rightarrow> ulong" where
  "redirect_hstatus prev_virt p g h =
    (let h = (if prev_virt then (h AND NOT HSTATUS_SPVP) OR (if p then HSTATUS_SPVP else 0) else h);
         h = (h AND NOT HSTATUS_SPV) OR (if prev_virt then HSTATUS_SPV else 0)
     in (h AND NOT HSTATUS_GVA) OR (if g then HSTATUS_GVA else 0))"

definition redirect_vsstatus :: "bool \<Rightarrow> bool \<Rightarrow> ulong \<Rightarrow> ulong" where
  "redirect_vsstatus elp p v =
    (let v = (if elp then v OR MSTATUS_SPELP else v);
         v = v AND NOT MSTATUS_SPP;
         v = (if p then v OR MSTATUS_SPP else v);
         v = v AND NOT MSTATUS_SPIE;
         v = (if v AND MSTATUS_SIE \<noteq> 0 then v OR MSTATUS_SPIE else v)
     in v AND NOT MSTATUS_SIE)"

definition redirect_sstatus :: "bool \<Rightarrow> bool \<Rightarrow> ulong \<Rightarrow> ulong" where
  "redirect_sstatus elp p m =
    (let m = m AND NOT MSTATUS_SPP;
         m = (if p then m OR MSTATUS_SPP else m);
         m = m AND NOT MSTATUS_SPIE;
         m = (if m AND MSTATUS_SIE \<noteq> 0 then m OR MSTATUS_SPIE else m);
         m = m AND NOT MSTATUS_SIE
     in (if elp then m OR MSTATUS_SPELP else m))"

definition mpp_s :: "ulong \<Rightarrow> ulong" where
  "mpp_s m = (m AND NOT MSTATUS_MPP) OR push_bit 11 PRV_S"

definition sbi_trap_redirect :: "sbi_trap_info \<Rightarrow> sbi_trap_regs \<Rightarrow> trap_csrs \<Rightarrow> int \<times> sbi_trap_regs \<times> trap_csrs" where
  "sbi_trap_redirect trap regs c =
    (let prev_virt = sbi_regs_from_virt regs; prev_mode = sbi_mstatus_prev_mode (mstatus regs)
     in if prev_mode \<noteq> PRV_S \<and> prev_mode \<noteq> PRV_U then (SBI_ENOTSUPP, regs, c)
        else
          let elp = (has_zicfilp c \<and> mstatus regs AND MSTATUS_MPELP \<noteq> 0);
              regs = (if has_zicfilp c then regs\<lparr>mstatus := mstatus regs AND NOT MSTATUS_MPELP\<rparr> else regs);
              next_virt = (has_H c \<and> prev_virt \<and> cause trap < 64 \<and> hedeleg c AND BIT (unat (cause trap)) \<noteq> 0);
              regs = regs\<lparr>mstatus := mstatus regs AND NOT MSTATUS_MPV\<rparr>;
              regs = regs\<lparr>mstatus := mstatus regs OR (if next_virt then MSTATUS_MPV else 0)\<rparr>;
              c = (if has_H c \<and> \<not> next_virt
                   then c\<lparr>hstatus := redirect_hstatus prev_virt (prev_mode = PRV_S) (gva trap) (hstatus c),
                          htval := tval2 trap, htinst := tinst trap\<rparr>
                   else c)
          in if next_virt then
               let c = c\<lparr>vstval := tval trap, vsepc := mepc regs, vscause := cause trap\<rparr>;
                   regs = regs\<lparr>mepc := vstvec c, mstatus := mpp_s (mstatus regs)\<rparr>
               in (0, regs, c\<lparr>vsstatus := redirect_vsstatus elp (prev_mode = PRV_S) (vsstatus c)\<rparr>)
             else
               let c = c\<lparr>stval := tval trap, sepc := mepc regs, scause := cause trap\<rparr>;
                   regs = regs\<lparr>mepc := stvec c, mstatus := mpp_s (mstatus regs)\<rparr>
               in (0, regs\<lparr>mstatus := redirect_sstatus elp (prev_mode = PRV_S) (mstatus regs)\<rparr>, c))"

subsection \<open>The architecture\<close>

text \<open>
  A hart that executes below M-mode: its program counter, privilege mode, virtualization mode and expected landing pad, the
  supervisor view of \<open>mstatus\<close> and the CSRs. \<open>mret\<close> leaves M-mode for the mode in \<open>mstatus\<close>; \<open>mepc\<close> has no bit 0.
\<close>

record hart_view =
  v_pc :: ulong
  v_mode :: ulong
  v_virt :: bool
  v_elp :: bool
  v_status :: ulong
  v_csrs :: trap_csrs

text \<open>The bits of \<open>mstatus\<close> that supervisor software sees and that a trap to it writes: SIE, SPIE, SPP, SPELP.\<close>

definition s_bits :: ulong where "s_bits = BIT 1 OR BIT 5 OR BIT 8 OR BIT 23"

definition mret :: "sbi_trap_regs \<Rightarrow> trap_csrs \<Rightarrow> hart_view" where
  "mret regs c = \<lparr>v_pc = mepc regs AND NOT 1, v_mode = sbi_mstatus_prev_mode (mstatus regs), v_virt = bit (mstatus regs) 39,
    v_elp = (has_zicfilp c \<and> bit (mstatus regs) 41), v_status = mstatus regs AND s_bits, v_csrs = c\<rparr>"

text \<open>One trap entry into a supervisor mode: the status word with SPP, SPIE, SIE and SPELP.\<close>

definition put_bit :: "nat \<Rightarrow> bool \<Rightarrow> ulong \<Rightarrow> ulong" where
  "put_bit k b w = (if b then set_bit k w else unset_bit k w)"

definition trap_entry_status :: "bool \<Rightarrow> bool \<Rightarrow> bool \<Rightarrow> ulong \<Rightarrow> ulong" where
  "trap_entry_status cfi elp p w =
    put_bit 1 False (put_bit 5 (bit w 1) (put_bit 8 p (if cfi then put_bit 23 elp w else w)))"

definition hw_trap_HS :: "sbi_trap_info \<Rightarrow> hart_view \<Rightarrow> hart_view" where
  "hw_trap_HS t v =
    (let c = v_csrs v; s = (v_mode v = PRV_S);
         h = put_bit 6 (gva t) (put_bit 7 (v_virt v) (if v_virt v then put_bit 8 s (hstatus c) else hstatus c));
         c = c\<lparr>sepc := v_pc v, scause := cause t, stval := tval t\<rparr>;
         c = (if has_H c then c\<lparr>hstatus := h, htval := tval2 t, htinst := tinst t\<rparr> else c)
     in \<lparr>v_pc = stvec c AND NOT 3, v_mode = PRV_S, v_virt = False, v_elp = False,
         v_status = trap_entry_status (has_zicfilp c) (v_elp v) s (v_status v), v_csrs = c\<rparr>)"

definition hw_trap_VS :: "sbi_trap_info \<Rightarrow> hart_view \<Rightarrow> hart_view" where
  "hw_trap_VS t v =
    (let c = v_csrs v; s = (v_mode v = PRV_S);
         c = c\<lparr>vsepc := v_pc v, vscause := cause t, vstval := tval t,
               vsstatus := trap_entry_status (has_zicfilp c) (v_elp v) s (vsstatus c)\<rparr>
     in \<lparr>v_pc = vstvec c AND NOT 3, v_mode = PRV_S, v_virt = True, v_elp = False, v_status = v_status v, v_csrs = c\<rparr>)"

text \<open>A trap that is delegated to supervisor level goes on to VS-mode if it came from a virtual mode and \<open>hedeleg\<close> says so.\<close>

definition hw_delegate :: "sbi_trap_info \<Rightarrow> hart_view \<Rightarrow> hart_view" where
  "hw_delegate t v =
    (if has_H (v_csrs v) \<and> v_virt v \<and> cause t < 64 \<and> bit (hedeleg (v_csrs v)) (unat (cause t))
     then hw_trap_VS t v else hw_trap_HS t v)"

subsection \<open>Bit by bit\<close>

lemmas trap_bits = status_bits MSTATUS_SPELP_def MSTATUS_MPELP_def HSTATUS_GVA_def

lemma bit_put_bit: "k < 64 \<Longrightarrow> bit (put_bit k b w) n \<longleftrightarrow> (if n = k then b else bit w n)"
  by (auto simp: put_bit_def bit_set_bit_iff bit_unset_bit_iff)

lemma bit_s_bits: "bit s_bits n \<longleftrightarrow> n \<in> {1, 5, 8, 23}"
  by (simp only: s_bits_def bit_or_iff bit_BIT_lt) auto

lemma bit_trap_entry:
  "bit (trap_entry_status cfi elp p w) n \<longleftrightarrow>
    (if n = 1 then False else if n = 5 then bit w 1 else if n = 8 then p else if n = 23 \<and> cfi then elp else bit w n)"
  by (simp add: trap_entry_status_def bit_put_bit)

lemma redirect_hstatus_eq:
  "redirect_hstatus pv p g h = put_bit 6 g (put_bit 7 pv (if pv then put_bit 8 p h else h))"
proof (rule bit_word_eqI)
  fix n assume "n < LENGTH(64)"
  then show "bit (redirect_hstatus pv p g h) n \<longleftrightarrow> bit (put_bit 6 g (put_bit 7 pv (if pv then put_bit 8 p h else h))) n"
    by (simp only: redirect_hstatus_def Let_def bit_if trap_bits bit_logic) (auto simp: bit_put_bit)
qed

lemma bit_redirect_vsstatus:
  "bit (redirect_vsstatus elp p v) n \<longleftrightarrow>
    (if n = 1 then False else if n = 5 then bit v 1 else if n = 8 then p else if n = 23 then elp \<or> bit v 23 else bit v n)"
  by (cases "n < 64"; simp only: redirect_vsstatus_def Let_def bit_if trap_bits and_BIT bit_logic) (auto dest: bit_word_lt)

lemma bit_redirect_sstatus:
  "bit (redirect_sstatus elp p v) n \<longleftrightarrow>
    (if n = 1 then False else if n = 5 then bit v 1 else if n = 8 then p else if n = 23 then elp \<or> bit v 23 else bit v n)"
  by (cases "n < 64"; simp only: redirect_sstatus_def Let_def bit_if trap_bits and_BIT bit_logic) (auto dest: bit_word_lt)

lemma bit_mpp_s: "bit (mpp_s m) n \<longleftrightarrow> (if n = 11 then True else if n = 12 then False else bit m n)"
  by (simp only: mpp_s_def bit_logic) (auto dest: bit_word_lt)

lemma prev_mode_S:
  assumes "bit m 11" "\<not> bit m 12"
  shows "sbi_mstatus_prev_mode m = PRV_S"
proof (rule bit_word_eqI)
  fix n
  show "bit (sbi_mstatus_prev_mode m) n \<longleftrightarrow> bit PRV_S n"
    using assms by (auto simp: sbi_mstatus_prev_mode_def bit_drop_bit_eq bit_and_iff bit_MPP bit_1_iff)
qed

lemma tvec_base: "\<not> bit w 1 \<Longrightarrow> w AND NOT 1 = w AND NOT (3 :: ulong)"
  by (rule bit_word_eqI) (auto simp only: bit_and_iff bit_not_ulong bit_3 bit_1_iff)

lemma and_not_1:
  assumes "\<not> bit w 0"
  shows "w AND NOT 1 = (w :: ulong)"
proof (rule bit_word_eqI)
  fix n
  show "bit (w AND NOT 1) n \<longleftrightarrow> bit w n"
    using assms by (cases "n = 0") (simp_all only: bit_and_iff bit_not_ulong bit_1_iff, auto dest: bit_word_lt)
qed

text \<open>The redirection in terms of bits: where the trap goes and the \<open>mstatus\<close> with MPELP and MPV updated.\<close>

definition goes_virt :: "sbi_trap_info \<Rightarrow> sbi_trap_regs \<Rightarrow> trap_csrs \<Rightarrow> bool" where
  "goes_virt t regs c \<longleftrightarrow> has_H c \<and> bit (mstatus regs) 39 \<and> cause t < 64 \<and> bit (hedeleg c) (unat (cause t))"

definition redirect_m :: "sbi_trap_info \<Rightarrow> sbi_trap_regs \<Rightarrow> trap_csrs \<Rightarrow> ulong" where
  "redirect_m t regs c =
    ((if has_zicfilp c then mstatus regs AND NOT MSTATUS_MPELP else mstatus regs) AND NOT MSTATUS_MPV) OR
    (if goes_virt t regs c then MSTATUS_MPV else 0)"

lemma bit_redirect_m:
  "bit (redirect_m t regs c) n \<longleftrightarrow>
    (if n = 39 then goes_virt t regs c else if n = 41 \<and> has_zicfilp c then False else bit (mstatus regs) n)"
  by (cases "n < 64"; simp only: redirect_m_def bit_if trap_bits bit_logic) (auto dest: bit_word_lt)

lemma redirect_eq:
  fixes regs :: sbi_trap_regs and c :: trap_csrs
  defines "p \<equiv> sbi_mstatus_prev_mode (mstatus regs) = PRV_S" and "elp \<equiv> has_zicfilp c \<and> bit (mstatus regs) 41"
  assumes "sbi_mstatus_prev_mode (mstatus regs) = PRV_S \<or> sbi_mstatus_prev_mode (mstatus regs) = PRV_U"
  shows "sbi_trap_redirect t regs c =
    (if goes_virt t regs c
     then (0, regs\<lparr>mepc := vstvec c, mstatus := mpp_s (redirect_m t regs c)\<rparr>,
       c\<lparr>vstval := tval t, vsepc := mepc regs, vscause := cause t, vsstatus := redirect_vsstatus elp p (vsstatus c)\<rparr>)
     else (0, regs\<lparr>mepc := stvec c, mstatus := redirect_sstatus elp p (mpp_s (redirect_m t regs c))\<rparr>,
       (if has_H c then c\<lparr>hstatus := redirect_hstatus (bit (mstatus regs) 39) p (gva t) (hstatus c), htval := tval2 t, htinst := tinst t\<rparr>
        else c)\<lparr>stval := tval t, sepc := mepc regs, scause := cause t\<rparr>))"
proof -
  have v: "sbi_regs_from_virt regs \<longleftrightarrow> bit (mstatus regs) 39" by (simp add: sbi_regs_from_virt_def MSTATUS_MPV_def and_BIT)
  have e: "mstatus regs AND MSTATUS_MPELP \<noteq> 0 \<longleftrightarrow> bit (mstatus regs) 41" by (simp add: MSTATUS_MPELP_def and_BIT)
  have d: "cause t < 64 \<and> hedeleg c AND BIT (unat (cause t)) \<noteq> 0 \<longleftrightarrow> cause t < 64 \<and> bit (hedeleg c) (unat (cause t))"
    using and_BIT [of "unat (cause t)" "hedeleg c"] by (auto simp: word_less_nat_alt)
  show ?thesis
    using assms(3) d by (auto simp: sbi_trap_redirect_def Let_def v e goes_virt_def redirect_m_def p_def elp_def)
qed

text \<open>The redirection and the delegation by hardware.\<close>

lemma redirect_delegation:
  assumes "sbi_mstatus_prev_mode (mstatus regs) = PRV_S \<or> sbi_mstatus_prev_mode (mstatus regs) = PRV_U" and "\<not> bit (mepc regs) 0"
    and "\<not> bit (stvec c) 1" "\<not> bit (vstvec c) 1"
    and "has_zicfilp c \<longrightarrow> bit (mstatus regs) 41 \<or> \<not> bit (mstatus regs) 23 \<and> \<not> bit (vsstatus c) 23"
  shows "\<exists>regs' c'. sbi_trap_redirect t regs c = (0, regs', c') \<and> mret regs' c' = hw_delegate t (mret regs c)"
proof -
  let ?m = "mstatus regs" and ?s = "sbi_mstatus_prev_mode (mstatus regs) = PRV_S" and ?e = "has_zicfilp c \<and> bit (mstatus regs) 41"
  let ?r = "redirect_sstatus ?e ?s (mpp_s (redirect_m t regs c))"
  have pc: "mepc regs AND NOT 1 = mepc regs" "stvec c AND NOT 1 = stvec c AND NOT 3" "vstvec c AND NOT 1 = vstvec c AND NOT 3"
    using and_not_1 [OF assms(2)] tvec_base [OF assms(3)] tvec_base [OF assms(4)] by blast+
  have S: "sbi_mstatus_prev_mode (mpp_s (redirect_m t regs c)) = PRV_S" "sbi_mstatus_prev_mode ?r = PRV_S"
    by (intro prev_mode_S; simp add: bit_mpp_s bit_redirect_sstatus)+
  have v: "redirect_vsstatus ?e ?s (vsstatus c) = trap_entry_status (has_zicfilp c) ?e ?s (vsstatus c)"
    using assms(5) by (intro bit_word_eqI) (auto simp: bit_redirect_vsstatus bit_trap_entry)
  have st: "?r AND s_bits = trap_entry_status (has_zicfilp c) ?e ?s (?m AND s_bits)"
    using assms(5) by (intro bit_word_eqI)
      (auto simp: bit_redirect_sstatus bit_trap_entry bit_and_iff bit_s_bits bit_mpp_s bit_redirect_m)
  have sv: "mpp_s (redirect_m t regs c) AND s_bits = ?m AND s_bits"
    by (intro bit_word_eqI) (auto simp: bit_and_iff bit_s_bits bit_mpp_s bit_redirect_m)
  show ?thesis
  proof (cases "goes_virt t regs c")
    case True
    then have "hw_delegate t (mret regs c) = hw_trap_VS t (mret regs c)" by (simp add: hw_delegate_def mret_def goes_virt_def)
    then show ?thesis
      using redirect_eq [OF assms(1), of t c] True S(1) v sv pc
      by (simp add: mret_def hw_trap_VS_def Let_def bit_mpp_s bit_redirect_m)
  next
    case False
    then have "hw_delegate t (mret regs c) = hw_trap_HS t (mret regs c)" by (auto simp: hw_delegate_def mret_def goes_virt_def)
    then show ?thesis
      using redirect_eq [OF assms(1), of t c] False S(2) st pc
      by (simp add: mret_def hw_trap_HS_def Let_def bit_redirect_sstatus bit_mpp_s bit_redirect_m redirect_hstatus_eq)
  qed
qed

subsection \<open>Properties\<close>

text \<open>C5: \<open>sbi_trap_redirect\<close> emulates the delegation of the trap by hardware: for a trap from S- or U-mode, virtual or not, the
  return from M-mode after the redirection gives exactly the state that the hart would have had if the hardware had delegated
  the trap to VS- or HS-mode in the interrupted context: program counter, mode, virtualization, status bits and all CSRs. The
  vector must be in direct or vectored mode; with landing pads, SPELP of the target must be clear unless a pad is expected.\<close>

theorem redirect_emulates_delegation:
  assumes "sbi_mstatus_prev_mode (mstatus regs) = PRV_S \<or> sbi_mstatus_prev_mode (mstatus regs) = PRV_U" and "\<not> bit (mepc regs) 0"
    and "\<not> bit (stvec c) 1" "\<not> bit (vstvec c) 1"
    and "has_zicfilp c \<longrightarrow> bit (mstatus regs) 41 \<or> \<not> bit (mstatus regs) 23 \<and> \<not> bit (vsstatus c) 23"
  shows "\<exists>regs' c'. sbi_trap_redirect t regs c = (0, regs', c') \<and> mret regs' c' = hw_delegate t (mret regs c)"
  by (rule redirect_delegation [OF assms])

definition ex_trap_csrs :: trap_csrs where
  "ex_trap_csrs = \<lparr>hstatus = 0, htval = 0, htinst = 0, hedeleg = 0x100, vsstatus = 2, vstval = 0, vsepc = 0, vscause = 0,
    vstvec = 0x80400000, stval = 0, sepc = 0, scause = 0, stvec = 0x80200001, has_H = True, has_zicfilp = True\<rparr>"

theorem redirect_emulates_delegation_witness:
  "\<exists>regs' c'. sbi_trap_redirect \<lparr>cause = 8, tval = 0, tval2 = 0, tinst = 0, gva = False\<rparr>
      \<lparr>mepc = 0x10000, mstatus = 0x8000000800, a6 = 0, a7 = 0\<rparr> ex_trap_csrs = (0, regs', c') \<and>
    mret regs' c' = hw_delegate \<lparr>cause = 8, tval = 0, tval2 = 0, tinst = 0, gva = False\<rparr>
      (mret \<lparr>mepc = 0x10000, mstatus = 0x8000000800, a6 = 0, a7 = 0\<rparr> ex_trap_csrs)"
proof -
  let ?regs = "\<lparr>mepc = 0x10000, mstatus = 0x8000000800, a6 = 0, a7 = 0\<rparr>"
  have "sbi_mstatus_prev_mode (mstatus ?regs) = PRV_S" by (simp add: sbi_mstatus_prev_mode_def MSTATUS_MPP_def)
  then show ?thesis by (intro redirect_emulates_delegation) (simp_all add: ex_trap_csrs_def)
qed

text \<open>The condition on SPELP is needed: the code sets SPELP when a landing pad was expected but never clears it, so after an exception in
  code that expected none a SPELP left from before survives and the handler's \<open>sret\<close> expects a landing pad.\<close>

lemma redirect_keeps_SPELP:
  assumes "sbi_mstatus_prev_mode (mstatus regs) = PRV_S \<or> sbi_mstatus_prev_mode (mstatus regs) = PRV_U"
    and "\<not> goes_virt t regs c" and "has_zicfilp c" and "\<not> bit (mstatus regs) 41" and "bit (mstatus regs) 23"
  shows "bit (mstatus (fst (snd (sbi_trap_redirect t regs c)))) 23" and "\<not> bit (v_status (hw_delegate t (mret regs c))) 23"
proof -
  show "bit (mstatus (fst (snd (sbi_trap_redirect t regs c)))) 23"
    using assms by (simp add: redirect_eq bit_redirect_sstatus bit_mpp_s bit_redirect_m)
  have "hw_delegate t (mret regs c) = hw_trap_HS t (mret regs c)" using assms(2) by (auto simp: hw_delegate_def mret_def goes_virt_def)
  then show "\<not> bit (v_status (hw_delegate t (mret regs c))) 23"
    using assms by (simp add: hw_trap_HS_def mret_def Let_def bit_trap_entry)
qed

lemma redirect_refused:
  assumes "sbi_mstatus_prev_mode (mstatus regs) \<noteq> PRV_S" and "sbi_mstatus_prev_mode (mstatus regs) \<noteq> PRV_U"
  shows "sbi_trap_redirect t regs c = (SBI_ENOTSUPP, regs, c)"
  using assms by (simp add: sbi_trap_redirect_def Let_def)

end
