(* ===== verification/Sbi_Domain_Context.thy ===== *)
theory Sbi_Domain_Context
  imports Sbi_Domain_Data Sbi_Smepmp Sbi_Hsm Sbi_Trap
begin

text \<open>
  Switching a hart between domains, \<open>lib/sbi/sbi_domain_context.c\<close>: the contexts of a hart in the domains, the switch with the new
  domain assignment, the PMP and the supervisor CSRs, and the calls to enter a domain and to leave it.

  The state is that of one hart and of the tables it shares. A context lives at a key of \<open>ctxs\<close>; \<open>tabs b\<close> is the table of
  context pointers in the domain data block \<open>b\<close>. The result \<open>None\<close> of an operation is an access through a \<open>NULL\<close> pointer (or the
  panic of a PMP access).
\<close>

subsection \<open>State\<close>

record s_csrs =
  sstatus :: ulong
  sie :: ulong
  stvec :: ulong
  sscratch :: ulong
  sepc :: ulong
  scause :: ulong
  stval :: ulong
  sip :: ulong
  satp :: ulong
  scounteren :: ulong
  senvcfg :: ulong

record hart_context = s_csrs +
  trap_ctx :: sbi_trap_context
  ctx_dom :: nat
  prev_ctx :: "nat option"
  initialized :: bool

record dctx_state =
  hsm :: hsm_globals
  dd :: data_globals
  tabs :: "nat \<Rightarrow> nat \<Rightarrow> nat option"
  ctxs :: "nat \<Rightarrow> hart_context"
  nctx :: nat
  csrs :: s_csrs
  tctx :: sbi_trap_context
  pmp :: pmp_hw

text \<open>The hart: its index and id, its features, the version of the privileged architecture, and which bits of its CSRs a write can
  change (the others, for example the pending external interrupt in \<open>sip\<close>, are set by the hardware).\<close>

record hart_env =
  hartindex :: nat
  hartid :: u32
  features :: sbi_hart_features
  priv_version :: nat
  writable :: s_csrs

abbreviation dg :: "dctx_state \<Rightarrow> domain_globals" where
  "dg s \<equiv> hsm_doms (hsm s)"

definition upd_dg :: "(domain_globals \<Rightarrow> domain_globals) \<Rightarrow> dctx_state \<Rightarrow> dctx_state" where
  "upd_dg f s = s\<lparr>hsm := (hsm s)\<lparr>hsm_doms := f (dg s)\<rparr>\<rparr>"

definition upd_ctx :: "nat \<Rightarrow> (hart_context \<Rightarrow> hart_context) \<Rightarrow> dctx_state \<Rightarrow> dctx_state" where
  "upd_ctx p f s = s\<lparr>ctxs := (ctxs s)(p := f (ctxs s p))\<rparr>"

definition zero_trap :: sbi_trap_context where
  "zero_trap = \<lparr>tc_gpr = (\<lambda>_. 0), tc_mepc = 0, tc_mstatus = 0,
    tc_trap = \<lparr>cause = 0, tval = 0, tval2 = 0, tinst = 0, gva = False\<rparr>, tc_prev = 0\<rparr>"

definition zero_ctx :: hart_context where
  "zero_ctx = \<lparr>sstatus = 0, sie = 0, stvec = 0, sscratch = 0, sepc = 0, scause = 0, stval = 0, sip = 0, satp = 0, scounteren = 0,
    senvcfg = 0, trap_ctx = zero_trap, ctx_dom = 0, prev_ctx = None, initialized = False\<rparr>"

subsection \<open>Contexts\<close>

text \<open>The key of the static \<open>struct sbi_domain_data dcpriv\<close>.\<close>

definition dcpriv :: nat where "dcpriv = 0"

definition hart_context_get :: "dctx_state \<Rightarrow> nat option \<Rightarrow> nat \<Rightarrow> nat option" where
  "hart_context_get s dp i =
    (case sbi_domain_data_ptr (dd s) dp (Some dcpriv) of
      None \<Rightarrow> None
    | Some b \<Rightarrow> if i < SBI_HARTMASK_MAX_BITS then tabs s b i else None)"

definition hart_context_set :: "nat option \<Rightarrow> nat \<Rightarrow> nat \<Rightarrow> dctx_state \<Rightarrow> dctx_state" where
  "hart_context_set dp i p s =
    (case sbi_domain_data_ptr (dd s) dp (Some dcpriv) of
      None \<Rightarrow> s
    | Some b \<Rightarrow> if i < SBI_HARTMASK_MAX_BITS then s\<lparr>tabs := (tabs s)(b := (tabs s b)(i := Some p))\<rparr> else s)"

definition hart_context_thishart_get :: "hart_env \<Rightarrow> dctx_state \<Rightarrow> nat option" where
  "hart_context_thishart_get e s = hart_context_get s (sbi_hartindex_to_domain (dg s) (hartindex e)) (hartindex e)"

definition zalloc_ctx :: "(nat \<Rightarrow> bool) \<Rightarrow> dctx_state \<Rightarrow> nat option \<times> dctx_state" where
  "zalloc_ctx fails s =
    (if fails (nctx s) then (None, s\<lparr>nctx := nctx s + 1\<rparr>)
     else (Some (nctx s), s\<lparr>nctx := nctx s + 1, ctxs := (ctxs s)(nctx s := zero_ctx)\<rparr>))"

subsection \<open>The switch\<close>

definition csr_wr :: "ulong \<Rightarrow> ulong \<Rightarrow> ulong \<Rightarrow> ulong" where
  "csr_wr w old new = (old AND NOT w) OR (new AND w)"

definition SBI_HART_PRIV_VER_1_10 :: nat where [simp, sbi_defs]: "SBI_HART_PRIV_VER_1_10 = 1"
definition SBI_HART_PRIV_VER_1_12 :: nat where [simp, sbi_defs]: "SBI_HART_PRIV_VER_1_12 = 3"

text \<open>What the sequence of \<open>csr_swap\<close> leaves in the CSRs and in the context of the caller.\<close>

definition csrs_load :: "hart_env \<Rightarrow> s_csrs \<Rightarrow> hart_context \<Rightarrow> s_csrs" where
  "csrs_load e c x =
    (let w = writable e
     in \<lparr>sstatus = csr_wr (sstatus w) (sstatus c) (sstatus x), sie = csr_wr (sie w) (sie c) (sie x),
         stvec = csr_wr (stvec w) (stvec c) (stvec x), sscratch = csr_wr (sscratch w) (sscratch c) (sscratch x),
         sepc = csr_wr (sepc w) (sepc c) (sepc x), scause = csr_wr (scause w) (scause c) (scause x),
         stval = csr_wr (stval w) (stval c) (stval x), sip = csr_wr (sip w) (sip c) (sip x),
         satp = csr_wr (satp w) (satp c) (satp x),
         scounteren = (if SBI_HART_PRIV_VER_1_10 \<le> priv_version e then csr_wr (scounteren w) (scounteren c) (scounteren x) else scounteren c),
         senvcfg = (if SBI_HART_PRIV_VER_1_12 \<le> priv_version e then csr_wr (senvcfg w) (senvcfg c) (senvcfg x) else senvcfg c)\<rparr>)"

definition csrs_save :: "hart_env \<Rightarrow> s_csrs \<Rightarrow> hart_context \<Rightarrow> hart_context" where
  "csrs_save e c x =
    (let x = x\<lparr>sstatus := sstatus c, sie := sie c, stvec := stvec c, sscratch := sscratch c, sepc := sepc c, scause := scause c,
           stval := stval c, sip := sip c, satp := satp c\<rparr>;
         x = (if SBI_HART_PRIV_VER_1_10 \<le> priv_version e then x\<lparr>scounteren := scounteren c\<rparr> else x)
     in if SBI_HART_PRIV_VER_1_12 \<le> priv_version e then x\<lparr>senvcfg := senvcfg c\<rparr> else x)"

fun pmp_disable_all :: "nat list \<Rightarrow> pmp_hw \<Rightarrow> pmp_hw option" where
  "pmp_disable_all [] m = Some m"
| "pmp_disable_all (i # is) m = do { (ret, m) \<leftarrow> pmp_disable i m; pmp_disable_all is m }"

definition switch_to_next_domain_context :: "hart_env \<Rightarrow> nat \<Rightarrow> nat \<Rightarrow> dctx_state \<Rightarrow> (outcome \<times> dctx_state) option" where
  "switch_to_next_domain_context e c d s =
    (let i = hartindex e; current_dom = ctx_dom (ctxs s c); target_dom = ctx_dom (ctxs s d);
         s = upd_dg (upd_domain current_dom (\<lambda>dm. dm\<lparr>assigned_harts := sbi_hartmask_clear_hartindex i (assigned_harts dm)\<rparr>)) s;
         s = upd_dg (sbi_update_hartindex_to_domain i target_dom) s;
         s = upd_dg (upd_domain target_dom (\<lambda>dm. dm\<lparr>assigned_harts := sbi_hartmask_set_hartindex i (assigned_harts dm)\<rparr>)) s
     in do {
       m \<leftarrow> pmp_disable_all [0..<pmp_count (features e)] (pmp s);
       dp \<leftarrow> sbi_hartindex_to_domain (dg s) i;
       (rc, m) \<leftarrow> sbi_hart_pmp_configure (features e) (domains (dg s) dp) m;
       let s = s\<lparr>pmp := m\<rparr>;
       let live = csrs s;
       let s = s\<lparr>csrs := csrs_load e live (ctxs s d)\<rparr>;
       let s = upd_ctx c (csrs_save e live) s;
       let s = upd_ctx c (\<lambda>x. x\<lparr>trap_ctx := tctx s\<rparr>) s;
       let s = s\<lparr>tctx := trap_ctx (ctxs s d)\<rparr>;
       let s = upd_ctx c (\<lambda>x. x\<lparr>initialized := True\<rparr>) s;
       if \<not> initialized (ctxs s d) then
         let t = domains (dg s) target_dom
         in if hartid e = boot_hartid t
            then Some (Switch_mode (boot_hartid t) (dom_next_arg1 t) (dom_next_addr t) (dom_next_mode t), s)
            else (case sbi_hsm_hart_stop i (hsm s) of (rc, h) \<Rightarrow> Some (if rc = 0 then Hang else Ret 0, s\<lparr>hsm := h\<rparr>))
       else Some (Ret 0, s)
     })"

definition sbi_domain_context_enter :: "hart_env \<Rightarrow> nat option \<Rightarrow> dctx_state \<Rightarrow> (outcome \<times> dctx_state) option" where
  "sbi_domain_context_enter e dp s =
    (let ctx = hart_context_thishart_get e s
     in case hart_context_get s dp (hartindex e) of
          None \<Rightarrow> Some (Ret SBI_EINVAL, s)
        | Some d \<Rightarrow>
            let s = upd_ctx d (\<lambda>x. x\<lparr>prev_ctx := ctx\<rparr>) s
            in do { c \<leftarrow> ctx; switch_to_next_domain_context e c d s })"

text \<open>The allocation loop of \<open>sbi_domain_context_exit\<close> and its search for a context that has not run yet.\<close>

fun alloc_loop :: "(nat \<Rightarrow> bool) \<Rightarrow> nat \<Rightarrow> nat list \<Rightarrow> dctx_state \<Rightarrow> bool \<times> dctx_state" where
  "alloc_loop fails i [] s = (True, s)"
| "alloc_loop fails i (d # ds) s =
    (if \<not> (case possible_harts (domains (dg s) d) of None \<Rightarrow> False | Some hm \<Rightarrow> sbi_hartmask_test_hartindex i hm)
     then alloc_loop fails i ds s
     else (case zalloc_ctx fails s of
         (None, s) \<Rightarrow> (False, s)
       | (Some p, s) \<Rightarrow> alloc_loop fails i ds (hart_context_set (Some d) i p (upd_ctx p (\<lambda>x. x\<lparr>ctx_dom := d\<rparr>) s))))"

fun next_uninit :: "nat \<Rightarrow> nat list \<Rightarrow> dctx_state \<Rightarrow> nat option" where
  "next_uninit i [] s = None"
| "next_uninit i (d # ds) s =
    (if d = root_dom \<or> Some d = sbi_hartindex_to_domain (dg s) i then next_uninit i ds s
     else (case hart_context_get s (Some d) i of
         None \<Rightarrow> next_uninit i ds s
       | Some t \<Rightarrow> if \<not> initialized (ctxs s t) then Some t else next_uninit i ds s))"

definition exit_switch :: "hart_env \<Rightarrow> nat \<Rightarrow> dctx_state \<Rightarrow> (outcome \<times> dctx_state) option" where
  "exit_switch e c s =
    do {
      d \<leftarrow> (case prev_ctx (ctxs s c) of
              Some p \<Rightarrow> Some p
            | None \<Rightarrow> (case next_uninit (hartindex e) (domain_list (dg s)) s of
                  Some t \<Rightarrow> Some t
                | None \<Rightarrow> hart_context_get s (Some root_dom) (hartindex e)));
      switch_to_next_domain_context e c d s
    }"

definition sbi_domain_context_exit :: "(nat \<Rightarrow> bool) \<Rightarrow> hart_env \<Rightarrow> dctx_state \<Rightarrow> (outcome \<times> dctx_state) option" where
  "sbi_domain_context_exit fails e s =
    (case hart_context_thishart_get e s of
      None \<Rightarrow>
        (case alloc_loop fails (hartindex e) (domain_list (dg s)) s of (ok, s) \<Rightarrow>
          if \<not> ok then Some (Ret SBI_ENOMEM, s)
          else do { c \<leftarrow> hart_context_thishart_get e s; exit_switch e c s })
    | Some c \<Rightarrow> exit_switch e c s)"

definition sbi_domain_context_init :: "(nat \<Rightarrow> bool) \<Rightarrow> dctx_state \<Rightarrow> int \<times> dctx_state" where
  "sbi_domain_context_init fails s =
    (case sbi_domain_register_data fails (Some dcpriv) (dd s) of (rc, g) \<Rightarrow> (rc, s\<lparr>dd := g\<rparr>))"

definition sbi_domain_context_deinit :: "dctx_state \<Rightarrow> dctx_state" where
  "sbi_domain_context_deinit s = s\<lparr>dd := sbi_domain_unregister_data dcpriv (dd s)\<rparr>"

end
