(* ===== verification/Sbi_Domain_Switch.thy ===== *)
theory Sbi_Domain_Switch
  imports Sbi_Domain_Context
begin

unbundle bit_operations_syntax

text \<open>
  What a switch of domains does: it moves the hart from one domain to the other, programs the PMP for the new domain, and exchanges
  the supervisor context. The invariant \<open>ctx_inv\<close> of a hart that switches between domains, and the properties of entering and
  leaving.
\<close>

subsection \<open>PMP\<close>

definition pmp_ready :: "hart_env \<Rightarrow> pmp_hw \<Rightarrow> bool" where
  "pmp_ready e m \<longleftrightarrow> \<not> has_smepmp (features e) \<and> pmp_addr_bits (features e) = abits m \<and> 0 < abits m \<and> abits m \<le> 54 \<and>
    0 < pmp_count (features e) \<and> pmp_count (features e) \<le> 64 \<and> (\<forall>i<64. \<not> bit (entry_cfg m i) 7) \<and>
    (\<forall>i<64. pmp_count (features e) \<le> i \<longrightarrow> entry_cfg m i = 0) \<and> \<not> mml m"

text \<open>A domain that the PMP can hold, without regions whose permissions also bind M-mode (these lock their entries).\<close>

definition dom_fits :: "hart_env \<Rightarrow> nat \<Rightarrow> sbi_domain \<Rightarrow> bool" where
  "dom_fits e n dm \<longleftrightarrow> length (sbi_domain_for_each_memregion dm) \<le> pmp_count (features e) \<and>
    (\<forall>r \<in> set (sbi_domain_for_each_memregion dm). region_fits (features e) n r \<and> flags r AND SBI_DOMAIN_MEMREGION_ENF_PERMISSIONS = 0)"

definition enforced :: "hart_env \<Rightarrow> sbi_domain \<Rightarrow> pmp_hw \<Rightarrow> bool" where
  "enforced e dm m \<longleftrightarrow> (\<forall>mode fl a. mode \<noteq> PRV_M \<longrightarrow> unat a < 2 ^ (abits m + 2) \<longrightarrow>
    pmp_check (pmp_count (features e)) m mode (access_rwx fl) a =
      (sbi_domain_check_addr (Some dm) a mode fl \<or> sbi_domain_check_addr (Some dm) a mode (fl XOR SBI_DOMAIN_MMIO)))"

lemma pmp_disable_all_ok:
  assumes "\<forall>i \<in> set js. i < 64 \<and> \<not> entry_locked m i"
  shows "\<exists>m'. pmp_disable_all js m = Some m' \<and> (\<forall>i. entry_cfg m' i = (if i \<in> set js then 0 else entry_cfg m i)) \<and>
    csr m' 0x747 = csr m 0x747 \<and> abits m' = abits m"
  using assms
proof (induction js arbitrary: m)
  case (Cons j js)
  obtain m1 where m1: "pmp_disable j m = Some (0, m1)" "\<And>i. entry_cfg m1 i = (if i = j then 0 else entry_cfg m i)"
      "csr m1 0x747 = csr m 0x747" "abits m1 = abits m"
    using pmp_disable_ok [of j m thesis] Cons.prems by auto
  have "\<forall>i \<in> set js. i < 64 \<and> \<not> entry_locked m1 i"
    using Cons.prems m1 by (auto simp: entry_locked_def rlb_def)
  from Cons.IH [OF this] show ?case using m1 by auto
qed simp

lemma oldpmp_flags_unlocked: "flags r AND SBI_DOMAIN_MEMREGION_ENF_PERMISSIONS = 0 \<Longrightarrow> \<not> bit (oldpmp_flags r) 7"
  by (simp add: oldpmp_flags_def bit_or_iff)

lemma pmp_switch:
  assumes "pmp_ready e m" and "dom_fits e (abits m) dm"
  obtains m1 m' where "pmp_disable_all [0..<pmp_count (features e)] m = Some m1" "sbi_hart_pmp_configure (features e) dm m1 = Some (0, m')"
    "pmp_ready e m'" "abits m' = abits m" "enforced e dm m'"
proof -
  let ?rs = "sbi_domain_for_each_memregion dm"
  have r: "\<not> has_smepmp (features e)" "pmp_addr_bits (features e) = abits m" "0 < abits m" "abits m \<le> 54"
      "0 < pmp_count (features e)" "pmp_count (features e) \<le> 64" "\<And>i. i < 64 \<Longrightarrow> \<not> bit (entry_cfg m i) 7"
      "\<And>i. i < 64 \<Longrightarrow> pmp_count (features e) \<le> i \<Longrightarrow> entry_cfg m i = 0" "\<not> mml m"
    using assms(1) by (simp_all add: pmp_ready_def)
  have "\<forall>i \<in> set [0..<pmp_count (features e)]. i < 64 \<and> \<not> entry_locked m i" using r by (auto simp: entry_locked_def)
  then obtain m1 where m1: "pmp_disable_all [0..<pmp_count (features e)] m = Some m1"
      "\<And>i. entry_cfg m1 i = (if i < pmp_count (features e) then 0 else entry_cfg m i)" "csr m1 0x747 = csr m 0x747" "abits m1 = abits m"
    using pmp_disable_all_ok [of "[0..<pmp_count (features e)]" m] by auto
  have fits: "pmp_fits 0 (features e) dm m1"
    using r m1 assms(2) unfolding pmp_fits_def dom_fits_def by (simp add: mml_def)
  obtain m' where m': "sbi_hart_pmp_configure (features e) dm m1 = Some (0, m')" "programmed (\<lambda>_. True) oldpmp_flags 0 ?rs m1 m'"
    using oldpmp_configured [OF fits r(1)] .
  have a: "abits m' = abits m" "\<not> mml m'" using m'(2) m1 r(9) by (simp_all add: programmed_def mml_def)
  have cfg: "entry_cfg m' i = (if i < length ?rs then set_cfg (oldpmp_flags (?rs ! i)) (order (?rs ! i)) else 0)" if "i < 64" for i
    using m'(2) that m1(2) r(8) [OF that] by (auto simp: programmed_def)
  have "\<not> bit (entry_cfg m' i) 7" if i: "i < 64" for i
  proof (cases "i < length ?rs")
    case True
    then have "region_fits (features e) (abits m) (?rs ! i)" "flags (?rs ! i) AND SBI_DOMAIN_MEMREGION_ENF_PERMISSIONS = 0"
      using assms(2) by (simp_all add: dom_fits_def)
    moreover then have "order (?rs ! i) \<noteq> 2" using valid_region(1) [of "?rs ! i"] by (auto simp: region_fits_def)
    ultimately show ?thesis using cfg [OF i] True oldpmp_flags_unlocked [of "?rs ! i"] bit_set_cfg by simp
  qed (use cfg [OF i] in simp)
  then have "pmp_ready e m'" using r a cfg assms(2) unfolding pmp_ready_def dom_fits_def by auto
  moreover have "enforced e dm m'"
    using oldpmp_enforces [OF fits m'(2)] a m1(4) unfolding enforced_def by simp
  ultimately show ?thesis using that m1(1) m'(1) a(1) by blast
qed

subsection \<open>Ownership\<close>

definition move_hart :: "nat \<Rightarrow> nat \<Rightarrow> nat \<Rightarrow> domain_globals \<Rightarrow> domain_globals" where
  "move_hart i A B g =
    upd_domain B (\<lambda>dm. dm\<lparr>assigned_harts := sbi_hartmask_set_hartindex i (assigned_harts dm)\<rparr>)
      (sbi_update_hartindex_to_domain i B
        (upd_domain A (\<lambda>dm. dm\<lparr>assigned_harts := sbi_hartmask_clear_hartindex i (assigned_harts dm)\<rparr>) g))"

lemma move_hart_fields [simp]:
  "scratch_tab (move_hart i A B g) = scratch_tab g" "domain_list (move_hart i A B g) = domain_list g"
  "domain_hart_ptr_offset (move_hart i A B g) = domain_hart_ptr_offset g"
  "possible_harts (domains (move_hart i A B g) d) = possible_harts (domains g d)"
  "regions (domains (move_hart i A B g) d) = regions (domains g d)"
  "boot_hartid (domains (move_hart i A B g) d) = boot_hartid (domains g d)"
  "possible (move_hart i A B g) d = possible g d"
  "sbi_domain_for_each_memregion (domains (move_hart i A B g) d) = sbi_domain_for_each_memregion (domains g d)"
  "sbi_hartindex_to_scratch (scratch_tab (move_hart i A B g)) = sbi_hartindex_to_scratch (scratch_tab g)"
  by (simp_all add: move_hart_def possible_def sbi_domain_for_each_memregion_def)

lemma dom_fits_move [simp]: "dom_fits e n (domains (move_hart i A B g) d) = dom_fits e n (domains g d)"
  by (simp add: dom_fits_def)

lemma check_addr_move: "sbi_domain_check_addr (Some (domains (move_hart i A B g) d)) = sbi_domain_check_addr (Some (domains g d))"
  by (intro ext) (simp add: sbi_domain_check_addr_def)

lemma enforced_move: "enforced e (domains (move_hart i A B g) d) = enforced e (domains g d)"
  by (intro ext) (simp add: enforced_def check_addr_move)

lemma move_hart_assigned:
  assumes "wf_domains g" and "i < 128"
  shows "assigned (move_hart i A B g) d = (if d = B then insert i (assigned g B) else if d = A then assigned g A - {i} else assigned g d)"
  using assms by (auto simp: move_hart_def wf_domains_def hartset_set hartset_clear)

lemma ownership_move:
  assumes inv: "ownership_inv g" and i: "i < 128" "sbi_hartindex_to_scratch (scratch_tab g) (of_nat i) \<noteq> 0"
    and A: "hart_domain_ptr g i = Some A" and B: "i \<in> possible g B"
  shows "ownership_inv (move_hart i A B g)" and "hart_domain_ptr (move_hart i A B g) = (hart_domain_ptr g)(i := Some B)"
proof -
  have wf: "wf_domains g" using inv by (simp add: ownership_inv_def)
  show p: "hart_domain_ptr (move_hart i A B g) = (hart_domain_ptr g)(i := Some B)"
    using i(2) by (simp add: move_hart_def sbi_update_hartindex_to_domain_def)
  have "wf_domains (move_hart i A B g)" using wf by (simp add: move_hart_def wf_domains_def)
  then show "ownership_inv (move_hart i A B g)"
    using inv A B by (auto simp: ownership_inv_def p move_hart_assigned [OF wf i(1)] split: if_splits)
qed

subsection \<open>The switch\<close>

definition saved :: "hart_env \<Rightarrow> dctx_state \<Rightarrow> hart_context \<Rightarrow> hart_context" where
  "saved e s x = (csrs_save e (csrs s) x)\<lparr>trap_ctx := tctx s, initialized := True\<rparr>"

lemma saved_fields [simp]:
  "ctx_dom (saved e s x) = ctx_dom x" "prev_ctx (saved e s x) = prev_ctx x" "initialized (saved e s x)" "trap_ctx (saved e s x) = tctx s"
  by (simp_all add: saved_def csrs_save_def Let_def)

text \<open>The hart moves to the domain of the target context; \<open>switched\<close> is the state in which the code there continues.\<close>

definition switched :: "hart_env \<Rightarrow> nat \<Rightarrow> nat \<Rightarrow> pmp_hw \<Rightarrow> dctx_state \<Rightarrow> dctx_state" where
  "switched e c d m s =
    s\<lparr>hsm := (hsm s)\<lparr>hsm_doms := move_hart (hartindex e) (ctx_dom (ctxs s c)) (ctx_dom (ctxs s d)) (dg s)\<rparr>, pmp := m,
      csrs := csrs_load e (csrs s) (ctxs s d), ctxs := (ctxs s)(c := saved e s (ctxs s c)),
      tctx := (if c = d then tctx s else trap_ctx (ctxs s d))\<rparr>"

lemma upd_dg_move:
  "upd_dg (upd_domain B (\<lambda>dm. dm\<lparr>assigned_harts := sbi_hartmask_set_hartindex i (assigned_harts dm)\<rparr>))
    (upd_dg (sbi_update_hartindex_to_domain i B)
      (upd_dg (upd_domain A (\<lambda>dm. dm\<lparr>assigned_harts := sbi_hartmask_clear_hartindex i (assigned_harts dm)\<rparr>)) s)) =
    upd_dg (move_hart i A B) s"
  by (simp add: upd_dg_def move_hart_def)

lemma switch_result:
  assumes ready: "pmp_ready e (pmp s)" and fits: "dom_fits e (abits (pmp s)) (domains (dg s) (ctx_dom (ctxs s d)))"
    and i: "sbi_hartindex_to_scratch (scratch_tab (dg s)) (of_nat (hartindex e)) \<noteq> 0" "domain_hart_ptr_offset (dg s) \<noteq> 0"
  obtains m r hd where "switch_to_next_domain_context e c d s = Some (r, (switched e c d m s)\<lparr>hsm := (hsm (switched e c d m s))\<lparr>hsm_data := hd\<rparr>\<rparr>)"
    "pmp_ready e m" "abits m = abits (pmp s)" "enforced e (domains (dg s) (ctx_dom (ctxs s d))) m"
    "initialized (ctxs s d) \<or> c = d \<Longrightarrow> r = Ret 0 \<and> hd = hsm_data (hsm s)"
proof -
  let ?A = "ctx_dom (ctxs s c)" and ?B = "ctx_dom (ctxs s d)" and ?i = "hartindex e"
  let ?g = "move_hart ?i ?A ?B (dg s)"
  obtain m1 m where m: "pmp_disable_all [0..<pmp_count (features e)] (pmp s) = Some m1"
      "sbi_hart_pmp_configure (features e) (domains ?g ?B) m1 = Some (0, m)"
      "pmp_ready e m" "abits m = abits (pmp s)" "enforced e (domains ?g ?B) m"
    using pmp_switch [OF ready, of "domains ?g ?B" thesis] fits by simp
  let ?s1 = "switched e c d m s"
  have dom: "sbi_hartindex_to_domain ?g ?i = Some ?B"
    using i by (simp add: sbi_hartindex_to_domain_def) (simp add: move_hart_def sbi_update_hartindex_to_domain_def)
  have stop: "\<exists>rc hd. sbi_hsm_hart_stop ?i h = (rc, h\<lparr>hsm_data := hd\<rparr>)" for h
    by (auto simp: sbi_hsm_hart_stop_def change_state_eq upd_data_def split: option.split intro: exI [of _ "hsm_data h"])
  obtain rc hd where rc: "sbi_hsm_hart_stop ?i (hsm ?s1) = (rc, (hsm ?s1)\<lparr>hsm_data := hd\<rparr>)" using stop by blast
  have res: "switch_to_next_domain_context e c d s =
      (if initialized (ctxs s d) \<or> c = d then Some (Ret 0, ?s1)
       else if hartid e = boot_hartid (domains ?g ?B)
       then Some (Switch_mode (boot_hartid (domains ?g ?B)) (dom_next_arg1 (domains ?g ?B)) (dom_next_addr (domains ?g ?B))
          (dom_next_mode (domains ?g ?B)), ?s1)
       else Some (if rc = 0 then Hang else Ret 0, ?s1\<lparr>hsm := (hsm ?s1)\<lparr>hsm_data := hd\<rparr>\<rparr>))"
    unfolding switch_to_next_domain_context_def Let_def upd_dg_move
    using m(1,2) dom rc by (simp add: upd_dg_def upd_ctx_def switched_def saved_def)
  have same: "?s1 = ?s1\<lparr>hsm := (hsm ?s1)\<lparr>hsm_data := hsm_data (hsm s)\<rparr>\<rparr>" by (simp add: switched_def)
  have enf: "enforced e (domains (dg s) ?B) m" using m(5) by (simp only: enforced_move)
  consider "initialized (ctxs s d) \<or> c = d" | "\<not> (initialized (ctxs s d) \<or> c = d)" "hartid e = boot_hartid (domains ?g ?B)"
    | "\<not> (initialized (ctxs s d) \<or> c = d)" "hartid e \<noteq> boot_hartid (domains ?g ?B)" by blast
  then show ?thesis
  proof cases
    case 1
    have "switch_to_next_domain_context e c d s = Some (Ret 0, ?s1)" unfolding res if_P [OF 1] by (rule refl)
    then show ?thesis using that [of "Ret 0" "hsm_data (hsm s)" m] same m(3,4) enf by metis
  next
    case 2
    have "switch_to_next_domain_context e c d s = Some (Switch_mode (boot_hartid (domains ?g ?B)) (dom_next_arg1 (domains ?g ?B))
        (dom_next_addr (domains ?g ?B)) (dom_next_mode (domains ?g ?B)), ?s1)" unfolding res if_not_P [OF 2(1)] if_P [OF 2(2)] by (rule refl)
    then show ?thesis using that [of _ "hsm_data (hsm s)" m] same m(3,4) enf 2(1) by metis
  next
    case 3
    have "switch_to_next_domain_context e c d s = Some (if rc = 0 then Hang else Ret 0, ?s1\<lparr>hsm := (hsm ?s1)\<lparr>hsm_data := hd\<rparr>\<rparr>)"
      unfolding res if_not_P [OF 3(1)] if_not_P [OF 3(2)] by (rule refl)
    then show ?thesis using that [of _ hd m] m(3,4) enf 3(1) by blast
  qed
qed

subsection \<open>The invariant\<close>

abbreviation ctx_of :: "hart_env \<Rightarrow> dctx_state \<Rightarrow> nat \<Rightarrow> nat option" where
  "ctx_of e s d \<equiv> hart_context_get s (Some d) (hartindex e)"

definition tables_ok :: "hart_env \<Rightarrow> dctx_state \<Rightarrow> bool" where
  "tables_ok e s \<longleftrightarrow> data_inv (dd s) \<and> dcpriv \<in> set (data_list (dd s)) \<and> doms (dd s) = domain_list (dg s) \<and>
    ownership_inv (dg s) \<and> domain_hart_ptr_offset (dg s) \<noteq> 0 \<and>
    sbi_hartindex_to_scratch (scratch_tab (dg s)) (of_nat (hartindex e)) \<noteq> 0 \<and> hartindex e < 128 \<and>
    (\<exists>d \<in> set (domain_list (dg s)). hartindex e \<in> assigned (dg s) d) \<and>
    root_dom \<in> set (domain_list (dg s)) \<and> hartindex e \<in> possible (dg s) root_dom"

text \<open>The hart has contexts in no domain or in all domains possible for it, each bound to its domain; a caller is one of them.\<close>

definition ctxs_ok :: "hart_env \<Rightarrow> dctx_state \<Rightarrow> bool" where
  "ctxs_ok e s \<longleftrightarrow>
    ((\<forall>d. ctx_of e s d = None) \<or> (\<forall>d \<in> set (domain_list (dg s)). hartindex e \<in> possible (dg s) d \<longrightarrow> ctx_of e s d \<noteq> None)) \<and>
    (\<forall>d p. ctx_of e s d = Some p \<longrightarrow>
      d \<in> set (domain_list (dg s)) \<and> hartindex e \<in> possible (dg s) d \<and> p < nctx s \<and> ctx_dom (ctxs s p) = d \<and>
      (\<forall>q. prev_ctx (ctxs s p) = Some q \<longrightarrow> (\<exists>d'. ctx_of e s d' = Some q)))"

definition this_dom :: "hart_env \<Rightarrow> dctx_state \<Rightarrow> nat" where
  "this_dom e s = the (hart_domain_ptr (dg s) (hartindex e))"

definition ctx_inv :: "hart_env \<Rightarrow> dctx_state \<Rightarrow> bool" where
  "ctx_inv e s \<longleftrightarrow> tables_ok e s \<and> ctxs_ok e s \<and> pmp_ready e (pmp s) \<and>
    (\<forall>d \<in> set (domain_list (dg s)). dom_fits e (abits (pmp s)) (domains (dg s) d)) \<and>
    enforced e (domains (dg s) (this_dom e s)) (pmp s)"

lemma this_dom_ok:
  assumes "tables_ok e s"
  shows "hart_domain_ptr (dg s) (hartindex e) = Some (this_dom e s)" "this_dom e s \<in> set (domain_list (dg s))"
    "hartindex e \<in> assigned (dg s) (this_dom e s)" "hartindex e \<in> possible (dg s) (this_dom e s)"
    "sbi_hartindex_to_domain (dg s) (hartindex e) = Some (this_dom e s)"
    "hart_context_thishart_get e s = ctx_of e s (this_dom e s)"
proof -
  obtain d where d: "d \<in> set (domain_list (dg s))" "hartindex e \<in> assigned (dg s) d" using assms by (auto simp: tables_ok_def)
  then have "hart_domain_ptr (dg s) (hartindex e) = Some d" "hartindex e \<in> possible (dg s) d"
    using assms by (auto simp: tables_ok_def ownership_inv_def)
  moreover then have "this_dom e s = d" by (simp add: this_dom_def)
  ultimately show *: "hart_domain_ptr (dg s) (hartindex e) = Some (this_dom e s)" "this_dom e s \<in> set (domain_list (dg s))"
    "hartindex e \<in> assigned (dg s) (this_dom e s)" "hartindex e \<in> possible (dg s) (this_dom e s)"
    using d by simp_all
  show "sbi_hartindex_to_domain (dg s) (hartindex e) = Some (this_dom e s)"
    using assms *(1) by (simp add: sbi_hartindex_to_domain_def tables_ok_def)
  then show "hart_context_thishart_get e s = ctx_of e s (this_dom e s)" by (simp add: hart_context_thishart_get_def)
qed

text \<open>A switch between contexts of the hart keeps the invariant.\<close>

lemma ctx_of_cong: "dd s' = dd s \<Longrightarrow> tabs s' = tabs s \<Longrightarrow> hart_context_get s' = hart_context_get s"
  by (intro ext) (simp add: hart_context_get_def split: option.split)

lemma switch_inv:
  assumes inv: "ctx_inv e s" and c: "ctx_of e s (this_dom e s) = Some c" and d: "ctx_of e s B = Some d"
  shows "\<exists>r s'. switch_to_next_domain_context e c d s = Some (r, s') \<and> ctx_inv e s' \<and> this_dom e s' = B"
proof -
  let ?i = "hartindex e" and ?A = "this_dom e s"
  have t: "tables_ok e s" and k: "ctxs_ok e s" and ready: "pmp_ready e (pmp s)"
    and fits: "\<And>d. d \<in> set (domain_list (dg s)) \<Longrightarrow> dom_fits e (abits (pmp s)) (domains (dg s) d)"
    using inv by (simp_all add: ctx_inv_def)
  have A: "ctx_dom (ctxs s c) = ?A" using k c by (simp add: ctxs_ok_def)
  have B: "ctx_dom (ctxs s d) = B" "B \<in> set (domain_list (dg s))" "?i \<in> possible (dg s) B" using k d by (auto simp: ctxs_ok_def)
  have i: "?i < 128" "sbi_hartindex_to_scratch (scratch_tab (dg s)) (of_nat ?i) \<noteq> 0" "domain_hart_ptr_offset (dg s) \<noteq> 0"
    and own: "ownership_inv (dg s)" using t by (simp_all add: tables_ok_def)
  obtain m r hd where res: "switch_to_next_domain_context e c d s =
      Some (r, (switched e c d m s)\<lparr>hsm := (hsm (switched e c d m s))\<lparr>hsm_data := hd\<rparr>\<rparr>)"
      and m: "pmp_ready e m" "abits m = abits (pmp s)" "enforced e (domains (dg s) B) m"
    using switch_result [OF ready, of d c thesis] fits [OF B(2)] i(2,3) unfolding B(1) by blast
  let ?s' = "(switched e c d m s)\<lparr>hsm := (hsm (switched e c d m s))\<lparr>hsm_data := hd\<rparr>\<rparr>"
  have g: "dg ?s' = move_hart ?i ?A B (dg s)" using A B(1) by (simp add: switched_def)
  have f: "dd ?s' = dd s" "tabs ?s' = tabs s" "nctx ?s' = nctx s" "pmp ?s' = m" by (simp_all add: switched_def)
  note mv = ownership_move [OF own i(1,2) this_dom_ok(1) [OF t] B(3)]
  have as: "?i \<in> assigned (move_hart ?i ?A B (dg s)) B" using own i(1) move_hart_assigned by (simp add: ownership_inv_def)
  have tb: "this_dom e ?s' = B" using mv(2) g by (simp add: this_dom_def [of e ?s'])
  have "tables_ok e ?s'"
    using t mv(1) as B(2) unfolding tables_ok_def f g by auto
  moreover have "ctxs_ok e ?s'"
  proof -
    have x: "ctx_dom (ctxs ?s' p) = ctx_dom (ctxs s p)" "prev_ctx (ctxs ?s' p) = prev_ctx (ctxs s p)" for p
      by (simp_all add: switched_def)
    show ?thesis using k unfolding ctxs_ok_def ctx_of_cong [OF f(1,2)] f g x move_hart_fields .
  qed
  moreover have "\<forall>d \<in> set (domain_list (dg ?s')). dom_fits e (abits (pmp ?s')) (domains (dg ?s') d)"
    unfolding f g using fits m(2) by simp
  moreover have "enforced e (domains (dg ?s') (this_dom e ?s')) (pmp ?s')" unfolding tb f g enforced_move by (rule m(3))
  ultimately have "ctx_inv e ?s'" using m(1) f(4) by (simp add: ctx_inv_def)
  then show ?thesis using res tb by blast
qed

text \<open>The switch to another context that has run before returns.\<close>

lemma switch_returns:
  assumes inv: "ctx_inv e s" and c: "ctx_of e s (this_dom e s) = Some c" and d: "ctx_of e s B = Some d"
    and run: "initialized (ctxs s d)" "c \<noteq> d"
  shows "\<exists>s'. switch_to_next_domain_context e c d s = Some (Ret 0, s') \<and> ctx_inv e s' \<and> this_dom e s' = B \<and>
    csrs s' = csrs_load e (csrs s) (ctxs s d) \<and> tctx s' = trap_ctx (ctxs s d) \<and>
    dg s' = move_hart (hartindex e) (this_dom e s) B (dg s) \<and> ctxs s' = (ctxs s)(c := saved e s (ctxs s c)) \<and>
    hart_context_get s' = hart_context_get s"
proof -
  have k: "ctx_dom (ctxs s c) = this_dom e s" "ctx_dom (ctxs s d) = B" "B \<in> set (domain_list (dg s))"
    using inv c d by (auto simp: ctx_inv_def ctxs_ok_def)
  obtain m hd where m: "switch_to_next_domain_context e c d s =
      Some (Ret 0, (switched e c d m s)\<lparr>hsm := (hsm (switched e c d m s))\<lparr>hsm_data := hd\<rparr>\<rparr>)"
    using switch_result [of e s d c thesis] inv k run by (auto simp: ctx_inv_def tables_ok_def)
  obtain r s' where s': "switch_to_next_domain_context e c d s = Some (r, s')" "ctx_inv e s'" "this_dom e s' = B"
    using switch_inv [OF inv c d] by blast
  then have e: "s' = (switched e c d m s)\<lparr>hsm := (hsm (switched e c d m s))\<lparr>hsm_data := hd\<rparr>\<rparr>" "r = Ret 0" using m by simp_all
  have "hart_context_get s' = hart_context_get s" unfolding e(1) by (rule ctx_of_cong) (simp_all add: switched_def)
  then show ?thesis
    using s' k run(2) e by (simp add: switched_def)
qed

lemma csrs_load_prev: "csrs_load e k (x\<lparr>prev_ctx := p\<rparr>) = csrs_load e k x"
  by (simp add: csrs_load_def Let_def)

subsection \<open>Entering and leaving\<close>

lemma ctx_inv_run: "ctx_inv e s \<Longrightarrow> ctx_inv e (s\<lparr>csrs := k, tctx := t\<rparr>)"
  by (simp add: ctx_inv_def tables_ok_def ctxs_ok_def this_dom_def ctx_of_cong [of "s\<lparr>csrs := k, tctx := t\<rparr>" s])

lemma set_prev_inv:
  assumes "ctx_inv e s" and "ctx_of e s A = Some c"
  shows "ctx_inv e (upd_ctx d (\<lambda>x. x\<lparr>prev_ctx := Some c\<rparr>) s)"
proof -
  let ?s = "upd_ctx d (\<lambda>x. x\<lparr>prev_ctx := Some c\<rparr>) s"
  have f: "hsm ?s = hsm s" "dd ?s = dd s" "tabs ?s = tabs s" "nctx ?s = nctx s" "pmp ?s = pmp s" "this_dom e ?s = this_dom e s"
    by (simp_all add: upd_ctx_def this_dom_def)
  have x: "ctx_dom (ctxs ?s p) = ctx_dom (ctxs s p)" "prev_ctx (ctxs ?s p) = (if p = d then Some c else prev_ctx (ctxs s p))" for p
    by (simp_all add: upd_ctx_def)
  show ?thesis
    using assms unfolding ctx_inv_def tables_ok_def ctxs_ok_def ctx_of_cong [OF f(2,3)] f x by auto
qed

lemma ctx_all:
  assumes "ctx_inv e s" and "ctx_of e s d = Some p" and "d' \<in> set (domain_list (dg s))" "hartindex e \<in> possible (dg s) d'"
  shows "\<exists>q. ctx_of e s d' = Some q"
  using assms by (auto simp: ctx_inv_def ctxs_ok_def)

lemma enter_inv:
  assumes "ctx_inv e s"
  shows "\<exists>r s'. sbi_domain_context_enter e dp s = Some (r, s') \<and> ctx_inv e s'"
proof (cases "hart_context_get s dp (hartindex e)")
  case (Some d)
  then obtain B where B: "dp = Some B" "ctx_of e s B = Some d"
    by (cases dp) (auto simp: hart_context_get_def sbi_domain_data_ptr_def)
  have t: "tables_ok e s" using assms by (simp add: ctx_inv_def)
  obtain c where c: "ctx_of e s (this_dom e s) = Some c" using ctx_all [OF assms B(2) this_dom_ok(2,4) [OF t]] by blast
  let ?s = "upd_ctx d (\<lambda>x. x\<lparr>prev_ctx := Some c\<rparr>) s"
  have "this_dom e ?s = this_dom e s" "hart_context_get ?s = hart_context_get s"
    by (simp add: this_dom_def upd_ctx_def, intro ctx_of_cong, simp_all add: upd_ctx_def)
  then have "\<exists>r s'. switch_to_next_domain_context e c d ?s = Some (r, s') \<and> ctx_inv e s' \<and> this_dom e s' = B"
    using switch_inv [OF set_prev_inv [OF assms c, of d], of c B d] c B(2) by simp
  then show ?thesis
    using Some c by (auto simp: sbi_domain_context_enter_def this_dom_ok(6) [OF t])
qed (use assms in \<open>simp add: sbi_domain_context_enter_def\<close>)

lemma next_uninit_ctx: "next_uninit i ds s = Some t \<Longrightarrow> \<exists>d. hart_context_get s (Some d) i = Some t"
  by (induction ds) (auto split: if_splits option.splits)

lemma exit_switch_inv:
  assumes "ctx_inv e s" and c: "ctx_of e s (this_dom e s) = Some c"
  shows "\<exists>r s'. exit_switch e c s = Some (r, s') \<and> ctx_inv e s'"
proof -
  have "root_dom \<in> set (domain_list (dg s))" "hartindex e \<in> possible (dg s) root_dom" using assms(1) by (simp_all add: ctx_inv_def tables_ok_def)
  then obtain r where r: "ctx_of e s root_dom = Some r" using ctx_all [OF assms] by blast
  let ?d = "case prev_ctx (ctxs s c) of Some p \<Rightarrow> Some p
    | None \<Rightarrow> (case next_uninit (hartindex e) (domain_list (dg s)) s of Some t \<Rightarrow> Some t | None \<Rightarrow> ctx_of e s root_dom)"
  have "\<exists>B d. ?d = Some d \<and> ctx_of e s B = Some d"
    using assms r next_uninit_ctx [of "hartindex e" _ s]
    by (cases "prev_ctx (ctxs s c)"; cases "next_uninit (hartindex e) (domain_list (dg s)) s") (auto simp: ctx_inv_def ctxs_ok_def)
  then obtain B d where d: "?d = Some d" "ctx_of e s B = Some d" by blast
  then show ?thesis using switch_inv [OF assms d(2)] unfolding exit_switch_def d(1) by auto
qed

lemma set_ctx_get:
  assumes "tables_ok e s" and "d \<in> set (domain_list (dg s))"
  shows "ctx_of e (hart_context_set (Some d) (hartindex e) p s) d' = (if d' = d then Some p else ctx_of e s d')"
proof -
  have t: "data_inv (dd s)" "dcpriv \<in> set (data_list (dd s))" "d \<in> set (doms (dd s))" "hartindex e < 128"
    using assms by (simp_all add: tables_ok_def)
  obtain b where b: "sbi_domain_data_ptr (dd s) (Some d) (Some dcpriv) = Some b" using data_ptr_some [OF t(1,3,2)] by blast
  have "sbi_domain_data_ptr (dd s) (Some d') (Some dcpriv) \<noteq> Some b" if "d' \<noteq> d"
    using data_ptr_inj [OF _ _ t(2,2) b] t(1) that unfolding data_inv_def by blast
  then show ?thesis using b t(4) by (auto simp: hart_context_get_def hart_context_set_def split: option.split)
qed

text \<open>The allocation loop gives the hart a fresh context in every domain of the list that is possible for it.\<close>

definition same_but_ctxs :: "dctx_state \<Rightarrow> dctx_state \<Rightarrow> bool" where
  "same_but_ctxs s s' \<longleftrightarrow> hsm s' = hsm s \<and> dd s' = dd s \<and> csrs s' = csrs s \<and> tctx s' = tctx s \<and> pmp s' = pmp s \<and> nctx s \<le> nctx s'"

definition fresh_ctx :: "dctx_state \<Rightarrow> nat \<Rightarrow> nat \<Rightarrow> dctx_state \<Rightarrow> bool" where
  "fresh_ctx s d p s' \<longleftrightarrow> nctx s \<le> p \<and> p < nctx s' \<and> ctx_dom (ctxs s' p) = d \<and> prev_ctx (ctxs s' p) = None"

lemma same_but_tables: "same_but_ctxs s s' \<Longrightarrow> tables_ok e s' = tables_ok e s"
  by (simp add: same_but_ctxs_def tables_ok_def)

lemma alloc_loop_ok:
  assumes "tables_ok e s" and "set ds \<subseteq> set (domain_list (dg s))" and "distinct ds"
    and "alloc_loop (\<lambda>_. False) (hartindex e) ds s = (ok, s')"
  shows "ok \<and> same_but_ctxs s s' \<and> (\<forall>p < nctx s. ctxs s' p = ctxs s p) \<and>
    (\<forall>d. if d \<in> set ds \<and> hartindex e \<in> possible (dg s) d then \<exists>p. ctx_of e s' d = Some p \<and> fresh_ctx s d p s' else ctx_of e s' d = ctx_of e s d)"
  using assms
proof (induction ds arbitrary: s)
  case (Cons d ds)
  let ?i = "hartindex e"
  have pos: "(case possible_harts (domains (dg s) d) of None \<Rightarrow> False | Some hm \<Rightarrow> sbi_hartmask_test_hartindex ?i hm) \<longleftrightarrow> ?i \<in> possible (dg s) d"
    by (simp add: possible_def hartset_test split: option.split)
  show ?case
  proof (cases "?i \<in> possible (dg s) d")
    case False
    then show ?thesis using Cons.IH [OF Cons.prems(1)] Cons.prems pos by auto
  next
    case True
    let ?a = "s\<lparr>nctx := nctx s + 1, ctxs := (ctxs s)(nctx s := zero_ctx)\<rparr>"
    let ?u = "upd_ctx (nctx s) (\<lambda>x. x\<lparr>ctx_dom := d\<rparr>) ?a" and ?p = "nctx s"
    define z where "z = hart_context_set (Some d) ?i ?p ?u"
    have f: "hsm z = hsm s" "dd z = dd s" "csrs z = csrs s" "tctx z = tctx s" "pmp z = pmp s" "nctx z = nctx s + 1"
      "ctxs z = (ctxs s)(nctx s := zero_ctx\<lparr>ctx_dom := d\<rparr>)"
      by (simp_all add: z_def hart_context_set_def upd_ctx_def split: option.split)
    have sb: "same_but_ctxs s z" using f by (simp add: same_but_ctxs_def)
    then have t: "tables_ok e z" using same_but_tables Cons.prems(1) by simp
    have tu: "tables_ok e ?u" using Cons.prems(1) by (simp add: tables_ok_def upd_ctx_def)
    have cu: "ctx_of e ?u d' = ctx_of e s d'" for d' by (simp add: hart_context_get_def upd_ctx_def split: option.split)
    have du: "d \<in> set (domain_list (dg ?u))" using Cons.prems(2) by (simp add: upd_ctx_def)
    have get: "ctx_of e z d' = (if d' = d then Some ?p else ctx_of e s d')" for d'
      using set_ctx_get [OF tu du, of ?p d'] cu [of d'] unfolding z_def by (simp only:)
    have res: "alloc_loop (\<lambda>_. False) ?i ds z = (ok, s')" using Cons.prems(4) True pos by (simp add: zalloc_ctx_def z_def)
    have IH: "ok \<and> same_but_ctxs z s' \<and> (\<forall>p < nctx z. ctxs s' p = ctxs z p) \<and>
      (\<forall>d. if d \<in> set ds \<and> ?i \<in> possible (dg z) d then \<exists>p. ctx_of e s' d = Some p \<and> fresh_ctx z d p s' else ctx_of e s' d = ctx_of e z d)"
      using Cons.IH [OF t _ _ res] Cons.prems(2,3) f(1) by auto
    have "d \<notin> set ds" using Cons.prems(3) by simp
    then have "ctx_of e s' d = Some ?p" using IH get [of d] by (auto split: if_splits)
    moreover have "fresh_ctx s d ?p s'" using IH f by (auto simp: fresh_ctx_def same_but_ctxs_def zero_ctx_def)
    moreover have "if d' \<in> set ds \<and> ?i \<in> possible (dg s) d' then \<exists>p. ctx_of e s' d' = Some p \<and> fresh_ctx s d' p s' else ctx_of e s' d' = ctx_of e s d'"
      if "d' \<noteq> d" for d'
    proof -
      have "fresh_ctx z d' p s' \<Longrightarrow> fresh_ctx s d' p s'" for p using f by (simp add: fresh_ctx_def)
      then show ?thesis using IH [THEN conjunct2, THEN conjunct2, THEN conjunct2, rule_format, of d'] get [of d'] that f(1)
        by (auto split: if_splits)
    qed
    ultimately have "if d' \<in> set (d # ds) \<and> ?i \<in> possible (dg s) d' then \<exists>p. ctx_of e s' d' = Some p \<and> fresh_ctx s d' p s'
        else ctx_of e s' d' = ctx_of e s d'" for d'
      using True by (cases "d' = d") simp_all
    moreover have "same_but_ctxs s s'" using IH sb by (simp add: same_but_ctxs_def)
    moreover have "\<forall>p < nctx s. ctxs s' p = ctxs s p" using IH f by simp
    ultimately show ?thesis using IH by blast
  qed
qed (simp add: same_but_ctxs_def)

lemma exit_inv:
  assumes "ctx_inv e s"
  shows "\<exists>r s'. sbi_domain_context_exit (\<lambda>_. False) e s = Some (r, s') \<and> ctx_inv e s'"
proof (cases "ctx_of e s (this_dom e s)")
  case (Some c)
  have t: "tables_ok e s" using assms by (simp add: ctx_inv_def)
  show ?thesis using exit_switch_inv [OF assms Some] Some by (simp add: sbi_domain_context_exit_def this_dom_ok(6) [OF t])
next
  case None
  have t: "tables_ok e s" and k: "ctxs_ok e s" using assms by (simp_all add: ctx_inv_def)
  have none: "ctx_of e s d = None" for d
    using ctx_all [OF assms _ this_dom_ok(2,4) [OF t], of d] None by fastforce
  obtain ok s1 where a: "alloc_loop (\<lambda>_. False) (hartindex e) (domain_list (dg s)) s = (ok, s1)" by fastforce
  have "distinct (domain_list (dg s))" using t by (simp add: tables_ok_def ownership_inv_def)
  note al = alloc_loop_ok [OF t subset_refl this a]
  have f: "hsm s1 = hsm s" "dd s1 = dd s" "pmp s1 = pmp s" using al by (simp_all add: same_but_ctxs_def)
  have t1: "tables_ok e s1" using al t same_but_tables by blast
  have get: "if d \<in> set (domain_list (dg s)) \<and> hartindex e \<in> possible (dg s) d then \<exists>p. ctx_of e s1 d = Some p \<and> fresh_ctx s d p s1
      else ctx_of e s1 d = None" for d
    using al none by presburger
  have "d \<in> set (domain_list (dg s)) \<and> hartindex e \<in> possible (dg s) d \<and> p < nctx s1 \<and> ctx_dom (ctxs s1 p) = d \<and>
      (\<forall>q. prev_ctx (ctxs s1 p) = Some q \<longrightarrow> (\<exists>d'. ctx_of e s1 d' = Some q))" if "ctx_of e s1 d = Some p" for d p
    using get [of d] that by (auto simp: fresh_ctx_def split: if_splits)
  moreover have "ctx_of e s1 d \<noteq> None" if "d \<in> set (domain_list (dg s))" "hartindex e \<in> possible (dg s) d" for d
    using get [of d] that by auto
  ultimately have "ctxs_ok e s1" unfolding ctxs_ok_def f(1) by blast
  moreover have "this_dom e s1 = this_dom e s" using f(1) by (simp add: this_dom_def)
  ultimately have inv: "ctx_inv e s1" using assms t1 by (simp add: ctx_inv_def f)
  obtain c where c: "ctx_of e s1 (this_dom e s1) = Some c"
    using get [of "this_dom e s"] this_dom_ok(2,4) [OF t] \<open>this_dom e s1 = this_dom e s\<close> by auto
  show ?thesis
    using exit_switch_inv [OF inv c] c None a al by (simp add: sbi_domain_context_exit_def this_dom_ok(6) [OF t] this_dom_ok(6) [OF t1])
qed

text \<open>An allocation loop that completes did not depend on which allocations would fail.\<close>

lemma alloc_loop_complete: "alloc_loop fails i ds s = (True, s') \<Longrightarrow> alloc_loop (\<lambda>_. False) i ds s = (True, s')"
proof (induction ds arbitrary: s)
  case (Cons d ds)
  then show ?case by (cases "fails (nctx s)") (auto simp: zalloc_ctx_def split: if_splits)
qed simp

lemma exit_complete:
  assumes "sbi_domain_context_exit fails e s = Some (r, s')" and "r \<noteq> Ret SBI_ENOMEM"
  shows "sbi_domain_context_exit (\<lambda>_. False) e s = Some (r, s')"
proof (cases "hart_context_thishart_get e s")
  case None
  obtain ok s1 where a: "alloc_loop fails (hartindex e) (domain_list (dg s)) s = (ok, s1)" by fastforce
  have ok using assms None a by (auto simp: sbi_domain_context_exit_def split: if_splits)
  then show ?thesis using assms(1) None a alloc_loop_complete [of fails] by (simp add: sbi_domain_context_exit_def)
qed (use assms in \<open>simp add: sbi_domain_context_exit_def\<close>)

lemma exit_no_null:
  assumes "ctx_inv e s"
  shows "sbi_domain_context_exit fails e s \<noteq> None"
proof (cases "hart_context_thishart_get e s")
  case None
  obtain ok s1 where a: "alloc_loop fails (hartindex e) (domain_list (dg s)) s = (ok, s1)" by fastforce
  then show ?thesis
    using exit_inv [OF assms] None alloc_loop_complete [of fails "hartindex e" "domain_list (dg s)" s s1]
    by (cases ok) (auto simp: sbi_domain_context_exit_def)
qed (use exit_inv [OF assms] in \<open>auto simp: sbi_domain_context_exit_def\<close>)

subsection \<open>Properties\<close>

text \<open>
  The states a hart reaches by entering domains, leaving them, and running supervisor software, which changes its registers. Which
  allocations of a context find memory is left open, but the states go only as far as no \<open>sbi_domain_context_exit\<close> has reported
  \<open>SBI_ENOMEM\<close>: after such a report the hart has contexts in some of its domains only, and \<open>enter_after_enomem\<close> below shows that
  the next call may go through a \<open>NULL\<close> pointer.
\<close>

inductive dctx_reach :: "hart_env \<Rightarrow> dctx_state \<Rightarrow> dctx_state \<Rightarrow> bool" for e s0 where
  start: "dctx_reach e s0 s0"
| enter: "dctx_reach e s0 s \<Longrightarrow> sbi_domain_context_enter e dp s = Some (r, s') \<Longrightarrow> dctx_reach e s0 s'"
| leave: "dctx_reach e s0 s \<Longrightarrow> sbi_domain_context_exit fails e s = Some (r, s') \<Longrightarrow> r \<noteq> Ret SBI_ENOMEM \<Longrightarrow> dctx_reach e s0 s'"
| run: "dctx_reach e s0 s \<Longrightarrow> dctx_reach e s0 (s\<lparr>csrs := k, tctx := t\<rparr>)"

lemma dctx_reach_inv: "dctx_reach e s0 s \<Longrightarrow> ctx_inv e s0 \<Longrightarrow> ctx_inv e s"
proof (induction rule: dctx_reach.induct)
  case (enter s dp r s')
  then show ?case using enter_inv [of e s dp] by auto
next
  case (leave s fails r s')
  then show ?case using exit_inv [of e s] exit_complete by fastforce
qed (simp_all add: ctx_inv_run)

text \<open>C10: Switching keeps domains apart, as long as contexts can be allocated: from a state with the invariant (no Smepmp, regions that
  fit the PMP and lock no entry, and every domain with its data block), after any sequence of entering, leaving and running in which
  no \<open>sbi_domain_context_exit\<close> reports \<open>SBI_ENOMEM\<close>, the hart belongs to exactly one domain, the PMP grants its S- and U-mode exactly
  the accesses \<open>sbi_domain_check_addr\<close> allows this domain, and neither call goes through a \<open>NULL\<close> pointer; this holds also for a call
  of \<open>sbi_domain_context_exit\<close> that now finds no memory. The condition is needed: after a reported \<open>SBI_ENOMEM\<close> the next call may use
  a \<open>NULL\<close> pointer (\<open>enter_after_enomem\<close>).\<close>

theorem domain_switch_isolates:
  assumes "ctx_inv e s0" and "dctx_reach e s0 s"
  shows "\<exists>d \<in> set (domain_list (dg s)). hart_domain_ptr (dg s) (hartindex e) = Some d \<and>
    (\<forall>d' \<in> set (domain_list (dg s)). hartindex e \<in> assigned (dg s) d' \<longleftrightarrow> d' = d) \<and>
    (\<forall>mode fl a. mode \<noteq> PRV_M \<longrightarrow> unat a < 2 ^ (abits (pmp s) + 2) \<longrightarrow>
      pmp_check (pmp_count (features e)) (pmp s) mode (access_rwx fl) a =
        (sbi_domain_check_addr (Some (domains (dg s) d)) a mode fl \<or>
         sbi_domain_check_addr (Some (domains (dg s) d)) a mode (fl XOR SBI_DOMAIN_MMIO))) \<and>
    sbi_domain_context_enter e dp s \<noteq> None \<and> sbi_domain_context_exit fails e s \<noteq> None"
proof -
  have inv: "ctx_inv e s" using dctx_reach_inv [OF assms(2,1)] .
  then have t: "tables_ok e s" and enf: "enforced e (domains (dg s) (this_dom e s)) (pmp s)" by (simp_all add: ctx_inv_def)
  have "\<forall>d' \<in> set (domain_list (dg s)). hartindex e \<in> assigned (dg s) d' \<longleftrightarrow> d' = this_dom e s"
    using t this_dom_ok(1,3) [OF t] by (auto simp: tables_ok_def ownership_inv_def)
  then show ?thesis
    using this_dom_ok(1,2) [OF t] enf enter_inv [OF inv, of dp] exit_no_null [OF inv, of fails] unfolding enforced_def by blast
qed

text \<open>The CSRs that the switch exchanges.\<close>

definition csr_fields :: "hart_env \<Rightarrow> (s_csrs \<Rightarrow> ulong) list" where
  "csr_fields e = [sstatus, sie, stvec, sscratch, sepc, scause, stval, sip, satp] @
    (if SBI_HART_PRIV_VER_1_10 \<le> priv_version e then [scounteren] else []) @
    (if SBI_HART_PRIV_VER_1_12 \<le> priv_version e then [senvcfg] else [])"

lemma csr_wr_bits: "csr_wr w old new AND w = new AND w" "csr_wr w old new AND NOT w = old AND NOT w"
  by (rule bit_word_eqI; auto simp: csr_wr_def bit_and_iff bit_or_iff bit_not_iff)+

lemma csrs_restored:
  "f \<in> set (csr_fields e) \<Longrightarrow> f (csrs_load e k (saved e s x)) = csr_wr (f (writable e)) (f k) (f (csrs s))"
  by (auto simp: csr_fields_def csrs_load_def saved_def csrs_save_def Let_def split: if_splits)

lemma assigned_back:
  assumes "ownership_inv g" and "i < 128" and "i \<in> assigned g A" and "i \<notin> assigned g B" and "A \<noteq> B"
  shows "assigned (move_hart i B A (move_hart i A B g)) d = assigned g d"
proof -
  have w: "wf_domains g" "wf_domains (move_hart i A B g)" using assms(1) by (auto simp: ownership_inv_def move_hart_def wf_domains_def)
  show ?thesis
    using assms(3-5) by (auto simp: move_hart_assigned [OF w(1) assms(2)] move_hart_assigned [OF w(2) assms(2)])
qed

text \<open>C11: Entering a domain and leaving it gives the caller its context back: when a hart in domain \<open>A\<close> enters another domain \<open>B\<close> that has
  run before, it continues with the saved registers of \<open>B\<close>; when \<open>B\<close>, after any changes of the registers, leaves, the hart is
  in \<open>A\<close> again with the trap context of \<open>A\<close>, and with its CSRs in all bits that software can write, the assignment of harts to
  domains is as before, and the registers of \<open>B\<close> are saved for the next time.\<close>

theorem enter_exit_roundtrip:
  assumes inv: "ctx_inv e s" and B: "ctx_of e s B = Some d" "B \<noteq> this_dom e s" and run: "initialized (ctxs s d)"
  shows "\<exists>s1. sbi_domain_context_enter e (Some B) s = Some (Ret 0, s1) \<and> this_dom e s1 = B \<and>
    csrs s1 = csrs_load e (csrs s) (ctxs s d) \<and> tctx s1 = trap_ctx (ctxs s d) \<and>
    (\<forall>k t. \<exists>s2. sbi_domain_context_exit (\<lambda>_. False) e (s1\<lparr>csrs := k, tctx := t\<rparr>) = Some (Ret 0, s2) \<and>
      this_dom e s2 = this_dom e s \<and> tctx s2 = tctx s \<and> (\<forall>d. assigned (dg s2) d = assigned (dg s) d) \<and>
      (\<forall>f \<in> set (csr_fields e). f (csrs s2) AND f (writable e) = f (csrs s) AND f (writable e) \<and>
        f (csrs s2) AND NOT (f (writable e)) = f k AND NOT (f (writable e))) \<and>
      trap_ctx (ctxs s2 d) = t \<and> initialized (ctxs s2 d))"
proof -
  let ?A = "this_dom e s" and ?i = "hartindex e"
  have t: "tables_ok e s" and k: "ctxs_ok e s" using inv by (simp_all add: ctx_inv_def)
  obtain c where c: "ctx_of e s ?A = Some c" using ctx_all [OF inv B(1) this_dom_ok(2,4) [OF t]] by blast
  have dom: "ctx_dom (ctxs s c) = ?A" "ctx_dom (ctxs s d) = B" "B \<in> set (domain_list (dg s))" using k c B(1) by (auto simp: ctxs_ok_def)
  have nB: "?i \<notin> assigned (dg s) B" using t this_dom_ok(1) [OF t] B(2) dom(3) by (auto simp: tables_ok_def ownership_inv_def)
  have cd: "c \<noteq> d" using dom B(2) by auto
  define s0 where "s0 = upd_ctx d (\<lambda>x. x\<lparr>prev_ctx := Some c\<rparr>) s"
  have i0: "ctx_inv e s0" unfolding s0_def by (rule set_prev_inv [OF inv c])
  have f0: "hsm s0 = hsm s" "csrs s0 = csrs s" "tctx s0 = tctx s" "this_dom e s0 = ?A" "hart_context_get s0 = hart_context_get s"
    "ctxs s0 c = ctxs s c" "ctxs s0 d = (ctxs s d)\<lparr>prev_ctx := Some c\<rparr>"
    using cd ctx_of_cong [of s0 s] by (simp_all add: s0_def upd_ctx_def this_dom_def)
  obtain s1 where sw: "switch_to_next_domain_context e c d s0 = Some (Ret 0, s1)" "ctx_inv e s1" "this_dom e s1 = B"
    "csrs s1 = csrs_load e (csrs s) (ctxs s d)" "tctx s1 = trap_ctx (ctxs s d)" "dg s1 = move_hart ?i ?A B (dg s)"
    "ctxs s1 = (ctxs s0)(c := saved e s0 (ctxs s0 c))" "hart_context_get s1 = hart_context_get s"
    using switch_returns [OF i0, of c B d] c B(1) cd run f0 dom by (auto simp: csrs_load_prev)
  have enter: "sbi_domain_context_enter e (Some B) s = Some (Ret 0, s1)"
    using sw(1) B(1) c by (simp add: sbi_domain_context_enter_def this_dom_ok(6) [OF t] s0_def)
  have "\<exists>s2. sbi_domain_context_exit (\<lambda>_. False) e (s1\<lparr>csrs := k, tctx := tc\<rparr>) = Some (Ret 0, s2) \<and>
      this_dom e s2 = ?A \<and> tctx s2 = tctx s \<and> (\<forall>d. assigned (dg s2) d = assigned (dg s) d) \<and>
      (\<forall>f \<in> set (csr_fields e). f (csrs s2) AND f (writable e) = f (csrs s) AND f (writable e) \<and>
        f (csrs s2) AND NOT (f (writable e)) = f k AND NOT (f (writable e))) \<and>
      trap_ctx (ctxs s2 d) = tc \<and> initialized (ctxs s2 d)" for k tc
  proof -
    define r where "r = s1\<lparr>csrs := k, tctx := tc\<rparr>"
    have ir: "ctx_inv e r" unfolding r_def by (rule ctx_inv_run [OF sw(2)])
    have fr: "csrs r = k" "tctx r = tc" "this_dom e r = B" "ctxs r = ctxs s1" "dg r = move_hart ?i ?A B (dg s)"
      "hart_context_get r = hart_context_get s"
      using sw(3,6) ctx_of_cong [of r s1] sw(8) by (simp_all add: r_def this_dom_def)
    have x: "ctxs r d = (ctxs s d)\<lparr>prev_ctx := Some c\<rparr>" "ctxs r c = saved e s0 (ctxs s c)" using cd f0 sw(7) fr(4) by simp_all
    obtain s2 where s2: "switch_to_next_domain_context e d c r = Some (Ret 0, s2)" "this_dom e s2 = ?A" "csrs s2 = csrs_load e k (ctxs r c)"
      "tctx s2 = trap_ctx (ctxs r c)" "dg s2 = move_hart ?i B ?A (dg r)" "ctxs s2 = (ctxs r)(d := saved e r (ctxs r d))"
      using switch_returns [OF ir, of d ?A c] c B(1) cd fr x dom(1,2) by (auto simp: fr(6))
    have "sbi_domain_context_exit (\<lambda>_. False) e r = Some (Ret 0, s2)"
      using s2(1) B(1) x(1) fr(3,6) ir
      by (simp add: sbi_domain_context_exit_def this_dom_ok(6) ctx_inv_def exit_switch_def)
    moreover have "assigned (dg s2) d' = assigned (dg s) d'" for d'
      unfolding s2(5) fr(5) using t this_dom_ok(3) [OF t] nB B(2) by (intro assigned_back) (simp_all add: tables_ok_def)
    moreover have "trap_ctx (ctxs s2 d) = tc" "initialized (ctxs s2 d)" using s2(6) fr(2) by simp_all
    ultimately show ?thesis
      using s2(2-4) x(2) f0(2,3) unfolding r_def [symmetric] by (simp add: csrs_restored csr_wr_bits)
  qed
  then show ?thesis using enter sw(3-5) by blast
qed

subsection \<open>An instance\<close>

text \<open>Hart 0 in the root domain, with contexts in the root domain and in domain 1.\<close>

definition ex_env :: hart_env where
  "ex_env = \<lparr>hartindex = 0, hartid = 0, features = ex_features False, priv_version = 3,
    writable = \<lparr>sstatus = -1, sie = -1, stvec = -1, sscratch = -1, sepc = -1, scause = -1, stval = -1, sip = 2, satp = -1,
      scounteren = -1, senvcfg = -1\<rparr>\<rparr>"

definition ex_switch_domains :: domain_globals where
  "ex_switch_domains = ex_domains\<lparr>domains := \<lambda>d. (ex_domain sme_regions)\<lparr>assigned_harts := if d = 0 then hart0 else hartmask_zero\<rparr>,
    domain_list := [0, 1], hart_domain_ptr := (\<lambda>_. None)(0 := Some 0)\<rparr>"

definition ex_dd :: data_globals where
  "ex_dd = \<lparr>datas = (\<lambda>_. ex_data), data_list = [0], data_idx_bmap = [1], doms = [0, 1],
    slot = (\<lambda>d i. if d < 2 \<and> i = 0 then Some d else None), live = {0, 1}, allocs = 2, cleaned = []\<rparr>"

definition ex_hart_pmp :: pmp_hw where
  "ex_hart_pmp = snd (the (sbi_hart_pmp_configure (ex_features False) (ex_domain sme_regions) (the (pmp_disable_all [0..<16] ex_pmp))))"

definition ex_dctx :: dctx_state where
  "ex_dctx = \<lparr>hsm = (ex_hsm 0)\<lparr>hsm_doms := ex_switch_domains\<rparr>, dd = ex_dd, tabs = (\<lambda>b i. if b < 2 \<and> i = 0 then Some b else None),
    ctxs = (\<lambda>p. zero_ctx\<lparr>ctx_dom := p, initialized := True\<rparr>), nctx = 2,
    csrs = \<lparr>sstatus = 0, sie = 0x222, stvec = 0x80200000, sscratch = 0, sepc = 0, scause = 0, stval = 0, sip = 0, satp = 0,
      scounteren = 7, senvcfg = 0\<rparr>, tctx = zero_trap\<lparr>tc_mepc := 0x80200100\<rparr>, pmp = ex_hart_pmp\<rparr>"

lemma sme_fits: "dom_fits ex_env 54 (ex_domain sme_regions)"
  unfolding dom_fits_def sme_memregions
  by (auto simp: ex_env_def ex_features_def sme_regions_def dev_region_def region_fits_def is_region_valid_def BIT_def
      SBI_DOMAIN_MEMREGION_ENF_PERMISSIONS_def)

lemma ex_hart_pmp_ok: "pmp_ready ex_env ex_hart_pmp" "abits ex_hart_pmp = 54" "enforced ex_env (ex_domain sme_regions) ex_hart_pmp"
proof -
  have "pmp_ready ex_env ex_pmp"
    by (simp add: pmp_ready_def ex_env_def ex_features_def ex_pmp_def entry_cfg_def mml_def)
  moreover have "abits ex_pmp = 54" by (simp add: ex_pmp_def)
  ultimately obtain m1 m' where m: "pmp_disable_all [0..<pmp_count (features ex_env)] ex_pmp = Some m1"
      "sbi_hart_pmp_configure (features ex_env) (ex_domain sme_regions) m1 = Some (0, m')"
      "pmp_ready ex_env m'" "abits m' = 54" "enforced ex_env (ex_domain sme_regions) m'"
    using pmp_switch [of ex_env ex_pmp "ex_domain sme_regions" thesis] sme_fits by metis
  have "features ex_env = ex_features False" "pmp_count (features ex_env) = 16" by (simp_all add: ex_env_def ex_features_def)
  then have "ex_hart_pmp = m'" using m(1,2) unfolding ex_hart_pmp_def by simp
  then show "pmp_ready ex_env ex_hart_pmp" "abits ex_hart_pmp = 54" "enforced ex_env (ex_domain sme_regions) ex_hart_pmp" using m(3-5) by simp_all
qed

lemma ex_dd_inv: "data_inv ex_dd"
  by (auto simp: data_inv_def reg_ok_def slots_ok_def ex_dd_def ex_data_def bm_bit_def bit_1_iff less_2_cases_iff)

lemma ex_ctx_of: "ctx_of ex_env ex_dctx d = (if d < 2 then Some d else None)"
  by (simp add: hart_context_get_def ex_dctx_def ex_env_def sbi_domain_data_ptr_def ex_dd_def ex_data_def dcpriv_def)

lemma ex_ctx_inv: "ctx_inv ex_env ex_dctx" "this_dom ex_env ex_dctx = 0"
proof -
  have g: "dg ex_dctx = ex_switch_domains" "hartindex ex_env = 0" "dd ex_dctx = ex_dd" "pmp ex_dctx = ex_hart_pmp"
    by (simp_all add: ex_dctx_def ex_env_def)
  have l: "domain_list ex_switch_domains = [0, 1]" "hart_domain_ptr ex_switch_domains 0 = Some 0" "scratch_tab ex_switch_domains = ex_scratch"
    "domain_hart_ptr_offset ex_switch_domains = 120" by (simp_all add: ex_switch_domains_def ex_domains_def)
  have p: "possible ex_switch_domains d = {0}" for d
    by (simp add: possible_def ex_switch_domains_def ex_domain_def hart0_def [symmetric])
  have as: "assigned ex_switch_domains d = (if d = 0 then {0} else {})" for d by (simp add: ex_switch_domains_def)
  have own: "ownership_inv ex_switch_domains"
    unfolding ownership_inv_def wf_domains_def as p l by (simp add: ex_switch_domains_def hart0_def)
  show td: "this_dom ex_env ex_dctx = 0" by (simp add: this_dom_def g l)
  have "tables_ok ex_env ex_dctx"
    unfolding tables_ok_def g l as p using own ex_dd_inv
    by (simp add: ex_dd_def dcpriv_def root_dom_def sbi_hartindex_to_scratch_def ex_scratch_def)
  moreover have "ctxs_ok ex_env ex_dctx"
  proof -
    have "ctx_dom (ctxs ex_dctx q) = q" "prev_ctx (ctxs ex_dctx q) = None" "nctx ex_dctx = 2" for q by (simp_all add: ex_dctx_def zero_ctx_def)
    then show ?thesis unfolding ctxs_ok_def ex_ctx_of unfolding g l p by (simp add: less_2_cases_iff)
  qed
  moreover have f: "sbi_domain_for_each_memregion (domains ex_switch_domains d) = sbi_domain_for_each_memregion (ex_domain sme_regions)" for d
    by (simp add: ex_switch_domains_def sbi_domain_for_each_memregion_def ex_domain_def)
  moreover have "dom_fits ex_env 54 (domains ex_switch_domains d)" for d using sme_fits unfolding dom_fits_def f .
  moreover have "enforced ex_env (domains ex_switch_domains 0) ex_hart_pmp"
    using ex_hart_pmp_ok(3) by (simp add: enforced_def sbi_domain_check_addr_def f)
  ultimately show "ctx_inv ex_env ex_dctx" using ex_hart_pmp_ok(1,2) by (simp add: ctx_inv_def td g)
qed

theorem domain_switch_isolates_witness:
  "\<exists>d \<in> set (domain_list (dg ex_dctx)). hart_domain_ptr (dg ex_dctx) 0 = Some d \<and> sbi_domain_context_enter ex_env (Some 1) ex_dctx \<noteq> None"
proof -
  have "hartindex ex_env = 0" by (simp add: ex_env_def)
  then show ?thesis using domain_switch_isolates [OF ex_ctx_inv(1) dctx_reach.start, of "Some 1"] by (simp only:) blast
qed

theorem enter_exit_roundtrip_witness:
  "\<exists>s1 s2. sbi_domain_context_enter ex_env (Some 1) ex_dctx = Some (Ret 0, s1) \<and> this_dom ex_env s1 = 1 \<and>
    sbi_domain_context_exit (\<lambda>_. False) ex_env (s1\<lparr>csrs := (csrs s1)\<lparr>satp := 5\<rparr>, tctx := zero_trap\<rparr>) = Some (Ret 0, s2) \<and>
    tctx s2 = tctx ex_dctx"
proof -
  have "ctx_of ex_env ex_dctx 1 = Some 1" "(1 :: nat) \<noteq> this_dom ex_env ex_dctx" "initialized (ctxs ex_dctx 1)"
    by (simp_all add: ex_ctx_of ex_ctx_inv(2)) (simp add: ex_dctx_def)
  from enter_exit_roundtrip [OF ex_ctx_inv(1) this] show ?thesis by blast
qed

subsection \<open>Further observations\<close>

text \<open>
  When the second allocation of the first \<open>sbi_domain_context_exit\<close> of a hart fails, the call reports it and keeps the context it has
  made for the first domain. \<open>sbi_domain_context_enter\<close> for that domain finds this context, but none of the caller, and accesses it.
\<close>

lemma enter_after_enomem:
  assumes t: "tables_ok e s" and none: "ctx_of e s (this_dom e s) = None"
    and l: "domain_list (dg s) = d # d' # ds" and p: "hartindex e \<in> possible (dg s) d" "hartindex e \<in> possible (dg s) d'"
    and d: "this_dom e s \<noteq> d" and fails: "\<not> fails (nctx s)" "fails (nctx s + 1)"
  shows "\<exists>s'. sbi_domain_context_exit fails e s = Some (Ret SBI_ENOMEM, s') \<and> sbi_domain_context_enter e (Some d) s' = None"
proof -
  let ?i = "hartindex e"
  define u where "u = s\<lparr>nctx := nctx s + 1, ctxs := (ctxs s)(nctx s := zero_ctx\<lparr>ctx_dom := d\<rparr>)\<rparr>"
  define z where "z = hart_context_set (Some d) ?i (nctx s) u"
  define s' where "s' = z\<lparr>nctx := nctx s + 2\<rparr>"
  have pos: "(case possible_harts (domains (dg s) d) of None \<Rightarrow> False | Some hm \<Rightarrow> sbi_hartmask_test_hartindex ?i hm) \<longleftrightarrow> ?i \<in> possible (dg s) d"
    for d by (simp add: possible_def hartset_test split: option.split)
  have z: "hsm z = hsm s" "dd z = dd s" "nctx z = nctx s + 1"
    by (simp_all add: z_def u_def hart_context_set_def split: option.split)
  have "alloc_loop fails ?i (d' # ds) z = (False, s')"
    using fails(2) p(2) pos z by (simp add: zalloc_ctx_def s'_def)
  moreover have "alloc_loop fails ?i (d # d' # ds) s = alloc_loop fails ?i (d' # ds) z"
    using fails(1) p(1) pos by (simp add: zalloc_ctx_def upd_ctx_def z_def u_def)
  ultimately have a: "alloc_loop fails ?i (domain_list (dg s)) s = (False, s')" by (simp only: l)
  have tu: "tables_ok e u" "d \<in> set (domain_list (dg u))" using t l by (simp_all add: u_def tables_ok_def)
  have cu: "hart_context_get u = hart_context_get s" by (rule ctx_of_cong) (simp_all add: u_def)
  have cs: "hart_context_get s' = hart_context_get z" by (rule ctx_of_cong) (simp_all add: s'_def)
  have get: "ctx_of e s' d = Some (nctx s)" "ctx_of e s' (this_dom e s) = None"
    using set_ctx_get [OF tu] none d unfolding cs z_def cu by simp_all
  have ts: "tables_ok e s'" "this_dom e s' = this_dom e s" using t z by (simp_all add: s'_def tables_ok_def this_dom_def)
  have "sbi_domain_context_enter e (Some d) s' = None"
    using get by (simp add: sbi_domain_context_enter_def this_dom_ok(6) [OF ts(1)] ts(2))
  then show ?thesis using a none by (simp add: sbi_domain_context_exit_def this_dom_ok(6) [OF t])
qed

text \<open>Entering the own domain loads the CSRs that the last switch saved, while the trap context stays.\<close>

lemma enter_own_domain:
  assumes inv: "ctx_inv e s" and c: "ctx_of e s (this_dom e s) = Some c"
  shows "\<exists>s'. sbi_domain_context_enter e (Some (this_dom e s)) s = Some (Ret 0, s') \<and>
    csrs s' = csrs_load e (csrs s) (ctxs s c) \<and> tctx s' = tctx s"
proof -
  have t: "tables_ok e s" using inv by (simp add: ctx_inv_def)
  define s0 where "s0 = upd_ctx c (\<lambda>x. x\<lparr>prev_ctx := Some c\<rparr>) s"
  have i0: "ctx_inv e s0" unfolding s0_def by (rule set_prev_inv [OF inv c])
  have f: "ctxs s0 c = (ctxs s c)\<lparr>prev_ctx := Some c\<rparr>" "csrs s0 = csrs s" "tctx s0 = tctx s" "dg s0 = dg s" by (simp_all add: s0_def upd_ctx_def)
  have "ctx_dom (ctxs s0 c) \<in> set (domain_list (dg s0))" using inv c f by (auto simp: ctx_inv_def ctxs_ok_def)
  then have "pmp_ready e (pmp s0)" "dom_fits e (abits (pmp s0)) (domains (dg s0) (ctx_dom (ctxs s0 c)))"
    "sbi_hartindex_to_scratch (scratch_tab (dg s0)) (of_nat (hartindex e)) \<noteq> 0" "domain_hart_ptr_offset (dg s0) \<noteq> 0"
    using i0 by (simp_all add: ctx_inv_def tables_ok_def)
  then obtain m hd where "switch_to_next_domain_context e c c s0 =
      Some (Ret 0, (switched e c c m s0)\<lparr>hsm := (hsm (switched e c c m s0))\<lparr>hsm_data := hd\<rparr>\<rparr>)"
    using switch_result [of e s0 c c thesis] by blast
  then show ?thesis
    using c f by (simp add: sbi_domain_context_enter_def this_dom_ok(6) [OF t] s0_def [symmetric] switched_def csrs_load_prev)
qed

text \<open>With Smepmp, when all PMP entries are off M-mode may execute nothing, so the loop that disables them before the new domain
  is programmed cannot run to its end.\<close>

lemma smepmp_switch_no_exec:
  assumes "mml m" "rlb m" and "n \<le> 64"
  shows "\<exists>m'. pmp_disable_all [0..<n] m = Some m' \<and> \<not> pmp_check n m' PRV_M PMP_X a"
proof -
  have "\<forall>i \<in> set [0..<n]. i < 64 \<and> \<not> entry_locked m i" using assms by (auto simp: entry_locked_def)
  then obtain m' where m': "pmp_disable_all [0..<n] m = Some m'" "\<And>i. entry_cfg m' i = (if i < n then 0 else entry_cfg m i)"
      "csr m' 0x747 = csr m 0x747"
    using pmp_disable_all_ok [of "[0..<n]" m] by auto
  have "\<not> pmp_match m' i a" if "i < n" for i using m'(2) that by (simp add: pmp_match_def Let_def)
  then have "List.find (\<lambda>i. pmp_match m' i a) [0..<n] = None" by (simp add: find_None_iff)
  then show ?thesis using m'(1,3) assms(1) by (simp add: pmp_check_def mml_def)
qed

end
