(* ===== verification/Sbi_Ldst.thy ===== *)
theory Sbi_Ldst
  imports Sbi_Trap
begin

unbundle bit_operations_syntax

text \<open>
  Emulation of misaligned loads and stores, and of loads and stores that fault, for RV64 with double-precision floating point:
  \<open>lib/sbi/sbi_trap_ldst.c\<close> with the unprivileged accesses of \<open>lib/sbi/sbi_unpriv.c\<close> and the instruction fields of
  \<open>include/sbi/riscv_encoding.h\<close>, built without compiler support for the vector extension.

  Memory is what the interrupted mode sees: its bytes, and the trap that a byte load, a byte store or the fetch of a half-word at
  an address raises, if any. A trap that did not happen has cause 0, as the code reads it.
\<close>

subsection \<open>Instruction fields\<close>

definition SH_RD :: nat where [simp, sbi_defs]: "SH_RD = 7"
definition SH_RS1 :: nat where [simp, sbi_defs]: "SH_RS1 = 15"
definition SH_RS2 :: nat where [simp, sbi_defs]: "SH_RS2 = 20"
definition SH_RS2C :: nat where [simp, sbi_defs]: "SH_RS2C = 2"

definition INSN_16BIT_MASK :: ulong where [simp, sbi_defs]: "INSN_16BIT_MASK = 3"

definition INSN_LEN :: "ulong \<Rightarrow> ulong" where
  "INSN_LEN insn = (if insn AND INSN_16BIT_MASK \<noteq> INSN_16BIT_MASK then 2 else 4)"

definition RV_X :: "ulong \<Rightarrow> nat \<Rightarrow> nat \<Rightarrow> ulong" where
  "RV_X x s n = drop_bit s x AND (push_bit n 1 - 1)"

definition RVC_RS2S :: "ulong \<Rightarrow> ulong" where
  "RVC_RS2S insn = 8 + RV_X insn SH_RS2C 3"

text \<open>\<open>REG_PTR\<close>: the byte offset into the register file, which holds eight bytes per register; the index of the register.\<close>

definition REG_OFFSET :: "ulong \<Rightarrow> nat \<Rightarrow> ulong" where
  "REG_OFFSET insn pos = (if pos < 3 then push_bit (3 - pos) insn else drop_bit (pos - 3) insn) AND 0xf8"

definition reg_ix :: "ulong \<Rightarrow> nat \<Rightarrow> nat" where
  "reg_ix insn pos = unat (REG_OFFSET insn pos) div 8"

definition INSN_PSEUDO_VS_LOAD :: ulong where [simp, sbi_defs]: "INSN_PSEUDO_VS_LOAD = 0x3000"
definition INSN_PSEUDO_VS_STORE :: ulong where [simp, sbi_defs]: "INSN_PSEUDO_VS_STORE = 0x3020"

definition CAUSE_FETCH_ACCESS :: ulong where [simp, sbi_defs]: "CAUSE_FETCH_ACCESS = 1"
definition CAUSE_LOAD_ACCESS :: ulong where [simp, sbi_defs]: "CAUSE_LOAD_ACCESS = 5"
definition CAUSE_FETCH_PAGE_FAULT :: ulong where [simp, sbi_defs]: "CAUSE_FETCH_PAGE_FAULT = 0xc"
definition CAUSE_LOAD_PAGE_FAULT :: ulong where [simp, sbi_defs]: "CAUSE_LOAD_PAGE_FAULT = 0xd"
definition CAUSE_FETCH_GUEST_PAGE_FAULT :: ulong where [simp, sbi_defs]: "CAUSE_FETCH_GUEST_PAGE_FAULT = 0x14"
definition CAUSE_LOAD_GUEST_PAGE_FAULT :: ulong where [simp, sbi_defs]: "CAUSE_LOAD_GUEST_PAGE_FAULT = 0x15"

definition MSTATUS_FS :: ulong where "MSTATUS_FS = 0x6000"

definition IS_VECTOR_LOAD_STORE :: "ulong \<Rightarrow> bool" where
  "IS_VECTOR_LOAD_STORE insn \<longleftrightarrow> insn AND 0x7f = 0x07 \<or> insn AND 0x7f = 0x27"

subsection \<open>State and memory accesses\<close>

record ldst_state =
  tc :: sbi_trap_context
  fpr :: "nat \<Rightarrow> u64"
  bytes :: "ulong \<Rightarrow> u8"
  rcsrs :: trap_csrs

record vmem =
  ld_fault :: "ulong \<Rightarrow> sbi_trap_info option"
  st_fault :: "ulong \<Rightarrow> sbi_trap_info option"
  if_fault :: "ulong \<Rightarrow> sbi_trap_info option"

definition no_trap :: sbi_trap_info where
  "no_trap = \<lparr>cause = 0, tval = 0, tval2 = 0, tinst = 0, gva = False\<rparr>"

definition sbi_load_u8 :: "vmem \<Rightarrow> ulong \<Rightarrow> ldst_state \<Rightarrow> u8 \<times> sbi_trap_info" where
  "sbi_load_u8 v a s = (case ld_fault v a of None \<Rightarrow> (bytes s a, no_trap) | Some t \<Rightarrow> (0, t))"

definition sbi_store_u8 :: "vmem \<Rightarrow> ulong \<Rightarrow> u8 \<Rightarrow> ldst_state \<Rightarrow> sbi_trap_info \<times> ldst_state" where
  "sbi_store_u8 v a b s =
    (case st_fault v a of None \<Rightarrow> (no_trap, s\<lparr>bytes := (bytes s)(a := b)\<rparr>) | Some t \<Rightarrow> (t, s))"

definition load_u16 :: "(ulong \<Rightarrow> u8) \<Rightarrow> ulong \<Rightarrow> ulong" where
  "load_u16 b a = ucast (b a) OR push_bit 8 (ucast (b (a + 1)))"

definition get_insn_cause :: "sbi_trap_info \<Rightarrow> sbi_trap_info" where
  "get_insn_cause t =
    (if cause t = CAUSE_LOAD_ACCESS then t\<lparr>cause := CAUSE_FETCH_ACCESS, tinst := 0\<rparr>
     else if cause t = CAUSE_LOAD_PAGE_FAULT then t\<lparr>cause := CAUSE_FETCH_PAGE_FAULT, tinst := 0\<rparr>
     else if cause t = CAUSE_LOAD_GUEST_PAGE_FAULT then
       (let t = t\<lparr>cause := CAUSE_FETCH_GUEST_PAGE_FAULT\<rparr>
        in if tinst t \<noteq> INSN_PSEUDO_VS_LOAD \<and> tinst t \<noteq> INSN_PSEUDO_VS_STORE then t\<lparr>tinst := 0\<rparr> else t)
     else t)"

text \<open>\<open>sbi_get_insn\<close>; when the first half-word faults, the value of the register is undefined and the model stops there.\<close>

definition sbi_get_insn :: "vmem \<Rightarrow> ulong \<Rightarrow> ldst_state \<Rightarrow> ulong \<times> sbi_trap_info" where
  "sbi_get_insn v pc s =
    (case if_fault v pc of
      Some t \<Rightarrow> (0, get_insn_cause t)
    | None \<Rightarrow>
        let insn = load_u16 (bytes s) pc
        in if insn AND 3 \<noteq> 3 then (insn, no_trap)
           else (case if_fault v (pc + 2) of
               Some t \<Rightarrow> (insn, get_insn_cause t)
             | None \<Rightarrow> (insn + push_bit 16 (load_u16 (bytes s) (pc + 2)), no_trap)))"

definition redirect_tc :: "sbi_trap_info \<Rightarrow> ldst_state \<Rightarrow> int \<times> ldst_state" where
  "redirect_tc t s =
    (case sbi_trap_redirect t \<lparr>mepc = tc_mepc (tc s), mstatus = tc_mstatus (tc s), a6 = tc_gpr (tc s) 16, a7 = tc_gpr (tc s) 17\<rparr> (rcsrs s) of
      (rc, regs, c) \<Rightarrow> (rc, s\<lparr>tc := (tc s)\<lparr>tc_mepc := mepc regs, tc_mstatus := mstatus regs\<rparr>, rcsrs := c\<rparr>))"

definition sbi_misaligned_tinst_fixup :: "ulong \<Rightarrow> ulong \<Rightarrow> ulong \<Rightarrow> ulong" where
  "sbi_misaligned_tinst_fixup orig_tinst new_tinst addr_offset =
    (if new_tinst = INSN_PSEUDO_VS_LOAD \<or> new_tinst = INSN_PSEUDO_VS_STORE then new_tinst
     else if orig_tinst = 0 then 0
     else orig_tinst OR push_bit SH_RS1 addr_offset)"

subsection \<open>Decoding\<close>

text \<open>The test chain of \<open>sbi_trap_emulate_load\<close>: length, shift, whether the destination is a floating-point register, and the
  instruction with the destination where \<open>SET_RD\<close> looks for it.\<close>

datatype decoded = Scalar nat nat bool ulong | Vector | Unknown

definition decode_load :: "ulong \<Rightarrow> decoded" where
  "decode_load insn =
    (if insn AND 0x707f = 0x3 then Scalar 1 56 False insn
     else if insn AND 0x707f = 0x4003 then Scalar 1 0 False insn
     else if insn AND 0x707f = 0x2003 then Scalar 4 32 False insn
     else if insn AND 0x707f = 0x3003 then Scalar 8 0 False insn
     else if insn AND 0x707f = 0x6003 then Scalar 4 0 False insn
     else if insn AND 0x707f = 0x3007 then Scalar 8 0 True insn
     else if insn AND 0x707f = 0x2007 then Scalar 4 0 True insn
     else if insn AND 0x707f = 0x1003 then Scalar 2 48 False insn
     else if insn AND 0x707f = 0x5003 then Scalar 2 0 False insn
     else if insn AND 0xe003 = 0x6000 then Scalar 8 0 False (push_bit SH_RD (RVC_RS2S insn))
     else if insn AND 0xe003 = 0x6002 \<and> drop_bit SH_RD insn AND 0x1f \<noteq> 0 then Scalar 8 0 False insn
     else if insn AND 0xe003 = 0x4000 then Scalar 4 32 False (push_bit SH_RD (RVC_RS2S insn))
     else if insn AND 0xe003 = 0x4002 \<and> drop_bit SH_RD insn AND 0x1f \<noteq> 0 then Scalar 4 32 False insn
     else if insn AND 0xe003 = 0x2000 then Scalar 8 0 True (push_bit SH_RD (RVC_RS2S insn))
     else if insn AND 0xe003 = 0x2002 then Scalar 8 0 True insn
     else if insn AND 0xfc43 = 0x8400 then Scalar 2 0 False (push_bit SH_RD (RVC_RS2S insn))
     else if insn AND 0xfc43 = 0x8440 then Scalar 2 48 False (push_bit SH_RD (RVC_RS2S insn))
     else if IS_VECTOR_LOAD_STORE insn then Vector
     else Unknown)"

text \<open>The test chain of \<open>sbi_trap_emulate_store\<close>: length and value to store. A single-precision register is read as its low word.\<close>

datatype decoded_store = Store nat ulong | Store_vector | Store_unknown

definition decode_store :: "ulong \<Rightarrow> ldst_state \<Rightarrow> decoded_store" where
  "decode_store insn s =
    (let x = tc_gpr (tc s); rs2 = reg_ix insn SH_RS2; rs2s = reg_ix (RVC_RS2S insn) 0; rs2c = reg_ix insn SH_RS2C
     in if insn AND 0x707f = 0x23 then Store 1 (x rs2)
        else if insn AND 0x707f = 0x2023 then Store 4 (x rs2)
        else if insn AND 0x707f = 0x3023 then Store 8 (x rs2)
        else if insn AND 0x707f = 0x3027 then Store 8 (fpr s rs2)
        else if insn AND 0x707f = 0x2027 then Store 4 (scast (ucast (fpr s rs2) :: u32))
        else if insn AND 0x707f = 0x1023 then Store 2 (x rs2)
        else if insn AND 0xe003 = 0xe000 then Store 8 (x rs2s)
        else if insn AND 0xe003 = 0xe002 then Store 8 (x rs2c)
        else if insn AND 0xe003 = 0xc000 then Store 4 (x rs2s)
        else if insn AND 0xe003 = 0xc002 then Store 4 (x rs2c)
        else if insn AND 0xe003 = 0xa000 then Store 8 (fpr s rs2s)
        else if insn AND 0xe003 = 0xa002 then Store 8 (fpr s rs2c)
        else if insn AND 0xfc43 = 0x8c00 then Store 2 (x rs2s)
        else if IS_VECTOR_LOAD_STORE insn then Store_vector
        else Store_unknown)"

text \<open>The head of both functions: the trapped instruction and its length, or the result when it cannot be read.\<close>

definition trapped_insn :: "vmem \<Rightarrow> ldst_state \<Rightarrow> (int \<times> ldst_state) + (ulong \<times> ulong)" where
  "trapped_insn v s =
    (let t = tinst (tc_trap (tc s))
     in if t AND 1 \<noteq> 0 then
          let insn = t OR INSN_16BIT_MASK
          in Inr (insn, if t AND 2 \<noteq> 0 then INSN_LEN insn else 2)
        else (case sbi_get_insn v (tc_mepc (tc s)) s of (insn, uptrap) \<Rightarrow>
          if cause uptrap \<noteq> 0 then Inl (redirect_tc uptrap s) else Inr (insn, INSN_LEN insn)))"

subsection \<open>Emulation\<close>

definition SET_RD :: "ulong \<Rightarrow> ulong \<Rightarrow> ldst_state \<Rightarrow> ldst_state" where
  "SET_RD insn val s = s\<lparr>tc := (tc s)\<lparr>tc_gpr := (tc_gpr (tc s))(reg_ix insn SH_RD := val)\<rparr>\<rparr>"

text \<open>Writing a floating-point register marks the unit as dirty; a single-precision value is NaN-boxed by the hardware.\<close>

definition SET_FS_DIRTY :: "ldst_state \<Rightarrow> ldst_state" where
  "SET_FS_DIRTY s = s\<lparr>tc := (tc s)\<lparr>tc_mstatus := tc_mstatus (tc s) OR MSTATUS_FS\<rparr>\<rparr>"

definition SET_F64_RD :: "ulong \<Rightarrow> ulong \<Rightarrow> ldst_state \<Rightarrow> ldst_state" where
  "SET_F64_RD insn val s = SET_FS_DIRTY (s\<lparr>fpr := (fpr s)(reg_ix insn SH_RD := val)\<rparr>)"

definition SET_F32_RD :: "ulong \<Rightarrow> ulong \<Rightarrow> ldst_state \<Rightarrow> ldst_state" where
  "SET_F32_RD insn val s =
    SET_FS_DIRTY (s\<lparr>fpr := (fpr s)(reg_ix insn SH_RD := 0xffffffff00000000 OR ucast (ucast val :: u32))\<rparr>)"

definition sbi_misaligned_v_ld_emulator :: "ulong \<Rightarrow> ldst_state \<Rightarrow> int \<times> ulong \<times> ldst_state" where
  "sbi_misaligned_v_ld_emulator val s = (0, val, s)"

definition sbi_misaligned_v_st_emulator :: "ldst_state \<Rightarrow> int \<times> ldst_state" where
  "sbi_misaligned_v_st_emulator s = (0, s)"

definition sbi_trap_emulate_load ::
  "vmem \<Rightarrow> (nat \<Rightarrow> ulong \<Rightarrow> ldst_state \<Rightarrow> int \<times> ulong \<times> ldst_state) \<Rightarrow> ldst_state \<Rightarrow> int \<times> ldst_state" where
  "sbi_trap_emulate_load v emu s =
    (case trapped_insn v s of
      Inl r \<Rightarrow> r
    | Inr (insn, insn_len) \<Rightarrow>
        (case decode_load insn of
          Unknown \<Rightarrow> redirect_tc (tc_trap (tc s)) s
        | Vector \<Rightarrow>
            (case sbi_misaligned_v_ld_emulator 0 s of (rc, val, s) \<Rightarrow>
              if rc \<le> 0 then (rc, s) else (0, s\<lparr>tc := (tc s)\<lparr>tc_mepc := tc_mepc (tc s) + insn_len\<rparr>\<rparr>))
        | Scalar len shift fp insn \<Rightarrow>
            (case emu len 0 s of (rc, val, s) \<Rightarrow>
              if rc \<le> 0 then (rc, s)
              else
                let s = (if \<not> fp then SET_RD insn (signed_drop_bit shift (push_bit shift val)) s
                         else if len = 8 then SET_F64_RD insn val s
                         else SET_F32_RD insn val s)
                in (0, s\<lparr>tc := (tc s)\<lparr>tc_mepc := tc_mepc (tc s) + insn_len\<rparr>\<rparr>))))"

definition sbi_trap_emulate_store ::
  "vmem \<Rightarrow> (nat \<Rightarrow> ulong \<Rightarrow> ldst_state \<Rightarrow> int \<times> ldst_state) \<Rightarrow> ldst_state \<Rightarrow> int \<times> ldst_state" where
  "sbi_trap_emulate_store v emu s =
    (case trapped_insn v s of
      Inl r \<Rightarrow> r
    | Inr (insn, insn_len) \<Rightarrow>
        let res = (case decode_store insn s of
            Store_unknown \<Rightarrow> None
          | Store_vector \<Rightarrow> Some (sbi_misaligned_v_st_emulator s)
          | Store len val \<Rightarrow> Some (emu len val s))
        in (case res of
            None \<Rightarrow> redirect_tc (tc_trap (tc s)) s
          | Some (rc, s) \<Rightarrow>
              if rc \<le> 0 then (rc, s) else (0, s\<lparr>tc := (tc s)\<lparr>tc_mepc := tc_mepc (tc s) + insn_len\<rparr>\<rparr>)))"

text \<open>The byte loops; \<open>val\<close> is the union \<open>sbi_ldst_data\<close> as a word.\<close>

definition set_byte :: "nat \<Rightarrow> u8 \<Rightarrow> ulong \<Rightarrow> ulong" where
  "set_byte i b val = (val AND NOT (push_bit (8 * i) 0xff)) OR push_bit (8 * i) (ucast b)"

definition get_byte :: "nat \<Rightarrow> ulong \<Rightarrow> u8" where
  "get_byte i val = ucast (drop_bit (8 * i) val)"

function ld_loop :: "vmem \<Rightarrow> nat \<Rightarrow> nat \<Rightarrow> ulong \<Rightarrow> ldst_state \<Rightarrow> int \<times> ulong \<times> ldst_state" where
  "ld_loop v rlen i val s =
    (if i < rlen then
       let t = tc_trap (tc s)
       in (case sbi_load_u8 v (tval t + of_nat i) s of (b, uptrap) \<Rightarrow>
            let val = set_byte i b val
            in if cause uptrap \<noteq> 0 then
                 (case redirect_tc (uptrap\<lparr>tinst := sbi_misaligned_tinst_fixup (tinst t) (tinst uptrap) (of_nat i)\<rparr>) s of
                   (rc, s) \<Rightarrow> (rc, val, s))
               else ld_loop v rlen (i + 1) val s)
     else (int rlen, val, s))"
  by pat_completeness auto
termination
  by (relation "measure (\<lambda>(v, rlen, i, val, s). rlen - i)") auto

declare ld_loop.simps [simp del]

definition sbi_misaligned_ld_emulator :: "vmem \<Rightarrow> nat \<Rightarrow> ulong \<Rightarrow> ldst_state \<Rightarrow> int \<times> ulong \<times> ldst_state" where
  "sbi_misaligned_ld_emulator v rlen val s = ld_loop v rlen 0 val s"

function st_loop :: "vmem \<Rightarrow> nat \<Rightarrow> nat \<Rightarrow> ulong \<Rightarrow> ldst_state \<Rightarrow> int \<times> ldst_state" where
  "st_loop v wlen i val s =
    (if i < wlen then
       let t = tc_trap (tc s)
       in (case sbi_store_u8 v (tval t + of_nat i) (get_byte i val) s of (uptrap, s) \<Rightarrow>
            if cause uptrap \<noteq> 0
            then redirect_tc (uptrap\<lparr>tinst := sbi_misaligned_tinst_fixup (tinst t) (tinst uptrap) (of_nat i)\<rparr>) s
            else st_loop v wlen (i + 1) val s)
     else (int wlen, s))"
  by pat_completeness auto
termination
  by (relation "measure (\<lambda>(v, wlen, i, val, s). wlen - i)") auto

declare st_loop.simps [simp del]

definition sbi_misaligned_st_emulator :: "vmem \<Rightarrow> nat \<Rightarrow> ulong \<Rightarrow> ldst_state \<Rightarrow> int \<times> ldst_state" where
  "sbi_misaligned_st_emulator v wlen val s = st_loop v wlen 0 val s"

definition sbi_misaligned_load_handler :: "vmem \<Rightarrow> ldst_state \<Rightarrow> int \<times> ldst_state" where
  "sbi_misaligned_load_handler v s = sbi_trap_emulate_load v (sbi_misaligned_ld_emulator v) s"

definition sbi_misaligned_store_handler :: "vmem \<Rightarrow> ldst_state \<Rightarrow> int \<times> ldst_state" where
  "sbi_misaligned_store_handler v s = sbi_trap_emulate_store v (sbi_misaligned_st_emulator v) s"

text \<open>The handlers of access faults; \<open>plat_load\<close> and \<open>plat_store\<close> are the platform's emulators, \<open>None\<close> when it has none.\<close>

definition sbi_platform_emulate_load :: "(nat \<Rightarrow> ulong \<Rightarrow> int \<times> ulong) option \<Rightarrow> nat \<Rightarrow> ulong \<Rightarrow> ulong \<Rightarrow> int \<times> ulong" where
  "sbi_platform_emulate_load plat rlen addr val = (case plat of Some f \<Rightarrow> f rlen addr | None \<Rightarrow> (SBI_ENOTSUPP, val))"

definition sbi_platform_emulate_store :: "(nat \<Rightarrow> ulong \<Rightarrow> ulong \<Rightarrow> int) option \<Rightarrow> nat \<Rightarrow> ulong \<Rightarrow> ulong \<Rightarrow> int" where
  "sbi_platform_emulate_store plat wlen addr val = (case plat of Some f \<Rightarrow> f wlen addr val | None \<Rightarrow> SBI_ENOTSUPP)"

definition sbi_ld_access_emulator ::
  "(nat \<Rightarrow> ulong \<Rightarrow> int \<times> ulong) option \<Rightarrow> nat \<Rightarrow> ulong \<Rightarrow> ldst_state \<Rightarrow> int \<times> ulong \<times> ldst_state" where
  "sbi_ld_access_emulator plat rlen val s =
    (if sbi_mstatus_prev_mode (tc_mstatus (tc s)) = PRV_M then (SBI_EINVAL, val, s)
     else (case sbi_platform_emulate_load plat rlen (tval (tc_trap (tc s))) val of (rc, val) \<Rightarrow>
       if rc \<noteq> 0 then (case redirect_tc (tc_trap (tc s)) s of (rc, s) \<Rightarrow> (rc, val, s))
       else (int rlen, val, s)))"

definition sbi_st_access_emulator ::
  "(nat \<Rightarrow> ulong \<Rightarrow> ulong \<Rightarrow> int) option \<Rightarrow> nat \<Rightarrow> ulong \<Rightarrow> ldst_state \<Rightarrow> int \<times> ldst_state" where
  "sbi_st_access_emulator plat wlen val s =
    (if sbi_mstatus_prev_mode (tc_mstatus (tc s)) = PRV_M then (SBI_EINVAL, s)
     else if sbi_platform_emulate_store plat wlen (tval (tc_trap (tc s))) val \<noteq> 0 then redirect_tc (tc_trap (tc s)) s
     else (int wlen, s))"

definition sbi_load_access_handler :: "vmem \<Rightarrow> (nat \<Rightarrow> ulong \<Rightarrow> int \<times> ulong) option \<Rightarrow> ldst_state \<Rightarrow> int \<times> ldst_state" where
  "sbi_load_access_handler v plat s = sbi_trap_emulate_load v (sbi_ld_access_emulator plat) s"

definition sbi_store_access_handler :: "vmem \<Rightarrow> (nat \<Rightarrow> ulong \<Rightarrow> ulong \<Rightarrow> int) option \<Rightarrow> ldst_state \<Rightarrow> int \<times> ldst_state" where
  "sbi_store_access_handler v plat s = sbi_trap_emulate_store v (sbi_st_access_emulator plat) s"

end
