(* ===== verification/Sbi_Ldst_Spec.thy ===== *)
theory Sbi_Ldst_Spec
  imports Sbi_Ldst
begin

unbundle bit_operations_syntax

text \<open>
  What the emulation of misaligned accesses has to do, stated by the instruction formats of the RISC-V ISA manual, and the proof
  that the handlers do it: the test chains decode as the formats say, a load gives its destination the bytes of memory with the
  extension of the instruction, a store writes the bytes of its source, and at a byte that faults the trap of that byte is
  redirected.
\<close>

subsection \<open>The instruction formats\<close>

definition opc :: "ulong \<Rightarrow> ulong" where "opc insn = insn AND 0x7f"
definition f3 :: "ulong \<Rightarrow> ulong" where "f3 insn = drop_bit 12 insn AND 7"
definition quad :: "ulong \<Rightarrow> ulong" where "quad insn = insn AND 3"
definition cf3 :: "ulong \<Rightarrow> ulong" where "cf3 insn = drop_bit 13 insn AND 7"
definition funct6 :: "ulong \<Rightarrow> ulong" where "funct6 insn = drop_bit 10 insn AND 63"

definition field5 :: "nat \<Rightarrow> ulong \<Rightarrow> nat" where
  "field5 pos insn = unat (drop_bit pos insn AND 0x1f)"

text \<open>The three-bit register field of compressed loads and stores.\<close>

definition rs2' :: "ulong \<Rightarrow> nat" where
  "rs2' insn = 8 + unat (drop_bit 2 insn AND 7)"

datatype reg = X nat | F nat

fun regno :: "reg \<Rightarrow> nat" where
  "regno (X r) = r"
| "regno (F r) = r"

fun is_F :: "reg \<Rightarrow> bool" where
  "is_F (X r) = False"
| "is_F (F r) = True"

text \<open>Destination, number of bytes and sign extension of a load; source and number of bytes of a store.\<close>

definition isa_load :: "ulong \<Rightarrow> (reg \<times> nat \<times> bool) option" where
  "isa_load insn =
    (let rd = field5 7 insn
     in if quad insn = 3 then
          if opc insn = 0x03 then
            if f3 insn = 0 then Some (X rd, 1, True)
            else if f3 insn = 1 then Some (X rd, 2, True)
            else if f3 insn = 2 then Some (X rd, 4, True)
            else if f3 insn = 3 then Some (X rd, 8, True)
            else if f3 insn = 4 then Some (X rd, 1, False)
            else if f3 insn = 5 then Some (X rd, 2, False)
            else if f3 insn = 6 then Some (X rd, 4, False)
            else None
          else if opc insn = 0x07 then
            if f3 insn = 2 then Some (F rd, 4, False)
            else if f3 insn = 3 then Some (F rd, 8, False)
            else None
          else None
        else if quad insn = 0 then
          if cf3 insn = 1 then Some (F (rs2' insn), 8, False)
          else if cf3 insn = 2 then Some (X (rs2' insn), 4, True)
          else if cf3 insn = 3 then Some (X (rs2' insn), 8, True)
          else if funct6 insn = 33 then Some (X (rs2' insn), 2, bit insn 6)
          else None
        else if quad insn = 2 then
          if cf3 insn = 1 then Some (F rd, 8, False)
          else if cf3 insn = 2 \<and> rd \<noteq> 0 then Some (X rd, 4, True)
          else if cf3 insn = 3 \<and> rd \<noteq> 0 then Some (X rd, 8, True)
          else None
        else None)"

definition isa_store :: "ulong \<Rightarrow> (reg \<times> nat) option" where
  "isa_store insn =
    (let rs2 = field5 20 insn
     in if quad insn = 3 then
          if opc insn = 0x23 then
            if f3 insn = 0 then Some (X rs2, 1)
            else if f3 insn = 1 then Some (X rs2, 2)
            else if f3 insn = 2 then Some (X rs2, 4)
            else if f3 insn = 3 then Some (X rs2, 8)
            else None
          else if opc insn = 0x27 then
            if f3 insn = 2 then Some (F rs2, 4)
            else if f3 insn = 3 then Some (F rs2, 8)
            else None
          else None
        else if quad insn = 0 then
          if cf3 insn = 5 then Some (F (rs2' insn), 8)
          else if cf3 insn = 6 then Some (X (rs2' insn), 4)
          else if cf3 insn = 7 then Some (X (rs2' insn), 8)
          else if funct6 insn = 35 \<and> \<not> bit insn 6 then Some (X (rs2' insn), 2)
          else None
        else if quad insn = 2 then
          if cf3 insn = 5 then Some (F (field5 2 insn), 8)
          else if cf3 insn = 6 then Some (X (field5 2 insn), 4)
          else if cf3 insn = 7 then Some (X (field5 2 insn), 8)
          else None
        else None)"

subsection \<open>The test chains decode the formats\<close>

lemma split_mask:
  fixes x c m p q :: ulong
  assumes "m = p OR push_bit s q" and "drop_bit s (push_bit s q) = q" and "c AND m = c"
  shows "x AND m = c \<longleftrightarrow> x AND p = c AND p \<and> drop_bit s x AND q = drop_bit s c AND q"
proof
  assume e: "x AND m = c"
  have "x AND p = (x AND m) AND p" unfolding assms(1) by (rule bit_word_eqI) (auto simp: bit_and_iff bit_or_iff)
  moreover have "drop_bit s x AND q = drop_bit s (x AND m) AND q"
  proof (rule bit_word_eqI)
    fix n
    have "bit q n \<Longrightarrow> bit (push_bit s q) (n + s)" using arg_cong [OF assms(2), of "\<lambda>w. bit w n"] by (simp add: bit_drop_bit_eq add.commute)
    then show "bit (drop_bit s x AND q) n \<longleftrightarrow> bit (drop_bit s (x AND m) AND q) n"
      unfolding assms(1) by (auto simp only: bit_and_iff bit_or_iff bit_drop_bit_eq comp_def add.commute)
  qed
  ultimately show "x AND p = c AND p \<and> drop_bit s x AND q = drop_bit s c AND q" using e by simp
next
  assume e: "x AND p = c AND p \<and> drop_bit s x AND q = drop_bit s c AND q"
  have "x AND m = c AND m"
  proof (rule bit_word_eqI)
    fix n assume "n < LENGTH(64)"
    have "bit x n \<longleftrightarrow> bit c n" if "bit p n" using e that by (metis bit_and_iff)
    moreover have "bit x n \<longleftrightarrow> bit c n" if "bit (push_bit s q) n"
    proof -
      have n: "s \<le> n" "bit q (n - s)" using that by (simp_all add: bit_push_bit_iff)
      then have "bit (drop_bit s x) (n - s) \<longleftrightarrow> bit (drop_bit s c) (n - s)" using e by (metis bit_and_iff)
      then show ?thesis using n(1) by (simp add: bit_drop_bit_eq)
    qed
    ultimately show "bit (x AND m) n \<longleftrightarrow> bit (c AND m) n" unfolding assms(1) by (auto simp only: bit_and_iff bit_or_iff)
  qed
  then show "x AND m = c" using assms(3) by simp
qed

lemma mask_707f: "c AND 0x707f = c \<Longrightarrow> insn AND 0x707f = c \<longleftrightarrow> opc insn = c AND 0x7f \<and> f3 insn = drop_bit 12 c AND 7"
  unfolding opc_def f3_def by (rule split_mask) simp_all

lemma mask_e003: "c AND 0xe003 = c \<Longrightarrow> insn AND 0xe003 = c \<longleftrightarrow> quad insn = c AND 3 \<and> cf3 insn = drop_bit 13 c AND 7"
  unfolding quad_def cf3_def by (rule split_mask) simp_all

lemma mask_fc43:
  assumes "c AND 0xfc43 = c"
  shows "insn AND 0xfc43 = c \<longleftrightarrow> quad insn = c AND 3 \<and> drop_bit 6 insn AND 1 = drop_bit 6 c AND 1 \<and> funct6 insn = drop_bit 10 c AND 63"
proof -
  have "insn AND 0xfc43 = c \<longleftrightarrow> insn AND 0x43 = c AND 0x43 \<and> drop_bit 10 insn AND 63 = drop_bit 10 c AND 63"
    using assms by (intro split_mask) simp_all
  moreover have "insn AND 0x43 = c AND 0x43 \<longleftrightarrow> insn AND 3 = (c AND 0x43) AND 3 \<and> drop_bit 6 insn AND 1 = drop_bit 6 (c AND 0x43) AND 1"
    by (intro split_mask) (simp_all add: and.assoc)
  moreover have "(c AND 0x43) AND 3 = c AND 3" "drop_bit 6 (c AND 0x43) AND 1 = drop_bit 6 c AND 1"
    by (simp_all add: and.assoc drop_bit_and)
  ultimately show ?thesis by (auto simp: quad_def funct6_def)
qed

lemma opc_quad: "quad insn = opc insn AND 3"
  by (simp add: quad_def opc_def and.assoc)

lemma funct6_cf3: "cf3 insn = drop_bit 3 (funct6 insn)"
  by (simp add: cf3_def funct6_def drop_bit_and)

lemma bit_field: "drop_bit n w AND 1 = (if bit w n then 1 else 0)" for w :: ulong
  by (simp add: bit_iff_and_drop_bit_eq_1 and_one_eq)

lemma reg_ix_field: "3 \<le> pos \<Longrightarrow> reg_ix insn pos = field5 pos insn"
proof -
  assume p: "3 \<le> pos"
  have "drop_bit 3 (REG_OFFSET insn pos) = drop_bit pos insn AND 0x1f"
    using p by (simp add: REG_OFFSET_def drop_bit_and)
  moreover have "unat (REG_OFFSET insn pos) div 8 = unat (drop_bit 3 (REG_OFFSET insn pos))"
    by (simp add: drop_bit_eq_div unat_div)
  ultimately show ?thesis by (simp add: reg_ix_def field5_def)
qed

lemma reg_ix_2: "reg_ix insn 2 = field5 2 insn"
proof -
  have "drop_bit 3 (push_bit 1 insn AND 0xf8) = drop_bit 2 insn AND 0x1f"
  proof (rule bit_word_eqI)
    fix n
    have "bit (drop_bit 3 (0xf8 :: ulong)) n \<longleftrightarrow> bit (0x1f :: ulong) n" by simp
    then have "bit (0xf8 :: ulong) (3 + n) \<longleftrightarrow> bit (0x1f :: ulong) n" by (simp only: bit_drop_bit_eq comp_def)
    moreover have "bit (push_bit 1 insn) (3 + n) \<longleftrightarrow> bit insn (2 + n)" if "3 + n < 64"
      using that unfolding bit_push_bit_iff by simp
    moreover have "bit (0x1f :: ulong) n \<Longrightarrow> n < 5"
    proof -
      have "(0x1f :: ulong) = mask 5" by (simp add: mask_eq_exp_minus_1)
      then show "bit (0x1f :: ulong) n \<Longrightarrow> n < 5" by (simp only: bit_mask_iff)
    qed
    ultimately show "bit (drop_bit 3 (push_bit 1 insn AND 0xf8)) n \<longleftrightarrow> bit (drop_bit 2 insn AND 0x1f) n"
      unfolding bit_drop_bit_eq comp_def bit_and_iff by linarith
  qed
  moreover have "unat (REG_OFFSET insn 2) div 8 = unat (drop_bit 3 (push_bit 1 insn AND 0xf8))"
    by (simp add: REG_OFFSET_def drop_bit_eq_div unat_div)
  ultimately show ?thesis by (simp add: reg_ix_def field5_def)
qed

lemma rs2s_lt: "unat (drop_bit 2 insn AND (7 :: ulong)) < 8" "unat (RVC_RS2S insn) = rs2' insn" "rs2' insn < 16"
proof -
  have "drop_bit 2 insn AND (7 :: ulong) \<le> 7" by (rule word_and_le1)
  then show l: "unat (drop_bit 2 insn AND (7 :: ulong)) < 8" by (simp add: word_le_nat_alt)
  then show "unat (RVC_RS2S insn) = rs2' insn" "rs2' insn < 16"
    by (simp_all add: RVC_RS2S_def RV_X_def rs2'_def unat_word_ariths)
qed

lemma reg_ix_rs2s: "reg_ix (push_bit 7 (RVC_RS2S insn)) 7 = rs2' insn" "reg_ix (RVC_RS2S insn) 0 = rs2' insn"
proof -
  define w where "w = RVC_RS2S insn"
  have w: "unat w < 16" using rs2s_lt(2,3) [of insn] by (simp add: w_def)
  have m: "w AND 0x1f = w"
  proof -
    have "(0x1f :: ulong) = mask 5" by (simp add: mask_eq_exp_minus_1)
    moreover have "take_bit 5 w = w" using w by (simp add: word_unat_eq_iff unsigned_take_bit_eq take_bit_nat_eq_self)
    ultimately show ?thesis by (simp only: take_bit_eq_mask)
  qed
  have e: "unat (push_bit k w) = unat w * 2 ^ k" if "k \<le> 7" for k
  proof -
    have "(2 :: nat) ^ k \<le> 2 ^ 7" using that by (intro power_increasing) simp_all
    then have "unat w * 2 ^ k < 16 * 2 ^ 7" using w by (intro mult_less_le_imp_less) simp_all
    then have "unat w * 2 ^ k < 2 ^ 64" by simp
    then show ?thesis using that by (simp add: push_bit_eq_mult unat_word_ariths unat_2p)
  qed
  have "drop_bit 7 (push_bit 7 w) = w" using e [of 7] by (simp add: word_unat_eq_iff drop_bit_eq_div unat_div)
  then show "reg_ix (push_bit 7 (RVC_RS2S insn)) 7 = rs2' insn"
    using m rs2s_lt(2) [of insn] by (simp add: reg_ix_field field5_def flip: w_def)
  have "push_bit 3 w AND 0xf8 = push_bit 3 (w AND 0x1f)" by (simp add: push_bit_and)
  then have "REG_OFFSET w 0 = push_bit 3 w" using m by (simp add: REG_OFFSET_def)
  then show "reg_ix (RVC_RS2S insn) 0 = rs2' insn" using e [of 3] rs2s_lt(2) [of insn] by (simp add: reg_ix_def flip: w_def)
qed

lemmas chain_fields = mask_707f mask_e003 mask_fc43

lemma rd_zero: "drop_bit 7 insn AND 0x1f = 0 \<longleftrightarrow> field5 7 insn = 0"
  by (simp add: field5_def unat_eq_0)

lemma le_7: "3 \<le> (7 :: nat)"
  by simp

lemma decode_load_isa:
  assumes "isa_load insn = Some (d, len, sg)"
  shows "\<exists>insn'. decode_load insn = Scalar len (if sg then 64 - 8 * len else 0) (is_F d) insn' \<and> reg_ix insn' 7 = regno d"
proof -
  have n: "quad insn = 0 \<or> quad insn = 2 \<Longrightarrow> opc insn \<noteq> 3 \<and> opc insn \<noteq> 7" by (auto simp: opc_quad)
  have c: "funct6 insn = 33 \<Longrightarrow> cf3 insn = 4" by (simp add: funct6_cf3)
  show ?thesis
    using assms n c unfolding isa_load_def Let_def
    by (auto simp: decode_load_def chain_fields reg_ix_field reg_ix_rs2s [unfolded reg_ix_field [OF le_7]] rd_zero bit_field
      split: if_split_asm split del: if_split)
qed

subsection \<open>Loads\<close>

text \<open>The value of \<open>n\<close> bytes at an address, least significant byte first.\<close>

definition mem_val :: "(ulong \<Rightarrow> u8) \<Rightarrow> ulong \<Rightarrow> nat \<Rightarrow> ulong" where
  "mem_val b a n = fold (\<lambda>i w. w OR push_bit (8 * i) (ucast (b (a + of_nat i)))) [0..<n] 0"

lemma bit_mem_val: "n \<le> 8 \<Longrightarrow> bit (mem_val b a n) k \<longleftrightarrow> k < 8 * n \<and> bit (b (a + of_nat (k div 8))) (k mod 8)"
proof (induction n)
  case (Suc n)
  have b: "bit (push_bit (8 * n) (ucast (b (a + of_nat n))) :: ulong) k \<longleftrightarrow> 8 * n \<le> k \<and> k < 8 * n + 8 \<and> bit (b (a + of_nat n)) (k - 8 * n)"
    using Suc.prems bit_imp_le_length [of "b (a + of_nat n)" "k - 8 * n"] by (auto simp: bit_push_bit_iff bit_ucast_iff)
  show ?case
  proof (cases "8 * n \<le> k \<and> k < 8 * n + 8")
    case True
    then obtain r where "k = 8 * n + r" "r < 8" by (metis add_less_cancel_left le_Suc_ex)
    then show ?thesis using Suc b by (simp add: mem_val_def bit_or_iff)
  next
    case False
    then show ?thesis using Suc b by (auto simp: mem_val_def bit_or_iff)
  qed
qed (simp add: mem_val_def)

lemma bit_set_byte:
  assumes "i < 8" "k < 64"
  shows "bit (set_byte i b val) k \<longleftrightarrow> (if 8 * i \<le> k \<and> k < 8 * i + 8 then bit b (k - 8 * i) else bit val k)"
proof -
  have m: "(0xff :: ulong) = mask 8" by (simp add: mask_eq_exp_minus_1)
  have "bit b (k - 8 * i) \<Longrightarrow> k - 8 * i < 8" using bit_imp_le_length [of b "k - 8 * i"] by simp
  then show ?thesis
    using assms unfolding set_byte_def m
    by (auto simp: bit_or_iff bit_and_iff bit_not_iff bit_push_bit_iff bit_mask_iff bit_ucast_iff)
qed

text \<open>Every trap of the memory has a cause that is not 0 (0 is the cause of misaligned instruction fetches, which no load or store has).\<close>

definition wf_vmem :: "vmem \<Rightarrow> bool" where
  "wf_vmem v \<longleftrightarrow> (\<forall>a t. ld_fault v a = Some t \<or> st_fault v a = Some t \<longrightarrow> cause t \<noteq> 0)"

lemma no_trap_cause [simp]: "cause no_trap = 0"
  by (simp add: no_trap_def)

lemma ld_loop_ok:
  assumes "i \<le> n" "n \<le> 8" and "\<forall>j. i \<le> j \<and> j < n \<longrightarrow> ld_fault v (tval (tc_trap (tc s)) + of_nat j) = None"
    and "val = mem_val (bytes s) (tval (tc_trap (tc s))) i"
  shows "ld_loop v n i val s = (int n, mem_val (bytes s) (tval (tc_trap (tc s))) n, s)"
  using assms
proof (induction "n - i" arbitrary: i val)
  case 0
  then show ?case by (subst ld_loop.simps) simp
next
  case (Suc m)
  let ?a = "tval (tc_trap (tc s))"
  have i: "i < n" "i < 8" using Suc.hyps(2) Suc.prems(2) by simp_all
  have "set_byte i (bytes s (?a + of_nat i)) val = mem_val (bytes s) ?a (i + 1)"
  proof (rule bit_word_eqI)
    fix k assume "k < LENGTH(64)"
    then have k: "k < 64" by simp
    consider "k < 8 * i" | "8 * i \<le> k" "k < 8 * i + 8" | "8 * i + 8 \<le> k" by linarith
    then show "bit (set_byte i (bytes s (?a + of_nat i)) val) k \<longleftrightarrow> bit (mem_val (bytes s) ?a (i + 1)) k"
    proof cases
      case 2
      then obtain r where "k = 8 * i + r" "r < 8" by (metis add_less_cancel_left le_Suc_ex)
      then show ?thesis using i(2) k by (simp add: bit_set_byte bit_mem_val)
    qed (use i(2) k Suc.prems(4) in \<open>simp_all add: bit_set_byte bit_mem_val\<close>)
  qed
  moreover have "ld_fault v (?a + of_nat i) = None" using Suc.prems(3) i(1) by simp
  ultimately have "ld_loop v n i val s = ld_loop v n (i + 1) (mem_val (bytes s) ?a (i + 1)) s"
    using i(1) by (subst ld_loop.simps) (simp add: sbi_load_u8_def Let_def)
  then show ?case using Suc.hyps(1) [of "i + 1"] Suc.hyps(2) Suc.prems i(1) by simp
qed

lemma ld_loop_fault:
  assumes "i \<le> j" "j < n" and "\<forall>k. i \<le> k \<and> k < j \<longrightarrow> ld_fault v (tval (tc_trap (tc s)) + of_nat k) = None"
    and "ld_fault v (tval (tc_trap (tc s)) + of_nat j) = Some t" "cause t \<noteq> 0"
  shows "\<exists>val'. ld_loop v n i val s =
    (case redirect_tc (t\<lparr>tinst := sbi_misaligned_tinst_fixup (tinst (tc_trap (tc s))) (tinst t) (of_nat j)\<rparr>) s of (rc, s) \<Rightarrow> (rc, val', s))"
  using assms
proof (induction "j - i" arbitrary: i val)
  case 0
  then have "i = j" by simp
  then show ?case using 0 by (subst ld_loop.simps) (auto simp: sbi_load_u8_def Let_def split: prod.split)
next
  case (Suc m)
  then have i: "i < j" "ld_fault v (tval (tc_trap (tc s)) + of_nat i) = None" by simp_all
  then have "ld_loop v n i val s = ld_loop v n (i + 1) (set_byte i (bytes s (tval (tc_trap (tc s)) + of_nat i)) val) s"
    using Suc.prems(2) by (subst ld_loop.simps) (simp add: sbi_load_u8_def Let_def)
  then show ?case using Suc.hyps(1) [of "i + 1"] Suc.hyps(2) Suc.prems i(1) by simp
qed

lemma redirect_rc: "redirect_tc t s = (rc, s') \<Longrightarrow> rc \<le> 0"
  by (auto simp: redirect_tc_def sbi_trap_redirect_def Let_def split: if_splits)

lemma sign_extend: "sh < 64 \<Longrightarrow> signed_drop_bit sh (push_bit sh w) = signed_take_bit (63 - sh) (w :: ulong)"
proof (rule bit_word_eqI)
  fix n assume sh: "sh < 64" and "n < LENGTH(64)"
  then have n: "n < 64" by simp
  show "bit (signed_drop_bit sh (push_bit sh w)) n \<longleftrightarrow> bit (signed_take_bit (63 - sh) w) n"
  proof (cases "64 - sh \<le> n")
    case True
    then have "min (63 - sh) n = 63 - sh" by simp
    then show ?thesis using True sh n by (simp add: bit_signed_drop_bit_iff bit_signed_take_bit_iff bit_push_bit_iff)
  next
    case False
    then have "min (63 - sh) n = n" "sh + n < 64" using sh by simp_all
    then show ?thesis using False sh n by (simp add: bit_signed_drop_bit_iff bit_signed_take_bit_iff bit_push_bit_iff)
  qed
qed

lemma mem_val_32: "ucast (ucast (mem_val b a 4) :: u32) = mem_val b a 4"
  by (rule bit_word_eqI) (auto simp: bit_ucast_iff bit_mem_val)

text \<open>What a load does: the destination register and the program counter. Register \<open>x0\<close> stays 0; the slot of the trap context that
  carries its number is never loaded back, so states are compared without it.\<close>

definition x0_clear :: "ldst_state \<Rightarrow> ldst_state" where
  "x0_clear s = s\<lparr>tc := (tc s)\<lparr>tc_gpr := (tc_gpr (tc s))(0 := 0)\<rparr>\<rparr>"

definition isa_exec_load :: "reg \<Rightarrow> nat \<Rightarrow> bool \<Rightarrow> ulong \<Rightarrow> ulong \<Rightarrow> ldst_state \<Rightarrow> ldst_state" where
  "isa_exec_load d len sg a ilen s =
    (let val = mem_val (bytes s) a len;
         s = (case d of
             X r \<Rightarrow> if r = 0 then s
                   else s\<lparr>tc := (tc s)\<lparr>tc_gpr := (tc_gpr (tc s))(r := if sg then signed_take_bit (8 * len - 1) val else val)\<rparr>\<rparr>
           | F r \<Rightarrow> s\<lparr>fpr := (fpr s)(r := if len = 8 then val else 0xffffffff00000000 OR val),
                      tc := (tc s)\<lparr>tc_mstatus := tc_mstatus (tc s) OR MSTATUS_FS\<rparr>\<rparr>)
     in s\<lparr>tc := (tc s)\<lparr>tc_mepc := tc_mepc (tc s) + ilen\<rparr>\<rparr>)"

lemma isa_load_len: "isa_load insn = Some (d, len, sg) \<Longrightarrow> len \<in> {1, 2, 4, 8} \<and> (is_F d \<longrightarrow> \<not> sg \<and> len \<in> {4, 8})"
  by (auto simp: isa_load_def Let_def split: if_split_asm)

text \<open>C6: Misaligned loads are emulated exactly: for every integer or floating-point load of RV64IFD, C and Zcb whose instruction can be
  read, the handler returns 0 and has the effect of the instruction at the trap address if no byte of the access faults;
  otherwise it redirects the trap of the first byte that does, and changes no register but those the redirection changes.\<close>

theorem misaligned_load_emulates:
  assumes "wf_vmem v" and "trapped_insn v s = Inr (insn, ilen)" and "isa_load insn = Some (d, len, sg)"
  defines "a \<equiv> tval (tc_trap (tc s))"
  shows "case List.find (\<lambda>i. ld_fault v (a + of_nat i) \<noteq> None) [0..<len] of
      None \<Rightarrow> \<exists>s'. sbi_misaligned_load_handler v s = (0, s') \<and> x0_clear s' = x0_clear (isa_exec_load d len sg a ilen s)
    | Some i \<Rightarrow> \<exists>t. ld_fault v (a + of_nat i) = Some t \<and>
        sbi_misaligned_load_handler v s =
          redirect_tc (t\<lparr>tinst := sbi_misaligned_tinst_fixup (tinst (tc_trap (tc s))) (tinst t) (of_nat i)\<rparr>) s"
proof -
  let ?sh = "if sg then 64 - 8 * len else 0"
  obtain insn' where dec: "decode_load insn = Scalar len ?sh (is_F d) insn'" "reg_ix insn' 7 = regno d"
    using decode_load_isa [OF assms(3)] by blast
  have len: "len \<in> {1, 2, 4, 8}" "is_F d \<Longrightarrow> \<not> sg \<and> len \<in> {4, 8}" using isa_load_len [OF assms(3)] by simp_all
  have h: "sbi_misaligned_load_handler v s = (case ld_loop v len 0 0 s of (rc, val, s) \<Rightarrow>
      if rc \<le> 0 then (rc, s)
      else let s = (if \<not> is_F d then SET_RD insn' (signed_drop_bit ?sh (push_bit ?sh val)) s
                    else if len = 8 then SET_F64_RD insn' val s else SET_F32_RD insn' val s)
           in (0, s\<lparr>tc := (tc s)\<lparr>tc_mepc := tc_mepc (tc s) + ilen\<rparr>\<rparr>))"
    using assms(2) dec(1)
    by (simp add: sbi_misaligned_load_handler_def sbi_trap_emulate_load_def sbi_misaligned_ld_emulator_def split del: if_split)
  show ?thesis
  proof (cases "List.find (\<lambda>i. ld_fault v (a + of_nat i) \<noteq> None) [0..<len]")
    case None
    then have "\<forall>j. 0 \<le> j \<and> j < len \<longrightarrow> ld_fault v (a + of_nat j) = None" by (auto simp: find_None_iff)
    then have "ld_loop v len 0 0 s = (int len, mem_val (bytes s) a len, s)"
      using ld_loop_ok [of 0 len v s 0] len(1) by (auto simp: a_def mem_val_def)
    moreover have "signed_drop_bit ?sh (push_bit ?sh w) = (if sg then signed_take_bit (8 * len - 1) w else w)" for w :: ulong
      using len(1) sign_extend [of "64 - 8 * len" w] by auto
    ultimately show ?thesis
      using None h len dec(2)
      by (cases d) (auto simp: isa_exec_load_def x0_clear_def SET_RD_def SET_F64_RD_def SET_F32_RD_def SET_FS_DIRTY_def Let_def mem_val_32)
  next
    case (Some i)
    then obtain t where t: "i < len" "ld_fault v (a + of_nat i) = Some t" "\<forall>k<i. ld_fault v (a + of_nat k) = None"
      by (auto simp: find_Some_iff)
    moreover have "cause t \<noteq> 0" using assms(1) t(2) by (auto simp: wf_vmem_def)
    ultimately obtain val' where "ld_loop v len 0 0 s =
      (case redirect_tc (t\<lparr>tinst := sbi_misaligned_tinst_fixup (tinst (tc_trap (tc s))) (tinst t) (of_nat i)\<rparr>) s of (rc, s) \<Rightarrow> (rc, val', s))"
      using ld_loop_fault [of 0 i len v s t 0] by (auto simp: a_def)
    then show ?thesis
      using Some t(2) h redirect_rc by (auto split: prod.split)
  qed
qed

text \<open>An instance: a misaligned \<open>lw a0\<close> at \<open>0x1001\<close>, reported by the hardware as a transformed instruction.\<close>

definition ex_vmem :: vmem where
  "ex_vmem = \<lparr>ld_fault = (\<lambda>_. None), st_fault = (\<lambda>_. None), if_fault = (\<lambda>_. None)\<rparr>"

definition ex_ldst :: "ulong \<Rightarrow> ldst_state" where
  "ex_ldst t = \<lparr>tc = \<lparr>tc_gpr = (\<lambda>_. 0), tc_mepc = 0x80200000, tc_mstatus = 0x800,
      tc_trap = \<lparr>cause = 4, tval = 0x1001, tval2 = 0, tinst = t, gva = False\<rparr>, tc_prev = 0\<rparr>,
    fpr = (\<lambda>_. 0), bytes = (\<lambda>a. ucast a + 0x80), rcsrs = ex_trap_csrs\<rparr>"

theorem misaligned_load_emulates_witness:
  "\<exists>s'. sbi_misaligned_load_handler ex_vmem (ex_ldst 0x2503) = (0, s') \<and>
    x0_clear s' = x0_clear (isa_exec_load (X 10) 4 True 0x1001 4 (ex_ldst 0x2503))"
proof -
  have "wf_vmem ex_vmem" by (simp add: wf_vmem_def ex_vmem_def)
  moreover have "trapped_insn ex_vmem (ex_ldst 0x2503) = Inr (0x2503, 4)" by (simp add: trapped_insn_def ex_ldst_def INSN_LEN_def)
  moreover have "isa_load 0x2503 = Some (X 10, 4, True)" by (simp add: isa_load_def quad_def opc_def f3_def field5_def)
  moreover have "List.find (\<lambda>i. ld_fault ex_vmem (0x1001 + of_nat i) \<noteq> None) [0..<4] = None" by (simp add: find_None_iff ex_vmem_def)
  moreover have "tval (tc_trap (tc (ex_ldst 0x2503))) = 0x1001" by (simp add: ex_ldst_def)
  ultimately show ?thesis using misaligned_load_emulates [of ex_vmem "ex_ldst 0x2503" "0x2503" 4 "X 10" 4 True] by simp
qed

text \<open>Other instructions with the opcodes of vector accesses, for example \<open>flh\<close>, leave the handler with result 0 and an unchanged state:
  the hart executes them again and traps again.\<close>

lemma vector_load_retried:
  assumes "trapped_insn v s = Inr (insn, ilen)" and "decode_load insn = Vector"
  shows "sbi_misaligned_load_handler v s = (0, s)"
  using assms by (simp add: sbi_misaligned_load_handler_def sbi_trap_emulate_load_def sbi_misaligned_v_ld_emulator_def)

lemma flh_retried: "decode_load 0x1507 = Vector"
  by (simp add: decode_load_def IS_VECTOR_LOAD_STORE_def)

subsection \<open>Stores\<close>

fun reg_val :: "ldst_state \<Rightarrow> reg \<Rightarrow> ulong" where
  "reg_val s (X r) = tc_gpr (tc s) r"
| "reg_val s (F r) = fpr s r"

definition put_bytes :: "ulong \<Rightarrow> ulong \<Rightarrow> nat list \<Rightarrow> (ulong \<Rightarrow> u8) \<Rightarrow> ulong \<Rightarrow> u8" where
  "put_bytes a val is b = fold (\<lambda>i b. b(a + of_nat i := get_byte i val)) is b"

definition isa_exec_store :: "reg \<Rightarrow> nat \<Rightarrow> ulong \<Rightarrow> ulong \<Rightarrow> ldst_state \<Rightarrow> ldst_state" where
  "isa_exec_store r len a ilen s =
    s\<lparr>bytes := put_bytes a (reg_val s r) [0..<len] (bytes s), tc := (tc s)\<lparr>tc_mepc := tc_mepc (tc s) + ilen\<rparr>\<rparr>"

lemma put_bytes_cong: "(\<And>i. i \<in> set is \<Longrightarrow> get_byte i v = get_byte i w) \<Longrightarrow> put_bytes a v is b = put_bytes a w is b"
  unfolding put_bytes_def by (intro fold_cong) auto

lemma get_byte_scast: "i < 4 \<Longrightarrow> get_byte i (scast (ucast w :: u32)) = get_byte i (w :: ulong)"
proof (rule bit_word_eqI)
  fix n assume "i < 4" and "n < LENGTH(8)"
  then have "8 * i + n < 32" "n < 8" by simp_all
  then have "min 31 (8 * i + n) = 8 * i + n" by simp
  then show "bit (get_byte i (scast (ucast w :: u32))) n \<longleftrightarrow> bit (get_byte i w) n"
    using \<open>8 * i + n < 32\<close> by (simp add: get_byte_def bit_ucast_iff bit_drop_bit_eq bit_signed_iff)
qed

lemma decode_store_isa:
  assumes "isa_store insn = Some (r, len)"
  shows "\<exists>val. decode_store insn s = Store len val \<and> (\<forall>i<len. get_byte i val = get_byte i (reg_val s r)) \<and> 0 < len"
proof -
  have n: "quad insn = 0 \<or> quad insn = 2 \<Longrightarrow> opc insn \<noteq> 0x23 \<and> opc insn \<noteq> 0x27" by (auto simp: opc_quad)
  have c: "funct6 insn = 35 \<Longrightarrow> cf3 insn = 4" by (simp add: funct6_cf3)
  show ?thesis
    using assms n c unfolding isa_store_def Let_def
    by (auto simp: decode_store_def Let_def chain_fields reg_ix_field reg_ix_2 reg_ix_rs2s bit_field get_byte_scast
        split: if_split_asm split del: if_split)
qed

lemma st_loop_ok:
  assumes "i \<le> n" and "\<forall>j. i \<le> j \<and> j < n \<longrightarrow> st_fault v (tval (tc_trap (tc s)) + of_nat j) = None"
  shows "st_loop v n i val s = (int n, s\<lparr>bytes := put_bytes (tval (tc_trap (tc s))) val [i..<n] (bytes s)\<rparr>)"
  using assms
proof (induction "n - i" arbitrary: i s)
  case 0
  then show ?case by (subst st_loop.simps) (simp add: put_bytes_def)
next
  case (Suc m)
  then have i: "i < n" "st_fault v (tval (tc_trap (tc s)) + of_nat i) = None" by simp_all
  let ?s = "s\<lparr>bytes := (bytes s)(tval (tc_trap (tc s)) + of_nat i := get_byte i val)\<rparr>"
  have "st_loop v n i val s = st_loop v n (i + 1) val ?s"
    using i by (subst st_loop.simps) (simp add: sbi_store_u8_def Let_def)
  moreover have "[i..<n] = i # [i + 1..<n]" using i(1) by (simp add: upt_conv_Cons)
  ultimately show ?case using Suc.hyps(1) [of "i + 1" ?s] Suc.hyps(2) Suc.prems i(1) by (simp add: put_bytes_def)
qed

lemma st_loop_fault:
  assumes "i \<le> j" "j < n" and "\<forall>k. i \<le> k \<and> k < j \<longrightarrow> st_fault v (tval (tc_trap (tc s)) + of_nat k) = None"
    and "st_fault v (tval (tc_trap (tc s)) + of_nat j) = Some t" "cause t \<noteq> 0"
  shows "st_loop v n i val s =
    redirect_tc (t\<lparr>tinst := sbi_misaligned_tinst_fixup (tinst (tc_trap (tc s))) (tinst t) (of_nat j)\<rparr>)
      (s\<lparr>bytes := put_bytes (tval (tc_trap (tc s))) val [i..<j] (bytes s)\<rparr>)"
  using assms
proof (induction "j - i" arbitrary: i s)
  case 0
  then have "i = j" by simp
  then show ?case using 0 by (subst st_loop.simps) (simp add: sbi_store_u8_def Let_def put_bytes_def)
next
  case (Suc m)
  then have i: "i < j" "st_fault v (tval (tc_trap (tc s)) + of_nat i) = None" by simp_all
  let ?s = "s\<lparr>bytes := (bytes s)(tval (tc_trap (tc s)) + of_nat i := get_byte i val)\<rparr>"
  have "st_loop v n i val s = st_loop v n (i + 1) val ?s"
    using i Suc.prems(2) by (subst st_loop.simps) (simp add: sbi_store_u8_def Let_def)
  moreover have "[i..<j] = i # [i + 1..<j]" using i(1) by (simp add: upt_conv_Cons)
  ultimately show ?case using Suc.hyps(1) [of "i + 1" ?s] Suc.hyps(2) Suc.prems i(1) by (simp add: put_bytes_def)
qed

text \<open>C7: Misaligned stores are emulated exactly: for every integer or floating-point store of RV64IFD, C and Zcb whose instruction can be
  read, the handler returns 0 and has the effect of the instruction at the trap address if no byte of the access faults;
  otherwise the bytes before the first one that does are in memory and its trap is redirected.\<close>

theorem misaligned_store_emulates:
  assumes "wf_vmem v" and "trapped_insn v s = Inr (insn, ilen)" and "isa_store insn = Some (r, len)"
  defines "a \<equiv> tval (tc_trap (tc s))"
  shows "case List.find (\<lambda>i. st_fault v (a + of_nat i) \<noteq> None) [0..<len] of
      None \<Rightarrow> sbi_misaligned_store_handler v s = (0, isa_exec_store r len a ilen s)
    | Some i \<Rightarrow> \<exists>t. st_fault v (a + of_nat i) = Some t \<and>
        sbi_misaligned_store_handler v s =
          redirect_tc (t\<lparr>tinst := sbi_misaligned_tinst_fixup (tinst (tc_trap (tc s))) (tinst t) (of_nat i)\<rparr>)
            (s\<lparr>bytes := put_bytes a (reg_val s r) [0..<i] (bytes s)\<rparr>)"
proof -
  obtain val where dec: "decode_store insn s = Store len val" "\<And>i. i < len \<Longrightarrow> get_byte i val = get_byte i (reg_val s r)" "0 < len"
    using decode_store_isa [OF assms(3)] by blast
  have h: "sbi_misaligned_store_handler v s = (case st_loop v len 0 val s of (rc, s) \<Rightarrow>
      if rc \<le> 0 then (rc, s) else (0, s\<lparr>tc := (tc s)\<lparr>tc_mepc := tc_mepc (tc s) + ilen\<rparr>\<rparr>))"
    using assms(2) dec(1) by (simp add: sbi_misaligned_store_handler_def sbi_trap_emulate_store_def sbi_misaligned_st_emulator_def)
  have put: "put_bytes a val [0..<k] (bytes s) = put_bytes a (reg_val s r) [0..<k] (bytes s)" if "k \<le> len" for k
    using dec(2) that by (intro put_bytes_cong) simp
  show ?thesis
  proof (cases "List.find (\<lambda>i. st_fault v (a + of_nat i) \<noteq> None) [0..<len]")
    case None
    then have "\<forall>j. 0 \<le> j \<and> j < len \<longrightarrow> st_fault v (a + of_nat j) = None" by (auto simp: find_None_iff)
    then have "st_loop v len 0 val s = (int len, s\<lparr>bytes := put_bytes a val [0..<len] (bytes s)\<rparr>)"
      using st_loop_ok [of 0 len v s val] by (simp add: a_def)
    then show ?thesis using None h dec(3) put [of len] by (simp add: isa_exec_store_def)
  next
    case (Some i)
    then obtain t where t: "i < len" "st_fault v (a + of_nat i) = Some t" "\<forall>k<i. st_fault v (a + of_nat k) = None"
      by (auto simp: find_Some_iff)
    moreover have "cause t \<noteq> 0" using assms(1) t(2) by (auto simp: wf_vmem_def)
    ultimately have "st_loop v len 0 val s =
      redirect_tc (t\<lparr>tinst := sbi_misaligned_tinst_fixup (tinst (tc_trap (tc s))) (tinst t) (of_nat i)\<rparr>)
        (s\<lparr>bytes := put_bytes a val [0..<i] (bytes s)\<rparr>)"
      using st_loop_fault [of 0 i len v s t val] by (simp add: a_def)
    then show ?thesis
      using Some t(1,2) h redirect_rc put [of i] by (auto split: prod.split)
  qed
qed

theorem misaligned_store_emulates_witness:
  "sbi_misaligned_store_handler ex_vmem (ex_ldst 0xa02023) = (0, isa_exec_store (X 10) 4 0x1001 4 (ex_ldst 0xa02023))"
proof -
  have "wf_vmem ex_vmem" by (simp add: wf_vmem_def ex_vmem_def)
  moreover have "trapped_insn ex_vmem (ex_ldst 0xa02023) = Inr (0xa02023, 4)" by (simp add: trapped_insn_def ex_ldst_def INSN_LEN_def)
  moreover have "isa_store 0xa02023 = Some (X 10, 4)" by (simp add: isa_store_def quad_def opc_def f3_def field5_def)
  moreover have "List.find (\<lambda>i. st_fault ex_vmem (0x1001 + of_nat i) \<noteq> None) [0..<4] = None" by (simp add: find_None_iff ex_vmem_def)
  moreover have "tval (tc_trap (tc (ex_ldst 0xa02023))) = 0x1001" by (simp add: ex_ldst_def)
  ultimately show ?thesis using misaligned_store_emulates [of ex_vmem "ex_ldst 0xa02023" "0xa02023" 4 "X 10" 4] by simp
qed

end
