(* ===== verification/Sbi_Fwft.thy ===== *)
theory Sbi_Fwft
  imports Sbi_Scratch
begin

unbundle bit_operations_syntax

text \<open>
  Firmware features, \<open>lib/sbi/sbi_fwft.c\<close> and \<open>lib/sbi/sbi_ecall_fwft.c\<close>, on RV64: switches of the hart that S-mode sets and reads
  through SBI calls and may lock until the next boot of the hart.

  \<open>fwft_hw\<close> is what a hart provides: the two CSRs, which of their bits are writable, the legal values of the pointer-masking field
  of \<open>menvcfg\<close> and what the field holds after a write of an illegal one, and the extensions. A feature is a record with the
  callbacks of the source; the callbacks never look at their \<open>conf\<close> argument, so it is left out. The state of a hart is \<open>None\<close>
  while its pointer in the scratch space is NULL.
\<close>

subsection \<open>The code\<close>

definition SBI_FWFT_MISALIGNED_EXC_DELEG :: u32 where [simp, sbi_defs]: "SBI_FWFT_MISALIGNED_EXC_DELEG = 0"
definition SBI_FWFT_LANDING_PAD :: u32 where [simp, sbi_defs]: "SBI_FWFT_LANDING_PAD = 1"
definition SBI_FWFT_SHADOW_STACK :: u32 where [simp, sbi_defs]: "SBI_FWFT_SHADOW_STACK = 2"
definition SBI_FWFT_DOUBLE_TRAP :: u32 where [simp, sbi_defs]: "SBI_FWFT_DOUBLE_TRAP = 3"
definition SBI_FWFT_PTE_AD_HW_UPDATING :: u32 where [simp, sbi_defs]: "SBI_FWFT_PTE_AD_HW_UPDATING = 4"
definition SBI_FWFT_POINTER_MASKING_PMLEN :: u32 where [simp, sbi_defs]: "SBI_FWFT_POINTER_MASKING_PMLEN = 5"
definition SBI_FWFT_GLOBAL_FEATURE_BIT :: u32 where [simp, sbi_defs]: "SBI_FWFT_GLOBAL_FEATURE_BIT = 0x80000000"
definition SBI_FWFT_SET_FLAG_LOCK :: ulong where [simp, sbi_defs]: "SBI_FWFT_SET_FLAG_LOCK = 1"

definition ENVCFG_LPE_SHIFT :: nat where [simp, sbi_defs]: "ENVCFG_LPE_SHIFT = 2"
definition ENVCFG_SSE_SHIFT :: nat where [simp, sbi_defs]: "ENVCFG_SSE_SHIFT = 3"
definition ENVCFG_DTE_SHIFT :: nat where [simp, sbi_defs]: "ENVCFG_DTE_SHIFT = 59"
definition ENVCFG_ADUE_SHIFT :: nat where [simp, sbi_defs]: "ENVCFG_ADUE_SHIFT = 61"
definition ENVCFG_PMM :: ulong where [sbi_defs]: "ENVCFG_PMM = push_bit 32 3"
definition ENVCFG_PMM_PMLEN_0 :: ulong where [sbi_defs]: "ENVCFG_PMM_PMLEN_0 = 0"
definition ENVCFG_PMM_PMLEN_7 :: ulong where [sbi_defs]: "ENVCFG_PMM_PMLEN_7 = push_bit 32 2"
definition ENVCFG_PMM_PMLEN_16 :: ulong where [sbi_defs]: "ENVCFG_PMM_PMLEN_16 = push_bit 32 3"

text \<open>\<open>MIS_DELEG\<close>: the causes 4 and 6 of misaligned loads and stores.\<close>

definition MIS_DELEG :: ulong where "MIS_DELEG = push_bit 4 1 OR push_bit 6 1"

definition SBI_HART_EXT_SVADU :: nat where [simp, sbi_defs]: "SBI_HART_EXT_SVADU = 19"
definition SBI_HART_EXT_SMNPM :: nat where [simp, sbi_defs]: "SBI_HART_EXT_SMNPM = 20"
definition SBI_HART_EXT_ZICFILP :: nat where [simp, sbi_defs]: "SBI_HART_EXT_ZICFILP = 21"
definition SBI_HART_EXT_ZICFISS :: nat where [simp, sbi_defs]: "SBI_HART_EXT_ZICFISS = 22"
definition SBI_HART_EXT_SSDBLTRP :: nat where [simp, sbi_defs]: "SBI_HART_EXT_SSDBLTRP = 23"

record fwft_hw =
  menvcfg :: ulong
  medeleg :: ulong
  menvcfg_wr :: ulong
  medeleg_wr :: ulong
  pmlen7 :: bool
  pmlen16 :: bool
  pmm_other :: "ulong \<Rightarrow> ulong \<Rightarrow> ulong"
  hext :: "nat \<Rightarrow> bool"
  misa_S :: bool

definition pmm_legal :: "fwft_hw \<Rightarrow> ulong \<Rightarrow> bool" where
  "pmm_legal h v \<longleftrightarrow> v = ENVCFG_PMM_PMLEN_0 \<or> v = ENVCFG_PMM_PMLEN_7 \<and> pmlen7 h \<or> v = ENVCFG_PMM_PMLEN_16 \<and> pmlen16 h"

definition pmm_held :: "fwft_hw \<Rightarrow> ulong \<Rightarrow> ulong" where
  "pmm_held h v = (if pmm_legal h v then v else pmm_other h (menvcfg h AND ENVCFG_PMM) v)"

text \<open>A write to \<open>menvcfg\<close> or \<open>medeleg\<close>, as the hart performs it.\<close>

definition menvcfg_write :: "ulong \<Rightarrow> fwft_hw \<Rightarrow> fwft_hw" where
  "menvcfg_write w h = h\<lparr>menvcfg :=
    (menvcfg h AND NOT (menvcfg_wr h) AND NOT ENVCFG_PMM) OR (w AND menvcfg_wr h AND NOT ENVCFG_PMM) OR
    (pmm_held h (w AND ENVCFG_PMM) AND ENVCFG_PMM)\<rparr>"

definition medeleg_write :: "ulong \<Rightarrow> fwft_hw \<Rightarrow> fwft_hw" where
  "medeleg_write w h = h\<lparr>medeleg := (medeleg h AND NOT (medeleg_wr h)) OR (w AND medeleg_wr h)\<rparr>"

definition fwft_menvcfg_set_bit :: "ulong \<Rightarrow> nat \<Rightarrow> fwft_hw \<Rightarrow> int \<times> fwft_hw" where
  "fwft_menvcfg_set_bit v b h =
    (if v = 1 then (SBI_OK, menvcfg_write (menvcfg h OR push_bit b 1) h)
     else if v = 0 then (SBI_OK, menvcfg_write (menvcfg h AND NOT (push_bit b 1)) h)
     else (SBI_EINVAL, h))"

definition fwft_menvcfg_read_bit :: "nat \<Rightarrow> fwft_hw \<Rightarrow> int \<times> ulong" where
  "fwft_menvcfg_read_bit b h = (SBI_OK, if menvcfg h AND push_bit b 1 \<noteq> 0 then 1 else 0)"

definition fwft_misaligned_delegation_supported :: "fwft_hw \<Rightarrow> int" where
  "fwft_misaligned_delegation_supported h = (if \<not> misa_S h then SBI_ENOTSUPP else SBI_OK)"

definition fwft_set_misaligned_delegation :: "ulong \<Rightarrow> fwft_hw \<Rightarrow> int \<times> fwft_hw" where
  "fwft_set_misaligned_delegation v h =
    (if v = 1 then (SBI_OK, medeleg_write (medeleg h OR MIS_DELEG) h)
     else if v = 0 then (SBI_OK, medeleg_write (medeleg h AND NOT MIS_DELEG) h)
     else (SBI_EINVAL, h))"

definition fwft_get_misaligned_delegation :: "fwft_hw \<Rightarrow> int \<times> ulong" where
  "fwft_get_misaligned_delegation h = (SBI_OK, if medeleg h AND MIS_DELEG \<noteq> 0 then 1 else 0)"

definition fwft_double_trap_supported :: "fwft_hw \<Rightarrow> int" where
  "fwft_double_trap_supported h = (if \<not> hext h SBI_HART_EXT_SSDBLTRP then SBI_ENOTSUPP else SBI_OK)"

definition fwft_set_double_trap :: "ulong \<Rightarrow> fwft_hw \<Rightarrow> int \<times> fwft_hw" where
  "fwft_set_double_trap v = fwft_menvcfg_set_bit v ENVCFG_DTE_SHIFT"

definition fwft_get_double_trap :: "fwft_hw \<Rightarrow> int \<times> ulong" where
  "fwft_get_double_trap = fwft_menvcfg_read_bit ENVCFG_DTE_SHIFT"

definition fwft_adue_supported :: "fwft_hw \<Rightarrow> int" where
  "fwft_adue_supported h = (if \<not> hext h SBI_HART_EXT_SVADU then SBI_ENOTSUPP else SBI_OK)"

definition fwft_set_adue :: "ulong \<Rightarrow> fwft_hw \<Rightarrow> int \<times> fwft_hw" where
  "fwft_set_adue v = fwft_menvcfg_set_bit v ENVCFG_ADUE_SHIFT"

definition fwft_get_adue :: "fwft_hw \<Rightarrow> int \<times> ulong" where
  "fwft_get_adue = fwft_menvcfg_read_bit ENVCFG_ADUE_SHIFT"

definition fwft_lpad_supported :: "fwft_hw \<Rightarrow> int" where
  "fwft_lpad_supported h = (if \<not> hext h SBI_HART_EXT_ZICFILP then SBI_ENOTSUPP else SBI_OK)"

definition fwft_enable_lpad :: "ulong \<Rightarrow> fwft_hw \<Rightarrow> int \<times> fwft_hw" where
  "fwft_enable_lpad v = fwft_menvcfg_set_bit v ENVCFG_LPE_SHIFT"

definition fwft_get_lpad :: "fwft_hw \<Rightarrow> int \<times> ulong" where
  "fwft_get_lpad = fwft_menvcfg_read_bit ENVCFG_LPE_SHIFT"

definition fwft_sstack_supported :: "fwft_hw \<Rightarrow> int" where
  "fwft_sstack_supported h = (if \<not> hext h SBI_HART_EXT_ZICFISS then SBI_ENOTSUPP else SBI_OK)"

definition fwft_enable_sstack :: "ulong \<Rightarrow> fwft_hw \<Rightarrow> int \<times> fwft_hw" where
  "fwft_enable_sstack v = fwft_menvcfg_set_bit v ENVCFG_SSE_SHIFT"

definition fwft_get_sstack :: "fwft_hw \<Rightarrow> int \<times> ulong" where
  "fwft_get_sstack = fwft_menvcfg_read_bit ENVCFG_SSE_SHIFT"

definition fwft_pmlen_supported :: "fwft_hw \<Rightarrow> int" where
  "fwft_pmlen_supported h = (if \<not> hext h SBI_HART_EXT_SMNPM then SBI_ENOTSUPP else SBI_OK)"

definition fwft_try_to_set_pmm :: "ulong \<Rightarrow> fwft_hw \<Rightarrow> bool \<times> fwft_hw" where
  "fwft_try_to_set_pmm pmm h =
    (let h = menvcfg_write (menvcfg h OR pmm) h in (menvcfg h AND ENVCFG_PMM = pmm, h))"

text \<open>\<open>fwft_set_pmlen\<close>; its last part, from the second attempt on, is also reached after the first one failed.\<close>

definition fwft_set_pmlen_16 :: "ulong \<Rightarrow> fwft_hw \<Rightarrow> int \<times> fwft_hw" where
  "fwft_set_pmlen_16 prev h =
    (case fwft_try_to_set_pmm ENVCFG_PMM_PMLEN_16 h of (ok, h) \<Rightarrow>
      if ok then (SBI_OK, h) else (SBI_EINVAL, menvcfg_write prev h))"

definition fwft_set_pmlen :: "ulong \<Rightarrow> fwft_hw \<Rightarrow> int \<times> fwft_hw" where
  "fwft_set_pmlen v h =
    (if v > 16 then (SBI_EINVAL, h)
     else
       let prev = menvcfg h;
           h = menvcfg_write (menvcfg h AND NOT ENVCFG_PMM) h
       in if v = 0 then (SBI_OK, h)
          else if v \<le> 7 then
            (case fwft_try_to_set_pmm ENVCFG_PMM_PMLEN_7 h of (ok, h) \<Rightarrow>
              if ok then (SBI_OK, h)
              else fwft_set_pmlen_16 prev (menvcfg_write (menvcfg h AND NOT ENVCFG_PMM) h))
          else fwft_set_pmlen_16 prev h)"

definition fwft_get_pmlen :: "fwft_hw \<Rightarrow> int \<times> ulong" where
  "fwft_get_pmlen h =
    (let f = menvcfg h AND ENVCFG_PMM
     in if f = ENVCFG_PMM_PMLEN_0 then (SBI_OK, 0)
        else if f = ENVCFG_PMM_PMLEN_7 then (SBI_OK, 7)
        else if f = ENVCFG_PMM_PMLEN_16 then (SBI_OK, 16)
        else (SBI_EFAIL, 0))"

record fwft_feature =
  ff_id :: u32
  ff_supported :: "(fwft_hw \<Rightarrow> int) option"
  ff_set :: "ulong \<Rightarrow> fwft_hw \<Rightarrow> int \<times> fwft_hw"
  ff_get :: "fwft_hw \<Rightarrow> int \<times> ulong"

record fwft_config =
  fc_feature :: fwft_feature
  fc_flags :: ulong

definition fwft_defined_features :: "u32 list" where
  "fwft_defined_features = [SBI_FWFT_MISALIGNED_EXC_DELEG, SBI_FWFT_LANDING_PAD, SBI_FWFT_SHADOW_STACK,
    SBI_FWFT_DOUBLE_TRAP, SBI_FWFT_PTE_AD_HW_UPDATING, SBI_FWFT_POINTER_MASKING_PMLEN]"

definition fwft_is_defined_feature :: "u32 \<Rightarrow> bool" where
  "fwft_is_defined_feature f \<longleftrightarrow> list_ex (\<lambda>d. d = f) fwft_defined_features"

definition features :: "fwft_feature list" where
  "features =
    [\<lparr>ff_id = SBI_FWFT_MISALIGNED_EXC_DELEG, ff_supported = Some fwft_misaligned_delegation_supported,
      ff_set = fwft_set_misaligned_delegation, ff_get = fwft_get_misaligned_delegation\<rparr>,
     \<lparr>ff_id = SBI_FWFT_LANDING_PAD, ff_supported = Some fwft_lpad_supported,
      ff_set = fwft_enable_lpad, ff_get = fwft_get_lpad\<rparr>,
     \<lparr>ff_id = SBI_FWFT_SHADOW_STACK, ff_supported = Some fwft_sstack_supported,
      ff_set = fwft_enable_sstack, ff_get = fwft_get_sstack\<rparr>,
     \<lparr>ff_id = SBI_FWFT_DOUBLE_TRAP, ff_supported = Some fwft_double_trap_supported,
      ff_set = fwft_set_double_trap, ff_get = fwft_get_double_trap\<rparr>,
     \<lparr>ff_id = SBI_FWFT_PTE_AD_HW_UPDATING, ff_supported = Some fwft_adue_supported,
      ff_set = fwft_set_adue, ff_get = fwft_get_adue\<rparr>,
     \<lparr>ff_id = SBI_FWFT_POINTER_MASKING_PMLEN, ff_supported = Some fwft_pmlen_supported,
      ff_set = fwft_set_pmlen, ff_get = fwft_get_pmlen\<rparr>]"

text \<open>The state of one hart: its CSRs and its table of configurations.\<close>

record fwft_hart =
  fw_hw :: fwft_hw
  fw_configs :: "fwft_config list"

text \<open>\<open>get_feature_config\<close>: the index of the configuration; the loop with the counter \<open>i\<close>.\<close>

fun config_search :: "u32 \<Rightarrow> nat \<Rightarrow> fwft_config list \<Rightarrow> nat option" where
  "config_search f i [] = None"
| "config_search f i (c # cs) = (if f = ff_id (fc_feature c) then Some i else config_search f (i + 1) cs)"

definition get_feature_config :: "u32 \<Rightarrow> fwft_hart \<Rightarrow> nat option" where
  "get_feature_config f s =
    (if f AND SBI_FWFT_GLOBAL_FEATURE_BIT \<noteq> 0 then None else config_search f 0 (fw_configs s))"

definition fwft_get_feature :: "u32 \<Rightarrow> fwft_hart \<Rightarrow> int + nat" where
  "fwft_get_feature f s =
    (case get_feature_config f s of
      None \<Rightarrow> if fwft_is_defined_feature f then Inl SBI_ENOTSUPP else Inl SBI_EDENIED
    | Some i \<Rightarrow>
        (case ff_supported (fc_feature (fw_configs s ! i)) of
          Some spt \<Rightarrow> let ret = spt (fw_hw s) in if ret \<noteq> 0 then Inl ret else Inr i
        | None \<Rightarrow> Inr i))"

definition set_flags :: "nat \<Rightarrow> ulong \<Rightarrow> fwft_hart \<Rightarrow> fwft_hart" where
  "set_flags i fl s = s\<lparr>fw_configs := (fw_configs s)[i := (fw_configs s ! i)\<lparr>fc_flags := fl\<rparr>]\<rparr>"

definition fwft_clear_config_lock :: "u32 \<Rightarrow> fwft_hart \<Rightarrow> fwft_hart" where
  "fwft_clear_config_lock f s =
    (case fwft_get_feature f s of
      Inl _ \<Rightarrow> s
    | Inr i \<Rightarrow> set_flags i (fc_flags (fw_configs s ! i) AND NOT SBI_FWFT_SET_FLAG_LOCK) s)"

definition sbi_fwft_set :: "u32 \<Rightarrow> ulong \<Rightarrow> ulong \<Rightarrow> fwft_hart \<Rightarrow> int \<times> fwft_hart" where
  "sbi_fwft_set f v flags s =
    (case fwft_get_feature f s of
      Inl ret \<Rightarrow> (ret, s)
    | Inr i \<Rightarrow>
        if flags AND NOT SBI_FWFT_SET_FLAG_LOCK \<noteq> 0 then (SBI_EINVAL, s)
        else if fc_flags (fw_configs s ! i) AND SBI_FWFT_SET_FLAG_LOCK \<noteq> 0 then (SBI_EDENIED_LOCKED, s)
        else (case ff_set (fc_feature (fw_configs s ! i)) v (fw_hw s) of (ret, h) \<Rightarrow>
          if ret \<noteq> 0 then (ret, s\<lparr>fw_hw := h\<rparr>) else (SBI_OK, set_flags i flags (s\<lparr>fw_hw := h\<rparr>))))"

definition sbi_fwft_get :: "u32 \<Rightarrow> fwft_hart \<Rightarrow> int \<times> ulong" where
  "sbi_fwft_get f s =
    (case fwft_get_feature f s of
      Inl ret \<Rightarrow> (ret, 0)
    | Inr i \<Rightarrow> ff_get (fc_feature (fw_configs s ! i)) (fw_hw s))"

text \<open>
  \<open>sbi_fwft_init\<close> for all harts: the CSRs of each hart, its table once it is allocated, the offset of the pointer in the scratch
  space. A new scratch area is zero on every hart. \<open>mem\<close> says whether \<open>sbi_zalloc\<close> finds memory.
\<close>

record fwft_globals =
  fwft_ptr_offset :: ulong
  fg_tab :: scratch_globals
  fg_hw :: "nat \<Rightarrow> fwft_hw"
  fg_state :: "nat \<Rightarrow> fwft_config list option"

definition new_configs :: "fwft_config list" where
  "new_configs = map (\<lambda>f. \<lparr>fc_feature = f, fc_flags = 0\<rparr>) features"

definition clear_locks :: "fwft_hart \<Rightarrow> fwft_hart" where
  "clear_locks s = fold (\<lambda>f. fwft_clear_config_lock (ff_id f)) features s"

definition sbi_fwft_init :: "bool \<Rightarrow> nat \<Rightarrow> bool \<Rightarrow> fwft_globals \<Rightarrow> int \<times> fwft_globals" where
  "sbi_fwft_init mem hart cold_boot g =
    (let g = (if cold_boot then
                (case sbi_scratch_alloc_offset 8 (fg_tab g) of (off, tab) \<Rightarrow>
                  g\<lparr>fwft_ptr_offset := off, fg_tab := tab, fg_state := (if off = 0 then fg_state g else (\<lambda>_. None))\<rparr>)
              else g)
     in if cold_boot \<and> fwft_ptr_offset g = 0 then (SBI_ENOMEM, g)
        else (case (fg_state g hart, mem) of
          (None, False) \<Rightarrow> (SBI_ENOMEM, g)
        | (st, _) \<Rightarrow>
            let s = clear_locks \<lparr>fw_hw = fg_hw g hart, fw_configs = (case st of None \<Rightarrow> new_configs | Some cs \<Rightarrow> cs)\<rparr>
            in (0, g\<lparr>fg_state := (fg_state g)(hart := Some (fw_configs s)), fg_hw := (fg_hw g)(hart := fw_hw s)\<rparr>)))"

text \<open>The SBI extension: the feature is the low half of \<open>a0\<close>, as the parameter has the type of the enumeration.\<close>

definition sbi_ecall_fwft_handler :: "ulong \<Rightarrow> ulong \<Rightarrow> ulong \<Rightarrow> ulong \<Rightarrow> fwft_hart \<Rightarrow> int \<times> ulong \<times> fwft_hart" where
  "sbi_ecall_fwft_handler funcid a0 a1 a2 s =
    (if funcid = 0 then (case sbi_fwft_set (ucast a0) a1 a2 s of (ret, s) \<Rightarrow> (ret, 0, s))
     else if funcid = 1 then (case sbi_fwft_get (ucast a0) s of (ret, v) \<Rightarrow> (ret, v, s))
     else (SBI_ENOTSUPP, 0, s))"

end
