(* ===== verification/Sbi_Ecall.thy ===== *)
theory Sbi_Ecall
  imports Sbi_Trap Sbi_Fwft
begin

unbundle bit_operations_syntax

text \<open>
  SBI calls, \<open>lib/sbi/sbi_ecall.c\<close>: the list of registered extensions, the dispatch of a call to the extension that owns its id, and
  the registers the supervisor gets back; with the base extension, the vendor extension and the registration of all extensions of
  the build at boot.

  An extension is named by a value of the type \<open>'e\<close>, which stands for the address of its \<open>struct sbi_ecall_extension\<close>; \<open>None\<close> is
  the NULL pointer. The function pointers \<open>handle\<close> and \<open>probe\<close> of a struct are represented by whether they are set; \<open>call e\<close> and
  \<open>probe e\<close>, arguments of the definitions, are the functions themselves. The list is the list of the structs in the order of
  \<open>ecall_exts_list\<close>, whose pointer operations are those of \<open>Sbi_List\<close>.
\<close>

subsection \<open>The registry\<close>

record sbi_ecall_return =
  skip_regs_update :: bool
  out_value :: ulong

record sbi_ecall_extension =
  extid_start :: ulong
  extid_end :: ulong
  experimental :: bool
  has_handle :: bool
  has_probe :: bool

record 'e ecall_globals =
  ecall_impid :: ulong
  ecall_exts_list :: "'e list"
  ext_of :: "'e \<Rightarrow> sbi_ecall_extension"

definition sbi_ecall_get_impid :: "'e ecall_globals \<Rightarrow> ulong" where
  "sbi_ecall_get_impid g = ecall_impid g"

definition sbi_ecall_set_impid :: "ulong \<Rightarrow> 'e ecall_globals \<Rightarrow> 'e ecall_globals" where
  "sbi_ecall_set_impid impid g = g\<lparr>ecall_impid := impid\<rparr>"

definition ext_covers :: "sbi_ecall_extension \<Rightarrow> ulong \<Rightarrow> bool" where
  "ext_covers x extid \<longleftrightarrow> extid_start x \<le> extid \<and> extid \<le> extid_end x"

fun find_walk :: "('e \<Rightarrow> sbi_ecall_extension) \<Rightarrow> ulong \<Rightarrow> 'e list \<Rightarrow> 'e option" where
  "find_walk x extid [] = None"
| "find_walk x extid (t # ts) = (if ext_covers (x t) extid then Some t else find_walk x extid ts)"

definition sbi_ecall_find_extension :: "ulong \<Rightarrow> 'e ecall_globals \<Rightarrow> 'e option" where
  "sbi_ecall_find_extension extid g = find_walk (ext_of g) extid (ecall_exts_list g)"

fun overlap_walk :: "('e \<Rightarrow> sbi_ecall_extension) \<Rightarrow> sbi_ecall_extension \<Rightarrow> 'e list \<Rightarrow> bool" where
  "overlap_walk x e [] = False"
| "overlap_walk x e (t # ts) =
    (if extid_end (x t) < extid_start e \<or> extid_end e < extid_start (x t) then overlap_walk x e ts else True)"

definition sbi_ecall_register_extension :: "'e option \<Rightarrow> 'e ecall_globals \<Rightarrow> int \<times> 'e ecall_globals" where
  "sbi_ecall_register_extension ext g =
    (case ext of
      None \<Rightarrow> (SBI_EINVAL, g)
    | Some e \<Rightarrow>
        if extid_end (ext_of g e) < extid_start (ext_of g e) \<or> \<not> has_handle (ext_of g e) then (SBI_EINVAL, g)
        else if overlap_walk (ext_of g) (ext_of g e) (ecall_exts_list g) then (SBI_EINVAL, g)
        else (0, g\<lparr>ecall_exts_list := ecall_exts_list g @ [e]\<rparr>))"

definition sbi_ecall_unregister_extension :: "'e option \<Rightarrow> 'e ecall_globals \<Rightarrow> 'e ecall_globals" where
  "sbi_ecall_unregister_extension ext g =
    (case ext of
      None \<Rightarrow> g
    | Some e \<Rightarrow> if e \<in> set (ecall_exts_list g) then g\<lparr>ecall_exts_list := remove1 e (ecall_exts_list g)\<rparr> else g)"

subsection \<open>The call\<close>

definition SBI_LAST_ERR :: int where [simp, sbi_defs]: "SBI_LAST_ERR = -14"
definition SBI_SUCCESS :: int where [simp, sbi_defs]: "SBI_SUCCESS = 0"
definition SBI_EXT_0_1_SET_TIMER :: ulong where [simp, sbi_defs]: "SBI_EXT_0_1_SET_TIMER = 0"
definition SBI_EXT_0_1_CONSOLE_GETCHAR :: ulong where [simp, sbi_defs]: "SBI_EXT_0_1_CONSOLE_GETCHAR = 2"
definition SBI_EXT_0_1_SHUTDOWN :: ulong where [simp, sbi_defs]: "SBI_EXT_0_1_SHUTDOWN = 8"

text \<open>A handler gets the extension and function ids and the trap registers; it returns its code, what it stored in \<open>out\<close>, the
  registers and the state of the firmware.\<close>

type_synonym 's handler =
  "ulong \<Rightarrow> ulong \<Rightarrow> sbi_trap_context \<Rightarrow> 's \<Rightarrow> int \<times> sbi_ecall_return \<times> sbi_trap_context \<times> 's"

definition no_out :: sbi_ecall_return where "no_out = \<lparr>skip_regs_update = False, out_value = 0\<rparr>"

definition bad_code :: "ulong \<Rightarrow> int \<Rightarrow> bool" where
  "bad_code extid ret \<longleftrightarrow> ret < SBI_LAST_ERR \<or> extid \<noteq> SBI_EXT_0_1_CONSOLE_GETCHAR \<and> SBI_SUCCESS < ret"

definition ecall_regs :: "bool \<Rightarrow> int \<Rightarrow> ulong \<Rightarrow> sbi_trap_context \<Rightarrow> sbi_trap_context" where
  "ecall_regs is_0_1_spec ret v t =
    (let t = t\<lparr>tc_mepc := tc_mepc t + 4\<rparr>;
         t = t\<lparr>tc_gpr := (tc_gpr t)(10 := word_of_int ret)\<rparr>
     in if is_0_1_spec then t else t\<lparr>tc_gpr := (tc_gpr t)(11 := v)\<rparr>)"

definition sbi_ecall_handler ::
  "('e \<Rightarrow> 's handler) \<Rightarrow> 'e ecall_globals \<Rightarrow> sbi_trap_context \<Rightarrow> 's \<Rightarrow> int \<times> sbi_trap_context \<times> 's" where
  "sbi_ecall_handler call g t s =
    (let extension_id = tc_gpr t 17; func_id = tc_gpr t 16;
         (ret, out, t, s, is_0_1_spec) =
           (case sbi_ecall_find_extension extension_id g of
             Some e \<Rightarrow>
               if has_handle (ext_of g e) then
                 (case call e extension_id func_id t s of (ret, out, t, s) \<Rightarrow>
                   (ret, out, t, s, SBI_EXT_0_1_SET_TIMER \<le> extension_id \<and> extension_id \<le> SBI_EXT_0_1_SHUTDOWN))
               else (SBI_ENOTSUPP, no_out, t, s, False)
           | None \<Rightarrow> (SBI_ENOTSUPP, no_out, t, s, False))
     in if skip_regs_update out then (0, t, s)
        else
          let ret = (if bad_code extension_id ret then SBI_EFAIL else ret)
          in (0, ecall_regs is_0_1_spec ret (out_value out) t, s))"

subsection \<open>The base extension\<close>

definition SBI_ECALL_VERSION_MAJOR :: ulong where [simp, sbi_defs]: "SBI_ECALL_VERSION_MAJOR = 2"
definition SBI_ECALL_VERSION_MINOR :: ulong where [simp, sbi_defs]: "SBI_ECALL_VERSION_MINOR = 0"
definition SBI_SPEC_VERSION_MAJOR_OFFSET :: nat where [simp, sbi_defs]: "SBI_SPEC_VERSION_MAJOR_OFFSET = 24"
definition SBI_SPEC_VERSION_MAJOR_MASK :: ulong where [simp, sbi_defs]: "SBI_SPEC_VERSION_MAJOR_MASK = 0x7f"
definition OPENSBI_VERSION :: ulong where [sbi_defs]: "OPENSBI_VERSION = push_bit 16 1 OR 6"

record machine_ids =
  mvendorid :: ulong
  marchid :: ulong
  mimpid :: ulong

text \<open>\<open>probe e extid\<close> is the result and the value the \<open>probe\<close> callback of \<open>e\<close> gives.\<close>

definition sbi_ecall_base_probe :: "('e \<Rightarrow> ulong \<Rightarrow> int \<times> ulong) \<Rightarrow> 'e ecall_globals \<Rightarrow> ulong \<Rightarrow> int \<times> ulong" where
  "sbi_ecall_base_probe probe g extid =
    (case sbi_ecall_find_extension extid g of
      None \<Rightarrow> (0, 0)
    | Some e \<Rightarrow> if has_probe (ext_of g e) then probe e extid else (0, 1))"

definition sbi_ecall_base_handler ::
  "('e \<Rightarrow> ulong \<Rightarrow> int \<times> ulong) \<Rightarrow> machine_ids \<Rightarrow> 'e ecall_globals \<Rightarrow> 's handler" where
  "sbi_ecall_base_handler probe m g extid funcid t s =
    (let (ret, v) =
       (if funcid = 0 then
          (0, (push_bit SBI_SPEC_VERSION_MAJOR_OFFSET SBI_ECALL_VERSION_MAJOR AND
               push_bit SBI_SPEC_VERSION_MAJOR_OFFSET SBI_SPEC_VERSION_MAJOR_MASK) OR SBI_ECALL_VERSION_MINOR)
        else if funcid = 1 then (0, sbi_ecall_get_impid g)
        else if funcid = 2 then (0, OPENSBI_VERSION)
        else if funcid = 4 then (0, mvendorid m)
        else if funcid = 5 then (0, marchid m)
        else if funcid = 6 then (0, mimpid m)
        else if funcid = 3 then sbi_ecall_base_probe probe g (tc_gpr t 10)
        else (SBI_ENOTSUPP, 0))
     in (ret, \<lparr>skip_regs_update = False, out_value = v\<rparr>, t, s))"

subsection \<open>The extensions of the build\<close>

datatype ecall_ext = Ecall_time | Ecall_rfence | Ecall_ipi | Ecall_base | Ecall_hsm | Ecall_srst | Ecall_susp | Ecall_pmu
  | Ecall_dbcn | Ecall_cppc | Ecall_fwft | Ecall_legacy | Ecall_vendor | Ecall_dbtr | Ecall_sse | Ecall_mpxy

definition SBI_EXT_VENDOR_START :: ulong where [simp, sbi_defs]: "SBI_EXT_VENDOR_START = 0x09000000"
definition SBI_EXT_VENDOR_END :: ulong where [simp, sbi_defs]: "SBI_EXT_VENDOR_END = 0x09FFFFFF"

text \<open>The static structs: first and last id, and whether the extension is experimental. All have a handler, none a \<open>probe\<close>.\<close>

fun ext_ids :: "ecall_ext \<Rightarrow> ulong \<times> ulong" where
  "ext_ids Ecall_time = (0x54494D45, 0x54494D45)"
| "ext_ids Ecall_rfence = (0x52464E43, 0x52464E43)"
| "ext_ids Ecall_ipi = (0x735049, 0x735049)"
| "ext_ids Ecall_base = (0x10, 0x10)"
| "ext_ids Ecall_hsm = (0x48534D, 0x48534D)"
| "ext_ids Ecall_srst = (0x53525354, 0x53525354)"
| "ext_ids Ecall_susp = (0x53555350, 0x53555350)"
| "ext_ids Ecall_pmu = (0x504D55, 0x504D55)"
| "ext_ids Ecall_dbcn = (0x4442434E, 0x4442434E)"
| "ext_ids Ecall_cppc = (0x43505043, 0x43505043)"
| "ext_ids Ecall_fwft = (0x46574654, 0x46574654)"
| "ext_ids Ecall_legacy = (SBI_EXT_0_1_SET_TIMER, SBI_EXT_0_1_SHUTDOWN)"
| "ext_ids Ecall_vendor = (SBI_EXT_VENDOR_START, SBI_EXT_VENDOR_END)"
| "ext_ids Ecall_dbtr = (0x44425452, 0x44425452)"
| "ext_ids Ecall_sse = (0x535345, 0x535345)"
| "ext_ids Ecall_mpxy = (0x4D505859, 0x4D505859)"

definition static_ext :: "ecall_ext \<Rightarrow> sbi_ecall_extension" where
  "static_ext e = \<lparr>extid_start = fst (ext_ids e), extid_end = snd (ext_ids e),
    experimental = (e \<in> {Ecall_fwft, Ecall_dbtr, Ecall_sse, Ecall_mpxy}), has_handle = True, has_probe = False\<rparr>"

definition ecall_start :: "ecall_ext ecall_globals" where
  "ecall_start = \<lparr>ecall_impid = 1, ecall_exts_list = [], ext_of = static_ext\<rparr>"

definition sbi_ecall_vendor_id :: "machine_ids \<Rightarrow> ulong" where
  "sbi_ecall_vendor_id m = SBI_EXT_VENDOR_START + (mvendorid m AND (SBI_EXT_VENDOR_END - SBI_EXT_VENDOR_START))"

text \<open>
  The \<open>register_extensions\<close> callbacks. \<open>usable e\<close> stands for the test some of them make first: a reset or suspend device that supports
  some type, a console, CPPC or message-proxy device, debug triggers, a vendor extension of the platform.
\<close>

definition register_extensions :: "(ecall_ext \<Rightarrow> bool) \<Rightarrow> machine_ids \<Rightarrow> ecall_ext \<Rightarrow> ecall_ext ecall_globals \<Rightarrow> int \<times> ecall_ext ecall_globals"
where
  "register_extensions usable m e g =
    (if e \<in> {Ecall_srst, Ecall_susp, Ecall_dbcn, Ecall_cppc, Ecall_dbtr, Ecall_mpxy} then
       if \<not> usable e then (0, g) else sbi_ecall_register_extension (Some e) g
     else if e = Ecall_vendor then
       if \<not> usable e then (0, g)
       else
         let extid = sbi_ecall_vendor_id m;
             g = g\<lparr>ext_of := (ext_of g)(e := (ext_of g e)\<lparr>extid_start := extid, extid_end := extid\<rparr>)\<rparr>
         in sbi_ecall_register_extension (Some e) g
     else sbi_ecall_register_extension (Some e) g)"

text \<open>\<open>sbi_ecall_init\<close> on the array \<open>sbi_ecall_exts\<close>, which the build makes from the configuration.\<close>

fun sbi_ecall_init ::
  "(ecall_ext \<Rightarrow> bool) \<Rightarrow> machine_ids \<Rightarrow> ecall_ext list \<Rightarrow> ecall_ext ecall_globals \<Rightarrow> int \<times> ecall_ext ecall_globals" where
  "sbi_ecall_init usable m [] g = (0, g)"
| "sbi_ecall_init usable m (e # es) g =
    (case register_extensions usable m e g of (ret, g) \<Rightarrow> if ret \<noteq> 0 then (ret, g) else sbi_ecall_init usable m es g)"

subsection \<open>The registry stays consistent\<close>

text \<open>Each registered extension has a handler and a non-empty range of ids, and no two ranges meet.\<close>

definition disjoint_ids :: "sbi_ecall_extension \<Rightarrow> sbi_ecall_extension \<Rightarrow> bool" where
  "disjoint_ids x y \<longleftrightarrow> extid_end x < extid_start y \<or> extid_end y < extid_start x"

definition ecall_inv :: "'e ecall_globals \<Rightarrow> bool" where
  "ecall_inv g \<longleftrightarrow>
    (\<forall>e \<in> set (ecall_exts_list g). extid_start (ext_of g e) \<le> extid_end (ext_of g e) \<and> has_handle (ext_of g e)) \<and>
    sorted_wrt (\<lambda>e f. disjoint_ids (ext_of g e) (ext_of g f)) (ecall_exts_list g)"

lemma disjoint_sym: "disjoint_ids x y \<longleftrightarrow> disjoint_ids y x"
  by (auto simp: disjoint_ids_def)

lemma disjoint_covers: "disjoint_ids x y \<Longrightarrow> ext_covers x extid \<Longrightarrow> \<not> ext_covers y extid"
  by (auto simp: disjoint_ids_def ext_covers_def word_le_nat_alt word_less_nat_alt)

lemma overlap_walk_eq: "\<not> overlap_walk x e ts \<longleftrightarrow> (\<forall>t \<in> set ts. disjoint_ids (x t) e)"
  by (induction ts) (auto simp: disjoint_ids_def)

lemma register_inv: "ecall_inv g \<Longrightarrow> ecall_inv (snd (sbi_ecall_register_extension ext g))"
  by (cases ext) (auto simp: sbi_ecall_register_extension_def ecall_inv_def overlap_walk_eq sorted_wrt_append not_less)

lemma sorted_wrt_remove1: "sorted_wrt R xs \<Longrightarrow> sorted_wrt R (remove1 x xs)"
  by (induction xs) (auto dest: notin_set_remove1)

lemma unregister_inv: "ecall_inv g \<Longrightarrow> ecall_inv (sbi_ecall_unregister_extension ext g)"
proof (cases ext)
  case (Some e)
  assume "ecall_inv g"
  moreover have "f \<in> set (remove1 e (ecall_exts_list g)) \<Longrightarrow> f \<in> set (ecall_exts_list g)" for f
    by (meson notin_set_remove1)
  ultimately show ?thesis
    by (auto simp: Some sbi_ecall_unregister_extension_def ecall_inv_def intro: sorted_wrt_remove1)
qed (simp add: sbi_ecall_unregister_extension_def)

lemma find_walk_Some: "find_walk x extid ts = Some t \<Longrightarrow> t \<in> set ts \<and> ext_covers (x t) extid"
  by (induction ts) (auto split: if_splits)

lemma find_walk_unique:
  "sorted_wrt (\<lambda>e f. disjoint_ids (x e) (x f)) ts \<Longrightarrow> t \<in> set ts \<Longrightarrow> ext_covers (x t) extid \<Longrightarrow> find_walk x extid ts = Some t"
  by (induction ts) (auto dest: disjoint_covers)

lemma find_extension_iff:
  assumes "ecall_inv g"
  shows "sbi_ecall_find_extension extid g = Some e \<longleftrightarrow> e \<in> set (ecall_exts_list g) \<and> ext_covers (ext_of g e) extid"
  using assms find_walk_Some find_walk_unique by (fastforce simp: sbi_ecall_find_extension_def ecall_inv_def)

lemma inv_distinct: "ecall_inv g \<Longrightarrow> distinct (ecall_exts_list g)"
proof -
  have "sorted_wrt (\<lambda>e f. disjoint_ids (x e) (x f)) ts \<Longrightarrow> \<forall>e \<in> set ts. extid_start (x e) \<le> extid_end (x e) \<Longrightarrow> distinct ts"
    for x :: "'b \<Rightarrow> sbi_ecall_extension" and ts
    by (induction ts) (auto simp: disjoint_ids_def not_less [symmetric])
  then show "ecall_inv g \<Longrightarrow> distinct (ecall_exts_list g)" by (auto simp: ecall_inv_def)
qed

datatype 'e registry_op = Register 'e | Unregister 'e

fun registry_step :: "'e registry_op \<Rightarrow> 'e ecall_globals \<Rightarrow> 'e ecall_globals" where
  "registry_step (Register e) g = snd (sbi_ecall_register_extension (Some e) g)"
| "registry_step (Unregister e) g = sbi_ecall_unregister_extension (Some e) g"

lemma registry_steps_inv: "ecall_inv g \<Longrightarrow> ecall_inv (fold registry_step ops g)"
proof (induction ops arbitrary: g)
  case (Cons o' ops)
  have "ecall_inv (registry_step o' g)"
    using Cons.prems by (cases o') (simp_all add: register_inv unregister_inv)
  then show ?case using Cons.IH by simp
qed simp

subsection \<open>Boot\<close>

text \<open>The ids an extension answers to after boot, and whether it is registered.\<close>

definition owns :: "machine_ids \<Rightarrow> ecall_ext \<Rightarrow> ulong \<Rightarrow> bool" where
  "owns m e extid \<longleftrightarrow> (if e = Ecall_vendor then extid = sbi_ecall_vendor_id m else fst (ext_ids e) \<le> extid \<and> extid \<le> snd (ext_ids e))"

definition wanted :: "(ecall_ext \<Rightarrow> bool) \<Rightarrow> ecall_ext \<Rightarrow> bool" where
  "wanted usable e \<longleftrightarrow>
    (e \<in> {Ecall_srst, Ecall_susp, Ecall_dbcn, Ecall_cppc, Ecall_dbtr, Ecall_mpxy, Ecall_vendor} \<longrightarrow> usable e)"

definition boot_range :: "machine_ids \<Rightarrow> ecall_ext \<Rightarrow> ulong \<times> ulong" where
  "boot_range m e = (if e = Ecall_vendor then (sbi_ecall_vendor_id m, sbi_ecall_vendor_id m) else ext_ids e)"

lemma vendor_id_range: "0x09000000 \<le> unat (sbi_ecall_vendor_id m)" "unat (sbi_ecall_vendor_id m) \<le> 0x09FFFFFF"
proof -
  have "mvendorid m AND 0xFFFFFF \<le> 0xFFFFFF" by (rule word_and_le1)
  then have "unat (mvendorid m AND 0xFFFFFF) \<le> 0xFFFFFF" by (simp add: word_le_nat_alt)
  moreover have "unat (0x09000000 + (mvendorid m AND 0xFFFFFF)) = unat (0x09000000 :: ulong) + unat (mvendorid m AND 0xFFFFFF)"
    using calculation by (intro unat_add_nowrap) simp
  ultimately show "0x09000000 \<le> unat (sbi_ecall_vendor_id m)" "unat (sbi_ecall_vendor_id m) \<le> 0x09FFFFFF"
    by (simp_all add: sbi_ecall_vendor_id_def)
qed

lemma boot_ranges:
  "fst (boot_range m e) \<le> snd (boot_range m e)"
  "e \<noteq> f \<Longrightarrow> snd (boot_range m e) < fst (boot_range m f) \<or> snd (boot_range m f) < fst (boot_range m e)"
proof -
  show "fst (boot_range m e) \<le> snd (boot_range m e)" by (cases e) (simp_all add: boot_range_def)
  have v: "e \<noteq> Ecall_vendor \<Longrightarrow> snd (ext_ids e) < sbi_ecall_vendor_id m \<or> sbi_ecall_vendor_id m < fst (ext_ids e)" for e
    using vendor_id_range [of m] by (cases e) (simp_all add: word_less_nat_alt)
  have o: "e \<noteq> f \<Longrightarrow> e \<noteq> Ecall_vendor \<Longrightarrow> f \<noteq> Ecall_vendor \<Longrightarrow>
      snd (ext_ids e) < fst (ext_ids f) \<or> snd (ext_ids f) < fst (ext_ids e)"
    by (cases e; cases f; simp)
  show "e \<noteq> f \<Longrightarrow> snd (boot_range m e) < fst (boot_range m f) \<or> snd (boot_range m f) < fst (boot_range m e)"
    using v [of e] v [of f] o by (auto simp: boot_range_def)
qed

text \<open>The registry after the extensions \<open>ds\<close> have been registered.\<close>

definition booted_ext :: "(ecall_ext \<Rightarrow> bool) \<Rightarrow> machine_ids \<Rightarrow> ecall_ext list \<Rightarrow> ecall_ext \<Rightarrow> sbi_ecall_extension" where
  "booted_ext usable m ds e =
    (if e \<in> set ds \<and> wanted usable e
     then (static_ext e)\<lparr>extid_start := fst (boot_range m e), extid_end := snd (boot_range m e)\<rparr> else static_ext e)"

definition booted :: "(ecall_ext \<Rightarrow> bool) \<Rightarrow> machine_ids \<Rightarrow> ecall_ext list \<Rightarrow> ecall_ext ecall_globals" where
  "booted usable m ds =
    \<lparr>ecall_impid = 1, ecall_exts_list = filter (wanted usable) ds, ext_of = booted_ext usable m ds\<rparr>"

lemma static_ranged: "e \<noteq> Ecall_vendor \<Longrightarrow> (static_ext e)\<lparr>extid_start := fst (boot_range m e), extid_end := snd (boot_range m e)\<rparr> = static_ext e"
  by (simp add: static_ext_def boot_range_def)

lemma register_booted:
  assumes new: "e \<notin> set ds" and w: "wanted usable e"
    and x: "ext_of g = (booted_ext usable m ds)(e := (static_ext e)\<lparr>extid_start := fst (boot_range m e), extid_end := snd (boot_range m e)\<rparr>)"
    and l: "ecall_exts_list g = filter (wanted usable) ds" "ecall_impid g = 1"
  shows "sbi_ecall_register_extension (Some e) g = (0, booted usable m (ds @ [e]))"
proof -
  have "disjoint_ids (ext_of g t) (ext_of g e)" if "t \<in> set (filter (wanted usable) ds)" for t
  proof -
    have "t \<noteq> e" using that new by auto
    then show ?thesis using boot_ranges(2) [of t e m] that by (auto simp: x booted_ext_def disjoint_ids_def)
  qed
  then have "\<not> overlap_walk (ext_of g) (ext_of g e) (ecall_exts_list g)" by (simp add: overlap_walk_eq l)
  moreover have "extid_start (ext_of g e) \<le> extid_end (ext_of g e)" "has_handle (ext_of g e)"
    using boot_ranges(1) [of m e] by (simp_all add: x static_ext_def)
  moreover have "ext_of g = booted_ext usable m (ds @ [e])" using w by (auto simp: x booted_ext_def fun_eq_iff)
  ultimately show ?thesis
    using l w by (simp add: sbi_ecall_register_extension_def booted_def not_less [symmetric])
qed

lemma register_extensions_booted:
  assumes "e \<notin> set ds"
  shows "register_extensions usable m e (booted usable m ds) = (0, booted usable m (ds @ [e]))"
proof (cases "wanted usable e")
  case False
  then have "booted usable m (ds @ [e]) = booted usable m ds" by (auto simp: booted_def booted_ext_def fun_eq_iff)
  then show ?thesis using False by (auto simp: register_extensions_def wanted_def)
next
  case True
  show ?thesis
  proof (cases "e = Ecall_vendor")
    case False
    have "ext_of (booted usable m ds) =
        (booted_ext usable m ds)(e := (static_ext e)\<lparr>extid_start := fst (boot_range m e), extid_end := snd (boot_range m e)\<rparr>)"
      using assms by (simp add: booted_def static_ranged [OF False] fun_eq_iff booted_ext_def)
    then have "sbi_ecall_register_extension (Some e) (booted usable m ds) = (0, booted usable m (ds @ [e]))"
      by (rule register_booted [OF assms True]) (simp_all add: booted_def)
    then show ?thesis using True False by (auto simp: register_extensions_def wanted_def)
  next
    case vendor: True
    let ?g = "(booted usable m ds)\<lparr>ext_of := (ext_of (booted usable m ds))(e := (ext_of (booted usable m ds) e)
      \<lparr>extid_start := sbi_ecall_vendor_id m, extid_end := sbi_ecall_vendor_id m\<rparr>)\<rparr>"
    have "sbi_ecall_register_extension (Some e) ?g = (0, booted usable m (ds @ [e]))"
      by (rule register_booted [OF assms True]) (use assms vendor in \<open>simp_all add: booted_def booted_ext_def boot_range_def\<close>)
    then show ?thesis using True vendor by (simp add: register_extensions_def wanted_def Let_def)
  qed
qed

lemma ecall_init_booted:
  "distinct (ds @ es) \<Longrightarrow> sbi_ecall_init usable m es (booted usable m ds) = (0, booted usable m (ds @ es))"
proof (induction es arbitrary: ds)
  case (Cons e es)
  then show ?case using register_extensions_booted [of e ds usable m] Cons.IH [of "ds @ [e]"] by simp
qed simp

lemma booted_start: "ecall_start = booted usable m []"
  by (simp add: ecall_start_def booted_def booted_ext_def fun_eq_iff)

lemma booted_inv: "distinct ds \<Longrightarrow> ecall_inv (booted usable m ds)"
proof -
  assume d: "distinct ds"
  have "distinct xs \<Longrightarrow> sorted_wrt (\<lambda>e f. e \<noteq> f) xs" for xs :: "ecall_ext list" by (induction xs) auto
  then have "sorted_wrt (\<lambda>e f. e \<noteq> f) (filter (wanted usable) ds)" using d by simp
  then have "sorted_wrt (\<lambda>e f. disjoint_ids (booted_ext usable m ds e) (booted_ext usable m ds f)) (filter (wanted usable) ds)"
    by (rule sorted_wrt_mono_rel [rotated]) (use boot_ranges(2) [of _ _ m] in \<open>auto simp: booted_ext_def disjoint_ids_def\<close>)
  then show ?thesis using boot_ranges(1) [of m] by (auto simp: ecall_inv_def booted_def booted_ext_def static_ext_def)
qed

lemma booted_find:
  assumes "distinct es"
  shows "sbi_ecall_find_extension extid (booted usable m es) = Some e \<longleftrightarrow> e \<in> set es \<and> wanted usable e \<and> owns m e extid"
proof -
  have "wanted usable e \<Longrightarrow> e \<in> set es \<Longrightarrow> ext_covers (booted_ext usable m es e) extid \<longleftrightarrow> owns m e extid"
    by (auto simp: ext_covers_def booted_ext_def boot_range_def owns_def)
  then show ?thesis using find_extension_iff [OF booted_inv [OF assms]] by (auto simp: booted_def)
qed

subsection \<open>Properties\<close>

text \<open>C15: The registry of SBI extensions never becomes ambiguous: after any sequence of registrations and unregistrations, started with
  the empty list, the ranges of the registered extensions are non-empty and pairwise disjoint, each has a handler, none is in the list
  twice, and \<open>sbi_ecall_find_extension\<close> returns an extension exactly when it is registered and owns the id.\<close>

theorem ecall_registry_unique:
  fixes g0 :: "'e ecall_globals"
  assumes "ecall_exts_list g0 = []"
  shows "let g = fold registry_step ops g0 in
    ecall_inv g \<and> distinct (ecall_exts_list g) \<and>
    (\<forall>extid e. sbi_ecall_find_extension extid g = Some e \<longleftrightarrow> e \<in> set (ecall_exts_list g) \<and> ext_covers (ext_of g e) extid)"
proof -
  have "ecall_inv (fold registry_step ops g0)" using assms by (intro registry_steps_inv) (simp add: ecall_inv_def)
  then show ?thesis using inv_distinct find_extension_iff by (metis (no_types, lifting))
qed

theorem ecall_registry_unique_witness:
  "ecall_exts_list ecall_start = [] \<and>
   ecall_exts_list (fold registry_step [Register Ecall_base, Register Ecall_time, Register Ecall_base, Unregister Ecall_base] ecall_start)
     = [Ecall_time] \<and>
   sbi_ecall_find_extension 0x54494D45
     (fold registry_step [Register Ecall_base, Register Ecall_time, Register Ecall_base, Unregister Ecall_base] ecall_start) = Some Ecall_time"
proof -
  let ?g = "fold registry_step [Register Ecall_base, Register Ecall_time, Register Ecall_base, Unregister Ecall_base] ecall_start"
  have s: "ecall_exts_list ecall_start = []" by (simp add: ecall_start_def)
  have l: "ecall_exts_list ?g = [Ecall_time]" "ext_of ?g = static_ext"
    by (simp_all add: ecall_start_def sbi_ecall_register_extension_def sbi_ecall_unregister_extension_def static_ext_def)
  have "ext_covers (ext_of ?g Ecall_time) 0x54494D45" by (simp only: l ext_covers_def) (simp add: static_ext_def)
  then have "sbi_ecall_find_extension 0x54494D45 ?g = Some Ecall_time"
    using ecall_registry_unique [OF s, of "[Register Ecall_base, Register Ecall_time, Register Ecall_base, Unregister Ecall_base]"] l(1)
    by (simp add: Let_def)
  then show ?thesis using s l(1) by blast
qed

text \<open>What the supervisor finds in its registers, for the code, the value and the registers the handler left.\<close>

definition call_returns :: "ulong \<Rightarrow> int \<Rightarrow> sbi_ecall_return \<Rightarrow> sbi_trap_context \<Rightarrow> sbi_trap_context \<Rightarrow> bool" where
  "call_returns extid r out t1 t' \<longleftrightarrow>
    (if skip_regs_update out then t' = t1
     else tc_mepc t' = tc_mepc t1 + 4 \<and> tc_mstatus t' = tc_mstatus t1 \<and>
       tc_gpr t' 10 = (if -14 \<le> r \<and> (r \<le> 0 \<or> extid = 2) then word_of_int r else -1) \<and>
       tc_gpr t' 11 = (if extid \<le> 8 then tc_gpr t1 11 else out_value out) \<and>
       (\<forall>i. i \<noteq> 10 \<and> i \<noteq> 11 \<longrightarrow> tc_gpr t' i = tc_gpr t1 i))"

lemma ecall_regs_returns:
  "\<not> skip_regs_update out \<Longrightarrow>
    call_returns extid r out t1 (ecall_regs (extid \<le> 8) (if bad_code extid r then SBI_EFAIL else r) (out_value out) t1)"
proof -
  have c: "bad_code extid r \<longleftrightarrow> \<not> (-14 \<le> r \<and> (r \<le> 0 \<or> extid = 2))" by (auto simp: bad_code_def)
  show "\<not> skip_regs_update out \<Longrightarrow> ?thesis"
    unfolding call_returns_def c by (cases "extid \<le> 8") (simp_all add: ecall_regs_def Let_def)
qed

text \<open>C14: SBI calls after boot: registration of the configured extensions always succeeds, and a call reaches exactly the extension that owns
  the id in \<open>a7\<close> and was registered. Unless the handler asks to leave the registers alone, \<open>mepc\<close> moves past the \<open>ecall\<close>, \<open>a0\<close> holds the
  handler's code, or \<open>SBI_ERR_FAILED\<close> for one that is not a code of the interface, and \<open>a1\<close> the value, which the calls of version 0.1 leave
  alone. A call nobody owns returns \<open>SBI_ENOTSUPP\<close> and changes nothing else.\<close>

theorem ecall_call_outcome:
  assumes "distinct es" and init: "sbi_ecall_init usable m es ecall_start = (ret, g)"
    and call: "sbi_ecall_handler call g t s = (rc, t', s')"
  shows "ret = 0 \<and> rc = 0 \<and>
    (\<forall>e \<in> set es. wanted usable e \<and> owns m e (tc_gpr t 17) \<longrightarrow>
      (case call e (tc_gpr t 17) (tc_gpr t 16) t s of (r, out, t1, s1) \<Rightarrow> s' = s1 \<and> call_returns (tc_gpr t 17) r out t1 t')) \<and>
    (\<not> (\<exists>e \<in> set es. wanted usable e \<and> owns m e (tc_gpr t 17)) \<longrightarrow>
      s' = s \<and> t' = t\<lparr>tc_mepc := tc_mepc t + 4, tc_gpr := (tc_gpr t)(10 := word_of_int SBI_ENOTSUPP, 11 := 0)\<rparr>)"
proof -
  have g: "ret = 0" "g = booted usable m es"
    using init ecall_init_booted [of "[]" es usable m] assms(1) by (simp_all add: booted_start [of usable m])
  have found: "sbi_ecall_handler call g t s = (case call e (tc_gpr t 17) (tc_gpr t 16) t s of (r, out, t1, s1) \<Rightarrow>
      if skip_regs_update out then (0, t1, s1)
      else (0, ecall_regs (tc_gpr t 17 \<le> 8) (if bad_code (tc_gpr t 17) r then SBI_EFAIL else r) (out_value out) t1, s1))"
    if "e \<in> set es" "wanted usable e" "owns m e (tc_gpr t 17)" for e
  proof -
    have "sbi_ecall_find_extension (tc_gpr t 17) g = Some e" "has_handle (ext_of g e)"
      using booted_find [OF assms(1)] that by (simp_all add: g booted_def booted_ext_def static_ext_def)
    then show ?thesis by (simp add: sbi_ecall_handler_def Let_def split: prod.split)
  qed
  have missing: "sbi_ecall_find_extension (tc_gpr t 17) g = None"
    if "\<not> (\<exists>e \<in> set es. wanted usable e \<and> owns m e (tc_gpr t 17))"
    using booted_find [OF assms(1), of "tc_gpr t 17" usable m] that g(2) by (metis not_Some_eq)
  have rc: "rc = 0"
    using call by (auto simp: sbi_ecall_handler_def Let_def split: prod.splits if_splits option.splits)
  have out: "case call e (tc_gpr t 17) (tc_gpr t 16) t s of (r, out, t1, s1) \<Rightarrow> s' = s1 \<and> call_returns (tc_gpr t 17) r out t1 t'"
    if "e \<in> set es" "wanted usable e" "owns m e (tc_gpr t 17)" for e
  proof -
    obtain r out t1 s1 where r: "call e (tc_gpr t 17) (tc_gpr t 16) t s = (r, out, t1, s1)" by (metis prod_cases4)
    have "s' = s1" "t' = (if skip_regs_update out then t1
        else ecall_regs (tc_gpr t 17 \<le> 8) (if bad_code (tc_gpr t 17) r then SBI_EFAIL else r) (out_value out) t1)"
      using call found [OF that] by (simp_all add: r split: if_splits)
    then show ?thesis using ecall_regs_returns [of out "tc_gpr t 17" r t1] by (auto simp: r call_returns_def)
  qed
  have none: "s' = s \<and> t' = t\<lparr>tc_mepc := tc_mepc t + 4, tc_gpr := (tc_gpr t)(10 := word_of_int SBI_ENOTSUPP, 11 := 0)\<rparr>"
    if "\<not> (\<exists>e \<in> set es. wanted usable e \<and> owns m e (tc_gpr t 17))"
    using call missing [OF that] by (simp add: sbi_ecall_handler_def Let_def no_out_def bad_code_def ecall_regs_def)
  show ?thesis
    by (intro conjI ballI impI) (use g(1) rc in simp, use rc in simp, rule out, simp_all add: none del: fun_upd_apply)
qed

definition ex_ids :: machine_ids where
  "ex_ids = \<lparr>mvendorid = 0x5b7, marchid = 0, mimpid = 0\<rparr>"

definition ex_call :: "ecall_ext \<Rightarrow> unit handler" where
  "ex_call e extid funcid t s = sbi_ecall_base_handler (\<lambda>_ _. (0, 1)) ex_ids (booted (\<lambda>_. True) ex_ids [Ecall_base, Ecall_vendor]) extid funcid t s"

definition ex_tc :: sbi_trap_context where
  "ex_tc = \<lparr>tc_gpr = (\<lambda>_. 0)(10 := 0x90005b7, 16 := 3, 17 := 0x10), tc_mepc = 0x80200000, tc_mstatus = 0,
    tc_trap = \<lparr>cause = 9, tval = 0, tval2 = 0, tinst = 0, gva = False\<rparr>, tc_prev = 0\<rparr>"

text \<open>The supervisor probes the vendor extension of a platform that has one, by a call to the base extension.\<close>

theorem ecall_call_outcome_witness:
  "\<exists>g t'. sbi_ecall_init (\<lambda>_. True) ex_ids [Ecall_base, Ecall_vendor] ecall_start = (0, g) \<and>
    sbi_ecall_handler ex_call g ex_tc () = (0, t', ()) \<and> tc_mepc t' = 0x80200004 \<and> tc_gpr t' 10 = 0 \<and> tc_gpr t' 11 = 1"
proof -
  let ?es = "[Ecall_base, Ecall_vendor]"
  obtain ret g where g: "sbi_ecall_init (\<lambda>_. True) ex_ids ?es ecall_start = (ret, g)" by (metis surj_pair)
  obtain rc t' s' where c: "sbi_ecall_handler ex_call g ex_tc () = (rc, t', s')" by (metis prod_cases3)
  have "sbi_ecall_find_extension 0x90005b7 (booted (\<lambda>_. True) ex_ids ?es) = Some Ecall_vendor"
    by (subst booted_find) (simp_all add: owns_def wanted_def sbi_ecall_vendor_id_def ex_ids_def)
  then have call: "ex_call Ecall_base 0x10 3 ex_tc () = (0, \<lparr>skip_regs_update = False, out_value = 1\<rparr>, ex_tc, ())"
    by (simp add: ex_call_def sbi_ecall_base_handler_def ex_tc_def sbi_ecall_base_probe_def booted_def booted_ext_def static_ext_def wanted_def)
  have o: "wanted (\<lambda>_. True) Ecall_base" "owns ex_ids Ecall_base 0x10" "tc_gpr ex_tc 17 = 0x10" "tc_gpr ex_tc 16 = 3"
    by (simp_all add: wanted_def owns_def ex_tc_def)
  have "ret = 0 \<and> rc = 0 \<and> call_returns 0x10 0 \<lparr>skip_regs_update = False, out_value = 1\<rparr> ex_tc t'"
    using ecall_call_outcome [OF _ g c] o call by simp
  then show ?thesis using g c by (auto simp: call_returns_def ex_tc_def)
qed

end
