(* ===== verification/Sbi_Fwft_Spec.thy ===== *)
theory Sbi_Fwft_Spec
  imports Sbi_Fwft
begin

unbundle bit_operations_syntax

text \<open>
  What firmware features promise: a store of values with locks. The theory shows that the callbacks of each feature set and read
  their own bits of the CSRs, and that the calls on a hart implement the store.
\<close>

subsection \<open>The harts the calls are right on\<close>

text \<open>
  The instruction set guarantees that the bits of a feature are writable when the hart has the extension and that a write never
  leaves an illegal value in the pointer-masking field (\<open>fwft_hw_arch\<close>). It does not guarantee that misaligned accesses can
  be delegated: a hart may have S-mode and leave bits 4 and 6 of \<open>medeleg\<close> read-only. The code offers the feature on every
  hart with S-mode and never reads \<open>medeleg\<close> back, so the store of features is right only on a hart with these bits
  (\<open>misaligned_delegable\<close>); \<open>misaligned_deleg_unchecked\<close> below shows the failure on another hart. \<open>fwft_hw_ok\<close> asks for both.
\<close>

definition misaligned_delegable :: "fwft_hw \<Rightarrow> bool" where
  "misaligned_delegable h \<longleftrightarrow> (misa_S h \<longrightarrow> bit (medeleg_wr h) 4 \<and> bit (medeleg_wr h) 6)"

definition fwft_hw_arch :: "fwft_hw \<Rightarrow> bool" where
  "fwft_hw_arch h \<longleftrightarrow>
    (hext h SBI_HART_EXT_ZICFILP \<longrightarrow> bit (menvcfg_wr h) ENVCFG_LPE_SHIFT) \<and>
    (hext h SBI_HART_EXT_ZICFISS \<longrightarrow> bit (menvcfg_wr h) ENVCFG_SSE_SHIFT) \<and>
    (hext h SBI_HART_EXT_SSDBLTRP \<longrightarrow> bit (menvcfg_wr h) ENVCFG_DTE_SHIFT) \<and>
    (hext h SBI_HART_EXT_SVADU \<longrightarrow> bit (menvcfg_wr h) ENVCFG_ADUE_SHIFT) \<and>
    (\<forall>p v. pmm_legal h (pmm_other h p v)) \<and> pmm_legal h (menvcfg h AND ENVCFG_PMM)"

definition fwft_hw_ok :: "fwft_hw \<Rightarrow> bool" where
  "fwft_hw_ok h \<longleftrightarrow> misaligned_delegable h \<and> fwft_hw_arch h"

lemmas fwft_hw_ok_defs = fwft_hw_ok_def misaligned_delegable_def fwft_hw_arch_def

lemma bit_PMM [sbi_bits]: "bit ENVCFG_PMM k \<longleftrightarrow> k = 32 \<or> k = 33"
proof -
  have e: "ENVCFG_PMM = push_bit 32 (mask 2)" by (simp add: ENVCFG_PMM_def mask_eq_exp_minus_1)
  show ?thesis unfolding e bit_push_bit_iff bit_mask_iff by auto
qed

lemma pmm_legal_field: "pmm_legal h v \<Longrightarrow> v AND ENVCFG_PMM = v"
  by (auto simp: pmm_legal_def ENVCFG_PMM_PMLEN_0_def ENVCFG_PMM_PMLEN_7_def ENVCFG_PMM_PMLEN_16_def ENVCFG_PMM_def)

lemma pmm_legal_0 [simp]: "pmm_legal h 0"
  by (simp add: pmm_legal_def ENVCFG_PMM_PMLEN_0_def)

text \<open>The parameters of a hart do not change; with \<open>menvcfg\<close> and \<open>medeleg\<close> they determine its state.\<close>

definition same_hart :: "fwft_hw \<Rightarrow> fwft_hw \<Rightarrow> bool" where
  "same_hart h h' \<longleftrightarrow> h' = h\<lparr>menvcfg := menvcfg h', medeleg := medeleg h'\<rparr>"

lemma same_hart_writes [simp]: "same_hart h (menvcfg_write w h)" "same_hart h (medeleg_write w h)" "same_hart h h"
  by (simp_all add: same_hart_def menvcfg_write_def medeleg_write_def)

lemma menvcfg_write_other [simp]: "medeleg (menvcfg_write w h) = medeleg h" "menvcfg (medeleg_write w h) = menvcfg h"
  by (simp_all add: menvcfg_write_def medeleg_write_def)

lemma same_hart_params:
  assumes "same_hart h h'"
  shows "pmm_legal h' = pmm_legal h" "pmm_other h' = pmm_other h" "hext h' = hext h" "misa_S h' = misa_S h"
    "menvcfg_wr h' = menvcfg_wr h" "medeleg_wr h' = medeleg_wr h" "pmlen7 h' = pmlen7 h" "pmlen16 h' = pmlen16 h"
proof -
  obtain e d where "h' = h\<lparr>menvcfg := e, medeleg := d\<rparr>" using assms by (auto simp: same_hart_def)
  then show "pmm_legal h' = pmm_legal h" "pmm_other h' = pmm_other h" "hext h' = hext h" "misa_S h' = misa_S h"
    "menvcfg_wr h' = menvcfg_wr h" "medeleg_wr h' = medeleg_wr h" "pmlen7 h' = pmlen7 h" "pmlen16 h' = pmlen16 h"
    by (simp_all add: pmm_legal_def fun_eq_iff)
qed

lemma same_hart_trans: "same_hart a b \<Longrightarrow> same_hart b c \<Longrightarrow> same_hart a c"
proof -
  assume "same_hart a b" "same_hart b c"
  then obtain e d e' d' where "b = a\<lparr>menvcfg := e, medeleg := d\<rparr>" "c = b\<lparr>menvcfg := e', medeleg := d'\<rparr>"
    unfolding same_hart_def by blast
  then show ?thesis by (simp add: same_hart_def)
qed

lemma same_hart_eqI:
  "same_hart h h' \<Longrightarrow> menvcfg h' = menvcfg h \<Longrightarrow> medeleg h' = medeleg h \<Longrightarrow> h' = h"
  by (simp add: same_hart_def)

lemma held_legal: "fwft_hw_ok h \<Longrightarrow> pmm_legal h (pmm_held h v)"
  by (simp add: fwft_hw_ok_defs pmm_held_def)

lemma menvcfg_write_field:
  assumes "fwft_hw_ok h"
  shows "menvcfg (menvcfg_write w h) AND ENVCFG_PMM = pmm_held h (w AND ENVCFG_PMM)"
proof -
  have "menvcfg (menvcfg_write w h) AND ENVCFG_PMM = pmm_held h (w AND ENVCFG_PMM) AND ENVCFG_PMM"
    unfolding menvcfg_write_def by (rule bit_word_eqI) (auto simp: bit_simps)
  then show ?thesis using pmm_legal_field [OF held_legal [OF assms]] by simp
qed

lemma menvcfg_write_bit:
  "k \<noteq> 32 \<Longrightarrow> k \<noteq> 33 \<Longrightarrow>
    bit (menvcfg (menvcfg_write w h)) k \<longleftrightarrow> (if bit (menvcfg_wr h) k then bit w k else bit (menvcfg h) k)"
  unfolding menvcfg_write_def by (auto simp: bit_simps sbi_bits dest: bit_word_lt)

lemma fwft_ok_write:
  assumes "fwft_hw_ok h"
  shows "fwft_hw_ok (menvcfg_write w h)" "fwft_hw_ok (medeleg_write d h)"
proof -
  have "pmm_legal h (menvcfg (menvcfg_write w h) AND ENVCFG_PMM)"
    using menvcfg_write_field [OF assms] held_legal [OF assms] by simp
  then show "fwft_hw_ok (menvcfg_write w h)"
    using assms same_hart_params [OF same_hart_writes(1) [of h w]] by (simp add: fwft_hw_ok_defs)
  show "fwft_hw_ok (medeleg_write d h)"
    using assms same_hart_params [OF same_hart_writes(2) [of h d]] by (simp add: fwft_hw_ok_defs)
qed

text \<open>A word is given by its pointer-masking field and its other bits.\<close>

lemma menvcfg_eqI:
  assumes "a AND ENVCFG_PMM = b AND ENVCFG_PMM" and "\<And>k. k \<noteq> 32 \<Longrightarrow> k \<noteq> 33 \<Longrightarrow> bit a k = bit b k"
  shows "a = b"
proof (rule bit_word_eqI)
  fix k assume "k < LENGTH(64)"
  have "bit (a AND ENVCFG_PMM) k = bit (b AND ENVCFG_PMM) k" using assms(1) by simp
  then show "bit a k = bit b k" using assms(2) [of k] by (auto simp: bit_and_iff sbi_bits)
qed

subsection \<open>One feature\<close>

text \<open>The value of the feature with index \<open>i\<close>, whether it is supported, and the value a request for \<open>v\<close> gives it.\<close>

definition fwft_value :: "fwft_hw \<Rightarrow> nat \<Rightarrow> ulong" where
  "fwft_value h i =
    (if i = 0 then of_bool (bit (medeleg h) 4 \<or> bit (medeleg h) 6)
     else if i = 1 then of_bool (bit (menvcfg h) 2)
     else if i = 2 then of_bool (bit (menvcfg h) 3)
     else if i = 3 then of_bool (bit (menvcfg h) 59)
     else if i = 4 then of_bool (bit (menvcfg h) 61)
     else if bit (menvcfg h) 33 then if bit (menvcfg h) 32 then 16 else 7
     else 0)"

definition fwft_supported :: "fwft_hw \<Rightarrow> nat \<Rightarrow> bool" where
  "fwft_supported h i = (if i = 0 then misa_S h else if i = 1 then hext h 21 else if i = 2 then hext h 22
    else if i = 3 then hext h 23 else if i = 4 then hext h 19 else hext h 20)"

definition fwft_norm :: "fwft_hw \<Rightarrow> nat \<Rightarrow> ulong \<Rightarrow> ulong option" where
  "fwft_norm h i v =
    (if i < 5 then if v \<le> 1 then Some v else None
     else if v = 0 then Some 0
     else if v \<le> 7 \<and> pmlen7 h then Some 7
     else if v \<le> 16 \<and> pmlen16 h then Some 16
     else None)"

lemma and_push_bit_1: "k < 64 \<Longrightarrow> (w :: ulong) AND push_bit k 1 \<noteq> 0 \<longleftrightarrow> bit w k"
  by (auto simp: word_eq_0_iff_bit bit_simps)

lemma bit_MIS [sbi_bits]: "bit MIS_DELEG k \<longleftrightarrow> k = 4 \<or> k = 6"
  unfolding MIS_DELEG_def bit_or_iff bit_push_bit_iff bit_1_iff by auto

lemma and_MIS: "(w :: ulong) AND MIS_DELEG \<noteq> 0 \<longleftrightarrow> bit w 4 \<or> bit w 6"
proof -
  have "w AND MIS_DELEG \<noteq> 0 \<longleftrightarrow> (\<exists>n. bit (w AND MIS_DELEG) n)"
    by (auto simp: bit_eq_iff intro: exI bit_word_lt)
  then show ?thesis unfolding bit_and_iff bit_MIS by auto
qed

lemma word_le_1: "(v :: ulong) \<le> 1 \<longleftrightarrow> v = 0 \<or> v = 1"
proof -
  have "v \<le> 1 \<longleftrightarrow> unat v = 0 \<or> unat v = 1" unfolding word_le_nat_alt unat_1 by arith
  then show ?thesis by (simp add: word_unat_eq_iff)
qed

text \<open>A write that keeps the bits the hart would not let it change stores its value.\<close>

lemma menvcfg_write_eq:
  assumes ok: "fwft_hw_ok h" and leg: "pmm_legal h (w AND ENVCFG_PMM)"
    and agree: "\<And>k. k \<noteq> 32 \<Longrightarrow> k \<noteq> 33 \<Longrightarrow> \<not> bit (menvcfg_wr h) k \<Longrightarrow> bit w k = bit (menvcfg h) k"
  shows "menvcfg_write w h = h\<lparr>menvcfg := w\<rparr>"
proof -
  have "menvcfg (menvcfg_write w h) = w"
  proof (rule menvcfg_eqI)
    show "menvcfg (menvcfg_write w h) AND ENVCFG_PMM = w AND ENVCFG_PMM"
      using menvcfg_write_field [OF ok] leg by (simp add: pmm_held_def)
    show "bit (menvcfg (menvcfg_write w h)) k = bit w k" if "k \<noteq> 32" "k \<noteq> 33" for k
      using menvcfg_write_bit [OF that] agree [OF that] by simp
  qed
  then show ?thesis by (simp add: menvcfg_write_def)
qed

lemma set_bit_result:
  assumes ok: "fwft_hw_ok h" and wr: "bit (menvcfg_wr h) b" and b: "b < 64" "b \<noteq> 32" "b \<noteq> 33"
  shows "fwft_menvcfg_set_bit v b h =
    (if v \<le> 1 then (0, h\<lparr>menvcfg := if v = 1 then set_bit b (menvcfg h) else unset_bit b (menvcfg h)\<rparr>) else (SBI_EINVAL, h))"
proof -
  have f: "(menvcfg h OR push_bit b 1) AND ENVCFG_PMM = menvcfg h AND ENVCFG_PMM"
    "(menvcfg h AND NOT (push_bit b 1)) AND ENVCFG_PMM = menvcfg h AND ENVCFG_PMM"
    using b by (auto intro!: bit_word_eqI simp: bit_simps sbi_bits)
  have leg: "pmm_legal h (menvcfg h AND ENVCFG_PMM)" using ok by (simp add: fwft_hw_ok_defs)
  have "menvcfg_write (menvcfg h OR push_bit b 1) h = h\<lparr>menvcfg := menvcfg h OR push_bit b 1\<rparr>"
    by (rule menvcfg_write_eq [OF ok]) (use wr leg f in \<open>auto simp: bit_simps\<close>)
  moreover have "menvcfg_write (menvcfg h AND NOT (push_bit b 1)) h = h\<lparr>menvcfg := menvcfg h AND NOT (push_bit b 1)\<rparr>"
    by (rule menvcfg_write_eq [OF ok]) (use wr leg f in \<open>auto simp: bit_simps dest: bit_word_lt\<close>)
  ultimately show ?thesis
    by (simp add: fwft_menvcfg_set_bit_def word_le_1 set_bit_eq_or unset_bit_eq_and_not)
qed

definition pmm_enc :: "ulong \<Rightarrow> ulong" where
  "pmm_enc y = (if y = 0 then ENVCFG_PMM_PMLEN_0 else if y = 7 then ENVCFG_PMM_PMLEN_7 else ENVCFG_PMM_PMLEN_16)"

definition with_pmm :: "ulong \<Rightarrow> ulong \<Rightarrow> ulong" where
  "with_pmm e f = (e AND NOT ENVCFG_PMM) OR (f AND ENVCFG_PMM)"

lemma with_pmm_simps [simp]:
  "with_pmm e f AND ENVCFG_PMM = f AND ENVCFG_PMM" "with_pmm (with_pmm e f) g = with_pmm e g"
  "with_pmm e (e AND ENVCFG_PMM) = e" "with_pmm e (f AND ENVCFG_PMM) = with_pmm e f" "with_pmm e e = e"
  "with_pmm e f AND NOT ENVCFG_PMM = with_pmm e 0" "with_pmm e 0 OR (f AND ENVCFG_PMM) = with_pmm e f"
  unfolding with_pmm_def by (rule bit_word_eqI, auto simp: bit_simps)+

lemma bit_with_pmm: "k \<noteq> 32 \<Longrightarrow> k \<noteq> 33 \<Longrightarrow> bit (with_pmm e f) k = bit e k"
  by (auto simp: with_pmm_def bit_simps sbi_bits dest: bit_word_lt)

text \<open>A write that changes the pointer-masking field only.\<close>

lemma write_with_pmm:
  assumes ok: "fwft_hw_ok h"
  shows "menvcfg_write (with_pmm (menvcfg h) f) h = h\<lparr>menvcfg := with_pmm (menvcfg h) (pmm_held h (f AND ENVCFG_PMM))\<rparr>"
proof -
  have "menvcfg (menvcfg_write (with_pmm (menvcfg h) f) h) = with_pmm (menvcfg h) (pmm_held h (f AND ENVCFG_PMM))"
  proof (rule menvcfg_eqI)
    show "menvcfg (menvcfg_write (with_pmm (menvcfg h) f) h) AND ENVCFG_PMM =
        with_pmm (menvcfg h) (pmm_held h (f AND ENVCFG_PMM)) AND ENVCFG_PMM"
      using menvcfg_write_field [OF ok] pmm_legal_field [OF held_legal [OF ok]] by simp
    show "bit (menvcfg (menvcfg_write (with_pmm (menvcfg h) f) h)) k = bit (with_pmm (menvcfg h) (pmm_held h (f AND ENVCFG_PMM))) k"
      if "k \<noteq> 32" "k \<noteq> 33" for k
      using menvcfg_write_bit [OF that] bit_with_pmm [OF that] by simp
  qed
  then show ?thesis by (simp add: menvcfg_write_def)
qed

text \<open>The two attempts of \<open>fwft_set_pmlen\<close> start with an empty field; a failed one leaves some legal value in it.\<close>

lemma try_pmm:
  assumes ok: "fwft_hw_ok h" and e: "menvcfg h = with_pmm e 0" and f: "f AND ENVCFG_PMM = f"
  shows "fwft_try_to_set_pmm f h = (pmm_legal h f, h\<lparr>menvcfg := with_pmm e (pmm_held h f)\<rparr>)"
proof -
  have w: "menvcfg h OR f = with_pmm (menvcfg h) f" by (metis e f with_pmm_simps(2,7))
  have "pmm_held h f = f \<longleftrightarrow> pmm_legal h f" using held_legal [OF ok] by (metis pmm_held_def)
  then show ?thesis
    using pmm_legal_field [OF held_legal [OF ok], of f]
    by (simp add: fwft_try_to_set_pmm_def Let_def w write_with_pmm [OF ok] f) (simp add: e)
qed

lemma ok_with_menvcfg:
  "fwft_hw_ok h \<Longrightarrow> pmm_legal h f \<Longrightarrow> fwft_hw_ok (h\<lparr>menvcfg := with_pmm e f\<rparr>)"
  "pmm_legal (h\<lparr>menvcfg := e\<rparr>) = pmm_legal h"
proof -
  show l: "pmm_legal (h\<lparr>menvcfg := e\<rparr>) = pmm_legal h" for e by (simp add: pmm_legal_def fun_eq_iff)
  assume "fwft_hw_ok h" "pmm_legal h f"
  then show "fwft_hw_ok (h\<lparr>menvcfg := with_pmm e f\<rparr>)"
    unfolding fwft_hw_ok_defs l by (simp add: pmm_legal_field)
qed

lemma held_0 [simp]: "pmm_held h 0 = 0"
  by (simp add: pmm_held_def)

lemma clear_pmm:
  assumes "fwft_hw_ok h"
  shows "menvcfg_write (menvcfg h AND NOT ENVCFG_PMM) h = h\<lparr>menvcfg := with_pmm (menvcfg h) 0\<rparr>"
  using write_with_pmm [OF assms, of 0] by (simp add: with_pmm_def)

lemma pmm_values [simp]:
  "ENVCFG_PMM_PMLEN_7 AND ENVCFG_PMM = ENVCFG_PMM_PMLEN_7" "ENVCFG_PMM_PMLEN_16 AND ENVCFG_PMM = ENVCFG_PMM_PMLEN_16"
  "pmm_legal h ENVCFG_PMM_PMLEN_7 = pmlen7 h" "pmm_legal h ENVCFG_PMM_PMLEN_16 = pmlen16 h"
  by (simp_all add: pmm_legal_def ENVCFG_PMM_PMLEN_0_def ENVCFG_PMM_PMLEN_7_def ENVCFG_PMM_PMLEN_16_def ENVCFG_PMM_def)

lemma set_pmlen_16_result:
  assumes ok: "fwft_hw_ok h"
  shows "fwft_set_pmlen_16 (menvcfg h) (h\<lparr>menvcfg := with_pmm (menvcfg h) 0\<rparr>) =
    (if pmlen16 h then (0, h\<lparr>menvcfg := with_pmm (menvcfg h) ENVCFG_PMM_PMLEN_16\<rparr>) else (SBI_EINVAL, h))"
proof -
  let ?h = "h\<lparr>menvcfg := with_pmm (menvcfg h) 0\<rparr>" and ?v = "pmm_held (h\<lparr>menvcfg := with_pmm (menvcfg h) 0\<rparr>) ENVCFG_PMM_PMLEN_16"
  have ok0: "fwft_hw_ok ?h" using ok by (simp add: ok_with_menvcfg)
  have t: "fwft_try_to_set_pmm ENVCFG_PMM_PMLEN_16 ?h = (pmlen16 h, h\<lparr>menvcfg := with_pmm (menvcfg h) ?v\<rparr>)"
    using try_pmm [OF ok0, of "menvcfg h" ENVCFG_PMM_PMLEN_16] by simp
  have leg: "pmm_legal h ?v" using held_legal [OF ok0] by (simp add: ok_with_menvcfg)
  have "menvcfg_write (menvcfg h) (h\<lparr>menvcfg := with_pmm (menvcfg h) ?v\<rparr>) = h"
    using write_with_pmm [OF ok_with_menvcfg(1) [OF ok leg, of "menvcfg h"], of "menvcfg h"] ok
    by (simp add: pmm_held_def ok_with_menvcfg fwft_hw_ok_defs)
  then show ?thesis by (simp add: fwft_set_pmlen_16_def t) (simp add: pmm_held_def)
qed

lemma set_pmlen_result:
  assumes ok: "fwft_hw_ok h"
  shows "fwft_set_pmlen v h =
    (case fwft_norm h 5 v of
      None \<Rightarrow> (SBI_EINVAL, h)
    | Some y \<Rightarrow> (0, h\<lparr>menvcfg := with_pmm (menvcfg h) (pmm_enc y)\<rparr>))"
proof -
  let ?h = "h\<lparr>menvcfg := with_pmm (menvcfg h) 0\<rparr>" and ?v = "pmm_held (h\<lparr>menvcfg := with_pmm (menvcfg h) 0\<rparr>) ENVCFG_PMM_PMLEN_7"
  have ok0: "fwft_hw_ok ?h" using ok by (simp add: ok_with_menvcfg)
  have t: "fwft_try_to_set_pmm ENVCFG_PMM_PMLEN_7 ?h = (pmlen7 h, h\<lparr>menvcfg := with_pmm (menvcfg h) ?v\<rparr>)"
    using try_pmm [OF ok0, of "menvcfg h" ENVCFG_PMM_PMLEN_7] by simp
  have leg: "pmm_legal h ?v" using held_legal [OF ok0] by (simp add: ok_with_menvcfg)
  have c: "menvcfg_write (with_pmm (menvcfg h) 0) (h\<lparr>menvcfg := with_pmm (menvcfg h) ?v\<rparr>) = ?h"
    using clear_pmm [OF ok_with_menvcfg(1) [OF ok leg, of "menvcfg h"]] by simp
  have v: "v \<le> 7 \<Longrightarrow> v \<le> 16" "16 < v \<Longrightarrow> \<not> v \<le> 7" "v = 0 \<Longrightarrow> \<not> 16 < v"
    by (auto simp: word_le_nat_alt word_less_nat_alt)
  have s7: "pmlen7 h \<Longrightarrow> ?v = ENVCFG_PMM_PMLEN_7" by (simp add: pmm_held_def ok_with_menvcfg)
  show ?thesis
    using v s7
    by (auto simp: fwft_set_pmlen_def Let_def clear_pmm [OF ok] t c set_pmlen_16_result [OF ok] fwft_norm_def
        pmm_enc_def not_less ENVCFG_PMM_PMLEN_0_def)
qed

lemma pmm_enc_bits:
  "y \<in> {0, 7, 16} \<Longrightarrow> bit (with_pmm e (pmm_enc y)) 33 \<longleftrightarrow> y \<noteq> 0"
  "y \<in> {0, 7, 16} \<Longrightarrow> bit (with_pmm e (pmm_enc y)) 32 \<longleftrightarrow> y = 16"
proof -
  have b: "bit ENVCFG_PMM_PMLEN_7 33" "\<not> bit ENVCFG_PMM_PMLEN_7 32" "bit ENVCFG_PMM_PMLEN_16 33" "bit ENVCFG_PMM_PMLEN_16 32"
    by (simp_all add: ENVCFG_PMM_PMLEN_7_def ENVCFG_PMM_PMLEN_16_def bit_push_bit_iff)
  show "y \<in> {0, 7, 16} \<Longrightarrow> bit (with_pmm e (pmm_enc y)) 33 \<longleftrightarrow> y \<noteq> 0"
    "y \<in> {0, 7, 16} \<Longrightarrow> bit (with_pmm e (pmm_enc y)) 32 \<longleftrightarrow> y = 16"
    using b by (auto simp: with_pmm_def pmm_enc_def bit_simps sbi_bits ENVCFG_PMM_PMLEN_0_def)
qed

lemma pmm_field_bits:
  "(w AND ENVCFG_PMM = ENVCFG_PMM_PMLEN_0) = (\<not> bit w 32 \<and> \<not> bit w 33)"
  "(w AND ENVCFG_PMM = ENVCFG_PMM_PMLEN_7) = (\<not> bit w 32 \<and> bit w 33)"
  "(w AND ENVCFG_PMM = ENVCFG_PMM_PMLEN_16) = (bit w 32 \<and> bit w 33)"
proof -
  have f: "bit (w AND ENVCFG_PMM) k \<longleftrightarrow> bit w k \<and> (k = 32 \<or> k = 33)" for k by (simp add: bit_and_iff sbi_bits)
  have z: "bit ENVCFG_PMM_PMLEN_0 k \<longleftrightarrow> False" for k by (simp add: ENVCFG_PMM_PMLEN_0_def)
  have "push_bit 32 2 = (push_bit 33 1 :: ulong)" by simp
  then have s: "bit ENVCFG_PMM_PMLEN_7 k \<longleftrightarrow> k = 33" for k
    unfolding ENVCFG_PMM_PMLEN_7_def by (simp only: bit_push_bit_iff bit_1_iff) auto
  have x: "bit ENVCFG_PMM_PMLEN_16 k \<longleftrightarrow> k = 32 \<or> k = 33" for k
    using bit_PMM [of k] by (simp add: ENVCFG_PMM_PMLEN_16_def ENVCFG_PMM_def)
  have e: "(w AND ENVCFG_PMM = v) = ((bit w 32 = bit v 32) \<and> (bit w 33 = bit v 33))"
    if "\<And>k. bit v k \<Longrightarrow> k = 32 \<or> k = 33" for v
  proof
    show "w AND ENVCFG_PMM = v \<Longrightarrow> (bit w 32 = bit v 32) \<and> (bit w 33 = bit v 33)" using f by metis
    show "(bit w 32 = bit v 32) \<and> (bit w 33 = bit v 33) \<Longrightarrow> w AND ENVCFG_PMM = v"
      using that by (intro bit_word_eqI) (metis f)
  qed
  show "(w AND ENVCFG_PMM = ENVCFG_PMM_PMLEN_0) = (\<not> bit w 32 \<and> \<not> bit w 33)"
    "(w AND ENVCFG_PMM = ENVCFG_PMM_PMLEN_7) = (\<not> bit w 32 \<and> bit w 33)"
    "(w AND ENVCFG_PMM = ENVCFG_PMM_PMLEN_16) = (bit w 32 \<and> bit w 33)"
    using e [of ENVCFG_PMM_PMLEN_0] e [of ENVCFG_PMM_PMLEN_7] e [of ENVCFG_PMM_PMLEN_16] by (simp_all add: z s x)
qed

lemma get_pmlen_result: "fwft_hw_ok h \<Longrightarrow> fwft_get_pmlen h = (0, fwft_value h 5)"
proof -
  assume "fwft_hw_ok h"
  then have "pmm_legal h (menvcfg h AND ENVCFG_PMM)" by (simp add: fwft_hw_ok_defs)
  then show ?thesis
    by (auto simp: fwft_get_pmlen_def Let_def pmm_field_bits fwft_value_def pmm_legal_def)
qed

lemma less_6: "(i :: nat) < 6 \<longleftrightarrow> i = 0 \<or> i = 1 \<or> i = 2 \<or> i = 3 \<or> i = 4 \<or> i = 5"
  by arith

lemma features_nth [simp]:
  "ff_set (features ! 0) = fwft_set_misaligned_delegation" "ff_get (features ! 0) = fwft_get_misaligned_delegation"
  "ff_supported (features ! 0) = Some fwft_misaligned_delegation_supported"
  "ff_set (features ! Suc 0) = fwft_enable_lpad" "ff_get (features ! Suc 0) = fwft_get_lpad"
  "ff_supported (features ! Suc 0) = Some fwft_lpad_supported"
  "ff_set (features ! 2) = fwft_enable_sstack" "ff_get (features ! 2) = fwft_get_sstack"
  "ff_supported (features ! 2) = Some fwft_sstack_supported"
  "ff_set (features ! 3) = fwft_set_double_trap" "ff_get (features ! 3) = fwft_get_double_trap"
  "ff_supported (features ! 3) = Some fwft_double_trap_supported"
  "ff_set (features ! 4) = fwft_set_adue" "ff_get (features ! 4) = fwft_get_adue"
  "ff_supported (features ! 4) = Some fwft_adue_supported"
  "ff_set (features ! 5) = fwft_set_pmlen" "ff_get (features ! 5) = fwft_get_pmlen"
  "ff_supported (features ! 5) = Some fwft_pmlen_supported"
  by (simp_all add: features_def)

lemma feature_get:
  assumes ok: "fwft_hw_ok h" and i: "i < 6"
  shows "ff_get (features ! i) h = (0, fwft_value h i)"
proof -
  have b: "fwft_menvcfg_read_bit k h = (0, of_bool (bit (menvcfg h) k))" if "k < 64" for k
    unfolding fwft_menvcfg_read_bit_def and_push_bit_1 [OF that] by simp
  have m: "fwft_get_misaligned_delegation h = (0, fwft_value h 0)"
    by (simp add: fwft_get_misaligned_delegation_def and_MIS fwft_value_def)
  from i show ?thesis unfolding less_6
    by (elim disjE) (simp_all add: b m get_pmlen_result [OF ok] fwft_value_def fwft_get_lpad_def fwft_get_sstack_def
      fwft_get_double_trap_def fwft_get_adue_def)
qed

lemma feature_supported:
  "i < 6 \<Longrightarrow> ff_supported (features ! i) = Some (\<lambda>h. if fwft_supported h i then 0 else SBI_ENOTSUPP)"
  unfolding less_6
  by (elim disjE) (simp_all add: fun_eq_iff fwft_supported_def fwft_misaligned_delegation_supported_def fwft_lpad_supported_def
    fwft_sstack_supported_def fwft_double_trap_supported_def fwft_adue_supported_def fwft_pmlen_supported_def)

text \<open>What a request that is supported does to the values of all features.\<close>

lemma bit_feature_values:
  assumes "0 < i" "i < 5" "j < 6" and k: "k = [0, 2, 3, 59, 61] ! i"
  shows "fwft_value (h\<lparr>menvcfg := set_bit k (menvcfg h)\<rparr>) j = (if j = i then 1 else fwft_value h j)"
    "fwft_value (h\<lparr>menvcfg := unset_bit k (menvcfg h)\<rparr>) j = (if j = i then 0 else fwft_value h j)"
proof -
  have "i = 1 \<or> i = 2 \<or> i = 3 \<or> i = 4" using assms(1,2) by arith
  then show "fwft_value (h\<lparr>menvcfg := set_bit k (menvcfg h)\<rparr>) j = (if j = i then 1 else fwft_value h j)"
    "fwft_value (h\<lparr>menvcfg := unset_bit k (menvcfg h)\<rparr>) j = (if j = i then 0 else fwft_value h j)"
    using assms(3) k unfolding less_6 by (elim disjE; simp add: fwft_value_def bit_set_bit_iff bit_unset_bit_iff)+
qed

lemma bit_feature_set:
  assumes "0 < i" "i < 5"
  shows "ff_set (features ! i) v = fwft_menvcfg_set_bit v ([0, 2, 3, 59, 61] ! i)"
proof -
  have "i = 1 \<or> i = 2 \<or> i = 3 \<or> i = 4" using assms by arith
  then show ?thesis
    by (elim disjE) (simp_all add: fwft_enable_lpad_def fwft_enable_sstack_def fwft_set_double_trap_def fwft_set_adue_def)
qed

definition set_effect :: "fwft_hw \<Rightarrow> nat \<Rightarrow> ulong \<Rightarrow> fwft_hw \<Rightarrow> bool" where
  "set_effect h i y h' \<longleftrightarrow> same_hart h h' \<and> fwft_hw_ok h' \<and> (\<forall>j<6. fwft_value h' j = (if j = i then y else fwft_value h j))"

lemma bit_feature_effect:
  assumes ok: "fwft_hw_ok h" and i: "0 < i" "i < 5" and spt: "fwft_supported h i"
  shows "case fwft_norm h i v of None \<Rightarrow> ff_set (features ! i) v h = (SBI_EINVAL, h)
    | Some y \<Rightarrow> \<exists>h'. ff_set (features ! i) v h = (0, h') \<and> set_effect h i y h'"
proof -
  define k where "k = [0, 2, 3, 59, 61 :: nat] ! i"
  have c: "i = 1 \<or> i = 2 \<or> i = 3 \<or> i = 4" using i by arith
  then have k64: "k < 64" "k \<noteq> 32" "k \<noteq> 33" unfolding k_def by (elim disjE; simp)+
  have wr: "bit (menvcfg_wr h) k"
    using c spt ok unfolding k_def by (elim disjE) (simp_all add: fwft_supported_def fwft_hw_ok_defs)
  note r = set_bit_result [OF ok wr k64, of v]
  let ?h = "h\<lparr>menvcfg := if v = 1 then set_bit k (menvcfg h) else unset_bit k (menvcfg h)\<rparr>"
  have "v \<le> 1 \<Longrightarrow> set_effect h i v ?h"
  proof -
    assume v: "v \<le> 1"
    have f: "(if v = 1 then set_bit k (menvcfg h) else unset_bit k (menvcfg h)) AND ENVCFG_PMM = menvcfg h AND ENVCFG_PMM"
      using k64 by (intro bit_word_eqI) (auto simp: bit_set_bit_iff bit_unset_bit_iff bit_and_iff sbi_bits)
    have "fwft_hw_ok ?h" using ok f unfolding fwft_hw_ok_defs by (simp add: ok_with_menvcfg)
    moreover have "same_hart h ?h" by (simp add: same_hart_def)
    ultimately show "set_effect h i v ?h"
      using v bit_feature_values [OF i _ k_def] by (auto simp: set_effect_def word_le_1)
  qed
  then show ?thesis using r i(2) by (simp add: bit_feature_set [OF i] k_def [symmetric] fwft_norm_def)
qed

lemma misaligned_effect:
  assumes ok: "fwft_hw_ok h" and spt: "misa_S h"
  shows "case fwft_norm h 0 v of None \<Rightarrow> fwft_set_misaligned_delegation v h = (SBI_EINVAL, h)
    | Some y \<Rightarrow> \<exists>h'. fwft_set_misaligned_delegation v h = (0, h') \<and> set_effect h 0 y h'"
proof -
  have wr: "bit (medeleg_wr h) 4" "bit (medeleg_wr h) 6" using ok spt by (simp_all add: fwft_hw_ok_defs)
  have "bit (medeleg (medeleg_write w h)) k = bit w k" if "k = 4 \<or> k = 6" for k w
    using wr that by (auto simp: medeleg_write_def bit_simps)
  then have "set_effect h 0 1 (medeleg_write (medeleg h OR MIS_DELEG) h)"
    "set_effect h 0 0 (medeleg_write (medeleg h AND NOT MIS_DELEG) h)"
    using fwft_ok_write(2) [OF ok] by (auto simp: set_effect_def fwft_value_def bit_or_iff bit_and_iff bit_not_iff sbi_bits)
  then show ?thesis by (auto simp: fwft_norm_def fwft_set_misaligned_delegation_def word_le_1)
qed

lemma pmlen_effect:
  assumes ok: "fwft_hw_ok h"
  shows "case fwft_norm h 5 v of None \<Rightarrow> fwft_set_pmlen v h = (SBI_EINVAL, h)
    | Some y \<Rightarrow> \<exists>h'. fwft_set_pmlen v h = (0, h') \<and> set_effect h 5 y h'"
proof (cases "fwft_norm h 5 v")
  case (Some y)
  have y: "y \<in> {0, 7, 16}" and leg: "pmm_legal h (pmm_enc y)"
    using Some by (auto simp: fwft_norm_def pmm_enc_def ENVCFG_PMM_PMLEN_0_def split: if_splits)
  have "set_effect h 5 y (h\<lparr>menvcfg := with_pmm (menvcfg h) (pmm_enc y)\<rparr>)"
    using y ok_with_menvcfg(1) [OF ok leg] pmm_enc_bits [OF y]
    by (auto simp: set_effect_def same_hart_def fwft_value_def bit_with_pmm)
  then show ?thesis using Some by (simp add: set_pmlen_result [OF ok])
qed (simp add: set_pmlen_result [OF ok])

lemma feature_set:
  assumes ok: "fwft_hw_ok h" and i: "i < 6" and spt: "fwft_supported h i"
  shows "case fwft_norm h i v of None \<Rightarrow> ff_set (features ! i) v h = (SBI_EINVAL, h)
    | Some y \<Rightarrow> \<exists>h'. ff_set (features ! i) v h = (0, h') \<and> set_effect h i y h'"
proof -
  consider (m) "i = 0" | (b) "0 < i" "i < 5" | (p) "i = 5" using i by linarith
  then show ?thesis
  proof cases
    case m
    show ?thesis unfolding m features_nth using spt misaligned_effect [OF ok, of v] by (simp add: m fwft_supported_def)
  next
    case b
    then show ?thesis by (rule bit_feature_effect [OF ok _ _ spt])
  next
    case p
    show ?thesis unfolding p features_nth by (rule pmlen_effect [OF ok])
  qed
qed

subsection \<open>The feature store\<close>

text \<open>
  The contract of the extension: a map from the supported features to their value and lock. \<open>norm i v\<close> is the value that a
  request for \<open>v\<close> gives feature \<open>i\<close>, \<open>None\<close> if it has no such value.
\<close>

type_synonym fwft_store = "nat \<Rightarrow> (ulong \<times> bool) option"

definition store_error :: "nat \<Rightarrow> int" where
  "store_error i = (if i < 6 then SBI_ENOTSUPP else SBI_EDENIED)"

definition store_set :: "(nat \<Rightarrow> ulong \<Rightarrow> ulong option) \<Rightarrow> nat \<Rightarrow> ulong \<Rightarrow> ulong \<Rightarrow> fwft_store \<Rightarrow> int \<times> fwft_store" where
  "store_set norm i v flags m =
    (case m i of
      None \<Rightarrow> (store_error i, m)
    | Some (x, locked) \<Rightarrow>
        if flags > 1 then (SBI_EINVAL, m)
        else if locked then (SBI_EDENIED_LOCKED, m)
        else (case norm i v of None \<Rightarrow> (SBI_EINVAL, m) | Some y \<Rightarrow> (0, m(i \<mapsto> (y, flags = 1)))))"

definition store_get :: "nat \<Rightarrow> fwft_store \<Rightarrow> int \<times> ulong" where
  "store_get i m = (case m i of None \<Rightarrow> (store_error i, 0) | Some (x, _) \<Rightarrow> (0, x))"

text \<open>Calls with \<open>a6\<close>, \<open>a0\<close>, \<open>a1\<close>, \<open>a2\<close>, on the store and on the hart; both give the list of error codes and values.\<close>

type_synonym fwft_call = "ulong \<times> ulong \<times> ulong \<times> ulong"

definition store_call ::
  "(nat \<Rightarrow> ulong \<Rightarrow> ulong option) \<Rightarrow> fwft_call \<Rightarrow> fwft_store \<Rightarrow> (int \<times> ulong) \<times> fwft_store" where
  "store_call norm c m =
    (case c of (funcid, a0, a1, a2) \<Rightarrow>
      let i = unat (ucast a0 :: u32)
      in if funcid = 0 then (case store_set norm i a1 a2 m of (ret, m) \<Rightarrow> ((ret, 0), m))
         else if funcid = 1 then (store_get i m, m)
         else ((SBI_ENOTSUPP, 0), m))"

fun store_run :: "(nat \<Rightarrow> ulong \<Rightarrow> ulong option) \<Rightarrow> fwft_call list \<Rightarrow> fwft_store \<Rightarrow> (int \<times> ulong) list \<times> fwft_store" where
  "store_run norm [] m = ([], m)"
| "store_run norm (c # cs) m =
    (case store_call norm c m of (r, m) \<Rightarrow> case store_run norm cs m of (rs, m) \<Rightarrow> (r # rs, m))"

fun fwft_run :: "fwft_call list \<Rightarrow> fwft_hart \<Rightarrow> (int \<times> ulong) list \<times> fwft_hart" where
  "fwft_run [] s = ([], s)"
| "fwft_run ((funcid, a0, a1, a2) # cs) s =
    (case sbi_ecall_fwft_handler funcid a0 a1 a2 s of (ret, v, s) \<Rightarrow> case fwft_run cs s of (rs, s) \<Rightarrow> ((ret, v) # rs, s))"

text \<open>The store a hart implements, and the invariant of its state.\<close>

definition fwft_store :: "fwft_hart \<Rightarrow> fwft_store" where
  "fwft_store s i =
    (if i < 6 \<and> fwft_supported (fw_hw s) i
     then Some (fwft_value (fw_hw s) i, bit (fc_flags (fw_configs s ! i)) 0) else None)"

definition fwft_inv :: "fwft_hart \<Rightarrow> bool" where
  "fwft_inv s \<longleftrightarrow> fwft_hw_ok (fw_hw s) \<and> map fc_feature (fw_configs s) = features"

lemma length_features [simp]: "length features = 6"
  by (simp add: features_def)

lemma inv_configs:
  assumes "fwft_inv s"
  shows "length (fw_configs s) = 6" "i < 6 \<Longrightarrow> fc_feature (fw_configs s ! i) = features ! i"
proof -
  have m: "map fc_feature (fw_configs s) = features" using assms by (simp add: fwft_inv_def)
  then show l: "length (fw_configs s) = 6" by (metis length_features length_map)
  show "i < 6 \<Longrightarrow> fc_feature (fw_configs s ! i) = features ! i" using m l by (metis nth_map)
qed

lemma u32_less_6: "unat (f :: u32) < 6 \<longleftrightarrow> f = 0 \<or> f = 1 \<or> f = 2 \<or> f = 3 \<or> f = 4 \<or> f = 5"
  unfolding less_6 by (simp add: word_unat_eq_iff)

lemma config_search_features:
  assumes "map fc_feature cs = features"
  shows "config_search f 0 cs = (if unat f < 6 then Some (unat f) else None)"
proof -
  obtain c0 c1 c2 c3 c4 c5 where cs: "cs = [c0, c1, c2, c3, c4, c5]"
    and ids: "ff_id (fc_feature c0) = 0" "ff_id (fc_feature c1) = 1" "ff_id (fc_feature c2) = 2"
      "ff_id (fc_feature c3) = 3" "ff_id (fc_feature c4) = 4" "ff_id (fc_feature c5) = 5"
    using assms by (auto simp: features_def map_eq_Cons_conv)
  show ?thesis unfolding cs using u32_less_6 [of f] by (auto simp: ids)
qed

lemma feature_index:
  assumes "fwft_inv s"
  shows "get_feature_config f s = (if unat f < 6 then Some (unat f) else None)"
proof -
  have "f AND SBI_FWFT_GLOBAL_FEATURE_BIT = 0" if "unat f < 6"
    using that unfolding u32_less_6 by (elim disjE) simp_all
  then show ?thesis
    using assms config_search_features [of "fw_configs s" f] by (simp add: get_feature_config_def fwft_inv_def)
qed

lemma defined_feature: "fwft_is_defined_feature f \<longleftrightarrow> unat f < 6"
  unfolding u32_less_6 by (auto simp: fwft_is_defined_feature_def fwft_defined_features_def)

lemma get_feature_result:
  assumes "fwft_inv s"
  shows "fwft_get_feature f s =
    (if fwft_store s (unat f) = None then Inl (store_error (unat f)) else Inr (unat f))"
  using assms inv_configs(2) [OF assms, of "unat f"]
  by (simp add: fwft_get_feature_def feature_index defined_feature fwft_store_def store_error_def feature_supported)

lemma flags_word: "(w :: ulong) AND NOT SBI_FWFT_SET_FLAG_LOCK \<noteq> 0 \<longleftrightarrow> w > 1"
  "w AND SBI_FWFT_SET_FLAG_LOCK \<noteq> 0 \<longleftrightarrow> bit w 0" "w \<le> 1 \<Longrightarrow> bit w 0 \<longleftrightarrow> w = 1"
proof -
  have "unat (w AND NOT (2 ^ 1 - 1)) = unat w div 2 ^ 1 * 2 ^ 1" by (rule unat_and_not_mask) simp
  then have u: "unat (w AND NOT 1) = unat w div 2 * 2" by simp
  have "w AND NOT 1 \<noteq> 0 \<longleftrightarrow> unat w div 2 \<noteq> 0" using u by (metis mult_is_0 unat_eq_zero zero_neq_numeral)
  then show "w AND NOT SBI_FWFT_SET_FLAG_LOCK \<noteq> 0 \<longleftrightarrow> w > 1" by (auto simp: word_less_nat_alt)
  show "w AND SBI_FWFT_SET_FLAG_LOCK \<noteq> 0 \<longleftrightarrow> bit w 0"
    by (simp add: and_one_eq even_iff_mod_2_eq_zero [symmetric] bit_0 one_neq_zero)
  show "w \<le> 1 \<Longrightarrow> bit w 0 \<longleftrightarrow> w = 1" by (auto simp: word_le_1 bit_0)
qed

lemma fwft_supported_same: "same_hart h h' \<Longrightarrow> fwft_supported h' = fwft_supported h" "same_hart h h' \<Longrightarrow> fwft_norm h' = fwft_norm h"
  by (auto simp: fun_eq_iff fwft_supported_def fwft_norm_def same_hart_params)

lemma set_flags_simps [simp]: "fw_hw (set_flags i fl s) = fw_hw s"
  by (simp add: set_flags_def)

lemma set_flags_inv: "fwft_inv s \<Longrightarrow> fwft_inv (set_flags i fl s)"
proof -
  have u: "(map fc_feature cs)[i := fc_feature (cs ! i)] = map fc_feature cs" for cs
    by (metis list_update_id map_update)
  show "fwft_inv s \<Longrightarrow> ?thesis" by (simp add: fwft_inv_def set_flags_def map_update) (metis u)
qed

lemma set_flags_store:
  assumes "fwft_inv s" and "fwft_store s i \<noteq> None"
  shows "fwft_store (set_flags i fl s) = (fwft_store s)(i \<mapsto> (fwft_value (fw_hw s) i, bit fl 0))"
  using assms inv_configs(1) [OF assms(1)] by (auto simp: fun_eq_iff fwft_store_def set_flags_def)

lemma fwft_set_step:
  assumes inv: "fwft_inv s" and r: "sbi_fwft_set f v flags s = (ret, s')"
  shows "store_set (fwft_norm (fw_hw s)) (unat f) v flags (fwft_store s) = (ret, fwft_store s') \<and>
    fwft_inv s' \<and> same_hart (fw_hw s) (fw_hw s')"
proof (cases "fwft_store s (unat f)")
  case None
  then show ?thesis using r inv by (auto simp: sbi_fwft_set_def get_feature_result [OF inv] store_set_def)
next
  case (Some xl)
  let ?i = "unat f" and ?h = "fw_hw s"
  have i: "?i < 6" and spt: "fwft_supported ?h ?i" and xl: "xl = (fwft_value ?h ?i, bit (fc_flags (fw_configs s ! ?i)) 0)"
    using Some by (auto simp: fwft_store_def split: if_splits)
  have ok: "fwft_hw_ok ?h" using inv by (simp add: fwft_inv_def)
  note set = feature_set [OF ok i spt, of v]
  have code: "sbi_fwft_set f v flags s =
      (if flags > 1 then (SBI_EINVAL, s) else if snd xl then (SBI_EDENIED_LOCKED, s)
       else case ff_set (features ! ?i) v ?h of (ret, h) \<Rightarrow>
         if ret \<noteq> 0 then (ret, s\<lparr>fw_hw := h\<rparr>) else (0, set_flags ?i flags (s\<lparr>fw_hw := h\<rparr>)))"
    unfolding sbi_fwft_set_def get_feature_result [OF inv] flags_word SBI_OK_def using Some inv_configs(2) [OF inv i] by (simp add: xl)
  show ?thesis
  proof (cases "flags > 1 \<or> snd xl")
    case True
    then show ?thesis using r inv Some by (cases xl) (auto simp: code store_set_def split: if_splits)
  next
    case False
    show ?thesis
    proof (cases "fwft_norm ?h ?i v")
      case None
      then show ?thesis using r inv set False Some by (cases xl) (auto simp: code store_set_def)
    next
      case (Some y)
      then obtain h' where h': "ff_set (features ! ?i) v ?h = (0, h')" and eff: "set_effect ?h ?i y h'"
        using set by auto
      have same: "same_hart ?h h'" using eff by (simp add: set_effect_def)
      have inv': "fwft_inv (s\<lparr>fw_hw := h'\<rparr>)" using inv eff by (simp add: fwft_inv_def set_effect_def)
      have st: "fwft_store (s\<lparr>fw_hw := h'\<rparr>) = (fwft_store s)(?i \<mapsto> (y, snd xl))"
        using eff i spt by (auto simp: fwft_store_def fun_eq_iff set_effect_def fwft_supported_same [OF same] xl)
      have s': "s' = set_flags ?i flags (s\<lparr>fw_hw := h'\<rparr>)" "ret = 0" using r False h' by (auto simp: code)
      have "fwft_store s' = (fwft_store s)(?i \<mapsto> (y, flags = 1))"
        using set_flags_store [OF inv', of ?i flags] st eff i False
        by (simp add: s' set_effect_def flags_word(3) not_less)
      then show ?thesis
        using s' inv' same Some False \<open>fwft_store s ?i = Some xl\<close>
        by (cases xl) (simp add: store_set_def set_flags_inv)
    qed
  qed
qed

lemma fwft_get_step:
  assumes "fwft_inv s"
  shows "sbi_fwft_get f s = store_get (unat f) (fwft_store s)"
proof (cases "fwft_store s (unat f)")
  case (Some xl)
  then have "unat f < 6" "xl = (fwft_value (fw_hw s) (unat f), bit (fc_flags (fw_configs s ! unat f)) 0)"
    by (auto simp: fwft_store_def split: if_splits)
  then show ?thesis
    using Some assms inv_configs(2) [OF assms] feature_get [of "fw_hw s" "unat f"]
    by (simp add: sbi_fwft_get_def get_feature_result store_get_def fwft_inv_def)
qed (simp add: sbi_fwft_get_def get_feature_result [OF assms] store_get_def)

lemma fwft_handler_step:
  assumes inv: "fwft_inv s" and r: "sbi_ecall_fwft_handler funcid a0 a1 a2 s = (ret, v, s')"
  shows "store_call (fwft_norm (fw_hw s)) (funcid, a0, a1, a2) (fwft_store s) = ((ret, v), fwft_store s') \<and>
    fwft_inv s' \<and> same_hart (fw_hw s) (fw_hw s')"
proof -
  obtain rc t where t: "sbi_fwft_set (ucast a0) a1 a2 s = (rc, t)" by (metis surj_pair)
  show ?thesis
    using r inv fwft_set_step [OF inv t] fwft_get_step [OF inv, of "ucast a0"] t
    by (auto simp: sbi_ecall_fwft_handler_def store_call_def Let_def split: if_splits prod.splits)
qed

lemma fwft_run_step:
  "fwft_inv s \<Longrightarrow> fwft_run cs s = (rs, s') \<Longrightarrow>
    store_run (fwft_norm (fw_hw s)) cs (fwft_store s) = (rs, fwft_store s') \<and> fwft_inv s' \<and> same_hart (fw_hw s) (fw_hw s')"
proof (induction cs arbitrary: s rs)
  case (Cons c cs)
  obtain funcid a0 a1 a2 where c: "c = (funcid, a0, a1, a2)" by (metis prod_cases4)
  obtain ret v t where h: "sbi_ecall_fwft_handler funcid a0 a1 a2 s = (ret, v, t)" by (metis prod_cases3)
  obtain rs' where t: "fwft_run cs t = (rs', s')" "rs = (ret, v) # rs'"
    using Cons.prems(2) h by (auto simp: c split: prod.splits)
  note step = fwft_handler_step [OF Cons.prems(1) h]
  note IH = Cons.IH [OF _ t(1)]
  have "fwft_norm (fw_hw t) = fwft_norm (fw_hw s)" using step by (simp add: fwft_supported_same)
  then show ?case using step IH same_hart_trans [of "fw_hw s" "fw_hw t" "fw_hw s'"] by (simp add: c t(2))
qed simp

subsection \<open>Boot and locks\<close>

definition unlock :: "ulong \<times> bool \<Rightarrow> ulong \<times> bool" where
  "unlock xl = (fst xl, False)"

lemma unlock_twice [simp]: "unlock \<circ> unlock = unlock" "unlock (x, l) = (x, False)"
  by (simp_all add: unlock_def fun_eq_iff)

lemma clear_lock_store:
  assumes inv: "fwft_inv s"
  shows "fwft_store (fwft_clear_config_lock f s) =
      (fwft_store s)(unat f := map_option unlock (fwft_store s (unat f)))"
    and "fwft_inv (fwft_clear_config_lock f s)" and "fw_hw (fwft_clear_config_lock f s) = fw_hw s"
proof -
  show "fwft_inv (fwft_clear_config_lock f s)" "fw_hw (fwft_clear_config_lock f s) = fw_hw s"
    using inv by (simp_all add: fwft_clear_config_lock_def set_flags_inv split: sum.split)
  show "fwft_store (fwft_clear_config_lock f s) =
      (fwft_store s)(unat f := map_option unlock (fwft_store s (unat f)))"
  proof (cases "fwft_store s (unat f)")
    case (Some xl)
    then have "fst xl = fwft_value (fw_hw s) (unat f)" by (auto simp: fwft_store_def split: if_splits)
    then show ?thesis
      using Some set_flags_store [OF inv, of "unat f"]
      by (cases xl) (simp add: fwft_clear_config_lock_def get_feature_result [OF inv] bit_and_iff bit_not_iff)
  qed (simp add: fwft_clear_config_lock_def get_feature_result [OF inv] fun_upd_idem)
qed

lemma clear_locks_store:
  assumes inv: "fwft_inv s"
  shows "fwft_store (clear_locks s) = (\<lambda>i. map_option unlock (fwft_store s i))"
    and "fwft_inv (clear_locks s)" and "fw_hw (clear_locks s) = fw_hw s"
proof -
  have all: "fwft_inv (fold (\<lambda>f. fwft_clear_config_lock (ff_id f)) fs s) \<and> fw_hw (fold (\<lambda>f. fwft_clear_config_lock (ff_id f)) fs s) = fw_hw s \<and>
    fwft_store (fold (\<lambda>f. fwft_clear_config_lock (ff_id f)) fs s) =
      (\<lambda>i. if i \<in> (unat \<circ> ff_id) ` set fs then map_option unlock (fwft_store s i) else fwft_store s i)" for fs
    using inv
  proof (induction fs arbitrary: s)
    case (Cons f fs)
    note c = clear_lock_store [OF Cons.prems, of "ff_id f"]
    show ?case using Cons.IH [OF c(2)] c(1,3)
      by (auto simp: fun_eq_iff option.map_comp)
  qed simp
  have "(unat \<circ> ff_id) ` set features = {..<6}" by (auto simp: features_def less_6)
  moreover have "fwft_store s i = None" if "\<not> i < 6" for i using that by (simp add: fwft_store_def)
  ultimately show "fwft_store (clear_locks s) = (\<lambda>i. map_option unlock (fwft_store s i))"
    "fwft_inv (clear_locks s)" "fw_hw (clear_locks s) = fw_hw s"
    using all [of features] by (simp_all add: clear_locks_def fun_eq_iff)
qed

text \<open>
  A hart comes up with no feature locked and with the values its CSRs have: \<open>sbi_fwft_init\<close> makes the table of the hart or
  keeps the one of its last boot.
\<close>

definition fwft_hart_of :: "fwft_globals \<Rightarrow> nat \<Rightarrow> fwft_hart" where
  "fwft_hart_of g hart = \<lparr>fw_hw = fg_hw g hart, fw_configs = (case fg_state g hart of Some cs \<Rightarrow> cs | None \<Rightarrow> [])\<rparr>"

definition boot_store :: "fwft_hw \<Rightarrow> fwft_store" where
  "boot_store h i = (if i < 6 \<and> fwft_supported h i then Some (fwft_value h i, False) else None)"

definition fwft_tables_ok :: "fwft_globals \<Rightarrow> bool" where
  "fwft_tables_ok g \<longleftrightarrow> (\<forall>hart cs. fg_state g hart = Some cs \<longrightarrow> map fc_feature cs = features)"

lemma init_state:
  assumes tab: "fwft_tables_ok g" and ok: "fwft_hw_ok (fg_hw g hart)" and r: "sbi_fwft_init mem hart cold g = (0, g')"
  shows "fwft_inv (fwft_hart_of g' hart)" and "fwft_store (fwft_hart_of g' hart) = boot_store (fg_hw g hart)"
    and "fw_hw (fwft_hart_of g' hart) = fg_hw g hart"
proof -
  obtain cs where cs: "map fc_feature cs = features"
    and g': "fwft_hart_of g' hart = clear_locks \<lparr>fw_hw = fg_hw g hart, fw_configs = cs\<rparr>"
  proof (cases "fg_state g' hart = Some (fw_configs (clear_locks \<lparr>fw_hw = fg_hw g hart, fw_configs = new_configs\<rparr>)) \<and>
      fg_hw g' hart = fw_hw (clear_locks \<lparr>fw_hw = fg_hw g hart, fw_configs = new_configs\<rparr>)")
    case True
    then show ?thesis by (intro that [of new_configs]) (simp_all add: fwft_hart_of_def new_configs_def o_def)
  next
    case False
    then obtain cs where c: "fg_state g hart = Some cs" "fg_state g' hart = Some (fw_configs (clear_locks \<lparr>fw_hw = fg_hw g hart, fw_configs = cs\<rparr>))"
      "fg_hw g' hart = fw_hw (clear_locks \<lparr>fw_hw = fg_hw g hart, fw_configs = cs\<rparr>)"
      using r by (auto simp: sbi_fwft_init_def Let_def split: if_splits option.splits bool.splits prod.splits)
    then show ?thesis using tab by (intro that [of cs]) (auto simp: fwft_hart_of_def fwft_tables_ok_def)
  qed
  let ?s = "\<lparr>fw_hw = fg_hw g hart, fw_configs = cs\<rparr>"
  have inv: "fwft_inv ?s" using cs ok by (simp add: fwft_inv_def)
  show "fwft_inv (fwft_hart_of g' hart)" "fw_hw (fwft_hart_of g' hart) = fg_hw g hart"
    using clear_locks_store(2,3) [OF inv] by (simp_all add: g')
  show "fwft_store (fwft_hart_of g' hart) = boot_store (fg_hw g hart)"
    using clear_locks_store(1) [OF inv] by (simp add: g' boot_store_def fwft_store_def fun_eq_iff)
qed

lemma store_call_locked: "m i = Some (y, True) \<Longrightarrow> snd (store_call norm c m) i = Some (y, True)"
  by (cases c) (auto simp: store_call_def Let_def store_set_def split: option.split prod.split)

lemma store_run_locked: "m i = Some (y, True) \<Longrightarrow> snd (store_run norm cs m) i = Some (y, True)"
proof (induction cs arbitrary: m)
  case (Cons c cs)
  have "snd (store_call norm c m) i = Some (y, True)" using Cons.prems by (rule store_call_locked)
  then show ?case using Cons.IH by (simp add: case_prod_beta)
qed simp

lemma set_locked:
  assumes "fwft_inv s" and "fwft_store s (unat f) = Some (y, True)"
  shows "sbi_fwft_set f v flags s = (if flags \<le> 1 then SBI_EDENIED_LOCKED else SBI_EINVAL, s)"
proof -
  have "bit (fc_flags (fw_configs s ! unat f)) 0" using assms(2) by (auto simp: fwft_store_def split: if_splits)
  then show ?thesis
    unfolding sbi_fwft_set_def get_feature_result [OF assms(1)] flags_word by (simp add: assms(2) not_le [symmetric])
qed

subsection \<open>Properties\<close>

definition ex_fwft_hw :: fwft_hw where
  "ex_fwft_hw = \<lparr>menvcfg = 0, medeleg = 0, menvcfg_wr = BIT 2 OR BIT 3, medeleg_wr = MIS_DELEG, pmlen7 = False, pmlen16 = True,
    pmm_other = \<lambda>p v. p AND push_bit 32 0, hext = (\<lambda>n. n = 20 \<or> n = 21 \<or> n = 22), misa_S = True\<rparr>"

definition ex_fwft :: fwft_hart where
  "ex_fwft = \<lparr>fw_hw = ex_fwft_hw, fw_configs = new_configs\<rparr>"

definition ex_fwft_globals :: fwft_globals where
  "ex_fwft_globals = \<lparr>fwft_ptr_offset = 120,
    fg_tab = \<lparr>last_hartindex_having_scratch = 0, hartindex_to_hartid_table = \<lambda>_. 0, hartindex_to_scratch_table = \<lambda>_. 0,
      extra_offset = 128, scratch_mem = \<lambda>_. 0\<rparr>,
    fg_hw = \<lambda>_. ex_fwft_hw, fg_state = \<lambda>_. None\<rparr>"

lemma ex_fwft_ok: "fwft_hw_ok ex_fwft_hw" "fwft_inv ex_fwft" "fwft_tables_ok ex_fwft_globals"
proof -
  show "fwft_hw_ok ex_fwft_hw"
    unfolding fwft_hw_ok_defs ex_fwft_hw_def by (simp add: bit_or_iff bit_BIT sbi_bits)
  then show "fwft_inv ex_fwft" "fwft_tables_ok ex_fwft_globals"
    by (simp_all add: fwft_inv_def ex_fwft_def new_configs_def o_def fwft_tables_ok_def ex_fwft_globals_def)
qed

text \<open>C12: Firmware features are a store of values with locks: after \<open>sbi_fwft_init\<close> every supported feature is unlocked and has the value
  of its CSR, and from then on any sequence of SET and GET calls returns the codes and values of that store. So a GET returns what the
  last successful SET gave the feature, a refused SET changes nothing, and no SET changes another feature. This is proved for a hart
  that, if it has S-mode, can delegate misaligned accesses (\<open>misaligned_delegable\<close>: bits 4 and 6 of \<open>medeleg\<close> are writable), which the
  privileged architecture leaves open; on another hart it fails for that feature, as \<open>misaligned_deleg_unchecked\<close> shows.\<close>

theorem fwft_refines_store:
  assumes "fwft_tables_ok g" and "fwft_hw_arch (fg_hw g hart)" and "misaligned_delegable (fg_hw g hart)"
    and "sbi_fwft_init mem hart cold g = (0, g')" and "fwft_run cs (fwft_hart_of g' hart) = (rs, s')"
  shows "store_run (fwft_norm (fg_hw g hart)) cs (boot_store (fg_hw g hart)) = (rs, fwft_store s')"
proof -
  have "fwft_hw_ok (fg_hw g hart)" using assms(2,3) by (simp add: fwft_hw_ok_def)
  note init = init_state [OF assms(1) this assms(4)]
  show ?thesis using fwft_run_step [OF init(1) assms(5)] init(2,3) by simp
qed

theorem fwft_refines_store_witness:
  "fwft_hw_arch (fg_hw ex_fwft_globals 0) \<and> misaligned_delegable (fg_hw ex_fwft_globals 0) \<and>
   fst (sbi_fwft_init True 0 False ex_fwft_globals) = 0 \<and>
   fst (fwft_run [(0, 5, 7, 0), (0, 1, 1, 1), (0, 1, 0, 0), (1, 1, 0, 0), (1, 5, 0, 0), (0, 3, 1, 0), (1, 9, 0, 0)]
     (fwft_hart_of (snd (sbi_fwft_init True 0 False ex_fwft_globals)) 0)) =
     [(0, 0), (0, 0), (-14, 0), (0, 1), (0, 16), (-2, 0), (-4, 0)]"
proof -
  let ?cs = "[(0, 5, 7, 0), (0, 1, 1, 1), (0, 1, 0, 0), (1, 1, 0, 0), (1, 5, 0, 0), (0, 3, 1, 0), (1, 9, 0, 0)] :: fwft_call list"
  have hw: "fwft_hw_arch (fg_hw ex_fwft_globals 0)" "misaligned_delegable (fg_hw ex_fwft_globals 0)"
    using ex_fwft_ok by (simp_all add: ex_fwft_globals_def fwft_hw_ok_def)
  obtain g' where i: "sbi_fwft_init True 0 False ex_fwft_globals = (0, g')"
    by (simp add: sbi_fwft_init_def Let_def ex_fwft_globals_def)
  obtain rs s' where r: "fwft_run ?cs (fwft_hart_of g' 0) = (rs, s')" by (metis surj_pair)
  have "fst (store_run (fwft_norm ex_fwft_hw) ?cs (boot_store ex_fwft_hw)) =
      [(0, 0), (0, 0), (-14, 0), (0, 1), (0, 16), (-2, 0), (-4, 0)]"
    by (simp add: store_call_def Let_def store_set_def store_get_def store_error_def boot_store_def fwft_supported_def
        fwft_norm_def fwft_value_def ex_fwft_hw_def)
  then have "rs = [(0, 0), (0, 0), (-14, 0), (0, 1), (0, 16), (-2, 0), (-4, 0)]"
    using fwft_refines_store [OF ex_fwft_ok(3) hw i r] by (simp add: ex_fwft_globals_def)
  then show ?thesis using hw i r by simp
qed

text \<open>C13: A locked feature stays as it is until the hart boots again: after a successful SET with the lock flag, whatever calls follow, GET
  returns the value of that SET, and every further SET is refused and changes nothing: with \<open>SBI_EDENIED_LOCKED\<close> when its flags are
  defined ones (0 or the lock flag), with \<open>SBI_EINVAL\<close> when it has a flag the interface does not define, which is looked at first.
  The hart is one whose feature calls are right, as before: if it has S-mode it can delegate misaligned accesses
  (\<open>misaligned_delegable\<close>, a part of \<open>fwft_inv\<close> through \<open>fwft_hw_ok\<close>).\<close>

theorem fwft_lock_final:
  assumes inv: "fwft_inv s" and set: "sbi_fwft_set f v SBI_FWFT_SET_FLAG_LOCK s = (0, s1)" and run: "fwft_run cs s1 = (rs, s2)"
  shows "\<exists>y. fwft_norm (fw_hw s) (unat f) v = Some y \<and> sbi_fwft_get f s2 = (0, y) \<and>
    (\<forall>w flags. sbi_fwft_set f w flags s2 = (if flags \<le> 1 then SBI_EDENIED_LOCKED else SBI_EINVAL, s2))"
proof -
  note st = fwft_set_step [OF inv set]
  obtain y where y: "fwft_norm (fw_hw s) (unat f) v = Some y" and up: "fwft_store s1 = (fwft_store s)(unat f \<mapsto> (y, True))"
    using st by (auto simp: store_set_def store_error_def split: option.splits if_splits)
  have r: "store_run (fwft_norm (fw_hw s1)) cs (fwft_store s1) = (rs, fwft_store s2)" "fwft_inv s2"
    using fwft_run_step [OF _ run] st by simp_all
  have "fwft_store s2 (unat f) = Some (y, True)" using store_run_locked [of "fwft_store s1" "unat f" y] up r(1) by (metis fun_upd_same snd_conv)
  then show ?thesis
    using y fwft_get_step [OF r(2)] set_locked [OF r(2)] by (auto simp: store_get_def)
qed

theorem fwft_lock_final_witness:
  "fwft_inv ex_fwft \<and> fst (sbi_fwft_set 1 1 1 ex_fwft) = 0 \<and>
   sbi_fwft_get 1 (snd (fwft_run [(0, 1, 0, 0), (0, 5, 7, 1)] (snd (sbi_fwft_set 1 1 1 ex_fwft)))) = (0, 1) \<and>
   fst (sbi_fwft_set 1 0 0 (snd (fwft_run [(0, 1, 0, 0), (0, 5, 7, 1)] (snd (sbi_fwft_set 1 1 1 ex_fwft))))) = SBI_EDENIED_LOCKED \<and>
   fst (sbi_fwft_set 1 0 2 (snd (fwft_run [(0, 1, 0, 0), (0, 5, 7, 1)] (snd (sbi_fwft_set 1 1 1 ex_fwft))))) = SBI_EINVAL"
proof -
  obtain ret s1 where s1: "sbi_fwft_set 1 1 1 ex_fwft = (ret, s1)" by (metis surj_pair)
  have "fst (store_set (fwft_norm ex_fwft_hw) 1 1 1 (fwft_store ex_fwft)) = 0"
    by (simp add: store_set_def fwft_store_def ex_fwft_def ex_fwft_hw_def fwft_supported_def fwft_norm_def new_configs_def features_def)
  then have ret: "ret = 0"
    using fwft_set_step [OF ex_fwft_ok(2) s1] by (simp add: ex_fwft_def)
  obtain rs s2 where s2: "fwft_run [(0, 1, 0, 0), (0, 5, 7, 1)] s1 = (rs, s2)" by (metis surj_pair)
  have lock: "sbi_fwft_set 1 1 SBI_FWFT_SET_FLAG_LOCK ex_fwft = (0, s1)" using s1 ret by simp
  have "fwft_norm (fw_hw ex_fwft) 1 1 = Some 1" by (simp add: fwft_norm_def)
  then have "sbi_fwft_get 1 s2 = (0, 1)" "sbi_fwft_set 1 0 0 s2 = (SBI_EDENIED_LOCKED, s2)" "sbi_fwft_set 1 0 2 s2 = (SBI_EINVAL, s2)"
    using fwft_lock_final [OF ex_fwft_ok(2) lock s2] by (simp_all add: word_le_1)
  then show ?thesis using ex_fwft_ok(2) s1 ret s2 by simp
qed

text \<open>
  \<open>fwft_set_misaligned_delegation\<close> does not look whether \<open>medeleg\<close> took the value: on a hart where misaligned accesses cannot be
  delegated SET reports success and GET still reads 0.
\<close>

lemma misaligned_deleg_unchecked:
  "sbi_fwft_set 0 1 0 (ex_fwft\<lparr>fw_hw := ex_fwft_hw\<lparr>medeleg_wr := 0\<rparr>\<rparr>) = (0, ex_fwft\<lparr>fw_hw := ex_fwft_hw\<lparr>medeleg_wr := 0\<rparr>\<rparr>)"
  "sbi_fwft_get 0 (ex_fwft\<lparr>fw_hw := ex_fwft_hw\<lparr>medeleg_wr := 0\<rparr>\<rparr>) = (0, 0)"
  by (simp_all add: sbi_fwft_set_def sbi_fwft_get_def fwft_get_feature_def get_feature_config_def ex_fwft_def new_configs_def
      features_def fwft_misaligned_delegation_supported_def ex_fwft_hw_def fwft_set_misaligned_delegation_def medeleg_write_def
      set_flags_def fwft_get_misaligned_delegation_def)

end
