(* ===== verification/Sbi_Pmu.thy ===== *)
theory Sbi_Pmu
  imports Sbi_Pmp Sbi_Bitops "HOL-Library.Monad_Syntax"
begin

unbundle bit_operations_syntax

text \<open>
  The performance monitoring unit, \<open>lib/sbi/sbi_pmu.c\<close>, on RV64: the map from events to hardware counters, the events the counters
  of a hart are configured for, the firmware counters, and the SBI calls that configure, start, stop and read counters.

  The state holds the globals of the file, the record of one hart and its CSRs. \<open>active_events\<close> and \<open>fw_counters_data\<close> are lists of
  the lengths of the arrays; an access outside an array, or to a CSR that \<open>csr_write_num\<close> does not know and that makes it panic, gives
  \<open>None\<close>. The callbacks of the platform's PMU device work on the state \<open>'d\<close> of the device. Indices are \<open>u32\<close> as in the code, so
  that \<open>cidx - num_hw_ctrs\<close> wraps around.
\<close>

subsection \<open>Constants and state\<close>

definition SBI_PMU_HW_EVENT_MAX :: nat where [simp, sbi_defs]: "SBI_PMU_HW_EVENT_MAX = 256"
definition SBI_PMU_FW_CTR_MAX :: nat where [simp, sbi_defs]: "SBI_PMU_FW_CTR_MAX = 16"
definition SBI_PMU_HW_CTR_MAX :: nat where [simp, sbi_defs]: "SBI_PMU_HW_CTR_MAX = 32"
definition SBI_PMU_FIXED_CTR_MASK :: ulong where [simp, sbi_defs]: "SBI_PMU_FIXED_CTR_MASK = 7"
definition SBI_PMU_CY_IR_MASK :: ulong where [simp, sbi_defs]: "SBI_PMU_CY_IR_MASK = 5"

definition SBI_PMU_HW_CPU_CYCLES :: u32 where [simp, sbi_defs]: "SBI_PMU_HW_CPU_CYCLES = 1"
definition SBI_PMU_HW_INSTRUCTIONS :: u32 where [simp, sbi_defs]: "SBI_PMU_HW_INSTRUCTIONS = 2"
definition SBI_PMU_HW_GENERAL_MAX :: u32 where [simp, sbi_defs]: "SBI_PMU_HW_GENERAL_MAX = 11"
definition SBI_PMU_HW_CACHE_MAX :: u32 where [simp, sbi_defs]: "SBI_PMU_HW_CACHE_MAX = 7"
definition SBI_PMU_HW_CACHE_OP_MAX :: u32 where [simp, sbi_defs]: "SBI_PMU_HW_CACHE_OP_MAX = 3"
definition SBI_PMU_HW_CACHE_RESULT_MAX :: u32 where [simp, sbi_defs]: "SBI_PMU_HW_CACHE_RESULT_MAX = 2"
definition SBI_PMU_FW_MAX :: u32 where [simp, sbi_defs]: "SBI_PMU_FW_MAX = 22"
definition SBI_PMU_FW_RESERVED_MAX :: u32 where [simp, sbi_defs]: "SBI_PMU_FW_RESERVED_MAX = 0xFFFE"
definition SBI_PMU_FW_PLATFORM :: u32 where [simp, sbi_defs]: "SBI_PMU_FW_PLATFORM = 0xFFFF"
definition SBI_PMU_EVENT_TYPE_HW :: int where [simp, sbi_defs]: "SBI_PMU_EVENT_TYPE_HW = 0"
definition SBI_PMU_EVENT_TYPE_HW_CACHE :: int where [simp, sbi_defs]: "SBI_PMU_EVENT_TYPE_HW_CACHE = 1"
definition SBI_PMU_EVENT_TYPE_HW_RAW :: int where [simp, sbi_defs]: "SBI_PMU_EVENT_TYPE_HW_RAW = 2"
definition SBI_PMU_EVENT_TYPE_HW_RAW_V2 :: int where [simp, sbi_defs]: "SBI_PMU_EVENT_TYPE_HW_RAW_V2 = 3"
definition SBI_PMU_EVENT_TYPE_FW :: int where [simp, sbi_defs]: "SBI_PMU_EVENT_TYPE_FW = 15"
definition SBI_PMU_EVENT_TYPE_MAX :: int where [simp, sbi_defs]: "SBI_PMU_EVENT_TYPE_MAX = 16"
definition SBI_PMU_EVENT_RAW_IDX :: u32 where [simp, sbi_defs]: "SBI_PMU_EVENT_RAW_IDX = 0x20000"
definition SBI_PMU_EVENT_RAW_V2_IDX :: u32 where [simp, sbi_defs]: "SBI_PMU_EVENT_RAW_V2_IDX = 0x30000"
definition SBI_PMU_EVENT_IDX_INVALID :: u32 where [simp, sbi_defs]: "SBI_PMU_EVENT_IDX_INVALID = 0xFFFFFFFF"

definition MHPMEVENT_OF :: ulong where [sbi_defs]: "MHPMEVENT_OF = BIT 63"
definition MHPMEVENT_MINH :: ulong where [sbi_defs]: "MHPMEVENT_MINH = BIT 62"
definition MHPMEVENT_SINH :: ulong where [sbi_defs]: "MHPMEVENT_SINH = BIT 61"
definition MHPMEVENT_UINH :: ulong where [sbi_defs]: "MHPMEVENT_UINH = BIT 60"
definition MHPMEVENT_VSINH :: ulong where [sbi_defs]: "MHPMEVENT_VSINH = BIT 59"
definition MHPMEVENT_VUINH :: ulong where [sbi_defs]: "MHPMEVENT_VUINH = BIT 58"
definition MHPMEVENT_SSCOF_MASK :: ulong where [sbi_defs]: "MHPMEVENT_SSCOF_MASK = 0xFF00000000000000"
definition IRQ_PMU_OVF :: int where [simp, sbi_defs]: "IRQ_PMU_OVF = 13"
definition CSR_MIDELEG :: nat where [simp, sbi_defs]: "CSR_MIDELEG = 0x303"
definition CSR_MIE :: nat where [simp, sbi_defs]: "CSR_MIE = 0x304"
definition CSR_MCOUNTEREN :: nat where [simp, sbi_defs]: "CSR_MCOUNTEREN = 0x306"
definition CSR_MIP :: nat where [simp, sbi_defs]: "CSR_MIP = 0x344"
definition CSR_CYCLE :: ulong where [simp, sbi_defs]: "CSR_CYCLE = 0xc00"

record sbi_pmu_hw_event =
  counters :: u32
  start_idx :: u32
  end_idx :: u32
  evt_select :: u64
  select_mask :: u64

record sbi_pmu_hart_state =
  phs_hartid :: u32
  active_events :: "u32 list"
  fw_counters_started :: ulong
  sse_enabled :: bool
  fw_counters_data :: "u64 list"

record 'd sbi_pmu_device =
  fw_event_validate_encoding :: "(u32 \<Rightarrow> u64 \<Rightarrow> int) option"
  fw_counter_match_encoding :: "(u32 \<Rightarrow> u32 \<Rightarrow> u64 \<Rightarrow> bool) option"
  fw_counter_width :: "int option"
  fw_counter_read_value :: "(u32 \<Rightarrow> u32 \<Rightarrow> 'd \<Rightarrow> u64) option"
  fw_counter_write_value :: "(u32 \<Rightarrow> u32 \<Rightarrow> u64 \<Rightarrow> 'd \<Rightarrow> 'd) option"
  fw_counter_start :: "(u32 \<Rightarrow> u32 \<Rightarrow> u64 \<Rightarrow> 'd \<Rightarrow> int \<times> 'd) option"
  fw_counter_stop :: "(u32 \<Rightarrow> u32 \<Rightarrow> 'd \<Rightarrow> int \<times> 'd) option"
  hw_counter_enable_irq :: "(u32 \<Rightarrow> 'd \<Rightarrow> 'd) option"
  hw_counter_disable_irq :: "(u32 \<Rightarrow> 'd \<Rightarrow> 'd) option"
  hw_counter_irq_bit :: "int option"
  hw_counter_filter_mode :: "(ulong \<Rightarrow> int \<Rightarrow> 'd \<Rightarrow> 'd) option"

text \<open>What the hart has, and the platform's translation of an event to a value for \<open>mhpmevent\<close>.\<close>

record pmu_features =
  mhpm_mask :: u32
  mhpm_bits :: u32
  priv_1_10 :: bool
  priv_1_11 :: bool
  has_sscofpmf :: bool
  has_smcntrpmf :: bool
  xlate_to_mhpmevent :: "u32 \<Rightarrow> u64 \<Rightarrow> u64"

record 'd pmu_state =
  pmu_feat :: pmu_features
  pmu_dev :: "'d sbi_pmu_device option"
  hw_event_map :: "sbi_pmu_hw_event list"
  num_hw_ctrs :: u32
  total_ctrs :: u32
  has_phs :: bool
  phs :: sbi_pmu_hart_state
  pmu_hw :: pmp_hw
  devst :: 'd

text \<open>Access to the arrays and CSRs.\<close>

definition event_at :: "nat \<Rightarrow> 'd pmu_state \<Rightarrow> u32 option" where
  "event_at i s = (if i < length (active_events (phs s)) then Some (active_events (phs s) ! i) else None)"

definition set_event :: "nat \<Rightarrow> u32 \<Rightarrow> 'd pmu_state \<Rightarrow> 'd pmu_state option" where
  "set_event i e s =
    (if i < length (active_events (phs s))
     then Some (s\<lparr>phs := (phs s)\<lparr>active_events := (active_events (phs s))[i := e]\<rparr>\<rparr>) else None)"

definition fw_ix :: "u32 \<Rightarrow> 'd pmu_state \<Rightarrow> nat" where
  "fw_ix cidx s = unat (cidx - num_hw_ctrs s)"

definition data_at :: "nat \<Rightarrow> 'd pmu_state \<Rightarrow> u64 option" where
  "data_at i s = (if i < length (fw_counters_data (phs s)) then Some (fw_counters_data (phs s) ! i) else None)"

definition set_data :: "nat \<Rightarrow> u64 \<Rightarrow> 'd pmu_state \<Rightarrow> 'd pmu_state option" where
  "set_data i v s =
    (if i < length (fw_counters_data (phs s))
     then Some (s\<lparr>phs := (phs s)\<lparr>fw_counters_data := (fw_counters_data (phs s))[i := v]\<rparr>\<rparr>) else None)"

definition set_started :: "ulong \<Rightarrow> 'd pmu_state \<Rightarrow> 'd pmu_state" where
  "set_started w s = s\<lparr>phs := (phs s)\<lparr>fw_counters_started := w\<rparr>\<rparr>"

definition write_num :: "nat \<Rightarrow> ulong \<Rightarrow> 'd pmu_state \<Rightarrow> 'd pmu_state option" where
  "write_num num v s = map_option (\<lambda>m. s\<lparr>pmu_hw := m\<rparr>) (csr_write_num num v (pmu_hw s))"

definition write_csr :: "nat \<Rightarrow> ulong \<Rightarrow> 'd pmu_state \<Rightarrow> 'd pmu_state" where
  "write_csr num v s = s\<lparr>pmu_hw := csr_write num v (pmu_hw s)\<rparr>"

definition read_csr :: "nat \<Rightarrow> 'd pmu_state \<Rightarrow> ulong" where
  "read_csr num s = csr_read num (pmu_hw s)"

text \<open>\<open>pmu_dev && pmu_dev->f\<close>: the callback \<open>f\<close> if there is a device that has it.\<close>

definition dev_op :: "('d sbi_pmu_device \<Rightarrow> 'f option) \<Rightarrow> 'd pmu_state \<Rightarrow> 'f option" where
  "dev_op f s = Option.bind (pmu_dev s) f"

subsection \<open>Events\<close>

definition get_cidx_type :: "u32 \<Rightarrow> u32" where
  "get_cidx_type x = drop_bit 16 (x AND push_bit 16 0xF)"

definition get_cidx_code :: "u32 \<Rightarrow> u32" where
  "get_cidx_code x = x AND 0xFFFF"

definition pmu_event_range_overlap :: "sbi_pmu_hw_event \<Rightarrow> sbi_pmu_hw_event \<Rightarrow> bool" where
  "pmu_event_range_overlap a b =
    (\<not> (end_idx a < start_idx b \<and> end_idx a < end_idx b \<or> start_idx a > start_idx b \<and> start_idx a > end_idx b))"

definition pmu_event_select_overlap :: "sbi_pmu_hw_event \<Rightarrow> u64 \<Rightarrow> u64 \<Rightarrow> bool" where
  "pmu_event_select_overlap evt select_val smask = (evt_select evt = select_val \<and> select_mask evt = smask)"

text \<open>Firmware event codes that are neither standard nor the platform's.\<close>

definition fw_code_bad :: "u32 \<Rightarrow> bool" where
  "fw_code_bad code \<longleftrightarrow>
    code \<ge> SBI_PMU_FW_MAX \<and> code \<le> SBI_PMU_FW_RESERVED_MAX \<or> code > SBI_PMU_FW_PLATFORM"

definition below_max :: "u32 \<Rightarrow> u32 \<Rightarrow> int \<Rightarrow> int" where
  "below_max code mx ty = (if code < mx then ty else SBI_EINVAL)"

text \<open>\<open>pmu_event_validate\<close>: \<open>get_cidx_type\<close> and \<open>get_cidx_code\<close> look at the low 20 bits of the event index.\<close>

definition pmu_event_validate :: "'d pmu_state \<Rightarrow> u32 \<Rightarrow> u64 \<Rightarrow> int" where
  "pmu_event_validate s event_idx edata =
    (let ty = uint (get_cidx_type event_idx); code = get_cidx_code event_idx
     in if ty = SBI_PMU_EVENT_TYPE_HW then below_max code SBI_PMU_HW_GENERAL_MAX ty
        else if ty = SBI_PMU_EVENT_TYPE_FW then
          if fw_code_bad code then SBI_EINVAL
          else (case dev_op fw_event_validate_encoding s of
            Some f \<Rightarrow> if code = SBI_PMU_FW_PLATFORM then f (phs_hartid (phs s)) edata else below_max code SBI_PMU_FW_MAX ty
          | None \<Rightarrow> below_max code SBI_PMU_FW_MAX ty)
        else if ty = SBI_PMU_EVENT_TYPE_HW_CACHE then
          if code AND 1 < SBI_PMU_HW_CACHE_RESULT_MAX \<and> drop_bit 1 (code AND 6) < SBI_PMU_HW_CACHE_OP_MAX \<and>
             drop_bit 3 (code AND 0xfff8) < SBI_PMU_HW_CACHE_MAX
          then ty else SBI_EINVAL
        else if ty = SBI_PMU_EVENT_TYPE_HW_RAW \<or> ty = SBI_PMU_EVENT_TYPE_HW_RAW_V2 then below_max code 1 ty
        else SBI_EINVAL)"

text \<open>\<open>pmu_ctr_validate\<close>: the type of the event the counter is configured for, and its code.\<close>

definition pmu_ctr_validate :: "u32 \<Rightarrow> 'd pmu_state \<Rightarrow> (int \<times> u32) option" where
  "pmu_ctr_validate cidx s =
    (if cidx \<ge> total_ctrs s then Some (SBI_EINVAL, 0)
     else do {
       v \<leftarrow> event_at (unat cidx) s;
       let ty = uint (get_cidx_type v);
       Some (if v = SBI_PMU_EVENT_IDX_INVALID \<or> ty \<ge> SBI_PMU_EVENT_TYPE_MAX then (SBI_EINVAL, 0) else (ty, get_cidx_code v))
     })"

text \<open>\<open>sbi_pmu_ctr_fw_read\<close> stores through \<open>cval\<close> only when it succeeds: the result has what \<open>*cval\<close> holds then.\<close>

definition sbi_pmu_ctr_fw_read :: "u32 \<Rightarrow> u64 \<Rightarrow> 'd pmu_state \<Rightarrow> (int \<times> u64) option" where
  "sbi_pmu_ctr_fw_read cidx cval s =
    (if \<not> has_phs s then Some (SBI_EINVAL, cval)
     else do {
       (ty, code) \<leftarrow> pmu_ctr_validate cidx s;
       if ty \<noteq> SBI_PMU_EVENT_TYPE_FW \<or> fw_code_bad code then Some (SBI_EINVAL, cval)
       else if code = SBI_PMU_FW_PLATFORM then
         Some (0, case dev_op fw_counter_read_value s of
             Some f \<Rightarrow> f (phs_hartid (phs s)) (cidx - num_hw_ctrs s) (devst s) | None \<Rightarrow> 0)
       else do { v \<leftarrow> data_at (fw_ix cidx s) s; Some (0, v) }
     })"

subsection \<open>The event map\<close>

fun map_overlap :: "bool \<Rightarrow> sbi_pmu_hw_event \<Rightarrow> sbi_pmu_hw_event list \<Rightarrow> bool" where
  "map_overlap raw e [] = False"
| "map_overlap raw e (x # xs) =
    ((if raw then pmu_event_select_overlap x (evt_select e) (select_mask e) else pmu_event_range_overlap x e) \<or> map_overlap raw e xs)"

definition pmu_add_hw_event_map :: "u32 \<Rightarrow> u32 \<Rightarrow> u32 \<Rightarrow> u64 \<Rightarrow> u64 \<Rightarrow> 'd pmu_state \<Rightarrow> int \<times> 'd pmu_state" where
  "pmu_add_hw_event_map eidx_start eidx_end cmap sel smask s =
    (let ctr_avail_mask = mhpm_mask (pmu_feat s) OR 7;
         event = \<lparr>counters = cmap AND ctr_avail_mask, start_idx = eidx_start, end_idx = eidx_end, evt_select = sel, select_mask = smask\<rparr>;
         raw = (eidx_start = SBI_PMU_EVENT_RAW_IDX \<or> eidx_start = SBI_PMU_EVENT_RAW_V2_IDX)
     in if eidx_start > SBI_PMU_HW_INSTRUCTIONS \<and> cmap AND 7 \<noteq> 0 then (SBI_EDENIED, s)
        else if SBI_PMU_HW_EVENT_MAX - 1 \<le> length (hw_event_map s) then (SBI_EFAIL, s)
        else if map_overlap raw event (hw_event_map s) then (SBI_EINVAL, s)
        else (0, s\<lparr>hw_event_map := hw_event_map s @ [event]\<rparr>))"

definition sbi_pmu_add_hw_event_counter_map :: "u32 \<Rightarrow> u32 \<Rightarrow> u32 \<Rightarrow> 'd pmu_state \<Rightarrow> int \<times> 'd pmu_state" where
  "sbi_pmu_add_hw_event_counter_map eidx_start eidx_end cmap s =
    (if eidx_start > eidx_end \<or> eidx_start \<ge> SBI_PMU_EVENT_RAW_IDX \<or> eidx_end \<ge> SBI_PMU_EVENT_RAW_IDX then (SBI_EINVAL, s)
     else pmu_add_hw_event_map eidx_start eidx_end cmap 0 0 s)"

definition sbi_pmu_add_raw_event_counter_map :: "u64 \<Rightarrow> u64 \<Rightarrow> u32 \<Rightarrow> 'd pmu_state \<Rightarrow> int \<times> 'd pmu_state" where
  "sbi_pmu_add_raw_event_counter_map sel smask cmap s =
    pmu_add_hw_event_map SBI_PMU_EVENT_RAW_IDX SBI_PMU_EVENT_RAW_V2_IDX cmap sel smask s"

subsection \<open>Interrupts and hardware counters\<close>

definition sbi_pmu_irq_bit :: "'d pmu_state \<Rightarrow> int" where
  "sbi_pmu_irq_bit s =
    (if has_sscofpmf (pmu_feat s) then IRQ_PMU_OVF
     else (case dev_op hw_counter_irq_bit s of Some b \<Rightarrow> b | None \<Rightarrow> -1))"

definition sbi_pmu_irq_mask :: "'d pmu_state \<Rightarrow> ulong" where
  "sbi_pmu_irq_mask s = (let b = sbi_pmu_irq_bit s in if b < 0 then 0 else BIT (nat b))"

definition dev_do :: "('d sbi_pmu_device \<Rightarrow> (u32 \<Rightarrow> 'd \<Rightarrow> 'd) option) \<Rightarrow> u32 \<Rightarrow> 'd pmu_state \<Rightarrow> 'd pmu_state" where
  "dev_do f cidx s = (case dev_op f s of Some g \<Rightarrow> s\<lparr>devst := g cidx (devst s)\<rparr> | None \<Rightarrow> s)"

definition pmu_ctr_enable_irq_hw :: "u32 \<Rightarrow> 'd pmu_state \<Rightarrow> (int \<times> 'd pmu_state) option" where
  "pmu_ctr_enable_irq_hw cidx s =
    (let i = unat cidx
     in if i < 3 \<or> SBI_PMU_HW_CTR_MAX \<le> i then Some (SBI_EFAIL, s)
        else do {
          cur \<leftarrow> csr_read_num (CSR_MHPMEVENT3 + i - 3) (pmu_hw s);
          if read_csr CSR_MIP s AND sbi_pmu_irq_mask s = 0
          then map_option (Pair 0) (write_num (CSR_MHPMEVENT3 + i - 3) (cur AND NOT MHPMEVENT_OF) s)
          else Some (0, s)
        })"

definition pmu_ctr_write_hw :: "u32 \<Rightarrow> u64 \<Rightarrow> 'd pmu_state \<Rightarrow> 'd pmu_state option" where
  "pmu_ctr_write_hw cidx ival s = write_num (CSR_MCYCLE + unat cidx) ival s"

definition pmu_ctr_start_hw :: "u32 \<Rightarrow> u64 \<Rightarrow> bool \<Rightarrow> 'd pmu_state \<Rightarrow> (int \<times> 'd pmu_state) option" where
  "pmu_ctr_start_hw cidx ival ival_update s =
    (if cidx \<ge> num_hw_ctrs s \<or> cidx = 1 then Some (SBI_EINVAL, s)
     else if \<not> priv_1_11 (pmu_feat s) then
       if ival_update then map_option (Pair 0) (pmu_ctr_write_hw cidx ival s) else Some (0, s)
     else
       let mctr_inhbt = read_csr CSR_MCOUNTINHIBIT s
       in if \<not> bit mctr_inhbt (unat cidx) then Some (SBI_EALREADY_STARTED, s)
          else do {
            s \<leftarrow> (if has_sscofpmf (pmu_feat s) then map_option snd (pmu_ctr_enable_irq_hw cidx s) else Some s);
            s \<leftarrow> (if ival_update then pmu_ctr_write_hw cidx ival s else Some s);
            Some (0, write_csr CSR_MCOUNTINHIBIT (unset_bit (unat cidx) mctr_inhbt) (dev_do hw_counter_enable_irq cidx s))
          })"

definition pmu_ctr_stop_hw :: "u32 \<Rightarrow> 'd pmu_state \<Rightarrow> int \<times> 'd pmu_state" where
  "pmu_ctr_stop_hw cidx s =
    (if \<not> priv_1_11 (pmu_feat s) then (0, s)
     else
       let mctr_inhbt = read_csr CSR_MCOUNTINHIBIT s
       in if cidx \<ge> num_hw_ctrs s \<or> cidx = 1 then (SBI_EINVAL, s)
          else if \<not> bit mctr_inhbt (unat cidx) then
            (0, dev_do hw_counter_disable_irq cidx (write_csr CSR_MCOUNTINHIBIT (set_bit (unat cidx) mctr_inhbt) s))
          else (SBI_EALREADY_STOPPED, s))"

definition pmu_reset_hw_mhpmevent :: "u32 \<Rightarrow> 'd pmu_state \<Rightarrow> (int \<times> 'd pmu_state) option" where
  "pmu_reset_hw_mhpmevent cidx s =
    (let i = unat cidx
     in if i < 3 \<or> SBI_PMU_HW_CTR_MAX \<le> i then Some (SBI_EFAIL, s)
        else map_option (Pair 0) (write_num (CSR_MHPMEVENT3 + i - 3) 0 s))"

subsection \<open>Starting and stopping\<close>

definition pmu_ctr_start_fw :: "u32 \<Rightarrow> u32 \<Rightarrow> u64 \<Rightarrow> u64 \<Rightarrow> bool \<Rightarrow> 'd pmu_state \<Rightarrow> (int \<times> 'd pmu_state) option" where
  "pmu_ctr_start_fw cidx event_code event_data ival ival_update s =
    (if fw_code_bad event_code then Some (SBI_EINVAL, s)
     else if event_code = SBI_PMU_FW_PLATFORM then
       (case (dev_op fw_counter_write_value s, dev_op fw_counter_start s) of
         (Some wr, Some st) \<Rightarrow>
           let d = (if ival_update then wr (phs_hartid (phs s)) (cidx - num_hw_ctrs s) ival (devst s) else devst s)
           in (case st (phs_hartid (phs s)) (cidx - num_hw_ctrs s) event_data d of (ret, d) \<Rightarrow> Some (ret, s\<lparr>devst := d\<rparr>))
       | _ \<Rightarrow> Some (SBI_EINVAL, s))
     else do {
       s \<leftarrow> (if ival_update then set_data (fw_ix cidx s) ival s else Some s);
       Some (0, set_started (fw_counters_started (phs s) OR BIT (fw_ix cidx s)) s)
     })"

definition pmu_ctr_stop_fw :: "u32 \<Rightarrow> u32 \<Rightarrow> 'd pmu_state \<Rightarrow> int \<times> 'd pmu_state" where
  "pmu_ctr_stop_fw cidx event_code s =
    (if fw_code_bad event_code then (SBI_EINVAL, s)
     else
       let (ret, s) =
         (if event_code = SBI_PMU_FW_PLATFORM then
            (case dev_op fw_counter_stop s of
              Some st \<Rightarrow> (case st (phs_hartid (phs s)) (cidx - num_hw_ctrs s) (devst s) of (ret, d) \<Rightarrow> (ret, s\<lparr>devst := d\<rparr>))
            | None \<Rightarrow> (0, s))
          else (0, s))
       in if ret \<noteq> 0 then (ret, s)
          else (0, set_started (fw_counters_started (phs s) AND NOT (BIT (fw_ix cidx s))) s))"

text \<open>The set bits of \<open>cmask\<close> and the index \<open>i + cbase\<close> as the \<open>int\<close> the code computes.\<close>

definition mask_bits :: "ulong \<Rightarrow> nat list" where
  "mask_bits cmask = for_each_set_bit [cmask] 64"

definition ctr_index :: "nat \<Rightarrow> ulong \<Rightarrow> u32" where
  "ctr_index i cbase = ucast (of_nat i + cbase)"

fun start_loop :: "ulong \<Rightarrow> u64 \<Rightarrow> bool \<Rightarrow> nat list \<Rightarrow> int \<Rightarrow> 'd pmu_state \<Rightarrow> (int \<times> 'd pmu_state) option" where
  "start_loop cbase ival upd [] ret s = Some (ret, s)"
| "start_loop cbase ival upd (i # is) ret s = do {
    let cidx = ctr_index i cbase;
    (ty, code) \<leftarrow> pmu_ctr_validate cidx s;
    if ty < 0 then start_loop cbase ival upd is ret s
    else do {
      (ret, s) \<leftarrow> (if ty = SBI_PMU_EVENT_TYPE_FW then do {
          edata \<leftarrow> (if code = SBI_PMU_FW_PLATFORM then data_at (fw_ix cidx s) s else Some 0);
          pmu_ctr_start_fw cidx code edata ival upd s }
        else pmu_ctr_start_hw cidx ival upd s);
      start_loop cbase ival upd is ret s }}"

definition sbi_pmu_ctr_start :: "ulong \<Rightarrow> ulong \<Rightarrow> ulong \<Rightarrow> u64 \<Rightarrow> 'd pmu_state \<Rightarrow> (int \<times> 'd pmu_state) option" where
  "sbi_pmu_ctr_start cbase cmask flg ival s =
    (if \<not> has_phs s then Some (SBI_EINVAL, s)
     else if cbase + of_nat (sbi_fls cmask) \<ge> ucast (total_ctrs s) then Some (SBI_EINVAL, s)
     else if bit flg 1 then Some (SBI_ENO_SHMEM, s)
     else start_loop cbase ival (bit flg 0) (mask_bits cmask) SBI_EINVAL s)"

fun stop_loop :: "ulong \<Rightarrow> bool \<Rightarrow> nat list \<Rightarrow> int \<Rightarrow> 'd pmu_state \<Rightarrow> (int \<times> 'd pmu_state) option" where
  "stop_loop cbase reset [] ret s = Some (ret, s)"
| "stop_loop cbase reset (i # is) ret s = do {
    let cidx = ctr_index i cbase;
    (ty, code) \<leftarrow> pmu_ctr_validate cidx s;
    if ty < 0 then stop_loop cbase reset is ret s
    else do {
      let (ret, s) = (if ty = SBI_PMU_EVENT_TYPE_FW then pmu_ctr_stop_fw cidx code s else pmu_ctr_stop_hw cidx s);
      s \<leftarrow> (if cidx > 2 \<and> reset then do {
          s \<leftarrow> set_event (unat cidx) SBI_PMU_EVENT_IDX_INVALID s;
          map_option snd (pmu_reset_hw_mhpmevent cidx s) }
        else Some s);
      stop_loop cbase reset is ret s }}"

definition sbi_pmu_ctr_stop :: "ulong \<Rightarrow> ulong \<Rightarrow> ulong \<Rightarrow> 'd pmu_state \<Rightarrow> (int \<times> 'd pmu_state) option" where
  "sbi_pmu_ctr_stop cbase cmask flag s =
    (if \<not> has_phs s then Some (SBI_EINVAL, s)
     else if cbase + of_nat (sbi_fls cmask) \<ge> ucast (total_ctrs s) then Some (SBI_EINVAL, s)
     else if bit flag 1 then Some (SBI_ENO_SHMEM, s)
     else do {
       (ret, s) \<leftarrow> stop_loop cbase (bit flag 0) (mask_bits cmask) SBI_EINVAL s;
       Some (ret, if sse_enabled (phs s) then write_csr CSR_MIP (read_csr CSR_MIP s AND NOT (sbi_pmu_irq_mask s)) s else s)
     })"

subsection \<open>Configuration\<close>

definition pmu_update_inhibit_flags :: "ulong \<Rightarrow> u64 \<Rightarrow> u64" where
  "pmu_update_inhibit_flags flg v =
    (let v = (if bit flg 3 then v OR MHPMEVENT_VUINH else v);
         v = (if bit flg 4 then v OR MHPMEVENT_VSINH else v);
         v = (if bit flg 5 then v OR MHPMEVENT_UINH else v)
     in (if bit flg 6 then v OR MHPMEVENT_SINH else v))"

definition filter_mode :: "ulong \<Rightarrow> int \<Rightarrow> 'd pmu_state \<Rightarrow> 'd pmu_state" where
  "filter_mode flg i s = (case dev_op hw_counter_filter_mode s of Some f \<Rightarrow> s\<lparr>devst := f flg i (devst s)\<rparr> | None \<Rightarrow> s)"

definition pmu_update_hw_mhpmevent :: "nat \<Rightarrow> ulong \<Rightarrow> u32 \<Rightarrow> u64 \<Rightarrow> 'd pmu_state \<Rightarrow> (int \<times> 'd pmu_state) option" where
  "pmu_update_hw_mhpmevent i flg eindex data s =
    (let v = xlate_to_mhpmevent (pmu_feat s) eindex data
     in if v = 0 \<or> i < 3 \<or> SBI_PMU_HW_CTR_MAX \<le> i then Some (SBI_EFAIL, s)
        else
          let v = (if has_sscofpmf (pmu_feat s) then (v AND NOT MHPMEVENT_SSCOF_MASK) OR MHPMEVENT_MINH OR MHPMEVENT_OF else v);
              s = dev_do hw_counter_disable_irq (of_nat i) s;
              v = (if has_sscofpmf (pmu_feat s) then pmu_update_inhibit_flags flg v else v);
              s = filter_mode flg (int i) s
          in map_option (Pair 0) (write_num (CSR_MHPMEVENT3 + i - 3) v s))"

definition pmu_fixed_ctr_update_inhibit_bits :: "int \<Rightarrow> ulong \<Rightarrow> 'd pmu_state \<Rightarrow> (int \<times> 'd pmu_state) option" where
  "pmu_fixed_ctr_update_inhibit_bits fixed_ctr flg s =
    (if \<not> has_smcntrpmf (pmu_feat s) \<and> dev_op hw_counter_filter_mode s = None then Some (fixed_ctr, s)
     else if fixed_ctr \<noteq> 0 \<and> fixed_ctr \<noteq> 2 then Some (SBI_EFAIL, s)
     else do {
       let cfg_csr_no = (if fixed_ctr = 0 then CSR_MCYCLECFG else CSR_MINSTRETCFG);
       s \<leftarrow> (if has_smcntrpmf (pmu_feat s) then write_num cfg_csr_no (pmu_update_inhibit_flags flg MHPMEVENT_MINH) s else Some s);
       Some (fixed_ctr, filter_mode flg fixed_ctr s)
     })"

definition pmu_ctr_find_fixed_hw :: "ulong \<Rightarrow> int" where
  "pmu_ctr_find_fixed_hw evt_idx = (if evt_idx = 1 then 0 else if evt_idx = 2 then 2 else SBI_EINVAL)"

text \<open>
  The search of \<open>pmu_ctr_find_hw\<close>. The loop over the bits of one map entry uses \<open>cbase\<close> as its variable and leaves it at
  \<open>SBI_PMU_HW_CTR_MAX\<close>, where the search of the next entry starts; the last free counter found is the result.
\<close>

definition bits_from :: "nat \<Rightarrow> ulong \<Rightarrow> nat list" where
  "bits_from b m = for_each_set_bit_loop SBI_PMU_HW_CTR_MAX [m] SBI_PMU_HW_CTR_MAX (find_next_bit [m] SBI_PMU_HW_CTR_MAX b)"

fun free_ctr :: "nat list \<Rightarrow> ulong \<Rightarrow> int \<Rightarrow> 'd pmu_state \<Rightarrow> int option" where
  "free_ctr [] inhbt found s = Some found"
| "free_ctr (b # bs) inhbt found s = do {
    v \<leftarrow> event_at b s;
    if v \<noteq> SBI_PMU_EVENT_IDX_INVALID \<or> priv_1_11 (pmu_feat s) \<and> \<not> bit inhbt b then free_ctr bs inhbt found s
    else free_ctr bs inhbt (int b) s }"

definition event_matches :: "sbi_pmu_hw_event \<Rightarrow> ulong \<Rightarrow> u64 \<Rightarrow> bool" where
  "event_matches t event_idx data =
    (\<not> (ucast (start_idx t) > event_idx \<and> event_idx < ucast (end_idx t) \<or>
        ucast (start_idx t) < event_idx \<and> event_idx > ucast (end_idx t)) \<and>
     (event_idx = 0x20000 \<or> event_idx = 0x30000 \<longrightarrow> evt_select t = data AND select_mask t))"

fun find_hw_loop :: "sbi_pmu_hw_event list \<Rightarrow> ulong \<Rightarrow> ulong \<Rightarrow> u64 \<Rightarrow> ulong \<Rightarrow> nat \<Rightarrow> int \<Rightarrow> 'd pmu_state \<Rightarrow> int option" where
  "find_hw_loop [] cmask event_idx data inhbt cbase found s = Some found"
| "find_hw_loop (t # ts) cmask event_idx data inhbt cbase found s =
    (if \<not> event_matches t event_idx data then find_hw_loop ts cmask event_idx data inhbt cbase found s
     else do {
       let ctr_mask = ucast (counters t) AND push_bit cbase cmask AND NOT SBI_PMU_FIXED_CTR_MASK;
       found \<leftarrow> free_ctr (bits_from cbase ctr_mask) inhbt found s;
       find_hw_loop ts cmask event_idx data inhbt SBI_PMU_HW_CTR_MAX found s })"

definition pmu_ctr_find_hw :: "ulong \<Rightarrow> ulong \<Rightarrow> ulong \<Rightarrow> ulong \<Rightarrow> u64 \<Rightarrow> 'd pmu_state \<Rightarrow> (int \<times> 'd pmu_state) option" where
  "pmu_ctr_find_hw cbase cmask flg event_idx data s =
    (if cbase \<ge> ucast (num_hw_ctrs s) then Some (SBI_EINVAL, s)
     else
       let fixed_ctr = pmu_ctr_find_fixed_hw event_idx
       in if fixed_ctr \<ge> 0 \<and> \<not> has_sscofpmf (pmu_feat s) then pmu_fixed_ctr_update_inhibit_bits fixed_ctr flg s
          else do {
            let inhbt = (if priv_1_11 (pmu_feat s) then read_csr CSR_MCOUNTINHIBIT s else 0);
            ctr_idx \<leftarrow> find_hw_loop (hw_event_map s) cmask event_idx data inhbt (unat cbase) SBI_ENOTSUPP s;
            if ctr_idx = SBI_ENOTSUPP then
              if fixed_ctr \<ge> 0 then pmu_fixed_ctr_update_inhibit_bits fixed_ctr flg s else Some (SBI_EFAIL, s)
            else do {
              (ret, s) \<leftarrow> pmu_update_hw_mhpmevent (nat ctr_idx) flg (ucast event_idx) data s;
              Some (if ret = 0 then ctr_idx else ret, s) }})"

text \<open>\<open>pmu_ctr_find_fw\<close>: the counter is \<open>i + cbase\<close>, but the table is indexed with \<open>i\<close>, and \<open>i\<close> is the result.\<close>

fun find_fw_loop :: "nat list \<Rightarrow> ulong \<Rightarrow> u32 \<Rightarrow> u64 \<Rightarrow> 'd pmu_state \<Rightarrow> int option" where
  "find_fw_loop [] cbase event_code edata s = Some SBI_ENOTSUPP"
| "find_fw_loop (i # is) cbase event_code edata s =
    (let cidx = ctr_index i cbase
     in if cidx < num_hw_ctrs s \<or> total_ctrs s \<le> cidx then find_fw_loop is cbase event_code edata s
        else do {
          v \<leftarrow> event_at i s;
          if v \<noteq> SBI_PMU_EVENT_IDX_INVALID then find_fw_loop is cbase event_code edata s
          else (case dev_op fw_counter_match_encoding s of
            Some f \<Rightarrow>
              if event_code = SBI_PMU_FW_PLATFORM \<and> \<not> f (phs_hartid (phs s)) (cidx - num_hw_ctrs s) edata
              then find_fw_loop is cbase event_code edata s else Some (int i)
          | None \<Rightarrow> Some (int i)) })"

definition pmu_ctr_find_fw :: "ulong \<Rightarrow> ulong \<Rightarrow> u32 \<Rightarrow> u64 \<Rightarrow> 'd pmu_state \<Rightarrow> int option" where
  "pmu_ctr_find_fw cbase cmask event_code edata s = find_fw_loop (mask_bits cmask) cbase event_code edata s"

text \<open>\<open>sbi_pmu_ctr_cfg_match\<close> from the label \<open>skip_match\<close> on.\<close>

definition cfg_finish :: "u32 \<Rightarrow> int \<Rightarrow> u32 \<Rightarrow> ulong \<Rightarrow> u64 \<Rightarrow> 'd pmu_state \<Rightarrow> (int \<times> 'd pmu_state) option" where
  "cfg_finish ctr event_type event_code flg event_data s =
    (if event_type = SBI_PMU_EVENT_TYPE_HW then do {
       s \<leftarrow> (if bit flg 1 then pmu_ctr_write_hw ctr 0 s else Some s);
       s \<leftarrow> (if bit flg 2 then map_option snd (pmu_ctr_start_hw ctr 0 False s) else Some s);
       Some (uint ctr, s) }
     else if event_type = SBI_PMU_EVENT_TYPE_FW then do {
       s \<leftarrow> (if bit flg 1 then set_data (fw_ix ctr s) 0 s else Some s);
       if bit flg 2 then
         (case dev_op fw_counter_start s of
           Some st \<Rightarrow>
             if event_code = SBI_PMU_FW_PLATFORM then
               (case st (phs_hartid (phs s)) (ctr - num_hw_ctrs s) event_data (devst s) of (ret, d) \<Rightarrow>
                 let s = s\<lparr>devst := d\<rparr>
                 in if ret \<noteq> 0 then Some (ret, s)
                    else Some (uint ctr, set_started (fw_counters_started (phs s) OR BIT (fw_ix ctr s)) s))
             else Some (uint ctr, set_started (fw_counters_started (phs s) OR BIT (fw_ix ctr s)) s)
         | None \<Rightarrow> Some (uint ctr, set_started (fw_counters_started (phs s) OR BIT (fw_ix ctr s)) s))
       else Some (uint ctr, s) }
     else Some (uint ctr, s))"

definition sbi_pmu_ctr_cfg_match ::
  "ulong \<Rightarrow> ulong \<Rightarrow> ulong \<Rightarrow> ulong \<Rightarrow> u64 \<Rightarrow> 'd pmu_state \<Rightarrow> (int \<times> 'd pmu_state) option" where
  "sbi_pmu_ctr_cfg_match cidx_base cidx_mask flg event_idx event_data s =
    (if \<not> has_phs s then Some (SBI_EINVAL, s)
     else if cidx_base + of_nat (sbi_fls cidx_mask) \<ge> ucast (total_ctrs s) then Some (SBI_EINVAL, s)
     else
       let event_type = pmu_event_validate s (ucast event_idx) event_data;
           event_code = get_cidx_code (ucast event_idx)
       in if event_type < 0 then Some (SBI_EINVAL, s)
          else if bit flg 0 then do {
            let cidx_first = cidx_base + of_nat (sbi_ffs cidx_mask);
            v \<leftarrow> event_at (unat cidx_first) s;
            if v = SBI_PMU_EVENT_IDX_INVALID then Some (SBI_EINVAL, s)
            else cfg_finish (ucast cidx_first) event_type event_code flg event_data s }
          else do {
            (ctr_idx, s) \<leftarrow>
              (if event_type = SBI_PMU_EVENT_TYPE_FW then do {
                 c \<leftarrow> pmu_ctr_find_fw cidx_base cidx_mask event_code event_data s;
                 s \<leftarrow> (if event_code = SBI_PMU_FW_PLATFORM then set_data (fw_ix (word_of_int c) s) event_data s else Some s);
                 Some (c, s) }
               else pmu_ctr_find_hw cidx_base cidx_mask flg event_idx event_data s);
            if ctr_idx < 0 then Some (SBI_ENOTSUPP, s)
            else do {
              s \<leftarrow> set_event (nat ctr_idx) (ucast event_idx) s;
              cfg_finish (word_of_int ctr_idx) event_type event_code flg event_data s }})"

subsection \<open>Firmware events, information, boot\<close>

fun incr_search :: "u32 \<Rightarrow> nat \<Rightarrow> nat \<Rightarrow> 'd pmu_state \<Rightarrow> nat option option" where
  "incr_search fw_id cidx 0 s = Some None"
| "incr_search fw_id cidx (Suc left) s = do {
    v \<leftarrow> event_at cidx s;
    if get_cidx_code v = fw_id \<and> fw_counters_started (phs s) AND BIT (cidx - unat (num_hw_ctrs s)) \<noteq> 0
    then Some (Some (cidx - unat (num_hw_ctrs s)))
    else incr_search fw_id (cidx + 1) left s }"

text \<open>\<open>for (cidx = num_hw_ctrs; cidx < total_ctrs; cidx++)\<close>; the search gives the index into \<open>fw_counters_data\<close>.\<close>

definition sbi_pmu_ctr_incr_fw :: "u32 \<Rightarrow> 'd pmu_state \<Rightarrow> (int \<times> 'd pmu_state) option" where
  "sbi_pmu_ctr_incr_fw fw_id s =
    (if \<not> has_phs s \<or> fw_counters_started (phs s) = 0 then Some (0, s)
     else if fw_id \<ge> SBI_PMU_FW_MAX then Some (SBI_EINVAL, s)
     else do {
       k \<leftarrow> incr_search fw_id (unat (num_hw_ctrs s)) (unat (total_ctrs s) - unat (num_hw_ctrs s)) s;
       (case k of
         None \<Rightarrow> Some (0, s)
       | Some i \<Rightarrow> do { v \<leftarrow> data_at i s; s \<leftarrow> set_data i (v + 1) s; Some (0, s) }) })"

definition sbi_pmu_num_ctr :: "'d pmu_state \<Rightarrow> ulong" where
  "sbi_pmu_num_ctr s = ucast (num_hw_ctrs s + of_nat SBI_PMU_FW_CTR_MAX)"

text \<open>\<open>union sbi_pmu_ctr_info\<close>: bits 0 to 11 the CSR, 12 to 17 the width, 63 the type.\<close>

definition ctr_info :: "bool \<Rightarrow> ulong \<Rightarrow> ulong \<Rightarrow> ulong" where
  "ctr_info fw csrno width = (csrno AND 0xFFF) OR push_bit 12 (width AND 0x3F) OR (if fw then BIT 63 else 0)"

definition sbi_pmu_ctr_get_info :: "u32 \<Rightarrow> 'd pmu_state \<Rightarrow> int \<times> ulong" where
  "sbi_pmu_ctr_get_info cidx s =
    (let counter_mask = ucast (mhpm_mask (pmu_feat s)) OR SBI_PMU_CY_IR_MASK
     in if cidx \<ge> total_ctrs s then (SBI_EINVAL, 0)
        else if cidx < num_hw_ctrs s then
          if \<not> bit counter_mask (unat cidx) then (SBI_EINVAL, 0)
          else (0, ctr_info False (CSR_CYCLE + ucast cidx)
                 (if cidx = 0 \<or> cidx = 2 then 63 else ucast (mhpm_bits (pmu_feat s)) - 1))
        else (0, ctr_info True 0
               (case dev_op fw_counter_width s of Some w \<Rightarrow> if w \<noteq> 0 then word_of_int w - 1 else 63 | None \<Rightarrow> 63)))"

definition pmu_reset_event_map :: "'d pmu_state \<Rightarrow> 'd pmu_state option" where
  "pmu_reset_event_map s =
    (if unat (total_ctrs s) \<le> length (active_events (phs s)) \<and> SBI_PMU_FW_CTR_MAX \<le> length (fw_counters_data (phs s))
     then Some (s\<lparr>phs := (phs s)\<lparr>
       active_events := take 3 (active_events (phs s)) @ replicate (unat (total_ctrs s) - 3) SBI_PMU_EVENT_IDX_INVALID @
         drop (max 3 (unat (total_ctrs s))) (active_events (phs s)),
       fw_counters_data := replicate SBI_PMU_FW_CTR_MAX 0 @ drop SBI_PMU_FW_CTR_MAX (fw_counters_data (phs s)),
       fw_counters_started := 0, sse_enabled := False\<rparr>\<rparr>)
     else None)"

definition sbi_pmu_set_device :: "'d sbi_pmu_device option \<Rightarrow> 'd pmu_state \<Rightarrow> 'd pmu_state" where
  "sbi_pmu_set_device dev s = (if dev = None \<or> pmu_dev s \<noteq> None then s else s\<lparr>pmu_dev := dev\<rparr>)"

definition sbi_pmu_exit :: "'d pmu_state \<Rightarrow> 'd pmu_state option" where
  "sbi_pmu_exit s =
    (let s = (if priv_1_11 (pmu_feat s) then write_csr CSR_MCOUNTINHIBIT 0xFFFFFFF8 s else s);
         s = (if priv_1_10 (pmu_feat s) then write_csr CSR_MCOUNTEREN (-1) s else s)
     in if \<not> has_phs s then Some s else pmu_reset_event_map s)"

definition pmu_sse_enable :: "'d pmu_state \<Rightarrow> 'd pmu_state" where
  "pmu_sse_enable s =
    (let m = sbi_pmu_irq_mask s;
         s = s\<lparr>phs := (phs s)\<lparr>sse_enabled := True\<rparr>\<rparr>;
         s = write_csr CSR_MIDELEG (read_csr CSR_MIDELEG s AND NOT m) s;
         s = write_csr CSR_MIP (read_csr CSR_MIP s AND NOT m) s
     in write_csr CSR_MIE (read_csr CSR_MIE s OR m) s)"

definition pmu_sse_disable :: "'d pmu_state \<Rightarrow> 'd pmu_state" where
  "pmu_sse_disable s =
    (let m = sbi_pmu_irq_mask s;
         s = write_csr CSR_MIE (read_csr CSR_MIE s AND NOT m) s;
         s = write_csr CSR_MIP (read_csr CSR_MIP s AND NOT m) s;
         s = write_csr CSR_MIDELEG (read_csr CSR_MIDELEG s OR m) s
     in s\<lparr>phs := (phs s)\<lparr>sse_enabled := False\<rparr>\<rparr>)"

definition pmu_sse_complete :: "'d pmu_state \<Rightarrow> 'd pmu_state" where
  "pmu_sse_complete s = write_csr CSR_MIE (read_csr CSR_MIE s OR sbi_pmu_irq_mask s) s"

text \<open>
  \<open>sbi_pmu_init\<close>: \<open>off\<close>, \<open>map_mem\<close> and \<open>mem\<close> say whether the scratch offset, the event map and the record of the hart could be
  allocated, \<open>plat_init\<close> is what the platform's \<open>pmu_init\<close> does to the state. Registering the SSE event is left to \<open>Sbi_Sse\<close>. A
  failing initialisation leaves the globals as they are when it returns.
\<close>

definition new_phs :: "u32 \<Rightarrow> sbi_pmu_hart_state" where
  "new_phs hartid = \<lparr>phs_hartid = hartid, active_events = replicate (SBI_PMU_HW_CTR_MAX + SBI_PMU_FW_CTR_MAX) 0,
    fw_counters_started = 0, sse_enabled = False, fw_counters_data = replicate SBI_PMU_FW_CTR_MAX 0\<rparr>"

definition pmu_init_hart :: "bool \<Rightarrow> u32 \<Rightarrow> 'd pmu_state \<Rightarrow> (int \<times> 'd pmu_state) option" where
  "pmu_init_hart mem hartid s =
    (if \<not> has_phs s \<and> \<not> mem then Some (SBI_ENOMEM, s)
     else do {
       s \<leftarrow> pmu_reset_event_map (if has_phs s then s else s\<lparr>has_phs := True, phs := new_phs hartid\<rparr>);
       s \<leftarrow> set_event 0 SBI_PMU_HW_CPU_CYCLES s;
       s \<leftarrow> set_event 1 SBI_PMU_EVENT_IDX_INVALID s;
       s \<leftarrow> set_event 2 SBI_PMU_HW_INSTRUCTIONS s;
       Some (0, s) })"

definition sbi_pmu_init ::
  "bool \<Rightarrow> bool \<Rightarrow> bool \<Rightarrow> ('d pmu_state \<Rightarrow> 'd pmu_state) \<Rightarrow> u32 \<Rightarrow> bool \<Rightarrow> 'd pmu_state \<Rightarrow> (int \<times> 'd pmu_state) option" where
  "sbi_pmu_init map_mem off mem plat_init hartid cold_boot s =
    (if \<not> cold_boot then pmu_init_hart mem hartid s
     else if \<not> map_mem \<or> \<not> off then Some (SBI_ENOMEM, s)
     else
       let hpm_count = sbi_fls (ucast (mhpm_mask (pmu_feat s)));
           s = plat_init (s\<lparr>hw_event_map := [], has_phs := False\<rparr>);
           n = (if hpm_count = 0 then 3 else hpm_count + 1);
           s = s\<lparr>num_hw_ctrs := of_nat n\<rparr>
       in if SBI_PMU_HW_CTR_MAX < n then Some (SBI_EINVAL, s)
          else pmu_init_hart mem hartid (s\<lparr>total_ctrs := of_nat (n + SBI_PMU_FW_CTR_MAX)\<rparr>))"

text \<open>
  \<open>sbi_pmu_event_get_info\<close>: the shared memory holds \<open>num_events\<close> records of 16 bytes; \<open>einfo i\<close> is the event index and data of
  record \<open>i\<close>. The result has the outputs the call stores; the outer \<open>None\<close> is the range check that does not end.
\<close>

definition event_known :: "'d pmu_state \<Rightarrow> u32 \<Rightarrow> u64 \<Rightarrow> bool" where
  "event_known s event_idx data =
    list_ex (\<lambda>t. if event_idx = SBI_PMU_EVENT_RAW_IDX \<or> event_idx = SBI_PMU_EVENT_RAW_V2_IDX
                then evt_select t = data AND select_mask t
                else start_idx t \<le> event_idx \<and> event_idx \<le> end_idx t) (hw_event_map s)"

definition event_output :: "'d pmu_state \<Rightarrow> u32 \<times> u64 \<Rightarrow> u32" where
  "event_output s e =
    (case e of (event_idx, data) \<Rightarrow>
      if pmu_event_validate s event_idx data < 0 then 0 else if event_known s event_idx data then 1 else 0)"

definition sbi_pmu_event_get_info ::
  "sbi_domain \<Rightarrow> ulong \<Rightarrow> ulong \<Rightarrow> ulong \<Rightarrow> ulong \<Rightarrow> (nat \<Rightarrow> u32 \<times> u64) \<Rightarrow> 'd pmu_state \<Rightarrow> (int \<times> u32 list) option" where
  "sbi_pmu_event_get_info d shmem_phys_lo shmem_phys_hi num_events flg einfo s =
    (if flg \<noteq> 0 then Some (SBI_EINVAL, [])
     else if num_events = 0 \<or> shmem_phys_lo AND 0xF \<noteq> 0 then Some (SBI_EINVAL, [])
     else if shmem_phys_hi \<noteq> 0 then Some (SBI_EINVALID_ADDR, [])
     else do {
       ok \<leftarrow> sbi_domain_check_addr_range (Some d) shmem_phys_lo (num_events * 16) PRV_S (SBI_DOMAIN_READ OR SBI_DOMAIN_WRITE);
       Some (if \<not> ok then (SBI_EINVALID_ADDR, []) else (0, map (\<lambda>i. event_output s (einfo i)) [0..<unat num_events])) })"

text \<open>
  The SBI extension on RV64: the code, the value and the outputs stored in the shared memory, and the state. \<open>temp\<close> is what the
  local of that name holds, which the handler does not initialise; \<open>d\<close> is the domain of the hart and \<open>einfo\<close> reads the records of
  the shared memory.
\<close>

type_synonym 'd pmu_result = "(int \<times> ulong \<times> u32 list) \<times> 'd pmu_state"

definition nonneg_value :: "int \<times> 'd pmu_state \<Rightarrow> 'd pmu_result" where
  "nonneg_value r = (case r of (ret, s) \<Rightarrow> if ret \<ge> 0 then ((0, word_of_int ret, []), s) else ((ret, 0, []), s))"

definition sbi_ecall_pmu_handler ::
  "sbi_domain \<Rightarrow> (nat \<Rightarrow> u32 \<times> u64) \<Rightarrow> u64 \<Rightarrow> ulong \<Rightarrow> ulong \<Rightarrow> ulong \<Rightarrow> ulong \<Rightarrow> ulong \<Rightarrow> ulong \<Rightarrow> 'd pmu_state \<Rightarrow> 'd pmu_result option" where
  "sbi_ecall_pmu_handler d einfo temp funcid a0 a1 a2 a3 a4 s =
    (if funcid = 0 then Some ((0, sbi_pmu_num_ctr s, []), s)
     else if funcid = 1 then (case sbi_pmu_ctr_get_info (ucast a0) s of (ret, v) \<Rightarrow> Some ((ret, v, []), s))
     else if funcid = 2 then map_option nonneg_value (sbi_pmu_ctr_cfg_match a0 a1 a2 a3 a4 s)
     else if funcid = 5 then map_option (\<lambda>(ret, v). ((ret, v, []), s)) (sbi_pmu_ctr_fw_read (ucast a0) temp s)
     else if funcid = 6 then Some ((0, 0, []), s)
     else if funcid = 3 then map_option (\<lambda>(ret, s). ((ret, 0, []), s)) (sbi_pmu_ctr_start a0 a1 a2 a3 s)
     else if funcid = 4 then map_option (\<lambda>(ret, s). ((ret, 0, []), s)) (sbi_pmu_ctr_stop a0 a1 a2 s)
     else if funcid = 8 then map_option (\<lambda>(ret, outs). ((ret, 0, outs), s)) (sbi_pmu_event_get_info d a0 a1 a2 a3 einfo s)
     else Some ((SBI_ENOTSUPP, 0, []), s))"

text \<open>\<open>sbi_pmu_ovf_irq\<close> up to the injection of the event, which \<open>Sbi_Sse\<close> models.\<close>

definition sbi_pmu_ovf_irq :: "'d pmu_state \<Rightarrow> 'd pmu_state" where
  "sbi_pmu_ovf_irq s = write_csr CSR_MIE (read_csr CSR_MIE s AND NOT (sbi_pmu_irq_mask s)) s"

end
