(* ===== verification/Sbi_Pmu_Spec.thy ===== *)
theory Sbi_Pmu_Spec
  imports Sbi_Pmu
begin

unbundle bit_operations_syntax

text \<open>
  Correctness of the performance monitoring unit of \<open>lib/sbi/sbi_pmu.c\<close>.

  \<open>pmu_inv\<close> is the invariant of the state after \<open>sbi_pmu_init\<close>: a firmware event is configured on firmware counters only and any
  other event on hardware counters only, and the event map names no counter the hart does not have. Calls that keep to \<open>proper_call\<close>
  stay inside the arrays and the CSRs the firmware knows. The lemmas at the end evaluate calls that do not.
\<close>

subsection \<open>The invariant\<close>

definition is_fw :: "u32 \<Rightarrow> bool" where
  "is_fw e \<longleftrightarrow> uint (get_cidx_type e) = SBI_PMU_EVENT_TYPE_FW"

definition ctrs_exist :: "nat \<Rightarrow> sbi_pmu_hw_event \<Rightarrow> bool" where
  "ctrs_exist n t \<longleftrightarrow> (\<forall>i\<in>{3..<32}. bit (counters t) i \<longrightarrow> i < n)"

definition pmu_inv :: "'d pmu_state \<Rightarrow> bool" where
  "pmu_inv s \<longleftrightarrow>
    (let n = unat (num_hw_ctrs s); ev = active_events (phs s)
     in has_phs s \<and> 3 \<le> n \<and> n \<le> 32 \<and> unat (total_ctrs s) = n + 16 \<and> length ev = 48 \<and> length (fw_counters_data (phs s)) = 16 \<and>
        ev ! 1 = SBI_PMU_EVENT_IDX_INVALID \<and>
        (\<forall>i<n + 16. ev ! i \<noteq> SBI_PMU_EVENT_IDX_INVALID \<longrightarrow> (is_fw (ev ! i) \<longleftrightarrow> n \<le> i)) \<and>
        (\<forall>t\<in>set (hw_event_map s). ctrs_exist n t))"

text \<open>A call that returns and leaves the invariant.\<close>

definition safe :: "('a \<times> 'd pmu_state) option \<Rightarrow> bool" where
  "safe r \<longleftrightarrow> (case r of None \<Rightarrow> False | Some (v, s) \<Rightarrow> pmu_inv s)"

lemma safe_Some [simp]: "safe (Some (v, s)) \<longleftrightarrow> pmu_inv s"
  by (simp add: safe_def)

lemma safe_bind:
  assumes "safe r" and "\<And>v s. pmu_inv s \<Longrightarrow> safe (f (v, s))"
  shows "safe (Option.bind r f)"
  using assms by (cases r) (auto simp: safe_def)

lemma safe_map:
  assumes "safe r" and "\<And>v s. snd (f (v, s)) = s"
  shows "safe (map_option f r)"
  using assms by (cases r) (auto simp: safe_def split: prod.splits, metis snd_conv)

lemma pmu_inv_sizes:
  assumes "pmu_inv s"
  shows "has_phs s" "3 \<le> unat (num_hw_ctrs s)" "unat (num_hw_ctrs s) \<le> 32" "unat (total_ctrs s) = unat (num_hw_ctrs s) + 16"
    "length (active_events (phs s)) = 48" "length (fw_counters_data (phs s)) = 16"
    "active_events (phs s) ! 1 = SBI_PMU_EVENT_IDX_INVALID"
  using assms by (simp_all add: pmu_inv_def Let_def)

lemma pmu_inv_kind:
  assumes "pmu_inv s" and "i < unat (total_ctrs s)" and "active_events (phs s) ! i \<noteq> SBI_PMU_EVENT_IDX_INVALID"
  shows "is_fw (active_events (phs s) ! i) \<longleftrightarrow> unat (num_hw_ctrs s) \<le> i"
  using assms by (simp add: pmu_inv_def Let_def)

lemma pmu_inv_map:
  "pmu_inv s \<Longrightarrow> t \<in> set (hw_event_map s) \<Longrightarrow> ctrs_exist (unat (num_hw_ctrs s)) t"
  by (simp add: pmu_inv_def Let_def)

lemma pmu_inv_frame [simp]:
  "pmu_inv (s\<lparr>pmu_hw := m\<rparr>) = pmu_inv s" "pmu_inv (s\<lparr>devst := d\<rparr>) = pmu_inv s"
  by (simp_all add: pmu_inv_def)

lemma pmu_inv_started [simp]: "pmu_inv (set_started w s) = pmu_inv s"
  by (simp add: pmu_inv_def set_started_def)

lemma pmu_inv_write_csr [simp]: "pmu_inv (write_csr c v s) = pmu_inv s"
  by (simp add: write_csr_def)

lemma pmu_inv_dev_do [simp]: "pmu_inv (dev_do f i s) = pmu_inv s"
  by (simp add: dev_do_def split: option.splits)

lemma pmu_inv_filter_mode [simp]: "pmu_inv (filter_mode flg i s) = pmu_inv s"
  by (simp add: filter_mode_def split: option.splits)

lemma write_num_known: "known_csr num \<Longrightarrow> write_num num v s = Some (write_csr num v s)"
  by (simp add: write_num_def write_csr_def csr_write_num_def)

lemma set_data_inv:
  assumes "pmu_inv s" and "i < 16"
  shows "\<exists>s'. set_data i v s = Some s' \<and> pmu_inv s'"
  using assms by (simp add: set_data_def pmu_inv_def Let_def)

lemma set_event_inv:
  assumes "pmu_inv s" and "i < unat (total_ctrs s)" and "i \<noteq> 1 \<or> e = SBI_PMU_EVENT_IDX_INVALID"
    and "e \<noteq> SBI_PMU_EVENT_IDX_INVALID \<Longrightarrow> is_fw e \<longleftrightarrow> unat (num_hw_ctrs s) \<le> i"
  shows "\<exists>s'. set_event i e s = Some s' \<and> pmu_inv s'"
proof -
  have "i < 48" using assms(2) pmu_inv_sizes [OF assms(1)] by linarith
  then show ?thesis
    using assms pmu_inv_sizes [OF assms(1)] by (auto simp: set_event_def pmu_inv_def Let_def nth_list_update)
qed

lemma clear_event_inv:
  assumes "pmu_inv s" and "i < 48"
  shows "\<exists>s'. set_event i SBI_PMU_EVENT_IDX_INVALID s = Some s' \<and> pmu_inv s'"
  using assms pmu_inv_sizes [OF assms(1)] by (auto simp: set_event_def pmu_inv_def Let_def nth_list_update)

lemma data_at_inv: "pmu_inv s \<Longrightarrow> i < 16 \<Longrightarrow> data_at i s = Some (fw_counters_data (phs s) ! i)"
  by (simp add: data_at_def pmu_inv_sizes)

lemma fw_ix_eq:
  assumes "pmu_inv s" and "num_hw_ctrs s \<le> c" and "c < total_ctrs s"
  shows "fw_ix c s = unat c - unat (num_hw_ctrs s)" "fw_ix c s < 16"
proof -
  show eq: "fw_ix c s = unat c - unat (num_hw_ctrs s)"
    using assms(2) by (simp add: fw_ix_def unat_sub)
  show "fw_ix c s < 16"
    unfolding eq using assms pmu_inv_sizes(4) [OF assms(1)] by (simp add: word_le_nat_alt word_less_nat_alt)
qed

subsection \<open>The hardware counters stay within the CSRs\<close>

lemma known_counter:
  assumes "i < 32" and "i \<noteq> 1"
  shows "known_csr (CSR_MCYCLE + i)"
proof -
  have "i = 0 \<or> i = 2 \<or> 3 \<le> i" using assms by linarith
  then show ?thesis using assms(1) by (auto simp: known_csr_def sbi_defs)
qed

lemma known_event: "3 \<le> i \<Longrightarrow> i < 32 \<Longrightarrow> known_csr (800 + i)"
  by (auto simp: known_csr_def sbi_defs)

lemma ctr_write_hw_inv:
  assumes "pmu_inv s" and "unat c < 32" and "c \<noteq> 1"
  shows "\<exists>s'. pmu_ctr_write_hw c v s = Some s' \<and> pmu_inv s'"
proof -
  have "unat c \<noteq> 1" using assms(3) by (metis unat_1 word_unat_eq_iff)
  then show ?thesis
    using assms known_counter [of "unat c"] by (simp add: pmu_ctr_write_hw_def write_num_known)
qed

lemma ctr_enable_irq_safe: "pmu_inv s \<Longrightarrow> safe (pmu_ctr_enable_irq_hw c s)"
  by (simp add: pmu_ctr_enable_irq_hw_def Let_def csr_read_num_def known_event write_num_known not_less not_le)

lemma ctr_start_hw_safe:
  assumes "pmu_inv s"
  shows "safe (pmu_ctr_start_hw c v upd s)"
proof (cases "c \<ge> num_hw_ctrs s \<or> c = 1")
  case True
  then show ?thesis using assms by (simp add: pmu_ctr_start_hw_def)
next
  case False
  have c: "unat c < 32" "c \<noteq> 1"
    using False pmu_inv_sizes [OF assms] by (auto simp: word_le_nat_alt)
  have wr: "\<exists>s'. pmu_ctr_write_hw c v s = Some s' \<and> pmu_inv s'" if "pmu_inv s" for s :: "'a pmu_state"
    using ctr_write_hw_inv [OF that c] .
  have irq: "\<exists>r s'. pmu_ctr_enable_irq_hw c s = Some (r, s') \<and> pmu_inv s'"
    using ctr_enable_irq_safe [OF assms, of c] by (auto simp: safe_def split: option.splits)
  then obtain r s1 where s1: "pmu_ctr_enable_irq_hw c s = Some (r, s1)" "pmu_inv s1" by blast
  obtain s2 where s2: "pmu_ctr_write_hw c v s = Some s2" "pmu_inv s2" using wr [OF assms] by blast
  obtain s3 where s3: "pmu_ctr_write_hw c v s1 = Some s3" "pmu_inv s3" using wr [OF s1(2)] by blast
  show ?thesis
    using False assms s1 s2 s3 by (simp add: pmu_ctr_start_hw_def Let_def)
qed

lemma ctr_stop_hw_inv: "pmu_inv s \<Longrightarrow> pmu_inv (snd (pmu_ctr_stop_hw c s))"
  by (simp add: pmu_ctr_stop_hw_def Let_def)

lemma reset_mhpmevent_safe: "pmu_inv s \<Longrightarrow> safe (pmu_reset_hw_mhpmevent c s)"
  by (simp add: pmu_reset_hw_mhpmevent_def Let_def known_event write_num_known)

lemma update_mhpmevent_safe: "pmu_inv s \<Longrightarrow> safe (pmu_update_hw_mhpmevent i flg e d s)"
  by (simp add: pmu_update_hw_mhpmevent_def Let_def known_event write_num_known)

lemma known_cfg [simp]: "known_csr 801" "known_csr 802"
  by (auto simp: known_csr_def)

lemma fixed_ctr_safe: "pmu_inv s \<Longrightarrow> safe (pmu_fixed_ctr_update_inhibit_bits i flg s)"
  by (simp add: pmu_fixed_ctr_update_inhibit_bits_def Let_def write_num_known)

subsection \<open>Starting and stopping\<close>

lemma ctr_validate_cases:
  assumes "pmu_inv s"
  shows "pmu_ctr_validate c s = Some (SBI_EINVAL, 0) \<or>
    (c < total_ctrs s \<and> (\<exists>e. active_events (phs s) ! unat c = e \<and> e \<noteq> SBI_PMU_EVENT_IDX_INVALID \<and>
      pmu_ctr_validate c s = Some (uint (get_cidx_type e), get_cidx_code e)))"
  using pmu_inv_sizes [OF assms]
  by (auto simp: pmu_ctr_validate_def event_at_def Let_def not_le word_less_nat_alt)

lemma validated_fw:
  assumes "pmu_inv s" and "pmu_ctr_validate c s = Some (ty, code)" and "ty = SBI_PMU_EVENT_TYPE_FW"
  shows "fw_ix c s < 16"
proof -
  have "c < total_ctrs s" "active_events (phs s) ! unat c \<noteq> SBI_PMU_EVENT_IDX_INVALID" "is_fw (active_events (phs s) ! unat c)"
    using ctr_validate_cases [OF assms(1), of c] assms(2,3) by (auto simp: is_fw_def sbi_defs)
  then show ?thesis
    using pmu_inv_kind [OF assms(1), of "unat c"] fw_ix_eq(2) [OF assms(1)] by (simp add: word_le_nat_alt word_less_nat_alt)
qed

lemma ctr_start_fw_safe:
  assumes "pmu_inv s" and "fw_ix c s < 16"
  shows "safe (pmu_ctr_start_fw c code d v upd s)"
proof -
  obtain s' where s': "set_data (fw_ix c s) v s = Some s'" "pmu_inv s'" using set_data_inv [OF assms] by blast
  show ?thesis
    using assms(1) s' by (auto simp: pmu_ctr_start_fw_def Let_def split: option.splits prod.splits)
qed

lemma ctr_stop_fw_inv: "pmu_inv s \<Longrightarrow> pmu_inv (snd (pmu_ctr_stop_fw c code s))"
  by (auto simp: pmu_ctr_stop_fw_def Let_def split: option.splits prod.splits if_splits)

lemma start_loop_safe: "pmu_inv s \<Longrightarrow> safe (start_loop cbase v upd is ret s)"
proof (induction "is" arbitrary: ret s)
  case Nil
  then show ?case by simp
next
  case (Cons i "is")
  obtain ty code where val: "pmu_ctr_validate (ctr_index i cbase) s = Some (ty, code)"
    using ctr_validate_cases [OF Cons.prems] by blast
  show ?case
  proof (cases "ty = SBI_PMU_EVENT_TYPE_FW")
    case True
    note ix = validated_fw [OF Cons.prems val True]
    show ?thesis
      using Cons val True ix by (auto simp: Let_def data_at_inv intro!: safe_bind ctr_start_fw_safe)
  next
    case False
    then show ?thesis using Cons val by (auto simp: Let_def intro!: safe_bind ctr_start_hw_safe)
  qed
qed

lemma stop_loop_safe: "pmu_inv s \<Longrightarrow> safe (stop_loop cbase reset is ret s)"
proof (induction "is" arbitrary: ret s)
  case Nil
  then show ?case by simp
next
  case (Cons i "is")
  let ?c = "ctr_index i cbase"
  consider "pmu_ctr_validate ?c s = Some (SBI_EINVAL, 0)"
    | ty code where "?c < total_ctrs s" "pmu_ctr_validate ?c s = Some (ty, code)" "0 \<le> ty"
    using ctr_validate_cases [OF Cons.prems, of ?c] by (metis uint_ge_0)
  then show ?case
  proof cases
    case 1
    then show ?thesis using Cons by (simp add: sbi_defs)
  next
    case 2
    obtain r s1 where s1: "(if ty = SBI_PMU_EVENT_TYPE_FW then pmu_ctr_stop_fw ?c code s else pmu_ctr_stop_hw ?c s) = (r, s1)"
      by (cases "if ty = SBI_PMU_EVENT_TYPE_FW then pmu_ctr_stop_fw ?c code s else pmu_ctr_stop_hw ?c s")
    have inv1: "pmu_inv s1"
      using s1 ctr_stop_fw_inv [OF Cons.prems, of ?c code] ctr_stop_hw_inv [OF Cons.prems, of ?c]
      by (metis snd_conv)
    have "unat ?c < 48" using 2(1) pmu_inv_sizes [OF Cons.prems] by (simp add: word_less_nat_alt)
    then obtain s2 where s2: "set_event (unat ?c) SBI_PMU_EVENT_IDX_INVALID s1 = Some s2" "pmu_inv s2"
      using clear_event_inv [OF inv1] by blast
    obtain r3 s3 where s3: "pmu_reset_hw_mhpmevent ?c s2 = Some (r3, s3)" "pmu_inv s3"
      using reset_mhpmevent_safe [OF s2(2), of ?c] by (auto simp: safe_def split: option.splits)
    show ?thesis
      using 2 s1 inv1 s2 s3 Cons.IH by (auto simp add: Let_def simp del: SBI_PMU_EVENT_TYPE_FW_def SBI_PMU_EVENT_IDX_INVALID_def)
  qed
qed

lemma ctr_start_safe: "pmu_inv s \<Longrightarrow> safe (sbi_pmu_ctr_start cbase cmask flg v s)"
  by (simp add: sbi_pmu_ctr_start_def start_loop_safe)

lemma ctr_stop_safe: "pmu_inv s \<Longrightarrow> safe (sbi_pmu_ctr_stop cbase cmask flg s)"
  by (auto simp: sbi_pmu_ctr_stop_def intro!: safe_bind stop_loop_safe)

lemma fw_read_returns:
  assumes "pmu_inv s"
  shows "\<exists>r v. sbi_pmu_ctr_fw_read c t s = Some (r, v)"
proof -
  obtain ty code where val: "pmu_ctr_validate c s = Some (ty, code)"
    using ctr_validate_cases [OF assms] by blast
  show ?thesis
    using val validated_fw [OF assms val] pmu_inv_sizes(1) [OF assms]
    by (simp add: sbi_pmu_ctr_fw_read_def data_at_inv [OF assms] del: SBI_PMU_EVENT_TYPE_FW_def)
qed

text \<open>The counter \<open>i\<close> counts the firmware event \<open>fw\<close>: the test of the loop of \<open>sbi_pmu_ctr_incr_fw\<close>.\<close>

definition counting :: "u32 \<Rightarrow> 'd pmu_state \<Rightarrow> nat \<Rightarrow> bool" where
  "counting fw s i \<longleftrightarrow>
    get_cidx_code (active_events (phs s) ! i) = fw \<and> bit (fw_counters_started (phs s)) (i - unat (num_hw_ctrs s))"

lemma and_BIT_iff: "n < 64 \<Longrightarrow> w AND BIT n \<noteq> 0 \<longleftrightarrow> bit w n"
  by (simp add: BIT_lt push_bit_eq_mult and_exp_eq_0_iff_not_bit)

lemma incr_search_find:
  "cidx + left \<le> length (active_events (phs s)) \<Longrightarrow> length (active_events (phs s)) \<le> 64 \<Longrightarrow>
   incr_search fw cidx left s = Some (map_option (\<lambda>i. i - unat (num_hw_ctrs s)) (List.find (counting fw s) [cidx..<cidx + left]))"
proof (induction left arbitrary: cidx)
  case 0
  then show ?case by simp
next
  case (Suc left)
  have "[cidx..<cidx + Suc left] = cidx # [cidx + 1..<cidx + 1 + left]" by (simp add: upt_conv_Cons)
  then show ?case
    using Suc.IH [of "cidx + 1"] Suc.prems by (simp add: event_at_def counting_def and_BIT_iff)
qed

lemma incr_fw_find:
  assumes "pmu_inv s" and "fw < SBI_PMU_FW_MAX"
  shows "sbi_pmu_ctr_incr_fw fw s =
    (case List.find (counting fw s) [unat (num_hw_ctrs s)..<unat (total_ctrs s)] of
       None \<Rightarrow> Some (0, s)
     | Some i \<Rightarrow> let j = i - unat (num_hw_ctrs s)
         in Some (0, s\<lparr>phs := (phs s)\<lparr>fw_counters_data := (fw_counters_data (phs s))[j := fw_counters_data (phs s) ! j + 1]\<rparr>\<rparr>))"
proof -
  note sz = pmu_inv_sizes [OF assms(1)]
  let ?n = "unat (num_hw_ctrs s)"
  have fw: "\<not> SBI_PMU_FW_MAX \<le> fw" using assms(2) by (simp add: not_le)
  have search: "incr_search fw ?n (unat (total_ctrs s) - ?n) s =
      Some (map_option (\<lambda>i. i - ?n) (List.find (counting fw s) [?n..<unat (total_ctrs s)]))"
    using incr_search_find [of ?n 16 s fw] sz by simp
  show ?thesis
  proof (cases "List.find (counting fw s) [?n..<unat (total_ctrs s)]")
    case None
    then show ?thesis using assms(1) fw sz search by (simp add: sbi_pmu_ctr_incr_fw_def)
  next
    case (Some i)
    then have i: "?n \<le> i" "i < ?n + 16" "bit (fw_counters_started (phs s)) (i - ?n)"
      using sz by (auto simp: find_Some_iff counting_def nth_append)
    then have "fw_counters_started (phs s) \<noteq> 0" by auto
    then show ?thesis
      using assms(1) fw sz search Some i by (simp add: sbi_pmu_ctr_incr_fw_def data_at_inv set_data_def Let_def)
  qed
qed

lemma incr_fw_safe:
  assumes "pmu_inv s"
  shows "safe (sbi_pmu_ctr_incr_fw fw s)"
proof (cases "fw < SBI_PMU_FW_MAX")
  case True
  show ?thesis
    using assms by (auto simp: incr_fw_find [OF assms True] Let_def pmu_inv_def split: option.splits)
next
  case False
  then show ?thesis using assms by (simp add: sbi_pmu_ctr_incr_fw_def)
qed

lemma incr_returns:
  assumes "pmu_inv s" and "fw < SBI_PMU_FW_MAX"
  shows "\<exists>s'. sbi_pmu_ctr_incr_fw fw s = Some (0, s') \<and> pmu_inv s'"
  using incr_fw_safe [OF assms(1), of fw] by (auto simp: incr_fw_find [OF assms] Let_def split: option.splits)

subsection \<open>Choosing a counter\<close>

lemma mask_bits_eq: "mask_bits m = filter (bit m) [0..<64]"
  unfolding mask_bits_def for_each_set_bit_eq by (rule filter_cong) (auto simp: bm_bit_def)

lemma ctr_index_0: "i < 64 \<Longrightarrow> ctr_index i 0 = of_nat i"
  by (simp add: ctr_index_def word_unat_eq_iff unat_of_nat take_bit_nat_eq_self unsigned_ucast_eq)

lemma find_fw_loop_cases:
  assumes "pmu_inv s" and "\<And>i. i \<in> set is \<Longrightarrow> i < 64"
  shows "\<exists>c. find_fw_loop is 0 code d s = Some c \<and>
    (c = SBI_ENOTSUPP \<or>
     (\<exists>i\<in>set is. c = int i \<and> unat (num_hw_ctrs s) \<le> i \<and> i < unat (total_ctrs s) \<and>
       active_events (phs s) ! i = SBI_PMU_EVENT_IDX_INVALID))"
  using assms(2)
proof (induction "is")
  case Nil
  then show ?case by simp
next
  case (Cons i "is")
  obtain c where c: "find_fw_loop is 0 code d s = Some c"
    "c = SBI_ENOTSUPP \<or>
     (\<exists>i\<in>set is. c = int i \<and> unat (num_hw_ctrs s) \<le> i \<and> i < unat (total_ctrs s) \<and>
       active_events (phs s) ! i = SBI_PMU_EVENT_IDX_INVALID)"
    using Cons by fastforce
  have i: "ctr_index i 0 = of_nat i" "unat (of_nat i :: u32) = i"
    using Cons.prems [of i] by (simp_all add: ctr_index_0 unat_of_nat take_bit_nat_eq_self)
  note sz = pmu_inv_sizes [OF assms(1)]
  show ?case
  proof (cases "unat (num_hw_ctrs s) \<le> i \<and> i < unat (total_ctrs s) \<and> active_events (phs s) ! i = SBI_PMU_EVENT_IDX_INVALID")
    case True
    then show ?thesis
      using c i sz by (auto simp: Let_def event_at_def word_less_nat_alt word_le_nat_alt split: option.splits)
  next
    case False
    then have "find_fw_loop (i # is) 0 code d s = Some c"
      using c(1) i sz by (auto simp: Let_def event_at_def word_less_nat_alt word_le_nat_alt)
    then show ?thesis using c(2) by auto
  qed
qed

lemma find_fw_cases:
  assumes "pmu_inv s"
  shows "\<exists>c. pmu_ctr_find_fw 0 m code d s = Some c \<and>
    (c = SBI_ENOTSUPP \<or>
     (\<exists>i. c = int i \<and> bit m i \<and> unat (num_hw_ctrs s) \<le> i \<and> i < unat (total_ctrs s) \<and>
       active_events (phs s) ! i = SBI_PMU_EVENT_IDX_INVALID))"
  using find_fw_loop_cases [OF assms, of "mask_bits m" code d] by (auto simp: pmu_ctr_find_fw_def mask_bits_eq)

lemma bits_from_eq: "b \<le> 32 \<Longrightarrow> bits_from b m = filter (bit m) [b..<32]"
proof -
  assume b: "b \<le> 32"
  have "find_next_bit [m] 32 b = first_from (bm_bit [m]) b 32"
    using b by (auto simp: find_next_bit_eq first_from_def)
  then have "bits_from b m = filter (bm_bit [m]) [b..<32]"
    using b for_each_set_bit_loop_eq [of 32 b 32 "[m]"] by (simp add: bits_from_def)
  also have "\<dots> = filter (bit m) [b..<32]" by (rule filter_cong) (auto simp: bm_bit_def)
  finally show ?thesis .
qed

lemma free_ctr_cases:
  assumes "\<And>b. b \<in> set bs \<Longrightarrow> b < length (active_events (phs s))"
  shows "\<exists>c. free_ctr bs inhbt f s = Some c \<and>
    (c = f \<or> (\<exists>b\<in>set bs. c = int b \<and> active_events (phs s) ! b = SBI_PMU_EVENT_IDX_INVALID))"
  using assms
proof (induction bs arbitrary: f)
  case Nil
  then show ?case by simp
next
  case (Cons b bs)
  have at: "event_at b s = Some (active_events (phs s) ! b)" using Cons.prems by (simp add: event_at_def)
  have ih: "\<exists>c. free_ctr bs inhbt f s = Some c \<and>
    (c = f \<or> (\<exists>b\<in>set bs. c = int b \<and> active_events (phs s) ! b = SBI_PMU_EVENT_IDX_INVALID))" for f
    using Cons by simp
  show ?case using at ih [of f] ih [of "int b"] by auto
qed

lemma low_counter: "i < 3 \<Longrightarrow> \<not> bit (- 8 :: ulong) i"
  by (auto simp: less_Suc_eq numeral_eq_Suc)

lemma find_hw_loop_cases:
  assumes "\<And>t. t \<in> set ts \<Longrightarrow> ctrs_exist n t" and "length (active_events (phs s)) = 48"
    and "\<And>i. i \<in> {b..<32} \<Longrightarrow> bit (push_bit b m) i \<Longrightarrow> P i" and "b \<le> 32"
  shows "\<exists>c. find_hw_loop ts m e d inhbt b f s = Some c \<and>
    (c = f \<or> (\<exists>i. c = int i \<and> 3 \<le> i \<and> i < n \<and> i < 32 \<and> P i \<and> active_events (phs s) ! i = SBI_PMU_EVENT_IDX_INVALID))"
  using assms
proof (induction ts arbitrary: b f)
  case Nil
  then show ?case by simp
next
  case (Cons t ts)
  show ?case
  proof (cases "event_matches t e d")
    case False
    then show ?thesis using Cons.IH [of b f] Cons.prems by simp
  next
    case True
    let ?m = "ucast (counters t) AND push_bit b m AND NOT SBI_PMU_FIXED_CTR_MASK"
    have bit: "3 \<le> i \<and> i < n \<and> i < 32 \<and> P i" if "i \<in> set (bits_from b ?m)" for i
    proof -
      have i: "i \<in> {b..<32}" "bit ?m i" using that Cons.prems by (auto simp: bits_from_eq)
      then have "bit (counters t) i" "bit (push_bit b m) i" "3 \<le> i"
        using low_counter [of i] by (auto simp: bit_and_iff bit_ucast_iff intro: leI)
      then show ?thesis using i(1) Cons.prems(1) [of t] Cons.prems(3) by (simp add: ctrs_exist_def)
    qed
    obtain c where c: "free_ctr (bits_from b ?m) inhbt f s = Some c"
      "c = f \<or> (\<exists>i\<in>set (bits_from b ?m). c = int i \<and> active_events (phs s) ! i = SBI_PMU_EVENT_IDX_INVALID)"
      using free_ctr_cases [of "bits_from b ?m" s inhbt f] bit Cons.prems(2) by fastforce
    then show ?thesis
      using True Cons.IH [of 32 c] Cons.prems bit by (auto simp: Let_def)
  qed
qed

text \<open>What \<open>pmu_ctr_find_hw\<close> gives: an error, a fixed counter, or a free programmable counter of the set.\<close>

definition hw_choice :: "ulong \<Rightarrow> 'd pmu_state \<Rightarrow> int \<Rightarrow> bool" where
  "hw_choice m s c \<longleftrightarrow> c < 0 \<or> c = 0 \<or> c = 2 \<or>
    (\<exists>i. c = int i \<and> 3 \<le> i \<and> i < unat (num_hw_ctrs s) \<and> bit m i \<and> active_events (phs s) ! i = SBI_PMU_EVENT_IDX_INVALID)"

text \<open>The choice of a hardware counter touches CSRs and the device only.\<close>

definition same_ctrs :: "'d pmu_state \<Rightarrow> 'd pmu_state \<Rightarrow> bool" where
  "same_ctrs s s' \<longleftrightarrow> phs s' = phs s \<and> num_hw_ctrs s' = num_hw_ctrs s \<and> total_ctrs s' = total_ctrs s \<and> has_phs s' = has_phs s \<and>
    hw_event_map s' = hw_event_map s \<and> pmu_feat s' = pmu_feat s \<and> pmu_dev s' = pmu_dev s"

lemma same_ctrs_inv: "same_ctrs s s' \<Longrightarrow> pmu_inv s' = pmu_inv s"
  by (simp add: same_ctrs_def pmu_inv_def)

lemma same_ctrs_refl [simp]: "same_ctrs s s"
  by (simp add: same_ctrs_def)

lemma same_ctrs_steps [simp]:
  "same_ctrs s (write_csr c v s') = same_ctrs s s'" "same_ctrs s (filter_mode flg i s') = same_ctrs s s'"
  "same_ctrs s (dev_do f k s') = same_ctrs s s'"
  by (simp_all add: same_ctrs_def write_csr_def filter_mode_def dev_do_def split: option.splits)

lemma update_mhpmevent_cases:
  "\<exists>r s'. pmu_update_hw_mhpmevent i flg e d s = Some (r, s') \<and> same_ctrs s s' \<and> r \<le> 0"
  by (simp add: pmu_update_hw_mhpmevent_def Let_def known_event write_num_known sbi_defs)

lemma fixed_ctr_cases:
  "\<exists>r s'. pmu_fixed_ctr_update_inhibit_bits i flg s = Some (r, s') \<and> same_ctrs s s' \<and> (r = i \<or> r < 0)"
  by (simp add: pmu_fixed_ctr_update_inhibit_bits_def Let_def write_num_known sbi_defs)

lemma find_hw_cases:
  assumes "pmu_inv s"
  shows "\<exists>c s'. pmu_ctr_find_hw 0 m flg e d s = Some (c, s') \<and> same_ctrs s s' \<and> hw_choice m s c"
proof -
  note sz = pmu_inv_sizes [OF assms]
  let ?f = "pmu_ctr_find_fixed_hw e"
  let ?inhbt = "if priv_1_11 (pmu_feat s) then read_csr CSR_MCOUNTINHIBIT s else 0"
  obtain r s1 where fixed: "pmu_fixed_ctr_update_inhibit_bits ?f flg s = Some (r, s1)" "same_ctrs s s1" "r = ?f \<or> r < 0"
    using fixed_ctr_cases by blast
  have rc: "hw_choice m s r" using fixed(3) by (auto simp: hw_choice_def pmu_ctr_find_fixed_hw_def split: if_splits)
  obtain c where c: "find_hw_loop (hw_event_map s) m e d ?inhbt 0 SBI_ENOTSUPP s = Some c"
    "c = SBI_ENOTSUPP \<or> (\<exists>i. c = int i \<and> 3 \<le> i \<and> i < unat (num_hw_ctrs s) \<and> i < 32 \<and> bit m i \<and>
       active_events (phs s) ! i = SBI_PMU_EVENT_IDX_INVALID)"
    using find_hw_loop_cases [OF pmu_inv_map [OF assms] sz(5), where b = 0 and m = m and P = "bit m" and e = e and d = d
      and inhbt = ?inhbt and f = SBI_ENOTSUPP] by auto
  obtain q s2 where upd: "pmu_update_hw_mhpmevent (nat c) flg (ucast e) d s = Some (q, s2)" "same_ctrs s s2" "q \<le> 0"
    using update_mhpmevent_cases by blast
  have qc: "hw_choice m s (if q = 0 then c else q)"
    using c(2) upd(3) by (auto simp: hw_choice_def sbi_defs)
  have "\<not> ucast (num_hw_ctrs s) \<le> (0 :: ulong)"
    using sz(2,3) by (simp add: word_le_nat_alt unsigned_ucast_eq take_bit_nat_eq_self)
  then show ?thesis
    using fixed rc c(1) upd(1,2) qc by (simp add: pmu_ctr_find_hw_def Let_def hw_choice_def)
qed

lemma cfg_finish_safe:
  assumes "pmu_inv s" and "ty = SBI_PMU_EVENT_TYPE_HW \<Longrightarrow> unat c < 32 \<and> c \<noteq> 1" and "ty = SBI_PMU_EVENT_TYPE_FW \<Longrightarrow> fw_ix c s < 16"
  shows "safe (cfg_finish c ty code flg d s)"
proof (cases "ty = SBI_PMU_EVENT_TYPE_HW")
  case True
  then obtain s1 where s1: "pmu_ctr_write_hw c 0 s = Some s1" "pmu_inv s1"
    using ctr_write_hw_inv [OF assms(1)] assms(2) by blast
  obtain r s2 where s2: "pmu_ctr_start_hw c 0 False s = Some (r, s2)" "pmu_inv s2"
    using ctr_start_hw_safe [OF assms(1), of c 0 False] by (auto simp: safe_def split: option.splits)
  obtain q s3 where s3: "pmu_ctr_start_hw c 0 False s1 = Some (q, s3)" "pmu_inv s3"
    using ctr_start_hw_safe [OF s1(2), of c 0 False] by (auto simp: safe_def split: option.splits)
  show ?thesis using True assms(1) s1 s2 s3 by (simp add: cfg_finish_def)
next
  case False
  show ?thesis
  proof (cases "ty = SBI_PMU_EVENT_TYPE_FW")
    case True
    then obtain s1 where s1: "set_data (fw_ix c s) 0 s = Some s1" "pmu_inv s1"
      using set_data_inv [OF assms(1)] assms(3) by blast
    show ?thesis
      using True assms(1) s1 by (auto simp: cfg_finish_def Let_def split: option.splits prod.splits)
  next
    case False
    then show ?thesis using \<open>ty \<noteq> SBI_PMU_EVENT_TYPE_HW\<close> assms(1) by (simp add: cfg_finish_def)
  qed
qed

text \<open>
  A proper call of \<open>sbi_pmu_ctr_cfg_match\<close>: the set of counters has base 0, the event is not a platform firmware event, and a call that
  skips the match names a counter of the kind of its event.
\<close>

definition proper_cfg :: "ulong \<Rightarrow> ulong \<Rightarrow> ulong \<Rightarrow> ulong \<Rightarrow> 'd pmu_state \<Rightarrow> bool" where
  "proper_cfg cb m flg e s \<longleftrightarrow>
    cb = 0 \<and> get_cidx_code (ucast e) \<noteq> SBI_PMU_FW_PLATFORM \<and>
    (bit flg 0 \<longrightarrow> m \<noteq> 0 \<and> (is_fw (ucast e) \<longleftrightarrow> unat (num_hw_ctrs s) \<le> sbi_ffs m))"

lemma validate_type:
  assumes "get_cidx_code e \<noteq> SBI_PMU_FW_PLATFORM" and "0 \<le> pmu_event_validate s e d"
  shows "pmu_event_validate s e d = uint (get_cidx_type e)" "e \<noteq> SBI_PMU_EVENT_IDX_INVALID"
proof -
  show "pmu_event_validate s e d = uint (get_cidx_type e)"
    using assms by (auto simp: pmu_event_validate_def Let_def below_max_def split: if_splits option.splits)
  show "e \<noteq> SBI_PMU_EVENT_IDX_INVALID"
    using assms(1) by (auto simp: get_cidx_code_def)
qed

lemma write_num_same: "write_num c v s = Some s' \<Longrightarrow> same_ctrs s s'"
  by (auto simp: write_num_def same_ctrs_def)

lemma same_ctrs_trans: "same_ctrs s t \<Longrightarrow> same_ctrs t u \<Longrightarrow> same_ctrs s u"
  by (simp add: same_ctrs_def)

lemma enable_irq_same: "pmu_ctr_enable_irq_hw c s = Some (r, s') \<Longrightarrow> same_ctrs s s'"
  by (auto simp: pmu_ctr_enable_irq_hw_def Let_def Option.bind_eq_Some_conv dest: write_num_same split: if_splits)

lemma start_hw_same: "pmu_ctr_start_hw c v upd s = Some (r, s') \<Longrightarrow> same_ctrs s s'"
  by (auto simp: pmu_ctr_start_hw_def pmu_ctr_write_hw_def Let_def Option.bind_eq_Some_conv
      dest!: write_num_same enable_irq_same intro: same_ctrs_trans split: if_splits)

text \<open>\<open>same_map\<close>: the events of the counters and the shape of the unit are the same.\<close>

definition same_map :: "'d pmu_state \<Rightarrow> 'd pmu_state \<Rightarrow> bool" where
  "same_map s s' \<longleftrightarrow> active_events (phs s') = active_events (phs s) \<and> num_hw_ctrs s' = num_hw_ctrs s \<and> total_ctrs s' = total_ctrs s \<and> has_phs s' = has_phs s"

lemma same_map_simps [simp]: "same_map s s" "same_map s (set_started w s') = same_map s s'"
  by (simp_all add: same_map_def set_started_def)

lemma same_ctrs_map: "same_ctrs s s' \<Longrightarrow> same_map s s'"
  by (simp add: same_ctrs_def same_map_def)

lemma same_map_trans: "same_map s t \<Longrightarrow> same_map t u \<Longrightarrow> same_map s u"
  by (simp add: same_map_def)

lemma set_data_map: "set_data i v s = Some s' \<Longrightarrow> same_map s s'"
  by (auto simp: set_data_def same_map_def split: if_splits)

lemma cfg_finish_result:
  assumes "cfg_finish c ty code flg d s = Some (r, s')" and "code \<noteq> SBI_PMU_FW_PLATFORM"
  shows "r = uint c" "same_map s s'"
proof -
  show "r = uint c"
    using assms by (auto simp: cfg_finish_def Option.bind_eq_Some_conv split: if_splits option.splits)
  show "same_map s s'"
    using assms
    by (auto simp: cfg_finish_def pmu_ctr_write_hw_def Option.bind_eq_Some_conv split: if_splits option.splits
        dest!: write_num_same start_hw_same set_data_map intro: same_map_trans same_ctrs_map)
qed

text \<open>The counter a call without \<open>SKIP_MATCH\<close> may choose: a fixed one, or a free one of the set, of the kind of the event.\<close>

definition may_choose :: "ulong \<Rightarrow> u32 \<Rightarrow> 'd pmu_state \<Rightarrow> nat \<Rightarrow> bool" where
  "may_choose m e s i \<longleftrightarrow> i < unat (total_ctrs s) \<and> (is_fw e \<longleftrightarrow> unat (num_hw_ctrs s) \<le> i) \<and>
    (i = 0 \<or> i = 2 \<or> 3 \<le> i \<and> bit m i \<and> active_events (phs s) ! i = SBI_PMU_EVENT_IDX_INVALID)"

lemma choose_ctr:
  assumes "pmu_inv s" and "get_cidx_code (ucast e) \<noteq> SBI_PMU_FW_PLATFORM"
  shows "\<exists>c s1. (if is_fw (ucast e) then map_option (\<lambda>c. (c, s)) (pmu_ctr_find_fw 0 m (get_cidx_code (ucast e)) d s)
                 else pmu_ctr_find_hw 0 m flg e d s) = Some (c, s1) \<and> same_ctrs s s1 \<and> (c < 0 \<or> may_choose m (ucast e) s (nat c))"
proof (cases "is_fw (ucast e)")
  case True
  then show ?thesis
    using find_fw_cases [OF assms(1), of m "get_cidx_code (ucast e)" d] pmu_inv_sizes(2) [OF assms(1)] by (auto simp: may_choose_def)
next
  case False
  then show ?thesis
    using find_hw_cases [OF assms(1), of m flg e d] pmu_inv_sizes [OF assms(1)] by (auto simp: may_choose_def hw_choice_def)
qed

lemma finish_args:
  assumes "pmu_inv s2" and "num_hw_ctrs s2 = num_hw_ctrs s" and "total_ctrs s2 = total_ctrs s"
    and "may_choose m e s (nat c)" and "\<not> c < 0"
  shows "uint (word_of_int c :: u32) = c"
    "uint (get_cidx_type e) = SBI_PMU_EVENT_TYPE_HW \<Longrightarrow> unat (word_of_int c :: u32) < 32 \<and> (word_of_int c :: u32) \<noteq> 1"
    "uint (get_cidx_type e) = SBI_PMU_EVENT_TYPE_FW \<Longrightarrow> fw_ix (word_of_int c) s2 < 16"
proof -
  note sz = pmu_inv_sizes [OF assms(1)]
  let ?c = "word_of_int c :: u32"
  have lt: "nat c < 48" using assms(3,4) sz by (simp add: may_choose_def)
  then show c: "uint ?c = c" using assms(5) by (simp add: uint_word_of_int)
  then have u: "unat ?c = nat c" by (simp add: unat_eq_nat_uint)
  show "unat ?c < 32 \<and> ?c \<noteq> 1" if "uint (get_cidx_type e) = SBI_PMU_EVENT_TYPE_HW"
    using that assms u sz by (auto simp: may_choose_def is_fw_def)
  show "fw_ix ?c s2 < 16" if "uint (get_cidx_type e) = SBI_PMU_EVENT_TYPE_FW"
    using that assms u sz by (intro fw_ix_eq(2)) (auto simp: may_choose_def is_fw_def word_le_nat_alt word_less_nat_alt)
qed

text \<open>The steps of a call that chooses a counter.\<close>

definition cfg_chosen :: "ulong \<Rightarrow> ulong \<Rightarrow> ulong \<Rightarrow> u64 \<Rightarrow> 'd pmu_state \<Rightarrow> int \<Rightarrow> 'd pmu_state \<Rightarrow> bool" where
  "cfg_chosen m flg e d s r s' \<longleftrightarrow> 0 \<le> r \<and> may_choose m (ucast e) s (nat r) \<and>
    (\<exists>s1 s2. same_ctrs s s1 \<and> set_event (nat r) (ucast e) s1 = Some s2 \<and> pmu_inv s2 \<and>
       cfg_finish (word_of_int r) (uint (get_cidx_type (ucast e))) (get_cidx_code (ucast e)) flg d s2 = Some (r, s'))"

lemma set_event_result:
  assumes "set_event i e s1 = Some s2" and "same_ctrs s s1"
  shows "active_events (phs s2) = (active_events (phs s))[i := e]" "num_hw_ctrs s2 = num_hw_ctrs s" "total_ctrs s2 = total_ctrs s"
    "fw_counters_started (phs s2) = fw_counters_started (phs s)"
  using assms by (auto simp: set_event_def same_ctrs_def split: if_splits)

lemma cfg_match_chosen:
  assumes "pmu_inv s" and "get_cidx_code (ucast e) \<noteq> SBI_PMU_FW_PLATFORM" and "\<not> bit flg 0"
  shows "\<exists>r s'. sbi_pmu_ctr_cfg_match 0 m flg e d s = Some (r, s') \<and> pmu_inv s' \<and>
    (r < 0 \<and> phs s' = phs s \<or> cfg_chosen m flg e d s r s')"
proof (cases "0 + of_nat (sbi_fls m) \<ge> (ucast (total_ctrs s) :: ulong) \<or> pmu_event_validate s (ucast e) d < 0")
  case True
  then show ?thesis using assms(1) pmu_inv_sizes(1) [OF assms(1)] by (auto simp: sbi_pmu_ctr_cfg_match_def Let_def)
next
  case False
  note ty = validate_type [OF assms(2), of s d]
  obtain c s1 where c: "(if is_fw (ucast e) then map_option (\<lambda>c. (c, s)) (pmu_ctr_find_fw 0 m (get_cidx_code (ucast e)) d s)
        else pmu_ctr_find_hw 0 m flg e d s) = Some (c, s1)" "same_ctrs s s1" "c < 0 \<or> may_choose m (ucast e) s (nat c)"
    using choose_ctr [OF assms(1,2)] by blast
  have step: "sbi_pmu_ctr_cfg_match 0 m flg e d s =
    (if c < 0 then Some (SBI_ENOTSUPP, s1)
     else do { s2 \<leftarrow> set_event (nat c) (ucast e) s1;
               cfg_finish (word_of_int c) (uint (get_cidx_type (ucast e))) (get_cidx_code (ucast e)) flg d s2 })"
    using False assms(2,3) c(1) ty pmu_inv_sizes(1) [OF assms(1)]
    by (auto simp: sbi_pmu_ctr_cfg_match_def Let_def is_fw_def Option.bind_map_option o_def split: option.splits)
  have inv1: "pmu_inv s1" using c(2) assms(1) by (simp add: same_ctrs_inv)
  show ?thesis
  proof (cases "c < 0")
    case True
    then show ?thesis using step inv1 c(2) by (simp add: same_ctrs_def)
  next
    case ge: False
    then have ch: "may_choose m (ucast e) s (nat c)" using c(3) by simp
    have eqs: "num_hw_ctrs s1 = num_hw_ctrs s" "total_ctrs s1 = total_ctrs s" "active_events (phs s1) = active_events (phs s)"
      using c(2) by (simp_all add: same_ctrs_def)
    obtain s2 where s2: "set_event (nat c) (ucast e) s1 = Some s2" "pmu_inv s2"
      using set_event_inv [OF inv1, of "nat c" "ucast e"] ch eqs by (auto simp: may_choose_def)
    note ev2 = set_event_result [OF s2(1) c(2)]
    note args = finish_args [OF s2(2) ev2(2,3) ch ge]
    obtain r s' where fin: "cfg_finish (word_of_int c) (uint (get_cidx_type (ucast e))) (get_cidx_code (ucast e)) flg d s2 = Some (r, s')" "pmu_inv s'"
      using cfg_finish_safe [OF s2(2) args(2,3), where ty = "uint (get_cidx_type (ucast e))" and code = "get_cidx_code (ucast e)" and flg = flg and d = d] by (auto simp: safe_def split: option.splits)
    have "r = c" using cfg_finish_result [OF fin(1) assms(2)] args(1) by simp
    then show ?thesis using step ge s2 fin ch c(2) by (auto simp: cfg_chosen_def)
  qed
qed

lemma cfg_match_skip:
  assumes "pmu_inv s" and "proper_cfg 0 m flg e s" and "bit flg 0"
  shows "safe (sbi_pmu_ctr_cfg_match 0 m flg e d s)"
proof (cases "(ucast (total_ctrs s) :: ulong) \<le> of_nat (sbi_fls m) \<or> pmu_event_validate s (ucast e) d < 0")
  case True
  then show ?thesis using assms(1) pmu_inv_sizes(1) [OF assms(1)] by (auto simp: sbi_pmu_ctr_cfg_match_def Let_def)
next
  case False
  note sz = pmu_inv_sizes [OF assms(1)]
  have m: "m \<noteq> 0" "is_fw (ucast e) \<longleftrightarrow> unat (num_hw_ctrs s) \<le> sbi_ffs m" and code: "get_cidx_code (ucast e) \<noteq> SBI_PMU_FW_PLATFORM"
    using assms(2,3) by (auto simp: proper_cfg_def)
  let ?i = "sbi_ffs m"
  have "?i \<le> sbi_fls m" "sbi_fls m < 64"
    using sbi_ffs_bit [OF m(1)] sbi_fls_bit [OF m(1)] bit_imp_le_length [of m "sbi_fls m"] not_le
    by (auto simp: is_low_bit_def is_high_bit_def)
  moreover have "sbi_fls m < unat (total_ctrs s)"
    using False \<open>sbi_fls m < 64\<close> sz(3,4) by (simp add: word_le_nat_alt unsigned_ucast_eq unat_of_nat take_bit_nat_eq_self not_le)
  ultimately have i: "?i < 48" "?i < unat (total_ctrs s)" "?i < 64" using sz by auto
  have u: "unat (of_nat ?i :: ulong) = ?i" "ucast (of_nat ?i :: ulong) = (of_nat ?i :: u32)" "unat (of_nat ?i :: u32) = ?i"
    using i by (simp_all add: word_unat_eq_iff unsigned_ucast_eq unat_of_nat take_bit_nat_eq_self)
  have ty: "pmu_event_validate s (ucast e) d = uint (get_cidx_type (ucast e))"
    using validate_type(1) [OF code, of s d] False by simp
  show ?thesis
  proof (cases "active_events (phs s) ! ?i = SBI_PMU_EVENT_IDX_INVALID")
    case True
    then show ?thesis
      using assms(1,3) False i u sz(1,5) by (simp add: sbi_pmu_ctr_cfg_match_def Let_def event_at_def)
  next
    case set: False
    have "?i \<noteq> 1" using set sz(7) by metis
    have "safe (cfg_finish (of_nat ?i) (uint (get_cidx_type (ucast e))) (get_cidx_code (ucast e)) flg d s)"
    proof (rule cfg_finish_safe [OF assms(1)])
      assume "uint (get_cidx_type (ucast e)) = SBI_PMU_EVENT_TYPE_HW"
      then show "unat (of_nat ?i :: u32) < 32 \<and> (of_nat ?i :: u32) \<noteq> 1"
        using m(2) sz(3) u(3) \<open>?i \<noteq> 1\<close> by (auto simp: is_fw_def)
    next
      assume "uint (get_cidx_type (ucast e)) = SBI_PMU_EVENT_TYPE_FW"
      then show "fw_ix (of_nat ?i) s < 16"
        using m(2) u(3) i(2) by (intro fw_ix_eq(2) [OF assms(1)]) (auto simp: is_fw_def word_le_nat_alt word_less_nat_alt)
    qed
    then show ?thesis
      using assms(3) False i u sz(1,5) set ty by (simp add: sbi_pmu_ctr_cfg_match_def Let_def event_at_def)
  qed
qed

lemma cfg_match_safe:
  assumes "pmu_inv s" and "proper_cfg cb m flg e s"
  shows "safe (sbi_pmu_ctr_cfg_match cb m flg e d s)"
proof (cases "bit flg 0")
  case True
  have "cb = 0" using assms(2) by (simp add: proper_cfg_def)
  then show ?thesis using assms cfg_match_skip [OF assms(1) _ True, of m e d] by simp
next
  case False
  then show ?thesis
    using assms(2) cfg_match_chosen [OF assms(1) _ False, of e m d] by (auto simp: proper_cfg_def)
qed

subsection \<open>Boot\<close>

text \<open>What the \<open>pmu_init\<close> of a platform does: it adds ranges of events and raw events to the map.\<close>

datatype map_entry = Hw_range u32 u32 u32 | Raw_events u64 u64 u32

fun add_entry :: "map_entry \<Rightarrow> 'd pmu_state \<Rightarrow> 'd pmu_state" where
  "add_entry (Hw_range a b cmap) s = snd (sbi_pmu_add_hw_event_counter_map a b cmap s)"
| "add_entry (Raw_events sel sm cmap) s = snd (sbi_pmu_add_raw_event_counter_map sel sm cmap s)"

lemma low_mask: "i < 3 \<Longrightarrow> bit (7 :: u32) i"
  by (auto simp: less_Suc_eq numeral_eq_Suc)

lemma high_mask: "3 \<le> i \<Longrightarrow> \<not> bit (7 :: u32) i"
proof -
  assume "3 \<le> i"
  then obtain j where "i = Suc (Suc (Suc j))" by (metis add.commute le_Suc_ex numeral_3_eq_3 add_Suc_right Nat.add_0_right)
  then show ?thesis by simp
qed

lemma add_map_exist:
  assumes "\<forall>t\<in>set (hw_event_map s). ctrs_exist n t" and "\<And>i. 3 \<le> i \<Longrightarrow> bit (mhpm_mask (pmu_feat s)) i \<Longrightarrow> i < n"
    and "s' = snd (pmu_add_hw_event_map a b cmap sel sm s)"
  shows "\<forall>t\<in>set (hw_event_map s'). ctrs_exist n t" "pmu_feat s' = pmu_feat s" "has_phs s' = has_phs s"
proof -
  show "\<forall>t\<in>set (hw_event_map s'). ctrs_exist n t"
    using assms(1,2) high_mask unfolding assms(3)
    by (auto simp: pmu_add_hw_event_map_def Let_def ctrs_exist_def bit_and_iff bit_or_iff)
  show "pmu_feat s' = pmu_feat s" "has_phs s' = has_phs s"
    using assms(3) by (simp_all add: pmu_add_hw_event_map_def Let_def)
qed

lemma add_entry_exist:
  assumes "\<forall>t\<in>set (hw_event_map s). ctrs_exist n t" and "\<And>i. 3 \<le> i \<Longrightarrow> bit (mhpm_mask (pmu_feat s)) i \<Longrightarrow> i < n"
  shows "\<forall>t\<in>set (hw_event_map (add_entry x s)). ctrs_exist n t" "pmu_feat (add_entry x s) = pmu_feat s" "has_phs (add_entry x s) = has_phs s"
  using assms add_map_exist [OF assms refl]
  by (cases x; simp add: sbi_pmu_add_hw_event_counter_map_def sbi_pmu_add_raw_event_counter_map_def)+

lemma add_entries_exist:
  assumes "\<forall>t\<in>set (hw_event_map s). ctrs_exist n t" and "\<And>i. 3 \<le> i \<Longrightarrow> bit (mhpm_mask (pmu_feat s)) i \<Longrightarrow> i < n"
  shows "(\<forall>t\<in>set (hw_event_map (fold add_entry es s)). ctrs_exist n t) \<and> pmu_feat (fold add_entry es s) = pmu_feat s \<and>
    has_phs (fold add_entry es s) = has_phs s"
  using assms
proof (induction es arbitrary: s)
  case Nil
  then show ?case by simp
next
  case (Cons x es)
  note ex = add_entry_exist [OF Cons.prems]
  show ?case using Cons.IH [OF ex(1)] Cons.prems(2) ex(2,3) by simp
qed

text \<open>The number of hardware counters is more than every counter the hart has.\<close>

lemma hpm_count:
  fixes w :: u32
  assumes "w AND 7 = 0"
  defines "k \<equiv> sbi_fls (ucast w)"
  defines "n \<equiv> if k = 0 then 3 else k + 1"
  shows "3 \<le> n" "n \<le> 32" "\<And>i. 3 \<le> i \<Longrightarrow> bit w i \<Longrightarrow> i < n"
proof -
  let ?w = "ucast w :: ulong"
  have "unat ?w = unat w" using unsigned_less [of w, where 'a = nat] by (simp add: unsigned_ucast_eq take_bit_nat_eq_self)
  then have "?w \<noteq> 0" if "w \<noteq> 0" using that by (metis unsigned_0 word_unat_eq_iff)
  then have hi: "is_high_bit ?w k" if "w \<noteq> 0"
    using that sbi_fls_bit [of ?w] by (simp add: k_def)
  have low: "\<not> bit w i" if "i < 3" for i
    using assms(1) that low_mask [OF that] by (metis bit_and_iff bit_0_eq bot_apply bot_bool_def)
  have "3 \<le> k \<and> k < 32" if "w \<noteq> 0"
    using hi [OF that] low by (auto simp: is_high_bit_def bit_ucast_iff intro: leI dest: bit_imp_le_length)
  moreover have "k = 0" if "w = 0" using that by (simp add: k_def sbi_fls_def fls_step_def)
  ultimately show "3 \<le> n" "n \<le> 32" unfolding n_def by (cases "w = 0"; force)+
  show "i < n" if i: "3 \<le> i" "bit w i" for i
  proof -
    have "w \<noteq> 0" "i < 32" using i bit_imp_le_length [OF i(2)] by auto
    then have "\<not> k < i" using hi i(2) by (auto simp: is_high_bit_def bit_ucast_iff)
    then show ?thesis using i(1) by (simp add: n_def)
  qed
qed

lemma ctr_words: "n \<le> 32 \<Longrightarrow> unat (of_nat n :: u32) = n" "n \<le> 32 \<Longrightarrow> unat (of_nat (n + 16) :: u32) = n + 16"
  by (simp_all add: unat_of_nat take_bit_nat_eq_self del: of_nat_add of_nat_numeral)

lemma fixed_events_hw: "\<not> is_fw SBI_PMU_HW_CPU_CYCLES" "\<not> is_fw SBI_PMU_HW_INSTRUCTIONS"
  by (simp_all add: is_fw_def get_cidx_type_def)

lemma init_hart_inv:
  assumes "\<forall>t\<in>set (hw_event_map s). ctrs_exist n t" "\<not> has_phs s" "unat (num_hw_ctrs s) = n" "unat (total_ctrs s) = n + 16"
    "3 \<le> n" "n \<le> 32"
  shows "\<exists>s'. pmu_init_hart True hartid s = Some (0, s') \<and> pmu_inv s'"
proof -
  define ev where "ev = (take 3 (replicate 48 0) @ replicate (n + 13) SBI_PMU_EVENT_IDX_INVALID @ drop (max 3 (n + 16)) (replicate 48 0))
    [0 := SBI_PMU_HW_CPU_CYCLES, 1 := SBI_PMU_EVENT_IDX_INVALID, 2 := SBI_PMU_HW_INSTRUCTIONS]"
  have len: "length ev = 48" using assms(5,6) by (simp add: ev_def)
  have nth: "ev ! 0 = SBI_PMU_HW_CPU_CYCLES" "ev ! 1 = SBI_PMU_EVENT_IDX_INVALID" "ev ! 2 = SBI_PMU_HW_INSTRUCTIONS"
    "\<And>i. 3 \<le> i \<Longrightarrow> i < n + 16 \<Longrightarrow> ev ! i = SBI_PMU_EVENT_IDX_INVALID"
    using assms(5,6) by (auto simp: ev_def nth_append)
  have kind: "is_fw (ev ! i) \<longleftrightarrow> n \<le> i" if i: "i < n + 16" "ev ! i \<noteq> SBI_PMU_EVENT_IDX_INVALID" for i
  proof -
    have "i = 0 \<or> i = 1 \<or> i = 2 \<or> 3 \<le> i" by linarith
    then show ?thesis using nth i fixed_events_hw assms(5) by auto
  qed
  have "pmu_init_hart True hartid s = Some (0, s\<lparr>has_phs := True, phs := (new_phs hartid)\<lparr>active_events := ev\<rparr>\<rparr>)"
    using assms by (simp add: pmu_init_hart_def pmu_reset_event_map_def new_phs_def set_event_def ev_def add.commute)
  then show ?thesis using assms len nth(2) kind by (simp add: pmu_inv_def Let_def new_phs_def)
qed

lemma init_inv:
  fixes s :: "'d pmu_state"
  assumes "mhpm_mask (pmu_feat s) AND 7 = 0"
  shows "\<exists>s'. sbi_pmu_init True True True (fold add_entry es) hartid True s = Some (0, s') \<and> pmu_inv s'"
proof -
  let ?k = "sbi_fls (ucast (mhpm_mask (pmu_feat s)))"
  let ?n = "if ?k = 0 then 3 else ?k + 1"
  let ?s1 = "fold add_entry es (s\<lparr>hw_event_map := [], has_phs := False\<rparr>)"
  note n = hpm_count [OF assms]
  have s1: "\<forall>t\<in>set (hw_event_map ?s1). ctrs_exist ?n t" "has_phs ?s1 = False"
    using add_entries_exist [of "s\<lparr>hw_event_map := [], has_phs := False\<rparr>" ?n es] n(3) by simp_all
  have words: "unat (of_nat ?n :: u32) = ?n" "unat (of_nat (?n + 16) :: u32) = ?n + 16"
    using ctr_words [OF n(2)] by auto
  have "\<exists>s'. pmu_init_hart True hartid (?s1\<lparr>num_hw_ctrs := of_nat ?n, total_ctrs := of_nat (?n + 16)\<rparr>) = Some (0, s') \<and> pmu_inv s'"
    using s1 words n(1,2) by (intro init_hart_inv [where n = ?n]) simp_all
  then show ?thesis using n(2) by (simp add: sbi_pmu_init_def Let_def)
qed

subsection \<open>Runs of the unit\<close>

text \<open>
  What changes the state of the unit after boot: an SBI call, with the values of \<open>a0\<close> to \<open>a4\<close>, or a firmware event. The call 8, which
  only reads, is left out: whether its range check returns is a matter of the domain.
\<close>

datatype pmu_call = Ecall ulong ulong ulong ulong ulong ulong | Fw_event u32

fun pmu_step :: "sbi_domain \<Rightarrow> (nat \<Rightarrow> u32 \<times> u64) \<Rightarrow> u64 \<Rightarrow> pmu_call \<Rightarrow> 'd pmu_state \<Rightarrow> 'd pmu_state option" where
  "pmu_step d einfo temp (Ecall f a0 a1 a2 a3 a4) s = map_option snd (sbi_ecall_pmu_handler d einfo temp f a0 a1 a2 a3 a4 s)"
| "pmu_step d einfo temp (Fw_event k) s = map_option snd (sbi_pmu_ctr_incr_fw k s)"

text \<open>
  A proper call: a firmware event, or an SBI call of any function other than \<open>SBI_EXT_PMU_EVENT_GET_INFO\<close> (8, see above) whose
  arguments, if it is \<open>SBI_EXT_PMU_COUNTER_CFG_MATCH\<close> (2), are \<open>proper_cfg\<close>.
\<close>

fun proper_call :: "pmu_call \<Rightarrow> 'd pmu_state \<Rightarrow> bool" where
  "proper_call (Ecall f a0 a1 a2 a3 a4) s \<longleftrightarrow> f \<noteq> 8 \<and> (f = 2 \<longrightarrow> proper_cfg a0 a1 a2 a3 s)"
| "proper_call (Fw_event k) s \<longleftrightarrow> True"

inductive pmu_reach :: "'d pmu_state \<Rightarrow> bool" where
  boot: "mhpm_mask (pmu_feat s) AND 7 = 0 \<Longrightarrow> sbi_pmu_init True True True (fold add_entry es) hartid True s = Some (0, s') \<Longrightarrow> pmu_reach s'"
| call: "pmu_reach s \<Longrightarrow> proper_call c s \<Longrightarrow> pmu_step d einfo temp c s = Some s' \<Longrightarrow> pmu_reach s'"

lemma pmu_step_safe:
  assumes "pmu_inv s" and "proper_call c s"
  shows "\<exists>s'. pmu_step d einfo temp c s = Some s' \<and> pmu_inv s'"
proof (cases c)
  case (Fw_event k)
  then show ?thesis using incr_fw_safe [OF assms(1), of k] by (auto simp: safe_def split: option.splits)
next
  case (Ecall f a0 a1 a2 a3 a4)
  have "safe (sbi_ecall_pmu_handler d einfo temp f a0 a1 a2 a3 a4 s)"
    using assms Ecall fw_read_returns [OF assms(1), of "ucast a0" temp] cfg_match_safe [OF assms(1), of a0 a1 a2 a3 a4]
      ctr_start_safe [OF assms(1), of a0 a1 a2 a3] ctr_stop_safe [OF assms(1), of a0 a1 a2]
    by (auto simp: sbi_ecall_pmu_handler_def nonneg_value_def intro!: safe_map split: prod.splits)
  then show ?thesis using Ecall by (auto simp: safe_def split: option.splits)
qed

lemma pmu_reach_inv: "pmu_reach s \<Longrightarrow> pmu_inv s"
proof (induction rule: pmu_reach.induct)
  case (boot s es hartid s')
  then show ?case using init_inv [OF boot(1), of es hartid] by auto
next
  case (call s c d einfo temp s')
  then show ?case using pmu_step_safe [of s c d einfo temp] by auto
qed

subsection \<open>A firmware counter counts\<close>

fun run_events :: "u32 list \<Rightarrow> 'd pmu_state \<Rightarrow> 'd pmu_state option" where
  "run_events [] s = Some s"
| "run_events (k # ks) s = Option.bind (sbi_pmu_ctr_incr_fw k s) (\<lambda>(_, s). run_events ks s)"

text \<open>The only counter that counts the event \<open>k\<close> is \<open>i\<close>.\<close>

definition sole_counter :: "u32 \<Rightarrow> 'd pmu_state \<Rightarrow> nat \<Rightarrow> bool" where
  "sole_counter k s i \<longleftrightarrow> unat (num_hw_ctrs s) \<le> i \<and> i < unat (total_ctrs s) \<and> counting k s i \<and>
    (\<forall>j\<in>{unat (num_hw_ctrs s)..<unat (total_ctrs s)}. counting k s j \<longrightarrow> j = i)"

definition fw_value :: "'d pmu_state \<Rightarrow> nat \<Rightarrow> u64" where
  "fw_value s i = fw_counters_data (phs s) ! (i - unat (num_hw_ctrs s))"

lemma find_sole:
  assumes "sole_counter k s i"
  shows "List.find (counting k s) [unat (num_hw_ctrs s)..<unat (total_ctrs s)] = Some i"
proof -
  have "List.find (counting k s) [unat (num_hw_ctrs s)..<unat (total_ctrs s)] \<noteq> None"
    using assms by (auto simp: find_None_iff sole_counter_def)
  then obtain j where j: "List.find (counting k s) [unat (num_hw_ctrs s)..<unat (total_ctrs s)] = Some j" by blast
  then have "counting k s j" "j \<in> {unat (num_hw_ctrs s)..<unat (total_ctrs s)}"
    by (auto simp: find_Some_iff)
  then show ?thesis using j assms by (auto simp: sole_counter_def)
qed

lemma incr_counts:
  assumes "pmu_inv s" and "e < SBI_PMU_FW_MAX" and "sole_counter k s i"
  shows "\<exists>s'. sbi_pmu_ctr_incr_fw e s = Some (0, s') \<and> pmu_inv s' \<and> sole_counter k s' i \<and> same_map s s' \<and>
    fw_value s' i = fw_value s i + (if e = k then 1 else 0)"
proof (cases "List.find (counting e s) [unat (num_hw_ctrs s)..<unat (total_ctrs s)]")
  case None
  then have "e \<noteq> k" using find_sole [OF assms(3)] by auto
  then show ?thesis using assms None by (simp add: incr_fw_find)
next
  case (Some j)
  note sz = pmu_inv_sizes [OF assms(1)]
  let ?n = "unat (num_hw_ctrs s)"
  have j: "counting e s j" "?n \<le> j" "j < ?n + 16" using Some sz by (auto simp: find_Some_iff)
  let ?s' = "s\<lparr>phs := (phs s)\<lparr>fw_counters_data := (fw_counters_data (phs s))[j - ?n := fw_counters_data (phs s) ! (j - ?n) + 1]\<rparr>\<rparr>"
  have eq: "sbi_pmu_ctr_incr_fw e s = Some (0, ?s')" using Some by (simp add: incr_fw_find [OF assms(1,2)] Let_def)
  have "counting k ?s' = counting k s" by (rule ext) (simp add: counting_def)
  then have "sole_counter k ?s' i" using assms(3) by (simp add: sole_counter_def)
  moreover have "e = k \<longleftrightarrow> j = i"
  proof
    assume "e = k"
    then show "j = i" using j assms(3) sz(4) by (simp add: sole_counter_def)
  next
    assume "j = i"
    then show "e = k" using j(1) assms(3) by (simp add: sole_counter_def counting_def)
  qed
  moreover have "?n \<le> i" "i < ?n + 16" using assms(3) sz(4) by (simp_all add: sole_counter_def)
  ultimately show ?thesis
    using eq j sz incr_fw_safe [OF assms(1), of e] by (auto simp: fw_value_def same_map_def nth_list_update)
qed

lemma events_counted:
  assumes "pmu_inv s" and "sole_counter k s i" and "\<forall>e\<in>set es. e < SBI_PMU_FW_MAX"
  shows "\<exists>s'. run_events es s = Some s' \<and> pmu_inv s' \<and> same_map s s' \<and> fw_value s' i = fw_value s i + of_nat (count_list es k)"
  using assms
proof (induction es arbitrary: s)
  case Nil
  then show ?case by simp
next
  case (Cons e es)
  obtain s1 where s1: "sbi_pmu_ctr_incr_fw e s = Some (0, s1)" "pmu_inv s1" "sole_counter k s1 i" "same_map s s1"
    "fw_value s1 i = fw_value s i + (if e = k then 1 else 0)"
    using incr_counts [of s e k i] Cons.prems by auto
  obtain s2 where "run_events es s1 = Some s2" "pmu_inv s2" "same_map s1 s2" "fw_value s2 i = fw_value s1 i + of_nat (count_list es k)"
    using Cons.IH [OF s1(2,3)] Cons.prems(3) by auto
  then show ?case using s1 by (auto intro: same_map_trans)
qed

lemma cfg_finish_fw:
  assumes "pmu_inv s" and "fw_ix c s < 16" and "code \<noteq> SBI_PMU_FW_PLATFORM" and "bit flg 1" "bit flg 2"
    and "cfg_finish c SBI_PMU_EVENT_TYPE_FW code flg d s = Some (r, s')"
  shows "fw_counters_data (phs s') = (fw_counters_data (phs s))[fw_ix c s := 0]"
    "fw_counters_started (phs s') = fw_counters_started (phs s) OR BIT (fw_ix c s)"
  using assms pmu_inv_sizes(6) [OF assms(1)]
  by (auto simp: cfg_finish_def set_data_def set_started_def fw_ix_def split: option.splits)

lemma bit_or_BIT: "i < 64 \<Longrightarrow> bit (w OR BIT i) j \<longleftrightarrow> bit w j \<or> j = i"
  by (auto simp: BIT_lt bit_or_iff push_bit_eq_mult bit_exp_iff)

text \<open>A call that clears and starts a counter for a firmware event nothing else counts.\<close>

lemma chosen_counts:
  assumes "pmu_inv s" and "pmu_inv s'" and "cfg_chosen m flg e d s r s'" and "is_fw (ucast e)" and "get_cidx_code (ucast e) = k"
    and "k < SBI_PMU_FW_MAX" and "bit flg 1" "bit flg 2"
    and "\<forall>j\<in>{unat (num_hw_ctrs s)..<unat (total_ctrs s)}. \<not> counting k s j"
  shows "sole_counter k s' (nat r)" "fw_value s' (nat r) = 0" "active_events (phs s') ! nat r = ucast e"
proof -
  obtain s1 s2 where st: "same_ctrs s s1" "set_event (nat r) (ucast e) s1 = Some s2" "pmu_inv s2"
      "cfg_finish (word_of_int r) (uint (get_cidx_type (ucast e))) (get_cidx_code (ucast e)) flg d s2 = Some (r, s')"
    and ch: "0 \<le> r" "may_choose m (ucast e) s (nat r)"
    using assms(3) by (auto simp: cfg_chosen_def)
  note ev2 = set_event_result [OF st(2,1)]
  have code: "get_cidx_code (ucast e) \<noteq> SBI_PMU_FW_PLATFORM" using assms(5,6) by auto
  have "\<not> r < 0" using ch(1) by simp
  note args = finish_args [OF st(3) ev2(2,3) ch(2) this]
  let ?i = "nat r"
  let ?n = "unat (num_hw_ctrs s)"
  note sz = pmu_inv_sizes [OF assms(1)]
  have i: "?n \<le> ?i" "?i < unat (total_ctrs s)" using ch(2) assms(4) by (auto simp: may_choose_def)
  have ty: "uint (get_cidx_type (ucast e)) = SBI_PMU_EVENT_TYPE_FW" using assms(4) by (simp add: is_fw_def)
  have "unat (word_of_int r :: u32) = ?i" using args(1) by (simp add: unat_eq_nat_uint)
  then have ix: "fw_ix (word_of_int r) s2 = ?i - ?n" "?i - ?n < 16"
    using fw_ix_eq(1) [OF st(3)] args(3) [OF ty] i ev2 by (simp_all add: word_le_nat_alt word_less_nat_alt)
  note fin = cfg_finish_fw [OF st(3) args(3) [OF ty] code assms(7,8) st(4) [unfolded ty], unfolded ix]
  have map: "active_events (phs s') = (active_events (phs s))[?i := ucast e]" "num_hw_ctrs s' = num_hw_ctrs s" "total_ctrs s' = total_ctrs s"
    using cfg_finish_result(2) [OF st(4) code] ev2 by (simp_all add: same_map_def)
  have cnt: "counting k s' j \<longleftrightarrow> j = ?i" if "?n \<le> j" "j < unat (total_ctrs s)" for j
  proof (cases "j = ?i")
    case True
    then show ?thesis
      using i ix(2) sz assms(5) by (simp add: counting_def map fin bit_or_BIT)
  next
    case False
    then have "j - ?n \<noteq> ?i - ?n" using that(1) i(1) by linarith
    then show ?thesis
      using False that assms(9) ix(2) by (simp add: counting_def map fin ev2(4) bit_or_BIT)
  qed
  show "sole_counter k s' ?i" using i cnt map by (auto simp: sole_counter_def)
  show "fw_value s' ?i = 0"
    using fin(1) ix(2) map(2) pmu_inv_sizes(6) [OF st(3)] by (simp add: fw_value_def)
  show "active_events (phs s') ! ?i = ucast e" using i sz map by simp
qed

lemma read_counter:
  assumes "pmu_inv s" and "active_events (phs s) ! unat c = e" and "is_fw e" and "get_cidx_code e = k" and "k < SBI_PMU_FW_MAX"
    and "num_hw_ctrs s \<le> c" and "c < total_ctrs s"
  shows "sbi_pmu_ctr_fw_read c t s = Some (0, fw_value s (unat c))"
proof -
  note sz = pmu_inv_sizes [OF assms(1)]
  have "e \<noteq> SBI_PMU_EVENT_IDX_INVALID" using assms(4,5) by (auto simp: get_cidx_code_def)
  moreover have "unat c < 48" using assms(7) sz by (simp add: word_less_nat_alt)
  ultimately have "pmu_ctr_validate c s = Some (SBI_PMU_EVENT_TYPE_FW, k)"
    using assms(2,3,4,7) sz(5) by (simp add: pmu_ctr_validate_def event_at_def is_fw_def Let_def not_le)
  moreover have "\<not> fw_code_bad k" "k \<noteq> SBI_PMU_FW_PLATFORM"
    using assms(5) by (auto simp: fw_code_bad_def word_less_nat_alt word_le_nat_alt)
  ultimately show ?thesis
    using fw_ix_eq [OF assms(1,6,7)] sz by (simp add: sbi_pmu_ctr_fw_read_def data_at_inv [OF assms(1)] fw_value_def)
qed

subsection \<open>A hart with three programmable counters\<close>

definition ex_pmu_feat :: pmu_features where
  "ex_pmu_feat = \<lparr>mhpm_mask = 0x38, mhpm_bits = 40, priv_1_10 = True, priv_1_11 = True, has_sscofpmf = False, has_smcntrpmf = False,
    xlate_to_mhpmevent = (\<lambda>e d. ucast e)\<rparr>"

definition ex_blank :: "unit pmu_state" where
  "ex_blank = \<lparr>pmu_feat = ex_pmu_feat, pmu_dev = None, hw_event_map = [], num_hw_ctrs = 0, total_ctrs = 0, has_phs = False,
    phs = new_phs 0, pmu_hw = \<lparr>csr = (\<lambda>n. if n = CSR_MCOUNTINHIBIT then 0xFFFFFFF8 else 0), abits = 54\<rparr>, devst = ()\<rparr>"

definition ex_booted :: "unit pmu_state" where
  "ex_booted = ex_blank\<lparr>hw_event_map := [\<lparr>counters = 0x38, start_idx = 3, end_idx = 5, evt_select = 0, select_mask = 0\<rparr>],
    num_hw_ctrs := 6, total_ctrs := 22, has_phs := True,
    phs := (new_phs 0)\<lparr>active_events := [1, SBI_PMU_EVENT_IDX_INVALID, 2] @ replicate 19 SBI_PMU_EVENT_IDX_INVALID @ replicate 26 0\<rparr>\<rparr>"

lemmas ex_pmu_defs = ex_booted_def ex_blank_def ex_pmu_feat_def new_phs_def

lemma ex_booted_simps [simp]:
  "pmu_dev ex_booted = None" "num_hw_ctrs ex_booted = 6" "total_ctrs ex_booted = 22" "has_phs ex_booted"
  "fw_counters_data (phs ex_booted) = replicate 16 0" "fw_counters_started (phs ex_booted) = 0"
  "length (active_events (phs ex_booted)) = 48" "active_events (phs ex_booted) ! 0 = 1"
  "\<And>i. 3 \<le> i \<Longrightarrow> i < 22 \<Longrightarrow> active_events (phs ex_booted) ! i = 0xFFFFFFFF"
  by (simp_all add: ex_pmu_defs nth_append nth_Cons')

lemma ex_fls: "sbi_fls 0x40 = 6" "sbi_fls 1 = 0" "sbi_fls 8 = 3" "sbi_ffs 1 = 0"
  by code_simp+

lemma ex_valid: "pmu_event_validate ex_booted 0xF0005 d = SBI_PMU_EVENT_TYPE_FW" "is_fw 0xF0005" "get_cidx_code 0xF0005 = 5"
  by (simp_all add: pmu_event_validate_def get_cidx_type_def get_cidx_code_def fw_code_bad_def dev_op_def ex_pmu_defs below_max_def Let_def is_fw_def)

lemma ex_mask: "mask_bits 0x40 = [6]" "mask_bits 8 = [3]"
  by code_simp+

lemmas ex_run = sbi_pmu_ctr_cfg_match_def ex_valid ex_fls Let_def pmu_ctr_find_fw_def ex_mask ctr_index_def event_at_def dev_op_def
  set_event_def cfg_finish_def set_data_def fw_ix_def

lemma ex_booted_inv: "pmu_inv ex_booted"
proof -
  have "take_bit 6 (56 :: u32) = 56" by simp
  then have map: "i < 6" if "bit (56 :: u32) i" for i using that by (metis bit_take_bit_iff)
  have "\<not> is_fw 1" "\<not> is_fw 2" using fixed_events_hw by simp_all
  then show ?thesis
    using map by (auto simp: pmu_inv_def ex_pmu_defs ctrs_exist_def nth_append nth_Cons' Let_def)
qed

lemma ex_cfg: "\<exists>s'. sbi_pmu_ctr_cfg_match 0 0x40 6 0xF0005 0 ex_booted = Some (6, s')"
  by (simp add: ex_run)

lemma ex_flags: "\<not> bit (6 :: ulong) 0" "bit (6 :: ulong) 1" "bit (6 :: ulong) 2" "(ucast (0xF0005 :: ulong) :: u32) = 0xF0005"
  by simp_all

lemma ex_proper: "proper_call (Ecall 2 0 0x40 6 0xF0005 0) s"
  by (simp add: proper_cfg_def get_cidx_code_def)

subsection \<open>Properties\<close>

text \<open>C16: After boot, every proper SBI call of the PMU extension and every firmware event returns: no array is accessed outside its
  bounds and no unknown CSR is written, whatever proper calls came before. The state keeps firmware events on firmware counters and other
  events on hardware counters. Proper is every call but \<open>SBI_EXT_PMU_EVENT_GET_INFO\<close>, whose range check may not return for some domains,
  and a \<open>SBI_EXT_PMU_COUNTER_CFG_MATCH\<close> with a base other than 0, for a platform firmware event, or that skips the match for a
  counter of the wrong kind; the last subsection has such calls that leave the arrays.\<close>

theorem pmu_calls_safe:
  assumes "pmu_reach s" and "proper_call c s"
  shows "\<exists>s'. pmu_step d einfo temp c s = Some s' \<and> pmu_inv s'"
  using pmu_step_safe [OF pmu_reach_inv [OF assms(1)] assms(2)] .

theorem pmu_calls_safe_witness:
  "\<exists>s :: unit pmu_state. pmu_reach s \<and> proper_call (Ecall 2 0 0x40 6 0xF0005 0) s \<and>
     (\<forall>d einfo temp. \<exists>s'. pmu_step d einfo temp (Ecall 2 0 0x40 6 0xF0005 0) s = Some s' \<and> pmu_inv s')"
proof -
  have m: "mhpm_mask (pmu_feat ex_blank) AND 7 = 0" by (simp add: ex_blank_def ex_pmu_feat_def)
  obtain s where "sbi_pmu_init True True True (fold add_entry [Hw_range 3 5 0x38]) 0 True ex_blank = Some (0, s)"
    using init_inv [OF m] by blast
  then have s: "pmu_reach s" by (rule pmu_reach.boot [OF m])
  show ?thesis using s ex_proper pmu_calls_safe [OF s ex_proper] by blast
qed

text \<open>C18: \<open>sbi_pmu_ctr_cfg_match\<close> without \<open>SKIP_MATCH\<close>, on a set of counters with base 0 and an event that is not the platform's, returns
  and either fails and leaves the counters as they are, or gives a fixed counter or a free counter of the set, of the kind of the event, and
  records the event for that counter and for no other.\<close>

theorem cfg_match_allocates:
  assumes "pmu_inv s" and "get_cidx_code (ucast e) \<noteq> SBI_PMU_FW_PLATFORM" and "\<not> bit flg 0"
  shows "\<exists>r s'. sbi_pmu_ctr_cfg_match 0 m flg e d s = Some (r, s') \<and>
    (r < 0 \<and> phs s' = phs s \<or>
     0 \<le> r \<and> may_choose m (ucast e) s (nat r) \<and> active_events (phs s') = (active_events (phs s))[nat r := ucast e])"
proof -
  obtain r s' where r: "sbi_pmu_ctr_cfg_match 0 m flg e d s = Some (r, s')" "r < 0 \<and> phs s' = phs s \<or> cfg_chosen m flg e d s r s'"
    using cfg_match_chosen [OF assms] by blast
  have "active_events (phs s') = (active_events (phs s))[nat r := ucast e]" if ch: "cfg_chosen m flg e d s r s'"
  proof -
    obtain s1 s2 where st: "set_event (nat r) (ucast e) s1 = Some s2" "same_ctrs s s1"
      "cfg_finish (word_of_int r) (uint (get_cidx_type (ucast e))) (get_cidx_code (ucast e)) flg d s2 = Some (r, s')"
      using ch by (auto simp: cfg_chosen_def)
    show ?thesis using set_event_result(1) [OF st(1,2)] cfg_finish_result(2) [OF st(3) assms(2)] by (simp add: same_map_def)
  qed
  then show ?thesis using r by (auto simp: cfg_chosen_def)
qed

theorem cfg_match_allocates_witness:
  "pmu_inv ex_booted \<and> (\<exists>s'. sbi_pmu_ctr_cfg_match 0 0x40 6 0xF0005 0 ex_booted = Some (6, s') \<and>
     may_choose 0x40 0xF0005 ex_booted 6 \<and> active_events (phs s') = (active_events (phs ex_booted))[6 := 0xF0005])"
proof -
  obtain s' where s': "sbi_pmu_ctr_cfg_match 0 0x40 6 0xF0005 0 ex_booted = Some (6, s')" using ex_cfg by blast
  have "get_cidx_code (ucast (0xF0005 :: ulong)) \<noteq> SBI_PMU_FW_PLATFORM" by (simp add: ex_flags ex_valid)
  from cfg_match_allocates [OF ex_booted_inv this ex_flags(1), where m = "0x40" and d = "0"] s'
  show ?thesis using ex_booted_inv by (simp add: ex_flags)
qed

text \<open>C17: A firmware counter that \<open>sbi_pmu_ctr_cfg_match\<close> gives, cleared and started, for an event that no other started counter counts reads
  the number of times \<open>sbi_pmu_ctr_incr_fw\<close> was called with that event since, modulo \<open>2 ^ 64\<close>, whatever other firmware events come
  between.\<close>

theorem fw_counter_counts:
  assumes "pmu_inv s" and "is_fw (ucast e)" and "get_cidx_code (ucast e) = k" and "k < SBI_PMU_FW_MAX"
    and "\<not> bit flg 0" and "bit flg 1" and "bit flg 2"
    and "\<forall>j\<in>{unat (num_hw_ctrs s)..<unat (total_ctrs s)}. \<not> counting k s j"
    and "sbi_pmu_ctr_cfg_match 0 m flg e d s = Some (c, s')" and "0 \<le> c" and "\<forall>e\<in>set es. e < SBI_PMU_FW_MAX"
  shows "\<exists>s''. run_events es s' = Some s'' \<and> sbi_pmu_ctr_fw_read (word_of_int c) t s'' = Some (0, of_nat (count_list es k))"
proof -
  have code: "get_cidx_code (ucast e) \<noteq> SBI_PMU_FW_PLATFORM" using assms(3,4) by auto
  have s': "pmu_inv s'" "cfg_chosen m flg e d s c s'"
    using cfg_match_chosen [OF assms(1) code assms(5), of m d] assms(9,10) by auto
  note sole = chosen_counts [OF assms(1) s' assms(2-4,6-8)]
  obtain s'' where run: "run_events es s' = Some s''" and inv: "pmu_inv s''" "same_map s' s''"
    and val: "fw_value s'' (nat c) = of_nat (count_list es k)"
    using events_counted [OF s'(1) sole(1) assms(11)] sole(2) by auto
  have c: "unat (num_hw_ctrs s'') \<le> nat c" "nat c < unat (total_ctrs s'')" "active_events (phs s'') ! nat c = ucast e"
    using sole(1,3) inv(2) by (auto simp: sole_counter_def same_map_def)
  then have "nat c < 48" using pmu_inv_sizes [OF inv(1)] by simp
  then have "unat (word_of_int c :: u32) = nat c" using assms(10) by (simp add: unat_eq_nat_uint uint_word_of_int)
  then have "sbi_pmu_ctr_fw_read (word_of_int c) t s'' = Some (0, fw_value s'' (nat c))"
    using c read_counter [OF inv(1) _ assms(2-4), of "word_of_int c" t] by (simp add: word_le_nat_alt word_less_nat_alt)
  then show ?thesis using run val by simp
qed

theorem fw_counter_counts_witness:
  "\<exists>s' s''. sbi_pmu_ctr_cfg_match 0 0x40 6 0xF0005 0 ex_booted = Some (6, s') \<and> run_events [5, 4, 5] s' = Some s'' \<and>
     sbi_pmu_ctr_fw_read 6 0 s'' = Some (0, 2)"
proof -
  obtain s' where s': "sbi_pmu_ctr_cfg_match 0 0x40 6 0xF0005 0 ex_booted = Some (6, s')" using ex_cfg by blast
  have no: "\<forall>j\<in>{unat (num_hw_ctrs ex_booted)..<unat (total_ctrs ex_booted)}. \<not> counting 5 ex_booted j" by (simp add: counting_def)
  have e: "is_fw (ucast (0xF0005 :: ulong))" "get_cidx_code (ucast (0xF0005 :: ulong)) = 5" by (simp_all add: ex_flags ex_valid)
  have "\<exists>s''. run_events [5, 4, 5] s' = Some s'' \<and> sbi_pmu_ctr_fw_read (word_of_int 6) 0 s'' = Some (0, of_nat (count_list [5, 4, 5] (5 :: u32)))"
    by (rule fw_counter_counts [OF ex_booted_inv e _ ex_flags(1-3) no s']) simp_all
  then show ?thesis using s' by auto
qed

subsection \<open>Calls that are not proper\<close>

text \<open>
  A supervisor can make the firmware write outside \<open>fw_counters_data\<close>: with \<open>SKIP_MATCH\<close> and a firmware event on a hardware counter; and
  with a base other than 0, because \<open>pmu_ctr_find_fw\<close> looks at and returns \<open>i\<close> instead of \<open>i + cbase\<close>.
\<close>

lemma skip_match_escapes: "sbi_pmu_ctr_cfg_match 0 1 3 0xF0005 0 ex_booted = None"
  by (simp add: ex_run)

lemma find_fw_base_escapes: "sbi_pmu_ctr_cfg_match 3 8 2 0xF0005 0 ex_booted = None"
  by (simp add: ex_run)

text \<open>A platform event for which no counter is free: the event data is stored at the index of the error code.\<close>

lemma platform_event_escapes:
  assumes "pmu_inv s" and "get_cidx_code (ucast e) = SBI_PMU_FW_PLATFORM" and "pmu_event_validate s (ucast e) d = SBI_PMU_EVENT_TYPE_FW"
    and "pmu_ctr_find_fw cb m SBI_PMU_FW_PLATFORM d s = Some SBI_ENOTSUPP" and "\<not> bit flg 0"
    and "cb + of_nat (sbi_fls m) < ucast (total_ctrs s)"
  shows "sbi_pmu_ctr_cfg_match cb m flg e d s = None"
proof -
  note sz = pmu_inv_sizes [OF assms(1)]
  have "num_hw_ctrs s \<le> -2" using sz(3) by (simp add: word_le_nat_alt)
  then have "unat (-2 - num_hw_ctrs s) = unat (-2 :: u32) - unat (num_hw_ctrs s)" by (rule unat_sub)
  then have "set_data (fw_ix (word_of_int SBI_ENOTSUPP) s) d s = None"
    using sz(3,6) by (simp add: set_data_def fw_ix_def)
  then show ?thesis using assms sz(1) by (simp add: sbi_pmu_ctr_cfg_match_def Let_def not_le)
qed

text \<open>\<open>CLEAR_VALUE\<close> and \<open>AUTO_START\<close> have no effect for cache and raw events.\<close>

lemma cache_event_not_started:
  "ty \<noteq> SBI_PMU_EVENT_TYPE_HW \<Longrightarrow> ty \<noteq> SBI_PMU_EVENT_TYPE_FW \<Longrightarrow> cfg_finish c ty code flg d s = Some (uint c, s)"
  by (simp add: cfg_finish_def)

text \<open>A read that fails gives the supervisor what the local variable of the handler held.\<close>

lemma failed_read_leaks:
  "pmu_inv s \<Longrightarrow> total_ctrs s \<le> ucast a0 \<Longrightarrow>
   sbi_ecall_pmu_handler d einfo temp 5 a0 a1 a2 a3 a4 s = Some ((SBI_EINVAL, temp, []), s)"
  by (simp add: sbi_ecall_pmu_handler_def sbi_pmu_ctr_fw_read_def pmu_ctr_validate_def pmu_inv_sizes)

text \<open>Of two started counters for the same event only the first counts.\<close>

lemma second_counter_idle:
  assumes "pmu_inv s" and "k < SBI_PMU_FW_MAX" and "counting k s i" and "counting k s j"
    and "unat (num_hw_ctrs s) \<le> i" and "i < j" and "j < unat (total_ctrs s)" and "sbi_pmu_ctr_incr_fw k s = Some (r, s')"
  shows "fw_value s' j = fw_value s j"
proof -
  let ?n = "unat (num_hw_ctrs s)"
  let ?xs = "[?n..<unat (total_ctrs s)]"
  have "List.find (counting k s) ?xs \<noteq> None" using assms(3,5-7) by (auto simp: find_None_iff intro!: exI [of _ i])
  then obtain h where h: "List.find (counting k s) ?xs = Some h" by blast
  then obtain x where x: "x < length ?xs" "h = ?xs ! x" "\<forall>y<x. \<not> counting k s (?xs ! y)" by (auto simp: find_Some_iff)
  have "\<not> i - ?n < x" using x(1,3) assms(3,5) by auto
  then have "h < j" "?n \<le> h" using x(1,2) assms(5,6) by auto
  then show ?thesis using assms(8) h by (auto simp: incr_fw_find [OF assms(1,2)] Let_def fw_value_def)
qed

end
