(* ===== verification/Sbi_Timer.thy ===== *)
theory Sbi_Timer
  imports Sbi_Pmu
begin

unbundle bit_operations_syntax

text \<open>
  The timer, \<open>lib/sbi/sbi_timer.c\<close> with \<open>lib/sbi/sbi_ecall_time.c\<close>, on RV64: the source of the time, the offset of the virtual time, the
  timer event of the supervisor and the two loops that wait.

  Time is a parameter: the value one read gives, or for a loop the values of its successive reads. The calls of the device's callbacks
  are recorded in the order in which they are made.
\<close>

subsection \<open>State\<close>

definition MIP_STIP :: ulong where [sbi_defs]: "MIP_STIP = BIT 5"
definition MIP_MTIP :: ulong where [sbi_defs]: "MIP_MTIP = BIT 7"
definition CSR_STIMECMP :: nat where [simp, sbi_defs]: "CSR_STIMECMP = 0x14D"
definition SBI_PMU_FW_SET_TIMER :: u32 where [simp, sbi_defs]: "SBI_PMU_FW_SET_TIMER = 5"

record sbi_timer_device =
  timer_freq :: ulong
  timer_value :: bool
  timer_event_start :: bool
  timer_event_stop :: bool
  warm_init :: "int option"

datatype time_source = Get_ticks | Device_value

datatype dev_event = Event_start u64 | Event_stop | Warm_init

record timer_state =
  time_delta_off :: bool
  get_time_val :: "time_source option"
  timer_dev :: "sbi_timer_device option"
  time_delta :: u64
  dev_log :: "dev_event list"

subsection \<open>Time\<close>

definition sbi_timer_value :: "u64 \<Rightarrow> timer_state \<Rightarrow> u64" where
  "sbi_timer_value now t = (if get_time_val t \<noteq> None then now else 0)"

definition sbi_timer_virt_value :: "u64 \<Rightarrow> timer_state \<Rightarrow> u64" where
  "sbi_timer_virt_value now t = sbi_timer_value now t + time_delta t"

definition sbi_timer_get_delta :: "timer_state \<Rightarrow> u64" where
  "sbi_timer_get_delta t = time_delta t"

definition sbi_timer_set_delta :: "ulong \<Rightarrow> timer_state \<Rightarrow> timer_state" where
  "sbi_timer_set_delta d t = t\<lparr>time_delta := d\<rparr>"

text \<open>
  \<open>sbi_timer_delay_loop\<close>: read \<open>i\<close> of the time gives \<open>clk i\<close>; the result is the number of the last read, \<open>None\<close> when the loop does
  not end. Without a time source the function returns at once.
\<close>

partial_function (option) delay_wait :: "(nat \<Rightarrow> u64) \<Rightarrow> u64 \<Rightarrow> u64 \<Rightarrow> nat \<Rightarrow> nat option" where
  "delay_wait clk start_val delta i = (if clk i - start_val < delta then delay_wait clk start_val delta (i + 1) else Some i)"

definition delay_delta :: "sbi_timer_device \<Rightarrow> ulong \<Rightarrow> u64 \<Rightarrow> u64" where
  "delay_delta dev units unit_freq = (timer_freq dev * units) div unit_freq"

definition sbi_timer_delay_loop :: "ulong \<Rightarrow> u64 \<Rightarrow> (nat \<Rightarrow> u64) \<Rightarrow> timer_state \<Rightarrow> nat option" where
  "sbi_timer_delay_loop units unit_freq clk t =
    (case (timer_dev t, get_time_val t) of
      (Some dev, Some src) \<Rightarrow> delay_wait clk (clk 0) (delay_delta dev units unit_freq) 1
    | _ \<Rightarrow> Some 0)"

definition sbi_timer_mdelay :: "ulong \<Rightarrow> (nat \<Rightarrow> u64) \<Rightarrow> timer_state \<Rightarrow> nat option" where
  "sbi_timer_mdelay msecs = sbi_timer_delay_loop msecs 1000"

definition sbi_timer_udelay :: "ulong \<Rightarrow> (nat \<Rightarrow> u64) \<Rightarrow> timer_state \<Rightarrow> nat option" where
  "sbi_timer_udelay usecs = sbi_timer_delay_loop usecs 1000000"

text \<open>
  \<open>sbi_timer_waitms_until\<close>: \<open>poll i\<close> is the result of call \<open>i\<close> of the predicate. The outer \<open>None\<close> is a loop that does not end, the inner
  one the access through the missing device.
\<close>

partial_function (option) wait_until :: "(nat \<Rightarrow> bool) \<Rightarrow> (nat \<Rightarrow> u64) \<Rightarrow> u64 \<Rightarrow> u64 \<Rightarrow> nat \<Rightarrow> (bool \<times> nat) option" where
  "wait_until poll clk start_time ticks i =
    (if poll i then Some (True, i)
     else if clk (i + 1) - start_time \<ge> ticks then Some (False, i)
     else wait_until poll clk start_time ticks (i + 1))"

definition sbi_timer_waitms_until :: "(nat \<Rightarrow> bool) \<Rightarrow> u64 \<Rightarrow> (nat \<Rightarrow> u64) \<Rightarrow> timer_state \<Rightarrow> (bool \<times> nat) option option" where
  "sbi_timer_waitms_until poll timeout_ms clk t =
    (case timer_dev t of
      None \<Rightarrow> Some None
    | Some dev \<Rightarrow> map_option Some
        (wait_until poll (\<lambda>i. sbi_timer_value (clk i) t) (sbi_timer_value (clk 0) t) (timer_freq dev div 1000 * timeout_ms) 0))"

subsection \<open>The timer event of the supervisor\<close>

definition set_csr_bits :: "nat \<Rightarrow> ulong \<Rightarrow> 'd pmu_state \<Rightarrow> 'd pmu_state" where
  "set_csr_bits num w p = write_csr num (read_csr num p OR w) p"

definition clear_csr_bits :: "nat \<Rightarrow> ulong \<Rightarrow> 'd pmu_state \<Rightarrow> 'd pmu_state" where
  "clear_csr_bits num w p = write_csr num (read_csr num p AND NOT w) p"

definition sbi_timer_event_start :: "bool \<Rightarrow> u64 \<Rightarrow> timer_state \<times> 'd pmu_state \<Rightarrow> (timer_state \<times> 'd pmu_state) option" where
  "sbi_timer_event_start has_sstc next_event tp = (case tp of (t, p) \<Rightarrow> do {
    (ret, p) \<leftarrow> sbi_pmu_ctr_incr_fw SBI_PMU_FW_SET_TIMER p;
    let (t, p) =
      (if has_sstc then (t, write_csr CSR_STIMECMP next_event p)
       else (case timer_dev t of
         Some dev \<Rightarrow>
           if timer_event_start dev then (t\<lparr>dev_log := dev_log t @ [Event_start next_event]\<rparr>, clear_csr_bits CSR_MIP MIP_STIP p)
           else (t, p)
       | None \<Rightarrow> (t, p)));
    Some (t, set_csr_bits CSR_MIE MIP_MTIP p) })"

definition sbi_timer_process :: "bool \<Rightarrow> 'd pmu_state \<Rightarrow> 'd pmu_state" where
  "sbi_timer_process has_sstc p =
    (let p = clear_csr_bits CSR_MIE MIP_MTIP p
     in if \<not> has_sstc then set_csr_bits CSR_MIP MIP_STIP p else p)"

subsection \<open>Device, boot and exit\<close>

definition sbi_timer_get_device :: "timer_state \<Rightarrow> sbi_timer_device option" where
  "sbi_timer_get_device t = timer_dev t"

definition sbi_timer_set_device :: "sbi_timer_device option \<Rightarrow> timer_state \<Rightarrow> timer_state" where
  "sbi_timer_set_device dev t =
    (case (dev, timer_dev t) of
      (Some d, None) \<Rightarrow>
        t\<lparr>timer_dev := Some d,
          get_time_val := (if get_time_val t = None \<and> timer_value d then Some Device_value else get_time_val t)\<rparr>
    | _ \<Rightarrow> t)"

text \<open>\<open>off\<close> says whether the scratch offset could be allocated, \<open>plat_init\<close> is the result of the platform's \<open>timer_init\<close> and the device it
  sets, if any.\<close>

definition timer_warm :: "timer_state \<Rightarrow> int \<times> timer_state" where
  "timer_warm t =
    (let t = t\<lparr>time_delta := 0\<rparr>
     in (case timer_dev t of
       Some dev \<Rightarrow> (case warm_init dev of Some ret \<Rightarrow> (ret, t\<lparr>dev_log := dev_log t @ [Warm_init]\<rparr>) | None \<Rightarrow> (0, t))
     | None \<Rightarrow> (0, t)))"

definition sbi_timer_init ::
  "bool \<Rightarrow> bool \<Rightarrow> int \<times> sbi_timer_device option \<Rightarrow> bool \<Rightarrow> timer_state \<Rightarrow> int \<times> timer_state" where
  "sbi_timer_init off has_zicntr plat_init cold_boot t =
    (if cold_boot then
       let t = t\<lparr>time_delta_off := off\<rparr>
       in if \<not> off then (SBI_ENOMEM, t)
          else
            let t = (if has_zicntr then t\<lparr>get_time_val := Some Get_ticks\<rparr> else t);
                t = sbi_timer_set_device (snd plat_init) t
            in if fst plat_init \<noteq> 0 then (fst plat_init, t) else timer_warm t
     else if \<not> time_delta_off t then (SBI_ENOMEM, t)
     else timer_warm t)"

definition sbi_timer_exit :: "timer_state \<times> 'd pmu_state \<Rightarrow> timer_state \<times> 'd pmu_state" where
  "sbi_timer_exit tp = (case tp of (t, p) \<Rightarrow>
    let t = (case timer_dev t of
          Some dev \<Rightarrow> if timer_event_stop dev then t\<lparr>dev_log := dev_log t @ [Event_stop]\<rparr> else t
        | None \<Rightarrow> t)
    in (t, clear_csr_bits CSR_MIE MIP_MTIP (clear_csr_bits CSR_MIP MIP_STIP p)))"

text \<open>\<open>sbi_ecall_time_handler\<close> on RV64.\<close>

definition sbi_ecall_time_handler ::
  "bool \<Rightarrow> ulong \<Rightarrow> ulong \<Rightarrow> timer_state \<times> 'd pmu_state \<Rightarrow> (int \<times> timer_state \<times> 'd pmu_state) option" where
  "sbi_ecall_time_handler has_sstc funcid a0 tp =
    (if funcid = 0 then map_option (Pair 0) (sbi_timer_event_start has_sstc a0 tp) else Some (SBI_ENOTSUPP, tp))"

subsection \<open>The loops wait as long as they should\<close>

text \<open>
  \<open>clock_ok clk T d\<close>: the reads are those of a clock that counts modulo \<open>2 ^ 64\<close>, with the true time \<open>T\<close>, that goes on and never advances
  by more than \<open>2 ^ 64 - d\<close> between two reads, so that a loop that waits for \<open>d\<close> ticks cannot miss the end.
\<close>

definition clock_ok :: "(nat \<Rightarrow> u64) \<Rightarrow> (nat \<Rightarrow> nat) \<Rightarrow> nat \<Rightarrow> bool" where
  "clock_ok clk T d \<longleftrightarrow> (\<forall>i. clk i = of_nat (T i)) \<and> mono T \<and> (\<forall>i. T (Suc i) \<le> T i + (2 ^ 64 - d)) \<and> (\<exists>n. T 0 + d \<le> T n)"

lemma elapsed:
  assumes "clock_ok clk T d" and "T i - T 0 < 2 ^ 64"
  shows "unat (clk i - clk 0) = T i - T 0"
proof -
  have "T 0 \<le> T i" using assms(1) by (simp add: clock_ok_def monoD)
  then have "clk i - clk 0 = of_nat (T i - T 0)" using assms(1) by (simp add: clock_ok_def of_nat_diff)
  then show ?thesis using assms(2) by (simp add: unat_of_nat take_bit_nat_eq_self)
qed

text \<open>The first read that is late enough: the difference of the readings is exact up to and including it.\<close>

lemma first_late:
  assumes "clock_ok clk T d" and "d < 2 ^ 64"
  shows "\<exists>n\<ge>1. d \<le> T n - T 0 \<and> (\<forall>i. 1 \<le> i \<and> i < n \<longrightarrow> T i - T 0 < d) \<and> (d = 0 \<or> T n - T 0 < 2 ^ 64)"
proof -
  let ?late = "\<lambda>n. 1 \<le> n \<and> d \<le> T n - T 0"
  obtain n where "T 0 + d \<le> T n" using assms(1) by (auto simp: clock_ok_def)
  moreover have "T n \<le> T (Suc n)" using assms(1) by (auto simp: clock_ok_def intro: monoD)
  ultimately have "?late (Suc n)" by auto
  then have least: "?late (LEAST n. ?late n)" "\<And>i. ?late i \<Longrightarrow> (LEAST n. ?late n) \<le> i"
    using LeastI [of ?late "Suc n"] Least_le [of ?late] by blast+
  define m where "m = (LEAST n. ?late n)"
  obtain k where k: "m = Suc k" using least(1) unfolding m_def by (cases "LEAST n. ?late n") auto
  have "d = 0 \<or> T k - T 0 < d"
  proof (cases k)
    case 0
    then show ?thesis by auto
  next
    case (Suc j)
    then show ?thesis using least(2) [of k] k unfolding m_def [symmetric] by auto
  qed
  moreover have "T m \<le> T k + (2 ^ 64 - d)" "T 0 \<le> T k" using assms(1) by (auto simp: clock_ok_def k intro: monoD)
  ultimately have "d = 0 \<or> T m - T 0 < 2 ^ 64" using assms(2) by linarith
  then show ?thesis
    using least unfolding m_def [symmetric] by (intro exI [of _ m]) (auto simp: not_le [symmetric])
qed

lemma delay_wait_ends:
  assumes "clock_ok clk T (unat delta)" and "1 \<le> i" and "i \<le> n"
    and "unat delta \<le> T n - T 0" and "\<forall>j. 1 \<le> j \<and> j < n \<longrightarrow> T j - T 0 < unat delta" and "delta = 0 \<or> T n - T 0 < 2 ^ 64"
  shows "delay_wait clk (clk 0) delta i = Some n"
  using assms(2,3)
proof (induction "n - i" arbitrary: i)
  case 0
  then have "i = n" by simp
  have "\<not> clk n - clk 0 < delta"
    using assms(4,6) elapsed [OF assms(1), of n] by (auto simp: word_less_nat_alt)
  then show ?case using \<open>i = n\<close> by (simp add: delay_wait.simps)
next
  case (Suc k)
  have lt: "T i - T 0 < unat delta" using assms(5) Suc by simp
  then have "unat (clk i - clk 0) = T i - T 0"
    using elapsed [OF assms(1), of i] unsigned_less [of delta, where 'a = nat] by simp
  then have "clk i - clk 0 < delta" using lt by (simp add: word_less_nat_alt)
  moreover have "delay_wait clk (clk 0) delta (i + 1) = Some n" using Suc by simp
  ultimately show ?case by (subst delay_wait.simps) simp
qed

text \<open>The number of ticks of the timer in \<open>units\<close> units of which \<open>unit_freq\<close> make a second, rounded down.\<close>

definition ticks_in :: "sbi_timer_device \<Rightarrow> ulong \<Rightarrow> u64 \<Rightarrow> nat" where
  "ticks_in dev units unit_freq = unat (timer_freq dev) * unat units div unat unit_freq"

lemma delay_delta_ticks:
  assumes "unat (timer_freq dev) * unat units < 2 ^ 64"
  shows "unat (delay_delta dev units unit_freq) = ticks_in dev units unit_freq"
proof -
  have "unat (timer_freq dev * units) = unat (timer_freq dev) * unat units"
    using assms by (simp add: unat_word_ariths take_bit_nat_eq_self)
  then show ?thesis by (simp add: delay_delta_def ticks_in_def unat_div)
qed

text \<open>C35: \<open>sbi_timer_delay_loop\<close> returns, and not before the requested time has elapsed, also when the 64-bit counter wraps around
  while it waits: it stops at the first reading at least \<open>timer_freq * units / unit_freq\<close> ticks, rounded down, after the first. That is
  for a unit frequency other than 0, delays whose product \<open>timer_freq * units\<close> fits 64 bits, and a clock that goes on and does not
  jump; see \<open>delay_overflow\<close> for longer ones.\<close>

theorem delay_loop_waits:
  assumes "timer_dev t = Some dev" and "get_time_val t \<noteq> None" and "clock_ok clk T (ticks_in dev units unit_freq)"
    and "unat (timer_freq dev) * unat units < 2 ^ 64" and "unit_freq \<noteq> 0"
  shows "\<exists>n. sbi_timer_delay_loop units unit_freq clk t = Some n \<and>
    unat (timer_freq dev) * unat units div unat unit_freq \<le> T n - T 0 \<and>
    (\<forall>i. 1 \<le> i \<and> i < n \<longrightarrow> T i - T 0 < unat (timer_freq dev) * unat units div unat unit_freq)"
proof -
  let ?d = "delay_delta dev units unit_freq"
  note d = delay_delta_ticks [OF assms(4), of unit_freq]
  have ok: "clock_ok clk T (unat ?d)" using assms(3) by (simp add: d)
  have "unat ?d < 2 ^ 64" using unsigned_less [of ?d, where 'a = nat] by simp
  then obtain n where n: "1 \<le> n" "unat ?d \<le> T n - T 0" "\<forall>i. 1 \<le> i \<and> i < n \<longrightarrow> T i - T 0 < unat ?d" "unat ?d = 0 \<or> T n - T 0 < 2 ^ 64"
    using first_late [OF ok] by blast
  then have "delay_wait clk (clk 0) ?d 1 = Some n"
    using delay_wait_ends [OF ok, of 1 n] by (simp add: unat_eq_zero)
  then show ?thesis using assms(1,2) n by (auto simp: sbi_timer_delay_loop_def d ticks_in_def)
qed

definition ex_timer_dev :: sbi_timer_device where
  "ex_timer_dev = \<lparr>timer_freq = 1000, timer_value = True, timer_event_start = True, timer_event_stop = True, warm_init = None\<rparr>"

definition ex_timer :: timer_state where
  "ex_timer = \<lparr>time_delta_off = True, get_time_val = Some Device_value, timer_dev = Some ex_timer_dev, time_delta = 0, dev_log = []\<rparr>"

text \<open>A delay of three milliseconds that starts one tick before the counter wraps around.\<close>

theorem delay_loop_waits_witness:
  "\<exists>n. sbi_timer_delay_loop 3 1000 (\<lambda>i. of_nat (2 ^ 64 - 1 + i)) ex_timer = Some n \<and> 3 \<le> (2 ^ 64 - 1 + n) - (2 ^ 64 - 1 :: nat) \<and>
     (\<forall>i. 1 \<le> i \<and> i < n \<longrightarrow> (2 ^ 64 - 1 + i) - (2 ^ 64 - 1) < (3 :: nat))"
proof -
  have f: "unat (timer_freq ex_timer_dev) = 1000" by (simp add: ex_timer_dev_def)
  have d: "ticks_in ex_timer_dev 3 1000 = 3" by (simp add: ticks_in_def f)
  have "\<exists>n. (2 ^ 64 - 1 + 0) + 3 \<le> 2 ^ 64 - 1 + (n :: nat)" by (rule exI [of _ 3]) simp
  then have c: "clock_ok (\<lambda>i. of_nat (2 ^ 64 - 1 + i)) (\<lambda>i. 2 ^ 64 - 1 + i) (ticks_in ex_timer_dev 3 1000)"
    unfolding clock_ok_def d by (auto simp: mono_def)
  have "timer_dev ex_timer = Some ex_timer_dev" "get_time_val ex_timer \<noteq> None" by (simp_all add: ex_timer_def)
  from delay_loop_waits [OF this c] show ?thesis by (simp add: f)
qed

text \<open>The product wraps around for longer delays: at 1 GHz a delay of 18446744074 milliseconds, some 213 days, ends after a third of a millisecond, where
  \<open>timer_freq / unit_freq * units\<close> ticks would have fitted.\<close>

lemma delay_overflow:
  "ticks_in (ex_timer_dev\<lparr>timer_freq := 1000000000\<rparr>) 18446744074 1000 = 18446744074000000"
  "delay_delta (ex_timer_dev\<lparr>timer_freq := 1000000000\<rparr>) 18446744074 1000 = 290448"
  by (simp_all add: ticks_in_def delay_delta_def)

text \<open>\<open>sbi_timer_waitms_until\<close> returns: true at the first poll that succeeds, false at the first reading after the timeout before that.\<close>

lemma wait_until_ends:
  assumes "clock_ok clk T (unat ticks)" and "unat ticks \<le> T n - T 0" and "\<forall>j. 1 \<le> j \<and> j < n \<longrightarrow> T j - T 0 < unat ticks"
    and "ticks = 0 \<or> T n - T 0 < 2 ^ 64" and "i < n" and "\<forall>j<i. \<not> poll j"
  shows "\<exists>b m. wait_until poll clk (clk 0) ticks i = Some (b, m) \<and> m < n \<and> b = poll m \<and> (\<forall>j<m. \<not> poll j) \<and> (b \<or> m = n - 1)"
  using assms(5,6)
proof (induction "n - i" arbitrary: i)
  case 0
  then show ?case by simp
next
  case (Suc k)
  show ?case
  proof (cases "poll i")
    case True
    then show ?thesis using Suc by (subst wait_until.simps) auto
  next
    case False
    show ?thesis
    proof (cases "i + 1 = n")
      case True
      have "ticks \<le> clk (i + 1) - clk 0"
        using assms(2,4) elapsed [OF assms(1), of n] True by (auto simp: word_le_nat_alt)
      then have "wait_until poll clk (clk 0) ticks i = Some (False, i)" using False by (simp add: wait_until.simps)
      then show ?thesis using False True Suc.prems by (intro exI [of _ False] exI [of _ i]) auto
    next
      case more: False
      then have lt: "T (i + 1) - T 0 < unat ticks" using assms(3) Suc.prems by simp
      then have "\<not> ticks \<le> clk (i + 1) - clk 0"
        using elapsed [OF assms(1), of "i + 1"] unsigned_less [of ticks, where 'a = nat] by (simp add: word_le_nat_alt)
      moreover have "\<forall>j<i + 1. \<not> poll j" using False Suc.prems(2) by (auto simp: less_Suc_eq)
      ultimately show ?thesis
        using False more Suc.prems(1) Suc.hyps(1) [of "i + 1"] Suc.hyps(2) by (subst wait_until.simps) auto
    qed
  qed
qed

theorem waitms_until_returns:
  assumes "timer_dev t = Some dev" and "get_time_val t \<noteq> None" and "clock_ok clk T (unat (timer_freq dev div 1000 * timeout_ms))"
  defines "d \<equiv> unat (timer_freq dev div 1000 * timeout_ms)"
  shows "\<exists>b m. sbi_timer_waitms_until poll timeout_ms clk t = Some (Some (b, m)) \<and> b = poll m \<and> (\<forall>j<m. \<not> poll j) \<and>
    (\<not> b \<longrightarrow> d \<le> T (m + 1) - T 0) \<and> (\<forall>j. 1 \<le> j \<and> j \<le> m \<longrightarrow> T j - T 0 < d)"
proof -
  let ?d = "timer_freq dev div 1000 * timeout_ms"
  have "unat ?d < 2 ^ 64" using unsigned_less [of ?d, where 'a = nat] by simp
  then obtain n where n: "1 \<le> n" "unat ?d \<le> T n - T 0" "\<forall>i. 1 \<le> i \<and> i < n \<longrightarrow> T i - T 0 < unat ?d" "unat ?d = 0 \<or> T n - T 0 < 2 ^ 64"
    using first_late [OF assms(3)] by blast
  have z: "?d = 0 \<or> T n - T 0 < 2 ^ 64" using n(4) by (simp add: unat_eq_zero)
  have "0 < n" "\<forall>j<0. \<not> poll j" using n(1) by simp_all
  then obtain b m where w: "wait_until poll clk (clk 0) ?d 0 = Some (b, m)" "m < n" "b = poll m" "\<forall>j<m. \<not> poll j" "b \<or> m = n - 1"
    using wait_until_ends [OF assms(3) n(2,3) z] by blast
  have "sbi_timer_waitms_until poll timeout_ms clk t = Some (Some (b, m))"
    using assms(1,2) w(1) by (simp add: sbi_timer_waitms_until_def sbi_timer_value_def)
  moreover have "\<not> b \<Longrightarrow> m + 1 = n" using w(5) n(1) by simp
  then have "\<not> b \<longrightarrow> d \<le> T (m + 1) - T 0" using n(2) unfolding d_def by metis
  moreover have "\<forall>j. 1 \<le> j \<and> j \<le> m \<longrightarrow> T j - T 0 < d" using n(3) w(2) unfolding d_def by simp
  ultimately show ?thesis using w(3,4) by blast
qed

subsection \<open>The timer event\<close>

lemma csr_bits_read:
  assumes "num < CSR_PMPCFG0"
  shows "read_csr num (write_csr num v p) = v" "num' \<noteq> num \<Longrightarrow> read_csr num' (write_csr num v p) = read_csr num' p"
  using assms by (simp_all add: read_csr_def write_csr_def csr_read_def csr_write_def)

text \<open>
  On a hart without Sstc, setting the timer programs the device, takes the pending supervisor timer interrupt away and enables the machine
  timer interrupt; when that arrives, it is disabled again and the supervisor timer interrupt is pending.
\<close>

theorem timer_event_cycle:
  assumes "timer_dev t = Some dev" and "timer_event_start dev" and "sbi_pmu_ctr_incr_fw SBI_PMU_FW_SET_TIMER p = Some (0, p1)"
  shows "\<exists>p2. sbi_timer_event_start False e (t, p) = Some (t\<lparr>dev_log := dev_log t @ [Event_start e]\<rparr>, p2) \<and>
    \<not> bit (read_csr CSR_MIP p2) 5 \<and> bit (read_csr CSR_MIE p2) 7 \<and>
    bit (read_csr CSR_MIP (sbi_timer_process False p2)) 5 \<and> \<not> bit (read_csr CSR_MIE (sbi_timer_process False p2)) 7"
  using assms
  by (auto simp: sbi_timer_event_start_def sbi_timer_process_def set_csr_bits_def clear_csr_bits_def csr_bits_read Let_def
      MIP_STIP_def MIP_MTIP_def BIT_lt bit_and_iff bit_or_iff bit_not_iff)

end
