(* ===== verification/Sbi_Illegal.thy ===== *)
theory Sbi_Illegal
  imports Sbi_Timer Sbi_Pmu_Spec Sbi_Ldst_Spec
begin

unbundle bit_operations_syntax

text \<open>
  Emulation of illegal instructions on RV64: \<open>lib/sbi/sbi_illegal_insn.c\<close> with the CSRs of \<open>lib/sbi/sbi_emulate_csr.c\<close>. Instructions that
  access the counters, the time or \<open>htimedelta\<close> on a hart that lacks the CSR are emulated, everything else is given to the supervisor.

  The state joins the trapped context with its memory, the timer and the performance counters, whose CSRs are the CSRs of the hart; \<open>now\<close>
  is the time a read gives. Counting the event can only fail as \<open>sbi_pmu_ctr_incr_fw\<close> can.
\<close>

subsection \<open>The emulator\<close>

definition CSR_HTIMEDELTA :: nat where [simp, sbi_defs]: "CSR_HTIMEDELTA = 0x605"
definition CSR_TIME :: nat where [simp, sbi_defs]: "CSR_TIME = 0xc01"
definition CSR_INSTRET :: nat where [simp, sbi_defs]: "CSR_INSTRET = 0xc02"
definition CSR_HPMCOUNTER3 :: nat where [simp, sbi_defs]: "CSR_HPMCOUNTER3 = 0xc03"
definition CSR_SCOUNTEREN :: nat where [simp, sbi_defs]: "CSR_SCOUNTEREN = 0x106"
definition CSR_HCOUNTEREN :: nat where [simp, sbi_defs]: "CSR_HCOUNTEREN = 0x606"
definition CAUSE_ILLEGAL_INSTRUCTION :: ulong where [simp, sbi_defs]: "CAUSE_ILLEGAL_INSTRUCTION = 2"
definition SBI_PMU_FW_ILLEGAL_INSN :: u32 where [simp, sbi_defs]: "SBI_PMU_FW_ILLEGAL_INSN = 4"
definition INSN_MATCH_FENCE_TSO :: ulong where [simp, sbi_defs]: "INSN_MATCH_FENCE_TSO = 0x8330000f"
definition INSN_MASK_FENCE_TSO :: ulong where [simp, sbi_defs]: "INSN_MASK_FENCE_TSO = 0xffffffff"

definition GET_RM :: "ulong \<Rightarrow> ulong" where "GET_RM insn = drop_bit 12 (insn AND 0x7000)"
definition GET_RS1_NUM :: "ulong \<Rightarrow> ulong" where "GET_RS1_NUM insn = drop_bit 15 (insn AND 0xf8000)"
definition GET_CSR_NUM :: "ulong \<Rightarrow> nat" where "GET_CSR_NUM insn = unat (drop_bit 20 (ucast (ucast insn :: u32) AND (0xfff00000 :: ulong)))"

record 'd emu_state =
  em_l :: ldst_state
  em_t :: timer_state
  em_p :: "'d pmu_state"

definition em_mode :: "'d emu_state \<Rightarrow> ulong" where
  "em_mode s = sbi_mstatus_prev_mode (tc_mstatus (tc (em_l s)))"

definition em_virt :: "'d emu_state \<Rightarrow> bool" where
  "em_virt s \<longleftrightarrow> tc_mstatus (tc (em_l s)) AND MSTATUS_MPV \<noteq> 0"

definition hpm_allowed :: "nat \<Rightarrow> ulong \<Rightarrow> bool \<Rightarrow> 'd pmu_state \<Rightarrow> bool" where
  "hpm_allowed hpm_num prev_mode virt p =
    (let cen = -1;
         cen = (if prev_mode \<le> PRV_S then
                  if priv_1_10 (pmu_feat p) then
                    let cen = cen AND read_csr CSR_MCOUNTEREN p
                    in if virt then cen AND read_csr CSR_HCOUNTEREN p else cen
                  else 0
                else cen);
         cen = (if prev_mode = PRV_U then
                  if priv_1_10 (pmu_feat p) then cen AND read_csr CSR_SCOUNTEREN p else 0
                else cen)
     in drop_bit hpm_num cen AND 1 \<noteq> 0)"

text \<open>\<open>sbi_emulate_csr_read\<close> and \<open>sbi_emulate_csr_write\<close>: \<open>None\<close> is \<open>SBI_ENOTSUPP\<close>.\<close>

definition sbi_emulate_csr_read :: "u64 \<Rightarrow> nat \<Rightarrow> 'd emu_state \<Rightarrow> ulong option" where
  "sbi_emulate_csr_read now csr_num s =
    (let p = em_p s; t = em_t s; ok = hpm_allowed (csr_num - unat CSR_CYCLE) (em_mode s) (em_virt s) p
     in if csr_num = CSR_HTIMEDELTA then
          if em_mode s = PRV_S \<and> \<not> em_virt s then Some (sbi_timer_get_delta t) else None
        else if csr_num = unat CSR_CYCLE then if ok then Some (read_csr CSR_MCYCLE p) else None
        else if csr_num = CSR_TIME then
          if ok then Some (if em_virt s then sbi_timer_virt_value now t else sbi_timer_value now t) else None
        else if csr_num = CSR_INSTRET then if ok then Some (read_csr CSR_MINSTRET p) else None
        else if CSR_HPMCOUNTER3 \<le> csr_num \<and> csr_num < CSR_HPMCOUNTER3 + 29 then
          if bit (mhpm_mask (pmu_feat p)) (csr_num - unat CSR_CYCLE) then None
          else if \<not> ok then None
          else Some (read_csr (CSR_MCYCLE + csr_num - unat CSR_CYCLE) p)
        else None)"

definition sbi_emulate_csr_write :: "nat \<Rightarrow> ulong \<Rightarrow> 'd emu_state \<Rightarrow> 'd emu_state option" where
  "sbi_emulate_csr_write csr_num csr_val s =
    (if csr_num = CSR_HTIMEDELTA \<and> em_mode s = PRV_S \<and> \<not> em_virt s
     then Some (s\<lparr>em_t := sbi_timer_set_delta csr_val (em_t s)\<rparr>) else None)"

definition em_redirect :: "sbi_trap_info \<Rightarrow> 'd emu_state \<Rightarrow> int \<times> 'd emu_state" where
  "em_redirect trap s = (case redirect_tc trap (em_l s) of (rc, l) \<Rightarrow> (rc, s\<lparr>em_l := l\<rparr>))"

definition skip_insn :: "'d emu_state \<Rightarrow> 'd emu_state" where
  "skip_insn s = s\<lparr>em_l := (em_l s)\<lparr>tc := (tc (em_l s))\<lparr>tc_mepc := tc_mepc (tc (em_l s)) + 4\<rparr>\<rparr>\<rparr>"

definition truly_illegal_insn :: "ulong \<Rightarrow> 'd emu_state \<Rightarrow> int \<times> 'd emu_state" where
  "truly_illegal_insn insn s =
    em_redirect \<lparr>cause = CAUSE_ILLEGAL_INSTRUCTION, tval = insn, tval2 = 0, tinst = 0, gva = False\<rparr> s"

definition misc_mem_opcode_insn :: "ulong \<Rightarrow> 'd emu_state \<Rightarrow> int \<times> 'd emu_state" where
  "misc_mem_opcode_insn insn s =
    (if insn AND INSN_MASK_FENCE_TSO = INSN_MATCH_FENCE_TSO then (0, skip_insn s) else truly_illegal_insn insn s)"

text \<open>The \<open>switch\<close> over \<open>funct3\<close>: the new value and whether it is written.\<close>

definition csr_update :: "ulong \<Rightarrow> ulong \<Rightarrow> ulong \<Rightarrow> ulong \<Rightarrow> (ulong \<times> bool) option" where
  "csr_update funct3 rs1_num rs1_val csr_val =
    (if funct3 = 1 then Some (rs1_val, True)
     else if funct3 = 2 then Some (csr_val OR rs1_val, rs1_num \<noteq> 0)
     else if funct3 = 3 then Some (csr_val AND NOT rs1_val, rs1_num \<noteq> 0)
     else if funct3 = 5 then Some (rs1_num, True)
     else if funct3 = 6 then Some (csr_val OR rs1_num, rs1_num \<noteq> 0)
     else if funct3 = 7 then Some (csr_val AND NOT rs1_num, rs1_num \<noteq> 0)
     else None)"

definition system_opcode_insn :: "u64 \<Rightarrow> ulong \<Rightarrow> 'd emu_state \<Rightarrow> int \<times> 'd emu_state" where
  "system_opcode_insn now insn s =
    (let rs1_num = GET_RS1_NUM insn; rs1_val = tc_gpr (tc (em_l s)) (reg_ix insn SH_RS1); csr_num = GET_CSR_NUM insn; funct3 = GET_RM insn
     in if em_mode s = PRV_M then (SBI_EFAIL, s)
        else if funct3 = 0 \<or> funct3 = 4 then truly_illegal_insn insn s
        else (case sbi_emulate_csr_read now csr_num s of
          None \<Rightarrow> truly_illegal_insn insn s
        | Some csr_val \<Rightarrow>
            (case csr_update funct3 rs1_num rs1_val csr_val of
              None \<Rightarrow> truly_illegal_insn insn s
            | Some (new_csr_val, do_write) \<Rightarrow>
                (case (if do_write then sbi_emulate_csr_write csr_num new_csr_val s else Some s) of
                  None \<Rightarrow> truly_illegal_insn insn s
                | Some s \<Rightarrow> (0, skip_insn (s\<lparr>em_l := SET_RD insn csr_val (em_l s)\<rparr>))))))"

definition illegal_insn_table :: "u64 \<Rightarrow> ulong \<Rightarrow> ulong \<Rightarrow> 'd emu_state \<Rightarrow> int \<times> 'd emu_state" where
  "illegal_insn_table now i =
    (if i = 3 then misc_mem_opcode_insn else if i = 28 then system_opcode_insn now else truly_illegal_insn)"

definition sbi_illegal_insn_handler :: "vmem \<Rightarrow> u64 \<Rightarrow> 'd emu_state \<Rightarrow> (int \<times> 'd emu_state) option" where
  "sbi_illegal_insn_handler v now s = do {
    (ret, p) \<leftarrow> sbi_pmu_ctr_incr_fw SBI_PMU_FW_ILLEGAL_INSN (em_p s);
    let s = s\<lparr>em_p := p\<rparr>;
    let insn = tval (tc_trap (tc (em_l s)));
    Some (if insn AND 3 \<noteq> 3 then
            (case sbi_get_insn v (tc_mepc (tc (em_l s))) (em_l s) of (insn, uptrap) \<Rightarrow>
              if cause uptrap \<noteq> 0 then em_redirect uptrap s
              else if insn AND 3 \<noteq> 3 then truly_illegal_insn insn s
              else illegal_insn_table now (drop_bit 2 (insn AND 0x7c)) insn s)
          else illegal_insn_table now (drop_bit 2 (insn AND 0x7c)) insn s) }"

subsection \<open>The architecture\<close>

text \<open>
  The CSRs the emulator provides: when the interrupted mode may read one, its value; only \<open>htimedelta\<close> can be written. It exists on a
  hart with the hypervisor extension (\<open>h\<close>) and belongs to HS-mode.
\<close>

definition counter_enabled :: "nat \<Rightarrow> 'd emu_state \<Rightarrow> bool" where
  "counter_enabled i s \<longleftrightarrow> priv_1_10 (pmu_feat (em_p s)) \<and> bit (read_csr 0x306 (em_p s)) i \<and>
    (em_virt s \<longrightarrow> bit (read_csr 0x606 (em_p s)) i) \<and> (em_mode s = PRV_U \<longrightarrow> bit (read_csr 0x106 (em_p s)) i)"

definition hypervisor_mode :: "'d emu_state \<Rightarrow> bool" where
  "hypervisor_mode s \<longleftrightarrow> em_mode s = PRV_S \<and> \<not> em_virt s"

definition isa_csr :: "bool \<Rightarrow> u64 \<Rightarrow> nat \<Rightarrow> 'd emu_state \<Rightarrow> ulong option" where
  "isa_csr h now num s =
    (if num = 0x605 then if h \<and> hypervisor_mode s then Some (time_delta (em_t s)) else None
     else if 0xc00 \<le> num \<and> num < 0xc20 \<and> counter_enabled (num - 0xc00) s \<and>
             (0xc03 \<le> num \<longrightarrow> \<not> bit (mhpm_mask (pmu_feat (em_p s))) (num - 0xc00)) then
       Some (if num = 0xc01 then sbi_timer_value now (em_t s) + (if em_virt s then time_delta (em_t s) else 0)
             else read_csr (num - 0x100) (em_p s))
     else None)"

text \<open>An instruction of Zicsr: it is illegal (\<open>None\<close>), or it moves the old value to \<open>rd\<close>, writes the CSR and goes on.\<close>

definition isa_exec_csr :: "bool \<Rightarrow> u64 \<Rightarrow> ulong \<Rightarrow> 'd emu_state \<Rightarrow> 'd emu_state option" where
  "isa_exec_csr h now insn s =
    (let num = unat (drop_bit 20 insn AND 0xfff); rd = field5 7 insn; rs1 = field5 15 insn;
         src = (if bit insn 14 then of_nat rs1 else tc_gpr (tc (em_l s)) rs1);
         wr = (f3 insn AND 3 = 1 \<or> rs1 \<noteq> 0)
     in (case isa_csr h now num s of
       None \<Rightarrow> None
     | Some old \<Rightarrow>
         if wr \<and> num \<noteq> 0x605 then None
         else
           let new = (if f3 insn AND 3 = 1 then src else if f3 insn AND 3 = 2 then old OR src else old AND NOT src);
               s = (if wr then s\<lparr>em_t := (em_t s)\<lparr>time_delta := new\<rparr>\<rparr> else s);
               l = em_l s
           in Some (s\<lparr>em_l := l\<lparr>tc := (tc l)\<lparr>tc_gpr := (if rd = 0 then tc_gpr (tc l) else (tc_gpr (tc l))(rd := old)), tc_mepc := tc_mepc (tc l) + 4\<rparr>\<rparr>\<rparr>)))"

definition isa_emulated :: "bool \<Rightarrow> u64 \<Rightarrow> ulong \<Rightarrow> 'd emu_state \<Rightarrow> 'd emu_state option" where
  "isa_emulated h now insn s =
    (if opc insn = 0x73 \<and> f3 insn AND 3 \<noteq> 0 then isa_exec_csr h now insn s
     else if ucast insn = (0x8330000f :: u32) then Some (skip_insn s)
     else None)"

text \<open>
  What a trap does: the registers, memory and devices stay, and the return from M-mode gives the state in which hardware delegation of
  the trap would have left the hart.
\<close>

definition em_regs :: "'d emu_state \<Rightarrow> sbi_trap_regs" where
  "em_regs s = \<lparr>mepc = tc_mepc (tc (em_l s)), mstatus = tc_mstatus (tc (em_l s)), a6 = tc_gpr (tc (em_l s)) 16, a7 = tc_gpr (tc (em_l s)) 17\<rparr>"

definition raises :: "sbi_trap_info \<Rightarrow> 'd emu_state \<Rightarrow> int \<times> 'd emu_state \<Rightarrow> bool" where
  "raises t s res \<longleftrightarrow> fst res = 0 \<and>
    (\<exists>pc ms c. snd res = s\<lparr>em_l := (em_l s)\<lparr>tc := (tc (em_l s))\<lparr>tc_mepc := pc, tc_mstatus := ms\<rparr>, rcsrs := c\<rparr>\<rparr>) \<and>
    mret (em_regs (snd res)) (rcsrs (em_l (snd res))) = hw_delegate t (mret (em_regs s) (rcsrs (em_l s)))"

text \<open>The conditions under which the redirection is the one of the hardware, as in \<open>redirect_emulates_delegation\<close>.\<close>

definition delegable :: "'d emu_state \<Rightarrow> bool" where
  "delegable s \<longleftrightarrow> (let m = tc_mstatus (tc (em_l s)); c = rcsrs (em_l s)
    in \<not> bit (tc_mepc (tc (em_l s))) 0 \<and> \<not> bit (stvec c) 1 \<and> \<not> bit (vstvec c) 1 \<and>
      (has_zicfilp c \<longrightarrow> bit m 41 \<or> \<not> bit m 23 \<and> \<not> bit (vsstatus c) 23))"

subsection \<open>The emulator implements it\<close>

lemma get_fields:
  "GET_RM insn = f3 insn" "GET_RS1_NUM insn = of_nat (field5 15 insn)" "GET_CSR_NUM insn = unat (drop_bit 20 insn AND 0xfff)"
proof -
  show "GET_RM insn = f3 insn" by (simp add: GET_RM_def f3_def drop_bit_and)
  show "GET_RS1_NUM insn = of_nat (field5 15 insn)" by (simp add: GET_RS1_NUM_def field5_def drop_bit_and)
  show "GET_CSR_NUM insn = unat (drop_bit 20 insn AND 0xfff)"
  proof -
    have "drop_bit 20 (ucast (ucast insn :: u32) AND (0xfff00000 :: ulong)) = drop_bit 20 (ucast (ucast insn :: u32)) AND 0xfff"
      by (simp add: drop_bit_and)
    also have "\<dots> = drop_bit 20 insn AND 0xfff"
    proof (rule bit_word_eqI)
      fix n
      have "n < 12" if "bit (0xfff :: ulong) n"
      proof -
        have "take_bit 12 (0xfff :: ulong) = 0xfff" by simp
        then show ?thesis using that by (metis bit_take_bit_iff)
      qed
      then show "bit (drop_bit 20 (ucast (ucast insn :: u32) :: ulong) AND 0xfff) n = bit (drop_bit 20 insn AND 0xfff) n"
        by (auto simp: bit_and_iff bit_drop_bit_eq bit_ucast_iff)
    qed
    finally show ?thesis by (simp add: GET_CSR_NUM_def)
  qed
qed

lemma hpm_allowed_iff:
  assumes "em_mode s = PRV_S \<or> em_mode s = PRV_U"
  shows "hpm_allowed i (em_mode s) (em_virt s) (em_p s) \<longleftrightarrow> counter_enabled i s"
  using assms by (auto simp: hpm_allowed_def counter_enabled_def Let_def bit_field bit_and_iff drop_bit_and)

lemma csr_read_isa:
  assumes "em_mode s = PRV_S \<or> em_mode s = PRV_U"
  shows "sbi_emulate_csr_read now num s = isa_csr True now num s"
proof -
  note defs = isa_csr_def hypervisor_mode_def sbi_timer_get_delta_def sbi_timer_virt_value_def
  consider "num = 0xc00" | "num = 0xc01" | "num = 0xc02" | "0xc03 \<le> num \<and> num < 0xc20" | "num < 0xc00 \<or> 0xc20 \<le> num" by linarith
  then show ?thesis
  proof cases
    case 4
    then have "num = 0xc03 + (num - 0xc03)" "num - 0xc03 < 29" by arith+
    then obtain k where "num = 0xc03 + k" "k < 29" by blast
    then show ?thesis unfolding sbi_emulate_csr_read_def Let_def hpm_allowed_iff [OF assms] by (simp add: defs)
  qed (unfold sbi_emulate_csr_read_def Let_def hpm_allowed_iff [OF assms], simp_all add: defs)
qed

lemma f3_lt: "unat (f3 insn) < 8"
proof -
  have "f3 insn \<le> 7" unfolding f3_def by (rule word_and_le1)
  then show ?thesis by (simp add: word_le_nat_alt)
qed

lemma f3_cases:
  assumes "f3 insn AND 3 \<noteq> 0"
  shows "f3 insn \<in> {1, 2, 3, 5, 6, 7}"
proof -
  have "f3 insn \<in> {0, 1, 2, 3, 4, 5, 6, 7}"
    using f3_lt [of insn] by (auto simp: word_unat_eq_iff)
  then show ?thesis using assms by auto
qed

lemma bit_14: "bit insn 14 \<longleftrightarrow> bit (f3 insn) 2"
  by (simp add: f3_def bit_and_iff bit_drop_bit_eq)

lemma csr_update_isa:
  assumes "f3 insn AND 3 \<noteq> 0"
  shows "csr_update (f3 insn) (of_nat (field5 15 insn)) (g (field5 15 insn)) old =
    (let src = (if bit insn 14 then of_nat (field5 15 insn) else g (field5 15 insn))
     in Some (if f3 insn AND 3 = 1 then src else if f3 insn AND 3 = 2 then old OR src else old AND NOT src,
              f3 insn AND 3 = 1 \<or> field5 15 insn \<noteq> 0))"
proof -
  have "field5 15 insn < 2 ^ 64" using unsigned_less [of "drop_bit 15 insn AND 31", where 'a = nat] by (simp add: field5_def)
  then have nz: "(of_nat (field5 15 insn) :: ulong) \<noteq> 0 \<longleftrightarrow> field5 15 insn \<noteq> 0"
    by (simp add: word_unat_eq_iff unat_of_nat take_bit_nat_eq_self)
  show ?thesis
    using f3_cases [OF assms] nz by (auto simp: csr_update_def bit_14 Let_def)
qed

definition same_but_x0 :: "'d emu_state \<Rightarrow> 'd emu_state \<Rightarrow> bool" where
  "same_but_x0 s s' \<longleftrightarrow> s\<lparr>em_l := x0_clear (em_l s)\<rparr> = s'\<lparr>em_l := x0_clear (em_l s')\<rparr>"

lemma same_but_x0_regs:
  assumes "same_but_x0 s s'"
  shows "i \<noteq> 0 \<Longrightarrow> tc_gpr (tc (em_l s)) i = tc_gpr (tc (em_l s')) i" "tc_mepc (tc (em_l s)) = tc_mepc (tc (em_l s'))"
proof -
  have eq: "x0_clear (em_l s) = x0_clear (em_l s')"
    using arg_cong [OF assms [unfolded same_but_x0_def], of em_l] by simp
  show "tc_gpr (tc (em_l s)) i = tc_gpr (tc (em_l s')) i" if "i \<noteq> 0"
    using arg_cong [OF eq, of "\<lambda>l. tc_gpr (tc l) i"] that by (simp add: x0_clear_def)
  show "tc_mepc (tc (em_l s)) = tc_mepc (tc (em_l s'))"
    using arg_cong [OF eq, of "\<lambda>l. tc_mepc (tc l)"] by (simp add: x0_clear_def)
qed

definition agrees :: "'d emu_state option \<Rightarrow> ulong \<Rightarrow> 'd emu_state \<Rightarrow> int \<times> 'd emu_state \<Rightarrow> bool" where
  "agrees spec insn s res \<longleftrightarrow>
    (case spec of None \<Rightarrow> res = truly_illegal_insn insn s | Some s' \<Rightarrow> fst res = 0 \<and> same_but_x0 (snd res) s')"

lemma system_insn_isa:
  assumes "em_mode s = PRV_S \<or> em_mode s = PRV_U"
  shows "agrees (if f3 insn AND 3 \<noteq> 0 then isa_exec_csr True now insn s else None) insn s (system_opcode_insn now insn s)"
proof (cases "f3 insn AND 3 = 0")
  case True
  moreover have "f3 insn \<in> {0, 1, 2, 3, 4, 5, 6, 7}" using f3_lt [of insn] by (auto simp: word_unat_eq_iff)
  ultimately have "f3 insn = 0 \<or> f3 insn = 4" by auto
  then show ?thesis using assms True by (auto simp: system_opcode_insn_def get_fields Let_def agrees_def)
next
  case False
  then have f: "f3 insn \<noteq> 0" "f3 insn \<noteq> 4" by auto
  let ?num = "unat (drop_bit 20 insn AND 0xfff)"
  have m: "em_mode s \<noteq> PRV_M" using assms by auto
  show ?thesis
  proof (cases "isa_csr True now ?num s")
    case None
    then show ?thesis
      unfolding system_opcode_insn_def get_fields Let_def csr_read_isa [OF assms] isa_exec_csr_def using m f False by (simp add: agrees_def)
  next
    case (Some old)
    let ?src = "if bit insn 14 then of_nat (field5 15 insn) else tc_gpr (tc (em_l s)) (field5 15 insn)"
    let ?new = "if f3 insn AND 3 = 1 then ?src else if f3 insn AND 3 = 2 then old OR ?src else old AND NOT ?src"
    let ?wr = "f3 insn AND 3 = 1 \<or> field5 15 insn \<noteq> 0"
    have w: "sbi_emulate_csr_write ?num ?new s = (if ?num = 0x605 then Some (s\<lparr>em_t := (em_t s)\<lparr>time_delta := ?new\<rparr>\<rparr>) else None)"
      using Some by (auto simp: sbi_emulate_csr_write_def isa_csr_def hypervisor_mode_def sbi_timer_set_delta_def split: if_split_asm)
    have sys: "system_opcode_insn now insn s =
        (case (if ?wr then sbi_emulate_csr_write ?num ?new s else Some s) of
           None \<Rightarrow> truly_illegal_insn insn s
         | Some s \<Rightarrow> (0, skip_insn (s\<lparr>em_l := SET_RD insn old (em_l s)\<rparr>)))"
      unfolding system_opcode_insn_def get_fields Let_def csr_read_isa [OF assms]
      using m f Some csr_update_isa [OF False, of "tc_gpr (tc (em_l s))" old] by (simp add: reg_ix_field Let_def)
    have "agrees (isa_exec_csr True now insn s) insn s (case (if ?wr then sbi_emulate_csr_write ?num ?new s else Some s) of
           None \<Rightarrow> truly_illegal_insn insn s
         | Some s \<Rightarrow> (0, skip_insn (s\<lparr>em_l := SET_RD insn old (em_l s)\<rparr>)))"
      unfolding isa_exec_csr_def Let_def Some w
      by (simp add: agrees_def same_but_x0_def x0_clear_def skip_insn_def SET_RD_def reg_ix_field)
    then show ?thesis unfolding sys using False by simp
  qed
qed

lemma table_index:
  assumes "quad insn = 3"
  shows "drop_bit 2 (insn AND 0x7c) = 28 \<longleftrightarrow> opc insn = 0x73" "drop_bit 2 (insn AND 0x7c) = 3 \<longleftrightarrow> opc insn = 0x0f"
proof -
  have split: "insn AND 0x7f = c \<longleftrightarrow> insn AND 3 = c AND 3 \<and> drop_bit 2 insn AND 0x1f = drop_bit 2 c AND 0x1f" if "c AND 0x7f = c" for c
    by (rule split_mask [OF _ _ that]) simp_all
  show "drop_bit 2 (insn AND 0x7c) = 28 \<longleftrightarrow> opc insn = 0x73" "drop_bit 2 (insn AND 0x7c) = 3 \<longleftrightarrow> opc insn = 0x0f"
    using assms split [of 115] split [of 15] by (simp_all add: opc_def quad_def drop_bit_and)
qed

lemma fence_word: "insn AND 0xffffffff = 0x8330000f \<longleftrightarrow> (ucast insn :: u32) = 0x8330000f" for insn :: ulong
proof -
  have m: "(0xffffffff :: ulong) = mask 32" by (simp add: mask_eq_exp_minus_1)
  have low: "insn AND 0xffffffff = ucast (ucast insn :: u32)" "ucast (insn AND 0xffffffff) = (ucast insn :: u32)"
    unfolding m by (rule bit_word_eqI; auto simp: bit_and_iff bit_mask_iff bit_ucast_iff)+
  show ?thesis
  proof
    assume "insn AND 0xffffffff = 0x8330000f"
    then show "(ucast insn :: u32) = 0x8330000f" using low(2) by simp
  next
    assume "(ucast insn :: u32) = 0x8330000f"
    then show "insn AND 0xffffffff = 0x8330000f" using low(1) by simp
  qed
qed

lemma fence_opc: "(ucast insn :: u32) = 0x8330000f \<Longrightarrow> opc insn = 0x0f" for insn :: ulong
proof -
  assume "(ucast insn :: u32) = 0x8330000f"
  then have "insn AND 0xffffffff = 0x8330000f" by (simp only: fence_word)
  then have "(insn AND 0xffffffff) AND 0x7f = 0x8330000f AND 0x7f" by (rule arg_cong)
  then show ?thesis by (simp add: opc_def and.assoc)
qed

lemma table_isa:
  assumes "em_mode s = PRV_S \<or> em_mode s = PRV_U" and "quad insn = 3"
  shows "agrees (isa_emulated True now insn s) insn s (illegal_insn_table now (drop_bit 2 (insn AND 0x7c)) insn s)"
proof -
  have ill: "agrees None insn s (truly_illegal_insn insn s)" by (simp add: agrees_def)
  have fence: "agrees (Some (skip_insn s)) insn s (0, skip_insn s)" by (simp add: agrees_def same_but_x0_def)
  consider "opc insn = 0x73" | "opc insn = 0x0f" | "opc insn \<noteq> 0x73" "opc insn \<noteq> 0x0f" by blast
  then show ?thesis
  proof cases
    case 1
    then have "(ucast insn :: u32) \<noteq> 0x8330000f" using fence_opc [of insn] by auto
    then show ?thesis
      using system_insn_isa [OF assms(1), of insn now] 1 table_index [OF assms(2)]
      by (simp add: illegal_insn_table_def isa_emulated_def split: if_splits)
  next
    case 2
    then show ?thesis
      using ill fence table_index [OF assms(2)] by (simp add: illegal_insn_table_def isa_emulated_def misc_mem_opcode_insn_def fence_word)
  next
    case 3
    then show ?thesis
      using ill fence_opc [of insn] table_index [OF assms(2)] by (auto simp: illegal_insn_table_def isa_emulated_def)
  qed
qed

lemma short_illegal: "quad insn \<noteq> 3 \<Longrightarrow> isa_emulated h now insn s = None"
proof -
  assume q: "quad insn \<noteq> 3"
  then have "opc insn \<noteq> 0x73" "opc insn \<noteq> 0x0f" by (auto simp: opc_quad)
  then show ?thesis using fence_opc [of insn] by (auto simp: isa_emulated_def)
qed

text \<open>The word of the trapped instruction, or the trap that its fetch raises.\<close>

definition illegal_word :: "vmem \<Rightarrow> 'd emu_state \<Rightarrow> sbi_trap_info + ulong" where
  "illegal_word v s =
    (let w = tval (tc_trap (tc (em_l s)))
     in if quad w = 3 then Inr w
        else (case sbi_get_insn v (tc_mepc (tc (em_l s))) (em_l s) of (insn, t) \<Rightarrow> if cause t \<noteq> 0 then Inl t else Inr insn))"

lemma illegal_handler_agrees:
  assumes "pmu_inv (em_p s)" and "em_mode s = PRV_S \<or> em_mode s = PRV_U"
  shows "\<exists>p res. sbi_pmu_ctr_incr_fw SBI_PMU_FW_ILLEGAL_INSN (em_p s) = Some (0, p) \<and> pmu_inv p \<and>
    sbi_illegal_insn_handler v now s = Some res \<and>
    (case illegal_word v s of
      Inl t \<Rightarrow> res = em_redirect t (s\<lparr>em_p := p\<rparr>)
    | Inr insn \<Rightarrow> agrees (isa_emulated True now insn (s\<lparr>em_p := p\<rparr>)) insn (s\<lparr>em_p := p\<rparr>) res)"
proof -
  obtain p where p: "sbi_pmu_ctr_incr_fw SBI_PMU_FW_ILLEGAL_INSN (em_p s) = Some (0, p)" "pmu_inv p"
    using incr_returns [OF assms(1), of SBI_PMU_FW_ILLEGAL_INSN] by auto
  let ?s = "s\<lparr>em_p := p\<rparr>"
  let ?w = "tval (tc_trap (tc (em_l s)))"
  have m: "em_mode ?s = PRV_S \<or> em_mode ?s = PRV_U" using assms(2) by (simp add: em_mode_def)
  let ?run = "\<lambda>insn. illegal_insn_table now (drop_bit 2 (insn AND 0x7c)) insn ?s"
  have run: "agrees (isa_emulated True now insn ?s) insn ?s (?run insn)" if "quad insn = 3" for insn
    using table_isa [OF m that] .
  have short: "agrees (isa_emulated True now insn ?s) insn ?s (truly_illegal_insn insn ?s)" if "quad insn \<noteq> 3" for insn
    using that by (simp add: short_illegal agrees_def)
  obtain insn t where get: "sbi_get_insn v (tc_mepc (tc (em_l s))) (em_l s) = (insn, t)" by force
  show ?thesis
    using p run short get
    by (intro exI [of _ p]) (auto simp: sbi_illegal_insn_handler_def illegal_word_def quad_def Let_def)
qed

lemma em_redirect_raises:
  assumes "delegable s" and "em_mode s = PRV_S \<or> em_mode s = PRV_U"
  shows "raises t s (em_redirect t s)"
proof -
  let ?c = "rcsrs (em_l s)"
  have h: "sbi_mstatus_prev_mode (mstatus (em_regs s)) = PRV_S \<or> sbi_mstatus_prev_mode (mstatus (em_regs s)) = PRV_U"
    "\<not> bit (mepc (em_regs s)) 0" "\<not> bit (stvec ?c) 1" "\<not> bit (vstvec ?c) 1"
    "has_zicfilp ?c \<longrightarrow> bit (mstatus (em_regs s)) 41 \<or> \<not> bit (mstatus (em_regs s)) 23 \<and> \<not> bit (vsstatus ?c) 23"
    using assms by (auto simp: delegable_def em_regs_def em_mode_def Let_def)
  obtain regs c where r: "sbi_trap_redirect t (em_regs s) ?c = (0, regs, c)" "mret regs c = hw_delegate t (mret (em_regs s) ?c)"
    using redirect_delegation [OF h] by blast
  have res: "em_redirect t s = (0, s\<lparr>em_l := (em_l s)\<lparr>tc := (tc (em_l s))\<lparr>tc_mepc := mepc regs, tc_mstatus := mstatus regs\<rparr>, rcsrs := c\<rparr>\<rparr>)"
    using r(1) by (simp add: em_redirect_def redirect_tc_def em_regs_def)
  have "mret (em_regs (snd (em_redirect t s))) c = mret regs c" by (simp add: res em_regs_def mret_def)
  then show ?thesis using r(2) unfolding raises_def res by auto
qed

definition uses_htimedelta :: "ulong \<Rightarrow> bool" where
  "uses_htimedelta insn \<longleftrightarrow> opc insn = 0x73 \<and> unat (drop_bit 20 insn AND 0xfff) = 0x605"

lemma isa_emulated_H:
  "(uses_htimedelta insn \<Longrightarrow> h) \<Longrightarrow> isa_emulated h now insn s = isa_emulated True now insn s"
  by (auto simp: isa_emulated_def isa_exec_csr_def isa_csr_def uses_htimedelta_def Let_def)


text \<open>An instance: \<open>rdtime a0\<close> in U-mode with the counter enabled for S- and U-mode.\<close>

definition ex_emu :: "unit emu_state" where
  "ex_emu = \<lparr>em_l = (ex_ldst 0)\<lparr>tc := (tc (ex_ldst 0))\<lparr>tc_mstatus := 0,
        tc_trap := \<lparr>cause = 2, tval = 0xC0102573, tval2 = 0, tinst = 0, gva = False\<rparr>\<rparr>\<rparr>,
    em_t = ex_timer, em_p = ex_booted\<lparr>pmu_hw := \<lparr>csr = (\<lambda>_. 7), abits = 54\<rparr>\<rparr>\<rparr>"

lemma ex_emu_rdtime:
  "illegal_word ex_vmem ex_emu = Inr 0xC0102573" "pmu_inv (em_p ex_emu)" "em_mode ex_emu = PRV_U"
  "sbi_pmu_ctr_incr_fw SBI_PMU_FW_ILLEGAL_INSN (em_p ex_emu) = Some (0, em_p ex_emu)"
  "\<exists>s'. isa_emulated True 1234 0xC0102573 ex_emu = Some s' \<and> tc_gpr (tc (em_l s')) 10 = 1234 \<and> tc_mepc (tc (em_l s')) = 0x80200004"
proof -
  show "illegal_word ex_vmem ex_emu = Inr 0xC0102573" by (simp add: illegal_word_def ex_emu_def quad_def)
  show "pmu_inv (em_p ex_emu)" by (simp add: ex_emu_def ex_booted_inv)
  show mode: "em_mode ex_emu = PRV_U" by (simp add: em_mode_def ex_emu_def sbi_mstatus_prev_mode_def)
  show "sbi_pmu_ctr_incr_fw SBI_PMU_FW_ILLEGAL_INSN (em_p ex_emu) = Some (0, em_p ex_emu)"
    by (simp add: ex_emu_def sbi_pmu_ctr_incr_fw_def)
  have "priv_1_10 (pmu_feat (em_p ex_emu))" by (simp add: ex_emu_def ex_pmu_defs)
  moreover have "em_virt ex_emu = False" by (simp add: em_virt_def ex_emu_def)
  ultimately have "isa_csr True 1234 0xc01 ex_emu = Some 1234"
    using mode by (simp add: isa_csr_def counter_enabled_def read_csr_def csr_read_def sbi_timer_value_def ex_emu_def ex_timer_def)
  then show "\<exists>s'. isa_emulated True 1234 0xC0102573 ex_emu = Some s' \<and> tc_gpr (tc (em_l s')) 10 = 1234 \<and> tc_mepc (tc (em_l s')) = 0x80200004"
    by (simp add: isa_emulated_def isa_exec_csr_def opc_def f3_def field5_def ex_emu_def ex_ldst_def)
qed


text \<open>On a hart without the hypervisor extension, where \<open>htimedelta\<close> does not exist, the emulator still reads it for S-mode.\<close>

lemma htimedelta_without_H:
  assumes "\<not> has_H (rcsrs (em_l s))" and "em_mode s = PRV_S" and "\<not> em_virt s"
  shows "sbi_emulate_csr_read now 0x605 s = Some (time_delta (em_t s))" and "isa_csr (has_H (rcsrs (em_l s))) now 0x605 s = None"
  using assms by (simp_all add: sbi_emulate_csr_read_def isa_csr_def sbi_timer_get_delta_def)

end
