(* ===== verification/Sbi_Trap_Handler.thy ===== *)
theory Sbi_Trap_Handler
  imports Sbi_Illegal Sbi_Ecall
begin

unbundle bit_operations_syntax

text \<open>
  The trap handler, \<open>sbi_trap_handler\<close> of \<open>lib/sbi/sbi_trap.c\<close> with \<open>lib/sbi/sbi_double_trap.c\<close>: the dispatch of exceptions to the
  emulators, the SBI calls and the redirection, and of interrupts to the timer, the inter-processor interrupts and the other devices.

  SBI extensions, inter-processor interrupts, software events and the interrupt controller have a state of their own (\<open>Sbi_Ipi\<close>,
  \<open>Sbi_Sse\<close> and the files of the extensions); here they are functions of the environment on the state of the hart. The handler of an
  SBI extension need not come back (a hart stop, a non-retentive suspend, a reset): \<open>ecall_leaves\<close> says so of a call, and the outcome is
  then \<open>Left\<close>. \<open>Hang\<close> is \<open>sbi_trap_error\<close>, which prints the context and does not return. An interrupt that halts the hart is not part of
  this theory: \<open>ipi_process\<close> is the processing that comes back.
\<close>

subsection \<open>State and environment\<close>

definition MCAUSE_IRQ_MASK :: ulong where [sbi_defs]: "MCAUSE_IRQ_MASK = BIT 63"
definition IRQ_M_SOFT :: ulong where [simp, sbi_defs]: "IRQ_M_SOFT = 3"
definition IRQ_M_TIMER :: ulong where [simp, sbi_defs]: "IRQ_M_TIMER = 7"
definition IRQ_M_EXT :: ulong where [simp, sbi_defs]: "IRQ_M_EXT = 11"
definition TOPI_IID_SHIFT :: nat where [simp, sbi_defs]: "TOPI_IID_SHIFT = 16"
definition CAUSE_MISALIGNED_LOAD :: ulong where [simp, sbi_defs]: "CAUSE_MISALIGNED_LOAD = 4"
definition CAUSE_MISALIGNED_STORE :: ulong where [simp, sbi_defs]: "CAUSE_MISALIGNED_STORE = 6"
definition CAUSE_STORE_ACCESS :: ulong where [simp, sbi_defs]: "CAUSE_STORE_ACCESS = 7"
definition CAUSE_SUPERVISOR_ECALL :: ulong where [simp, sbi_defs]: "CAUSE_SUPERVISOR_ECALL = 9"
definition CAUSE_MACHINE_ECALL :: ulong where [simp, sbi_defs]: "CAUSE_MACHINE_ECALL = 11"
definition CAUSE_DOUBLE_TRAP :: ulong where [simp, sbi_defs]: "CAUSE_DOUBLE_TRAP = 16"
definition SBI_PMU_FW_MISALIGNED_LOAD :: u32 where [simp, sbi_defs]: "SBI_PMU_FW_MISALIGNED_LOAD = 0"
definition SBI_PMU_FW_MISALIGNED_STORE :: u32 where [simp, sbi_defs]: "SBI_PMU_FW_MISALIGNED_STORE = 1"
definition SBI_PMU_FW_ACCESS_LOAD :: u32 where [simp, sbi_defs]: "SBI_PMU_FW_ACCESS_LOAD = 2"
definition SBI_PMU_FW_ACCESS_STORE :: u32 where [simp, sbi_defs]: "SBI_PMU_FW_ACCESS_STORE = 3"

text \<open>\<open>mtopi_reads\<close> are the values other than 0 that reading \<open>mtopi\<close> gives before it gives 0.\<close>

record ('e, 'd) trap_env =
  te_vmem :: vmem
  te_now :: u64
  te_sstc :: bool
  te_smaia :: bool
  mtopi_reads :: "ulong list"
  emulate_load :: "(nat \<Rightarrow> ulong \<Rightarrow> int \<times> ulong) option"
  emulate_store :: "(nat \<Rightarrow> ulong \<Rightarrow> ulong \<Rightarrow> int) option"
  ecall_exts :: "'e ecall_globals"
  ecall_run :: "'e \<Rightarrow> 'd emu_state handler"
  ecall_leaves :: "'e \<Rightarrow> ulong \<Rightarrow> ulong \<Rightarrow> 'd emu_state \<Rightarrow> bool"
  ipi_process :: "'d emu_state \<Rightarrow> 'd emu_state"
  irqchip_process :: "'d emu_state \<Rightarrow> int \<times> 'd emu_state"
  inject_pmu :: "'d emu_state \<Rightarrow> int \<times> 'd emu_state"
  inject_double_trap :: "'d emu_state \<Rightarrow> int \<times> 'd emu_state"
  process_pending_events :: "'d emu_state \<Rightarrow> 'd emu_state"

record 'd trap_state =
  th :: "'d emu_state"
  trap_context :: ulong

datatype 'd trap_outcome = Resumed "'d trap_state" | Hang | Left

subsection \<open>Interrupts\<close>

definition one_irq :: "('e, 'd) trap_env \<Rightarrow> ulong \<Rightarrow> 'd emu_state \<Rightarrow> int \<times> 'd emu_state" where
  "one_irq env irq s =
    (if irq = IRQ_M_TIMER then (0, s\<lparr>em_p := sbi_timer_process (te_sstc env) (em_p s)\<rparr>)
     else if irq = IRQ_M_SOFT then (0, ipi_process env s)
     else if irq = IRQ_M_EXT then irqchip_process env s
     else if irq = word_of_int (sbi_pmu_irq_bit (em_p s)) then (0, snd (inject_pmu env (s\<lparr>em_p := sbi_pmu_ovf_irq (em_p s)\<rparr>)))
     else (SBI_ENOENT, s))"

definition sbi_trap_nonaia_irq :: "('e, 'd) trap_env \<Rightarrow> ulong \<Rightarrow> 'd emu_state \<Rightarrow> int \<times> 'd emu_state" where
  "sbi_trap_nonaia_irq env irq s = one_irq env irq s"

fun aia_loop :: "('e, 'd) trap_env \<Rightarrow> ulong list \<Rightarrow> 'd emu_state \<Rightarrow> int \<times> 'd emu_state" where
  "aia_loop env [] s = (0, s)"
| "aia_loop env (m # ms) s =
    (case one_irq env (drop_bit TOPI_IID_SHIFT m) s of (rc, s) \<Rightarrow> if rc \<noteq> 0 then (rc, s) else aia_loop env ms s)"

definition sbi_trap_aia_irq :: "('e, 'd) trap_env \<Rightarrow> 'd emu_state \<Rightarrow> int \<times> 'd emu_state" where
  "sbi_trap_aia_irq env s = aia_loop env (mtopi_reads env) s"

subsection \<open>Exceptions\<close>

definition on_ldst :: "(ldst_state \<Rightarrow> int \<times> ldst_state) \<Rightarrow> 'd emu_state \<Rightarrow> int \<times> 'd emu_state" where
  "on_ldst f s = (case f (em_l s) of (rc, l) \<Rightarrow> (rc, s\<lparr>em_l := l\<rparr>))"

definition count_fw :: "u32 \<Rightarrow> 'd emu_state \<Rightarrow> 'd emu_state option" where
  "count_fw k s = map_option (\<lambda>(ret, p). s\<lparr>em_p := p\<rparr>) (sbi_pmu_ctr_incr_fw k (em_p s))"

definition call_leaves :: "('e, 'd) trap_env \<Rightarrow> 'd emu_state \<Rightarrow> bool" where
  "call_leaves env s =
    (let id = tc_gpr (tc (em_l s)) 17
     in (case sbi_ecall_find_extension id (ecall_exts env) of
       Some e \<Rightarrow> has_handle (ext_of (ecall_exts env) e) \<and> ecall_leaves env e id (tc_gpr (tc (em_l s)) 16) s
     | None \<Rightarrow> False))"

definition on_ecall :: "('e, 'd) trap_env \<Rightarrow> 'd emu_state \<Rightarrow> (int \<times> 'd emu_state) option" where
  "on_ecall env s =
    (if call_leaves env s then None
     else (case sbi_ecall_handler (ecall_run env) (ecall_exts env) (tc (em_l s)) s of (rc, t, s) \<Rightarrow>
       Some (rc, s\<lparr>em_l := (em_l s)\<lparr>tc := t\<rparr>\<rparr>)))"

definition sbi_double_trap_handler :: "('e, 'd) trap_env \<Rightarrow> 'd emu_state \<Rightarrow> int \<times> 'd emu_state" where
  "sbi_double_trap_handler env s =
    (if em_mode s \<noteq> PRV_S then (SBI_EINVAL, s)
     else if em_virt s then em_redirect (tc_trap (tc (em_l s))) s
     else inject_double_trap env s)"

text \<open>The outer \<open>None\<close> is an access outside the arrays of the PMU, the inner one a call that does not come back.\<close>

definition dispatch :: "('e, 'd) trap_env \<Rightarrow> ulong \<Rightarrow> 'd emu_state \<Rightarrow> (int \<times> 'd emu_state) option option" where
  "dispatch env mcause s =
    (if mcause AND MCAUSE_IRQ_MASK \<noteq> 0 then
       Some (Some (if te_smaia env then sbi_trap_aia_irq env s else sbi_trap_nonaia_irq env (mcause AND NOT MCAUSE_IRQ_MASK) s))
     else if mcause = CAUSE_ILLEGAL_INSTRUCTION then map_option Some (sbi_illegal_insn_handler (te_vmem env) (te_now env) s)
     else if mcause = CAUSE_MISALIGNED_LOAD then
       map_option (Some \<circ> on_ldst (sbi_misaligned_load_handler (te_vmem env))) (count_fw SBI_PMU_FW_MISALIGNED_LOAD s)
     else if mcause = CAUSE_MISALIGNED_STORE then
       map_option (Some \<circ> on_ldst (sbi_misaligned_store_handler (te_vmem env))) (count_fw SBI_PMU_FW_MISALIGNED_STORE s)
     else if mcause = CAUSE_SUPERVISOR_ECALL \<or> mcause = CAUSE_MACHINE_ECALL then Some (on_ecall env s)
     else if mcause = CAUSE_LOAD_ACCESS then
       map_option (Some \<circ> on_ldst (sbi_load_access_handler (te_vmem env) (emulate_load env))) (count_fw SBI_PMU_FW_ACCESS_LOAD s)
     else if mcause = CAUSE_STORE_ACCESS then
       map_option (Some \<circ> on_ldst (sbi_store_access_handler (te_vmem env) (emulate_store env))) (count_fw SBI_PMU_FW_ACCESS_STORE s)
     else if mcause = CAUSE_DOUBLE_TRAP then Some (Some (sbi_double_trap_handler env s))
     else Some (Some (em_redirect (tc_trap (tc (em_l s))) s)))"

text \<open>\<open>sbi_trap_handler\<close>; \<open>tcntx\<close> is the address of the context on the stack.\<close>

definition sbi_trap_handler :: "('e, 'd) trap_env \<Rightarrow> ulong \<Rightarrow> 'd trap_state \<Rightarrow> 'd trap_outcome option" where
  "sbi_trap_handler env tcntx s = do {
    let e = th s;
    let e = e\<lparr>em_l := (em_l e)\<lparr>tc := (tc (em_l e))\<lparr>tc_prev := trap_context s\<rparr>\<rparr>\<rparr>;
    let s = s\<lparr>trap_context := tcntx\<rparr>;
    r \<leftarrow> dispatch env (cause (tc_trap (tc (em_l e)))) e;
    Some (case r of
      None \<Rightarrow> Left
    | Some (rc, e) \<Rightarrow>
        if rc \<noteq> 0 then Hang
        else
          let e = (if em_mode e \<noteq> PRV_M then process_pending_events env e else e)
          in Resumed (s\<lparr>th := e, trap_context := tc_prev (tc (em_l e))\<rparr>)) }"

subsection \<open>The emulators succeed on traps from below\<close>

definition from_below :: "ldst_state \<Rightarrow> bool" where
  "from_below l \<longleftrightarrow> sbi_mstatus_prev_mode (tc_mstatus (tc l)) \<in> {PRV_S, PRV_U}"

text \<open>A handler succeeds: it returns 0 and leaves the link to the previous context.\<close>

definition succeeds :: "ldst_state \<Rightarrow> int \<times> ldst_state \<Rightarrow> bool" where
  "succeeds l r \<longleftrightarrow> fst r = 0 \<and> tc_prev (tc (snd r)) = tc_prev (tc l)"

lemma redirect_succeeds:
  assumes "from_below l"
  shows "succeeds l (redirect_tc t l)"
proof -
  let ?regs = "\<lparr>mepc = tc_mepc (tc l), mstatus = tc_mstatus (tc l), a6 = tc_gpr (tc l) 16, a7 = tc_gpr (tc l) 17\<rparr>"
  have "fst (sbi_trap_redirect t ?regs (rcsrs l)) = 0"
    using assms by (auto simp: sbi_trap_redirect_def from_below_def Let_def)
  then show ?thesis
    unfolding redirect_tc_def succeeds_def by (auto split: prod.split)
qed

lemma redirect_result: "redirect_tc t l = (rc, l') \<Longrightarrow> from_below l \<Longrightarrow> rc = 0 \<and> tc_prev (tc l') = tc_prev (tc l)"
  using redirect_succeeds [of l t] by (simp add: succeeds_def)

definition emu_ok :: "ldst_state \<Rightarrow> int \<times> ldst_state \<Rightarrow> bool" where
  "emu_ok l r \<longleftrightarrow> 0 \<le> fst r \<and> tc_prev (tc (snd r)) = tc_prev (tc l)"

lemma succeeds_emu: "succeeds l r \<Longrightarrow> emu_ok l r"
  by (simp add: succeeds_def emu_ok_def)

lemma ld_loop_emu: "from_below l \<Longrightarrow> emu_ok l (fst (ld_loop v n i val l), snd (snd (ld_loop v n i val l)))"
proof (induction v n i val l rule: ld_loop.induct)
  case (1 v n i val l)
  show ?case
    using 1 by (subst (1 2) ld_loop.simps) (auto simp: Let_def emu_ok_def dest: redirect_result split: prod.split)
qed

lemma store_u8_context: "sbi_store_u8 v a b l = (t, l') \<Longrightarrow> tc l' = tc l"
  by (auto simp: sbi_store_u8_def split: option.splits)

lemma st_loop_emu: "from_below l \<Longrightarrow> emu_ok l (st_loop v n i val l)"
proof (induction v n i val l rule: st_loop.induct)
  case (1 v n i val l)
  obtain t l' where st: "sbi_store_u8 v (tval (tc_trap (tc l)) + of_nat i) (get_byte i val) l = (t, l')" by force
  note same = store_u8_context [OF st]
  then have below: "from_below l'" using 1(2) by (simp add: from_below_def)
  have ih: "emu_ok l' (st_loop v n (i + 1) val l')" if "i < n" "cause t = 0"
    using 1(1) [OF that(1) refl st [symmetric]] that(2) below by simp
  show ?case
    using ih succeeds_emu [OF redirect_succeeds [OF below]] st same
    by (subst st_loop.simps) (auto simp: Let_def emu_ok_def)
qed

lemma trapped_insn_succeeds: "from_below l \<Longrightarrow> trapped_insn v l = Inl r \<Longrightarrow> succeeds l r"
  using redirect_succeeds by (auto simp: trapped_insn_def Let_def split: if_splits prod.splits)

lemma emulate_load_succeeds:
  assumes "from_below l" and "\<And>n. emu_ok l (fst (emu n 0 l), snd (snd (emu n 0 l)))"
  shows "succeeds l (sbi_trap_emulate_load v emu l)"
proof (cases "trapped_insn v l")
  case (Inl res)
  then show ?thesis using trapped_insn_succeeds [OF assms(1)] by (simp add: sbi_trap_emulate_load_def)
next
  case (Inr w)
  obtain insn ilen where w: "w = (insn, ilen)" by force
  show ?thesis
  proof (cases "decode_load insn")
    case (Scalar n sh fp insn')
    obtain rc val l' where e: "emu n 0 l = (rc, val, l')" by (metis prod_cases3)
    have "0 \<le> rc" "tc_prev (tc l') = tc_prev (tc l)" using assms(2) [of n] e by (simp_all add: emu_ok_def)
    then show ?thesis
      using Inr w Scalar e
      by (auto simp: sbi_trap_emulate_load_def succeeds_def Let_def SET_RD_def SET_F64_RD_def SET_F32_RD_def SET_FS_DIRTY_def)
  next
    case Vector
    then show ?thesis using Inr w by (simp add: sbi_trap_emulate_load_def succeeds_def sbi_misaligned_v_ld_emulator_def)
  next
    case Unknown
    then show ?thesis using Inr w redirect_succeeds [OF assms(1)] by (simp add: sbi_trap_emulate_load_def)
  qed
qed

lemma emulate_store_succeeds:
  assumes "from_below l" and "\<And>n val. emu_ok l (emu n val l)"
  shows "succeeds l (sbi_trap_emulate_store v emu l)"
proof (cases "trapped_insn v l")
  case (Inl res)
  then show ?thesis using trapped_insn_succeeds [OF assms(1)] by (simp add: sbi_trap_emulate_store_def)
next
  case (Inr w)
  obtain insn ilen where w: "w = (insn, ilen)" by force
  show ?thesis
  proof (cases "decode_store insn l")
    case (Store n val)
    obtain rc l' where e: "emu n val l = (rc, l')" by force
    have "0 \<le> rc" "tc_prev (tc l') = tc_prev (tc l)" using assms(2) [of n val] e by (simp_all add: emu_ok_def)
    then show ?thesis using Inr w Store e by (auto simp: sbi_trap_emulate_store_def succeeds_def Let_def)
  next
    case Store_vector
    then show ?thesis using Inr w by (simp add: sbi_trap_emulate_store_def succeeds_def sbi_misaligned_v_st_emulator_def Let_def)
  next
    case Store_unknown
    then show ?thesis using Inr w redirect_succeeds [OF assms(1)] by (simp add: sbi_trap_emulate_store_def Let_def)
  qed
qed

lemma ldst_handlers_succeed:
  assumes "from_below l"
  shows "succeeds l (sbi_misaligned_load_handler v l)" "succeeds l (sbi_misaligned_store_handler v l)"
    "succeeds l (sbi_load_access_handler v pl l)" "succeeds l (sbi_store_access_handler v ps l)"
proof -
  have m: "sbi_mstatus_prev_mode (tc_mstatus (tc l)) \<noteq> PRV_M" using assms by (auto simp: from_below_def)
  show "succeeds l (sbi_misaligned_load_handler v l)"
    unfolding sbi_misaligned_load_handler_def
    by (rule emulate_load_succeeds [OF assms]) (simp add: sbi_misaligned_ld_emulator_def ld_loop_emu [OF assms])
  show "succeeds l (sbi_misaligned_store_handler v l)"
    unfolding sbi_misaligned_store_handler_def
    by (rule emulate_store_succeeds [OF assms]) (simp add: sbi_misaligned_st_emulator_def st_loop_emu [OF assms])
  show "succeeds l (sbi_load_access_handler v pl l)"
    unfolding sbi_load_access_handler_def
    using m by (intro emulate_load_succeeds [OF assms])
      (auto simp: sbi_ld_access_emulator_def emu_ok_def dest: redirect_result [OF _ assms] split: prod.splits)
  show "succeeds l (sbi_store_access_handler v ps l)"
    unfolding sbi_store_access_handler_def
    using m redirect_succeeds [OF assms] by (intro emulate_store_succeeds [OF assms])
      (auto simp: sbi_st_access_emulator_def emu_ok_def succeeds_def)
qed

definition em_succeeds :: "'d emu_state \<Rightarrow> int \<times> 'd emu_state \<Rightarrow> bool" where
  "em_succeeds s r \<longleftrightarrow> fst r = 0 \<and> tc_prev (tc (em_l (snd r))) = tc_prev (tc (em_l s))"

lemma em_redirect_succeeds: "from_below (em_l s) \<Longrightarrow> em_succeeds s (em_redirect t s)"
  using redirect_succeeds [of "em_l s" t] by (auto simp: em_redirect_def em_succeeds_def succeeds_def split: prod.split)

lemma on_ldst_succeeds: "succeeds (em_l s) (f (em_l s)) \<Longrightarrow> em_succeeds s (on_ldst f s)"
  by (auto simp: on_ldst_def em_succeeds_def succeeds_def split: prod.split)

lemma isa_emulated_prev: "isa_emulated True now insn s = Some s' \<Longrightarrow> tc_prev (tc (em_l s')) = tc_prev (tc (em_l s))"
  by (auto simp: isa_emulated_def isa_exec_csr_def skip_insn_def Let_def split: if_splits option.splits)

lemma same_but_x0_prev: "same_but_x0 s s' \<Longrightarrow> tc_prev (tc (em_l s)) = tc_prev (tc (em_l s'))"
  unfolding same_but_x0_def by (drule arg_cong [of _ _ "\<lambda>s. tc_prev (tc (em_l s))"]) (simp add: x0_clear_def)

lemma illegal_succeeds:
  assumes "pmu_inv (em_p s)" and "from_below (em_l s)"
  shows "\<exists>r. sbi_illegal_insn_handler v now s = Some r \<and> em_succeeds s r"
proof -
  have m: "em_mode s = PRV_S \<or> em_mode s = PRV_U" using assms(2) by (simp add: from_below_def em_mode_def)
  obtain p r where r: "sbi_illegal_insn_handler v now s = Some r"
      "case illegal_word v s of Inl t \<Rightarrow> r = em_redirect t (s\<lparr>em_p := p\<rparr>)
        | Inr insn \<Rightarrow> agrees (isa_emulated True now insn (s\<lparr>em_p := p\<rparr>)) insn (s\<lparr>em_p := p\<rparr>) r"
    using illegal_handler_agrees [OF assms(1) m] by blast
  have redirect: "em_succeeds s (em_redirect t (s\<lparr>em_p := p\<rparr>))" for t
    using em_redirect_succeeds [of "s\<lparr>em_p := p\<rparr>" t] assms(2) by (simp add: em_succeeds_def)
  have "em_succeeds s r"
  proof (cases "illegal_word v s")
    case (Inl t)
    then show ?thesis using r(2) redirect by simp
  next
    case (Inr insn)
    then have ag: "agrees (isa_emulated True now insn (s\<lparr>em_p := p\<rparr>)) insn (s\<lparr>em_p := p\<rparr>) r" using r(2) by simp
    show ?thesis
    proof (cases "isa_emulated True now insn (s\<lparr>em_p := p\<rparr>)")
      case None
      then show ?thesis using ag redirect by (simp add: agrees_def truly_illegal_insn_def)
    next
      case (Some s')
      then have "same_but_x0 (snd r) s'" "fst r = 0" using ag by (simp_all add: agrees_def)
      then show ?thesis
        using same_but_x0_prev [of "snd r" s'] isa_emulated_prev [OF Some] by (simp add: em_succeeds_def)
    qed
  qed
  then show ?thesis using r(1) by blast
qed

lemma count_fw_ok:
  assumes "pmu_inv (em_p s)" and "k < SBI_PMU_FW_MAX"
  shows "\<exists>p. count_fw k s = Some (s\<lparr>em_p := p\<rparr>) \<and> pmu_inv p"
  using incr_returns [OF assms] by (auto simp: count_fw_def)

text \<open>The extensions leave the link to the previous context.\<close>

definition calls_keep_link :: "('e, 'd) trap_env \<Rightarrow> bool" where
  "calls_keep_link env \<longleftrightarrow> (\<forall>e id f t s r out t' s'. ecall_run env e id f t s = (r, out, t', s') \<longrightarrow> tc_prev t' = tc_prev t)"

lemma keep_linkD: "ecall_run env e x f t s = (r, out, t', s') \<Longrightarrow> calls_keep_link env \<Longrightarrow> tc_prev t' = tc_prev t"
  unfolding calls_keep_link_def by blast

lemma ecall_regs_prev: "tc_prev (ecall_regs b r v t) = tc_prev t"
  by (simp add: ecall_regs_def Let_def)

lemma ecall_returns:
  assumes "sbi_ecall_handler (ecall_run env) g t s = (rc, t', s')"
  shows "rc = 0" "calls_keep_link env \<Longrightarrow> tc_prev t' = tc_prev t"
  using assms by (auto simp: sbi_ecall_handler_def Let_def ecall_regs_prev dest: keep_linkD split: prod.splits option.splits if_splits)

lemma on_ecall_outcome:
  "if call_leaves env s then on_ecall env s = None
   else \<exists>r. on_ecall env s = Some r \<and> fst r = 0 \<and> (calls_keep_link env \<longrightarrow> em_succeeds s r)"
proof -
  obtain rc t' s' where h: "sbi_ecall_handler (ecall_run env) (ecall_exts env) (tc (em_l s)) s = (rc, t', s')" by (metis prod_cases3)
  show ?thesis using ecall_returns [OF h] h by (auto simp: on_ecall_def em_succeeds_def)
qed

lemma counted_succeeds:
  assumes "pmu_inv (em_p s)" and "k < SBI_PMU_FW_MAX" and "succeeds (em_l s) (f (em_l s))"
  shows "\<exists>r. map_option (Some \<circ> on_ldst f) (count_fw k s) = Some (Some r) \<and> em_succeeds s r"
proof -
  obtain p where "count_fw k s = Some (s\<lparr>em_p := p\<rparr>)" using count_fw_ok [OF assms(1,2)] by blast
  then show ?thesis using on_ldst_succeeds [of "s\<lparr>em_p := p\<rparr>" f] assms(3) by (simp add: em_succeeds_def)
qed

lemma dispatch_succeeds:
  assumes "pmu_inv (em_p s)" and "from_below (em_l s)" and "\<not> bit mcause 63" and "mcause \<noteq> CAUSE_DOUBLE_TRAP"
  shows "if mcause \<in> {CAUSE_SUPERVISOR_ECALL, CAUSE_MACHINE_ECALL} then dispatch env mcause s = Some (on_ecall env s)
    else \<exists>r. dispatch env mcause s = Some (Some r) \<and> em_succeeds s r"
proof -
  have irq: "mcause AND MCAUSE_IRQ_MASK = 0"
    using assms(3) and_BIT_iff [of 63 mcause] by (auto simp: MCAUSE_IRQ_MASK_def)
  note ok = ldst_handlers_succeed [OF assms(2)]
  consider "mcause = CAUSE_ILLEGAL_INSTRUCTION" | "mcause = CAUSE_MISALIGNED_LOAD" | "mcause = CAUSE_MISALIGNED_STORE"
    | "mcause \<in> {CAUSE_SUPERVISOR_ECALL, CAUSE_MACHINE_ECALL}" | "mcause = CAUSE_LOAD_ACCESS" | "mcause = CAUSE_STORE_ACCESS"
    | "mcause \<notin> {CAUSE_ILLEGAL_INSTRUCTION, CAUSE_MISALIGNED_LOAD, CAUSE_MISALIGNED_STORE, CAUSE_SUPERVISOR_ECALL, CAUSE_MACHINE_ECALL,
        CAUSE_LOAD_ACCESS, CAUSE_STORE_ACCESS}" by blast
  then show ?thesis
  proof cases
    case 1
    then show ?thesis using irq illegal_succeeds [OF assms(1,2)] by (fastforce simp: dispatch_def)
  next
    case 2
    then show ?thesis using irq counted_succeeds [where f = "sbi_misaligned_load_handler (te_vmem env)", OF assms(1) _ ok(1)]
      by (fastforce simp: dispatch_def)
  next
    case 3
    then show ?thesis using irq counted_succeeds [where f = "sbi_misaligned_store_handler (te_vmem env)", OF assms(1) _ ok(2)]
      by (fastforce simp: dispatch_def)
  next
    case 4
    then show ?thesis using irq by (auto simp: dispatch_def)
  next
    case 5
    then show ?thesis using irq counted_succeeds [where f = "sbi_load_access_handler (te_vmem env) (emulate_load env)", OF assms(1) _ ok(3)]
      by (fastforce simp: dispatch_def)
  next
    case 6
    then show ?thesis using irq counted_succeeds [where f = "sbi_store_access_handler (te_vmem env) (emulate_store env)", OF assms(1) _ ok(4)]
      by (fastforce simp: dispatch_def)
  next
    case 7
    then show ?thesis using irq assms(4) em_redirect_succeeds [OF assms(2)] by (auto simp: dispatch_def)
  qed
qed

subsection \<open>The firmware survives every exception from below\<close>

text \<open>C9: No exception from S- or U-mode other than a double trap makes the trap handler fail: whatever instruction trapped, whatever the
  memory accesses of the emulators raise and whatever the platform's emulators answer, the handler never reaches \<open>sbi_trap_error\<close>, which
  hangs the hart. After an exception other than an SBI call it returns to the interrupted context, and the previous trap context is
  current again. After an SBI call it returns unless the called extension does not come back, as for a hart stop; the previous trap
  context is current again if the extensions leave the link to it, which the switch of domains does not. The state of the PMU is as its
  calls leave it (\<open>pmu_inv\<close>), and the processing of pending software events returns and leaves the link to the previous trap context.\<close>

theorem trap_handler_survives:
  assumes "pmu_inv (em_p (th s))" and "em_mode (th s) = PRV_S \<or> em_mode (th s) = PRV_U"
    and "\<not> bit (cause (tc_trap (tc (em_l (th s))))) 63" and "cause (tc_trap (tc (em_l (th s)))) \<noteq> CAUSE_DOUBLE_TRAP"
    and "\<And>e. tc_prev (tc (em_l (process_pending_events env e))) = tc_prev (tc (em_l e))"
  defines "call \<equiv> cause (tc_trap (tc (em_l (th s)))) \<in> {CAUSE_SUPERVISOR_ECALL, CAUSE_MACHINE_ECALL}"
    and "entered \<equiv> (th s)\<lparr>em_l := (em_l (th s))\<lparr>tc := (tc (em_l (th s)))\<lparr>tc_prev := trap_context s\<rparr>\<rparr>\<rparr>"
  shows "if call \<and> call_leaves env entered then sbi_trap_handler env tcntx s = Some Left
    else \<exists>s'. sbi_trap_handler env tcntx s = Some (Resumed s') \<and> (\<not> call \<or> calls_keep_link env \<longrightarrow> trap_context s' = trap_context s)"
proof -
  let ?c = "cause (tc_trap (tc (em_l (th s))))"
  have below: "from_below (em_l entered)" using assms(2) by (auto simp: entered_def from_below_def em_mode_def)
  have link: "tc_prev (tc (em_l entered)) = trap_context s" by (simp add: entered_def)
  have d: "if call then dispatch env ?c entered = Some (on_ecall env entered)
      else \<exists>r. dispatch env ?c entered = Some (Some r) \<and> em_succeeds entered r"
    using dispatch_succeeds [OF _ below assms(3,4), of env] assms(1) unfolding call_def by (simp add: entered_def)
  have resumed: "\<exists>s'. sbi_trap_handler env tcntx s = Some (Resumed s') \<and> (em_succeeds entered r \<longrightarrow> trap_context s' = trap_context s)"
    if "dispatch env ?c entered = Some (Some r)" "fst r = 0" for r
    using that assms(5) link by (cases r) (auto simp: sbi_trap_handler_def em_succeeds_def Let_def simp flip: entered_def)
  show ?thesis
  proof (cases call)
    case True
    show ?thesis
    proof (cases "call_leaves env entered")
      case leaves: True
      then have "dispatch env ?c entered = Some None" using d True on_ecall_outcome [of env entered] by simp
      then show ?thesis using True leaves by (simp add: sbi_trap_handler_def Let_def flip: entered_def)
    next
      case False
      then obtain r where "on_ecall env entered = Some r" "fst r = 0" "calls_keep_link env \<longrightarrow> em_succeeds entered r"
        using on_ecall_outcome [of env entered] by auto
      then show ?thesis using resumed [of r] d True False by auto
    qed
  next
    case False
    then obtain r where "dispatch env ?c entered = Some (Some r)" "em_succeeds entered r" using d by auto
    then show ?thesis using resumed [of r] False by (auto simp: em_succeeds_def)
  qed
qed

definition ex_trap_env :: "(ecall_ext, unit) trap_env" where
  "ex_trap_env = \<lparr>te_vmem = ex_vmem, te_now = 1234, te_sstc = False, te_smaia = False, mtopi_reads = [], emulate_load = None,
    emulate_store = None, ecall_exts = ecall_start, ecall_run = (\<lambda>e x f t s. (0, no_out, t, s)), ecall_leaves = (\<lambda>e x f s. False), ipi_process = (\<lambda>s. s),
    irqchip_process = (\<lambda>s. (0, s)), inject_pmu = (\<lambda>s. (0, s)), inject_double_trap = (\<lambda>s. (0, s)), process_pending_events = (\<lambda>s. s)\<rparr>"

theorem trap_handler_survives_witness:
  "\<exists>s'. sbi_trap_handler ex_trap_env 0x1000 \<lparr>th = ex_emu, trap_context = 0x2000\<rparr> = Some (Resumed s') \<and> trap_context s' = 0x2000"
proof -
  let ?s = "\<lparr>th = ex_emu, trap_context = 0x2000\<rparr>"
  have c: "cause (tc_trap (tc (em_l (th ?s)))) = 2" by (simp add: ex_emu_def)
  have p: "tc_prev (tc (em_l (process_pending_events ex_trap_env e))) = tc_prev (tc (em_l e))" for e by (simp add: ex_trap_env_def)
  show ?thesis
    using trap_handler_survives [of ?s ex_trap_env "0x1000", OF _ _ _ _ p] ex_emu_rdtime(2,3) c by simp
qed

text \<open>A double trap reported in U-mode, in contrast, is an error.\<close>

lemma double_trap_from_user_hangs:
  assumes "cause (tc_trap (tc (em_l (th s)))) = CAUSE_DOUBLE_TRAP" and "em_mode (th s) = PRV_U"
  shows "sbi_trap_handler env tcntx s = Some Hang"
  using assms by (simp add: sbi_trap_handler_def dispatch_def sbi_double_trap_handler_def em_mode_def MCAUSE_IRQ_MASK_def BIT_lt Let_def)

end
