(* ===== verification/Sbi_Ipi_Boot.thy ===== *)
theory Sbi_Ipi_Boot
  imports Sbi_Ipi
begin

unbundle bit_operations_syntax

text \<open>
  The events that the firmware itself sends, and the boot and exit of the inter-processor interrupts: the rest of \<open>lib/sbi/sbi_ipi.c\<close>
  with \<open>lib/sbi/sbi_ecall_ipi.c\<close>. The state of the clients of \<open>Sbi_Ipi\<close> is here the interrupt CSRs of the harts and the list of harts
  that processed a halt request. That request ends in \<open>sbi_hsm_hart_stop\<close> with \<open>exitnow\<close> (\<open>Sbi_Hsm\<close>), which does not come back.
\<close>

subsection \<open>The events for S-mode and for halting\<close>

definition MIP_MSIP :: ulong where [simp, sbi_defs]: "MIP_MSIP = 0x8"

record ipi_client =
  cl_mip :: "nat \<Rightarrow> ulong"
  cl_mie :: "nat \<Rightarrow> ulong"
  cl_halted :: "nat list"

type_synonym ipi_state = "(ipi_client, unit) ipi_globals"

definition sbi_ipi_process_smode :: "nat \<Rightarrow> ipi_client \<Rightarrow> ipi_client" where
  "sbi_ipi_process_smode i c = c\<lparr>cl_mip := (cl_mip c)(i := cl_mip c i OR MIP_SSIP)\<rparr>"

definition sbi_ipi_clear_smode :: "nat \<Rightarrow> ipi_client \<Rightarrow> ipi_client" where
  "sbi_ipi_clear_smode i c = c\<lparr>cl_mip := (cl_mip c)(i := cl_mip c i AND NOT MIP_SSIP)\<rparr>"

definition ipi_smode_ops :: "(ipi_client, unit) sbi_ipi_event_ops" where
  "ipi_smode_ops = \<lparr>ev_update = None, ev_sync = None, ev_process = Some sbi_ipi_process_smode\<rparr>"

definition sbi_ipi_process_halt :: "nat \<Rightarrow> ipi_client \<Rightarrow> ipi_client" where
  "sbi_ipi_process_halt i c = c\<lparr>cl_halted := cl_halted c @ [i]\<rparr>"

definition ipi_halt_ops :: "scratch_globals \<Rightarrow> (ipi_client, unit) sbi_ipi_event_ops" where
  "ipi_halt_ops tab =
    \<lparr>ev_update = Some (\<lambda>self remote data cl. (sbi_ipi_update_halt tab self remote, cl)), ev_sync = None,
     ev_process = Some sbi_ipi_process_halt\<rparr>"

record ipi_boot =
  ib :: ipi_state
  ipi_data_off :: ulong
  ipi_smode_event :: nat
  ipi_halt_event :: nat
  ipi_dev_set :: bool

definition sbi_ipi_send_smode :: "nat \<Rightarrow> ulong \<Rightarrow> ulong \<Rightarrow> ipi_boot \<Rightarrow> (int \<times> ipi_boot) option" where
  "sbi_ipi_send_smode self hmask hbase b =
    map_option (\<lambda>(ret, g). (ret, b\<lparr>ib := g\<rparr>)) (sbi_ipi_send_many self hmask hbase (ipi_smode_event b) () (ib b))"

definition sbi_ipi_send_halt :: "nat \<Rightarrow> ulong \<Rightarrow> ulong \<Rightarrow> ipi_boot \<Rightarrow> (int \<times> ipi_boot) option" where
  "sbi_ipi_send_halt self hmask hbase b =
    map_option (\<lambda>(ret, g). (ret, b\<lparr>ib := g\<rparr>)) (sbi_ipi_send_many self hmask hbase (ipi_halt_event b) () (ib b))"

definition sbi_ecall_ipi_handler :: "nat \<Rightarrow> ulong \<Rightarrow> ulong \<Rightarrow> ulong \<Rightarrow> ipi_boot \<Rightarrow> (int \<times> ipi_boot) option" where
  "sbi_ecall_ipi_handler self funcid a0 a1 b =
    (if funcid = 0 then sbi_ipi_send_smode self a0 a1 b else Some (SBI_ENOTSUPP, b))"

subsection \<open>Boot and exit\<close>

text \<open>A device is described by which of its two callbacks it has.\<close>

definition sbi_ipi_set_device :: "(bool \<times> bool) option \<Rightarrow> ipi_boot \<Rightarrow> ipi_boot" where
  "sbi_ipi_set_device dev b =
    (case dev of
      None \<Rightarrow> b
    | Some (has_send, has_clear) \<Rightarrow>
        if ipi_dev_set b then b
        else b\<lparr>ipi_dev_set := True, ib := (ib b)\<lparr>dev_ipi_send := has_send, dev_ipi_clear := has_clear\<rparr>\<rparr>)"

definition ipi_init_hart :: "nat \<Rightarrow> ipi_boot \<Rightarrow> ipi_boot" where
  "ipi_init_hart self b =
    (let g = ib b;
         g = g\<lparr>ipi_type := (ipi_type g)(self := 0)\<rparr>;
         g = sbi_ipi_raw_clear self g;
         c = client g
     in b\<lparr>ib := g\<lparr>client := c\<lparr>cl_mie := (cl_mie c)(self := cl_mie c self OR MIP_MSIP)\<rparr>\<rparr>\<rparr>)"

text \<open>\<open>plat_init\<close> is the result of the platform's \<open>ipi_init\<close> and the device it sets, if any.\<close>

definition sbi_ipi_init :: "int \<times> (bool \<times> bool) option \<Rightarrow> bool \<Rightarrow> nat \<Rightarrow> ipi_boot \<Rightarrow> int \<times> ipi_boot" where
  "sbi_ipi_init plat_init cold_boot self b =
    (if cold_boot then
       (case sbi_scratch_alloc_offset 8 (ipi_tab (ib b)) of (off, tab) \<Rightarrow>
         let b = b\<lparr>ipi_data_off := off,
               ib := (ib b)\<lparr>ipi_hsm := (ipi_hsm (ib b))\<lparr>hsm_doms := (hsm_doms (ipi_hsm (ib b)))\<lparr>scratch_tab := tab\<rparr>\<rparr>\<rparr>\<rparr>
         in if off = 0 then (SBI_ENOMEM, b)
            else (case sbi_ipi_event_create (Some ipi_smode_ops) (ib b) of (ret, g) \<Rightarrow>
              let b = b\<lparr>ib := g\<rparr>
              in if ret < 0 then (ret, b)
                 else
                   let b = b\<lparr>ipi_smode_event := nat ret\<rparr>
                   in (case sbi_ipi_event_create (Some (ipi_halt_ops (ipi_tab (ib b)))) (ib b) of (ret, g) \<Rightarrow>
                     let b = b\<lparr>ib := g\<rparr>
                     in if ret < 0 then (ret, b)
                        else
                          let b = sbi_ipi_set_device (snd plat_init) (b\<lparr>ipi_halt_event := nat ret\<rparr>)
                          in if fst plat_init \<noteq> 0 then (fst plat_init, b) else (0, ipi_init_hart self b))))
     else if ipi_data_off b = 0 then (SBI_ENOMEM, b)
     else if SBI_IPI_EVENT_MAX \<le> ipi_smode_event b \<or> SBI_IPI_EVENT_MAX \<le> ipi_halt_event b then (SBI_ENOSPC, b)
     else (0, ipi_init_hart self b))"

definition sbi_ipi_exit :: "nat \<Rightarrow> ipi_boot \<Rightarrow> ipi_boot" where
  "sbi_ipi_exit self b =
    (let g = ib b; c = client g
     in b\<lparr>ib := sbi_ipi_process self (g\<lparr>client := c\<lparr>cl_mie := (cl_mie c)(self := cl_mie c self AND NOT MIP_MSIP)\<rparr>\<rparr>)\<rparr>)"

subsection \<open>The booted state\<close>

text \<open>Both events are registered, the device can send, and no other event touches \<open>mip\<close>.\<close>

definition ipi_ready :: "ipi_boot \<Rightarrow> bool" where
  "ipi_ready b \<longleftrightarrow>
    ipi_smode_event b < SBI_IPI_EVENT_MAX \<and> ipi_halt_event b < SBI_IPI_EVENT_MAX \<and> ipi_smode_event b \<noteq> ipi_halt_event b \<and>
    ipi_ops_array (ib b) (ipi_smode_event b) = Some ipi_smode_ops \<and>
    (\<exists>tab. ipi_ops_array (ib b) (ipi_halt_event b) = Some (ipi_halt_ops tab) \<and>
      sbi_hartindex_to_scratch tab = sbi_hartindex_to_scratch (ipi_tab (ib b))) \<and>
    (\<forall>e ops pr. e \<noteq> ipi_smode_event b \<longrightarrow> ipi_ops_array (ib b) e = Some ops \<longrightarrow> ev_process ops = Some pr \<longrightarrow>
      (\<forall>i c. cl_mip (pr i c) = cl_mip c)) \<and>
    dev_ipi_send (ib b)"

lemma ready_reaching:
  assumes "ipi_ready b"
  shows "\<exists>ops. ipi_ops_array (ib b) (ipi_halt_event b) = Some ops \<and> reaching (ib b) ops \<and> ev_sync ops = None \<and> ev_update ops \<noteq> None"
    "reaching (ib b) ipi_smode_ops" "ev_sync ipi_smode_ops = None"
proof -
  obtain tab where tab: "ipi_ops_array (ib b) (ipi_halt_event b) = Some (ipi_halt_ops tab)"
      "sbi_hartindex_to_scratch tab = sbi_hartindex_to_scratch (ipi_tab (ib b))"
    using assms by (auto simp: ipi_ready_def)
  then have "reaching (ib b) (ipi_halt_ops tab)" by (simp add: reaching_def ipi_halt_ops_def sbi_ipi_update_halt_def)
  then show "\<exists>ops. ipi_ops_array (ib b) (ipi_halt_event b) = Some ops \<and> reaching (ib b) ops \<and> ev_sync ops = None \<and> ev_update ops \<noteq> None"
    using tab by (simp add: ipi_halt_ops_def)
qed (simp_all add: reaching_def ipi_smode_ops_def)

lemma alloc_tables:
  assumes "sbi_scratch_alloc_offset sz tab = (off, tab')"
  shows "hartindex_to_scratch_table tab' = hartindex_to_scratch_table tab" "hartindex_to_hartid_table tab' = hartindex_to_hartid_table tab"
    "last_hartindex_having_scratch tab' = last_hartindex_having_scratch tab"
  using assms by (auto simp: sbi_scratch_alloc_offset_def Let_def split: if_splits)

lemma init_hart_fields [simp]:
  "ipi_ops_array (ib (ipi_init_hart self b)) = ipi_ops_array (ib b)" "ipi_smode_event (ipi_init_hart self b) = ipi_smode_event b"
  "ipi_halt_event (ipi_init_hart self b) = ipi_halt_event b" "ipi_hsm (ib (ipi_init_hart self b)) = ipi_hsm (ib b)"
  "dev_ipi_send (ib (ipi_init_hart self b)) = dev_ipi_send (ib b)" "ipi_data_off (ipi_init_hart self b) = ipi_data_off b"
  by (simp_all add: ipi_init_hart_def sbi_ipi_raw_clear_def Let_def)

lemma create_first:
  assumes "ev_process o' \<noteq> None" and "\<forall>j<i. ipi_ops_array g j \<noteq> None" and "ipi_ops_array g i = None" and "i < SBI_IPI_EVENT_MAX"
  shows "sbi_ipi_event_create (Some o') g = (int i, g\<lparr>ipi_ops_array := (ipi_ops_array g)(i := Some o')\<rparr>)"
proof -
  have "[0..<64] = [0..<i] @ i # [Suc i..<64]"
    using assms(4) upt_add_eq_append [of 0 i "64 - i"] by (simp add: upt_conv_Cons)
  then have "filter (\<lambda>i. ipi_ops_array g i = None) [0..<64] = i # filter (\<lambda>i. ipi_ops_array g i = None) [Suc i..<64]"
    using assms(2,3) by simp
  then show ?thesis using assms(1) by (simp add: sbi_ipi_event_create_def)
qed

text \<open>The cold boot registers the S-mode event as event 0 and the halt event as event 1.\<close>

lemma cold_boot_ready:
  assumes "ipi_ops_array (ib b) = (\<lambda>_. None)" and "\<not> ipi_dev_set b" and "sbi_scratch_alloc_offset 8 (ipi_tab (ib b)) = (off, tab)" and "off \<noteq> 0"
  shows "\<exists>b'. sbi_ipi_init (0, Some (True, clr)) True self b = (0, b') \<and> ipi_ready b' \<and> ipi_smode_event b' = 0 \<and> ipi_halt_event b' = 1 \<and>
    ipi_data_off b' = off \<and> ipi_hsm (ib b') = (ipi_hsm (ib b))\<lparr>hsm_doms := (hsm_doms (ipi_hsm (ib b)))\<lparr>scratch_tab := tab\<rparr>\<rparr>"
proof -
  let ?h = "(ipi_hsm (ib b))\<lparr>hsm_doms := (hsm_doms (ipi_hsm (ib b)))\<lparr>scratch_tab := tab\<rparr>\<rparr>"
  let ?g = "(ib b)\<lparr>ipi_hsm := ?h\<rparr>"
  let ?g1 = "?g\<lparr>ipi_ops_array := (\<lambda>_. None)(0 := Some ipi_smode_ops)\<rparr>"
  let ?g2 = "?g1\<lparr>ipi_ops_array := (\<lambda>_. None)(0 := Some ipi_smode_ops, 1 := Some (ipi_halt_ops tab))\<rparr>"
  let ?b = "b\<lparr>ipi_data_off := off, ipi_smode_event := 0, ipi_halt_event := 1, ipi_dev_set := True,
    ib := ?g2\<lparr>dev_ipi_send := True, dev_ipi_clear := clr\<rparr>\<rparr>"
  have c1: "sbi_ipi_event_create (Some ipi_smode_ops) ?g = (0, ?g1)"
    using create_first [of ipi_smode_ops 0 ?g] assms(1) by (simp add: ipi_smode_ops_def)
  have c2: "sbi_ipi_event_create (Some (ipi_halt_ops tab)) ?g1 = (1, ?g2)"
    using create_first [of "ipi_halt_ops tab" 1 ?g1] by (simp add: ipi_halt_ops_def fun_upd_twist)
  have "sbi_ipi_init (0, Some (True, clr)) True self b = (0, ipi_init_hart self ?b)"
    using assms(2-4) c1 c2 by (simp add: sbi_ipi_init_def sbi_ipi_set_device_def Let_def)
  moreover have "ipi_ready (ipi_init_hart self ?b)"
    by (auto simp: ipi_ready_def ipi_halt_ops_def sbi_ipi_process_halt_def split: if_splits)
  ultimately show ?thesis by simp
qed

lemma warm_boot_ready:
  assumes "ipi_ready b" and "ipi_data_off b \<noteq> 0"
  shows "\<exists>b'. sbi_ipi_init p False self b = (0, b') \<and> ipi_ready b' \<and> ipi_type (ib b') self = 0"
proof -
  have "ipi_ready (ipi_init_hart self b)" using assms(1) by (simp add: ipi_ready_def)
  moreover have "sbi_ipi_init p False self b = (0, ipi_init_hart self b)"
    using assms by (simp add: sbi_ipi_init_def ipi_ready_def)
  ultimately show ?thesis by (simp add: ipi_init_hart_def sbi_ipi_raw_clear_def Let_def)
qed

subsection \<open>Delivery\<close>

lemma run_event_fields [simp]:
  "ipi_ops_array (run_event j e g) = ipi_ops_array g" "ipi_type (run_event j e g) = ipi_type g"
  by (simp_all add: run_event_def split: option.split)

lemma run_events_mip:
  assumes "\<forall>e ops pr. e \<noteq> sm \<longrightarrow> ipi_ops_array g e = Some ops \<longrightarrow> ev_process ops = Some pr \<longrightarrow> (\<forall>i c. cl_mip (pr i c) = cl_mip c)"
    and "ipi_ops_array g sm = Some ipi_smode_ops"
  shows "bit (cl_mip (client (fold (run_event j) es g)) j) 1 \<longleftrightarrow> bit (cl_mip (client g) j) 1 \<or> sm \<in> set es"
  using assms
proof (induction es arbitrary: g)
  case (Cons e es)
  have "bit (cl_mip (client (run_event j e g)) j) 1 \<longleftrightarrow> bit (cl_mip (client g) j) 1 \<or> e = sm"
  proof (cases "e = sm")
    case True
    then show ?thesis using Cons.prems(2) by (simp add: run_event_def ipi_smode_ops_def sbi_ipi_process_smode_def bit_or_iff bit_simps)
  next
    case False
    then have "cl_mip (client (run_event j e g)) = cl_mip (client g)"
      using Cons.prems(1) by (auto simp: run_event_def split: option.split)
    then show ?thesis using False by simp
  qed
  then show ?case using Cons.IH [of "run_event j e g"] Cons.prems by auto
qed simp

lemma process_mip:
  assumes "ipi_ready b" and "ipi_ops_array g = ipi_ops_array (ib b)"
  shows "bit (cl_mip (client (sbi_ipi_process j g)) j) 1 \<longleftrightarrow> bit (cl_mip (client g) j) 1 \<or> bit (ipi_type g j) (ipi_smode_event b)"
  using assms
  by (subst sbi_ipi_process_eq, subst run_events_mip [of "ipi_smode_event b"])
    (auto simp: ipi_ready_def sbi_ipi_raw_clear_def)

lemma smode_runs_mip: "bit (cl_mip ((self_run ipi_smode_ops self ^^ n) c) j) 1 \<longleftrightarrow> bit (cl_mip c j) 1 \<or> j = self \<and> 0 < n"
  by (induction n) (auto simp: self_run_def ipi_smode_ops_def sbi_ipi_process_smode_def bit_or_iff bit_simps)

text \<open>C29: An IPI of the supervisor arrives: after the SBI call returned and a hart processed its IPIs, the S-mode software interrupt of
  the hart is pending exactly if it was before, an earlier IPI was still underway, or the call named the hart and it belongs to the
  domain of the caller and is started, suspended or resuming. That holds for the calling hart as well.\<close>

theorem smode_ipi_delivered:
  assumes "ipi_ready b" and "\<forall>i \<in> targets (ib b) self hmask hbase. sbi_hartindex_to_scratch (ipi_tab (ib b)) (of_nat i) \<noteq> 0"
    and "\<forall>i \<in> targets (ib b) self hmask hbase. self_scratch (ib b) self i \<longrightarrow> i = self"
  shows "\<exists>b'. sbi_ecall_ipi_handler self 0 hmask hbase b = Some (0, b') \<and>
    (\<forall>j. bit (cl_mip (client (sbi_ipi_process j (ib b'))) j) 1 \<longleftrightarrow>
      bit (cl_mip (client (ib b)) j) 1 \<or> bit (ipi_type (ib b) j) (ipi_smode_event b) \<or> j \<in> targets (ib b) self hmask hbase)"
proof -
  let ?T = "targets (ib b) self hmask hbase" and ?n = "card {i \<in> targets (ib b) self hmask hbase. self_scratch (ib b) self i}"
  have sm: "ipi_smode_event b < 64" "ipi_ops_array (ib b) (ipi_smode_event b) = Some ipi_smode_ops" "dev_ipi_send (ib b)"
    using assms(1) by (simp_all add: ipi_ready_def)
  obtain pend where s: "sbi_ipi_send_many self hmask hbase (ipi_smode_event b) () (ib b) =
      Some (0, (ib b)\<lparr>client := (self_run ipi_smode_ops self ^^ ?n) (client (ib b)), ipi_pending := pend,
        ipi_type := sent (ib b) self (ipi_smode_event b) ?T\<rparr>)" (is "_ = Some (0, ?g)")
    using send_many_simple [OF sm(1,2) ready_reaching(2,3) [OF assms(1)] sm(3) assms(2), of "()"] assms(1) by blast
  have "{i \<in> ?T. self_scratch (ib b) self i} = (if self \<in> ?T then {self} else {})"
    using assms(3) by (auto simp: self_scratch_def)
  then have n: "0 < ?n \<longleftrightarrow> self \<in> ?T" by simp
  have c: "bit (cl_mip (client ?g) j) 1 \<longleftrightarrow> bit (cl_mip (client (ib b)) j) 1 \<or> j = self \<and> self \<in> ?T" for j
    using smode_runs_mip [of ?n self "client (ib b)" j] n by simp
  have "self_scratch (ib b) self j \<longleftrightarrow> j = self" if "j \<in> ?T" for j using that assms(3) by (auto simp: self_scratch_def)
  then have "bit (ipi_type ?g j) (ipi_smode_event b) \<longleftrightarrow> bit (ipi_type (ib b) j) (ipi_smode_event b) \<or> j \<in> ?T \<and> j \<noteq> self" for j
    using sm(1) by (auto simp: sent_def bit_or_iff BIT_def bit_simps)
  then have "bit (cl_mip (client (sbi_ipi_process j ?g)) j) 1 \<longleftrightarrow>
      bit (cl_mip (client (ib b)) j) 1 \<or> bit (ipi_type (ib b) j) (ipi_smode_event b) \<or> j \<in> ?T" for j
    using process_mip [OF assms(1), of ?g j] c [of j] by auto
  then show ?thesis by (auto simp: sbi_ecall_ipi_handler_def sbi_ipi_send_smode_def s)
qed

text \<open>A machine with two harts, of which hart 0 is in the domain: hart 1 boots it and sends hart 0 an IPI.\<close>

definition ex_ipi_cold :: ipi_boot where
  "ex_ipi_cold = \<lparr>ib = \<lparr>ipi_hsm = ex_hsm 0, ipi_type = (\<lambda>_. 0), ipi_ops_array = (\<lambda>_. None), dev_ipi_send = False, dev_ipi_clear = False,
      ipi_pending = (\<lambda>_. False), client = \<lparr>cl_mip = (\<lambda>_. 0), cl_mie = (\<lambda>_. 0), cl_halted = []\<rparr>\<rparr>,
    ipi_data_off = 0, ipi_smode_event = SBI_IPI_EVENT_MAX, ipi_halt_event = SBI_IPI_EVENT_MAX, ipi_dev_set = False\<rparr>"

definition ex_booted :: "ipi_boot \<Rightarrow> scratch_globals \<Rightarrow> bool" where
  "ex_booted b tab \<longleftrightarrow> sbi_ipi_init (0, Some (True, True)) True 1 ex_ipi_cold = (0, b) \<and> ipi_ready b \<and>
    ipi_hsm (ib b) = (ex_hsm 0)\<lparr>hsm_doms := (hsm_doms (ex_hsm 0))\<lparr>scratch_tab := tab\<rparr>\<rparr> \<and>
    sbi_hartindex_to_scratch tab 0 = 0x80040000 \<and> sbi_hartindex_to_scratch tab 1 = 0x80041000 \<and> sbi_hartid_to_hartindex tab 0 = 0"

lemma ex_booted: "\<exists>b tab. ex_booted b tab"
proof -
  obtain off tab where al: "sbi_scratch_alloc_offset 8 ex_scratch = (off, tab)" by force
  moreover have "off \<noteq> 0" using al by (auto simp: sbi_scratch_alloc_offset_def ex_scratch_def Let_def split: if_splits)
  ultimately obtain b where b: "sbi_ipi_init (0, Some (True, True)) True 1 ex_ipi_cold = (0, b)" "ipi_ready b"
      "ipi_hsm (ib b) = (ex_hsm 0)\<lparr>hsm_doms := (hsm_doms (ex_hsm 0))\<lparr>scratch_tab := tab\<rparr>\<rparr>"
    using cold_boot_ready [of ex_ipi_cold off tab True 1] by (auto simp: ex_ipi_cold_def ex_hsm_tabs)
  have "sbi_hartindex_to_scratch tab 0 = 0x80040000" "sbi_hartindex_to_scratch tab 1 = 0x80041000" "sbi_hartid_to_hartindex tab 0 = 0"
    by (simp_all add: sbi_hartindex_to_scratch_def sbi_hartid_to_hartindex_def alloc_tables [OF al] ex_scratch_def)
  then show ?thesis using b unfolding ex_booted_def by blast
qed

lemma ex_booted_targets:
  assumes "ex_booted b tab"
  shows "sbi_hartindex_to_domain (hsm_doms (ipi_hsm (ib b))) 1 = Some 0" "targets (ib b) 1 1 0 = {0}" "targets (ib b) 1 0 (-1) = {0}"
    "\<not> self_scratch (ib b) 1 0" "sbi_hartindex_to_scratch (ipi_tab (ib b)) 0 \<noteq> 0"
proof -
  note b = assms [unfolded ex_booted_def]
  show d: "sbi_hartindex_to_domain (hsm_doms (ipi_hsm (ib b))) 1 = Some 0"
    using b by (simp add: sbi_hartindex_to_domain_def ex_hsm_def ex_domains_def)
  have "sbi_domain_is_assigned_hart (hsm_doms (ipi_hsm (ib b))) (Some 0) i \<longleftrightarrow> i = 0" for i
    using ex_hsm_tabs(3) [of 0 i] b by (simp add: sbi_domain_is_assigned_hart_def)
  moreover have "hsm_hart_get_state (ipi_hsm (ib b)) 0 = 0" using b by (simp add: hsm_hart_get_state_def ex_hsm_fields)
  ultimately have i: "interruptible (ipi_hsm (ib b)) (Some 0) = {0}" by (auto simp: interruptible_def interruptible_state_def)
  have "0 \<in> requested tab 1 0" using b by (auto simp: requested_def intro!: exI [of _ 0])
  then show "targets (ib b) 1 1 0 = {0}" using d i b by (auto simp: targets_def)
  show "targets (ib b) 1 0 (-1) = {0}" using d i by (auto simp: targets_def requested_def)
  show "\<not> self_scratch (ib b) 1 0" "sbi_hartindex_to_scratch (ipi_tab (ib b)) 0 \<noteq> 0" using b by (simp_all add: self_scratch_def)
qed

theorem smode_ipi_delivered_witness:
  "\<exists>b b'. sbi_ipi_init (0, Some (True, True)) True 1 ex_ipi_cold = (0, b) \<and> sbi_ecall_ipi_handler 1 0 1 0 b = Some (0, b') \<and>
    bit (cl_mip (client (sbi_ipi_process 0 (ib b'))) 0) 1"
proof -
  obtain b tab where b: "ex_booted b tab" using ex_booted by blast
  note T = ex_booted_targets [OF b]
  have "ipi_ready b" using b by (simp add: ex_booted_def)
  then have "\<exists>b'. sbi_ecall_ipi_handler 1 0 1 0 b = Some (0, b') \<and>
    (\<forall>j. bit (cl_mip (client (sbi_ipi_process j (ib b'))) j) 1 \<longleftrightarrow>
      bit (cl_mip (client (ib b)) j) 1 \<or> bit (ipi_type (ib b) j) (ipi_smode_event b) \<or> j \<in> targets (ib b) 1 1 0)"
    by (rule smode_ipi_delivered) (use T in simp_all)
  then show ?thesis using b T(2) unfolding ex_booted_def by blast
qed

end
