(* ===== verification/Sbi_System.thy ===== *)
theory Sbi_System
  imports Sbi_Ipi_Boot Sbi_Trap
begin

unbundle bit_operations_syntax

text \<open>
  System reset and suspend, \<open>lib/sbi/sbi_system.c\<close> with \<open>lib/sbi/sbi_ecall_srst.c\<close> and \<open>lib/sbi/sbi_ecall_susp.c\<close>.

  The devices of the platform are records of their callbacks. A reset device is known by a number, and its \<open>system_reset\<close> says whether
  the system really resets or the callback comes back. \<open>sbi_exit\<close>, where a reset that did not happen ends, is an outcome.
\<close>

subsection \<open>State\<close>

record sbi_system_reset_device =
  reset_dev_id :: nat
  system_reset_check :: "(u32 \<Rightarrow> u32 \<Rightarrow> int) option"
  system_reset :: "u32 \<Rightarrow> u32 \<Rightarrow> bool"

record sbi_system_suspend_device =
  system_suspend_check :: "(u32 \<Rightarrow> int) option"
  system_suspend :: "(u32 \<Rightarrow> ulong \<Rightarrow> int) option"

record system_globals =
  reset_devices_list :: "sbi_system_reset_device list"
  suspend_dev :: "sbi_system_suspend_device option"

datatype reset_outcome = Device_reset nat u32 u32 | Exit | Reset_ret int

definition SBI_SRST_RESET_TYPE_SHUTDOWN :: ulong where [simp, sbi_defs]: "SBI_SRST_RESET_TYPE_SHUTDOWN = 0"
definition SBI_SRST_RESET_TYPE_COLD_REBOOT :: ulong where [simp, sbi_defs]: "SBI_SRST_RESET_TYPE_COLD_REBOOT = 1"
definition SBI_SRST_RESET_TYPE_WARM_REBOOT :: ulong where [simp, sbi_defs]: "SBI_SRST_RESET_TYPE_WARM_REBOOT = 2"
definition SBI_SRST_RESET_REASON_NONE :: ulong where [simp, sbi_defs]: "SBI_SRST_RESET_REASON_NONE = 0"
definition SBI_SRST_RESET_REASON_SYSFAIL :: ulong where [simp, sbi_defs]: "SBI_SRST_RESET_REASON_SYSFAIL = 1"
definition SBI_SUSP_SLEEP_TYPE_SUSPEND :: u32 where [simp, sbi_defs]: "SBI_SUSP_SLEEP_TYPE_SUSPEND = 0"

subsection \<open>Reset\<close>

definition reset_candidate ::
  "u32 \<Rightarrow> u32 \<Rightarrow> sbi_system_reset_device \<Rightarrow> sbi_system_reset_device option \<times> int \<Rightarrow> sbi_system_reset_device option \<times> int" where
  "reset_candidate reset_type reset_reason dev best =
    (case system_reset_check dev of
      None \<Rightarrow> best
    | Some check \<Rightarrow>
        let status = check reset_type reset_reason
        in if status = 0 then best else if status > snd best then (Some dev, status) else best)"

definition sbi_system_reset_get_device :: "u32 \<Rightarrow> u32 \<Rightarrow> system_globals \<Rightarrow> sbi_system_reset_device option" where
  "sbi_system_reset_get_device reset_type reset_reason s =
    fst (fold (reset_candidate reset_type reset_reason) (reset_devices_list s) (None, 0))"

definition sbi_system_reset_add_device :: "sbi_system_reset_device option \<Rightarrow> system_globals \<Rightarrow> system_globals" where
  "sbi_system_reset_add_device dev s =
    (case dev of
      None \<Rightarrow> s
    | Some d \<Rightarrow> if system_reset_check d = None then s else s\<lparr>reset_devices_list := d # reset_devices_list s\<rparr>)"

definition sbi_system_reset_supported :: "u32 \<Rightarrow> u32 \<Rightarrow> system_globals \<Rightarrow> bool" where
  "sbi_system_reset_supported reset_type reset_reason s \<longleftrightarrow> sbi_system_reset_get_device reset_type reset_reason s \<noteq> None"

text \<open>
  \<open>sbi_system_reset\<close> on hart \<open>self\<close>; the results of sending and of stopping are not looked at. \<open>None\<close> is a halt request that is never
  sent completely, or a hart without a domain, whose \<open>NULL\<close> the code would follow.
\<close>

definition sbi_system_reset ::
  "nat \<Rightarrow> u32 \<Rightarrow> u32 \<Rightarrow> system_globals \<Rightarrow> ipi_boot \<Rightarrow> (reset_outcome \<times> ipi_boot) option" where
  "sbi_system_reset self reset_type reset_reason s b =
    (let d = sbi_hartindex_to_domain (hsm_doms (ipi_hsm (ib b))) self
     in (case (sbi_ipi_send_halt self 0 (-1) b, d) of
       (Some (_, b), Some d) \<Rightarrow>
         let b = b\<lparr>ib := (ib b)\<lparr>ipi_hsm := snd (sbi_hsm_hart_stop self (ipi_hsm (ib b)))\<rparr>\<rparr>
         in Some (if system_reset_allowed (domains (hsm_doms (ipi_hsm (ib b))) d) then
               (case sbi_system_reset_get_device reset_type reset_reason s of
                 None \<Rightarrow> Exit
               | Some dev \<Rightarrow>
                   if system_reset dev reset_type reset_reason then Device_reset (reset_dev_id dev) reset_type reset_reason else Exit)
             else Exit, b)
     | _ \<Rightarrow> None))"

definition sbi_ecall_srst_handler ::
  "nat \<Rightarrow> ulong \<Rightarrow> ulong \<Rightarrow> ulong \<Rightarrow> system_globals \<Rightarrow> ipi_boot \<Rightarrow> (reset_outcome \<times> ipi_boot) option" where
  "sbi_ecall_srst_handler self funcid a0 a1 s b =
    (if funcid = 0 then
       if 0xffffffff \<le> a0 \<or> 0xffffffff \<le> a1 then Some (Reset_ret SBI_EINVAL, b)
       else if a0 \<noteq> SBI_SRST_RESET_TYPE_SHUTDOWN \<and> a0 \<noteq> SBI_SRST_RESET_TYPE_COLD_REBOOT \<and> a0 \<noteq> SBI_SRST_RESET_TYPE_WARM_REBOOT
       then Some (Reset_ret SBI_EINVAL, b)
       else if a1 \<noteq> SBI_SRST_RESET_REASON_NONE \<and> a1 \<noteq> SBI_SRST_RESET_REASON_SYSFAIL then Some (Reset_ret SBI_EINVAL, b)
       else if sbi_system_reset_supported (ucast a0) (ucast a1) s then sbi_system_reset self (ucast a0) (ucast a1) s b
       else Some (Reset_ret SBI_ENOTSUPP, b)
     else Some (Reset_ret SBI_ENOTSUPP, b))"

definition srst_available :: "system_globals \<Rightarrow> bool" where
  "srst_available s \<longleftrightarrow> (\<exists>type \<in> {0, 1, 2}. sbi_system_reset_supported type 0 s)"

subsection \<open>Suspend\<close>

definition sbi_system_suspend_get_device :: "system_globals \<Rightarrow> sbi_system_suspend_device option" where
  "sbi_system_suspend_get_device s = suspend_dev s"

definition sbi_system_suspend_set_device :: "sbi_system_suspend_device option \<Rightarrow> system_globals \<Rightarrow> system_globals" where
  "sbi_system_suspend_set_device dev s = (if dev = None \<or> suspend_dev s \<noteq> None then s else s\<lparr>suspend_dev := dev\<rparr>)"

text \<open>The test device waits five seconds and then for an interrupt.\<close>

definition sbi_system_suspend_test_check :: "u32 \<Rightarrow> int" where
  "sbi_system_suspend_test_check sleep_type = (if sleep_type = SBI_SUSP_SLEEP_TYPE_SUSPEND then 0 else SBI_EINVAL)"

definition sbi_system_suspend_test_suspend :: "u32 \<Rightarrow> ulong \<Rightarrow> int" where
  "sbi_system_suspend_test_suspend sleep_type mmode_resume_addr =
    (if sleep_type \<noteq> SBI_SUSP_SLEEP_TYPE_SUSPEND then SBI_EINVAL else SBI_OK)"

definition sbi_system_suspend_test :: sbi_system_suspend_device where
  "sbi_system_suspend_test =
    \<lparr>system_suspend_check = Some sbi_system_suspend_test_check, system_suspend = Some sbi_system_suspend_test_suspend\<rparr>"

definition sbi_system_suspend_test_enable :: "system_globals \<Rightarrow> system_globals" where
  "sbi_system_suspend_test_enable s = sbi_system_suspend_set_device (Some sbi_system_suspend_test) s"

definition sbi_system_suspend_supported :: "u32 \<Rightarrow> system_globals \<Rightarrow> bool" where
  "sbi_system_suspend_supported sleep_type s =
    (case suspend_dev s of None \<Rightarrow> False | Some dev \<Rightarrow> (case system_suspend_check dev of None \<Rightarrow> False | Some chk \<Rightarrow> chk sleep_type = 0))"

text \<open>The loop over the harts of the domain.\<close>

fun others_stopped :: "hsm_globals \<Rightarrow> nat \<Rightarrow> nat list \<Rightarrow> bool" where
  "others_stopped g self [] = True"
| "others_stopped g self (i # is) =
    (if i = self then others_stopped g self is
     else if hsm_hart_get_state g i \<noteq> SBI_HSM_STATE_STOPPED then False
     else others_stopped g self is)"

text \<open>The part of \<open>sbi_system_suspend\<close> after its checks, in the state \<open>SUSPENDED\<close>.\<close>

definition system_suspend_run ::
  "bool \<Rightarrow> (u32 \<Rightarrow> ulong \<Rightarrow> int) \<Rightarrow> nat \<Rightarrow> ulong \<Rightarrow> u32 \<Rightarrow> ulong \<Rightarrow> ulong \<Rightarrow> hsm_globals \<Rightarrow> outcome \<times> hsm_globals" where
  "system_suspend_run priv_1_12 susp self prev_mode sleep_type resume_addr opaque g =
    (let g = upd_scratch self (\<lambda>s. s\<lparr>next_mode := prev_mode, next_addr := resume_addr, next_arg1 := opaque\<rparr>) g;
         g = hsm_suspend_non_ret_save priv_1_12 self g;
         ret = susp sleep_type (warmboot_addr (hsm_scratch g self))
     in if ret \<noteq> SBI_OK then
          (case sbi_hsm_hart_change_state self SBI_HSM_STATE_SUSPENDED SBI_HSM_STATE_STARTED g of (ok, g) \<Rightarrow>
            (if ok then Ret ret else Hang, g))
        else (Jump_warmboot (warmboot_addr (hsm_scratch g self)), g))"

text \<open>\<open>mst\<close> is the \<open>mstatus\<close> CSR of the hart, from which the mode of the caller is taken.\<close>

definition sbi_system_suspend ::
  "bool \<Rightarrow> nat \<Rightarrow> ulong \<Rightarrow> u32 \<Rightarrow> ulong \<Rightarrow> ulong \<Rightarrow> system_globals \<Rightarrow> hsm_globals \<Rightarrow> outcome \<times> hsm_globals" where
  "sbi_system_suspend priv_1_12 self mst sleep_type resume_addr opaque s g =
    (case sbi_hartindex_to_domain (hsm_doms g) self of
      None \<Rightarrow> (Ret SBI_EFAIL, g)
    | Some d \<Rightarrow>
        let dom = domains (hsm_doms g) d; prev_mode = sbi_mstatus_prev_mode mst
        in if \<not> system_suspend_allowed dom then (Ret SBI_EFAIL, g)
           else (case suspend_dev s of
             None \<Rightarrow> (Ret SBI_EFAIL, g)
           | Some dev \<Rightarrow>
               (case (system_suspend dev, system_suspend_check dev) of
                 (Some susp, Some chk) \<Rightarrow>
                   let ret = chk sleep_type
                   in if ret \<noteq> SBI_OK then (Ret ret, g)
                      else if prev_mode \<noteq> PRV_S \<and> prev_mode \<noteq> PRV_U then (Ret SBI_EFAIL, g)
                      else if \<not> others_stopped g self (sbi_hartmask_for_each_hartindex (assigned_harts dom)) then (Ret SBI_EDENIED, g)
                      else if \<not> sbi_domain_check_addr (Some dom) resume_addr prev_mode SBI_DOMAIN_EXECUTE then (Ret SBI_EINVALID_ADDR, g)
                      else (case sbi_hsm_hart_change_state self SBI_HSM_STATE_STARTED SBI_HSM_STATE_SUSPENDED g of (ok, g) \<Rightarrow>
                        if \<not> ok then (Ret SBI_EFAIL, g)
                        else system_suspend_run priv_1_12 susp self prev_mode sleep_type resume_addr opaque g)
               | _ \<Rightarrow> (Ret SBI_EFAIL, g))))"

text \<open>The SBI call: the outcome, and the value for \<open>a1\<close> where the call returns one.\<close>

definition sbi_ecall_susp_handler ::
  "bool \<Rightarrow> nat \<Rightarrow> ulong \<Rightarrow> ulong \<Rightarrow> ulong \<Rightarrow> ulong \<Rightarrow> ulong \<Rightarrow> system_globals \<Rightarrow> hsm_globals \<Rightarrow> (outcome \<times> int option) \<times> hsm_globals" where
  "sbi_ecall_susp_handler priv_1_12 self mst funcid a0 a1 a2 s g =
    (if funcid = 0 then
       (case sbi_system_suspend priv_1_12 self mst (ucast a0) a1 a2 s g of
         (Ret ret, g) \<Rightarrow> (if ret \<ge> 0 then (Ret 0, Some ret) else (Ret ret, None), g)
       | (out, g) \<Rightarrow> ((out, None), g))
     else ((Ret SBI_ENOTSUPP, None), g))"

definition susp_available :: "system_globals \<Rightarrow> bool" where
  "susp_available s \<longleftrightarrow> sbi_system_suspend_supported SBI_SUSP_SLEEP_TYPE_SUSPEND s"

subsection \<open>The choice of the reset device\<close>

definition reset_status :: "u32 \<Rightarrow> u32 \<Rightarrow> sbi_system_reset_device \<Rightarrow> int" where
  "reset_status t r dev = (case system_reset_check dev of None \<Rightarrow> 0 | Some check \<Rightarrow> check t r)"

lemma reset_candidate_eq:
  "0 \<le> snd best \<Longrightarrow> reset_candidate t r dev best = (if reset_status t r dev > snd best then (Some dev, reset_status t r dev) else best)"
  by (auto simp: reset_candidate_def reset_status_def Let_def split: option.split)

lemma reset_fold:
  assumes "0 \<le> p"
  shows "fst (fold (reset_candidate t r) ds (best, p)) =
    (if \<exists>d \<in> set ds. reset_status t r d > p
     then Some (hd (filter (\<lambda>d. \<forall>e \<in> set ds. reset_status t r e \<le> reset_status t r d) ds)) else best)"
  using assms
proof (induction ds arbitrary: best p)
  case (Cons d ds)
  let ?st = "reset_status t r"
  let ?max = "\<lambda>es x. \<forall>e \<in> set es. ?st e \<le> ?st x"
  show ?case
  proof (cases "?st d > p")
    case True
    then have step: "fst (fold (reset_candidate t r) (d # ds) (best, p)) = fst (fold (reset_candidate t r) ds (Some d, ?st d))"
      using Cons.prems by (simp add: reset_candidate_eq)
    show ?thesis
    proof (cases "\<exists>e \<in> set ds. ?st e > ?st d")
      case more: True
      then have "filter (?max (d # ds)) (d # ds) = filter (?max ds) ds"
        by (auto intro!: filter_cong)
      then show ?thesis using Cons.IH [of "?st d" "Some d"] True more Cons.prems step by auto
    next
      case False
      then have "?max (d # ds) d" by auto
      then show ?thesis using Cons.IH [of "?st d" "Some d"] True False Cons.prems step by auto
    qed
  next
    case False
    then have "filter (?max (d # ds)) (d # ds) = filter (?max ds) ds" if "\<exists>e \<in> set ds. ?st e > p"
      using that by (auto intro!: filter_cong)
    then show ?thesis using Cons.IH [of p best] False Cons.prems by (auto simp: reset_candidate_eq)
  qed
qed simp

lemma reset_device_choice:
  "sbi_system_reset_get_device t r s =
    (if \<exists>d \<in> set (reset_devices_list s). reset_status t r d > 0
     then Some (hd (filter (\<lambda>d. \<forall>e \<in> set (reset_devices_list s). reset_status t r e \<le> reset_status t r d) (reset_devices_list s)))
     else None)"
  unfolding sbi_system_reset_get_device_def by (rule reset_fold) simp

subsection \<open>Reset\<close>

lemma hart_stop_hsm:
  "hsm_doms (snd (sbi_hsm_hart_stop i g)) = hsm_doms g"
  "sbi_hartindex_to_domain (hsm_doms g) i \<noteq> None \<Longrightarrow> state_of g i = SBI_HSM_STATE_STARTED \<Longrightarrow>
    state_of (snd (sbi_hsm_hart_stop i g)) i = SBI_HSM_STATE_STOP_PENDING"
  "j \<noteq> i \<Longrightarrow> state_of (snd (sbi_hsm_hart_stop i g)) j = state_of g j"
  by (auto simp: sbi_hsm_hart_stop_def change_state_eq)

text \<open>C28: A system reset first sends the halt event to every other interruptible hart of the domain and takes the calling hart out of
  service; then, if the domain may reset the system, the first registered device of the highest positive priority for the reset type and
  reason does it. Where the domain may not, no device supports the reset or the device comes back, only the calling hart exits.\<close>

theorem system_reset_outcome:
  assumes "ipi_ready b" and "sbi_hartindex_to_domain (hsm_doms (ipi_hsm (ib b))) self = Some d"
    and "state_of (ipi_hsm (ib b)) self = SBI_HSM_STATE_STARTED"
    and "\<forall>i \<in> targets (ib b) self 0 (-1). sbi_hartindex_to_scratch (ipi_tab (ib b)) (of_nat i) \<noteq> 0"
    and "\<forall>i \<in> targets (ib b) self 0 (-1). self_scratch (ib b) self i \<longrightarrow> i = self"
  shows "\<exists>out b'. sbi_system_reset self t r s b = Some (out, b') \<and>
    (\<forall>i. sbi_domain_is_assigned_hart (hsm_doms (ipi_hsm (ib b))) (Some d) i \<and>
      interruptible_state (hsm_hart_get_state (ipi_hsm (ib b)) i) \<and> i \<noteq> self \<longrightarrow> bit (ipi_type (ib b') i) (ipi_halt_event b)) \<and>
    state_of (ipi_hsm (ib b')) self = SBI_HSM_STATE_STOP_PENDING \<and>
    out = (let ds = reset_devices_list s; best = filter (\<lambda>d. \<forall>e \<in> set ds. reset_status t r e \<le> reset_status t r d) ds
      in if system_reset_allowed (domains (hsm_doms (ipi_hsm (ib b))) d) \<and> (\<exists>d \<in> set ds. reset_status t r d > 0) \<and>
          system_reset (hd best) t r then Device_reset (reset_dev_id (hd best)) t r else Exit)"
proof -
  let ?g = "ib b" and ?T = "targets (ib b) self 0 (-1)"
  obtain ops where ops: "ipi_ops_array ?g (ipi_halt_event b) = Some ops" "reaching ?g ops" "ev_sync ops = None"
    using ready_reaching(1) [OF assms(1)] by blast
  have ev: "ipi_halt_event b < 64" "dev_ipi_send ?g" using assms(1) by (simp_all add: ipi_ready_def)
  obtain cl pend where s: "sbi_ipi_send_many self 0 (-1) (ipi_halt_event b) () ?g =
      Some (0, ?g\<lparr>client := cl, ipi_pending := pend, ipi_type := sent ?g self (ipi_halt_event b) ?T\<rparr>)" (is "_ = Some (0, ?g1)")
    using send_many_simple [OF ev(1) ops ev(2) assms(4), of "()"] by blast
  have T: "i \<in> ?T" if "sbi_domain_is_assigned_hart (hsm_doms (ipi_hsm ?g)) (Some d) i"
      "interruptible_state (hsm_hart_get_state (ipi_hsm ?g) i)" for i
    using that assms(2) hartset_bound [of "assigned_harts (domains (hsm_doms (ipi_hsm ?g)) d)"]
    by (auto simp: targets_def interruptible_def requested_def sbi_domain_is_assigned_hart_def hartset_test)
  have "bit (sent ?g self (ipi_halt_event b) ?T i) (ipi_halt_event b)" if "i \<in> ?T" "i \<noteq> self" for i
    using that assms(5) ev(1) by (auto simp: sent_def bit_or_iff BIT_def bit_simps)
  moreover have "sbi_system_reset self t r s b = Some
      (let ds = reset_devices_list s; best = filter (\<lambda>d. \<forall>e \<in> set ds. reset_status t r e \<le> reset_status t r d) ds
       in if system_reset_allowed (domains (hsm_doms (ipi_hsm ?g)) d) \<and> (\<exists>d \<in> set ds. reset_status t r d > 0) \<and>
          system_reset (hd best) t r then Device_reset (reset_dev_id (hd best)) t r else Exit,
       b\<lparr>ib := ?g1\<lparr>ipi_hsm := snd (sbi_hsm_hart_stop self (ipi_hsm ?g))\<rparr>\<rparr>)"
    using assms(2) by (auto simp: sbi_system_reset_def sbi_ipi_send_halt_def s hart_stop_hsm(1) reset_device_choice Let_def)
  ultimately show ?thesis using T hart_stop_hsm(2) [of "ipi_hsm ?g" self] assms(2,3) by auto
qed

definition ex_reset_device :: sbi_system_reset_device where
  "ex_reset_device = \<lparr>reset_dev_id = 7, system_reset_check = Some (\<lambda>t r. if t = 0 then 10 else 0), system_reset = (\<lambda>t r. True)\<rparr>"

definition ex_system :: system_globals where
  "ex_system = \<lparr>reset_devices_list = [ex_reset_device], suspend_dev = Some sbi_system_suspend_test\<rparr>"

theorem system_reset_outcome_witness:
  "\<exists>b b'. sbi_ipi_init (0, Some (True, True)) True 1 ex_ipi_cold = (0, b) \<and>
    sbi_system_reset 1 0 0 ex_system b = Some (Device_reset 7 0 0, b') \<and> bit (ipi_type (ib b') 0) (ipi_halt_event b)"
proof -
  obtain b tab where b: "ex_booted b tab" using ex_booted by blast
  note T = ex_booted_targets [OF b]
  let ?h = "ipi_hsm (ib b)"
  have h: "state_of ?h 1 = SBI_HSM_STATE_STARTED" "system_reset_allowed (domains (hsm_doms ?h) 0)" "ipi_ready b"
    using b by (simp_all add: ex_booted_def ex_hsm_def ex_domain_def)
  have i: "sbi_domain_is_assigned_hart (hsm_doms ?h) (Some 0) 0 \<and> interruptible_state (hsm_hart_get_state ?h 0)"
    using T(1,3) by (auto simp: targets_def interruptible_def)
  have "\<exists>out b'. sbi_system_reset 1 0 0 ex_system b = Some (out, b') \<and>
    (\<forall>i. sbi_domain_is_assigned_hart (hsm_doms ?h) (Some 0) i \<and> interruptible_state (hsm_hart_get_state ?h i) \<and> i \<noteq> 1 \<longrightarrow>
      bit (ipi_type (ib b') i) (ipi_halt_event b)) \<and>
    state_of (ipi_hsm (ib b')) 1 = SBI_HSM_STATE_STOP_PENDING \<and>
    out = (let ds = reset_devices_list ex_system; best = filter (\<lambda>d. \<forall>e \<in> set ds. reset_status 0 0 e \<le> reset_status 0 0 d) ds
      in if system_reset_allowed (domains (hsm_doms ?h) 0) \<and> (\<exists>d \<in> set ds. reset_status 0 0 d > 0) \<and>
          system_reset (hd best) 0 0 then Device_reset (reset_dev_id (hd best)) 0 0 else Exit)"
    by (rule system_reset_outcome [OF h(3) T(1) h(1)]) (use T in simp_all)
  then obtain out b' where o': "sbi_system_reset 1 0 0 ex_system b = Some (out, b')" "bit (ipi_type (ib b') 0) (ipi_halt_event b)"
      "out = Device_reset 7 0 0"
    using i h(2) by (auto simp: ex_system_def ex_reset_device_def reset_status_def)
  then show ?thesis using b unfolding ex_booted_def by blast
qed

subsection \<open>Suspend\<close>

lemma others_stopped_iff:
  "others_stopped g self is \<longleftrightarrow> (\<forall>i \<in> set is. i \<noteq> self \<longrightarrow> hsm_hart_get_state g i = SBI_HSM_STATE_STOPPED)"
  by (induction "is") auto

text \<open>The conditions under which a hart may suspend the system.\<close>

definition may_suspend :: "nat \<Rightarrow> ulong \<Rightarrow> ulong \<Rightarrow> hsm_globals \<Rightarrow> bool" where
  "may_suspend self mode resume_addr g \<longleftrightarrow>
    (\<exists>d. sbi_hartindex_to_domain (hsm_doms g) self = Some d \<and> system_suspend_allowed (domains (hsm_doms g) d) \<and>
      (mode = PRV_S \<or> mode = PRV_U) \<and> state_of g self = SBI_HSM_STATE_STARTED \<and>
      (\<forall>i. sbi_domain_is_assigned_hart (hsm_doms g) (Some d) i \<and> i \<noteq> self \<longrightarrow> hsm_hart_get_state g i = SBI_HSM_STATE_STOPPED) \<and>
      sbi_domain_check_addr (Some (domains (hsm_doms g) d)) resume_addr mode SBI_DOMAIN_EXECUTE)"

lemma system_suspend_cases:
  "(\<exists>e. e \<noteq> 0 \<and> sbi_system_suspend p self mst t a x s g = (Ret e, g)) \<or>
   (\<exists>susp. may_suspend self (sbi_mstatus_prev_mode mst) a g \<and> sbi_system_suspend p self mst t a x s g =
     system_suspend_run p susp self (sbi_mstatus_prev_mode mst) t a x (upd_data self (\<lambda>h. h\<lparr>hsm_state := SBI_HSM_STATE_SUSPENDED\<rparr>) g))"
proof (cases "sbi_hartindex_to_domain (hsm_doms g) self")
  case (Some d)
  let ?dom = "domains (hsm_doms g) d" and ?m = "sbi_mstatus_prev_mode mst"
  have os: "others_stopped g self (sbi_hartmask_for_each_hartindex (assigned_harts ?dom)) \<longleftrightarrow>
      (\<forall>i. sbi_domain_is_assigned_hart (hsm_doms g) (Some d) i \<and> i \<noteq> self \<longrightarrow> hsm_hart_get_state g i = SBI_HSM_STATE_STOPPED)"
    by (auto simp: others_stopped_iff sbi_domain_is_assigned_hart_def hartset_test)
  show ?thesis
  proof (cases "suspend_dev s")
    case None
    then show ?thesis using Some by (simp add: sbi_system_suspend_def Let_def)
  next
    case dev: (Some dev)
    show ?thesis
      unfolding sbi_system_suspend_def Some dev option.case Let_def os change_state_eq may_suspend_def
      by (auto split: option.split)
  qed
qed (simp add: sbi_system_suspend_def)

text \<open>C27: \<open>sbi_system_suspend\<close> never hangs the hart. It returns an error and leaves the state and the CSRs of every hart as they were; or
  it enters the warm boot with the hart suspended, and then the domain may suspend the system, every other hart of the domain is stopped,
  and the domain may execute the resume address in the mode of the caller. The resume then enters that address, in that mode and with the
  given argument, with the CSRs of before, whatever the boot left in them.\<close>

theorem system_suspend_outcome:
  "(\<exists>e g'. sbi_system_suspend p self mst t a x s g = (Ret e, g') \<and> e \<noteq> 0 \<and> (\<forall>j. state_of g' j = state_of g j) \<and> hsm_csrs g' = hsm_csrs g) \<or>
   (\<exists>g'. sbi_system_suspend p self mst t a x s g = (Jump_warmboot (warmboot_addr (hsm_scratch g self)), g') \<and>
     may_suspend self (sbi_mstatus_prev_mode mst) a g \<and>
     (\<forall>j. state_of g' j = (if j = self then SBI_HSM_STATE_SUSPENDED else state_of g j)) \<and>
     (\<forall>boot hartid. \<exists>g2 g3. sbi_hsm_hart_resume_start self (upd_csrs self boot g') = (Ret 0, g2) \<and>
       sbi_hsm_hart_resume_finish p self hartid g2 = (Switch_mode hartid x a (sbi_mstatus_prev_mode mst), g3) \<and>
       state_of g3 self = SBI_HSM_STATE_STARTED \<and> csr_mie (hsm_csrs g3 self) = csr_mie (hsm_csrs g self) \<and>
       csr_medeleg (hsm_csrs g3 self) = csr_medeleg (hsm_csrs g self) \<and>
       (p \<longrightarrow> csr_menvcfg (hsm_csrs g3 self) = csr_menvcfg (hsm_csrs g self))))"
  (is "?failed \<or> ?suspended")
proof -
  let ?m = "sbi_mstatus_prev_mode mst"
  let ?g1 = "upd_data self (\<lambda>h. h\<lparr>hsm_state := SBI_HSM_STATE_SUSPENDED\<rparr>) g"
  let ?g2 = "hsm_suspend_non_ret_save p self (upd_scratch self (\<lambda>s. s\<lparr>next_mode := ?m, next_addr := a, next_arg1 := x\<rparr>) ?g1)"
  have f: "hsm_csrs ?g2 = hsm_csrs g" "state_of ?g2 j = (if j = self then SBI_HSM_STATE_SUSPENDED else state_of g j)" for j
    by (simp_all add: hsm_suspend_non_ret_save_def)
  consider (refused) e where "e \<noteq> 0" "sbi_system_suspend p self mst t a x s g = (Ret e, g)"
    | (run) susp where "may_suspend self ?m a g" "sbi_system_suspend p self mst t a x s g = system_suspend_run p susp self ?m t a x ?g1"
    using system_suspend_cases [of p self mst t a x s g] by blast
  then show ?thesis
  proof cases
    case (run susp)
    let ?ret = "susp t (warmboot_addr (hsm_scratch g self))"
    have st: "state_of g self = SBI_HSM_STATE_STARTED" using run(1) by (auto simp: may_suspend_def)
    have eq: "sbi_system_suspend p self mst t a x s g =
        (if ?ret \<noteq> SBI_OK then (Ret ?ret, upd_data self (\<lambda>h. h\<lparr>hsm_state := SBI_HSM_STATE_STARTED\<rparr>) ?g2)
         else (Jump_warmboot (warmboot_addr (hsm_scratch g self)), ?g2))"
      unfolding run(2) system_suspend_run_def Let_def change_state_eq by (simp add: hsm_suspend_non_ret_save_def)
    show ?thesis
    proof (cases "?ret = SBI_OK")
      case True
      have ?suspended
        unfolding eq using run(1) f True by (simp add: hsm_op_defs)
      then show ?thesis ..
    next
      case False
      then have ?failed using eq f st by auto
      then show ?thesis ..
    qed
  qed auto
qed

theorem system_suspend_outcome_witness:
  "\<exists>g1 g2 g3. sbi_system_suspend True 0 0x800 0 0x80300000 7 ex_system (ex_hsm 0) = (Jump_warmboot 0x80000400, g1) \<and>
    state_of g1 0 = SBI_HSM_STATE_SUSPENDED \<and>
    sbi_hsm_hart_resume_start 0 (upd_csrs 0 (\<lambda>c. c\<lparr>csr_mie := 0\<rparr>) g1) = (Ret 0, g2) \<and>
    sbi_hsm_hart_resume_finish True 0 0 g2 = (Switch_mode 0 7 0x80300000 1, g3) \<and> csr_mie (hsm_csrs g3 0) = 0x222"
proof -
  have d: "sbi_hartindex_to_domain (hsm_doms (ex_hsm 0)) 0 = Some 0"
    by (simp add: ex_hsm_def ex_domains_def sbi_hartindex_to_domain_def sbi_hartindex_to_scratch_def ex_scratch_def)
  have c: "sbi_domain_check_addr (Some (domains (hsm_doms (ex_hsm 0)) 0)) 0x80300000 1 4"
    using ex_hsm_accepted [of 0] by (simp add: start_accepted_def)
  have a: "sbi_hartmask_for_each_hartindex (assigned_harts (domains (hsm_doms (ex_hsm 0)) 0)) = [0]"
    "system_suspend_allowed (domains (hsm_doms (ex_hsm 0)) 0)" "csr_mie (hsm_csrs (ex_hsm 0) 0) = 0x222"
    "warmboot_addr (hsm_scratch (ex_hsm 0) 0) = 0x80000400" by (simp_all add: ex_hsm_def ex_domain_def)
  have m: "sbi_mstatus_prev_mode 0x800 = 1" by (simp add: sbi_mstatus_prev_mode_def MSTATUS_MPP_def)
  have "fst (sbi_system_suspend True 0 0x800 0 0x80300000 7 ex_system (ex_hsm 0)) = Jump_warmboot 0x80000400"
    using c by (simp add: sbi_system_suspend_def d a m ex_system_def sbi_system_suspend_test_def sbi_system_suspend_test_check_def
        sbi_system_suspend_test_suspend_def change_state_eq ex_hsm_fields system_suspend_run_def hsm_suspend_non_ret_save_def Let_def)
  then show ?thesis
    using system_suspend_outcome [of True 0 "0x800" 0 "0x80300000" 7 ex_system "ex_hsm 0"] a(3,4) unfolding m by auto blast
qed

end
