(* ===== verification/Rv32ima.thy ===== *)
theory Rv32ima
  imports Sbi_Prelude "HOL-Library.Signed_Division"
begin

text \<open>
  The RISC-V emulator of \<open>course_2/mini-rv32ima/mini-rv32ima.h\<close>: the state and the single step
  \<open>rv32ima_step\<close>. Registers and CSRs are 32-bit words and wrap around as the source's
  \<open>uint32_t\<close> does; memory is a list of bytes read and written little-endian. Each opcode of the
  big \<open>switch\<close> is a definition of its own; they share the local variables of the source
  (\<open>pc\<close>, \<open>rdid\<close>, \<open>rval\<close>, \<open>trap\<close>) as a record.
\<close>

subsection \<open>State\<close>

record CPUState =
  regs :: "nat \<Rightarrow> u32"
  PC :: u32
  MSTATUS :: u32
  CYCLEL :: u32
  CYCLEH :: u32
  TIMERL :: u32
  TIMERH :: u32
  TIMERMATCHL :: u32
  TIMERMATCHH :: u32
  MSCRATCH :: u32
  MTVEC :: u32
  MIE :: u32
  MIP :: u32
  MEPC :: u32
  MTVAL :: u32
  MCAUSE :: u32
  EXTRAFLAGS :: u32
  mem :: "u8 list"
  mem_offset :: u32
  mem_size :: u32

text \<open>The locals of \<open>rv32ima_step\<close> while an instruction runs.\<close>

record locals =
  lpc :: u32
  rdid :: u32
  rval :: u32
  trap :: u32

text \<open>
  An instruction goes on to the write-back, makes \<open>rv32ima_step\<close> return, or touches memory outside
  the array (undefined behaviour in C).
\<close>

datatype flow = Go CPUState locals | Return u32 CPUState | Undefined

subsection \<open>Memory\<close>

definition in_mem :: "CPUState \<Rightarrow> u32 \<Rightarrow> nat \<Rightarrow> bool" where
  "in_mem s a n \<longleftrightarrow> unat a + n \<le> length (mem s)"

definition MEM8 :: "CPUState \<Rightarrow> u32 \<Rightarrow> u8 option" where
  "MEM8 s a = (if in_mem s a 1 then Some (mem s ! unat a) else None)"

definition MEM16 :: "CPUState \<Rightarrow> u32 \<Rightarrow> u16 option" where
  "MEM16 s a =
    (if in_mem s a 2 then Some (ucast (mem s ! unat a) OR push_bit 8 (ucast (mem s ! (unat a + 1)))) else None)"

definition MEM32 :: "CPUState \<Rightarrow> u32 \<Rightarrow> u32 option" where
  "MEM32 s a =
    (if in_mem s a 4
     then Some (ucast (mem s ! unat a) OR push_bit 8 (ucast (mem s ! (unat a + 1)))
       OR push_bit 16 (ucast (mem s ! (unat a + 2))) OR push_bit 24 (ucast (mem s ! (unat a + 3))))
     else None)"

definition STORE8 :: "CPUState \<Rightarrow> u32 \<Rightarrow> u32 \<Rightarrow> CPUState option" where
  "STORE8 s a v = (if in_mem s a 1 then Some (s\<lparr>mem := (mem s)[unat a := ucast v]\<rparr>) else None)"

definition STORE16 :: "CPUState \<Rightarrow> u32 \<Rightarrow> u32 \<Rightarrow> CPUState option" where
  "STORE16 s a v =
    (if in_mem s a 2
     then Some (s\<lparr>mem := (mem s)[unat a := ucast v, unat a + 1 := ucast (drop_bit 8 v)]\<rparr>) else None)"

definition STORE32 :: "CPUState \<Rightarrow> u32 \<Rightarrow> u32 \<Rightarrow> CPUState option" where
  "STORE32 s a v =
    (if in_mem s a 4
     then Some (s\<lparr>mem := (mem s)[unat a := ucast v, unat a + 1 := ucast (drop_bit 8 v),
       unat a + 2 := ucast (drop_bit 16 v), unat a + 3 := ucast (drop_bit 24 v)]\<rparr>)
     else None)"

text \<open>A load into \<open>rval\<close> and a store, within an instruction.\<close>

definition loaded_to :: "CPUState \<Rightarrow> locals \<Rightarrow> u32 option \<Rightarrow> flow" where
  "loaded_to s l v = (case v of None \<Rightarrow> Undefined | Some x \<Rightarrow> Go s (l\<lparr>rval := x\<rparr>))"

definition stored :: "locals \<Rightarrow> CPUState option \<Rightarrow> flow" where
  "stored l r = (case r of None \<Rightarrow> Undefined | Some s \<Rightarrow> Go s l)"

subsection \<open>Decoding\<close>

definition REG :: "CPUState \<Rightarrow> u32 \<Rightarrow> u32" where
  "REG s r = regs s (unat r)"

definition rs1_of :: "u32 \<Rightarrow> u32" where "rs1_of ir = drop_bit 15 ir AND 0x1f"
definition rs2_of :: "u32 \<Rightarrow> u32" where "rs2_of ir = drop_bit 20 ir AND 0x1f"
definition rd_of :: "u32 \<Rightarrow> u32" where "rd_of ir = drop_bit 7 ir AND 0x1f"
definition funct3 :: "u32 \<Rightarrow> u32" where "funct3 ir = drop_bit 12 ir AND 0x7"

definition imm_i :: "u32 \<Rightarrow> u32" where
  "imm_i ir = (let imm = drop_bit 20 ir in imm OR (if imm AND 0x800 \<noteq> 0 then 0xfffff000 else 0))"

definition imm_j :: "u32 \<Rightarrow> u32" where
  "imm_j ir =
    (let reladdy = drop_bit 11 (ir AND 0x80000000) OR drop_bit 20 (ir AND 0x7fe00000)
           OR drop_bit 9 (ir AND 0x00100000) OR (ir AND 0x000ff000)
     in if reladdy AND 0x00100000 \<noteq> 0 then reladdy OR 0xffe00000 else reladdy)"

definition imm_b :: "u32 \<Rightarrow> u32" where
  "imm_b ir =
    (let immm4 = drop_bit 7 (ir AND 0xf00) OR drop_bit 20 (ir AND 0x7e000000)
           OR push_bit 4 (ir AND 0x80) OR push_bit 12 (drop_bit 31 ir)
     in if immm4 AND 0x1000 \<noteq> 0 then immm4 OR 0xffffe000 else immm4)"

definition imm_s :: "u32 \<Rightarrow> u32" where
  "imm_s ir =
    (let addy = (drop_bit 7 ir AND 0x1f) OR drop_bit 20 (ir AND 0xfe000000)
     in if addy AND 0x800 \<noteq> 0 then addy OR 0xfffff000 else addy)"

subsection \<open>Instructions\<close>

definition op_jal :: "u32 \<Rightarrow> CPUState \<Rightarrow> locals \<Rightarrow> flow" where
  "op_jal ir s l = Go s (l\<lparr>rval := lpc l + 4, lpc := lpc l + imm_j ir - 4\<rparr>)"

definition op_jalr :: "u32 \<Rightarrow> CPUState \<Rightarrow> locals \<Rightarrow> flow" where
  "op_jalr ir s l = Go s (l\<lparr>rval := lpc l + 4, lpc := ((REG s (rs1_of ir) + imm_i ir) AND NOT 1) - 4\<rparr>)"

definition branch_taken :: "u32 \<Rightarrow> u32 \<Rightarrow> u32 \<Rightarrow> bool option" where
  "branch_taken f rs1 rs2 =
    (if f = 0 then Some (rs1 = rs2)
     else if f = 1 then Some (rs1 \<noteq> rs2)
     else if f = 4 then Some (sint rs1 < sint rs2)
     else if f = 5 then Some (sint rs1 \<ge> sint rs2)
     else if f = 6 then Some (rs1 < rs2)
     else if f = 7 then Some (rs1 \<ge> rs2)
     else None)"

definition op_branch :: "u32 \<Rightarrow> CPUState \<Rightarrow> locals \<Rightarrow> flow" where
  "op_branch ir s l =
    (let target = lpc l + imm_b ir - 4; l = l\<lparr>rdid := 0\<rparr>
     in case branch_taken (funct3 ir) (REG s (rs1_of ir)) (REG s (rs2_of ir)) of
          None \<Rightarrow> Go s (l\<lparr>trap := 2 + 1\<rparr>)
        | Some taken \<Rightarrow> Go s (if taken then l\<lparr>lpc := target\<rparr> else l))"

definition op_load :: "u32 \<Rightarrow> CPUState \<Rightarrow> locals \<Rightarrow> flow" where
  "op_load ir s l =
    (let rsval = REG s (rs1_of ir) + imm_i ir - mem_offset s
     in if rsval \<ge> mem_size s - 3 then
          let rsval = rsval + mem_offset s
          in if rsval \<ge> 0x10000000 \<and> rsval < 0x12000000 then
               if rsval = 0x1100bffc then Go s (l\<lparr>rval := TIMERH s\<rparr>)
               else if rsval = 0x1100bff8 then Go s (l\<lparr>rval := TIMERL s\<rparr>)
               else Go s l
             else Go s (l\<lparr>trap := 5 + 1, rval := rsval\<rparr>)
        else
          let f = funct3 ir
          in if f = 0 then loaded_to s l (map_option scast (MEM8 s rsval))
             else if f = 1 then loaded_to s l (map_option scast (MEM16 s rsval))
             else if f = 2 then loaded_to s l (MEM32 s rsval)
             else if f = 4 then loaded_to s l (map_option ucast (MEM8 s rsval))
             else if f = 5 then loaded_to s l (map_option ucast (MEM16 s rsval))
             else Go s (l\<lparr>trap := 2 + 1\<rparr>))"

definition op_store :: "u32 \<Rightarrow> CPUState \<Rightarrow> locals \<Rightarrow> flow" where
  "op_store ir s l =
    (let rs2 = REG s (rs2_of ir);
         addy = imm_s ir + (REG s (rs1_of ir) - mem_offset s);
         l = l\<lparr>rdid := 0\<rparr>
     in if addy \<ge> mem_size s - 3 then
          let addy = addy + mem_offset s
          in if addy \<ge> 0x10000000 \<and> addy < 0x12000000 then
               if addy = 0x11004004 then Go (s\<lparr>TIMERMATCHH := rs2\<rparr>) l
               else if addy = 0x11004000 then Go (s\<lparr>TIMERMATCHL := rs2\<rparr>) l
               else if addy = 0x11100000 then Return rs2 (s\<lparr>PC := lpc l + 4\<rparr>)
               else Go s l
             else Go s (l\<lparr>trap := 7 + 1, rval := addy\<rparr>)
        else
          let f = funct3 ir
          in if f = 0 then stored l (STORE8 s addy rs2)
             else if f = 1 then stored l (STORE16 s addy rs2)
             else if f = 2 then stored l (STORE32 s addy rs2)
             else Go s (l\<lparr>trap := 2 + 1\<rparr>))"

text \<open>RV32M. \<open>INT32_MIN\<close> is \<open>0x80000000\<close>; C's \<open>/\<close> and \<open>%\<close> truncate towards zero.\<close>

definition alu_m :: "u32 \<Rightarrow> u32 \<Rightarrow> u32 \<Rightarrow> u32" where
  "alu_m f rs1 rs2 =
    (if f = 0 then rs1 * rs2
     else if f = 1 then ucast (drop_bit 32 ((scast rs1 :: u64) * (scast rs2 :: u64)))
     else if f = 2 then ucast (drop_bit 32 ((scast rs1 :: u64) * (ucast rs2 :: u64)))
     else if f = 3 then ucast (drop_bit 32 ((ucast rs1 :: u64) * (ucast rs2 :: u64)))
     else if f = 4 then
       (if rs2 = 0 then -1
        else if rs1 = 0x80000000 \<and> rs2 = -1 then rs1
        else word_of_int (sint rs1 sdiv sint rs2))
     else if f = 5 then (if rs2 = 0 then 0xffffffff else rs1 div rs2)
     else if f = 6 then
       (if rs2 = 0 then rs1
        else if rs1 = 0x80000000 \<and> rs2 = -1 then 0
        else word_of_int (sint rs1 smod sint rs2))
     else (if rs2 = 0 then rs1 else rs1 mod rs2))"

definition alu_i :: "u32 \<Rightarrow> bool \<Rightarrow> bool \<Rightarrow> u32 \<Rightarrow> u32 \<Rightarrow> u32" where
  "alu_i f is_reg alt rs1 rs2 =
    (if f = 0 then (if is_reg \<and> alt then rs1 - rs2 else rs1 + rs2)
     else if f = 1 then push_bit (unat (rs2 AND 0x1f)) rs1
     else if f = 2 then (if sint rs1 < sint rs2 then 1 else 0)
     else if f = 3 then (if rs1 < rs2 then 1 else 0)
     else if f = 4 then rs1 XOR rs2
     else if f = 5 then (if alt then signed_drop_bit (unat (rs2 AND 0x1f)) rs1 else drop_bit (unat (rs2 AND 0x1f)) rs1)
     else if f = 6 then rs1 OR rs2
     else rs1 AND rs2)"

definition op_alu :: "u32 \<Rightarrow> CPUState \<Rightarrow> locals \<Rightarrow> flow" where
  "op_alu ir s l =
    (let imm = imm_i ir; rs1 = REG s (rs1_of ir); is_reg = (ir AND 0x20 \<noteq> 0);
         rs2 = (if is_reg then REG s (imm AND 0x1f) else imm)
     in Go s (l\<lparr>rval := if is_reg \<and> ir AND 0x02000000 \<noteq> 0 then alu_m (funct3 ir) rs1 rs2
                       else alu_i (funct3 ir) is_reg (ir AND 0x40000000 \<noteq> 0) rs1 rs2\<rparr>))"

definition csr_read :: "u32 \<Rightarrow> u32 \<Rightarrow> CPUState \<Rightarrow> u32 \<Rightarrow> u32" where
  "csr_read csrno cycle s rv =
    (if csrno = 0x340 then MSCRATCH s
     else if csrno = 0x305 then MTVEC s
     else if csrno = 0x304 then MIE s
     else if csrno = 0xC00 then cycle
     else if csrno = 0x344 then MIP s
     else if csrno = 0x341 then MEPC s
     else if csrno = 0x300 then MSTATUS s
     else if csrno = 0x342 then MCAUSE s
     else if csrno = 0x343 then MTVAL s
     else if csrno = 0xf11 then 0xff0ff0ff
     else if csrno = 0x301 then 0x40401101
     else rv)"

definition csr_write :: "u32 \<Rightarrow> u32 \<Rightarrow> CPUState \<Rightarrow> CPUState" where
  "csr_write csrno v s =
    (if csrno = 0x340 then s\<lparr>MSCRATCH := v\<rparr>
     else if csrno = 0x305 then s\<lparr>MTVEC := v\<rparr>
     else if csrno = 0x304 then s\<lparr>MIE := v\<rparr>
     else if csrno = 0x344 then s\<lparr>MIP := v\<rparr>
     else if csrno = 0x341 then s\<lparr>MEPC := v\<rparr>
     else if csrno = 0x300 then s\<lparr>MSTATUS := v\<rparr>
     else if csrno = 0x342 then s\<lparr>MCAUSE := v\<rparr>
     else if csrno = 0x343 then s\<lparr>MTVAL := v\<rparr>
     else s)"

definition op_mret :: "CPUState \<Rightarrow> locals \<Rightarrow> flow" where
  "op_mret s l =
    (let st = MSTATUS s; ex = EXTRAFLAGS s
     in Go (s\<lparr>MSTATUS := drop_bit 4 (st AND 0x80) OR push_bit 11 (ex AND 3) OR 0x80,
              EXTRAFLAGS := (ex AND NOT 3) OR (drop_bit 11 st AND 3)\<rparr>)
           (l\<lparr>lpc := MEPC s - 4\<rparr>))"

definition op_system :: "u32 \<Rightarrow> u32 \<Rightarrow> CPUState \<Rightarrow> locals \<Rightarrow> flow" where
  "op_system ir cycle s l =
    (let csrno = drop_bit 20 ir; microop = funct3 ir
     in if microop AND 3 \<noteq> 0 then
          let rs1imm = rs1_of ir; rs1 = REG s rs1imm; rv = csr_read csrno cycle s (rval l);
              writeval = (if microop = 1 then rs1
                          else if microop = 2 then rv OR rs1
                          else if microop = 3 then rv AND NOT rs1
                          else if microop = 5 then rs1imm
                          else if microop = 6 then rv OR rs1imm
                          else rv AND NOT rs1imm)
          in Go (csr_write csrno writeval s) (l\<lparr>rval := rv\<rparr>)
        else if microop = 0 then
          let l = l\<lparr>rdid := 0\<rparr>
          in if csrno = 0x105 then
               Return 1 (s\<lparr>MSTATUS := MSTATUS s OR 8, EXTRAFLAGS := EXTRAFLAGS s OR 4, PC := lpc l + 4\<rparr>)
             else if csrno AND 0xff = 0x02 then op_mret s l
             else if csrno = 0 then Go s (l\<lparr>trap := if EXTRAFLAGS s AND 3 \<noteq> 0 then 11 + 1 else 8 + 1\<rparr>)
             else if csrno = 1 then Go s (l\<lparr>trap := 3 + 1\<rparr>)
             else Go s (l\<lparr>trap := 2 + 1\<rparr>)
        else Go s (l\<lparr>trap := 2 + 1\<rparr>))"

text \<open>RV32A: the value written back to memory, if any.\<close>

definition amo_result :: "u32 \<Rightarrow> u32 \<Rightarrow> u32 \<Rightarrow> u32 option" where
  "amo_result irmid rv rs2 =
    (if irmid = 1 then Some rs2
     else if irmid = 0 then Some (rs2 + rv)
     else if irmid = 4 then Some (rs2 XOR rv)
     else if irmid = 12 then Some (rs2 AND rv)
     else if irmid = 8 then Some (rs2 OR rv)
     else if irmid = 16 then Some (if sint rs2 < sint rv then rs2 else rv)
     else if irmid = 20 then Some (if sint rs2 > sint rv then rs2 else rv)
     else if irmid = 24 then Some (if rs2 < rv then rs2 else rv)
     else if irmid = 28 then Some (if rs2 > rv then rs2 else rv)
     else None)"

definition op_amo :: "u32 \<Rightarrow> CPUState \<Rightarrow> locals \<Rightarrow> flow" where
  "op_amo ir s l =
    (let rs1 = REG s (rs1_of ir) - mem_offset s; rs2 = REG s (rs2_of ir); irmid = drop_bit 27 ir AND 0x1f
     in if rs1 \<ge> mem_size s - 3 then Go s (l\<lparr>trap := 7 + 1, rval := rs1 + mem_offset s\<rparr>)
        else (case MEM32 s rs1 of
          None \<Rightarrow> Undefined
        | Some rv \<Rightarrow>
            if irmid = 2 then
              Go (s\<lparr>EXTRAFLAGS := (EXTRAFLAGS s AND 0x07) OR push_bit 3 rs1\<rparr>) (l\<lparr>rval := rv\<rparr>)
            else if irmid = 3 then
              if drop_bit 3 (EXTRAFLAGS s) \<noteq> rs1 AND 0x1fffffff then Go s (l\<lparr>rval := 1\<rparr>)
              else stored (l\<lparr>rval := 0\<rparr>) (STORE32 s rs1 rs2)
            else (case amo_result irmid rv rs2 of
                Some v \<Rightarrow> stored (l\<lparr>rval := rv\<rparr>) (STORE32 s rs1 v)
              | None \<Rightarrow> Go s (l\<lparr>rval := rv, trap := 2 + 1\<rparr>))))"

definition exec_instr :: "u32 \<Rightarrow> u32 \<Rightarrow> CPUState \<Rightarrow> locals \<Rightarrow> flow" where
  "exec_instr ir cycle s l =
    (let opc = ir AND 0x7f; l = l\<lparr>rdid := rd_of ir\<rparr>
     in if opc = 0x37 then Go s (l\<lparr>rval := ir AND 0xfffff000\<rparr>)
        else if opc = 0x17 then Go s (l\<lparr>rval := lpc l + (ir AND 0xfffff000)\<rparr>)
        else if opc = 0x6F then op_jal ir s l
        else if opc = 0x67 then op_jalr ir s l
        else if opc = 0x63 then op_branch ir s l
        else if opc = 0x03 then op_load ir s l
        else if opc = 0x23 then op_store ir s l
        else if opc = 0x13 \<or> opc = 0x33 then op_alu ir s l
        else if opc = 0x0f then Go s (l\<lparr>rdid := 0\<rparr>)
        else if opc = 0x73 then op_system ir cycle s l
        else if opc = 0x2f then op_amo ir s l
        else Go s (l\<lparr>trap := 2 + 1\<rparr>))"

subsection \<open>The step\<close>

definition timer_tick :: "u32 \<Rightarrow> CPUState \<Rightarrow> CPUState" where
  "timer_tick elapsedUs s =
    (let new_timer = TIMERL s + elapsedUs;
         s = (if new_timer < TIMERL s then s\<lparr>TIMERH := TIMERH s + 1\<rparr> else s);
         s = s\<lparr>TIMERL := new_timer\<rparr>;
         timer = push_bit 32 (ucast (TIMERH s)) OR (ucast (TIMERL s) :: u64);
         timermatch = push_bit 32 (ucast (TIMERMATCHH s)) OR (ucast (TIMERMATCHL s) :: u64)
     in if (TIMERMATCHH s \<noteq> 0 \<or> TIMERMATCHL s \<noteq> 0) \<and> timer > timermatch
        then s\<lparr>EXTRAFLAGS := EXTRAFLAGS s AND NOT 4, MIP := MIP s OR 0x80\<rparr>
        else s\<lparr>MIP := MIP s AND NOT 0x80\<rparr>)"

definition take_trap :: "CPUState \<Rightarrow> locals \<Rightarrow> CPUState \<times> u32" where
  "take_trap s l =
    (let (s, pc) = (if trap l AND 0x80000000 \<noteq> 0
           then (s\<lparr>MCAUSE := trap l, MTVAL := 0\<rparr>, lpc l + 4)
           else (s\<lparr>MCAUSE := trap l - 1, MTVAL := if trap l > 5 \<and> trap l \<le> 8 then rval l else lpc l\<rparr>, lpc l));
         s = s\<lparr>MEPC := pc,
               MSTATUS := push_bit 4 (MSTATUS s AND 0x08) OR push_bit 11 (EXTRAFLAGS s AND 3)\<rparr>;
         pc = MTVEC s - 4;
         s = s\<lparr>EXTRAFLAGS := EXTRAFLAGS s OR 3\<rparr>
     in (s, pc + 4))"

definition cycle_end :: "u32 \<Rightarrow> CPUState \<Rightarrow> locals \<Rightarrow> CPUState" where
  "cycle_end cycle s l =
    (let (s, pc) = (if trap l \<noteq> 0 then take_trap s l else (s, lpc l));
         s = (if CYCLEL s > cycle then s\<lparr>CYCLEH := CYCLEH s + 1\<rparr> else s)
     in s\<lparr>CYCLEL := cycle, PC := pc\<rparr>)"

definition writeback :: "CPUState \<Rightarrow> locals \<Rightarrow> CPUState \<times> locals" where
  "writeback s l =
    (if trap l \<noteq> 0 then (s, l)
     else (if rdid l \<noteq> 0 then s\<lparr>regs := (regs s)(unat (rdid l) := rval l)\<rparr> else s, l\<lparr>lpc := lpc l + 4\<rparr>))"

definition rv32ima_step :: "u32 \<Rightarrow> CPUState \<Rightarrow> (u32 \<times> CPUState) option" where
  "rv32ima_step elapsedUs s0 =
    (let s = timer_tick elapsedUs s0
     in if EXTRAFLAGS s AND 4 \<noteq> 0 then Some (1, s)
        else
          let l = \<lparr>lpc = PC s, rdid = 0, rval = 0, trap = 0\<rparr>; cycle = CYCLEL s
          in if MIP s AND 0x80 \<noteq> 0 \<and> MIE s AND 0x80 \<noteq> 0 \<and> MSTATUS s AND 0x8 \<noteq> 0
             then Some (0, cycle_end cycle s (l\<lparr>trap := 0x80000007, lpc := lpc l - 4\<rparr>))
             else
               let cycle = cycle + 1; ofs_pc = lpc l - mem_offset s
               in if ofs_pc \<ge> mem_size s then Some (0, cycle_end cycle s (l\<lparr>trap := 1 + 1\<rparr>))
                  else if ofs_pc AND 3 \<noteq> 0 then Some (0, cycle_end cycle s (l\<lparr>trap := 1 + 0\<rparr>))
                  else (case MEM32 s ofs_pc of
                      None \<Rightarrow> None
                    | Some ir \<Rightarrow>
                        (case exec_instr ir cycle s l of
                          Undefined \<Rightarrow> None
                        | Return r s \<Rightarrow> Some (r, s)
                        | Go s l \<Rightarrow> (case writeback s l of (s, l) \<Rightarrow> Some (0, cycle_end cycle s l)))))"

text \<open>
  The loop of \<open>main\<close> in \<open>course_2/mini-rv32ima/main.c\<close>: the emulator stops when a step returns a
  non-zero value, at program counter 0, or when the step limit is used up.
\<close>

fun emulate :: "nat \<Rightarrow> CPUState \<Rightarrow> CPUState option" where
  "emulate 0 s = Some s"
| "emulate (Suc climit) s =
    (case rv32ima_step 1 s of
      None \<Rightarrow> None
    | Some (ret, s) \<Rightarrow>
        if climit = 0 then Some s
        else if ret = 0 \<and> PC s \<noteq> 0 then emulate climit s
        else Some s)"

text \<open>
  Before the loop \<open>main\<close> zeroes the state and the memory, loads the image at the start of the memory (an empty or
  oversized file is refused) and puts at most four arguments, parsed by \<open>xtoi\<close> or the C library, at the top of the stack.
  \<open>img\<close> is the contents of the file, \<open>args\<close> the parsed arguments as words.
\<close>

definition RAM_SIZE :: nat where "RAM_SIZE = 64 * 1024 * 1024"
definition RAM_STACK_START :: nat where "RAM_STACK_START = RAM_SIZE div 2"
definition RAM_STACK_END :: nat where "RAM_STACK_END = RAM_SIZE"
definition RAM_TEXT_END :: nat where "RAM_TEXT_END = RAM_STACK_START"

fun xtoi_loop :: "int \<Rightarrow> int list \<Rightarrow> int" where
  "xtoi_loop res [] = res"
| "xtoi_loop res (c # cs) =
    (if 97 \<le> c \<and> c \<le> 102 then xtoi_loop (c - 97) cs else xtoi_loop (res * 16 + (c - 48)) cs)"

definition xtoi :: "string \<Rightarrow> int" where
  "xtoi s = xtoi_loop 0 (drop 2 (map of_char s))"

definition word_bytes :: "u32 \<Rightarrow> u8 list" where
  "word_bytes v = [ucast v, ucast (drop_bit 8 v), ucast (drop_bit 16 v), ucast (drop_bit 24 v)]"

definition main_setup :: "u8 list \<Rightarrow> u32 list \<Rightarrow> CPUState option" where
  "main_setup img args =
    (if length img > RAM_TEXT_END \<or> img = [] then None
     else
       let margs = take 4 args; margc = length margs; sp = RAM_STACK_END - margc * 4
       in Some \<lparr>regs = (\<lambda>_. 0)(2 := of_nat sp, 10 := of_nat margc, 11 := of_nat sp), PC = 0, MSTATUS = 0, CYCLEL = 0,
            CYCLEH = 0, TIMERL = 0, TIMERH = 0, TIMERMATCHL = 0, TIMERMATCHH = 0, MSCRATCH = 0, MTVEC = 0, MIE = 0, MIP = 0,
            MEPC = 0, MTVAL = 0, MCAUSE = 0, EXTRAFLAGS = 0,
            mem = img @ replicate (sp - length img) 0 @ concat (map word_bytes margs),
            mem_offset = 0, mem_size = of_nat RAM_SIZE\<rparr>)"

subsection \<open>Memory safety\<close>

text \<open>The memory array has the size the state says, a positive multiple of four; \<open>x0\<close> is zero.\<close>

definition wf_state :: "CPUState \<Rightarrow> bool" where
  "wf_state s \<longleftrightarrow> length (mem s) = unat (mem_size s) \<and> 4 dvd unat (mem_size s) \<and> 4 \<le> unat (mem_size s) \<and> regs s 0 = 0"

definition same_shape :: "CPUState \<Rightarrow> CPUState \<Rightarrow> bool" where
  "same_shape s s' \<longleftrightarrow> length (mem s') = length (mem s) \<and> mem_size s' = mem_size s \<and> mem_offset s' = mem_offset s \<and>
    regs s' = regs s"

fun flow_ok :: "CPUState \<Rightarrow> flow \<Rightarrow> bool" where
  "flow_ok s (Go s' l) \<longleftrightarrow> same_shape s s'"
| "flow_ok s (Return r s') \<longleftrightarrow> same_shape s s'"
| "flow_ok s Undefined \<longleftrightarrow> False"

lemma same_shape_simps [simp]:
  "same_shape s s" "same_shape s (s\<lparr>TIMERMATCHH := w\<rparr>)" "same_shape s (s\<lparr>TIMERMATCHL := w\<rparr>)" "same_shape s (s\<lparr>PC := w\<rparr>)"
  "same_shape s (s\<lparr>EXTRAFLAGS := w\<rparr>)" "same_shape s (s\<lparr>MSTATUS := v, EXTRAFLAGS := w\<rparr>)"
  "same_shape s (s\<lparr>MSTATUS := v, EXTRAFLAGS := w, PC := x\<rparr>)"
  by (simp_all add: same_shape_def)

lemma wf_same_shape: "wf_state s \<Longrightarrow> same_shape s s' \<Longrightarrow> wf_state s'"
  by (simp add: wf_state_def same_shape_def)

lemma guard_in_mem:
  assumes "wf_state s" and "\<not> mem_size s - 3 \<le> a" and "n \<le> 4"
  shows "in_mem s a n"
proof -
  have "unat (mem_size s - 3) = unat (mem_size s) - 3"
    using assms(1) by (subst unat_sub) (simp_all add: wf_state_def word_le_nat_alt)
  then have "unat a < unat (mem_size s) - 3" using assms(2) by (simp add: word_le_nat_alt)
  then show ?thesis using assms(1,3) by (simp add: in_mem_def wf_state_def)
qed

lemma loaded_ok: "v \<noteq> None \<Longrightarrow> flow_ok s (loaded_to s l v)"
  by (auto simp: loaded_to_def)

lemma stored_ok: "(\<And>s'. r = Some s' \<Longrightarrow> same_shape s s') \<Longrightarrow> r \<noteq> None \<Longrightarrow> flow_ok s (stored l r)"
  by (auto simp: stored_def)

lemma store_shape:
  "STORE8 s a v = Some s' \<Longrightarrow> same_shape s s'" "STORE16 s a v = Some s' \<Longrightarrow> same_shape s s'"
  "STORE32 s a v = Some s' \<Longrightarrow> same_shape s s'"
  by (auto simp: STORE8_def STORE16_def STORE32_def same_shape_def split: if_splits)

lemma op_load_ok:
  assumes "wf_state s"
  shows "flow_ok s (op_load ir s l)"
proof -
  define a where "a = REG s (rs1_of ir) + imm_i ir - mem_offset s"
  have m: "\<not> mem_size s - 3 \<le> a \<Longrightarrow> MEM8 s a \<noteq> None \<and> MEM16 s a \<noteq> None \<and> MEM32 s a \<noteq> None"
    using guard_in_mem [OF assms, of a] by (simp add: MEM8_def MEM16_def MEM32_def)
  show ?thesis
    unfolding op_load_def Let_def a_def [symmetric] using m by (auto simp: loaded_to_def)
qed

lemma op_store_ok:
  assumes "wf_state s"
  shows "flow_ok s (op_store ir s l)"
  using guard_in_mem [OF assms, of "imm_s ir + (REG s (rs1_of ir) - mem_offset s)"]
  by (auto simp: op_store_def Let_def intro!: stored_ok dest: store_shape)
    (auto simp: STORE8_def STORE16_def STORE32_def)

lemma op_amo_ok:
  assumes "wf_state s"
  shows "flow_ok s (op_amo ir s l)"
  using guard_in_mem [OF assms, of "REG s (rs1_of ir) - mem_offset s" 4]
  by (auto simp: op_amo_def Let_def MEM32_def intro!: stored_ok dest: store_shape split: option.split)
    (auto simp: STORE32_def)

lemma csr_write_shape: "same_shape s (csr_write n v s)"
  by (simp add: csr_write_def same_shape_def)

lemma op_system_ok: "flow_ok s (op_system ir cycle s l)"
  by (simp add: op_system_def Let_def csr_write_shape op_mret_def)

lemma exec_instr_ok:
  assumes "wf_state s"
  shows "flow_ok s (exec_instr ir cycle s l)"
  by (simp add: exec_instr_def Let_def op_load_ok [OF assms] op_store_ok [OF assms] op_amo_ok [OF assms] op_system_ok
      op_jal_def op_jalr_def op_branch_def op_alu_def split: option.split)

lemma timer_tick_shape: "same_shape s (timer_tick e s)"
  by (simp add: timer_tick_def Let_def same_shape_def)

lemma cycle_end_shape: "same_shape s (cycle_end c s l)"
  by (simp add: cycle_end_def take_trap_def Let_def same_shape_def)

lemma writeback_wf: "wf_state s \<Longrightarrow> writeback s l = (s', l') \<Longrightarrow> wf_state s' \<and> mem_size s' = mem_size s \<and> mem_offset s' = mem_offset s"
  by (auto simp: writeback_def wf_state_def unat_eq_zero split: if_splits)

lemma fetch_in_mem:
  assumes "wf_state s" and "\<not> mem_size s \<le> a" and "a AND 3 = 0"
  shows "in_mem s a 4"
proof -
  have "a AND 3 = take_bit 2 a" by (simp add: take_bit_eq_mask mask_eq_exp_minus_1)
  then have "unat (take_bit 2 a) = 0" using assms(3) by simp
  then have "unat a mod 4 = 0" by (simp add: take_bit_eq_mod unat_mod)
  then obtain k m where "unat a = 4 * k" "unat (mem_size s) = 4 * m"
    using assms(1) by (auto simp: wf_state_def dvd_def elim!: dvdE [OF dvd_eq_mod_eq_0 [THEN iffD2]])
  moreover have "unat a < unat (mem_size s)" using assms(2) by (simp add: word_le_nat_alt)
  ultimately show ?thesis using assms(1) by (simp add: in_mem_def wf_state_def)
qed

lemma step_ok:
  assumes wf: "wf_state s"
  shows "\<exists>r s'. rv32ima_step e s = Some (r, s') \<and> wf_state s' \<and> mem_size s' = mem_size s \<and> mem_offset s' = mem_offset s"
proof -
  define s1 where "s1 = timer_tick e s"
  define l where "l = \<lparr>lpc = PC s1, rdid = 0, rval = 0, trap = 0\<rparr>"
  define good where "good = (\<lambda>s'. wf_state s' \<and> mem_size s' = mem_size s \<and> mem_offset s' = mem_offset s)"
  have sh: "good s''" if "good s'" "same_shape s' s''" for s' s''
    using that wf_same_shape [of s' s''] by (simp add: good_def same_shape_def)
  have g1: "good s1" using sh [OF _ timer_tick_shape [of s e]] wf by (simp add: good_def s1_def)
  have ce: "good (cycle_end c s' k)" if "good s'" for c s' k using sh [OF that cycle_end_shape] .
  have wf1: "wf_state s1" using g1 by (simp add: good_def)
  have "\<exists>r s'. rv32ima_step e s = Some (r, s') \<and> good s'"
  proof (cases "MEM32 s1 (PC s1 - mem_offset s1)")
    case None
    then have "mem_size s1 \<le> PC s1 - mem_offset s1 \<or> (PC s1 - mem_offset s1) AND 3 \<noteq> 0"
      using fetch_in_mem [OF wf1, of "PC s1 - mem_offset s1"] by (auto simp: MEM32_def split: if_splits)
    then show ?thesis
      unfolding rv32ima_step_def Let_def s1_def [symmetric] using g1 ce [OF g1] by (auto simp: None)
  next
    case (Some ir)
    have f: "flow_ok s1 (exec_instr ir (CYCLEL s1 + 1) s1 l)" using exec_instr_ok [OF wf1] .
    show ?thesis
    proof (cases "exec_instr ir (CYCLEL s1 + 1) s1 l")
      case (Go s2 l2)
      obtain s3 l3 where w: "writeback s2 l2 = (s3, l3)" by (metis surj_pair)
      have "good s2" using f Go sh [OF g1] by simp
      then have "good s3" using writeback_wf [OF _ w] by (simp add: good_def)
      then show ?thesis
        unfolding rv32ima_step_def Let_def s1_def [symmetric] using g1 ce Go w by (simp add: Some l_def)
    next
      case (Return r s2)
      have "good s2" using f Return sh [OF g1] by simp
      then show ?thesis
        unfolding rv32ima_step_def Let_def s1_def [symmetric] using g1 ce Return by (simp add: Some l_def)
    qed (use f in simp)
  qed
  then show ?thesis by (simp add: good_def)
qed

lemma emulate_ok: "wf_state s \<Longrightarrow> \<exists>s'. emulate n s = Some s' \<and> wf_state s'"
proof (induction n arbitrary: s)
  case (Suc n)
  obtain r s1 where "rv32ima_step 1 s = Some (r, s1)" "wf_state s1" using step_ok [OF Suc.prems] by blast
  then show ?case using Suc.IH [of s1] by simp
qed simp

lemma main_setup_wf:
  assumes "main_setup img args = Some s"
  shows "wf_state s"
proof -
  define m where "m = length (take 4 args)"
  have m4: "m \<le> 4" by (simp add: m_def)
  have "length (concat (map word_bytes xs)) = length xs * 4" for xs :: "u32 list"
    by (induction xs) (simp_all add: word_bytes_def)
  moreover have "length img \<le> RAM_SIZE div 2" using assms by (auto simp: main_setup_def RAM_TEXT_END_def RAM_STACK_START_def split: if_splits)
  ultimately have "length (mem s) = RAM_SIZE"
    using assms m4 by (auto simp: main_setup_def Let_def RAM_STACK_END_def RAM_SIZE_def m_def split: if_splits)
  moreover have "mem_size s = of_nat RAM_SIZE" "regs s 0 = 0"
    using assms by (auto simp: main_setup_def Let_def split: if_splits)
  ultimately show ?thesis by (simp add: wf_state_def RAM_SIZE_def)
qed

text \<open>
  A hexadecimal argument with digits 0 to 9 is read correctly. A letter drops the digits before it and counts from zero:
  the source writes \<open>res =+ s[i] - 'a'\<close>.
\<close>

lemma xtoi_digits: "\<forall>c\<in>set cs. 48 \<le> c \<and> c < 58 \<Longrightarrow> xtoi_loop r cs = foldl (\<lambda>v c. 16 * v + (c - 48)) r cs"
  by (induction cs arbitrary: r) (simp_all add: mult.commute)

lemma xtoi_letter: "xtoi ''0x1a'' = 0 \<and> xtoi ''0x10'' = 16"
  by code_simp

subsection \<open>Words bit by bit\<close>

lemma u32_eqI: "(\<And>n. n \<in> set [0..<32] \<Longrightarrow> bit x n = bit y n) \<Longrightarrow> x = (y :: u32)"
  by (intro bit_word_eqI) simp

lemma range_32: "set [0..<32] = {0, 1, 2, 3, 4, 5, 6, 7, 8, 9, 10, 11, 12, 13, 14, 15, 16, 17, 18, 19, 20, 21, 22, 23, 24,
    25, 26, 27, 28, 29, 30, 31 :: nat}"
  by code_simp

text \<open>What a word store writes, the word load of the same address reads.\<close>

lemma store_load32: "STORE32 s a v = Some s' \<Longrightarrow> MEM32 s' a = Some v"
proof -
  have "(ucast (ucast v :: u8) OR push_bit 8 (ucast (ucast (drop_bit 8 v) :: u8))
       OR push_bit 16 (ucast (ucast (drop_bit 16 v) :: u8)) OR push_bit 24 (ucast (ucast (drop_bit 24 v) :: u8))) = v"
    by (rule u32_eqI, unfold range_32, elim insertE emptyE) (simp_all add: bit_simps)
  then show "STORE32 s a v = Some s' \<Longrightarrow> MEM32 s' a = Some v"
    by (auto simp: STORE32_def MEM32_def in_mem_def split: if_splits)
qed

lemma store32_frame:
  "STORE32 s a v = Some s' \<Longrightarrow> i \<notin> {unat a..<unat a + 4} \<Longrightarrow> mem s' ! i = mem s ! i"
  by (auto simp: STORE32_def split: if_splits)

subsection \<open>Multiplication and division\<close>

lemma high_half:
  "uint (ucast (drop_bit 32 (word_of_int p :: u64)) :: u32) = p div 2 ^ 32 mod 2 ^ 32"
proof -
  have "uint (ucast (drop_bit 32 (word_of_int p :: u64)) :: u32) = take_bit 32 (drop_bit 32 (take_bit 64 p))"
    by transfer simp
  also have "\<dots> = take_bit 32 (drop_bit 32 p)" by (simp add: drop_bit_take_bit)
  finally show ?thesis by (simp add: drop_bit_eq_div take_bit_eq_mod)
qed

lemma cast64: "(scast x :: u64) = word_of_int (sint x)" "(ucast x :: u64) = word_of_int (uint x)" for x :: u32
  by (rule scast_eq, rule ucast_eq)

lemma alu_m_low: "uint (alu_m 0 a b) = uint a * uint b mod 2 ^ 32"
  unfolding alu_m_def by (simp add: uint_word_ariths)

lemma alu_m_high:
  "uint (alu_m 1 a b) = sint a * sint b div 2 ^ 32 mod 2 ^ 32"
  "uint (alu_m 2 a b) = sint a * uint b div 2 ^ 32 mod 2 ^ 32"
  "uint (alu_m 3 a b) = uint a * uint b div 2 ^ 32 mod 2 ^ 32"
  using high_half [of "sint a * sint b"] high_half [of "sint a * uint b"] high_half [of "uint a * uint b"]
  by (simp_all only: alu_m_def cast64 of_int_mult [symmetric] if_True if_False simp_thms one_neq_zero zero_neq_one) simp_all

lemma sint_of_small: "- (2 ^ 31) \<le> k \<Longrightarrow> k < 2 ^ 31 \<Longrightarrow> sint (word_of_int k :: u32) = k"
  by (simp add: signed_of_int signed_take_bit_int_eq_self)

lemma sint_bounds: "- (2 ^ 31) \<le> sint (x :: u32) \<and> sint x < 2 ^ 31"
  using sint_greater_eq [of x] sint_less [of x] by simp

lemma sint_quot_rem:
  fixes a b :: u32
  assumes b: "b \<noteq> 0" and ov: "\<not> (a = 0x80000000 \<and> b = -1)"
  shows sint_quot: "sint (word_of_int (sint a sdiv sint b) :: u32) = sint a sdiv sint b"
    and sint_rem: "sint (word_of_int (sint a smod sint b) :: u32) = sint a smod sint b"
proof -
  note A = sint_bounds [of a] and B = sint_bounds [of b]
  have nz: "sint b \<noteq> 0" using b by (simp add: signed_eq_0_iff)
  have "sint a sdiv sint b \<noteq> 2 ^ 31"
  proof
    assume q: "sint a sdiv sint b = 2 ^ 31"
    then have "sgn (sint a) * sgn (sint b) * (\<bar>sint a\<bar> div \<bar>sint b\<bar>) = 2 ^ 31"
      by (simp add: signed_divide_int_def sgn_mult)
    then have "\<bar>sgn (sint a) * sgn (sint b) * (\<bar>sint a\<bar> div \<bar>sint b\<bar>)\<bar> = 2 ^ 31" by simp
    moreover have "0 \<le> \<bar>sint a\<bar> div \<bar>sint b\<bar>" by (simp add: div_int_pos_iff)
    ultimately have d: "\<bar>sint a\<bar> div \<bar>sint b\<bar> = 2 ^ 31"
      using nz by (cases "sint a = 0") (simp_all add: abs_mult)
    have "\<bar>sint b\<bar> = 1"
    proof (rule ccontr)
      assume "\<bar>sint b\<bar> \<noteq> 1"
      then have "2 \<le> \<bar>sint b\<bar>" using nz by simp
      then have "\<bar>sint a\<bar> div \<bar>sint b\<bar> \<le> \<bar>sint a\<bar> div 2" by (intro zdiv_mono2) simp_all
      then have "2 ^ 31 \<le> \<bar>sint a\<bar> div 2" using d by simp
      then show False using A by linarith
    qed
    then have "\<bar>sint a\<bar> = 2 ^ 31" using d by simp
    then have a: "sint a = - (2 ^ 31)" using A by linarith
    have "sint b = - 1"
    proof (rule ccontr)
      assume "sint b \<noteq> - 1"
      then have "sint b = 1" using \<open>\<bar>sint b\<bar> = 1\<close> by linarith
      then show False using q a by (simp add: signed_divide_int_def)
    qed
    then have "b = -1" by (metis sint_n1 signed_word_eqI)
    moreover have "a = 0x80000000"
      using a by (intro signed_word_eqI) simp
    ultimately show False using ov by simp
  qed
  moreover have "sint a sdiv sint b \<in> {- \<bar>sint a\<bar>..\<bar>sint a\<bar>}" by (rule sdiv_int_range)
  ultimately show "sint (word_of_int (sint a sdiv sint b) :: u32) = sint a sdiv sint b"
    using A by (intro sint_of_small) auto
  show "sint (word_of_int (sint a smod sint b) :: u32) = sint a smod sint b"
    using smod_int_range [OF nz, of "sint a"] B by (intro sint_of_small) auto
qed

subsection \<open>Traps and returns\<close>

lemma mret_flags: "((ex OR 3) AND NOT 3) OR (drop_bit 11 (push_bit 4 (st AND 8) OR push_bit 11 (ex AND 3)) AND 3) = (ex :: u32)"
  by (rule u32_eqI, unfold range_32, elim insertE emptyE) (simp_all add: bit_simps)

lemma mret_mie: "(drop_bit 4 ((push_bit 4 (st AND 8) OR push_bit 11 (ex AND 3)) AND 0x80) OR push_bit 11 m OR 0x80) AND 8 = st AND (8 :: u32)"
  by (rule u32_eqI, unfold range_32, elim insertE emptyE) (simp_all add: bit_simps)

lemma trap_mie: "(push_bit 4 (st AND 8) OR push_bit 11 (ex AND 3)) AND 8 = (0 :: u32)" "(ex OR 3) AND 3 = (3 :: u32)"
  by (rule u32_eqI, unfold range_32, elim insertE emptyE, simp_all add: bit_simps)+

lemma take_trap_sel:
  "take_trap s l = (s1, pc1) \<Longrightarrow> pc1 = MTVEC s \<and> EXTRAFLAGS s1 = EXTRAFLAGS s OR 3 \<and>
    MSTATUS s1 = push_bit 4 (MSTATUS s AND 0x08) OR push_bit 11 (EXTRAFLAGS s AND 3) \<and>
    MEPC s1 = (if trap l AND 0x80000000 \<noteq> 0 then lpc l + 4 else lpc l) \<and> regs s1 = regs s \<and> mem s1 = mem s"
  unfolding take_trap_def Let_def by (simp only: split: if_splits prod.splits) auto

subsection \<open>Properties\<close>

text \<open>Two instructions at address 0: \<open>addi a0, x0, 5\<close> and a jump to address 0, which ends the run.\<close>

definition ex_cpu :: CPUState where
  "ex_cpu = \<lparr>regs = \<lambda>_. 0, PC = 0, MSTATUS = 0, CYCLEL = 0, CYCLEH = 0, TIMERL = 0, TIMERH = 0, TIMERMATCHL = 0,
    TIMERMATCHH = 0, MSCRATCH = 0, MTVEC = 0, MIE = 0, MIP = 0, MEPC = 0, MTVAL = 0, MCAUSE = 0, EXTRAFLAGS = 3,
    mem = [0x13, 0x05, 0x50, 0x00, 0x67, 0x00, 0x00, 0x00], mem_offset = 0, mem_size = 8\<rparr>"

lemma ex_cpu_wf: "wf_state ex_cpu" by code_simp
lemma ex_cpu_runs: "map_option (\<lambda>s. (regs s 10, PC s, CYCLEL s)) (emulate 10 ex_cpu) = Some (5, 0, 2)" by code_simp

text \<open>C38: In a well-formed machine (the memory array has \<open>mem_size\<close> bytes, a positive multiple of four, and \<open>x0\<close> is zero) a
  step never reads or writes outside the memory array, whatever instruction is fetched; it returns, keeps the state
  well-formed and leaves the memory's place and size alone. The state \<open>main\<close> sets up is
  well-formed, so its loop always returns.\<close>

theorem step_safe:
  assumes "wf_state s"
  shows "(\<exists>r s'. rv32ima_step e s = Some (r, s') \<and> wf_state s' \<and> mem_size s' = mem_size s \<and> mem_offset s' = mem_offset s) \<and>
    (\<exists>s'. emulate n s = Some s' \<and> wf_state s') \<and>
    (main_setup img args = Some s0 \<longrightarrow> wf_state s0)"
  using step_ok [OF assms] emulate_ok [OF assms] main_setup_wf by blast

theorem step_safe_witness:
  "wf_state ex_cpu \<and> (\<exists>s'. emulate 10 ex_cpu = Some s' \<and> wf_state s') \<and> wf_state (the (main_setup [0x67, 0, 0, 0] [7]))"
proof -
  have "main_setup [0x67, 0, 0, 0] [7] = Some (the (main_setup [0x67, 0, 0, 0] [7]))"
    by (simp add: main_setup_def Let_def RAM_TEXT_END_def RAM_STACK_START_def RAM_SIZE_def)
  then show ?thesis using step_safe [OF ex_cpu_wf, of 1 10 "[0x67, 0, 0, 0]" "[7]"] ex_cpu_wf by blast
qed

text \<open>RV32M computes what the instruction set says: the low half of the product, the signed, signed-unsigned and unsigned
  high halves, and quotients and remainders truncated towards zero, with the fixed results for a zero divisor and for the
  overflow of \<open>INT32_MIN / -1\<close>.\<close>

theorem alu_m_spec:
  "uint (alu_m 0 a b) = uint a * uint b mod 2 ^ 32 \<and>
   uint (alu_m 1 a b) = sint a * sint b div 2 ^ 32 mod 2 ^ 32 \<and>
   uint (alu_m 2 a b) = sint a * uint b div 2 ^ 32 mod 2 ^ 32 \<and>
   uint (alu_m 3 a b) = uint a * uint b div 2 ^ 32 mod 2 ^ 32 \<and>
   sint (alu_m 4 a b) = (if b = 0 then -1 else if a = 0x80000000 \<and> b = -1 then - (2 ^ 31) else sint a sdiv sint b) \<and>
   uint (alu_m 5 a b) = (if b = 0 then 2 ^ 32 - 1 else uint a div uint b) \<and>
   sint (alu_m 6 a b) = (if b = 0 then sint a else if a = 0x80000000 \<and> b = -1 then 0 else sint a smod sint b) \<and>
   uint (alu_m 7 a b) = (if b = 0 then uint a else uint a mod uint b)"
proof -
  have "sint (alu_m 4 a b) = (if b = 0 then -1 else if a = 0x80000000 \<and> b = -1 then - (2 ^ 31) else sint a sdiv sint b)"
    using sint_quot [of b a] by (simp add: alu_m_def)
  moreover have "sint (alu_m 6 a b) = (if b = 0 then sint a else if a = 0x80000000 \<and> b = -1 then 0 else sint a smod sint b)"
    using sint_rem [of b a] by (simp add: alu_m_def)
  moreover have "uint (alu_m 5 a b) = (if b = 0 then 2 ^ 32 - 1 else uint a div uint b)" by (simp add: alu_m_def uint_div)
  moreover have "uint (alu_m 7 a b) = (if b = 0 then uint a else uint a mod uint b)" by (simp add: alu_m_def uint_mod)
  ultimately show ?thesis by (intro conjI alu_m_low alu_m_high)
qed

text \<open>A trap enters machine mode with interrupts off at the trap vector, and the \<open>mret\<close> that ends its handler undoes it:
  execution goes on at the trapping instruction (after an interrupt: at the instruction that was about to run), with the
  privilege, the reservation flags and the interrupt enable of before, and the registers and the memory as they were.\<close>

theorem trap_mret_roundtrip:
  assumes "take_trap s l = (s1, pc1)" and "op_mret s1 l1 = Go s2 l2"
  shows "pc1 = MTVEC s \<and> EXTRAFLAGS s1 AND 3 = 3 \<and> MSTATUS s1 AND 8 = 0 \<and>
    lpc l2 + 4 = (if trap l AND 0x80000000 \<noteq> 0 then lpc l + 4 else lpc l) \<and>
    EXTRAFLAGS s2 = EXTRAFLAGS s \<and> MSTATUS s2 AND 8 = MSTATUS s AND 8 \<and> regs s2 = regs s \<and> mem s2 = mem s"
proof -
  note t = take_trap_sel [OF assms(1)]
  have "s2 = s1\<lparr>MSTATUS := drop_bit 4 (MSTATUS s1 AND 0x80) OR push_bit 11 (EXTRAFLAGS s1 AND 3) OR 0x80,
              EXTRAFLAGS := (EXTRAFLAGS s1 AND NOT 3) OR (drop_bit 11 (MSTATUS s1) AND 3)\<rparr>" "l2 = l1\<lparr>lpc := MEPC s1 - 4\<rparr>"
    using assms(2) unfolding op_mret_def Let_def by blast+
  then have "EXTRAFLAGS s2 = EXTRAFLAGS s" "MSTATUS s2 AND 8 = MSTATUS s AND 8" "regs s2 = regs s" "mem s2 = mem s"
    "lpc l2 + 4 = MEPC s1"
    using mret_flags [of "EXTRAFLAGS s" "MSTATUS s"] mret_mie [of "MSTATUS s" "EXTRAFLAGS s" "(EXTRAFLAGS s OR 3) AND 3"] t
    by simp_all
  then show ?thesis using t trap_mie(1) [of "MSTATUS s" "EXTRAFLAGS s"] trap_mie(2) [of "EXTRAFLAGS s"] by simp
qed

theorem trap_mret_roundtrip_witness:
  "\<exists>s2 l2. op_mret (fst (take_trap ex_cpu \<lparr>lpc = 4, rdid = 0, rval = 0, trap = 12\<rparr>)) \<lparr>lpc = 8, rdid = 0, rval = 0, trap = 0\<rparr> =
     Go s2 l2 \<and> lpc l2 + 4 = 4 \<and> EXTRAFLAGS s2 = EXTRAFLAGS ex_cpu"
proof -
  obtain s2 l2 where
    "op_mret (fst (take_trap ex_cpu \<lparr>lpc = 4, rdid = 0, rval = 0, trap = 12\<rparr>)) \<lparr>lpc = 8, rdid = 0, rval = 0, trap = 0\<rparr> = Go s2 l2"
    by (simp add: op_mret_def Let_def)
  then show ?thesis
    using trap_mret_roundtrip [of ex_cpu "\<lparr>lpc = 4, rdid = 0, rval = 0, trap = 12\<rparr>" _ _ _ s2 l2, OF prod.collapse [symmetric]]
    by auto
qed

end
