(* ===== verification/Hanoi.thy ===== *)
theory Hanoi
  imports Sbi_Prelude
begin

text \<open>
  The three Towers of Hanoi programs of \<open>course_2/hanoi-nr\<close>: the recursive function of \<open>hanoi-r.c\<close>, the same function with
  an explicit stack of frames and program counters in \<open>hanoi-nr.c\<close>, and the loop with stages of \<open>hanoi_forloop.c\<close>. Each
  returns the printed moves and the number it returns. \<open>None\<close> stands for a run that does not end, writes past the end of the
  stack array, or fails the assertion.
\<close>

type_synonym moves = "(char \<times> char) list"

subsection \<open>\<open>hanoi-r.c\<close>\<close>

partial_function (option) hanoi_r :: "int \<Rightarrow> char \<Rightarrow> char \<Rightarrow> char \<Rightarrow> (moves \<times> int) option" where
  "hanoi_r n from to via =
    (if n = 1 then Some ([(from, to)], 1)
     else Option.bind (hanoi_r (n - 1) from via to) (\<lambda>(out1, c1).
       Option.bind (hanoi_r 1 from to via) (\<lambda>(out2, _).
         Option.bind (hanoi_r (n - 1) via to from) (\<lambda>(out3, c2).
           Some (out1 @ out2 @ out3, c1 + c2 + 1)))))"

subsection \<open>\<open>hanoi-nr.c\<close>\<close>

record Frame =
  fpc :: nat
  fn :: int
  ffrom :: char
  fto :: char
  fvia :: char
  fc1 :: int
  fc2 :: int

text \<open>\<open>stk\<close> holds the live frames, the top one first; \<open>retval\<close> and the output so far complete the state.\<close>

record machine =
  stk :: "Frame list"
  retval :: int
  out :: moves

definition call_nr :: "int \<Rightarrow> char \<Rightarrow> char \<Rightarrow> char \<Rightarrow> machine \<Rightarrow> machine option" where
  "call_nr n from to via m =
    (if length (stk m) < 64
     then Some (m\<lparr>stk := \<lparr>fpc = 0, fn = n, ffrom = from, fto = to, fvia = via, fc1 = 0, fc2 = 0\<rparr> # stk m\<rparr>) else None)"

definition ret_nr :: "int \<Rightarrow> machine \<Rightarrow> machine" where
  "ret_nr val m = m\<lparr>stk := tl (stk m), retval := val\<rparr>"

text \<open>
  One turn of the loop for the top frame \<open>f\<close>. The frame keeps its place while callees are pushed, so \<open>f->pc = next_pc\<close> is
  written before the call here; after a return the frame is dead and the write has no effect.
\<close>

definition hanoi_nr_step :: "Frame \<Rightarrow> Frame list \<Rightarrow> machine \<Rightarrow> machine option" where
  "hanoi_nr_step f fs m =
    (let n = fn f; from = ffrom f; to = fto f; via = fvia f; f' = f\<lparr>fpc := fpc f + 1\<rparr>;
         next = m\<lparr>stk := f' # fs\<rparr>
     in if fpc f = 0 then
          if n = 1 then Some (ret_nr 1 (next\<lparr>out := out m @ [(from, to)]\<rparr>)) else Some next
        else if fpc f = 1 then call_nr (n - 1) from via to next
        else if fpc f = 2 then Some (m\<lparr>stk := f'\<lparr>fc1 := retval m\<rparr> # fs\<rparr>)
        else if fpc f = 3 then call_nr 1 from to via next
        else if fpc f = 4 then call_nr (n - 1) via to from next
        else if fpc f = 5 then Some (m\<lparr>stk := f'\<lparr>fc2 := retval m\<rparr> # fs\<rparr>)
        else if fpc f = 6 then Some (ret_nr (fc1 f + fc2 f + 1) next)
        else None)"

partial_function (option) hanoi_nr_loop :: "machine \<Rightarrow> machine option" where
  "hanoi_nr_loop m =
    (case stk m of [] \<Rightarrow> Some m | f # fs \<Rightarrow> Option.bind (hanoi_nr_step f fs m) hanoi_nr_loop)"

definition hanoi_nr :: "int \<Rightarrow> char \<Rightarrow> char \<Rightarrow> char \<Rightarrow> (moves \<times> int) option" where
  "hanoi_nr n from to via =
    map_option (\<lambda>m. (out m, retval m))
      (Option.bind (call_nr n from to via \<lparr>stk = [], retval = 0, out = []\<rparr>) hanoi_nr_loop)"

subsection \<open>\<open>hanoi_forloop.c\<close>\<close>

record LoopFrame =
  ln :: int
  lfrom :: char
  lto :: char
  ltmp :: char
  lstage :: nat

definition MAX_STACK_DEEP :: nat where "MAX_STACK_DEEP = 1024"

type_synonym loop_state = "LoopFrame list \<times> moves \<times> int"

definition push_frame :: "LoopFrame \<Rightarrow> loop_state \<Rightarrow> loop_state option" where
  "push_frame f s = (case s of (fs, w, c) \<Rightarrow> if length fs < MAX_STACK_DEEP then Some (f # fs, w, c) else None)"

definition for_loop_step :: "LoopFrame \<Rightarrow> LoopFrame list \<Rightarrow> moves \<Rightarrow> int \<Rightarrow> loop_state option" where
  "for_loop_step cur fs w c =
    (if ln cur = 1 then Some (fs, w @ [(lfrom cur, lto cur)], c + 1)
     else if lstage cur = 0 then
       push_frame \<lparr>ln = ln cur - 1, lfrom = lfrom cur, lto = ltmp cur, ltmp = lto cur, lstage = 0\<rparr> (cur\<lparr>lstage := 1\<rparr> # fs, w, c)
     else if lstage cur = 1 then Some (cur\<lparr>lstage := 2\<rparr> # fs, w @ [(lfrom cur, lto cur)], c + 1)
     else if lstage cur = 2 then
       push_frame \<lparr>ln = ln cur - 1, lfrom = ltmp cur, lto = lto cur, ltmp = lfrom cur, lstage = 0\<rparr> (cur\<lparr>lstage := 3\<rparr> # fs, w, c)
     else if lstage cur = 3 then Some (fs, w, c)
     else Some (cur # fs, w, c))"

partial_function (option) for_loop_run :: "loop_state \<Rightarrow> (moves \<times> int) option" where
  "for_loop_run s =
    (case s of ([], w, c) \<Rightarrow> Some (w, c) | (cur # fs, w, c) \<Rightarrow> Option.bind (for_loop_step cur fs w c) for_loop_run)"

definition hanoi_for_loop :: "int \<Rightarrow> char \<Rightarrow> char \<Rightarrow> char \<Rightarrow> (moves \<times> int) option" where
  "hanoi_for_loop n from to tmp =
    (if n \<le> 0 then Some ([], 0)
     else Option.bind (push_frame \<lparr>ln = n, lfrom = from, lto = to, ltmp = tmp, lstage = 0\<rparr> ([], [], 0)) for_loop_run)"

subsection \<open>The moves\<close>

text \<open>The sequence of moves as a primitive recursion, and what a sequence of moves does to the pegs (discs by size, top first).\<close>

fun hanoi_moves :: "nat \<Rightarrow> char \<Rightarrow> char \<Rightarrow> char \<Rightarrow> moves" where
  "hanoi_moves 0 from to via = []"
| "hanoi_moves (Suc n) from to via = hanoi_moves n from via to @ (from, to) # hanoi_moves n via to from"

fun play :: "moves \<Rightarrow> (char \<Rightarrow> nat list) \<Rightarrow> (char \<Rightarrow> nat list) option" where
  "play [] p = Some p"
| "play ((a, b) # ms) p =
    (case p a of [] \<Rightarrow> None
     | d # ds \<Rightarrow> if (case p b of [] \<Rightarrow> True | e # es \<Rightarrow> d < e) then play ms (p(a := ds, b := d # p b)) else None)"

lemma play_append: "play (xs @ ys) p = Option.bind (play xs p) (play ys)"
  by (induction xs arbitrary: p) (auto split: list.split)

lemma length_hanoi_moves: "length (hanoi_moves n a b c) + 1 = 2 ^ n"
  by (induction n arbitrary: a b c) simp_all

text \<open>
  A tower of the \<open>n\<close> smallest discs moves from one peg to another by legal moves, whatever larger discs lie below on the
  three pegs.
\<close>

lemma hanoi_play:
  assumes "distinct [a, b, c]" and "p a = [0..<n] @ ds" and "\<forall>x\<in>set ds \<union> set (p b) \<union> set (p c). n \<le> x"
  shows "play (hanoi_moves n a b c) p = Some (p(a := ds, b := [0..<n] @ p b))"
  using assms
proof (induction n arbitrary: a b c p ds)
  case 0
  then show ?case by (auto simp: fun_eq_iff)
next
  case (Suc n)
  define p1 where "p1 = p(a := n # ds, c := [0..<n] @ p c)"
  define p2 where "p2 = p1(a := ds, b := n # p b)"
  have d: "a \<noteq> b" "a \<noteq> c" "b \<noteq> c" using Suc.prems(1) by auto
  have le: "\<forall>x\<in>set ds \<union> set (p b) \<union> set (p c). n \<le> x" using Suc.prems(3) by (auto dest: Suc_leD)
  have 1: "play (hanoi_moves n a c b) p = Some p1"
    unfolding p1_def by (rule Suc.IH) (use Suc.prems(2) d le in auto)
  have "p1 b = p b" "p1 a = n # ds" using d by (simp_all add: p1_def)
  moreover have "case p b of [] \<Rightarrow> True | e # es \<Rightarrow> n < e" using Suc.prems(3) by (auto split: list.split)
  ultimately have 2: "play ((a, b) # ms) p1 = play ms p2" for ms by (simp add: p2_def)
  have c2: "p2 c = [0..<n] @ p c" "p2 b = n # p b" "p2 a = ds" using d by (simp_all add: p1_def p2_def)
  have 3: "play (hanoi_moves n c b a) p2 = Some (p2(c := p c, b := [0..<n] @ p2 b))"
    by (rule Suc.IH) (use d c2 le in auto)
  have "p2(c := p c, b := [0..<n] @ p2 b) = p(a := ds, b := [0..<Suc n] @ p b)"
    using d c2 by (auto simp: fun_eq_iff p1_def p2_def)
  then show ?case by (simp only: hanoi_moves.simps play_append 1 2 3 Option.bind.simps)
qed

subsection \<open>The three programs agree\<close>

lemma hanoi_r_moves: "hanoi_r (int (Suc n)) a b c = Some (hanoi_moves (Suc n) a b c, 2 ^ Suc n - 1)"
proof (induction n arbitrary: a b c)
  case (Suc n)
  have "hanoi_r 1 a b c = Some ([(a, b)], 1)" for a b c by (simp add: hanoi_r.simps)
  then show ?case
    using Suc.IH by (subst hanoi_r.simps) (simp add: algebra_simps)
qed (simp add: hanoi_r.simps)

text \<open>A frame that starts at \<open>pc = 0\<close> runs its call and leaves the stack as it was before the call.\<close>

definition frame0 :: "int \<Rightarrow> char \<Rightarrow> char \<Rightarrow> char \<Rightarrow> Frame" where
  "frame0 n a b c = \<lparr>fpc = 0, fn = n, ffrom = a, fto = b, fvia = c, fc1 = 0, fc2 = 0\<rparr>"

lemma nr_turn: "hanoi_nr_step f fs \<lparr>stk = f # fs, retval = r, out = w\<rparr> = Some m \<Longrightarrow>
    hanoi_nr_loop \<lparr>stk = f # fs, retval = r, out = w\<rparr> = hanoi_nr_loop m"
  by (subst hanoi_nr_loop.simps) simp

lemmas nr_step_simps = hanoi_nr_step_def call_nr_def ret_nr_def Let_def frame0_def

lemma nr_one:
  "hanoi_nr_loop \<lparr>stk = frame0 1 a b c # fs, retval = r, out = w\<rparr> = hanoi_nr_loop \<lparr>stk = fs, retval = 1, out = w @ [(a, b)]\<rparr>"
  by (rule nr_turn) (simp add: nr_step_simps)

lemma nr_frame:
  assumes "length fs + Suc n \<le> 64"
  shows "hanoi_nr_loop \<lparr>stk = frame0 (int (Suc n)) a b c # fs, retval = r, out = w\<rparr> =
    hanoi_nr_loop \<lparr>stk = fs, retval = 2 ^ Suc n - 1, out = w @ hanoi_moves (Suc n) a b c\<rparr>"
  using assms
proof (induction n arbitrary: a b c fs r w)
  case 0
  then show ?case using nr_one by simp
next
  case (Suc n)
  define f where "f = (\<lambda>k c1 c2. \<lparr>fpc = k, fn = int (Suc (Suc n)), ffrom = a, fto = b, fvia = c, fc1 = c1, fc2 = c2\<rparr>)"
  define L where "L = (\<lambda>s r w. hanoi_nr_loop \<lparr>stk = s, retval = r, out = w\<rparr>)"
  let ?v = "2 ^ Suc n - 1 :: int"
  have step: "hanoi_nr_step f fs \<lparr>stk = f # fs, retval = r, out = w\<rparr> = Some \<lparr>stk = s', retval = r', out = w'\<rparr> \<Longrightarrow>
      L (f # fs) r w = L s' r' w'" for f fs r w s' r' w'
    unfolding L_def by (rule nr_turn)
  have len: "length fs + 1 < 64" using Suc.prems by simp
  have "L (frame0 (int (Suc (Suc n))) a b c # fs) r w = L (f 1 0 0 # fs) r w"
    by (rule step) (simp add: nr_step_simps f_def)
  also have "\<dots> = L (frame0 (int (Suc n)) a c b # f 2 0 0 # fs) r w"
    using len by (intro step) (simp add: nr_step_simps f_def)
  also have "\<dots> = L (f 2 0 0 # fs) ?v (w @ hanoi_moves (Suc n) a c b)"
    unfolding L_def using Suc.prems by (intro Suc.IH) simp
  also have "\<dots> = L (f 3 ?v 0 # fs) ?v (w @ hanoi_moves (Suc n) a c b)"
    by (rule step) (simp add: nr_step_simps f_def)
  also have "\<dots> = L (frame0 1 a b c # f 4 ?v 0 # fs) ?v (w @ hanoi_moves (Suc n) a c b)"
    using len by (intro step) (simp add: nr_step_simps f_def)
  also have "\<dots> = L (f 4 ?v 0 # fs) 1 (w @ hanoi_moves (Suc n) a c b @ [(a, b)])"
    unfolding L_def by (simp add: nr_one)
  also have "\<dots> = L (frame0 (int (Suc n)) c b a # f 5 ?v 0 # fs) 1 (w @ hanoi_moves (Suc n) a c b @ [(a, b)])"
    using len by (intro step) (simp add: nr_step_simps f_def)
  also have "\<dots> = L (f 5 ?v 0 # fs) ?v ((w @ hanoi_moves (Suc n) a c b @ [(a, b)]) @ hanoi_moves (Suc n) c b a)"
    unfolding L_def using Suc.prems by (intro Suc.IH) simp
  also have "\<dots> = L (f 6 ?v ?v # fs) ?v (w @ hanoi_moves (Suc (Suc n)) a b c)"
    by (rule step) (simp add: nr_step_simps f_def)
  also have "\<dots> = L fs (?v + ?v + 1) (w @ hanoi_moves (Suc (Suc n)) a b c)"
    by (rule step) (simp add: nr_step_simps f_def)
  finally show ?case by (simp add: L_def)
qed

lemma hanoi_nr_moves:
  assumes "Suc n \<le> 64"
  shows "hanoi_nr (int (Suc n)) a b c = Some (hanoi_moves (Suc n) a b c, 2 ^ Suc n - 1)"
  using nr_frame [of "[]" n a b c 0 "[]"] assms
  by (simp add: hanoi_nr_def call_nr_def frame0_def hanoi_nr_loop.simps [of "\<lparr>stk = [], retval = r, out = w\<rparr>" for r w])

definition lframe :: "int \<Rightarrow> char \<Rightarrow> char \<Rightarrow> char \<Rightarrow> nat \<Rightarrow> LoopFrame" where
  "lframe n a b c k = \<lparr>ln = n, lfrom = a, lto = b, ltmp = c, lstage = k\<rparr>"

lemma fl_turn: "for_loop_step f fs w k = Some s \<Longrightarrow> for_loop_run (f # fs, w, k) = for_loop_run s"
  by (subst for_loop_run.simps) simp

lemmas fl_step_simps = for_loop_step_def push_frame_def lframe_def

lemma fl_frame:
  assumes "length fs + Suc n \<le> MAX_STACK_DEEP"
  shows "for_loop_run (lframe (int (Suc n)) a b c 0 # fs, w, k) =
    for_loop_run (fs, w @ hanoi_moves (Suc n) a b c, k + (2 ^ Suc n - 1))"
  using assms
proof (induction n arbitrary: a b c fs w k)
  case 0
  then show ?case by (intro fl_turn) (simp add: fl_step_simps)
next
  case (Suc n)
  let ?N = "int (Suc (Suc n))" and ?v = "2 ^ Suc n - 1 :: int"
  have len: "length fs + 1 < MAX_STACK_DEEP" using Suc.prems by simp
  have "for_loop_run (lframe ?N a b c 0 # fs, w, k) = for_loop_run (lframe (int (Suc n)) a c b 0 # lframe ?N a b c 1 # fs, w, k)"
    using len by (intro fl_turn) (simp add: fl_step_simps)
  also have "\<dots> = for_loop_run (lframe ?N a b c 1 # fs, w @ hanoi_moves (Suc n) a c b, k + ?v)"
    using Suc.prems by (intro Suc.IH) simp
  also have "\<dots> = for_loop_run (lframe ?N a b c 2 # fs, w @ hanoi_moves (Suc n) a c b @ [(a, b)], k + ?v + 1)"
    by (rule fl_turn) (simp add: fl_step_simps)
  also have "\<dots> = for_loop_run (lframe (int (Suc n)) c b a 0 # lframe ?N a b c 3 # fs,
      w @ hanoi_moves (Suc n) a c b @ [(a, b)], k + ?v + 1)"
    using len by (intro fl_turn) (simp add: fl_step_simps)
  also have "\<dots> = for_loop_run (lframe ?N a b c 3 # fs,
      (w @ hanoi_moves (Suc n) a c b @ [(a, b)]) @ hanoi_moves (Suc n) c b a, k + ?v + 1 + ?v)"
    using Suc.prems by (intro Suc.IH) simp
  also have "\<dots> = for_loop_run (fs, (w @ hanoi_moves (Suc n) a c b @ [(a, b)]) @ hanoi_moves (Suc n) c b a, k + ?v + 1 + ?v)"
    by (rule fl_turn) (simp add: fl_step_simps)
  finally show ?case by (simp add: algebra_simps)
qed

lemma hanoi_for_loop_moves:
  assumes "Suc n \<le> MAX_STACK_DEEP"
  shows "hanoi_for_loop (int (Suc n)) a b c = Some (hanoi_moves (Suc n) a b c, 2 ^ Suc n - 1)"
  using fl_frame [of "[]" n a b c "[]" 0] assms
  by (simp add: hanoi_for_loop_def push_frame_def lframe_def for_loop_run.simps [of "([], w, k)" for w k])

text \<open>Without a disc the recursive program never reaches its base case.\<close>

lemma hanoi_r_diverges: "n \<le> 0 \<Longrightarrow> hanoi_r n a b c = None"
proof (rule ccontr)
  assume n: "n \<le> 0" "hanoi_r n a b c \<noteq> None"
  then obtain r where "hanoi_r n a b c = Some r" by blast
  then have "\<not> n \<le> 0"
    by (induction rule: hanoi_r.raw_induct [rotated, consumes 1]) (force split: if_splits bind_splits)
  then show False using n(1) by simp
qed

text \<open>C39: The three Hanoi programs agree for every number of discs from 1 to 31 (the returned count then fits an \<open>int\<close> and the
  stack arrays are large enough): each ends, prints the same moves and returns their number, \<open>2^n - 1\<close>; and played on
  three distinct pegs the moves are legal and bring the tower from the first to the second peg.\<close>

theorem hanoi_programs_agree:
  assumes "1 \<le> n" and "n \<le> 31" and "distinct [from, to, via]"
  shows "\<exists>ms. hanoi_r (int n) from to via = Some (ms, 2 ^ n - 1) \<and> hanoi_nr (int n) from to via = Some (ms, 2 ^ n - 1) \<and>
    hanoi_for_loop (int n) from to via = Some (ms, 2 ^ n - 1) \<and> length ms = 2 ^ n - 1 \<and>
    play ms ((\<lambda>_. [])(from := [0..<n])) = Some ((\<lambda>_. [])(to := [0..<n]))"
proof -
  obtain k where k: "n = Suc k" using assms(1) by (cases n) simp_all
  have "(((\<lambda>_. [])(from := [0..<n]))(from := [], to := [0..<n])) = (\<lambda>_. [])(to := [0..<n])"
    using assms(3) by (auto simp: fun_eq_iff)
  then have "play (hanoi_moves n from to via) ((\<lambda>_. [])(from := [0..<n])) = Some ((\<lambda>_. [])(to := [0..<n]))"
    using hanoi_play [of "from" to via "(\<lambda>_. [])(from := [0..<n])" n "[]"] assms(3) by auto
  moreover have "length (hanoi_moves n from to via) = 2 ^ n - 1"
    using length_hanoi_moves [of n "from" to via] by linarith
  ultimately show ?thesis
    using hanoi_r_moves [of k "from" to via] hanoi_nr_moves [of k "from" to via] hanoi_for_loop_moves [of k "from" to via] assms(2)
    unfolding k [symmetric] by (intro exI [of _ "hanoi_moves n from to via"]) (simp add: MAX_STACK_DEEP_def)
qed

theorem hanoi_programs_agree_witness:
  "\<exists>ms. hanoi_r 3 CHR ''A'' CHR ''B'' CHR ''C'' = Some (ms, 7) \<and> hanoi_nr 3 CHR ''A'' CHR ''B'' CHR ''C'' = Some (ms, 7) \<and>
     hanoi_for_loop 3 CHR ''A'' CHR ''B'' CHR ''C'' = Some (ms, 7)"
  using hanoi_programs_agree [of 3 "CHR ''A''" "CHR ''B''" "CHR ''C''"] by auto

end
